(* ===== verification/Prelude.thy ===== *)
theory Prelude
  imports Main "HOL-Library.Word" "HOL-Library.AList" "HOL-Library.Stream"
begin

text \<open>
  Shared vocabulary of the development: the Go values the components use (fixed-width integers,
  instants and durations, byte strings, maps that are iterated) and the generic list lemmas the
  component proofs rest on. Nothing here is about one component.

  The collection \<open>defs\<close> holds the unfolding equations of small accessor-like definitions and
  \<open>bounds\<close> the range facts of the machine integers.
\<close>

named_theorems defs "unfolding equations of small definitions"
named_theorems bounds "ranges of fixed-width integers"

section \<open>Fixed-width integers\<close>

text \<open>
  A Go \<open>int64\<close> is an \<open>int\<close> between \<open>-2^63\<close> and \<open>2^63 - 1\<close>; arithmetic that can leave that
  range goes through \<open>wrap64\<close>, which is two's complement wrap-around.
\<close>

definition wrap64 :: "int \<Rightarrow> int" where
  "wrap64 n = (n + 2 ^ 63) mod 2 ^ 64 - 2 ^ 63"

definition max_int64 :: int where "max_int64 = 2 ^ 63 - 1"

definition min_int64 :: int where "min_int64 = - (2 ^ 63)"

definition max_int32 :: int where "max_int32 = 2 ^ 31 - 1"

definition is_int64 :: "int \<Rightarrow> bool" where
  "is_int64 n \<longleftrightarrow> min_int64 \<le> n \<and> n \<le> max_int64"

lemmas int64_defs [defs] = max_int64_def min_int64_def max_int32_def is_int64_def

lemma wrap64_id [simp]: "is_int64 n \<Longrightarrow> wrap64 n = n"
  unfolding wrap64_def int64_defs by simp

lemma is_int64_wrap64 [simp, bounds]: "is_int64 (wrap64 n)"
proof -
  have "0 \<le> (n + 2 ^ 63) mod 2 ^ 64" "(n + 2 ^ 63) mod 2 ^ 64 < 2 ^ 64" by simp_all
  then show ?thesis unfolding wrap64_def int64_defs by simp
qed

lemma wrap64_idem [simp]: "wrap64 (wrap64 n) = wrap64 n"
  by simp

section \<open>Instants and durations\<close>

text \<open>
  A \<open>time.Time\<close> is the number of nanoseconds since the zero \<open>time.Time\<close>, so \<open>IsZero\<close> is \<open>= 0\<close>
  and \<open>Before\<close>/\<open>After\<close> are \<open><\<close>. A \<open>time.Duration\<close> is an \<open>int64\<close> count of nanoseconds, and
  \<open>Sub\<close> saturates at the ends of that range, as the library documents.
\<close>

type_synonym gotime = int
type_synonym duration = int

abbreviation (input) zero_time :: gotime where "zero_time \<equiv> 0"

abbreviation (input) second :: duration where "second \<equiv> 1000000000"
abbreviation (input) millisecond :: duration where "millisecond \<equiv> 1000000"
abbreviation (input) minute :: duration where "minute \<equiv> 60000000000"

definition time_sub :: "gotime \<Rightarrow> gotime \<Rightarrow> duration" where
  "time_sub t u = max min_int64 (min max_int64 (t - u))"

lemma time_sub_less_iff: "is_int64 d \<Longrightarrow> min_int64 < d \<Longrightarrow> time_sub t u < d \<longleftrightarrow> t - u < d"
  unfolding time_sub_def int64_defs by auto

lemma time_sub_greater_iff: "is_int64 d \<Longrightarrow> d < max_int64 \<Longrightarrow> d < time_sub t u \<longleftrightarrow> d < t - u"
  unfolding time_sub_def int64_defs by auto

section \<open>Byte strings\<close>

text \<open>
  A Go string is a sequence of bytes, here a \<open>string\<close>. Case folding is ASCII: host names, methods,
  header names and authentication schemes are ASCII, and other bytes are compared as they are.
\<close>

definition is_upper :: "char \<Rightarrow> bool" where
  "is_upper c \<longleftrightarrow> 65 \<le> (of_char c :: nat) \<and> (of_char c :: nat) \<le> 90"

definition is_lower :: "char \<Rightarrow> bool" where
  "is_lower c \<longleftrightarrow> 97 \<le> (of_char c :: nat) \<and> (of_char c :: nat) \<le> 122"

definition is_digit :: "char \<Rightarrow> bool" where
  "is_digit c \<longleftrightarrow> 48 \<le> (of_char c :: nat) \<and> (of_char c :: nat) \<le> 57"

definition to_lower :: "char \<Rightarrow> char" where
  "to_lower c = (if is_upper c then char_of (of_char c + 32 :: nat) else c)"

definition to_upper :: "char \<Rightarrow> char" where
  "to_upper c = (if is_lower c then char_of (of_char c - 32 :: nat) else c)"

definition EqualFold :: "string \<Rightarrow> string \<Rightarrow> bool" where
  "EqualFold s t \<longleftrightarrow> map to_lower s = map to_lower t"

definition HasPrefix :: "string \<Rightarrow> string \<Rightarrow> bool" where
  "HasPrefix s p \<longleftrightarrow> take (length p) s = p"

lemma EqualFold_refl [simp]: "EqualFold s s"
  by (simp add: EqualFold_def)

lemma EqualFold_sym: "EqualFold s t \<longleftrightarrow> EqualFold t s"
  by (auto simp: EqualFold_def)

lemma EqualFold_trans: "EqualFold s t \<Longrightarrow> EqualFold t u \<Longrightarrow> EqualFold s u"
  by (simp add: EqualFold_def)

lemma HasPrefix_iff: "HasPrefix s p \<longleftrightarrow> (\<exists>t. s = p @ t)"
  unfolding HasPrefix_def by (metis append_eq_conv_conj append_take_drop_id)

fun split_on :: "char \<Rightarrow> string \<Rightarrow> string list" where
  "split_on c [] = [[]]"
| "split_on c (x # xs) =
     (if x = c then [] # split_on c xs
      else (case split_on c xs of [] \<Rightarrow> [[x]] | w # ws \<Rightarrow> (x # w) # ws))"

lemma split_on_ne [simp]: "split_on c s \<noteq> []"
  by (induction s) (auto split: list.splits)

text \<open>\<open>strconv.Itoa\<close> on numbers that are not negative.\<close>

fun itoa :: "nat \<Rightarrow> string" where
  "itoa n = (if n < 10 then [char_of (48 + n)] else itoa (n div 10) @ [char_of (48 + n mod 10)])"

declare itoa.simps [simp del]

section \<open>Lists\<close>

text \<open>
  \<open>update_first p f\<close> changes the first element satisfying \<open>p\<close>: the shape of every Go loop that
  looks an entry up by address, changes it through its pointer and breaks.
\<close>

fun update_first :: "('a \<Rightarrow> bool) \<Rightarrow> ('a \<Rightarrow> 'a) \<Rightarrow> 'a list \<Rightarrow> 'a list" where
  "update_first p f [] = []"
| "update_first p f (x # xs) = (if p x then f x # xs else x # update_first p f xs)"

lemma length_update_first [simp]: "length (update_first p f xs) = length xs"
  by (induction xs) auto

lemma map_update_first: "(\<And>x. g (f x) = g x) \<Longrightarrow> map g (update_first p f xs) = map g xs"
  by (induction xs) auto

lemma update_first_None: "find p xs = None \<Longrightarrow> update_first p f xs = xs"
  by (induction xs) (auto split: if_splits)

lemma update_first_cong_find:
  "(\<And>x. find p xs = Some x \<Longrightarrow> f x = g x) \<Longrightarrow> update_first p f xs = update_first p g xs"
  by (induction xs) auto

lemma update_first_comp:
  "(\<And>x. p (f x) = p x) \<Longrightarrow> update_first p g (update_first p f xs) = update_first p (g \<circ> f) xs"
  by (induction xs) auto

lemma update_first_ident: "(\<And>x. x \<in> set xs \<Longrightarrow> p x \<Longrightarrow> f x = x) \<Longrightarrow> update_first p f xs = xs"
  by (induction xs) auto

lemma find_update_first:
  "(\<And>x. p (f x) = p x) \<Longrightarrow> find p (update_first p f xs) = map_option f (find p xs)"
  by (induction xs) auto

lemma set_update_first: "set (update_first p f xs) \<subseteq> set xs \<union> f ` {x \<in> set xs. p x}"
  by (induction xs) auto

lemma update_first_in_setD:
  "y \<in> set (update_first p f xs) \<Longrightarrow> y \<in> set xs \<or> (\<exists>x. find p xs = Some x \<and> y = f x)"
  by (induction xs) (auto split: if_splits)

lemma find_SomeD: "find p xs = Some x \<Longrightarrow> x \<in> set xs \<and> p x"
  by (induction xs) (auto split: if_splits)

lemma find_eq_None: "find p xs = None \<longleftrightarrow> (\<forall>x \<in> set xs. \<not> p x)"
  by (induction xs) auto

lemma update_first_nth:
  assumes "i < length xs" "p (xs ! i)" "\<And>j. j < i \<Longrightarrow> \<not> p (xs ! j)"
  shows "update_first p f xs = xs[i := f (xs ! i)]"
  using assms
proof (induction xs arbitrary: i)
  case (Cons x xs)
  show ?case
  proof (cases i)
    case (Suc k)
    moreover have "\<not> p x" using Cons.prems(3)[of 0] Suc by simp
    moreover have "update_first p f xs = xs[k := f (xs ! k)]"
      using Cons.prems Suc by (intro Cons.IH) force+
    ultimately show ?thesis by simp
  qed (use Cons.prems in simp)
qed simp

text \<open>Counting the elements that satisfy a predicate, as a number.\<close>

definition count_if :: "('a \<Rightarrow> bool) \<Rightarrow> 'a list \<Rightarrow> int" where
  "count_if p xs = int (length (filter p xs))"

lemma count_if_simps [simp]:
  "count_if p [] = 0"
  "count_if p (x # xs) = (if p x then 1 else 0) + count_if p xs"
  by (auto simp: count_if_def)

lemma count_if_nonneg [simp]: "0 \<le> count_if p xs"
  by (simp add: count_if_def)

lemma count_if_le_length: "count_if p xs \<le> int (length xs)"
  by (simp add: count_if_def)

lemma count_if_mono: "(\<And>x. x \<in> set xs \<Longrightarrow> p x \<Longrightarrow> q x) \<Longrightarrow> count_if p xs \<le> count_if q xs"
  by (induction xs) auto

lemma count_if_pos_iff: "0 < count_if p xs \<longleftrightarrow> (\<exists>x \<in> set xs. p x)"
  by (induction xs) (auto simp: add_pos_nonneg)

lemma count_if_update_first_le:
  "count_if p (update_first q f xs) \<le> count_if p xs + 1"
  by (induction xs) auto

lemma count_if_update_first_same:
  "(\<And>x. p (f x) = p x) \<Longrightarrow> count_if p (update_first q f xs) = count_if p xs"
  by (induction xs) auto

section \<open>Random draws\<close>

text \<open>
  A \<open>rand.Rand\<close> is the stream of its future raw draws; \<open>Intn n\<close> takes the next one and reduces it
  to \<open>0..<n\<close>. The stream is arbitrary, so a theorem about every stream is a theorem about every
  sequence of outcomes the generator can produce.
\<close>

definition Intn :: "nat \<Rightarrow> nat stream \<Rightarrow> nat \<times> nat stream" where
  "Intn n s = (shd s mod n, stl s)"

lemma Intn_less: "0 < n \<Longrightarrow> fst (Intn n s) < n"
  by (simp add: Intn_def)

end
