(* ===== verification/Float64.thy ===== *)
theory Float64
  imports Prelude Complex_Main "HOL-Library.Log_Nat"
begin

text \<open>
  Go's \<open>float64\<close>, restricted to the values the load balancer computes with: finite numbers whose
  magnitude is far from the ends of the format, so a \<open>float64\<close> is a rational and an arithmetic
  operation is the exact one followed by \<open>f64\<close>, rounding to 53 significant bits, ties to even.

  Shown here: rounding is monotone, its relative error is at most \<open>2^-53\<close>, and it keeps apart
  two positive numbers that differ by more than a \<open>2^-52\<close> part. The selection theorems of the
  backend list use the last fact.
\<close>

section \<open>Definition\<close>

text \<open>Round to the nearest integer, ties to even.\<close>

definition round_even :: "rat \<Rightarrow> int" where
  "round_even y =
     (let f = \<lfloor>y\<rfloor>; r = y - of_int f
      in if r < 1 / 2 then f else if r > 1 / 2 then f + 1 else if even f then f else f + 1)"

text \<open>\<open>pow2 e\<close> is two to an integer power and \<open>ilog2 x\<close> the exponent of a positive rational:
  \<open>pow2 (ilog2 x) \<le> x < pow2 (ilog2 x + 1)\<close>.\<close>

definition pow2 :: "int \<Rightarrow> rat" where
  "pow2 e = (if 0 \<le> e then 2 ^ nat e else 1 / 2 ^ nat (- e))"

definition ilog2 :: "rat \<Rightarrow> int" where
  "ilog2 x =
     (let (n, d) = quotient_of x; k = int (floorlog 2 (nat n)) - int (floorlog 2 (nat d))
      in if pow2 k \<le> x then k else k - 1)"

definition f64_pos :: "rat \<Rightarrow> rat" where
  "f64_pos x = (let e = ilog2 x - 52 in of_int (round_even (x / pow2 e)) * pow2 e)"

definition f64 :: "rat \<Rightarrow> rat" where
  "f64 x = (if x = 0 then 0 else if 0 < x then f64_pos x else - f64_pos (- x))"

section \<open>Powers of two and exponents\<close>

lemma pow2_pos [simp]: "0 < pow2 e"
  by (simp add: pow2_def)

lemma pow2_nz [simp]: "pow2 e \<noteq> 0"
  using pow2_pos [of e] by (metis less_irrefl)

lemma pow2_0 [simp]: "pow2 0 = 1"
  by (simp add: pow2_def)

lemma pow2_Suc: "pow2 (e + 1) = 2 * pow2 e"
proof (cases "0 \<le> e")
  case True
  then have "nat (e + 1) = Suc (nat e)" by simp
  with True show ?thesis by (simp add: pow2_def)
next
  case False
  then have n: "nat (- e) = Suc (nat (- (e + 1)))" by simp
  show ?thesis
  proof (cases "e = - 1")
    case True
    then show ?thesis by (simp add: pow2_def)
  next
    case False
    with \<open>\<not> 0 \<le> e\<close> have "\<not> 0 \<le> e + 1" by simp
    then have "pow2 (e + 1) = 1 / 2 ^ nat (- (e + 1))" by (simp only: pow2_def if_False)
    also have "\<dots> = 2 * (1 / 2 ^ Suc (nat (- (e + 1))))" by simp
    also have "\<dots> = 2 * pow2 e" using \<open>\<not> 0 \<le> e\<close> by (simp only: pow2_def if_False n)
    finally show ?thesis .
  qed
qed

lemma pow2_add_nat: "pow2 (e + int n) = pow2 e * 2 ^ n"
proof (induction n)
  case (Suc n)
  have "pow2 (e + int (Suc n)) = pow2 ((e + int n) + 1)" by (simp add: algebra_simps)
  also have "\<dots> = 2 * pow2 (e + int n)" by (rule pow2_Suc)
  finally show ?case using Suc by simp
qed simp

lemma pow2_mono: "e \<le> e' \<Longrightarrow> pow2 e \<le> pow2 e'"
proof -
  assume "e \<le> e'"
  then have "pow2 e' = pow2 e * 2 ^ nat (e' - e)" using pow2_add_nat [of e "nat (e' - e)"] by simp
  moreover have "pow2 e * 1 \<le> pow2 e * 2 ^ nat (e' - e)"
    by (rule mult_left_mono) (simp_all add: less_imp_le)
  ultimately show ?thesis by simp
qed

lemma pow2_less_cancel: "pow2 e < pow2 e' \<Longrightarrow> e < e'"
  using pow2_mono [of e' e] by linarith

lemma pow2_diff: "pow2 (int a - int b) = 2 ^ a / 2 ^ b"
proof -
  have "pow2 (int a - int b) * 2 ^ b = pow2 (int a)"
    using pow2_add_nat [of "int a - int b" b] by simp
  then show ?thesis by (simp add: pow2_def field_simps)
qed

lemma floorlog2_bounds:
  assumes "0 < n" shows "2 ^ (floorlog 2 n - 1) \<le> n" "n < 2 ^ floorlog 2 n" "1 \<le> floorlog 2 n"
proof -
  show "1 \<le> floorlog 2 n" using assms by (simp add: floorlog_def)
  show "2 ^ (floorlog 2 n - 1) \<le> n" "n < 2 ^ floorlog 2 n"
    using floorlog_bounds [of n 2] assms by auto
qed

lemma ilog2_bounds:
  assumes "0 < x" shows "pow2 (ilog2 x) \<le> x" "x < pow2 (ilog2 x + 1)"
proof -
  obtain n d where q: "quotient_of x = (n, d)" by (cases "quotient_of x")
  have d: "0 < d" using q quotient_of_denom_pos by blast
  have x: "x = of_int n / of_int d" using q by (rule quotient_of_div)
  have n: "0 < n" using assms d x by (simp add: zero_less_divide_iff)
  define a b where "a = floorlog 2 (nat n)" and "b = floorlog 2 (nat d)"
  have A: "2 ^ (a - 1) \<le> nat n" "nat n < 2 ^ a" "1 \<le> a"
    and B: "2 ^ (b - 1) \<le> nat d" "nat d < 2 ^ b" "1 \<le> b"
    using floorlog2_bounds [of "nat n"] floorlog2_bounds [of "nat d"] n d
    by (auto simp: a_def b_def)
  have rn: "(of_int n :: rat) = of_nat (nat n)" and rd: "(of_int d :: rat) = of_nat (nat d)"
    using n d by (simp_all add: of_nat_nat)
  have An: "(2::rat) ^ (a - 1) \<le> of_int n" "(of_int n :: rat) < 2 ^ a"
    unfolding rn using A by (metis of_nat_le_iff of_nat_numeral of_nat_power, metis of_nat_less_iff of_nat_numeral of_nat_power)
  have Bd: "(2::rat) ^ (b - 1) \<le> of_int d" "(of_int d :: rat) < 2 ^ b"
    unfolding rd using B by (metis of_nat_le_iff of_nat_numeral of_nat_power, metis of_nat_less_iff of_nat_numeral of_nat_power)
  have d0: "(0::rat) < of_int d" using d by simp
  have hi: "x < pow2 (int a - int b + 1)"
  proof -
    have "x < 2 ^ a / of_int d" unfolding x using An(2) d0 by (simp add: divide_strict_right_mono)
    also have "\<dots> \<le> 2 ^ a / 2 ^ (b - 1)"
      using Bd(1) d0 by (intro divide_left_mono mult_pos_pos) auto
    also have "\<dots> = pow2 (int a - int (b - 1))" by (simp add: pow2_diff)
    finally show ?thesis using B(3) by (simp add: of_nat_diff algebra_simps)
  qed
  have lo: "pow2 (int a - int b - 1) \<le> x"
  proof -
    have "pow2 (int (a - 1) - int b) = 2 ^ (a - 1) / 2 ^ b" by (simp add: pow2_diff)
    also have "\<dots> \<le> 2 ^ (a - 1) / of_int d" using Bd(2) d0 by (intro divide_left_mono mult_pos_pos) auto
    also have "\<dots> \<le> x" unfolding x using An(1) d0 by (intro divide_right_mono) auto
    finally show ?thesis using A(3) by (simp add: of_nat_diff algebra_simps)
  qed
  have "ilog2 x = (if pow2 (int a - int b) \<le> x then int a - int b else int a - int b - 1)"
    by (simp add: ilog2_def q a_def b_def Let_def)
  then show "pow2 (ilog2 x) \<le> x" "x < pow2 (ilog2 x + 1)"
    using hi lo by (auto split: if_splits)
qed

lemma ilog2_mono: assumes "0 < x" "x \<le> y" shows "ilog2 x \<le> ilog2 y"
proof -
  have "pow2 (ilog2 x) < pow2 (ilog2 y + 1)"
    using ilog2_bounds [of x] ilog2_bounds [of y] assms by linarith
  then show ?thesis using pow2_less_cancel by fastforce
qed

section \<open>Rounding\<close>

lemma round_even_error: "\<bar>of_int (round_even y) - y\<bar> \<le> 1 / 2"
proof -
  have f: "of_int \<lfloor>y\<rfloor> \<le> y" "y < of_int \<lfloor>y\<rfloor> + 1" by linarith+
  then show ?thesis unfolding round_even_def Let_def by (auto simp: abs_le_iff)
qed

lemma round_even_of_int [simp]: "round_even (of_int n) = n"
  by (simp add: round_even_def)

lemma round_even_mono: assumes "y \<le> z" shows "round_even y \<le> round_even z"
proof (cases "\<lfloor>y\<rfloor> = \<lfloor>z\<rfloor>")
  case True
  with assms show ?thesis unfolding round_even_def Let_def by auto
next
  case False
  with assms have "\<lfloor>y\<rfloor> + 1 \<le> \<lfloor>z\<rfloor>" using floor_mono [of y z] by linarith
  moreover have "round_even y \<le> \<lfloor>y\<rfloor> + 1" "\<lfloor>z\<rfloor> \<le> round_even z"
    unfolding round_even_def Let_def by auto
  ultimately show ?thesis by linarith
qed

lemma f64_pos_scaled:
  assumes "0 < x"
  defines "e \<equiv> ilog2 x - 52"
  shows "2 ^ 52 \<le> x / pow2 e" "x / pow2 e < 2 ^ 53"
    "2 ^ 52 \<le> round_even (x / pow2 e)" "round_even (x / pow2 e) \<le> 2 ^ 53"
proof -
  have "pow2 (ilog2 x) = pow2 e * 2 ^ 52" "pow2 (ilog2 x + 1) = pow2 e * 2 ^ 53"
    using pow2_add_nat [of e 52] pow2_add_nat [of e 53] by (simp_all add: e_def algebra_simps)
  then show s: "2 ^ 52 \<le> x / pow2 e" "x / pow2 e < 2 ^ 53"
    using ilog2_bounds [OF assms(1)] by (simp_all add: field_simps)
  have "round_even (of_int (2 ^ 52)) \<le> round_even (x / pow2 e)"
    using s by (intro round_even_mono) simp
  then show "2 ^ 52 \<le> round_even (x / pow2 e)" by (simp only: round_even_of_int)
  have "round_even (x / pow2 e) \<le> round_even (of_int (2 ^ 53))"
    using s by (intro round_even_mono) simp
  then show "round_even (x / pow2 e) \<le> 2 ^ 53" by (simp only: round_even_of_int)
qed

lemma f64_pos_mono:
  assumes "0 < x" "x \<le> y" shows "f64_pos x \<le> f64_pos y"
proof -
  define e e' where "e = ilog2 x - 52" and "e' = ilog2 y - 52"
  have le: "e \<le> e'" using ilog2_mono [OF assms] by (simp add: e_def e'_def)
  have y: "0 < y" using assms by simp
  have fx: "f64_pos x = of_int (round_even (x / pow2 e)) * pow2 e"
    and fy: "f64_pos y = of_int (round_even (y / pow2 e')) * pow2 e'"
    by (simp_all add: f64_pos_def e_def e'_def Let_def)
  show ?thesis
  proof (cases "e = e'")
    case True
    have "x / pow2 e \<le> y / pow2 e" using assms by (simp add: divide_right_mono less_imp_le)
    then have "round_even (x / pow2 e) \<le> round_even (y / pow2 e)" by (rule round_even_mono)
    then show ?thesis unfolding fx fy True by (simp add: mult_right_mono less_imp_le)
  next
    case False
    have "(of_int (round_even (x / pow2 e)) :: rat) \<le> of_int (2 ^ 53)"
      using f64_pos_scaled(4) [OF assms(1)] unfolding e_def by (simp only: of_int_le_iff)
    then have "f64_pos x \<le> 2 ^ 53 * pow2 e" unfolding fx by (simp add: mult_right_mono less_imp_le)
    also have "\<dots> = 2 ^ 52 * pow2 (e + 1)" by (simp add: pow2_Suc)
    also have "\<dots> \<le> 2 ^ 52 * pow2 e'" using le False by (intro mult_left_mono pow2_mono) auto
    also have "\<dots> \<le> f64_pos y"
    proof -
      have "(of_int (2 ^ 52) :: rat) \<le> of_int (round_even (y / pow2 e'))"
        using f64_pos_scaled(3) [OF y] unfolding e'_def by (simp only: of_int_le_iff)
      then show ?thesis unfolding fy by (simp add: mult_right_mono less_imp_le)
    qed
    finally show ?thesis .
  qed
qed

lemma f64_pos_error: assumes "0 < x" shows "\<bar>f64_pos x - x\<bar> \<le> x / 2 ^ 53"
proof -
  define e where "e = ilog2 x - 52"
  let ?y = "x / pow2 e"
  have "f64_pos x - x = (of_int (round_even ?y) - ?y) * pow2 e"
    by (simp add: f64_pos_def e_def Let_def algebra_simps)
  then have "\<bar>f64_pos x - x\<bar> = \<bar>of_int (round_even ?y) - ?y\<bar> * pow2 e"
    by (simp add: abs_mult less_imp_le)
  also have "\<dots> \<le> 1 / 2 * pow2 e"
    using round_even_error [of ?y] by (intro mult_right_mono) (auto simp: less_imp_le)
  also have "\<dots> \<le> x / 2 ^ 53"
    using f64_pos_scaled(1) [OF assms] by (simp add: e_def field_simps)
  finally show ?thesis .
qed

lemma f64_0 [simp]: "f64 0 = 0"
  by (simp add: f64_def)

lemma f64_pos_pos: "0 < x \<Longrightarrow> 0 < f64_pos x"
proof -
  assume x: "0 < x"
  have "2 ^ 52 \<le> round_even (x / pow2 (ilog2 x - 52))" using x by (rule f64_pos_scaled(3))
  then have "0 < round_even (x / pow2 (ilog2 x - 52))" by simp
  then show ?thesis by (simp add: f64_pos_def Let_def)
qed

lemma f64_mono: "0 \<le> x \<Longrightarrow> x \<le> y \<Longrightarrow> f64 x \<le> f64 y"
  by (cases "x = 0") (auto simp: f64_def f64_pos_mono f64_pos_pos less_imp_le)

lemma f64_nonneg: "0 \<le> x \<Longrightarrow> 0 \<le> f64 x"
  using f64_mono [of 0 x] by simp

text \<open>Two numbers more than a \<open>2^-52\<close> part apart stay apart.\<close>

lemma f64_strict:
  assumes "0 \<le> x" "x < y" "y / 2 ^ 52 \<le> y - x" shows "f64 x < f64 y"
proof (cases "x = 0")
  case True
  with assms show ?thesis by (simp add: f64_def f64_pos_pos)
next
  case False
  then have x: "0 < x" and y: "0 < y" using assms by auto
  have "f64_pos x \<le> x + x / 2 ^ 53" using f64_pos_error [OF x] by linarith
  also have "\<dots> < y - y / 2 ^ 53"
  proof -
    have "x / 2 ^ 53 < y / 2 ^ 53" using assms by (simp add: divide_strict_right_mono)
    moreover have "y / 2 ^ 52 = y / 2 ^ 53 + y / 2 ^ 53" by simp
    ultimately show ?thesis using assms(3) by linarith
  qed
  also have "\<dots> \<le> f64_pos y" using f64_pos_error [OF y] by linarith
  finally show ?thesis using x y by (simp add: f64_def)
qed

text \<open>Integers of at most 53 bits are represented exactly.\<close>

lemma f64_pos_exact: assumes "0 < n" "n \<le> 2 ^ 53" shows "f64_pos (of_int n) = of_int n"
proof (cases "n = 2 ^ 53")
  case True
  have "ilog2 (of_int n) = 53"
  proof -
    have "pow2 (ilog2 (of_int n)) < pow2 (53 + 1)" "pow2 53 < pow2 (ilog2 (of_int n) + 1)"
      using ilog2_bounds [of "of_int n"] assms by (auto simp: True pow2_def)
    then have "ilog2 (of_int n :: rat) < 53 + 1" "53 < ilog2 (of_int n :: rat) + 1"
      by (auto dest: pow2_less_cancel)
    then show ?thesis by linarith
  qed
  moreover have "(of_int n :: rat) / pow2 1 = of_int (2 ^ 52)" by (simp add: True pow2_def)
  then have "round_even (of_int n / pow2 1) = 2 ^ 52" by (simp only: round_even_of_int)
  ultimately show ?thesis by (simp add: f64_pos_def Let_def True pow2_def)
next
  case False
  define e where "e = ilog2 (of_int n :: rat) - 52"
  have "pow2 (ilog2 (of_int n)) < pow2 53"
  proof -
    have "pow2 (ilog2 (of_int n)) \<le> of_int n" using assms by (intro ilog2_bounds) simp
    also have "\<dots> < of_int (2 ^ 53)" using assms False by (simp only: of_int_less_iff)
    finally show ?thesis by (simp add: pow2_def)
  qed
  then have "e \<le> 0" using pow2_less_cancel by (fastforce simp: e_def)
  then have p: "pow2 e = 1 / 2 ^ nat (- e)" by (cases "e = 0") (auto simp: pow2_def)
  have "(of_int n :: rat) / pow2 e = of_int (n * 2 ^ nat (- e))" by (simp add: p)
  then have "round_even (of_int n / pow2 e) = n * 2 ^ nat (- e)" by (simp only: round_even_of_int)
  then show ?thesis unfolding f64_pos_def Let_def e_def [symmetric] by (simp add: p)
qed

lemma f64_exact: "0 \<le> n \<Longrightarrow> n \<le> 2 ^ 53 \<Longrightarrow> f64 (of_int n) = of_int n"
  by (cases "n = 0") (auto simp: f64_def f64_pos_exact)

end
