(* ===== verification/Wire.thy ===== *)
theory Wire
  imports Float64
begin

text \<open>
  The protobuf messages the two planes exchange (\<open>proto/controlplane.pb.go\<close>), one record per
  message with the fields of the generated struct. A repeated message field holds no nil element
  (the decoder never produces one), except where the source itself tests for nil: the header and
  query matches of a route are lists of options. A map field is an association list, because the
  data plane iterates over it.
\<close>

record StreamBackendsRequest =
  sbr_Group :: string
  sbr_InstanceId :: string

record Backend =
  Backend_Address :: string
  Backend_Weight :: int

record BackendSet =
  BS_Group :: string
  BS_Backends :: "Backend list"
  BS_Version :: int
  BS_Algorithm :: string
  BS_Sticky :: bool
  BS_StickyCookieName :: string
  BS_StickyTtlSeconds :: int
  BS_RateLimitRps :: rat
  BS_RateLimitBurst :: int

record BackendHealth =
  BH_Address :: string
  BH_Healthy :: bool

record HealthReport =
  HR_Group :: string
  HR_InstanceId :: string
  HR_Backends :: "BackendHealth list"

record HeaderMatch =
  HM_Name :: string
  HM_Value :: string

record QueryMatch =
  QM_Name :: string
  QM_Value :: string

record RouteRewrite =
  RW_SetRequestHeaders :: "(string \<times> string) list"
  RW_RemoveRequestHeaders :: "string list"
  RW_SetResponseHeaders :: "(string \<times> string) list"
  RW_RemoveResponseHeaders :: "string list"
  RW_StripPathPrefix :: string
  RW_AddPathPrefix :: string

record RouteAuth =
  RA_Mode :: string
  RA_ApiKeys :: "string list"
  RA_ApiKeyHeader :: string
  RA_HmacSecret :: string
  RA_RsaPublicKeyPem :: string
  RA_ExpectedIssuer :: string
  RA_ExpectedAudience :: string

record RouteTarget =
  RT_Group :: string
  RT_Weight :: int

record Route =
  Route_Host :: string
  Route_PathPrefix :: string
  Route_Methods :: "string list"
  Route_TargetGroup :: string
  Route_Name :: string
  Route_Split :: "RouteTarget list"
  Route_Rewrite :: "RouteRewrite option"
  Route_Auth :: "RouteAuth option"
  Route_HeaderMatches :: "HeaderMatch option list"
  Route_QueryMatches :: "QueryMatch option list"

record RouteTableMsg =
  RTM_Routes :: "Route list"
  RTM_Version :: int

record GroupMetrics =
  GM_Group :: string
  GM_RequestsTotal :: int
  GM_Errors5xxTotal :: int
  GM_ActiveConnections :: int
  GM_AvgDurationMs :: rat

record MetricsReport =
  MR_InstanceId :: string
  MR_Groups :: "GroupMetrics list"

end
