(* ===== verification/RateLimit.thy ===== *)
theory RateLimit
  imports Wire
begin

text \<open>
  Per-client rate limiting in the data plane (\<open>internal/dataplane/ratelimit.go\<close>). The token
  bucket itself, \<open>rate.Limiter\<close> of \<open>golang.org/x/time/rate\<close>, is not part of the repository: its
  type is \<open>'l\<close> and its two operations are parameters, \<open>newLimiter\<close> for \<open>rate.NewLimiter\<close> and
  \<open>limAllow\<close> for \<open>Limiter.Allow\<close>, which takes the current instant and returns the limiter it
  leaves behind. Shown here: a disabled limiter never rejects, one client's traffic never changes
  another client's bucket, a sweep leaves no bucket idle past its lifetime, and a client's burst
  is exactly the configured one however its requests interleave with those of others.
\<close>

section \<open>Definitions\<close>

record RateLimitConfig =
  RL_Enabled :: bool
  RL_RPS :: rat
  RL_Burst :: int

record 'l clientBucket =
  cb_limiter :: 'l
  cb_lastSeen :: gotime

record 'l groupRateLimiter =
  gl_cfg :: RateLimitConfig
  gl_clients :: "string \<rightharpoonup> 'l clientBucket"
  gl_lastKeep :: gotime

definition idleBucketTTL :: duration where "idleBucketTTL = 10 * minute"

definition zeroRateLimitConfig :: RateLimitConfig where
  "zeroRateLimitConfig = \<lparr>RL_Enabled = False, RL_RPS = 0, RL_Burst = 0\<rparr>"

definition newGroupRateLimiter :: "gotime \<Rightarrow> 'l groupRateLimiter" where
  "newGroupRateLimiter now =
     \<lparr>gl_cfg = zeroRateLimitConfig, gl_clients = Map.empty, gl_lastKeep = now\<rparr>"

definition setConfig :: "RateLimitConfig \<Rightarrow> 'l groupRateLimiter \<Rightarrow> 'l groupRateLimiter" where
  "setConfig cfg g = (if cfg = gl_cfg g then g else g\<lparr>gl_cfg := cfg, gl_clients := Map.empty\<rparr>)"

definition sweepLocked :: "gotime \<Rightarrow> 'l groupRateLimiter \<Rightarrow> 'l groupRateLimiter" where
  "sweepLocked now g =
     (if time_sub now (gl_lastKeep g) < minute then g
      else g\<lparr>gl_lastKeep := now,
             gl_clients := (\<lambda>k. case gl_clients g k of
                None \<Rightarrow> None
              | Some b \<Rightarrow> if time_sub now (cb_lastSeen b) > idleBucketTTL then None else Some b)\<rparr>)"

definition effBurst :: "RateLimitConfig \<Rightarrow> int" where
  "effBurst cfg =
     (if RL_Burst cfg \<le> 0 then (let b = \<lfloor>RL_RPS cfg\<rfloor> in if b < 1 then 1 else b) else RL_Burst cfg)"

definition allow ::
    "(rat \<Rightarrow> int \<Rightarrow> 'l) \<Rightarrow> ('l \<Rightarrow> gotime \<Rightarrow> bool \<times> 'l) \<Rightarrow> gotime \<Rightarrow> string \<Rightarrow> 'l groupRateLimiter
       \<Rightarrow> bool \<times> 'l groupRateLimiter" where
  "allow newLimiter limAllow now clientKey g =
     (if \<not> RL_Enabled (gl_cfg g) \<or> RL_RPS (gl_cfg g) \<le> 0 then (True, g)
      else
        (let g1 = sweepLocked now g;
             l = (case gl_clients g1 clientKey of
                    Some b \<Rightarrow> cb_limiter b
                  | None \<Rightarrow> newLimiter (RL_RPS (gl_cfg g1)) (effBurst (gl_cfg g1)));
             (ok, l') = limAllow l now
         in (ok, g1\<lparr>gl_clients := (gl_clients g1)(clientKey \<mapsto> \<lparr>cb_limiter = l', cb_lastSeen = now\<rparr>)\<rparr>)))"

text \<open>A burst of requests at one instant, by client; the verdicts in order.\<close>

fun allow_run ::
    "(rat \<Rightarrow> int \<Rightarrow> 'l) \<Rightarrow> ('l \<Rightarrow> gotime \<Rightarrow> bool \<times> 'l) \<Rightarrow> gotime \<Rightarrow> string list \<Rightarrow> 'l groupRateLimiter
       \<Rightarrow> (string \<times> bool) list \<times> 'l groupRateLimiter" where
  "allow_run newLimiter limAllow now [] g = ([], g)"
| "allow_run newLimiter limAllow now (c # cs) g =
     (let (ok, g1) = allow newLimiter limAllow now c g;
          (vs, g2) = allow_run newLimiter limAllow now cs g1
      in ((c, ok) # vs, g2))"

section \<open>The limiter's own operations\<close>

lemma setConfig_cfg [simp]: "gl_cfg (setConfig cfg g) = cfg"
  by (simp add: setConfig_def)

lemma setConfig_changed_drops: "cfg \<noteq> gl_cfg g \<Longrightarrow> gl_clients (setConfig cfg g) = Map.empty"
  by (simp add: setConfig_def)

lemma sweep_cfg [simp]: "gl_cfg (sweepLocked now g) = gl_cfg g"
  by (simp add: sweepLocked_def)

lemma idle_iff: "time_sub now t > idleBucketTTL \<longleftrightarrow> now - t > 10 * minute"
  unfolding idleBucketTTL_def by (rule time_sub_greater_iff) (simp_all add: int64_defs)

lemma sweep_due_iff: "time_sub now t < minute \<longleftrightarrow> now - t < minute"
  by (rule time_sub_less_iff) (simp_all add: int64_defs)

lemma sweep_lookup:
  "gl_clients (sweepLocked now g) k =
     (if now - gl_lastKeep g < minute then gl_clients g k
      else case gl_clients g k of None \<Rightarrow> None
           | Some b \<Rightarrow> if now - cb_lastSeen b > 10 * minute then None else Some b)"
  by (simp add: sweepLocked_def sweep_due_iff idle_iff split: option.splits)

lemma sweep_keeps_recent:
  "gl_clients g k = Some b \<Longrightarrow> now - cb_lastSeen b \<le> 10 * minute \<Longrightarrow>
     gl_clients (sweepLocked now g) k = Some b"
  by (simp add: sweep_lookup)

lemma sweep_None: "gl_clients g k = None \<Longrightarrow> gl_clients (sweepLocked now g) k = None"
  by (simp add: sweep_lookup)

lemma sweep_all_recent:
  "minute \<le> now - gl_lastKeep g \<Longrightarrow> gl_clients (sweepLocked now g) k = Some b \<Longrightarrow>
     now - cb_lastSeen b \<le> 10 * minute"
  by (simp add: sweep_lookup split: option.splits if_splits)

lemma allow_cfg [simp]: "gl_cfg (snd (allow nl al now c g)) = gl_cfg g"
  by (simp add: allow_def Let_def split: prod.splits)

lemma allow_disabled:
  "\<not> RL_Enabled (gl_cfg g) \<or> RL_RPS (gl_cfg g) \<le> 0 \<Longrightarrow> allow nl al now c g = (True, g)"
  by (simp add: allow_def)

lemma allow_other_client:
  "k \<noteq> c \<Longrightarrow> gl_clients (snd (allow nl al now c g)) k =
     (if \<not> RL_Enabled (gl_cfg g) \<or> RL_RPS (gl_cfg g) \<le> 0 then gl_clients g k
      else gl_clients (sweepLocked now g) k)"
  by (simp add: allow_def Let_def split: prod.splits)

lemma effBurst_pos: "0 < effBurst cfg"
  by (simp add: effBurst_def Let_def)

section \<open>Bursts\<close>

text \<open>
  \<open>bucket_at\<close> says that client \<open>k\<close>'s bucket is the one \<open>i\<close> consecutive \<open>Allow\<close> calls at instant
  \<open>now\<close> leave of a new one (no bucket yet, for \<open>i = 0\<close>).
\<close>

definition spend :: "('l \<Rightarrow> gotime \<Rightarrow> bool \<times> 'l) \<Rightarrow> gotime \<Rightarrow> nat \<Rightarrow> 'l \<Rightarrow> 'l" where
  "spend al now i l = ((\<lambda>l. snd (al l now)) ^^ i) l"

definition bucket_at ::
    "(rat \<Rightarrow> int \<Rightarrow> 'l) \<Rightarrow> ('l \<Rightarrow> gotime \<Rightarrow> bool \<times> 'l) \<Rightarrow> gotime \<Rightarrow> string \<Rightarrow> nat \<Rightarrow> 'l groupRateLimiter
       \<Rightarrow> bool" where
  "bucket_at nl al now k i g \<longleftrightarrow>
     (case gl_clients g k of
        None \<Rightarrow> i = 0
      | Some b \<Rightarrow> cb_lastSeen b = now \<and>
          cb_limiter b = spend al now i (nl (RL_RPS (gl_cfg g)) (effBurst (gl_cfg g))))"

lemma bucket_at_sweep: "bucket_at nl al now k i g \<Longrightarrow> bucket_at nl al now k i (sweepLocked now g)"
  unfolding bucket_at_def
  by (cases "gl_clients g k") (auto simp: sweep_None sweep_keeps_recent)

lemma allow_bucket:
  assumes "RL_Enabled (gl_cfg g)" "0 < RL_RPS (gl_cfg g)" "bucket_at nl al now k i g"
  shows "bucket_at nl al now k (if c = k then Suc i else i) (snd (allow nl al now c g))"
    and "c = k \<Longrightarrow> fst (allow nl al now c g) =
           fst (al (spend al now i (nl (RL_RPS (gl_cfg g)) (effBurst (gl_cfg g)))) now)"
proof -
  have b: "bucket_at nl al now k i (sweepLocked now g)" using assms(3) by (rule bucket_at_sweep)
  show "bucket_at nl al now k (if c = k then Suc i else i) (snd (allow nl al now c g))"
    using assms(1,2) b
    by (auto simp: allow_def bucket_at_def Let_def spend_def split: prod.splits option.splits)
  show "c = k \<Longrightarrow> fst (allow nl al now c g) =
           fst (al (spend al now i (nl (RL_RPS (gl_cfg g)) (effBurst (gl_cfg g)))) now)"
    using assms(1,2) b
    by (auto simp: allow_def bucket_at_def Let_def spend_def split: prod.splits option.splits)
qed

lemma allow_run_admits:
  assumes "RL_Enabled (gl_cfg g)" "0 < RL_RPS (gl_cfg g)" "bucket_at nl al now k i g"
    and "\<And>j. fst (al (spend al now j (nl (RL_RPS (gl_cfg g)) (effBurst (gl_cfg g)))) now)
               \<longleftrightarrow> int j < effBurst (gl_cfg g)"
  shows "int (length (filter (\<lambda>v. v = (k, True)) (fst (allow_run nl al now cs g)))) =
           min (int (count_list cs k)) (max 0 (effBurst (gl_cfg g) - int i))"
  using assms
proof (induction cs arbitrary: g i)
  case (Cons c cs)
  obtain ok g1 where a: "allow nl al now c g = (ok, g1)" by (cases "allow nl al now c g")
  have g1: "gl_cfg g1 = gl_cfg g" using allow_cfg [of nl al now c g] by (simp add: a)
  have b: "bucket_at nl al now k (if c = k then Suc i else i) g1"
    using allow_bucket(1) [OF Cons.prems(1-3), of c] by (simp add: a)
  have ok: "c = k \<Longrightarrow> ok \<longleftrightarrow> int i < effBurst (gl_cfg g)"
    using allow_bucket(2) [OF Cons.prems(1-3), of c] Cons.prems(4) [of i] a by (metis fst_conv)
  have IH: "int (length (filter (\<lambda>v. v = (k, True)) (fst (allow_run nl al now cs g1)))) =
     min (int (count_list cs k)) (max 0 (effBurst (gl_cfg g1) - int (if c = k then Suc i else i)))"
    using Cons.prems(1,2,4) g1 b by (intro Cons.IH) simp_all
  have step: "fst (allow_run nl al now (c # cs) g) = (c, ok) # fst (allow_run nl al now cs g1)"
    by (simp add: a split: prod.splits)
  show ?case unfolding step using IH ok g1 by (cases "c = k") auto
qed (simp add: min_def)

text \<open>
  A token bucket as \<open>golang.org/x/time/rate\<close> documents it: a new limiter of burst \<open>b\<close> is full, so
  exactly the first \<open>b\<close> events of one instant pass.
\<close>

definition full_bucket :: "(rat \<Rightarrow> int \<Rightarrow> 'l) \<Rightarrow> ('l \<Rightarrow> gotime \<Rightarrow> bool \<times> 'l) \<Rightarrow> bool" where
  "full_bucket nl al \<longleftrightarrow>
     (\<forall>r b now j. 0 < r \<longrightarrow> 0 < b \<longrightarrow> (fst (al (spend al now j (nl r b)) now) \<longleftrightarrow> int j < b))"

end
