(* ===== verification/Versioned.thy ===== *)
theory Versioned
  imports Main
begin

text \<open>
  The contract of a versioned snapshot receiver: the data plane holds a backend set (one per
  group) and a route table, each stamped with a version, and replaces its copy only by a newer
  one. The locale states what such a receiver promises; its lemmas say what that buys a data
  plane whose stream is cut, replayed or reordered. \<open>Backends\<close> and \<open>Router\<close> interpret it on the
  two receivers of the program.
\<close>

locale versioned_receiver =
  fixes ver :: "'s \<Rightarrow> int"
    and stamp :: "'m \<Rightarrow> int"
    and recv :: "'s \<Rightarrow> 'm \<Rightarrow> 's"
    and view :: "'s \<Rightarrow> 'v"
    and render :: "'m \<Rightarrow> 'v"
  assumes recv_stale: "stamp m \<le> ver s \<Longrightarrow> ver s \<noteq> 0 \<Longrightarrow> recv s m = s"
    and recv_ver: "ver s < stamp m \<or> ver s = 0 \<Longrightarrow> ver (recv s m) = stamp m"
    and recv_view: "ver s < stamp m \<or> ver s = 0 \<Longrightarrow> view (recv s m) = render m"
begin

lemma recv_cases:
  obtains (stale) "stamp m \<le> ver s" "ver s \<noteq> 0" "recv s m = s"
  | (fresh) "ver s < stamp m \<or> ver s = 0" "ver (recv s m) = stamp m" "view (recv s m) = render m"
  using recv_stale recv_ver recv_view by (metis not_le)

lemma recv_idem: "stamp m \<noteq> 0 \<Longrightarrow> recv (recv s m) m = recv s m"
  by (rule recv_cases [of m s]) (auto intro: recv_stale)

lemma recv_ver_max: "0 \<le> ver s \<Longrightarrow> 0 < stamp m \<Longrightarrow> ver (recv s m) = max (ver s) (stamp m)"
  by (rule recv_cases [of m s]) auto

text \<open>No sequence of updates moves the held version backwards.\<close>

lemma run_mono:
  assumes "0 \<le> ver s" "\<forall>m \<in> set ms. 0 < stamp m"
  shows "ver s \<le> ver (foldl recv s ms)"
  using assms
proof (induction ms arbitrary: s)
  case (Cons m ms)
  have v: "ver (recv s m) = max (ver s) (stamp m)" using Cons.prems by (simp add: recv_ver_max)
  have "ver (recv s m) \<le> ver (foldl recv (recv s m) ms)"
    using Cons.prems v by (intro Cons.IH) auto
  with v show ?case by simp
qed simp

lemma run_ver:
  assumes "0 \<le> ver s" "\<forall>m \<in> set ms. 0 < stamp m"
  shows "ver (foldl recv s ms) = foldl max (ver s) (map stamp ms)"
  using assms by (induction ms arbitrary: s) (auto simp: recv_ver_max)

text \<open>
  After any sequence that contains a message newer than the state, the state shows a message of
  the sequence, and no message of the sequence is newer than it.
\<close>

lemma run_shows_latest:
  assumes "0 \<le> ver s" "\<forall>m \<in> set ms. 0 < stamp m" "\<exists>m \<in> set ms. ver s < stamp m"
  shows "\<exists>m \<in> set ms. view (foldl recv s ms) = render m \<and> ver (foldl recv s ms) = stamp m \<and>
           (\<forall>m' \<in> set ms. stamp m' \<le> stamp m)"
  using assms
proof (induction ms arbitrary: s)
  case (Cons m ms)
  let ?s = "recv s m"
  have v: "ver ?s = max (ver s) (stamp m)" using Cons.prems by (simp add: recv_ver_max)
  have pos: "\<forall>m \<in> set ms. 0 < stamp m" using Cons.prems by simp
  show ?case
  proof (cases "\<exists>m' \<in> set ms. ver ?s < stamp m'")
    case True
    have "0 \<le> ver ?s" using v Cons.prems(1) by simp
    from Cons.IH [OF this pos True] obtain m1 where
      "m1 \<in> set ms" "view (foldl recv ?s ms) = render m1" "ver (foldl recv ?s ms) = stamp m1"
      "\<forall>m' \<in> set ms. stamp m' \<le> stamp m1" by blast
    moreover from this True v have "stamp m \<le> stamp m1" by force
    ultimately show ?thesis by auto
  next
    case False
    have keep: "foldl recv t ms' = t"
      if "\<forall>m' \<in> set ms'. stamp m' \<le> ver t" "ver t \<noteq> 0" for t ms'
      using that by (induction ms') (auto simp: recv_stale)
    from False Cons.prems v have fresh: "ver s < stamp m" by fastforce
    then have "ver ?s = stamp m" "view ?s = render m" by (auto intro: recv_ver recv_view)
    moreover have "foldl recv ?s ms = ?s"
      using False v Cons.prems(1) fresh by (intro keep) auto
    ultimately show ?thesis using False v fresh by fastforce
  qed
qed simp

text \<open>
  Two receivers that saw the same messages, in any order and with any repetitions, show the same
  thing: reconnecting and replaying converges. A version names one message.
\<close>

lemma run_converges:
  assumes "0 \<le> ver s" "0 \<le> ver s'" "\<forall>m \<in> set ms. 0 < stamp m" "set ms' = set ms"
    and "\<exists>m \<in> set ms. ver s < stamp m" "\<exists>m \<in> set ms. ver s' < stamp m"
    and inj: "\<forall>m \<in> set ms. \<forall>m' \<in> set ms. stamp m = stamp m' \<longrightarrow> render m = render m'"
  shows "view (foldl recv s ms) = view (foldl recv s' ms')"
    and "ver (foldl recv s ms) = ver (foldl recv s' ms')"
proof -
  obtain m1 where m1: "m1 \<in> set ms" "view (foldl recv s ms) = render m1"
    "ver (foldl recv s ms) = stamp m1" "\<forall>m' \<in> set ms. stamp m' \<le> stamp m1"
    using run_shows_latest [OF assms(1,3,5)] by blast
  obtain m2 where m2: "m2 \<in> set ms" "view (foldl recv s' ms') = render m2"
    "ver (foldl recv s' ms') = stamp m2" "\<forall>m' \<in> set ms. stamp m' \<le> stamp m2"
    using run_shows_latest [of s' ms'] assms(2,3,4,6) by (simp only:) blast
  have eq: "stamp m1 = stamp m2" using m1(1,4) m2(1,4) by (meson order_antisym)
  then show "ver (foldl recv s ms) = ver (foldl recv s' ms')" using m1(3) m2(3) by (simp only:)
  have "render m1 = render m2" using inj m1(1) m2(1) eq by blast
  then show "view (foldl recv s ms) = view (foldl recv s' ms')" using m1(2) m2(2) by (simp only:)
qed

end

end
