(* ===== verification/Backends.thy ===== *)
theory Backends
  imports RateLimit Versioned
begin

text \<open>
  The data plane's backend list (\<open>internal/dataplane/backends.go\<close>): its entries, the control-plane
  update, active health marks, passive outlier ejection and the weighted slot list. Selection of a
  backend is in \<open>Selection\<close>.

  Every operation runs under the list's mutex, so it is one step on the record \<open>BackendList\<close>. An
  operation that reads the clock takes the reading as its argument \<open>now\<close>; readings made inside one
  critical section are one reading. The pointer to an entry found by address is the first entry
  with that address, changed in place with \<open>update_first\<close>. Event counters (errors, ejections, open
  connections) are unbounded integers; the ejection duration, a product of two of them, wraps at
  64 bits as in the source.
\<close>

section \<open>Data\<close>

datatype Algorithm =
    AlgorithmRoundRobin
  | AlgorithmLeastConnections
  | AlgorithmRandom
  | AlgorithmP2C
  | AlgorithmConsistentHash

record backendEntry =
  be_address :: string
  be_weight :: int
  be_healthy :: bool
  be_activeConns :: int
  be_consecErrors :: int
  be_ejectedUntil :: gotime
  be_ejectCount :: int

definition ejected :: "gotime \<Rightarrow> backendEntry \<Rightarrow> bool" where
  "ejected now e \<longleftrightarrow> be_ejectedUntil e \<noteq> zero_time \<and> now < be_ejectedUntil e"

definition selectable :: "gotime \<Rightarrow> backendEntry \<Rightarrow> bool" where
  "selectable now e \<longleftrightarrow> be_healthy e \<and> \<not> ejected now e"

record OutlierConfig =
  oc_Enabled :: bool
  oc_ConsecutiveErrors :: int
  oc_BaseEjectDuration :: duration
  oc_MaxEjectDuration :: duration
  oc_MaxEjectPercent :: int

definition outlier_withDefaults :: "OutlierConfig \<Rightarrow> OutlierConfig" where
  "outlier_withDefaults c =
     (let c1 = (if oc_ConsecutiveErrors c \<le> 0 then c\<lparr>oc_ConsecutiveErrors := 5\<rparr> else c);
          c2 = (if oc_BaseEjectDuration c1 \<le> 0 then c1\<lparr>oc_BaseEjectDuration := 30 * second\<rparr> else c1);
          c3 = (if oc_MaxEjectDuration c2 \<le> 0 then c2\<lparr>oc_MaxEjectDuration := 5 * minute\<rparr> else c2)
      in if oc_MaxEjectPercent c3 \<le> 0 \<or> oc_MaxEjectPercent c3 > 100
         then c3\<lparr>oc_MaxEjectPercent := 50\<rparr> else c3)"

record StickyConfig =
  sc_Enabled :: bool
  sc_CookieName :: string
  sc_TTL :: duration

record 'l BackendList =
  bl_entries :: "backendEntry list"
  bl_version :: int
  bl_algorithm :: Algorithm
  bl_sticky :: StickyConfig
  bl_next :: "64 word"
  bl_slots :: "nat list"
  bl_rng :: "nat stream"
  bl_outlier :: OutlierConfig
  bl_rateLimit :: "'l groupRateLimiter"
  bl_nextEjectExpiry :: gotime

definition NewBackendList :: "nat stream \<Rightarrow> gotime \<Rightarrow> 'l BackendList" where
  "NewBackendList rng now =
     \<lparr>bl_entries = [], bl_version = 0, bl_algorithm = AlgorithmRoundRobin,
      bl_sticky = \<lparr>sc_Enabled = False, sc_CookieName = [], sc_TTL = 0\<rparr>,
      bl_next = 0, bl_slots = [], bl_rng = rng,
      bl_outlier = \<lparr>oc_Enabled = False, oc_ConsecutiveErrors = 0, oc_BaseEjectDuration = 0,
                    oc_MaxEjectDuration = 0, oc_MaxEjectPercent = 0\<rparr>,
      bl_rateLimit = newGroupRateLimiter now, bl_nextEjectExpiry = zero_time\<rparr>"

section \<open>Operations\<close>

definition normalizeAlgorithm :: "string \<Rightarrow> Algorithm" where
  "normalizeAlgorithm s =
     (if s = ''least_connections'' then AlgorithmLeastConnections
      else if s = ''random'' then AlgorithmRandom
      else if s = ''p2c'' then AlgorithmP2C
      else if s = ''consistent_hash'' then AlgorithmConsistentHash
      else AlgorithmRoundRobin)"

fun rebuildLoop :: "gotime \<Rightarrow> nat \<Rightarrow> backendEntry list \<Rightarrow> nat list \<Rightarrow> gotime \<Rightarrow> nat list \<times> gotime" where
  "rebuildLoop now i [] slots nextExpiry = (slots, nextExpiry)"
| "rebuildLoop now i (e # es) slots nextExpiry =
     (if ejected now e then
        rebuildLoop now (Suc i) es slots
          (if nextExpiry = zero_time \<or> be_ejectedUntil e < nextExpiry
           then be_ejectedUntil e else nextExpiry)
      else if \<not> be_healthy e then rebuildLoop now (Suc i) es slots nextExpiry
      else rebuildLoop now (Suc i) es (slots @ replicate (nat (be_weight e)) i) nextExpiry)"

definition rebuildSlotsLocked :: "gotime \<Rightarrow> 'l BackendList \<Rightarrow> 'l BackendList" where
  "rebuildSlotsLocked now b =
     (let (slots, nextExpiry) = rebuildLoop now 0 (bl_entries b) [] zero_time
      in b\<lparr>bl_slots := slots, bl_nextEjectExpiry := nextExpiry\<rparr>)"

text \<open>The two maps \<open>Update\<close> builds over the old entries; a later duplicate wins.\<close>

definition prevHealth :: "backendEntry list \<Rightarrow> string \<rightharpoonup> bool" where
  "prevHealth es = foldl (\<lambda>m e. m(be_address e \<mapsto> be_healthy e)) Map.empty es"

definition prevEntries :: "backendEntry list \<Rightarrow> string \<rightharpoonup> backendEntry" where
  "prevEntries es = foldl (\<lambda>m e. m(be_address e \<mapsto> e)) Map.empty es"

definition newEntry :: "backendEntry list \<Rightarrow> Backend \<Rightarrow> backendEntry" where
  "newEntry old be =
     \<lparr>be_address = Backend_Address be,
      be_weight = (if Backend_Weight be \<le> 0 then 1 else Backend_Weight be),
      be_healthy = (case prevHealth old (Backend_Address be) of None \<Rightarrow> True | Some h \<Rightarrow> h),
      be_activeConns =
        (case prevEntries old (Backend_Address be) of None \<Rightarrow> 0 | Some p \<Rightarrow> be_activeConns p),
      be_consecErrors = 0, be_ejectedUntil = zero_time, be_ejectCount = 0\<rparr>"

definition bl_Update :: "gotime \<Rightarrow> BackendSet \<Rightarrow> 'l BackendList \<Rightarrow> 'l BackendList" where
  "bl_Update now bs b =
     (if BS_Version bs \<le> bl_version b \<and> bl_version b \<noteq> 0 then b
      else rebuildSlotsLocked now
        (b\<lparr>bl_entries := map (newEntry (bl_entries b)) (BS_Backends bs),
           bl_version := BS_Version bs,
           bl_algorithm := normalizeAlgorithm (BS_Algorithm bs),
           bl_sticky := \<lparr>sc_Enabled = BS_Sticky bs, sc_CookieName = BS_StickyCookieName bs,
                         sc_TTL = wrap64 (BS_StickyTtlSeconds bs * second)\<rparr>,
           bl_rateLimit :=
             setConfig \<lparr>RL_Enabled = 0 < BS_RateLimitRps bs, RL_RPS = BS_RateLimitRps bs,
                        RL_Burst = BS_RateLimitBurst bs\<rparr> (bl_rateLimit b)\<rparr>))"

definition bl_SetHealth :: "gotime \<Rightarrow> string \<Rightarrow> bool \<Rightarrow> 'l BackendList \<Rightarrow> 'l BackendList" where
  "bl_SetHealth now address healthy b =
     (let hit = (\<lambda>e. be_address e = address \<and> be_healthy e \<noteq> healthy)
      in case find hit (bl_entries b) of
           None \<Rightarrow> b
         | Some _ \<Rightarrow> rebuildSlotsLocked now
             (b\<lparr>bl_entries := update_first hit (\<lambda>e. e\<lparr>be_healthy := healthy\<rparr>) (bl_entries b)\<rparr>))"

definition bl_SetOutlierConfig :: "OutlierConfig \<Rightarrow> 'l BackendList \<Rightarrow> 'l BackendList" where
  "bl_SetOutlierConfig cfg b =
     b\<lparr>bl_outlier := (outlier_withDefaults cfg)\<lparr>oc_Enabled := oc_Enabled cfg\<rparr>\<rparr>"

text \<open>Changing the entry the Go code holds a pointer to: the first with the address.\<close>

definition upd_entry :: "string \<Rightarrow> (backendEntry \<Rightarrow> backendEntry) \<Rightarrow> 'l BackendList \<Rightarrow> 'l BackendList" where
  "upd_entry address f b =
     b\<lparr>bl_entries := update_first (\<lambda>e. be_address e = address) f (bl_entries b)\<rparr>"

definition find_entry :: "string \<Rightarrow> 'l BackendList \<Rightarrow> backendEntry option" where
  "find_entry address b = find (\<lambda>e. be_address e = address) (bl_entries b)"

definition ejectDuration :: "OutlierConfig \<Rightarrow> int \<Rightarrow> duration" where
  "ejectDuration c ejectCount =
     (let dur = wrap64 (ejectCount * oc_BaseEjectDuration c)
      in if dur > oc_MaxEjectDuration c then oc_MaxEjectDuration c else dur)"

definition bl_RecordResult :: "gotime \<Rightarrow> string \<Rightarrow> bool \<Rightarrow> 'l BackendList \<Rightarrow> 'l BackendList" where
  "bl_RecordResult now address success b =
     (if \<not> oc_Enabled (bl_outlier b) then b
      else case find_entry address b of
        None \<Rightarrow> b
      | Some entry \<Rightarrow>
          if success then upd_entry address (\<lambda>e. e\<lparr>be_consecErrors := 0\<rparr>) b
          else
            (let errs = be_consecErrors entry + 1;
                 b1 = upd_entry address (\<lambda>e. e\<lparr>be_consecErrors := errs\<rparr>) b
             in if errs < oc_ConsecutiveErrors (bl_outlier b) then b1
                else if ejected now entry then b1
                else
                  (let total = int (length (bl_entries b1));
                       n = count_if (ejected now) (bl_entries b1)
                   in if 0 < total \<and> (n + 1) * 100 > oc_MaxEjectPercent (bl_outlier b) * total
                      then b1
                      else
                        (let cnt = be_ejectCount entry + 1;
                             dur = ejectDuration (bl_outlier b) cnt
                         in rebuildSlotsLocked now
                              (upd_entry address
                                 (\<lambda>e. e\<lparr>be_ejectCount := cnt, be_ejectedUntil := now + dur,
                                        be_consecErrors := 0\<rparr>) b1)))))"

definition bl_EjectedLen :: "gotime \<Rightarrow> 'l BackendList \<Rightarrow> int" where
  "bl_EjectedLen now b = count_if (ejected now) (bl_entries b)"

definition bl_Release :: "string \<Rightarrow> 'l BackendList \<Rightarrow> 'l BackendList" where
  "bl_Release address b =
     upd_entry address
       (\<lambda>e. if be_activeConns e \<le> 0 then e else e\<lparr>be_activeConns := be_activeConns e - 1\<rparr>) b"

definition bl_RateLimitAllow ::
    "(rat \<Rightarrow> int \<Rightarrow> 'l) \<Rightarrow> ('l \<Rightarrow> gotime \<Rightarrow> bool \<times> 'l) \<Rightarrow> gotime \<Rightarrow> string \<Rightarrow> 'l BackendList
       \<Rightarrow> bool \<times> 'l BackendList" where
  "bl_RateLimitAllow nl al now clientKey b =
     (let (ok, g) = allow nl al now clientKey (bl_rateLimit b) in (ok, b\<lparr>bl_rateLimit := g\<rparr>))"

definition bl_PinTo :: "gotime \<Rightarrow> string \<Rightarrow> 'l BackendList \<Rightarrow> bool \<times> 'l BackendList" where
  "bl_PinTo now address b =
     (case find_entry address b of
        None \<Rightarrow> (False, b)
      | Some e \<Rightarrow>
          if \<not> selectable now e then (False, b)
          else (True, upd_entry address (\<lambda>e. e\<lparr>be_activeConns := be_activeConns e + 1\<rparr>) b))"

definition bl_HealthyLen :: "'l BackendList \<Rightarrow> int" where
  "bl_HealthyLen b = count_if be_healthy (bl_entries b)"

definition bl_Len :: "'l BackendList \<Rightarrow> int" where
  "bl_Len b = int (length (bl_entries b))"

definition bl_Addresses :: "'l BackendList \<Rightarrow> string list" where
  "bl_Addresses b = map be_address (bl_entries b)"

definition bl_HealthSnapshot :: "'l BackendList \<Rightarrow> (string \<times> bool) list" where
  "bl_HealthSnapshot b = map (\<lambda>e. (be_address e, be_healthy e)) (bl_entries b)"


section \<open>Slots\<close>

text \<open>
  What the slot list and the expiry mean: one slot per unit of weight of every selectable entry,
  and the earliest end of an ejection that is still running.
\<close>

fun slots_from :: "gotime \<Rightarrow> nat \<Rightarrow> backendEntry list \<Rightarrow> nat list" where
  "slots_from now i [] = []"
| "slots_from now i (e # es) =
     (if selectable now e then replicate (nat (be_weight e)) i else []) @ slots_from now (Suc i) es"

definition earliest_expiry :: "gotime \<Rightarrow> backendEntry list \<Rightarrow> gotime" where
  "earliest_expiry now es =
     (let us = map be_ejectedUntil (filter (ejected now) es)
      in if us = [] then zero_time else Min (set us))"

definition synced :: "gotime \<Rightarrow> 'l BackendList \<Rightarrow> bool" where
  "synced t b \<longleftrightarrow> bl_slots b = slots_from t 0 (bl_entries b) \<and>
     bl_nextEjectExpiry b = earliest_expiry t (bl_entries b)"

lemma ejected_nz: "ejected now e \<Longrightarrow> be_ejectedUntil e \<noteq> 0"
  by (simp add: ejected_def)

lemma ejected_antimono: "ejected now' e \<Longrightarrow> now \<le> now' \<Longrightarrow> ejected now e"
  by (auto simp: ejected_def)

lemma rebuildLoop_fst:
  "fst (rebuildLoop now i es slots x) = slots @ slots_from now i es"
  by (induction now i es slots x rule: rebuildLoop.induct) (auto simp: selectable_def)

lemma rebuildLoop_snd:
  "snd (rebuildLoop now i es slots x) =
     (let us = map be_ejectedUntil (filter (ejected now) es)
      in if us = [] then x else if x = 0 then Min (set us) else min x (Min (set us)))"
proof (induction now i es slots x rule: rebuildLoop.induct)
  case (2 now i e es slots x)
  show ?case
  proof (cases "ejected now e")
    case True
    let ?u = "be_ejectedUntil e" and ?us = "map be_ejectedUntil (filter (ejected now) es)"
    let ?x = "if x = 0 \<or> ?u < x then ?u else x"
    have u: "?u \<noteq> 0" using True by (rule ejected_nz)
    have x: "?x = (if x = 0 then ?u else min x ?u)" by auto
    have "snd (rebuildLoop now i (e # es) slots x) =
        (if ?us = [] then ?x else if ?x = 0 then Min (set ?us) else min ?x (Min (set ?us)))"
      using True "2.IH"(1) by (simp only: rebuildLoop.simps if_True Let_def)
    also have "\<dots> = (if x = 0 then Min (insert ?u (set ?us)) else min x (Min (insert ?u (set ?us))))"
    proof (cases "?us = []")
      case False
      then have "Min (insert ?u (set ?us)) = min ?u (Min (set ?us))"
        by (intro Min_insert) (simp_all only: set_empty finite_set not_False_eq_True)
      with False u show ?thesis by (auto simp: min_def)
    qed (use x in simp)
    finally show ?thesis using True by (simp add: Let_def)
  next
    case False
    with "2.IH"(2,3) show ?thesis by (cases "be_healthy e") (auto simp: Let_def)
  qed
qed simp

lemma rebuild_frame [simp]:
  "bl_entries (rebuildSlotsLocked now b) = bl_entries b"
  "bl_version (rebuildSlotsLocked now b) = bl_version b"
  "bl_algorithm (rebuildSlotsLocked now b) = bl_algorithm b"
  "bl_sticky (rebuildSlotsLocked now b) = bl_sticky b"
  "bl_next (rebuildSlotsLocked now b) = bl_next b"
  "bl_rng (rebuildSlotsLocked now b) = bl_rng b"
  "bl_outlier (rebuildSlotsLocked now b) = bl_outlier b"
  "bl_rateLimit (rebuildSlotsLocked now b) = bl_rateLimit b"
  by (simp_all add: rebuildSlotsLocked_def case_prod_beta Let_def)

lemma rebuild_slots [simp]: "bl_slots (rebuildSlotsLocked now b) = slots_from now 0 (bl_entries b)"
  by (simp add: rebuildSlotsLocked_def case_prod_beta Let_def rebuildLoop_fst)

lemma rebuild_expiry [simp]:
  "bl_nextEjectExpiry (rebuildSlotsLocked now b) = earliest_expiry now (bl_entries b)"
  by (simp add: rebuildSlotsLocked_def case_prod_beta Let_def rebuildLoop_snd earliest_expiry_def)

lemma synced_rebuild [simp]: "synced now (rebuildSlotsLocked now b)"
  by (simp add: synced_def)

text \<open>Slots depend only on weight, health mark and ejection end of each entry.\<close>

definition profile :: "backendEntry \<Rightarrow> int \<times> bool \<times> gotime" where
  "profile e = (be_weight e, be_healthy e, be_ejectedUntil e)"

lemma profile_selectable: "profile e = profile e' \<Longrightarrow> selectable now e = selectable now e'"
  by (simp add: profile_def selectable_def ejected_def)

lemma slots_from_profile:
  "map profile es = map profile es' \<Longrightarrow> slots_from now i es = slots_from now i es'"
proof (induction es arbitrary: es' i)
  case (Cons e es)
  then obtain e' es1 where "es' = e' # es1" "profile e = profile e'" "map profile es = map profile es1"
    by (cases es') auto
  moreover from this have "selectable now e = selectable now e'" "be_weight e = be_weight e'"
    by (auto simp: profile_def selectable_def ejected_def)
  ultimately show ?case using Cons.IH [of es1 "Suc i"] by simp
qed simp

lemma map_ejected_profile:
  "map profile es = map profile es' \<Longrightarrow>
     map be_ejectedUntil (filter (ejected now) es) = map be_ejectedUntil (filter (ejected now) es')"
proof (induction es arbitrary: es')
  case (Cons e es)
  then obtain e' es1 where "es' = e' # es1" "profile e = profile e'" "map profile es = map profile es1"
    by (cases es') auto
  moreover from this have "ejected now e = ejected now e'" "be_ejectedUntil e = be_ejectedUntil e'"
    by (auto simp: profile_def ejected_def)
  ultimately show ?case using Cons.IH [of es1] by simp
qed simp

lemma synced_profile:
  assumes "synced t b" "map profile (bl_entries b') = map profile (bl_entries b)"
    and "bl_slots b' = bl_slots b" "bl_nextEjectExpiry b' = bl_nextEjectExpiry b"
  shows "synced t b'"
  using assms slots_from_profile [OF assms(2), of t 0] map_ejected_profile [OF assms(2), of t]
  by (simp add: synced_def earliest_expiry_def)

lemma slots_from_member:
  "j \<in> set (slots_from now i es) \<longleftrightarrow>
     i \<le> j \<and> j - i < length es \<and> selectable now (es ! (j - i)) \<and> 0 < be_weight (es ! (j - i))"
proof (induction es arbitrary: i)
  case (Cons e es)
  show ?case
  proof (cases "j = i")
    case True
    then show ?thesis using Cons.IH [of "Suc i"] by auto
  next
    case False
    then show ?thesis using Cons.IH [of "Suc i"]
      by (auto simp: nth_Cons' Suc_le_eq)
  qed
qed simp

lemma slots_from_bound: "j \<in> set (slots_from now 0 es) \<Longrightarrow> j < length es"
  by (simp add: slots_from_member)

lemma slots_from_selectable: "j \<in> set (slots_from now 0 es) \<Longrightarrow> selectable now (es ! j)"
  by (simp add: slots_from_member)

lemma count_slots_from:
  "count_list (slots_from now i es) j =
     (if i \<le> j \<and> j - i < length es \<and> selectable now (es ! (j - i))
      then nat (be_weight (es ! (j - i))) else 0)"
proof (induction es arbitrary: i)
  case (Cons e es)
  have r: "count_list (replicate n a) c = (if a = c then n else 0)" for n and a c :: nat
    by (induction n) auto
  show ?case
    using Cons.IH [of "Suc i"]
    by (cases "j = i") (auto simp: r nth_Cons' Suc_le_eq)
qed simp

lemma slots_empty_iff:
  assumes "\<forall>e \<in> set es. 0 < be_weight e"
  shows "slots_from now i es = [] \<longleftrightarrow> (\<forall>e \<in> set es. \<not> selectable now e)"
  using assms by (induction es arbitrary: i) auto

text \<open>
  Lazy re-admission: until the earliest running ejection ends, the slots built at time \<open>t\<close> are
  the ones a rebuild would produce now.
\<close>

lemma earliest_expiry_le:
  "e \<in> set es \<Longrightarrow> ejected t e \<Longrightarrow> earliest_expiry t es \<noteq> 0 \<and> earliest_expiry t es \<le> be_ejectedUntil e"
proof -
  let ?us = "map be_ejectedUntil (filter (ejected t) es)"
  assume "e \<in> set es" "ejected t e"
  then have m: "be_ejectedUntil e \<in> set ?us" by auto
  then have ne: "?us \<noteq> []" by force
  have "Min (set ?us) \<in> set ?us" using ne by (intro Min_in) (simp_all only: set_empty finite_set not_False_eq_True)
  then have "Min (set ?us) \<noteq> 0" by (auto simp: ejected_nz)
  moreover have "Min (set ?us) \<le> be_ejectedUntil e" using m by (intro Min_le) auto
  ultimately show ?thesis using ne by (simp add: earliest_expiry_def Let_def)
qed

lemma ejected_between:
  assumes "t \<le> now" "earliest_expiry t es = 0 \<or> now < earliest_expiry t es" "e \<in> set es"
  shows "ejected now e \<longleftrightarrow> ejected t e"
  using assms earliest_expiry_le [of e es t] by (auto simp: ejected_def)

lemma slots_from_cong:
  "(\<And>e. e \<in> set es \<Longrightarrow> ejected t e = ejected now e) \<Longrightarrow> slots_from t i es = slots_from now i es"
  by (induction es arbitrary: i) (auto simp: selectable_def)

lemma slots_from_lazy:
  assumes "t \<le> now" "earliest_expiry t es = 0 \<or> now < earliest_expiry t es"
  shows "slots_from now i es = slots_from t i es"
  using ejected_between [OF assms] by (intro slots_from_cong) blast


section \<open>Frames\<close>

lemma upd_entry_frame [simp]:
  "bl_version (upd_entry a f b) = bl_version b"
  "bl_algorithm (upd_entry a f b) = bl_algorithm b"
  "bl_sticky (upd_entry a f b) = bl_sticky b"
  "bl_next (upd_entry a f b) = bl_next b"
  "bl_slots (upd_entry a f b) = bl_slots b"
  "bl_rng (upd_entry a f b) = bl_rng b"
  "bl_outlier (upd_entry a f b) = bl_outlier b"
  "bl_rateLimit (upd_entry a f b) = bl_rateLimit b"
  "bl_nextEjectExpiry (upd_entry a f b) = bl_nextEjectExpiry b"
  "length (bl_entries (upd_entry a f b)) = length (bl_entries b)"
  by (simp_all add: upd_entry_def)

lemma upd_entry_map:
  "(\<And>e. g (f e) = g e) \<Longrightarrow> map g (bl_entries (upd_entry a f b)) = map g (bl_entries b)"
  by (simp add: upd_entry_def map_update_first)

lemma upd_entry_count:
  "(\<And>e. p (f e) = p e) \<Longrightarrow> count_if p (bl_entries (upd_entry a f b)) = count_if p (bl_entries b)"
  by (simp add: upd_entry_def count_if_update_first_same)

lemma upd_entry_all:
  assumes "\<forall>e \<in> set (bl_entries b). P e" "\<And>e. P e \<Longrightarrow> P (f e)"
  shows "\<forall>e \<in> set (bl_entries (upd_entry a f b)). P e"
  using assms set_update_first [of "\<lambda>e. be_address e = a" f "bl_entries b"]
  by (auto simp: upd_entry_def)

lemma upd_entry_synced:
  assumes "synced t b" "\<And>e. profile (f e) = profile e"
  shows "synced t (upd_entry a f b)"
  using assms(1) by (rule synced_profile) (simp_all add: assms(2) upd_entry_map)

lemma upd_entry_twice:
  "(\<And>e. be_address (f e) = be_address e) \<Longrightarrow>
     upd_entry a g (upd_entry a f b) = upd_entry a (g \<circ> f) b"
  by (simp add: upd_entry_def update_first_comp)

lemma find_entry_SomeD:
  "find_entry a b = Some e \<Longrightarrow> e \<in> set (bl_entries b) \<and> be_address e = a"
  unfolding find_entry_def by (blast dest: find_SomeD)

lemma find_entry_upd:
  "(\<And>e. be_address (f e) = be_address e) \<Longrightarrow>
     find_entry a (upd_entry a f b) = map_option f (find_entry a b)"
  by (simp add: find_entry_def upd_entry_def find_update_first)

lemma find_entry_rebuild [simp]: "find_entry a (rebuildSlotsLocked now b) = find_entry a b"
  by (simp add: find_entry_def)

section \<open>The invariant of a backend list\<close>

text \<open>
  \<open>valve\<close> is the safety valve of outlier detection: the ejected share of the group is at most
  \<open>MaxEjectPercent\<close>. The invariant at time \<open>t\<close> adds that weights are positive, connection counts
  are not negative, and the slots are those of the last rebuild, which was not later than \<open>t\<close>.
\<close>

definition valve :: "gotime \<Rightarrow> 'l BackendList \<Rightarrow> bool" where
  "valve t b \<longleftrightarrow> count_if (ejected t) (bl_entries b) * 100
      \<le> oc_MaxEjectPercent (bl_outlier b) * int (length (bl_entries b))"

definition entries_ok :: "'l BackendList \<Rightarrow> bool" where
  "entries_ok b \<longleftrightarrow> (\<forall>e \<in> set (bl_entries b). 0 < be_weight e \<and> 0 \<le> be_activeConns e)"

definition bl_inv :: "gotime \<Rightarrow> 'l BackendList \<Rightarrow> bool" where
  "bl_inv t b \<longleftrightarrow> entries_ok b \<and> (\<exists>t0 \<le> t. synced t0 b) \<and> valve t b \<and>
     0 \<le> oc_MaxEjectPercent (bl_outlier b)"

lemma valve_later: "valve t b \<Longrightarrow> t \<le> now \<Longrightarrow> valve now b"
proof -
  assume v: "valve t b" and "t \<le> now"
  then have "count_if (ejected now) (bl_entries b) \<le> count_if (ejected t) (bl_entries b)"
    by (intro count_if_mono) (auto intro: ejected_antimono)
  with v show ?thesis by (simp add: valve_def)
qed

lemma bl_inv_later: "bl_inv t b \<Longrightarrow> t \<le> now \<Longrightarrow> bl_inv now b"
  unfolding bl_inv_def by (blast intro: valve_later order_trans)

lemma bl_invI:
  "entries_ok b \<Longrightarrow> synced u b \<Longrightarrow> u \<le> t \<Longrightarrow> valve t b \<Longrightarrow>
     0 \<le> oc_MaxEjectPercent (bl_outlier b) \<Longrightarrow> bl_inv t b"
  unfolding bl_inv_def by blast

lemma bl_inv_rebuild:
  assumes "entries_ok b" "valve now b" "0 \<le> oc_MaxEjectPercent (bl_outlier b)"
  shows "bl_inv now (rebuildSlotsLocked now b)"
  by (rule bl_invI [where u = now]) (use assms in \<open>simp_all add: entries_ok_def valve_def\<close>)

text \<open>Changing an entry in a way that slots, counts and ejections do not see keeps the invariant.\<close>

lemma bl_inv_upd_entry:
  assumes "bl_inv t b" "\<And>e. profile (f e) = profile e"
    and "\<And>e. 0 \<le> be_activeConns e \<Longrightarrow> 0 \<le> be_activeConns (f e)"
  shows "bl_inv t (upd_entry a f b)"
proof -
  have w: "be_weight (f e) = be_weight e" and j: "ejected t (f e) = ejected t e" for e
    using assms(2) [of e] by (simp_all add: profile_def ejected_def)
  have "entries_ok (upd_entry a f b)"
    using assms(1,3) unfolding bl_inv_def entries_ok_def
    by (intro upd_entry_all) (auto simp: w)
  moreover have "valve t (upd_entry a f b)"
    using assms(1) upd_entry_count [of "ejected t" f a b] by (simp add: bl_inv_def valve_def j)
  ultimately show ?thesis
    using assms(1) upd_entry_synced [of _ b f a] assms(2) unfolding bl_inv_def by auto
qed

lemma outlier_defaults_range:
  "1 \<le> oc_MaxEjectPercent (outlier_withDefaults c) \<and> oc_MaxEjectPercent (outlier_withDefaults c) \<le> 100"
  "0 < oc_ConsecutiveErrors (outlier_withDefaults c)"
  "0 < oc_BaseEjectDuration (outlier_withDefaults c)"
  "0 < oc_MaxEjectDuration (outlier_withDefaults c)"
  by (auto simp: outlier_withDefaults_def Let_def)

lemma bl_inv_init: "bl_inv now (bl_SetOutlierConfig cfg (NewBackendList rng now))"
  using outlier_defaults_range(1) [of cfg]
  by (auto simp: bl_inv_def NewBackendList_def bl_SetOutlierConfig_def entries_ok_def valve_def
      synced_def earliest_expiry_def)

section \<open>Operations keep the invariant\<close>

lemma prevEntries_snoc [simp]: "prevEntries (es @ [e]) = (prevEntries es)(be_address e \<mapsto> e)"
  by (simp add: prevEntries_def)

lemma prevHealth_snoc [simp]: "prevHealth (es @ [e]) = (prevHealth es)(be_address e \<mapsto> be_healthy e)"
  by (simp add: prevHealth_def)

lemma prevHealth_prevEntries: "prevHealth es a = map_option be_healthy (prevEntries es a)"
  by (induction es rule: rev_induct) (auto simp: prevHealth_def prevEntries_def)

lemma prevEntries_SomeD: "prevEntries es a = Some e \<Longrightarrow> e \<in> set es \<and> be_address e = a"
  by (induction es rule: rev_induct) (auto simp: prevEntries_def split: if_splits)

lemma prevEntries_NoneD: "prevEntries es a = None \<Longrightarrow> e \<in> set es \<Longrightarrow> be_address e \<noteq> a"
  by (induction es rule: rev_induct) (auto simp: prevEntries_def split: if_splits)

lemma prevEntries_distinct:
  assumes "distinct (map be_address es)" "e \<in> set es"
  shows "prevEntries es (be_address e) = Some e"
proof (cases "prevEntries es (be_address e)")
  case None
  then show ?thesis using prevEntries_NoneD assms(2) by blast
next
  case (Some e')
  then have "e' \<in> set es" "be_address e' = be_address e" by (auto dest: prevEntries_SomeD)
  with assms Some show ?thesis by (metis distinct_map inj_on_def)
qed

lemma newEntry_props [simp]:
  "be_address (newEntry old be) = Backend_Address be"
  "0 < be_weight (newEntry old be)"
  "\<not> ejected t (newEntry old be)"
  by (simp_all add: newEntry_def ejected_def)

lemma newEntry_activeConns:
  "\<forall>e \<in> set old. 0 \<le> be_activeConns e \<Longrightarrow> 0 \<le> be_activeConns (newEntry old be)"
  by (auto simp: newEntry_def split: option.splits dest: prevEntries_SomeD)

lemma bl_inv_Update:
  assumes "bl_inv t b" "t \<le> now" shows "bl_inv now (bl_Update now bs b)"
proof (cases "BS_Version bs \<le> bl_version b \<and> bl_version b \<noteq> 0")
  case True
  with assms show ?thesis by (simp add: bl_Update_def bl_inv_later)
next
  case False
  have "count_if (ejected now) (map (newEntry old) bes) = 0" for old bes
    by (induction bes) simp_all
  with assms False show ?thesis unfolding bl_Update_def
    by (simp only: if_False, intro bl_inv_rebuild)
       (auto simp: bl_inv_def entries_ok_def valve_def intro!: newEntry_activeConns)
qed

lemma bl_inv_SetHealth:
  assumes "bl_inv t b" "t \<le> now" shows "bl_inv now (bl_SetHealth now a h b)"
proof (cases "find (\<lambda>e. be_address e = a \<and> be_healthy e \<noteq> h) (bl_entries b)")
  case None
  with assms show ?thesis by (simp add: bl_SetHealth_def Let_def bl_inv_later)
next
  case (Some e)
  let ?hit = "\<lambda>e. be_address e = a \<and> be_healthy e \<noteq> h"
  let ?b = "b\<lparr>bl_entries := update_first ?hit (\<lambda>e. e\<lparr>be_healthy := h\<rparr>) (bl_entries b)\<rparr>"
  have "entries_ok ?b"
    using assms(1) set_update_first [of ?hit "\<lambda>e. e\<lparr>be_healthy := h\<rparr>" "bl_entries b"]
    by (fastforce simp: bl_inv_def entries_ok_def)
  moreover have "valve now ?b"
    using bl_inv_later [OF assms]
    by (simp add: bl_inv_def valve_def count_if_update_first_same ejected_def)
  ultimately have "bl_inv now (rebuildSlotsLocked now ?b)"
    using assms(1) by (intro bl_inv_rebuild) (simp_all add: bl_inv_def)
  with Some show ?thesis by (simp add: bl_SetHealth_def Let_def)
qed

lemma bl_inv_Release: "bl_inv t b \<Longrightarrow> bl_inv t (bl_Release a b)"
  unfolding bl_Release_def by (erule bl_inv_upd_entry) (auto simp: profile_def)

lemma bl_inv_PinTo: "bl_inv t b \<Longrightarrow> bl_inv t (snd (bl_PinTo now a b))"
  unfolding bl_PinTo_def
  by (auto split: option.splits intro!: bl_inv_upd_entry simp: profile_def)

lemma bl_inv_RateLimitAllow: "bl_inv t b \<Longrightarrow> bl_inv t (snd (bl_RateLimitAllow nl al now k b))"
  unfolding bl_RateLimitAllow_def
  by (auto simp: bl_inv_def entries_ok_def synced_def valve_def split: prod.splits)

text \<open>
  The branches of \<open>RecordResult\<close>: nothing the selection sees changes (\<open>counted\<close>), or the entry is
  ejected and the slots are rebuilt (\<open>eject\<close>), which needs head-room under the valve.
\<close>

lemma RecordResult_cases:
  obtains (skip) "bl_RecordResult now a ok b = b"
  | (counted) n where "bl_RecordResult now a ok b = upd_entry a (\<lambda>e. e\<lparr>be_consecErrors := n\<rparr>) b"
  | (eject) e where "oc_Enabled (bl_outlier b)" "\<not> ok" "find_entry a b = Some e" "\<not> ejected now e"
      "oc_ConsecutiveErrors (bl_outlier b) \<le> be_consecErrors e + 1"
      "(count_if (ejected now) (bl_entries b) + 1) * 100
         \<le> oc_MaxEjectPercent (bl_outlier b) * int (length (bl_entries b))"
      "bl_RecordResult now a ok b = rebuildSlotsLocked now
         (upd_entry a (\<lambda>x. x\<lparr>be_ejectCount := be_ejectCount e + 1,
            be_ejectedUntil := now + ejectDuration (bl_outlier b) (be_ejectCount e + 1),
            be_consecErrors := 0\<rparr>) b)"
proof -
  have eq: "upd_entry a (\<lambda>x. x\<lparr>be_ejectCount := c, be_ejectedUntil := u, be_consecErrors := 0\<rparr>)
      (upd_entry a (\<lambda>x. x\<lparr>be_consecErrors := n\<rparr>) b) =
    upd_entry a (\<lambda>x. x\<lparr>be_ejectCount := c, be_ejectedUntil := u, be_consecErrors := 0\<rparr>) b" for c u n
    by (subst upd_entry_twice) (simp_all add: comp_def)
  have cnt: "count_if (ejected now) (bl_entries (upd_entry a (\<lambda>x. x\<lparr>be_consecErrors := n\<rparr>) b)) =
      count_if (ejected now) (bl_entries b)" for n
    by (rule upd_entry_count) (simp add: ejected_def)
  have len: "0 < int (length (bl_entries b))" if "find_entry a b = Some e" for e
    using find_entry_SomeD [OF that] by (auto simp: length_pos_if_in_set)
  show ?thesis
  proof (cases "oc_Enabled (bl_outlier b)")
    case False
    then show ?thesis by (intro skip) (simp add: bl_RecordResult_def)
  next
    case en: True
    show ?thesis
    proof (cases "find_entry a b")
      case None
      then show ?thesis by (intro skip) (simp add: bl_RecordResult_def)
    next
      case (Some e)
      show ?thesis
      proof (cases "ok \<or> be_consecErrors e + 1 < oc_ConsecutiveErrors (bl_outlier b) \<or> ejected now e \<or>
          oc_MaxEjectPercent (bl_outlier b) * int (length (bl_entries b))
            < (count_if (ejected now) (bl_entries b) + 1) * 100")
        case True
        with en Some len [OF Some] show ?thesis
          by (intro counted [of "if ok then 0 else be_consecErrors e + 1"])
             (auto simp: bl_RecordResult_def Let_def cnt)
      next
        case False
        with en Some show ?thesis
          by (intro eject [of e]) (auto simp: bl_RecordResult_def Let_def cnt eq)
      qed
    qed
  qed
qed

lemma count_eject:
  "count_if (ejected now) (bl_entries (upd_entry a f b)) \<le> count_if (ejected now) (bl_entries b) + 1"
  unfolding upd_entry_def by (simp add: count_if_update_first_le)

lemma bl_inv_RecordResult:
  assumes "bl_inv t b" "t \<le> now" shows "bl_inv now (bl_RecordResult now a ok b)"
proof (rule RecordResult_cases [of now a ok b])
  fix e assume e: "(count_if (ejected now) (bl_entries b) + 1) * 100
         \<le> oc_MaxEjectPercent (bl_outlier b) * int (length (bl_entries b))"
    and r: "bl_RecordResult now a ok b = rebuildSlotsLocked now
         (upd_entry a (\<lambda>x. x\<lparr>be_ejectCount := be_ejectCount e + 1,
            be_ejectedUntil := now + ejectDuration (bl_outlier b) (be_ejectCount e + 1),
            be_consecErrors := 0\<rparr>) b)" (is "_ = rebuildSlotsLocked now ?b")
  have "entries_ok ?b"
    using assms(1) unfolding bl_inv_def entries_ok_def by (intro upd_entry_all) auto
  moreover have "valve now ?b"
    using e count_eject [of now a _ b] unfolding valve_def upd_entry_frame
    by (meson order_trans mult_right_mono zero_le_numeral)
  ultimately show ?thesis unfolding r using assms(1) by (intro bl_inv_rebuild) (auto simp: bl_inv_def)
qed (use bl_inv_later [OF assms] in \<open>auto intro!: bl_inv_upd_entry simp: profile_def\<close>)

section \<open>The versioned-snapshot contract\<close>

definition bl_view ::
    "'l BackendList \<Rightarrow> (string \<times> int) list \<times> Algorithm \<times> StickyConfig \<times> RateLimitConfig" where
  "bl_view b = (map (\<lambda>e. (be_address e, be_weight e)) (bl_entries b), bl_algorithm b, bl_sticky b,
     gl_cfg (bl_rateLimit b))"

definition bs_view ::
    "BackendSet \<Rightarrow> (string \<times> int) list \<times> Algorithm \<times> StickyConfig \<times> RateLimitConfig" where
  "bs_view m =
     (map (\<lambda>be. (Backend_Address be, if Backend_Weight be \<le> 0 then 1 else Backend_Weight be))
        (BS_Backends m),
      normalizeAlgorithm (BS_Algorithm m),
      \<lparr>sc_Enabled = BS_Sticky m, sc_CookieName = BS_StickyCookieName m,
       sc_TTL = wrap64 (BS_StickyTtlSeconds m * second)\<rparr>,
      \<lparr>RL_Enabled = 0 < BS_RateLimitRps m, RL_RPS = BS_RateLimitRps m,
       RL_Burst = BS_RateLimitBurst m\<rparr>)"

definition bl_receive :: "'l BackendList \<Rightarrow> gotime \<times> BackendSet \<Rightarrow> 'l BackendList" where
  "bl_receive b m = bl_Update (fst m) (snd m) b"

interpretation bl_recv: versioned_receiver bl_version "\<lambda>m. BS_Version (snd m)" bl_receive bl_view
  "\<lambda>m. bs_view (snd m)"
  by unfold_locales
    (auto simp: bl_receive_def bl_Update_def bl_view_def bs_view_def newEntry_def comp_def)

end
