(* ===== verification/HashRing.thy ===== *)
theory HashRing
  imports Backends "HOL-Library.Multiset"
begin

text \<open>
  Consistent hashing (\<open>nextConsistentHash\<close> and \<open>hashKey\<close> of \<open>internal/dataplane/backends.go\<close>): the
  FNV-1a hash on 32-bit words, the ring of virtual nodes and the binary search of \<open>sort.Search\<close>.
  \<open>sort.Slice\<close> orders the ring by hash and may leave points with equal hashes in any order; the functions here keep
  their order, which is one of those it may produce. \<open>sorts_to\<close> says what it may produce, and \<open>ringSearch_unique\<close>
  shows that the choice does not matter as long as no two backends have points with the same hash.

  Shown here: the binary search finds the first ring point at or after the key's hash, and removing
  a backend moves no key but its own.
\<close>

unbundle bit_operations_syntax

section \<open>Definitions\<close>

definition hashKey :: "string \<Rightarrow> 32 word" where
  "hashKey s = foldl (\<lambda>h c. (h XOR of_nat (of_char c)) * 16777619) 2166136261 s"

record ringPoint =
  rp_hash :: "32 word"
  rp_slot :: nat

definition vnodesPerUnitWeight :: int where "vnodesPerUnitWeight = 40"

definition ringPointsOf :: "backendEntry list \<Rightarrow> nat \<Rightarrow> ringPoint list" where
  "ringPointsOf entries slot =
     (let e = entries ! slot;
          w = (if be_weight e \<le> 0 then 1 else be_weight e);
          vnodes = nat (w * vnodesPerUnitWeight)
      in map (\<lambda>v. \<lparr>rp_hash = hashKey (be_address e @ ''#'' @ itoa v), rp_slot = slot\<rparr>) [0..<vnodes])"

fun ringLoop :: "backendEntry list \<Rightarrow> nat list \<Rightarrow> nat list \<Rightarrow> ringPoint list \<Rightarrow> ringPoint list" where
  "ringLoop entries [] seen ring = ring"
| "ringLoop entries (slot # slots) seen ring =
     (if slot \<in> set seen then ringLoop entries slots seen ring
      else ringLoop entries slots (slot # seen) (ring @ ringPointsOf entries slot))"

function sortSearch :: "(nat \<Rightarrow> bool) \<Rightarrow> nat \<Rightarrow> nat \<Rightarrow> nat" where
  "sortSearch f i j =
     (if i < j then (let h = (i + j) div 2 in if \<not> f h then sortSearch f (h + 1) j else sortSearch f i h)
      else i)"
  by pat_completeness auto
termination
  by (relation "measure (\<lambda>(f, i, j). j - i)") auto

declare sortSearch.simps [simp del]

definition ringSearch :: "ringPoint list \<Rightarrow> 32 word \<Rightarrow> nat" where
  "ringSearch ring h =
     (let idx = sortSearch (\<lambda>i. h \<le> rp_hash (ring ! i)) 0 (length ring);
          idx = (if idx = length ring then 0 else idx)
      in rp_slot (ring ! idx))"

definition ringOwner :: "ringPoint list \<Rightarrow> 32 word \<Rightarrow> nat option" where
  "ringOwner points h = (if points = [] then None else Some (ringSearch (sort_key rp_hash points) h))"

text \<open>The rings that \<open>sort.Slice\<close> may produce from the points.\<close>

definition sorts_to :: "ringPoint list \<Rightarrow> ringPoint list \<Rightarrow> bool" where
  "sorts_to points ring \<longleftrightarrow> mset ring = mset points \<and> sorted (map rp_hash ring)"

section \<open>Binary search\<close>

lemma sortSearch_spec:
  assumes "i \<le> j" and "\<And>a b. i \<le> a \<Longrightarrow> a \<le> b \<Longrightarrow> b < j \<Longrightarrow> f a \<Longrightarrow> f b"
  shows "i \<le> sortSearch f i j \<and> sortSearch f i j \<le> j \<and>
    (\<forall>k. i \<le> k \<and> k < sortSearch f i j \<longrightarrow> \<not> f k) \<and>
    (\<forall>k. sortSearch f i j \<le> k \<and> k < j \<longrightarrow> f k)"
  using assms
proof (induction f i j rule: sortSearch.induct)
  case (1 f i j)
  show ?case
  proof (cases "i < j")
    case False
    then have "sortSearch f i j = i" by (simp add: sortSearch.simps [of f i j])
    with False "1.prems"(1) show ?thesis by auto
  next
    case True
    define h where "h = (i + j) div 2"
    have h: "i \<le> h" "h < j" using True by (auto simp: h_def)
    show ?thesis
    proof (cases "f h")
      case False
      have IH: "h + 1 \<le> sortSearch f (h + 1) j \<and> sortSearch f (h + 1) j \<le> j \<and>
          (\<forall>k. h + 1 \<le> k \<and> k < sortSearch f (h + 1) j \<longrightarrow> \<not> f k) \<and>
          (\<forall>k. sortSearch f (h + 1) j \<le> k \<and> k < j \<longrightarrow> f k)"
      proof (rule "1.IH"(1) [OF True h_def False])
        show "h + 1 \<le> j" using h by simp
        show "f b" if "h + 1 \<le> a" "a \<le> b" "b < j" "f a" for a b
          by (rule "1.prems"(2) [of a b]) (use that h in auto)
      qed
      have "\<not> f k" if "i \<le> k" "k \<le> h" for k using "1.prems"(2) [of k h, OF that(1,2) h(2)] False by blast
      then have "\<forall>k. i \<le> k \<and> k < sortSearch f (h + 1) j \<longrightarrow> \<not> f k"
        using IH by (metis Suc_eq_plus1 not_less_eq_eq)
      moreover have "sortSearch f i j = sortSearch f (h + 1) j"
        using True False by (simp add: sortSearch.simps [of f i j] h_def Let_def)
      ultimately show ?thesis using IH h by auto
    next
      case T: True
      have IH: "i \<le> sortSearch f i h \<and> sortSearch f i h \<le> h \<and>
          (\<forall>k. i \<le> k \<and> k < sortSearch f i h \<longrightarrow> \<not> f k) \<and>
          (\<forall>k. sortSearch f i h \<le> k \<and> k < h \<longrightarrow> f k)"
      proof (rule "1.IH"(2) [OF True h_def])
        show "\<not> \<not> f h" using T by simp
        show "i \<le> h" by (rule h)
        show "f b" if "i \<le> a" "a \<le> b" "b < h" "f a" for a b
          by (rule "1.prems"(2) [of a b]) (use that h in auto)
      qed
      have "f k" if "h \<le> k" "k < j" for k using "1.prems"(2) [of h k, OF h(1) that] T by blast
      then have "\<forall>k. sortSearch f i h \<le> k \<and> k < j \<longrightarrow> f k" using IH by (metis not_le)
      moreover have "sortSearch f i j = sortSearch f i h"
        using True T by (simp add: sortSearch.simps [of f i j] h_def Let_def)
      ultimately show ?thesis using IH h by auto
    qed
  qed
qed

text \<open>On a ring sorted by hash the search is \<open>find\<close>: the first point at or after the hash.\<close>

lemma find_via_index:
  assumes "n \<le> length xs" "\<And>k. k < n \<Longrightarrow> \<not> p (xs ! k)" "n < length xs \<Longrightarrow> p (xs ! n)"
  shows "find p xs = (if n < length xs then Some (xs ! n) else None)"
  using assms
proof (induction xs arbitrary: n)
  case (Cons x xs)
  show ?case
  proof (cases n)
    case 0
    with Cons.prems(3) show ?thesis by simp
  next
    case (Suc m)
    have "\<not> p x" using Cons.prems(2) [of 0] Suc by simp
    moreover have "find p xs = (if m < length xs then Some (xs ! m) else None)"
    proof (rule Cons.IH)
      show "m \<le> length xs" using Cons.prems(1) Suc by simp
      show "\<And>k. k < m \<Longrightarrow> \<not> p (xs ! k)" using Cons.prems(2) Suc by force
      show "m < length xs \<Longrightarrow> p (xs ! m)" using Cons.prems(3) Suc by simp
    qed
    ultimately show ?thesis using Suc by simp
  qed
qed simp

lemma ringSearch_find:
  assumes "sorted (map rp_hash ring)" "ring \<noteq> []"
  shows "ringSearch ring h = rp_slot (case find (\<lambda>p. h \<le> rp_hash p) ring of Some p \<Rightarrow> p | None \<Rightarrow> hd ring)"
proof -
  define n where "n = sortSearch (\<lambda>i. h \<le> rp_hash (ring ! i)) 0 (length ring)"
  let ?f = "\<lambda>i. h \<le> rp_hash (ring ! i)"
  have mono: "?f b" if "0 \<le> a" "a \<le> b" "b < length ring" "?f a" for a b
    using sorted_nth_mono [OF assms(1), of a b] that by simp
  have "0 \<le> n \<and> n \<le> length ring \<and> (\<forall>k. 0 \<le> k \<and> k < n \<longrightarrow> \<not> ?f k) \<and> (\<forall>k. n \<le> k \<and> k < length ring \<longrightarrow> ?f k)"
    unfolding n_def by (rule sortSearch_spec) (simp, erule (3) mono)
  then have spec: "n \<le> length ring" "\<And>k. k < n \<Longrightarrow> \<not> h \<le> rp_hash (ring ! k)"
    "\<And>k. n \<le> k \<Longrightarrow> k < length ring \<Longrightarrow> h \<le> rp_hash (ring ! k)" by blast+
  have "find (\<lambda>p. h \<le> rp_hash p) ring = (if n < length ring then Some (ring ! n) else None)"
    using spec by (intro find_via_index) auto
  then show ?thesis using assms(2) spec(1) by (auto simp: ringSearch_def Let_def hd_conv_nth simp flip: n_def)
qed

lemma ringOwner_find:
  "ringOwner points h =
     (let ring = sort_key rp_hash points
      in case find (\<lambda>p. h \<le> rp_hash p) ring of
           Some p \<Rightarrow> Some (rp_slot p)
         | None \<Rightarrow> (case ring of [] \<Rightarrow> None | p # _ \<Rightarrow> Some (rp_slot p)))"
proof (cases "points = []")
  case True
  then show ?thesis by (simp add: ringOwner_def)
next
  case False
  then have "sort_key rp_hash points \<noteq> []" by (metis set_empty set_sort)
  then show ?thesis using False ringSearch_find [of "sort_key rp_hash points" h]
    by (auto simp: ringOwner_def Let_def split: option.split list.split)
qed

text \<open>
  The point found is the one with the least hash at or after the key's, or with the least hash of all; so every sorted
  arrangement gives the same backend when equal hashes belong to one backend.
\<close>

lemma ringSearch_least:
  assumes "sorted (map rp_hash ring)" "ring \<noteq> []"
  obtains p where "p \<in> set ring" "ringSearch ring h = rp_slot p"
    "h \<le> rp_hash p \<and> (\<forall>q \<in> set ring. h \<le> rp_hash q \<longrightarrow> rp_hash p \<le> rp_hash q) \<or>
     (\<forall>q \<in> set ring. \<not> h \<le> rp_hash q) \<and> (\<forall>q \<in> set ring. rp_hash p \<le> rp_hash q)"
proof (cases "find (\<lambda>p. h \<le> rp_hash p) ring")
  case None
  have "rp_hash (hd ring) \<le> rp_hash q" if "q \<in> set ring" for q using assms that by (cases ring) auto
  then show ?thesis using that [of "hd ring"] None assms ringSearch_find [OF assms, of h] by (auto simp: find_None_iff)
next
  case (Some p)
  then obtain n where n: "n < length ring" "h \<le> rp_hash (ring ! n)" "p = ring ! n" "\<forall>k < n. \<not> h \<le> rp_hash (ring ! k)"
    by (auto simp: find_Some_iff)
  have "rp_hash p \<le> rp_hash q" if q: "q \<in> set ring" "h \<le> rp_hash q" for q
  proof -
    obtain m where "m < length ring" "q = ring ! m" using q(1) by (metis in_set_conv_nth)
    then show ?thesis using n q(2) sorted_nth_mono [OF assms(1), of n m] by (cases "m < n") auto
  qed
  then show ?thesis using that [of p] n ringSearch_find [OF assms, of h] Some by auto
qed

lemma ringSearch_unique:
  assumes "sorts_to points ring" "points \<noteq> []" "\<forall>p \<in> set points. \<forall>q \<in> set points. rp_hash p = rp_hash q \<longrightarrow> rp_slot p = rp_slot q"
  shows "ringOwner points h = Some (ringSearch ring h)"
proof -
  let ?s = "sort_key rp_hash points"
  have m: "set ring = set points" "set ?s = set points" "ring \<noteq> []" "?s \<noteq> []" "sorted (map rp_hash ring)" "sorted (map rp_hash ?s)"
    using assms(1,2) by (auto simp: sorts_to_def dest: mset_eq_setD) (metis set_empty set_sort)
  obtain p where p: "p \<in> set points" "ringSearch ring h = rp_slot p"
    "h \<le> rp_hash p \<and> (\<forall>q \<in> set points. h \<le> rp_hash q \<longrightarrow> rp_hash p \<le> rp_hash q) \<or>
     (\<forall>q \<in> set points. \<not> h \<le> rp_hash q) \<and> (\<forall>q \<in> set points. rp_hash p \<le> rp_hash q)"
    using ringSearch_least [OF m(5,3), of h] m(1) by metis
  obtain p' where p': "p' \<in> set points" "ringSearch ?s h = rp_slot p'"
    "h \<le> rp_hash p' \<and> (\<forall>q \<in> set points. h \<le> rp_hash q \<longrightarrow> rp_hash p' \<le> rp_hash q) \<or>
     (\<forall>q \<in> set points. \<not> h \<le> rp_hash q) \<and> (\<forall>q \<in> set points. rp_hash p' \<le> rp_hash q)"
    using ringSearch_least [OF m(6,4), of h] m(2) by metis
  have "rp_hash p \<le> rp_hash p'" using p(1,3) p'(1,3) by blast
  moreover have "rp_hash p' \<le> rp_hash p" using p(1,3) p'(1,3) by blast
  ultimately have "rp_hash p = rp_hash p'" by (rule order.antisym)
  then have "rp_slot p = rp_slot p'" using assms(3) p(1) p'(1) by blast
  then show ?thesis using assms(2) p(2) p'(2) by (simp add: ringOwner_def)
qed

section \<open>Removing a backend moves no other key\<close>

lemma find_filter_keep:
  "find p xs = Some x \<Longrightarrow> q x \<Longrightarrow> find p (filter q xs) = Some x"
  by (induction xs) (auto split: if_splits)

lemma find_filter_None: "find p xs = None \<Longrightarrow> find p (filter q xs) = None"
  by (induction xs) (auto split: if_splits)

lemma ringOwner_filter:
  assumes "ringOwner points h = Some j" "j \<noteq> i"
  shows "ringOwner (filter (\<lambda>p. rp_slot p \<noteq> i) points) h = Some j"
proof -
  define ring where "ring = sort_key rp_hash points"
  let ?q = "\<lambda>p. rp_slot p \<noteq> i"
  have fr: "sort_key rp_hash (filter ?q points) = filter ?q ring"
    by (simp add: ring_def filter_sort)
  show ?thesis
  proof (cases "find (\<lambda>p. h \<le> rp_hash p) ring")
    case (Some p)
    then have "rp_slot p = j" using assms(1) by (simp add: ringOwner_find ring_def)
    with Some assms(2) have "find (\<lambda>p. h \<le> rp_hash p) (filter ?q ring) = Some p"
      by (intro find_filter_keep) auto
    then show ?thesis using \<open>rp_slot p = j\<close> by (simp add: ringOwner_find fr)
  next
    case None
    then obtain p ps where "ring = p # ps" "rp_slot p = j"
      using assms(1) by (auto simp: ringOwner_find ring_def split: list.splits)
    moreover have "find (\<lambda>p. h \<le> rp_hash p) (filter ?q ring) = None"
      using None by (rule find_filter_None)
    ultimately show ?thesis using assms(2) by (simp add: ringOwner_find fr)
  qed
qed

lemma ringOwner_in: "ringOwner points h = Some j \<Longrightarrow> \<exists>p \<in> set points. rp_slot p = j"
proof -
  assume a: "ringOwner points h = Some j"
  define ring where "ring = sort_key rp_hash points"
  have "\<exists>p \<in> set ring. rp_slot p = j"
    using a by (auto simp: ringOwner_find ring_def [symmetric] split: option.splits list.splits
        dest: find_SomeD)
  then show ?thesis by (simp add: ring_def)
qed

lemma ringOwner_None: "ringOwner points h = None \<longleftrightarrow> points = []"
  by (simp add: ringOwner_def)

lemma ringOwner_Nil [simp]: "ringOwner [] h = None"
  by (simp add: ringOwner_None)

section \<open>The ring of a slot list\<close>

text \<open>The loop adds each distinct slot's points once, in order of first occurrence.\<close>

fun uniq_from :: "'a list \<Rightarrow> 'a list \<Rightarrow> 'a list" where
  "uniq_from seen [] = []"
| "uniq_from seen (x # xs) = (if x \<in> set seen then uniq_from seen xs else x # uniq_from (x # seen) xs)"

lemma ringLoop_uniq:
  "ringLoop es slots seen ring = ring @ concat (map (ringPointsOf es) (uniq_from seen slots))"
  by (induction es slots seen ring rule: ringLoop.induct) auto

lemma set_uniq_from: "set (uniq_from seen xs) = set xs - set seen"
  by (induction seen xs rule: uniq_from.induct) auto

lemma distinct_uniq_from: "distinct (uniq_from seen xs)"
  by (induction seen xs rule: uniq_from.induct) (auto simp: set_uniq_from)

lemma uniq_from_seen_cong: "set seen = set seen' \<Longrightarrow> uniq_from seen xs = uniq_from seen' xs"
proof (induction xs arbitrary: seen seen')
  case (Cons x xs)
  have "uniq_from (x # seen) xs = uniq_from (x # seen') xs" using Cons.prems by (intro Cons.IH) simp
  moreover have "uniq_from seen xs = uniq_from seen' xs" using Cons.prems by (rule Cons.IH)
  ultimately show ?case using Cons.prems by (simp only: uniq_from.simps)
qed simp

lemma uniq_from_absent: "i \<notin> set xs \<Longrightarrow> uniq_from (i # seen) xs = uniq_from seen xs"
proof (induction xs arbitrary: seen)
  case (Cons x xs)
  have "uniq_from (x # i # seen) xs = uniq_from (i # x # seen) xs"
    by (rule uniq_from_seen_cong) (simp add: insert_commute)
  with Cons show ?case by auto
qed simp

lemma uniq_from_filter:
  "uniq_from seen (filter (\<lambda>x. x \<noteq> i) xs) = filter (\<lambda>x. x \<noteq> i) (uniq_from seen xs)"
proof (induction seen xs rule: uniq_from.induct)
  case (2 seen x xs)
  have "uniq_from (i # seen) (filter (\<lambda>x. x \<noteq> i) xs) = uniq_from seen (filter (\<lambda>x. x \<noteq> i) xs)"
    by (rule uniq_from_absent) simp
  then show ?case using "2.IH" by (cases "x = i") auto
qed simp

lemma ringPointsOf_slot: "p \<in> set (ringPointsOf es i) \<Longrightarrow> rp_slot p = i"
  by (auto simp: ringPointsOf_def Let_def)

lemma ringPointsOf_ne: "ringPointsOf es i \<noteq> []"
  by (auto simp: ringPointsOf_def Let_def vnodesPerUnitWeight_def)

lemma filter_ring_concat:
  "filter (\<lambda>p. rp_slot p \<noteq> i) (concat (map (ringPointsOf es) js)) =
     concat (map (ringPointsOf es) (filter (\<lambda>j. j \<noteq> i) js))"
proof (induction js)
  case (Cons j js)
  have "filter (\<lambda>p. rp_slot p \<noteq> i) (ringPointsOf es j) = (if j = i then [] else ringPointsOf es j)"
    by (auto simp: ringPointsOf_slot filter_empty_conv intro!: filter_True)
  with Cons.IH show ?case by simp
qed simp

lemma ringLoop_filter:
  "ringLoop es (filter (\<lambda>j. j \<noteq> i) slots) [] [] = filter (\<lambda>p. rp_slot p \<noteq> i) (ringLoop es slots [] [])"
  by (simp add: ringLoop_uniq uniq_from_filter filter_ring_concat)

lemma ringLoop_slots: "p \<in> set (ringLoop es slots [] []) \<Longrightarrow> rp_slot p \<in> set slots"
  by (auto simp: ringLoop_uniq set_uniq_from dest!: ringPointsOf_slot)

lemma ringLoop_ne: "slots \<noteq> [] \<Longrightarrow> ringLoop es slots [] [] \<noteq> []"
proof -
  assume "slots \<noteq> []"
  then have "set (uniq_from [] slots) \<noteq> {}" by (simp add: set_uniq_from)
  then show ?thesis by (auto simp: ringLoop_uniq ringPointsOf_ne)
qed

text \<open>The backend index that owns a key, over the slots of the currently selectable backends.\<close>

definition keyOwner :: "backendEntry list \<Rightarrow> nat list \<Rightarrow> string \<Rightarrow> nat option" where
  "keyOwner es slots key = ringOwner (ringLoop es slots [] []) (hashKey key)"

lemma keyOwner_total: "slots \<noteq> [] \<Longrightarrow> \<exists>i \<in> set slots. keyOwner es slots key = Some i"
  using ringOwner_None [of "ringLoop es slots [] []" "hashKey key"] ringLoop_ne [of slots es]
    ringOwner_in [of "ringLoop es slots [] []" "hashKey key"] ringLoop_slots [of _ es slots]
  unfolding keyOwner_def by (metis option.exhaust)

lemma keyOwner_remove:
  "keyOwner es slots key = Some j \<Longrightarrow> j \<noteq> i \<Longrightarrow>
     keyOwner es (filter (\<lambda>s. s \<noteq> i) slots) key = Some j"
  unfolding keyOwner_def ringLoop_filter by (rule ringOwner_filter)

end
