(* ===== verification/Selection.thy ===== *)
theory Selection
  imports HashRing Float64
begin

text \<open>
  Choosing a backend (\<open>Next\<close>, \<open>NextForKey\<close> and the five algorithms of
  \<open>internal/dataplane/backends.go\<close>). A selection returns the address, or \<open>None\<close> for the Go result
  \<open>("", false)\<close>, with the list after it: the round-robin cursor, the random stream and the chosen
  entry's connection count are the only things that change, apart from the lazy rebuild.

  Shown here: a selection is a selectable backend and fails only when there is none, the lazy
  rebuild is as good as rebuilding on every request, and what each algorithm promises.
\<close>

section \<open>Definitions\<close>

definition bl_refresh :: "gotime \<Rightarrow> 'l BackendList \<Rightarrow> 'l BackendList" where
  "bl_refresh now b =
     (if bl_nextEjectExpiry b \<noteq> zero_time \<and> \<not> now < bl_nextEjectExpiry b
      then rebuildSlotsLocked now b else b)"

definition bump :: "backendEntry \<Rightarrow> backendEntry" where
  "bump e = e\<lparr>be_activeConns := be_activeConns e + 1\<rparr>"

definition take_entry :: "nat \<Rightarrow> 'l BackendList \<Rightarrow> string option \<times> 'l BackendList" where
  "take_entry i b =
     (Some (be_address (bl_entries b ! i)),
      b\<lparr>bl_entries := (bl_entries b)[i := bump (bl_entries b ! i)]\<rparr>)"

definition nextRoundRobin :: "'l BackendList \<Rightarrow> string option \<times> 'l BackendList" where
  "nextRoundRobin b =
     (let idx = bl_next b;
          slot = bl_slots b ! (unat idx mod length (bl_slots b))
      in take_entry slot (b\<lparr>bl_next := idx + 1\<rparr>))"

definition nextRandom :: "'l BackendList \<Rightarrow> string option \<times> 'l BackendList" where
  "nextRandom b =
     (let (r, rng) = Intn (length (bl_slots b)) (bl_rng b)
      in take_entry (bl_slots b ! r) (b\<lparr>bl_rng := rng\<rparr>))"

definition load :: "backendEntry \<Rightarrow> rat" where
  "load e =
     (let w = (if be_weight e \<le> 0 then 1 else be_weight e)
      in f64 (f64 (of_int (be_activeConns e)) / f64 (of_int w)))"

fun leastLoop ::
    "backendEntry list \<Rightarrow> nat list \<Rightarrow> nat list \<Rightarrow> (nat \<times> rat) option \<Rightarrow> (nat \<times> rat) option" where
  "leastLoop es [] seen best = best"
| "leastLoop es (slot # slots) seen best =
     (if slot \<in> set seen then leastLoop es slots seen best
      else leastLoop es slots (slot # seen)
        (case best of
           None \<Rightarrow> Some (slot, load (es ! slot))
         | Some (i, bestLoad) \<Rightarrow>
             if load (es ! slot) < bestLoad then Some (slot, load (es ! slot)) else best))"

definition nextLeastConnections :: "'l BackendList \<Rightarrow> string option \<times> 'l BackendList" where
  "nextLeastConnections b =
     (case leastLoop (bl_entries b) (bl_slots b) [] None of
        None \<Rightarrow> (None, b)
      | Some (i, _) \<Rightarrow> take_entry i b)"

definition p2cDraw :: "nat \<Rightarrow> nat stream \<Rightarrow> (nat \<times> nat) \<times> nat stream" where
  "p2cDraw n rng =
     (let (i, rng1) = Intn n rng
      in if 1 < n then
           (let (j, rng2) = Intn (n - 1) rng1 in ((i, if i \<le> j then j + 1 else j), rng2))
         else ((i, i), rng1))"

definition nextP2C :: "'l BackendList \<Rightarrow> string option \<times> 'l BackendList" where
  "nextP2C b =
     (let ((i, j), rng) = p2cDraw (length (bl_slots b)) (bl_rng b);
          a = bl_slots b ! i;
          c = bl_slots b ! j;
          best = (if load (bl_entries b ! c) < load (bl_entries b ! a) then c else a)
      in take_entry best (b\<lparr>bl_rng := rng\<rparr>))"

definition nextConsistentHash :: "string \<Rightarrow> 'l BackendList \<Rightarrow> string option \<times> 'l BackendList" where
  "nextConsistentHash key b =
     (case ringOwner (ringLoop (bl_entries b) (bl_slots b) [] []) (hashKey key) of
        None \<Rightarrow> (None, b)
      | Some i \<Rightarrow> take_entry i b)"

definition bl_NextForKey :: "gotime \<Rightarrow> string \<Rightarrow> 'l BackendList \<Rightarrow> string option \<times> 'l BackendList" where
  "bl_NextForKey now key b0 =
     (let b = bl_refresh now b0
      in if bl_slots b = [] then (None, b)
         else case bl_algorithm b of
           AlgorithmLeastConnections \<Rightarrow> nextLeastConnections b
         | AlgorithmRandom \<Rightarrow> nextRandom b
         | AlgorithmP2C \<Rightarrow> nextP2C b
         | AlgorithmConsistentHash \<Rightarrow>
             if key = [] then nextRoundRobin b else nextConsistentHash key b
         | AlgorithmRoundRobin \<Rightarrow> nextRoundRobin b)"

definition bl_Next :: "gotime \<Rightarrow> 'l BackendList \<Rightarrow> string option \<times> 'l BackendList" where
  "bl_Next now b = bl_NextForKey now [] b"

section \<open>The lazy rebuild\<close>

lemma refresh_frame [simp]:
  "bl_entries (bl_refresh now b) = bl_entries b"
  "bl_version (bl_refresh now b) = bl_version b"
  "bl_algorithm (bl_refresh now b) = bl_algorithm b"
  "bl_sticky (bl_refresh now b) = bl_sticky b"
  "bl_next (bl_refresh now b) = bl_next b"
  "bl_rng (bl_refresh now b) = bl_rng b"
  "bl_outlier (bl_refresh now b) = bl_outlier b"
  "bl_rateLimit (bl_refresh now b) = bl_rateLimit b"
  by (simp_all add: bl_refresh_def)

lemma refresh_slots:
  assumes "bl_inv t b" "t \<le> now"
  shows "bl_slots (bl_refresh now b) = slots_from now 0 (bl_entries b)"
proof -
  obtain t0 where t0: "t0 \<le> t" "synced t0 b" using assms(1) by (auto simp: bl_inv_def)
  show ?thesis
  proof (cases "bl_nextEjectExpiry b = 0 \<or> now < bl_nextEjectExpiry b")
    case True
    have "slots_from now 0 (bl_entries b) = slots_from t0 0 (bl_entries b)"
      using True t0 assms(2) by (intro slots_from_lazy) (auto simp: synced_def)
    with True t0 show ?thesis by (auto simp: bl_refresh_def synced_def)
  qed (simp add: bl_refresh_def)
qed

lemma bl_inv_refresh:
  assumes "bl_inv t b" "t \<le> now" shows "bl_inv now (bl_refresh now b)"
proof (cases "bl_nextEjectExpiry b \<noteq> 0 \<and> \<not> now < bl_nextEjectExpiry b")
  case True
  have "bl_inv now b" using assms by (rule bl_inv_later)
  then have "bl_inv now (rebuildSlotsLocked now b)"
    by (intro bl_inv_rebuild) (auto simp: bl_inv_def)
  with True show ?thesis by (simp add: bl_refresh_def)
next
  case False
  with bl_inv_later [OF assms] show ?thesis by (auto simp: bl_refresh_def)
qed


section \<open>Every algorithm takes one of the slots\<close>

definition takes :: "'l BackendList \<Rightarrow> string option \<times> 'l BackendList \<Rightarrow> nat \<Rightarrow> bool" where
  "takes b r i \<longleftrightarrow> i \<in> set (bl_slots b) \<and> (\<exists>c g. r = take_entry i (b\<lparr>bl_next := c, bl_rng := g\<rparr>))"

lemma takesI:
  "i \<in> set (bl_slots b) \<Longrightarrow> r = take_entry i (b\<lparr>bl_next := c, bl_rng := g\<rparr>) \<Longrightarrow> takes b r i"
  unfolding takes_def by blast

lemma nextRoundRobin_takes:
  "bl_slots b \<noteq> [] \<Longrightarrow> takes b (nextRoundRobin b) (bl_slots b ! (unat (bl_next b) mod length (bl_slots b)))"
  by (rule takesI [where c = "bl_next b + 1" and g = "bl_rng b"]) (simp_all add: nextRoundRobin_def Let_def)

lemma nextRandom_takes:
  "bl_slots b \<noteq> [] \<Longrightarrow> takes b (nextRandom b) (bl_slots b ! (shd (bl_rng b) mod length (bl_slots b)))"
  by (rule takesI [where c = "bl_next b" and g = "stl (bl_rng b)"])
     (simp_all add: nextRandom_def Intn_def)

lemma p2cDraw_less:
  assumes "p2cDraw n rng = ((i, j), rng')" "0 < n"
  shows "i < n" "j < n" "1 < n \<Longrightarrow> i \<noteq> j"
proof -
  define m where "m = shd (stl rng) mod (n - 1)"
  have m: "m < n - 1" if "1 < n" using that by (simp add: m_def)
  have ij: "i = shd rng mod n" "j = (if 1 < n then (if i \<le> m then m + 1 else m) else i)"
    using assms by (auto simp: p2cDraw_def Intn_def Let_def m_def split: if_splits)
  show i: "i < n" using ij(1) assms(2) by simp
  show "j < n" using ij(2) i m by (auto split: if_splits)
  show "1 < n \<Longrightarrow> i \<noteq> j" using ij(2) by auto
qed

lemma nextP2C_takes:
  assumes "bl_slots b \<noteq> []" "p2cDraw (length (bl_slots b)) (bl_rng b) = ((i, j), rng)"
  shows "takes b (nextP2C b)
    (if load (bl_entries b ! (bl_slots b ! j)) < load (bl_entries b ! (bl_slots b ! i))
     then bl_slots b ! j else bl_slots b ! i)"
  using assms p2cDraw_less [OF assms(2)]
  by (intro takesI [where c = "bl_next b" and g = rng]) (auto simp: nextP2C_def)

text \<open>The least-connections loop returns a slot of minimal load.\<close>

lemma leastLoop_best:
  assumes "best \<noteq> None \<or> set slots - set seen \<noteq> {}"
    and "\<And>i l. best = Some (i, l) \<Longrightarrow> l = load (es ! i)"
  shows "\<exists>i. leastLoop es slots seen best = Some (i, load (es ! i)) \<and>
    (i \<in> set slots \<or> (\<exists>l. best = Some (i, l))) \<and>
    (\<forall>l j. best = Some (j, l) \<longrightarrow> load (es ! i) \<le> l) \<and>
    (\<forall>j \<in> set slots - set seen. load (es ! i) \<le> load (es ! j))"
  using assms
proof (induction es slots seen best rule: leastLoop.induct)
  case (1 es seen best)
  then show ?case by auto
next
  case (2 es slot slots seen best)
  show ?case
  proof (cases "slot \<in> set seen")
    case True
    have "best \<noteq> None \<or> set slots - set seen \<noteq> {}" using True "2.prems"(1) by auto
    from "2.IH"(1) [OF True this "2.prems"(2)] True show ?thesis by auto
  next
    case False
    let ?best = "case best of None \<Rightarrow> Some (slot, load (es ! slot))
      | Some (i, l) \<Rightarrow> if load (es ! slot) < l then Some (slot, load (es ! slot)) else best"
    have "?best \<noteq> None" by (auto split: option.splits)
    moreover have "l = load (es ! i)" if "?best = Some (i, l)" for i l
      using that "2.prems"(2) by (auto split: option.splits if_splits)
    ultimately obtain i where i: "leastLoop es slots (slot # seen) ?best = Some (i, load (es ! i))"
      "i \<in> set slots \<or> (\<exists>l. ?best = Some (i, l))"
      "\<And>l j. ?best = Some (j, l) \<Longrightarrow> load (es ! i) \<le> l"
      "\<And>j. j \<in> set slots - set (slot # seen) \<Longrightarrow> load (es ! i) \<le> load (es ! j)"
      using "2.IH"(2) [OF False] by blast
    have low: "load (es ! i) \<le> load (es ! slot)"
      using i(3) by (cases best) (fastforce split: if_splits)+
    have b: "load (es ! i) \<le> l" if "best = Some (j, l)" for j l
      using i(3) that low by (fastforce split: if_splits)
    have "i \<in> set (slot # slots) \<or> (\<exists>l. best = Some (i, l))"
      using i(2) by (auto split: option.splits if_splits)
    moreover have "load (es ! i) \<le> load (es ! j)" if "j \<in> set (slot # slots) - set seen" for j
      using that low i(4) [of j] by (cases "j = slot") auto
    ultimately show ?thesis using False i(1) b by auto
  qed
qed

lemma nextLeastConnections_takes:
  assumes "bl_slots b \<noteq> []"
  obtains i where "takes b (nextLeastConnections b) i"
    "\<And>j. j \<in> set (bl_slots b) \<Longrightarrow> load (bl_entries b ! i) \<le> load (bl_entries b ! j)"
proof -
  obtain i where "leastLoop (bl_entries b) (bl_slots b) [] None = Some (i, load (bl_entries b ! i))"
    "i \<in> set (bl_slots b)" "\<forall>j \<in> set (bl_slots b). load (bl_entries b ! i) \<le> load (bl_entries b ! j)"
    using leastLoop_best [of None "bl_slots b" "[]" "bl_entries b"] assms by auto
  then show thesis
    by (intro that [of i] takesI [where c = "bl_next b" and g = "bl_rng b"])
       (auto simp: nextLeastConnections_def)
qed

lemma nextConsistentHash_takes:
  assumes "bl_slots b \<noteq> []"
  obtains i where "takes b (nextConsistentHash key b) i"
    "keyOwner (bl_entries b) (bl_slots b) key = Some i"
proof -
  obtain i where "i \<in> set (bl_slots b)" "keyOwner (bl_entries b) (bl_slots b) key = Some i"
    using keyOwner_total [OF assms] by blast
  then show thesis
    by (intro that [of i] takesI [where c = "bl_next b" and g = "bl_rng b"])
       (auto simp: nextConsistentHash_def keyOwner_def)
qed

lemma NextForKey_takes:
  assumes "bl_slots (bl_refresh now b) \<noteq> []"
  obtains i where "takes (bl_refresh now b) (bl_NextForKey now key b) i"
proof -
  let ?b = "bl_refresh now b"
  obtain i j rng where d: "p2cDraw (length (bl_slots ?b)) (bl_rng ?b) = ((i, j), rng)"
    by (metis prod.collapse)
  have rr: "\<exists>i. takes ?b (nextRoundRobin ?b) i" using nextRoundRobin_takes [OF assms] ..
  have rnd: "\<exists>i. takes ?b (nextRandom ?b) i" using nextRandom_takes [OF assms] ..
  have p2: "\<exists>i. takes ?b (nextP2C ?b) i" using nextP2C_takes [OF assms d] ..
  have lc: "\<exists>i. takes ?b (nextLeastConnections ?b) i" by (rule nextLeastConnections_takes [OF assms]) (rule exI)
  have ch: "\<exists>i. takes ?b (nextConsistentHash key ?b) i" by (rule nextConsistentHash_takes [OF assms]) (rule exI)
  have "\<exists>i. takes ?b (bl_NextForKey now key b) i"
    using assms rr rnd p2 lc ch by (cases "bl_algorithm b") (simp_all add: bl_NextForKey_def Let_def)
  then show thesis using that by blast
qed

lemma NextForKey_empty:
  "bl_slots (bl_refresh now b) = [] \<Longrightarrow> bl_NextForKey now key b = (None, bl_refresh now b)"
  by (simp add: bl_NextForKey_def)

text \<open>What taking an entry does to the list.\<close>

lemma takes_result:
  "takes b r i \<Longrightarrow> fst r = Some (be_address (bl_entries b ! i))"
  "takes b r i \<Longrightarrow> bl_entries (snd r) = (bl_entries b)[i := bump (bl_entries b ! i)]"
  by (auto simp: takes_def take_entry_def)

lemma takes_frame:
  assumes "takes b r i"
  shows "bl_slots (snd r) = bl_slots b" "bl_nextEjectExpiry (snd r) = bl_nextEjectExpiry b"
    "bl_outlier (snd r) = bl_outlier b" "bl_algorithm (snd r) = bl_algorithm b"
    "bl_version (snd r) = bl_version b" "bl_sticky (snd r) = bl_sticky b"
    "bl_rateLimit (snd r) = bl_rateLimit b"
  using assms by (auto simp: takes_def take_entry_def)

lemma bump_simps [simp]:
  "profile (bump e) = profile e" "be_address (bump e) = be_address e"
  "be_weight (bump e) = be_weight e" "be_activeConns (bump e) = be_activeConns e + 1"
  "ejected t (bump e) = ejected t e" "selectable t (bump e) = selectable t e"
  by (simp_all add: bump_def profile_def ejected_def selectable_def)

lemma map_bump:
  "(\<And>e. g (bump e) = g e) \<Longrightarrow> map g (es[i := bump (es ! i)]) = map g es"
  by (simp add: map_update) (metis list_update_beyond list_update_id map_update not_less nth_map)

lemma count_if_map: "count_if p xs = count_if id (map p xs)"
  by (induction xs) auto

lemma bl_inv_takes:
  assumes "bl_inv t b" "takes b r i" shows "bl_inv t (snd r)"
proof -
  note fr = takes_frame [OF assms(2)]
  have e: "bl_entries (snd r) = (bl_entries b)[i := bump (bl_entries b ! i)]"
    using assms(2) by (rule takes_result)
  obtain t0 where t0: "t0 \<le> t" "synced t0 b" using assms(1) by (auto simp: bl_inv_def)
  have "synced t0 (snd r)" using t0(2) by (rule synced_profile) (simp_all add: e fr map_bump)
  moreover have "valve t (snd r)"
    using assms(1) unfolding bl_inv_def valve_def e fr
    by (simp add: count_if_map [of "ejected t"] map_bump)
  moreover have "entries_ok (snd r)"
  proof (cases "i < length (bl_entries b)")
    case True
    then show ?thesis using assms(1) nth_mem [OF True]
      by (auto simp: bl_inv_def entries_ok_def e dest!: set_update_subset_insert [THEN subsetD])
  qed (use assms(1) in \<open>simp add: bl_inv_def entries_ok_def e list_update_beyond\<close>)
  ultimately show ?thesis using assms(1) t0(1) by (auto simp: bl_inv_def fr)
qed

lemma bl_inv_NextForKey:
  assumes "bl_inv t b" "t \<le> now" shows "bl_inv now (snd (bl_NextForKey now key b))"
proof (cases "bl_slots (bl_refresh now b) = []")
  case True
  with bl_inv_refresh [OF assms] show ?thesis by (simp add: NextForKey_empty)
next
  case False
  then show ?thesis
    by (rule NextForKey_takes [where key = key]) (rule bl_inv_takes [OF bl_inv_refresh [OF assms]])
qed


section \<open>Sequences of requests\<close>

fun Next_run :: "gotime list \<Rightarrow> 'l BackendList \<Rightarrow> string option list \<times> 'l BackendList" where
  "Next_run [] b = ([], b)"
| "Next_run (now # nows) b =
     (let (r, b1) = bl_Next now b; (rs, b2) = Next_run nows b1 in (r # rs, b2))"

lemma count_rotate: "count_list (rotate s xs) x = count_list xs x"
proof -
  let ?k = "s mod length xs"
  have "count_list (rotate s xs) x = count_list (take ?k xs) x + count_list (drop ?k xs) x"
    unfolding rotate_drop_take by simp
  also have "\<dots> = count_list (take ?k xs @ drop ?k xs) x" by (rule count_list_append [symmetric])
  finally show ?thesis by simp
qed

lemma rotate_index: "map (\<lambda>k. xs ! ((s + k) mod length xs)) [0..<length xs] = rotate s xs"
  by (rule nth_equalityI) (simp_all add: nth_rotate)

lemma count_cycle:
  assumes "xs \<noteq> []"
  shows "count_list (map (\<lambda>k. xs ! ((s + k) mod length xs)) [0..<m * length xs]) x = m * count_list xs x"
proof (induction m)
  case (Suc m)
  let ?f = "\<lambda>k. xs ! ((s + k) mod length xs)"
  have u: "[0..<Suc m * length xs] = [0..<m * length xs] @ map (\<lambda>k. k + m * length xs) [0..<length xs]"
    using upt_add_eq_append [of 0 "m * length xs" "length xs"]
    by (simp only: map_add_upt mult_Suc add.commute [of "length xs"] le0)
  have "map (?f \<circ> (\<lambda>k. k + m * length xs)) [0..<length xs] = map ?f [0..<length xs]"
    by (rule map_cong) (simp_all add: comp_def add.assoc [symmetric])
  then have "map ?f [0..<Suc m * length xs] = map ?f [0..<m * length xs] @ rotate s xs"
    unfolding u map_append map_map by (simp add: rotate_index)
  then show ?case using Suc.IH by (simp add: count_list_append count_rotate)
qed simp

lemma count_map_inj:
  "(\<And>y. y \<in> set xs \<Longrightarrow> f y = f j \<Longrightarrow> y = j) \<Longrightarrow> count_list (map f xs) (f j) = count_list xs j"
  by (induction xs) auto

text \<open>A run of round robin reads the slot list cyclically from the cursor.\<close>

lemma Next_run_round_robin:
  assumes "bl_algorithm b = AlgorithmRoundRobin" "bl_slots b \<noteq> []"
    and "\<forall>now \<in> set nows. bl_nextEjectExpiry b = 0 \<or> now < bl_nextEjectExpiry b"
    and "\<forall>i \<in> set (bl_slots b). i < length (bl_entries b)"
    and "unat (bl_next b) + length nows \<le> 2 ^ 64"
  shows "fst (Next_run nows b) =
    map (\<lambda>k. Some (map be_address (bl_entries b) !
               (bl_slots b ! ((unat (bl_next b) + k) mod length (bl_slots b))))) [0..<length nows]"
  using assms
proof (induction nows arbitrary: b)
  case (Cons now nows)
  let ?i = "bl_slots b ! (unat (bl_next b) mod length (bl_slots b))"
  have n: "bl_Next now b = nextRoundRobin b"
    using Cons.prems(1,2,3) by (auto simp: bl_Next_def bl_NextForKey_def bl_refresh_def)
  let ?b = "snd (nextRoundRobin b)"
  have t: "takes b (nextRoundRobin b) ?i" using Cons.prems(2) by (rule nextRoundRobin_takes)
  have nx: "bl_next ?b = bl_next b + 1"
    by (simp add: nextRoundRobin_def take_entry_def Let_def)
  have addr: "map be_address (bl_entries ?b) = map be_address (bl_entries b)"
    unfolding takes_result(2) [OF t] by (rule map_bump) simp
  have len: "length (bl_entries ?b) = length (bl_entries b)" using addr by (metis length_map)
  note fr = takes_frame [OF t]
  have first: "fst (nextRoundRobin b) = Some (map be_address (bl_entries b) ! ?i)"
    using takes_result(1) [OF t] Cons.prems(2,4) by (simp add: nth_map)
  show ?case
  proof (cases "nows = []")
    case True
    then show ?thesis using n first by (simp add: split_beta)
  next
    case False
    have "unat (bl_next b) < 2 ^ 64 - 1" using False Cons.prems(5) by (cases nows) auto
    then have u: "unat (bl_next ?b) = Suc (unat (bl_next b))"
      unfolding nx by (simp add: unat_word_ariths)
    have "fst (Next_run nows ?b) =
        map (\<lambda>k. Some (map be_address (bl_entries b) !
               (bl_slots b ! ((Suc (unat (bl_next b)) + k) mod length (bl_slots b))))) [0..<length nows]"
      using Cons.IH [of ?b] Cons.prems unfolding u addr len fr by simp
    then show ?thesis
      using n first by (simp add: split_beta map_upt_Suc del: upt_Suc)
  qed
qed simp

section \<open>Load\<close>

lemma load_nonneg_cases:
  "0 < be_weight e \<Longrightarrow> be_weight e \<le> 2 ^ 26 \<Longrightarrow> 0 \<le> be_activeConns e \<Longrightarrow> be_activeConns e \<le> 2 ^ 26 \<Longrightarrow>
     load e = f64 (of_int (be_activeConns e) / of_int (be_weight e))"
  by (simp add: load_def f64_exact)

lemma load_exact:
  assumes e: "0 < be_weight e" "be_weight e \<le> 2 ^ 26" "0 \<le> be_activeConns e" "be_activeConns e \<le> 2 ^ 26"
    and d: "0 < be_weight d" "be_weight d \<le> 2 ^ 26" "0 \<le> be_activeConns d" "be_activeConns d \<le> 2 ^ 26"
    and le: "load e \<le> load d"
  shows "be_activeConns e * be_weight d \<le> be_activeConns d * be_weight e"
proof (rule ccontr)
  assume "\<not> ?thesis"
  then have lt: "be_activeConns d * be_weight e + 1 \<le> be_activeConns e * be_weight d" by simp
  define ce we cd wd where d: "ce = (of_int (be_activeConns e) :: rat)" "we = (of_int (be_weight e) :: rat)"
    "cd = (of_int (be_activeConns d) :: rat)" "wd = (of_int (be_weight d) :: rat)"
  have pos: "0 < we" "0 < wd" "0 \<le> cd" using e d(1,3) assms(5,7) d by auto
  have lt': "cd * we + 1 \<le> ce * wd" using lt unfolding d by (metis of_int_1 of_int_add of_int_le_iff of_int_mult)
  have "be_activeConns e * be_weight d \<le> 2 ^ 26 * 2 ^ 26" using e assms(5,6) by (intro mult_mono) auto
  then have "of_int (be_activeConns e * be_weight d) \<le> (of_int (2 ^ 52) :: rat)"
    by (subst of_int_le_iff) simp
  then have big: "ce * wd \<le> 2 ^ 52" by (simp add: d)
  have "cd / wd < ce / we" using pos lt' by (simp add: field_simps)
  moreover have "(ce / we) / 2 ^ 52 \<le> ce / we - cd / wd"
  proof -
    have "(ce / we) / 2 ^ 52 = (ce * wd) / (we * wd * 2 ^ 52)" using pos by simp
    also have "\<dots> \<le> 1 / (we * wd)" using pos big by (simp add: field_simps)
    also have "\<dots> \<le> (ce * wd - cd * we) / (we * wd)" using pos lt' by (intro divide_right_mono) auto
    also have "\<dots> = ce / we - cd / wd" using pos by (simp add: field_simps)
    finally show ?thesis .
  qed
  ultimately have "f64 (cd / wd) < f64 (ce / we)" using pos by (intro f64_strict) auto
  then show False using le load_nonneg_cases [OF e] load_nonneg_cases [OF assms(5-8)] by (simp add: d)
qed


section \<open>The owner of a key\<close>

text \<open>
  Which entry owns a key depends on the addresses, the weights and which entries are selectable,
  and on nothing else of the list.
\<close>

definition offer :: "gotime \<Rightarrow> backendEntry \<Rightarrow> string \<times> int \<times> bool" where
  "offer now e = (be_address e, be_weight e, selectable now e)"

lemma offer_nth:
  assumes "map (offer now) es = map (offer now') es'" "i < length es"
  shows "be_address (es ! i) = be_address (es' ! i)" "be_weight (es ! i) = be_weight (es' ! i)"
    "selectable now (es ! i) = selectable now' (es' ! i)"
proof -
  have "length es = length es'" using assms(1) by (rule map_eq_imp_length_eq)
  then have "offer now (es ! i) = offer now' (es' ! i)" using assms by (metis nth_map)
  then show "be_address (es ! i) = be_address (es' ! i)" "be_weight (es ! i) = be_weight (es' ! i)"
    "selectable now (es ! i) = selectable now' (es' ! i)" by (simp_all add: offer_def)
qed

lemma slots_from_offer:
  "map (offer now) es = map (offer now') es' \<Longrightarrow> slots_from now i es = slots_from now' i es'"
proof (induction es arbitrary: es' i)
  case (Cons e es)
  then obtain e' es1 where "es' = e' # es1" "offer now e = offer now' e'"
    "map (offer now) es = map (offer now') es1" by (cases es') auto
  moreover from this have "slots_from now (Suc i) es = slots_from now' (Suc i) es1" by (intro Cons.IH)
  ultimately show ?case by (simp add: offer_def)
qed simp

lemma ringLoop_cong:
  assumes "\<And>i. i \<in> set slots \<Longrightarrow>
    be_address (es ! i) = be_address (es' ! i) \<and> be_weight (es ! i) = be_weight (es' ! i)"
  shows "ringLoop es slots [] [] = ringLoop es' slots [] []"
proof -
  have "map (ringPointsOf es) (uniq_from [] slots) = map (ringPointsOf es') (uniq_from [] slots)"
    using assms by (intro map_cong) (auto simp: set_uniq_from ringPointsOf_def Let_def)
  then show ?thesis by (simp only: ringLoop_uniq)
qed

lemma keyOwner_cong:
  "(\<And>i. i \<in> set slots \<Longrightarrow>
      be_address (es ! i) = be_address (es' ! i) \<and> be_weight (es ! i) = be_weight (es' ! i)) \<Longrightarrow>
   keyOwner es slots key = keyOwner es' slots key"
  unfolding keyOwner_def using ringLoop_cong by metis

lemma slots_from_drop:
  assumes "i < length es" "\<not> selectable now e"
  shows "slots_from now k (es[i := e]) = filter (\<lambda>j. j \<noteq> k + i) (slots_from now k es)"
  using assms(1)
proof (induction es arbitrary: i k)
  case (Cons d es)
  show ?case
  proof (cases i)
    case 0
    have "\<forall>j \<in> set (slots_from now (Suc k) es). j \<noteq> k" by (auto simp: slots_from_member)
    then show ?thesis using assms(2) 0 by (simp add: filter_True)
  next
    case (Suc m)
    have "filter (\<lambda>j. j \<noteq> k + i) (replicate n k) = replicate n k" for n using Suc by (simp add: filter_True)
    then show ?thesis using Cons Suc by simp
  qed
qed simp

text \<open>The result of a selection by consistent hash, as the owner of the key.\<close>

lemma NextForKey_owner:
  assumes "bl_inv t b" "t \<le> now" "bl_algorithm b = AlgorithmConsistentHash" "key \<noteq> []"
  shows "fst (bl_NextForKey now key b) =
    map_option (\<lambda>i. be_address (bl_entries b ! i))
      (keyOwner (bl_entries b) (slots_from now 0 (bl_entries b)) key)"
proof -
  let ?b = "bl_refresh now b"
  have slots: "bl_slots ?b = slots_from now 0 (bl_entries b)" using assms(1,2) by (rule refresh_slots)
  show ?thesis
  proof (cases "bl_slots ?b = []")
    case True
    then show ?thesis using slots by (simp add: NextForKey_empty keyOwner_def ringOwner_None)
  next
    case False
    then have n: "bl_NextForKey now key b = nextConsistentHash key ?b"
      using assms(3,4) by (simp add: bl_NextForKey_def Let_def)
    obtain i where "takes ?b (nextConsistentHash key ?b) i"
      and "keyOwner (bl_entries b) (slots_from now 0 (bl_entries b)) key = Some i"
      using nextConsistentHash_takes [OF False, of key] slots by (metis refresh_frame(1))
    then show ?thesis using takes_result(1) by (fastforce simp: n)
  qed
qed


section \<open>Releasing a selected backend\<close>

lemma NextForKey_release:
  assumes "bl_inv t b" "t \<le> now" "distinct (bl_Addresses b)" "fst (bl_NextForKey now key b) = Some a"
  shows "bl_entries (bl_Release a (snd (bl_NextForKey now key b))) = bl_entries b"
proof -
  let ?es = "bl_entries b" and ?r = "bl_NextForKey now key b"
  have "bl_slots (bl_refresh now b) \<noteq> []" using assms(4) by (auto simp: NextForKey_empty)
  then obtain i where t: "takes (bl_refresh now b) ?r i" by (rule NextForKey_takes)
  then have i: "i < length ?es"
    by (simp add: takes_def refresh_slots [OF assms(1,2)] slots_from_member)
  have a: "a = be_address (?es ! i)" and es: "bl_entries (snd ?r) = ?es[i := bump (?es ! i)]"
    using takes_result [OF t] assms(4) by simp_all
  have c: "0 \<le> be_activeConns (?es ! i)"
    using assms(1) nth_mem [OF i] by (auto simp: bl_inv_def entries_ok_def)
  have first: "be_address (?es[i := bump (?es ! i)] ! k) \<noteq> a" if "k < i" for k
    using that i a assms(3) by (auto simp: bl_Addresses_def distinct_conv_nth)
  have "bl_entries (bl_Release a (snd ?r)) = ?es[i := ?es ! i]"
    unfolding bl_Release_def upd_entry_def es
    using i a c first by (simp add: es update_first_nth [of i] bump_def)
  then show ?thesis by simp
qed

lemma NextForKey_member:
  assumes "bl_inv t b" "t \<le> now" "fst (bl_NextForKey now key b) = Some a"
  shows "\<exists>e \<in> set (bl_entries b). be_address e = a \<and> selectable now e"
proof -
  have "bl_slots (bl_refresh now b) \<noteq> []" using assms(3) by (auto simp: NextForKey_empty)
  then obtain i where t: "takes (bl_refresh now b) (bl_NextForKey now key b) i" by (rule NextForKey_takes)
  then have i: "i < length (bl_entries b)" "selectable now (bl_entries b ! i)"
    by (simp_all add: takes_def refresh_slots [OF assms(1,2)] slots_from_member)
  then show ?thesis using takes_result(1) [OF t] assms(3) by (intro bexI [of _ "bl_entries b ! i"]) auto
qed

lemma NextForKey_addresses: "bl_Addresses (snd (bl_NextForKey now key b)) = bl_Addresses b"
proof (cases "bl_slots (bl_refresh now b) = []")
  case True
  then show ?thesis by (simp add: NextForKey_empty bl_Addresses_def)
next
  case False
  then obtain i where "takes (bl_refresh now b) (bl_NextForKey now key b) i" by (rule NextForKey_takes)
  from takes_result(2) [OF this] show ?thesis by (simp add: bl_Addresses_def map_bump)
qed

lemma NextForKey_none: "fst (bl_NextForKey now key b) = None \<Longrightarrow> bl_entries (snd (bl_NextForKey now key b)) = bl_entries b"
  by (cases "bl_slots (bl_refresh now b) = []")
     (auto simp: NextForKey_empty takes_result(1) elim: NextForKey_takes [where key = key])

lemma PinTo_release:
  assumes "entries_ok b" "fst (bl_PinTo now a b)"
  shows "bl_entries (bl_Release a (snd (bl_PinTo now a b))) = bl_entries b"
proof -
  obtain e where e: "find_entry a b = Some e" "selectable now e"
    using assms(2) by (auto simp: bl_PinTo_def split: option.splits if_splits)
  let ?g = "\<lambda>e. if be_activeConns e \<le> 0 then e else e\<lparr>be_activeConns := be_activeConns e - 1\<rparr>"
  let ?f = "\<lambda>e. e\<lparr>be_activeConns := be_activeConns e + 1\<rparr>"
  have "bl_Release a (snd (bl_PinTo now a b)) = upd_entry a (?g \<circ> ?f) b"
    using e by (simp add: bl_PinTo_def bl_Release_def upd_entry_twice)
  moreover have "(?g \<circ> ?f) x = x" if "x \<in> set (bl_entries b)" for x
    using assms(1) that by (auto simp: entries_ok_def)
  ultimately show ?thesis by (simp add: upd_entry_def update_first_ident)
qed

lemma PinTo_member: "fst (bl_PinTo now a b) \<Longrightarrow> \<exists>e \<in> set (bl_entries b). be_address e = a \<and> selectable now e"
  by (auto simp: bl_PinTo_def split: option.splits if_splits dest: find_entry_SomeD)

lemma upd_entry_addresses: "(\<And>e. be_address (f e) = be_address e) \<Longrightarrow> bl_Addresses (upd_entry a f b) = bl_Addresses b"
  by (simp add: bl_Addresses_def upd_entry_map)

lemma PinTo_addresses: "bl_Addresses (snd (bl_PinTo now a b)) = bl_Addresses b"
  by (simp add: bl_PinTo_def upd_entry_addresses split: option.splits)

lemma Release_addresses: "bl_Addresses (bl_Release a b) = bl_Addresses b"
  by (simp add: bl_Release_def upd_entry_addresses)

end
