(* ===== verification/BackendProps.thy ===== *)
theory BackendProps
  imports Selection
begin

text \<open>
  The properties of the data plane's backend list and of its rate limiter. The states of the
  witnesses are built with the operations themselves, from an empty list.
\<close>

section \<open>Concrete lists for the witnesses\<close>

definition demo_outlier :: OutlierConfig where
  "demo_outlier = \<lparr>oc_Enabled = True, oc_ConsecutiveErrors = 2, oc_BaseEjectDuration = 10,
     oc_MaxEjectDuration = 15, oc_MaxEjectPercent = 50\<rparr>"

definition demo_set :: "string \<Rightarrow> BackendSet" where
  "demo_set algorithm =
     \<lparr>BS_Group = ''g'', BS_Backends = [\<lparr>Backend_Address = ''a'', Backend_Weight = 2\<rparr>, \<lparr>Backend_Address = ''b'', Backend_Weight = 1\<rparr>],
      BS_Version = 1, BS_Algorithm = algorithm, BS_Sticky = False, BS_StickyCookieName = [],
      BS_StickyTtlSeconds = 0, BS_RateLimitRps = 0, BS_RateLimitBurst = 0\<rparr>"

definition demo_list :: "string \<Rightarrow> nat stream \<Rightarrow> unit BackendList" where
  "demo_list algorithm rng =
     bl_Update 1 (demo_set algorithm) (bl_SetOutlierConfig demo_outlier (NewBackendList rng 1))"

lemma demo_inv: "bl_inv 1 (demo_list algorithm rng)"
  unfolding demo_list_def by (rule bl_inv_Update [OF bl_inv_init]) simp

lemmas demo_simps = demo_list_def demo_set_def demo_outlier_def bl_Update_def bl_SetOutlierConfig_def
  NewBackendList_def newEntry_def prevHealth_def prevEntries_def outlier_withDefaults_def Let_def

lemma demo_entries:
  "bl_entries (demo_list algorithm rng) =
     [\<lparr>be_address = ''a'', be_weight = 2, be_healthy = True, be_activeConns = 0, be_consecErrors = 0,
       be_ejectedUntil = 0, be_ejectCount = 0\<rparr>,
      \<lparr>be_address = ''b'', be_weight = 1, be_healthy = True, be_activeConns = 0, be_consecErrors = 0,
       be_ejectedUntil = 0, be_ejectCount = 0\<rparr>]"
  by (simp add: demo_simps)

lemma demo_slots: "bl_slots (demo_list algorithm rng) = [0, 0, 1]"
  by (simp add: demo_simps selectable_def ejected_def numeral_2_eq_2)

lemma demo_fields:
  "bl_algorithm (demo_list algorithm rng) = normalizeAlgorithm algorithm"
  "bl_next (demo_list algorithm rng) = 0" "bl_rng (demo_list algorithm rng) = rng"
  "bl_nextEjectExpiry (demo_list algorithm rng) = 0"
  "bl_outlier (demo_list algorithm rng) = demo_outlier" "\<not> sc_Enabled (bl_sticky (demo_list algorithm rng))"
  by (simp_all add: demo_simps earliest_expiry_def ejected_def)

section \<open>Selection\<close>

text \<open>
  C2. A selection returns the address of an entry that is healthy and not ejected at that moment and
  counts one more open connection on that entry alone; it reports "no backend" exactly when no
  entry is selectable. This holds for all five algorithms.
\<close>

theorem NextForKey_sound:
  assumes "bl_inv t b" "t \<le> now"
  shows "(fst (bl_NextForKey now key b) = None \<longleftrightarrow> (\<forall>e \<in> set (bl_entries b). \<not> selectable now e)) \<and>
    (\<forall>a. fst (bl_NextForKey now key b) = Some a \<longrightarrow>
      (\<exists>i < length (bl_entries b). be_address (bl_entries b ! i) = a \<and> selectable now (bl_entries b ! i) \<and>
         bl_entries (snd (bl_NextForKey now key b)) =
           (bl_entries b)[i := (bl_entries b ! i)\<lparr>be_activeConns := be_activeConns (bl_entries b ! i) + 1\<rparr>]))"
proof -
  have slots: "bl_slots (bl_refresh now b) = slots_from now 0 (bl_entries b)"
    using assms by (rule refresh_slots)
  have empty: "slots_from now 0 (bl_entries b) = [] \<longleftrightarrow> (\<forall>e \<in> set (bl_entries b). \<not> selectable now e)"
    using assms(1) by (intro slots_empty_iff) (auto simp: bl_inv_def entries_ok_def)
  show ?thesis
  proof (cases "slots_from now 0 (bl_entries b) = []")
    case True
    with empty slots show ?thesis by (simp add: NextForKey_empty)
  next
    case False
    then obtain i where t: "takes (bl_refresh now b) (bl_NextForKey now key b) i"
      using slots NextForKey_takes by metis
    then have "i \<in> set (slots_from now 0 (bl_entries b))" by (simp add: takes_def slots)
    then have "i < length (bl_entries b)" "selectable now (bl_entries b ! i)"
      by (simp_all add: slots_from_member)
    with False empty takes_result [OF t] show ?thesis by (auto simp: bump_def)
  qed
qed

theorem NextForKey_sound_witness:
  "\<forall>rng. bl_inv 1 (demo_list ''p2c'' rng) \<and>
     (\<forall>a. fst (bl_NextForKey 2 [] (demo_list ''p2c'' rng)) = Some a \<longrightarrow> a = ''a'' \<or> a = ''b'')"
proof (intro allI conjI)
  fix rng
  show "bl_inv 1 (demo_list ''p2c'' rng)" by (rule demo_inv)
  show "fst (bl_NextForKey 2 [] (demo_list ''p2c'' rng)) = Some a \<longrightarrow> a = ''a'' \<or> a = ''b''" for a
    using NextForKey_sound [OF demo_inv, of 2 "[]" "''p2c''" rng]
    by (auto simp: demo_entries less_Suc_eq nth_Cons')
qed

text \<open>
  C24. The lazy rebuild loses nothing: checking only the earliest ejection end before a selection
  gives the list that rebuilding the slots on every request would give, so an ejected backend is
  back in rotation at the first request after its window.
\<close>

theorem refresh_is_rebuild:
  assumes "bl_inv t b" "t \<le> now"
  shows "bl_refresh now b = rebuildSlotsLocked now b"
proof (cases "bl_nextEjectExpiry b \<noteq> 0 \<and> \<not> now < bl_nextEjectExpiry b")
  case False
  obtain t0 where t0: "t0 \<le> t" "synced t0 b" using assms(1) by (auto simp: bl_inv_def)
  have le: "t0 \<le> now" using t0(1) assms(2) by simp
  have ex: "earliest_expiry t0 (bl_entries b) = 0 \<or> now < earliest_expiry t0 (bl_entries b)"
    using False t0(2) by (auto simp: synced_def)
  have "filter (ejected now) (bl_entries b) = filter (ejected t0) (bl_entries b)"
    using ejected_between [OF le ex] by (rule filter_cong [OF refl])
  then have e: "earliest_expiry now (bl_entries b) = bl_nextEjectExpiry b"
    using t0(2) by (simp add: earliest_expiry_def synced_def)
  have s: "slots_from now 0 (bl_entries b) = bl_slots b"
    using slots_from_lazy [OF le ex] t0(2) by (simp add: synced_def)
  have "rebuildSlotsLocked now b = b"
    by (rule BackendList.equality) (simp_all add: e s)
  with False show ?thesis by (auto simp: bl_refresh_def)
qed (simp add: bl_refresh_def)

theorem refresh_is_rebuild_witness:
  "\<forall>rng. bl_refresh 11 (bl_RecordResult 2 ''b'' False (bl_RecordResult 2 ''b'' False (demo_list ''random'' rng)))
     = rebuildSlotsLocked 11
         (bl_RecordResult 2 ''b'' False (bl_RecordResult 2 ''b'' False (demo_list ''random'' rng)))"
  by (intro allI refresh_is_rebuild [where t = 2] bl_inv_RecordResult [where t = 2]
      bl_inv_RecordResult [OF demo_inv]) simp_all

text \<open>
  C18. Weighted round robin is exactly fair: over any whole number \<open>m\<close> of passes over the slot list,
  with no ejection ending in between and the 64-bit cursor not wrapping, every selectable backend is
  chosen \<open>m\<close> times its weight and no other backend is chosen.
\<close>

theorem round_robin_fair:
  assumes "bl_inv t b" "bl_algorithm b = AlgorithmRoundRobin"
    and "\<forall>now \<in> set nows. t \<le> now \<and> (bl_nextEjectExpiry b = 0 \<or> now < bl_nextEjectExpiry b)"
    and "length nows = m * length (bl_slots b)" "nows \<noteq> []"
    and "unat (bl_next b) + length nows \<le> 2 ^ 64"
    and "distinct (bl_Addresses b)" "e \<in> set (bl_entries b)"
  shows "count_list (fst (Next_run nows b)) (Some (be_address e)) =
    (if selectable t e then m * nat (be_weight e) else 0)"
proof -
  obtain t0 where t0: "t0 \<le> t" "synced t0 b" using assms(1) by (auto simp: bl_inv_def)
  have "t \<le> hd nows \<and> (bl_nextEjectExpiry b = 0 \<or> hd nows < bl_nextEjectExpiry b)"
    using assms(3,5) by simp
  then have ex: "earliest_expiry t0 (bl_entries b) = 0 \<or> t < earliest_expiry t0 (bl_entries b)"
    using t0(2) by (auto simp: synced_def)
  have slots: "bl_slots b = slots_from t 0 (bl_entries b)"
    using slots_from_lazy [OF t0(1) ex] t0(2) by (simp add: synced_def)
  have ne: "bl_slots b \<noteq> []" using assms(4,5) by auto
  have bound: "\<forall>i \<in> set (bl_slots b). i < length (bl_entries b)"
    unfolding slots by (auto dest: slots_from_bound)
  obtain j where j: "j < length (bl_entries b)" "e = bl_entries b ! j"
    using assms(8) by (metis in_set_conv_nth)
  let ?idx = "map (\<lambda>k. bl_slots b ! ((unat (bl_next b) + k) mod length (bl_slots b))) [0..<m * length (bl_slots b)]"
  let ?f = "\<lambda>i. Some (map be_address (bl_entries b) ! i)"
  have "fst (Next_run nows b) = map ?f ?idx"
    using Next_run_round_robin [OF assms(2) ne _ bound assms(6)] assms(3,4) by simp
  then have "count_list (fst (Next_run nows b)) (Some (be_address e)) = count_list (map ?f ?idx) (?f j)"
    using j by simp
  also have "\<dots> = count_list ?idx j"
  proof (rule count_map_inj)
    fix i assume "i \<in> set ?idx" and eq: "?f i = ?f j"
    then have "i \<in> set (bl_slots b)" using ne by auto
    then show "i = j"
      using eq bound j(1) assms(7) by (simp add: bl_Addresses_def nth_eq_iff_index_eq del: nth_map)
  qed
  also have "\<dots> = m * count_list (bl_slots b) j" using ne by (rule count_cycle)
  also have "count_list (bl_slots b) j = (if selectable t e then nat (be_weight e) else 0)"
    unfolding slots count_slots_from using j by simp
  finally show ?thesis by simp
qed

theorem round_robin_fair_witness:
  "\<forall>rng. count_list (fst (Next_run [1, 2, 3, 4, 5, 6] (demo_list [] rng))) (Some ''a'') = 4"
proof
  fix rng
  let ?e = "hd (bl_entries (demo_list [] rng))"
  have "count_list (fst (Next_run [1, 2, 3, 4, 5, 6] (demo_list [] rng))) (Some (be_address ?e)) =
      (if selectable 1 ?e then 2 * nat (be_weight ?e) else 0)"
    by (rule round_robin_fair [OF demo_inv])
       (simp_all add: demo_fields demo_slots demo_entries normalizeAlgorithm_def bl_Addresses_def)
  then show "count_list (fst (Next_run [1, 2, 3, 4, 5, 6] (demo_list [] rng))) (Some ''a'') = 4"
    by (simp add: demo_entries selectable_def ejected_def)
qed


text \<open>
  Least connections chooses a selectable backend whose open connections per unit of weight are
  minimal among all selectable ones. The comparison is in \<open>float64\<close>; it is exact while connection
  counts and weights are at most \<open>2^26\<close>.
\<close>

theorem least_connections_minimal:
  assumes "bl_inv t b" "t \<le> now" "bl_algorithm b = AlgorithmLeastConnections"
    and "\<forall>e \<in> set (bl_entries b). be_activeConns e \<le> 2 ^ 26 \<and> be_weight e \<le> 2 ^ 26"
    and "fst (bl_NextForKey now key b) = Some a"
  shows "\<exists>e \<in> set (bl_entries b). be_address e = a \<and> selectable now e \<and>
    (\<forall>d \<in> set (bl_entries b). selectable now d \<longrightarrow>
       be_activeConns e * be_weight d \<le> be_activeConns d * be_weight e)"
proof -
  let ?es = "bl_entries b" and ?b = "bl_refresh now b"
  have slots: "bl_slots ?b = slots_from now 0 ?es" using assms(1,2) by (rule refresh_slots)
  have ne: "bl_slots ?b \<noteq> []" using assms(5) by (auto simp: NextForKey_empty)
  have ok: "0 < be_weight e \<and> be_weight e \<le> 2 ^ 26 \<and> 0 \<le> be_activeConns e \<and> be_activeConns e \<le> 2 ^ 26"
    if "e \<in> set ?es" for e
    using that assms(1,4) by (auto simp: bl_inv_def entries_ok_def)
  have n: "bl_NextForKey now key b = nextLeastConnections ?b"
    using assms(3) ne by (simp add: bl_NextForKey_def Let_def)
  obtain i where t: "takes ?b (nextLeastConnections ?b) i"
    and least: "\<And>j. j \<in> set (bl_slots ?b) \<Longrightarrow> load (?es ! i) \<le> load (?es ! j)"
    using nextLeastConnections_takes [OF ne] by auto
  have i: "i < length ?es" "selectable now (?es ! i)"
    using t by (simp_all add: takes_def slots slots_from_member)
  have "be_activeConns (?es ! i) * be_weight d \<le> be_activeConns d * be_weight (?es ! i)"
    if d: "d \<in> set ?es" "selectable now d" for d
  proof -
    obtain j where j: "j < length ?es" "d = ?es ! j" using d(1) by (metis in_set_conv_nth)
    then have "load (?es ! i) \<le> load d"
      using d(2) ok [OF d(1)] least [of j] by (simp add: slots slots_from_member)
    then show ?thesis using ok [OF d(1)] ok [OF nth_mem [OF i(1)]] by (intro load_exact) auto
  qed
  moreover have "be_address (?es ! i) = a" using assms(5) takes_result(1) [OF t] n by simp
  ultimately show ?thesis using i by (intro bexI [of _ "?es ! i"]) auto
qed

theorem least_connections_minimal_witness:
  "\<forall>rng. \<exists>e \<in> set (bl_entries (demo_list ''least_connections'' rng)). be_address e = ''a'' \<and> selectable 2 e"
proof
  fix rng
  have "fst (bl_NextForKey 2 [] (demo_list ''least_connections'' rng)) = Some ''a''"
    by (simp add: bl_NextForKey_def bl_refresh_def demo_fields normalizeAlgorithm_def demo_slots
        nextLeastConnections_def demo_entries load_def take_entry_def Let_def)
  then show "\<exists>e \<in> set (bl_entries (demo_list ''least_connections'' rng)). be_address e = ''a'' \<and> selectable 2 e"
    using least_connections_minimal [OF demo_inv, of 2 "''least_connections''" rng "[]" "''a''"]
    by (auto simp: demo_fields normalizeAlgorithm_def demo_entries)
qed

text \<open>
  Power of two choices draws two slots, distinct whenever there are two, and takes the backend
  of the one with the lower load.
\<close>

theorem p2c_better_of_two:
  assumes "bl_inv t b" "t \<le> now" "bl_algorithm b = AlgorithmP2C" "fst (bl_NextForKey now key b) = Some a"
  shows "\<exists>x y i j. x < length (bl_slots (bl_refresh now b)) \<and> y < length (bl_slots (bl_refresh now b)) \<and>
    (x \<noteq> y \<or> length (bl_slots (bl_refresh now b)) = 1) \<and>
    {i, j} = {bl_slots (bl_refresh now b) ! x, bl_slots (bl_refresh now b) ! y} \<and>
    selectable now (bl_entries b ! i) \<and> selectable now (bl_entries b ! j) \<and>
    be_address (bl_entries b ! i) = a \<and> load (bl_entries b ! i) \<le> load (bl_entries b ! j)"
proof -
  let ?b = "bl_refresh now b"
  have slots: "bl_slots ?b = slots_from now 0 (bl_entries b)" using assms(1,2) by (rule refresh_slots)
  have ne: "bl_slots ?b \<noteq> []" using assms(4) by (auto simp: NextForKey_empty)
  obtain x y rng where d: "p2cDraw (length (bl_slots ?b)) (bl_rng ?b) = ((x, y), rng)"
    by (metis prod.collapse)
  have xy: "x < length (bl_slots ?b)" "y < length (bl_slots ?b)" "1 < length (bl_slots ?b) \<Longrightarrow> x \<noteq> y"
    using p2cDraw_less [OF d] ne by auto
  let ?i = "bl_slots ?b ! x" and ?j = "bl_slots ?b ! y"
  have sel: "selectable now (bl_entries b ! ?i)" "selectable now (bl_entries b ! ?j)"
    using nth_mem [OF xy(1)] nth_mem [OF xy(2)] unfolding slots by (auto dest: slots_from_selectable)
  have "bl_NextForKey now key b = nextP2C ?b"
    using assms(3) ne by (simp add: bl_NextForKey_def Let_def)
  then have a: "a = be_address (bl_entries b !
      (if load (bl_entries b ! ?j) < load (bl_entries b ! ?i) then ?j else ?i))"
    using takes_result(1) [OF nextP2C_takes [OF ne d]] assms(4) by simp
  have one: "x \<noteq> y \<or> length (bl_slots ?b) = 1" 
    using xy(1,3) by linarith
  show ?thesis
  proof (cases "load (bl_entries b ! ?j) < load (bl_entries b ! ?i)")
    case True
    with a sel xy one show ?thesis
      by (intro exI [of _ x] exI [of _ y] exI [of _ ?j] exI [of _ ?i] conjI)
         (simp_all add: insert_commute)
  next
    case False
    with a sel xy one show ?thesis
      by (intro exI [of _ x] exI [of _ y] exI [of _ ?i] exI [of _ ?j] conjI) simp_all
  qed
qed

theorem p2c_better_of_two_witness:
  "\<forall>rng. \<exists>i. be_address (bl_entries (demo_list ''p2c'' (3 ## 1 ## rng)) ! i) = ''a''"
proof
  fix rng
  have "fst (bl_NextForKey 2 [] (demo_list ''p2c'' (3 ## 1 ## rng))) = Some ''a''"
    by (simp add: bl_NextForKey_def bl_refresh_def demo_fields normalizeAlgorithm_def demo_slots
        nextP2C_def p2cDraw_def Intn_def demo_entries load_def take_entry_def Let_def)
  then show "\<exists>i. be_address (bl_entries (demo_list ''p2c'' (3 ## 1 ## rng)) ! i) = ''a''"
    using p2c_better_of_two [OF demo_inv, of 2 "''p2c''" "3 ## 1 ## rng" "[]" "''a''"]
    by (auto simp: demo_fields normalizeAlgorithm_def)
qed

text \<open>
  The random algorithm is weighted: of the equally likely draws, one per slot, exactly as many
  choose a selectable backend as its weight says, and none chooses another backend.
\<close>

theorem random_weighted:
  assumes "bl_inv t b" "t \<le> now" "bl_algorithm b = AlgorithmRandom" "distinct (bl_Addresses b)"
    and "e \<in> set (bl_entries b)" "\<exists>d \<in> set (bl_entries b). selectable now d"
  shows "card {r. r < length (bl_slots (bl_refresh now b)) \<and>
      fst (bl_NextForKey now key (b\<lparr>bl_rng := r ## rest\<rparr>)) = Some (be_address e)} =
    (if selectable now e then nat (be_weight e) else 0)"
proof -
  let ?es = "bl_entries b" and ?sl = "slots_from now 0 (bl_entries b)"
  have slots: "bl_slots (bl_refresh now b) = ?sl" using assms(1,2) by (rule refresh_slots)
  have ne: "?sl \<noteq> []"
    using slots_empty_iff [of ?es now 0] assms(1,6) by (auto simp: bl_inv_def entries_ok_def)
  obtain j where j: "j < length ?es" "e = ?es ! j" using assms(5) by (metis in_set_conv_nth)
  have rf: "bl_refresh now (b\<lparr>bl_rng := g\<rparr>) = (bl_refresh now b)\<lparr>bl_rng := g\<rparr>" for g
    by (simp add: bl_refresh_def rebuildSlotsLocked_def split: prod.splits)
  have hit: "fst (bl_NextForKey now key (b\<lparr>bl_rng := r ## rest\<rparr>)) = Some (be_address e) \<longleftrightarrow> ?sl ! r = j"
    if r: "r < length ?sl" for r
  proof -
    have "fst (bl_NextForKey now key (b\<lparr>bl_rng := r ## rest\<rparr>)) = Some (be_address (?es ! (?sl ! r)))"
      using r ne assms(3) by (simp add: bl_NextForKey_def rf slots Let_def nextRandom_def Intn_def take_entry_def)
    moreover have "?sl ! r < length ?es" using nth_mem [OF r] by (rule slots_from_bound)
    ultimately show ?thesis using j assms(4)
      by (auto simp: bl_Addresses_def distinct_conv_nth)
  qed
  have "{r. r < length ?sl \<and> fst (bl_NextForKey now key (b\<lparr>bl_rng := r ## rest\<rparr>)) = Some (be_address e)}
      = {r. r < length ?sl \<and> ?sl ! r = j}"
    using hit by blast
  moreover have "card {r. r < length ?sl \<and> ?sl ! r = j} = count_list ?sl j"
    by (simp add: count_list_eq_length_filter length_filter_conv_card eq_commute [of j])
  ultimately show ?thesis unfolding slots using j by (simp add: count_slots_from)
qed

theorem random_weighted_witness:
  "\<forall>rng. card {r. r < length (bl_slots (bl_refresh 2 (demo_list ''random'' rng))) \<and>
      fst (bl_NextForKey 2 [] ((demo_list ''random'' rng)\<lparr>bl_rng := r ## rng\<rparr>)) = Some ''a''} = 2"
proof
  fix rng
  show "card {r. r < length (bl_slots (bl_refresh 2 (demo_list ''random'' rng))) \<and>
      fst (bl_NextForKey 2 [] ((demo_list ''random'' rng)\<lparr>bl_rng := r ## rng\<rparr>)) = Some ''a''} = 2"
    using random_weighted [OF demo_inv, of 2 "''random''" rng "hd (bl_entries (demo_list ''random'' rng))" "[]" rng]
    by (simp add: demo_fields normalizeAlgorithm_def demo_entries bl_Addresses_def selectable_def ejected_def)
qed


text \<open>The points of the ring at a moment, and the backend that a sorted ring gives for a key.\<close>

definition ringOf :: "gotime \<Rightarrow> 'l BackendList \<Rightarrow> ringPoint list" where
  "ringOf now b = ringLoop (bl_entries b) (slots_from now 0 (bl_entries b)) [] []"

definition collision_free :: "ringPoint list \<Rightarrow> bool" where
  "collision_free points \<longleftrightarrow> (\<forall>p \<in> set points. \<forall>q \<in> set points. rp_hash p = rp_hash q \<longrightarrow> rp_slot p = rp_slot q)"

lemma ring_moves_little:
  assumes "bl_inv t b" "t \<le> now" "bl_algorithm b = AlgorithmConsistentHash" "key \<noteq> []"
    and "distinct (bl_Addresses b)" "fst (bl_NextForKey now key b) = Some x" "x \<noteq> a"
  shows "fst (bl_NextForKey now key (bl_SetHealth now a False b)) = Some x \<and>
    set (ringOf now (bl_SetHealth now a False b)) \<subseteq> set (ringOf now b)"
proof (cases "find (\<lambda>e. be_address e = a \<and> be_healthy e \<noteq> False) (bl_entries b)")
  case None
  then show ?thesis using assms(6) by (simp add: bl_SetHealth_def ringOf_def)
next
  case (Some d)
  let ?es = "bl_entries b" and ?b' = "bl_SetHealth now a False b"
  from find_SomeD [OF Some] obtain i where i: "i < length ?es" "be_address (?es ! i) = a" "be_healthy (?es ! i)"
    by (auto simp: in_set_conv_nth)
  have first: "be_address (?es ! k) \<noteq> a" if "k < i" for k
    using that i(1,2) assms(5) by (auto simp: bl_Addresses_def distinct_conv_nth)
  have es': "bl_entries ?b' = ?es[i := (?es ! i)\<lparr>be_healthy := False\<rparr>]"
    using Some i first by (simp add: bl_SetHealth_def update_first_nth [of i])
  have alg: "bl_algorithm ?b' = AlgorithmConsistentHash" using assms(3) Some by (simp add: bl_SetHealth_def)
  have slots': "slots_from now 0 (bl_entries ?b') = filter (\<lambda>k. k \<noteq> i) (slots_from now 0 ?es)"
    unfolding es' by (subst slots_from_drop) (use i in \<open>simp_all add: selectable_def\<close>)
  obtain j where j: "keyOwner ?es (slots_from now 0 ?es) key = Some j" "be_address (?es ! j) = x"
    using assms(6) NextForKey_owner [OF assms(1-4)] by auto
  then have "j \<noteq> i" using i(2) assms(7) by auto
  then have "keyOwner ?es (filter (\<lambda>k. k \<noteq> i) (slots_from now 0 ?es)) key = Some j"
    by (rule keyOwner_remove [OF j(1)])
  moreover have "keyOwner (bl_entries ?b') (filter (\<lambda>k. k \<noteq> i) (slots_from now 0 ?es)) key =
      keyOwner ?es (filter (\<lambda>k. k \<noteq> i) (slots_from now 0 ?es)) key"
    by (rule keyOwner_cong) (auto simp: es')
  moreover have "be_address (bl_entries ?b' ! j) = x" using j(2) \<open>j \<noteq> i\<close> by (simp add: es')
  moreover have "ringOf now ?b' = ringLoop ?es (filter (\<lambda>k. k \<noteq> i) (slots_from now 0 ?es)) [] []"
    unfolding ringOf_def slots' by (rule ringLoop_cong) (auto simp: es')
  then have "set (ringOf now ?b') \<subseteq> set (ringOf now b)" by (auto simp: ringLoop_filter ringOf_def)
  ultimately show ?thesis
    using NextForKey_owner [OF bl_inv_SetHealth [OF assms(1,2)] order_refl alg assms(4)]
    by (simp add: slots')
qed

lemma ring_choice:
  assumes "bl_inv t b" "t \<le> now" "bl_algorithm b = AlgorithmConsistentHash" "key \<noteq> []"
    and "fst (bl_NextForKey now key b) = Some x" "collision_free (ringOf now b)" "sorts_to (ringOf now b) ring"
  shows "be_address (bl_entries b ! ringSearch ring (hashKey key)) = x"
proof -
  obtain i where i: "ringOwner (ringOf now b) (hashKey key) = Some i" "be_address (bl_entries b ! i) = x"
    using NextForKey_owner [OF assms(1-4)] assms(5) by (cases "ringOwner (ringOf now b) (hashKey key)") (auto simp: keyOwner_def ringOf_def)
  then have "ringOf now b \<noteq> []" by auto
  from ringSearch_unique [OF assms(7) this] assms(6) have "ringOwner (ringOf now b) (hashKey key) = Some (ringSearch ring (hashKey key))"
    unfolding collision_free_def by blast
  then show ?thesis using i by simp
qed

text \<open>
  C17. Consistent hashing moves only the keys of the backend that leaves: marking backend \<open>a\<close> unhealthy leaves every
  key that was not on \<open>a\<close> where it was. This holds for whatever order \<open>sort.Slice\<close>, which is not stable, leaves
  points with equal hashes in, before and after, provided that no two backends have points with the same hash.
\<close>

theorem consistent_hash_minimal:
  assumes "bl_inv t b" "t \<le> now" "bl_algorithm b = AlgorithmConsistentHash" "key \<noteq> []"
    and "distinct (bl_Addresses b)" "fst (bl_NextForKey now key b) = Some x" "x \<noteq> a"
    and "collision_free (ringOf now b)" "b' = bl_SetHealth now a False b"
  shows "fst (bl_NextForKey now key b') = Some x \<and>
    (\<forall>ring. sorts_to (ringOf now b) ring \<longrightarrow> be_address (bl_entries b ! ringSearch ring (hashKey key)) = x) \<and>
    (\<forall>ring. sorts_to (ringOf now b') ring \<longrightarrow> be_address (bl_entries b' ! ringSearch ring (hashKey key)) = x)"
proof -
  note m = ring_moves_little [OF assms(1-7), folded assms(9)]
  have "collision_free (ringOf now b')" using m assms(8) by (auto simp: collision_free_def)
  moreover have "bl_algorithm b' = AlgorithmConsistentHash" using assms(3) by (simp add: assms(9) bl_SetHealth_def Let_def split: option.split)
  moreover have "bl_inv now b'" using bl_inv_SetHealth [OF assms(1,2)] by (simp add: assms(9))
  ultimately show ?thesis using m ring_choice [OF assms(1-4,6,8)] ring_choice [OF _ order_refl _ assms(4)] by blast
qed

text \<open>Two backends of weight 1, whose 80 points have different hashes.\<close>

definition demo_pair :: "nat stream \<Rightarrow> unit BackendList" where
  "demo_pair rng = bl_Update 1 ((demo_set ''consistent_hash'')\<lparr>BS_Backends := map (\<lambda>x. x\<lparr>Backend_Weight := 1\<rparr>) (BS_Backends (demo_set []))\<rparr>)
     (bl_SetOutlierConfig demo_outlier (NewBackendList rng 1))"

lemma demo_pair_inv: "bl_inv 1 (demo_pair rng)"
  unfolding demo_pair_def by (rule bl_inv_Update [OF bl_inv_init]) simp

lemma demo_pair_entries:
  "map be_address (bl_entries (demo_pair rng)) = [''a'', ''b'']" "map be_weight (bl_entries (demo_pair rng)) = [1, 1]"
  "list_all (selectable 2) (bl_entries (demo_pair rng))" "bl_algorithm (demo_pair rng) = AlgorithmConsistentHash"
  by (simp_all add: demo_pair_def demo_simps selectable_def ejected_def normalizeAlgorithm_def)

lemma pair_hashes_a: "map (\<lambda>v. hashKey (''a'' @ ''#'' @ itoa v)) [0..<40] =
    [4037809751, 4021032132, 4071364989, 4054587370, 3970699275, 3953921656, 4004254513, 3987476894, 3903588799,
     3886811180, 1071971356, 1088748975, 1105526594, 1122304213, 1004860880, 1021638499, 1038416118, 1055193737,
     1206192308, 1222969927, 1374409783, 1357632164, 1407965021, 1391187402, 1307299307, 1290521688, 1340854545,
     1324076926, 1240188831, 1223411212, 1273596974, 1290374593, 1240041736, 1256819355, 1340707450, 1357485069,
     1307152212, 1323929831, 1139376022, 1156153641]"
  by code_simp

lemma pair_hashes_b: "map (\<lambda>v. hashKey (''b'' @ ''#'' @ itoa v)) [0..<40] =
    [559601318, 576378937, 526046080, 542823699, 626711794, 643489413, 593156556, 609934175, 693822270, 710599889,
     503453227, 486675608, 537008465, 520230846, 570563703, 553786084, 604118941, 587341322, 369232275, 352454656,
     201014800, 217792419, 234570038, 251347657, 268125276, 284902895, 301680514, 318458133, 335235752, 352013371,
     301827609, 285049990, 268272371, 251494752, 368938085, 352160466, 335382847, 318605228, 436048561, 419270942]"
  by code_simp

lemma pair_hashes_differ: "list_all (\<lambda>y. \<not> List.member
    [4037809751, 4021032132, 4071364989, 4054587370, 3970699275, 3953921656, 4004254513, 3987476894, 3903588799,
     3886811180, 1071971356, 1088748975, 1105526594, 1122304213, 1004860880, 1021638499, 1038416118, 1055193737,
     1206192308, 1222969927, 1374409783, 1357632164, 1407965021, 1391187402, 1307299307, 1290521688, 1340854545,
     1324076926, 1240188831, 1223411212, 1273596974, 1290374593, 1240041736, 1256819355, 1340707450, 1357485069,
     1307152212, 1323929831, 1139376022, 1156153641] y)
    [559601318, 576378937, 526046080, 542823699, 626711794, 643489413, 593156556, 609934175, 693822270, 710599889,
     503453227, 486675608, 537008465, 520230846, 570563703, 553786084, 604118941, 587341322, 369232275, 352454656,
     201014800, 217792419, 234570038, 251347657, 268125276, 284902895, 301680514, 318458133, 335235752, 352013371,
     301827609, 285049990, 268272371, 251494752, 368938085, 352160466, 335382847, 318605228, 436048561, 419270942 :: 32 word]"
  by code_simp

lemma demo_pair_collision_free: "collision_free (ringOf 2 (demo_pair rng))"
proof -
  let ?es = "bl_entries (demo_pair rng)" and ?h = "\<lambda>a v. hashKey (a @ ''#'' @ itoa v)"
  obtain e f where es: "?es = [e, f]" "be_address e = ''a''" "be_address f = ''b''" "be_weight e = 1" "be_weight f = 1"
    "selectable 2 e" "selectable 2 f"
    using demo_pair_entries(1-3) [of rng] by (cases ?es; cases "tl ?es") auto
  have "ringOf 2 (demo_pair rng) = map (\<lambda>v. \<lparr>rp_hash = ?h ''a'' v, rp_slot = 0\<rparr>) [0..<40] @ map (\<lambda>v. \<lparr>rp_hash = ?h ''b'' v, rp_slot = 1\<rparr>) [0..<40]"
    by (simp add: ringOf_def es ringPointsOf_def vnodesPerUnitWeight_def Let_def)
  moreover have "set (map (?h ''a'') [0..<40]) \<inter> set (map (?h ''b'') [0..<40]) = {}"
    unfolding pair_hashes_a pair_hashes_b using pair_hashes_differ by (simp only: list_all_iff List.member_iff) blast
  then have "?h ''a'' u \<noteq> ?h ''b'' v" if "u \<in> set [0..<40]" "v \<in> set [0..<40]" for u v using that unfolding set_map by blast
  ultimately show ?thesis unfolding collision_free_def by (auto dest: sym)
qed

theorem consistent_hash_minimal_witness:
  "\<forall>rng. \<exists>a x. {a, x} = {''a'', ''b''} \<and> fst (bl_NextForKey 2 ''k'' (demo_pair rng)) = Some x \<and>
     fst (bl_NextForKey 2 ''k'' (bl_SetHealth 2 a False (demo_pair rng))) = Some x"
proof
  fix rng
  let ?b = "demo_pair rng"
  note inv = demo_pair_inv [of rng] and alg = demo_pair_entries(4) [of rng]
  obtain e f where es: "bl_entries ?b = [e, f]" "be_address e = ''a''" "be_address f = ''b''" "be_weight e = 1" "be_weight f = 1"
    "selectable 2 e" "selectable 2 f"
    using demo_pair_entries(1-3) [of rng] by (cases "bl_entries ?b"; cases "tl (bl_entries ?b)") auto
  then have slots: "slots_from 2 0 (bl_entries ?b) = [0, 1]" by simp
  obtain i where i: "i \<in> set [0, 1]" "keyOwner (bl_entries ?b) [0, 1] ''k'' = Some i"
    using keyOwner_total [of "[0, 1]" "bl_entries ?b" "''k''"] by auto
  let ?x = "be_address (bl_entries ?b ! i)" and ?a = "if i = 0 then ''b'' else ''a''"
  have x: "fst (bl_NextForKey 2 ''k'' ?b) = Some ?x"
    using NextForKey_owner [OF inv _ alg, of 2 "''k''"] i slots by simp
  have "distinct (bl_Addresses ?b)" "?x \<noteq> ?a" using i es by (auto simp: bl_Addresses_def)
  from consistent_hash_minimal [OF inv _ alg _ this(1) x this(2) demo_pair_collision_free refl]
  have "fst (bl_NextForKey 2 ''k'' (bl_SetHealth 2 ?a False ?b)) = Some ?x" by simp
  moreover have "{?a, ?x} = {''a'', ''b''}" using i es by auto
  ultimately show "\<exists>a x. {a, x} = {''a'', ''b''} \<and> fst (bl_NextForKey 2 ''k'' ?b) = Some x \<and>
      fst (bl_NextForKey 2 ''k'' (bl_SetHealth 2 a False ?b)) = Some x" using x by blast
qed

text \<open>
  Consistent hashing is sticky: the backend of a key is the same in any two lists, at any two
  moments, that offer the same addresses and weights and agree on which entries are selectable.
  Cursor, random stream, connection counts and error counts do not matter, so two data planes
  agree as well.
\<close>

theorem consistent_hash_stable:
  assumes "bl_inv t b" "t \<le> now" "bl_inv t' b'" "t' \<le> now'" "key \<noteq> []"
    and "bl_algorithm b = AlgorithmConsistentHash" "bl_algorithm b' = AlgorithmConsistentHash"
    and "map (\<lambda>e. (be_address e, be_weight e, selectable now e)) (bl_entries b) =
      map (\<lambda>e. (be_address e, be_weight e, selectable now' e)) (bl_entries b')"
  shows "fst (bl_NextForKey now key b) = fst (bl_NextForKey now' key b')"
proof -
  let ?es = "bl_entries b" and ?es' = "bl_entries b'"
  have off: "map (offer now) ?es = map (offer now') ?es'" using assms(8) by (simp add: offer_def [abs_def])
  have slots: "slots_from now 0 ?es = slots_from now' 0 ?es'" using off by (rule slots_from_offer)
  have same: "be_address (?es ! i) = be_address (?es' ! i) \<and> be_weight (?es ! i) = be_weight (?es' ! i)"
    if "i \<in> set (slots_from now 0 ?es)" for i
    using offer_nth [OF off slots_from_bound [OF that]] by simp
  have own: "keyOwner ?es (slots_from now 0 ?es) key = keyOwner ?es' (slots_from now' 0 ?es') key"
    unfolding slots [symmetric] using same by (rule keyOwner_cong)
  have "map_option (\<lambda>i. be_address (?es ! i)) (keyOwner ?es (slots_from now 0 ?es) key) =
    map_option (\<lambda>i. be_address (?es' ! i)) (keyOwner ?es (slots_from now 0 ?es) key)"
  proof (cases "slots_from now 0 ?es = []")
    case True
    then show ?thesis by (simp add: keyOwner_def ringOwner_None)
  next
    case False
    from keyOwner_total [OF this, of ?es key] show ?thesis using same by auto
  qed
  then show ?thesis
    using NextForKey_owner [OF assms(1,2,6,5)] NextForKey_owner [OF assms(3,4,7,5)] own by simp
qed

theorem consistent_hash_stable_witness:
  "\<forall>rng rng'. fst (bl_NextForKey 2 ''k'' (demo_list ''consistent_hash'' rng)) =
     fst (bl_NextForKey 5 ''k'' (demo_list ''consistent_hash'' rng'))"
  by (intro allI consistent_hash_stable [OF demo_inv _ demo_inv])
     (simp_all add: demo_fields normalizeAlgorithm_def demo_entries selectable_def ejected_def)

text \<open>
  Releasing a selected backend undoes the connection count of its selection: after \<open>NextForKey\<close>
  and \<open>Release\<close> of the returned address the entries are as before, so counts do not drift.
\<close>

theorem next_release_balanced:
  assumes "bl_inv t b" "t \<le> now" "distinct (bl_Addresses b)" "fst (bl_NextForKey now key b) = Some a"
  shows "bl_entries (bl_Release a (snd (bl_NextForKey now key b))) = bl_entries b"
  using assms by (rule NextForKey_release)

theorem next_release_balanced_witness:
  "\<forall>rng. bl_entries (bl_Release ''a'' (snd (bl_NextForKey 2 [] (demo_list [] rng)))) =
     bl_entries (demo_list [] rng)"
proof
  fix rng
  have "fst (bl_NextForKey 2 [] (demo_list [] rng)) = Some ''a''"
    by (simp add: bl_NextForKey_def bl_refresh_def demo_fields normalizeAlgorithm_def demo_slots
        nextRoundRobin_def demo_entries take_entry_def Let_def)
  then show "bl_entries (bl_Release ''a'' (snd (bl_NextForKey 2 [] (demo_list [] rng)))) =
      bl_entries (demo_list [] rng)"
    by (intro next_release_balanced [OF demo_inv]) (simp_all add: demo_entries bl_Addresses_def)
qed


section \<open>Outlier ejection\<close>

text \<open>
  The states a group's list goes through: created with the outlier configuration of the process,
  then any interleaving of stream updates, health marks, selections, releases, pins, results and
  rate-limit checks, with a clock that does not run backwards.
\<close>

inductive bl_reach :: "OutlierConfig \<Rightarrow> gotime \<Rightarrow> 'l BackendList \<Rightarrow> bool" for cfg where
  init: "bl_reach cfg t (bl_SetOutlierConfig cfg (NewBackendList rng t))"
| update: "bl_reach cfg t b \<Longrightarrow> t \<le> now \<Longrightarrow> bl_reach cfg now (bl_Update now bs b)"
| health: "bl_reach cfg t b \<Longrightarrow> t \<le> now \<Longrightarrow> bl_reach cfg now (bl_SetHealth now a h b)"
| select: "bl_reach cfg t b \<Longrightarrow> t \<le> now \<Longrightarrow> bl_reach cfg now (snd (bl_NextForKey now key b))"
| pin: "bl_reach cfg t b \<Longrightarrow> t \<le> now \<Longrightarrow> bl_reach cfg now (snd (bl_PinTo now a b))"
| result: "bl_reach cfg t b \<Longrightarrow> t \<le> now \<Longrightarrow> bl_reach cfg now (bl_RecordResult now a ok b)"
| release: "bl_reach cfg t b \<Longrightarrow> t \<le> now \<Longrightarrow> bl_reach cfg now (bl_Release a b)"
| limit: "bl_reach cfg t b \<Longrightarrow> t \<le> now \<Longrightarrow> bl_reach cfg now (snd (bl_RateLimitAllow nl al now k b))"

lemma reach_inv: "bl_reach cfg t b \<Longrightarrow> bl_inv t b"
proof (induction rule: bl_reach.induct)
  case (init t rng)
  show ?case by (rule bl_inv_init)
qed (blast intro: bl_inv_Update bl_inv_SetHealth bl_inv_NextForKey bl_inv_RecordResult
    bl_inv_later bl_inv_PinTo bl_inv_Release bl_inv_RateLimitAllow)+

lemma outlier_NextForKey: "bl_outlier (snd (bl_NextForKey now key b)) = bl_outlier b"
proof (cases "bl_slots (bl_refresh now b) = []")
  case True
  then show ?thesis by (simp add: NextForKey_empty)
next
  case False
  then obtain i where "takes (bl_refresh now b) (bl_NextForKey now key b) i" by (rule NextForKey_takes)
  from takes_frame(3) [OF this] show ?thesis by simp
qed

lemma reach_outlier: "bl_reach cfg t b \<Longrightarrow> bl_outlier b = (outlier_withDefaults cfg)\<lparr>oc_Enabled := oc_Enabled cfg\<rparr>"
proof (induction rule: bl_reach.induct)
  case (result t b now a ok)
  then show ?case by (cases rule: RecordResult_cases [of now a ok b]) simp_all
qed (auto simp: bl_SetOutlierConfig_def bl_Update_def bl_SetHealth_def outlier_NextForKey bl_PinTo_def
    bl_Release_def bl_RateLimitAllow_def Let_def split: option.splits prod.splits)

text \<open>
  C1. The safety valve of outlier detection, over every interleaving of operations: the ejected share
  of a group never exceeds \<open>MaxEjectPercent\<close>, and unless that is 100 a non-empty group always has
  a backend that is not ejected.
\<close>

theorem ejection_valve:
  assumes "bl_reach cfg t b" "t \<le> now"
  shows "bl_EjectedLen now b * 100 \<le> oc_MaxEjectPercent (outlier_withDefaults cfg) * bl_Len b \<and>
    (oc_MaxEjectPercent (outlier_withDefaults cfg) = 100 \<or> bl_entries b = [] \<or>
     (\<exists>e \<in> set (bl_entries b). \<not> ejected now e))"
proof -
  let ?p = "oc_MaxEjectPercent (outlier_withDefaults cfg)"
  have "valve now b" using bl_inv_later [OF reach_inv [OF assms(1)] assms(2)] by (simp add: bl_inv_def)
  then have v: "bl_EjectedLen now b * 100 \<le> ?p * bl_Len b"
    by (simp add: valve_def bl_EjectedLen_def bl_Len_def reach_outlier [OF assms(1)])
  moreover have "\<exists>e \<in> set (bl_entries b). \<not> ejected now e" if "?p \<noteq> 100" "bl_entries b \<noteq> []"
  proof (rule ccontr)
    assume "\<not> (\<exists>e \<in> set (bl_entries b). \<not> ejected now e)"
    then have all: "bl_EjectedLen now b = bl_Len b"
      by (simp add: bl_EjectedLen_def bl_Len_def count_if_def filter_True)
    have "0 < bl_Len b" using that(2) by (simp add: bl_Len_def)
    moreover have "?p < 100" using that(1) outlier_defaults_range(1) [of cfg] by simp
    ultimately have "?p * bl_Len b < bl_Len b * 100" by (simp add: mult.commute)
    with v all show False by simp
  qed
  ultimately show ?thesis by blast
qed

lemma demo_reach: "bl_reach demo_outlier 1 (demo_list algorithm rng)"
  unfolding demo_list_def by (rule bl_reach.update [OF bl_reach.init]) simp

theorem ejection_valve_witness:
  "\<forall>rng. bl_EjectedLen 3 (bl_RecordResult 3 ''b'' False (bl_RecordResult 2 ''b'' False (demo_list [] rng))) * 100
     \<le> 50 * bl_Len (bl_RecordResult 3 ''b'' False (bl_RecordResult 2 ''b'' False (demo_list [] rng)))"
proof
  fix rng
  have "bl_reach demo_outlier 3 (bl_RecordResult 3 ''b'' False (bl_RecordResult 2 ''b'' False (demo_list [] rng)))"
    by (rule bl_reach.result [OF bl_reach.result [OF demo_reach]]) simp_all
  from ejection_valve [OF this order_refl]
  show "bl_EjectedLen 3 (bl_RecordResult 3 ''b'' False (bl_RecordResult 2 ''b'' False (demo_list [] rng))) * 100
     \<le> 50 * bl_Len (bl_RecordResult 3 ''b'' False (bl_RecordResult 2 ''b'' False (demo_list [] rng)))"
    by (simp add: demo_outlier_def outlier_withDefaults_def)
qed

text \<open>
  C20. The list is well-formed in every state it goes through: weights are positive, connection counts are
  not negative, and the slot list indexes the entries without ever running past them; an entry has
  exactly its weight in slots or none, and none while it is unhealthy or ejected.
\<close>

theorem list_wellformed:
  assumes "bl_reach cfg t b" "t \<le> now"
  shows "(\<forall>e \<in> set (bl_entries b). 0 < be_weight e \<and> 0 \<le> be_activeConns e) \<and>
    (\<forall>i \<in> set (bl_slots b). i < length (bl_entries b) \<and> be_healthy (bl_entries b ! i) \<and> \<not> ejected now (bl_entries b ! i)) \<and>
    (\<forall>i < length (bl_entries b). count_list (bl_slots b) i \<in> {0, nat (be_weight (bl_entries b ! i))})"
proof -
  obtain t0 where t0: "entries_ok b" "t0 \<le> t" "bl_slots b = slots_from t0 0 (bl_entries b)"
    using reach_inv [OF assms(1)] by (auto simp: bl_inv_def synced_def)
  have "t0 \<le> now" using t0(2) assms(2) by simp
  then have "i < length (bl_entries b) \<and> be_healthy (bl_entries b ! i) \<and> \<not> ejected now (bl_entries b ! i)"
    if "i \<in> set (bl_slots b)" for i
    using slots_from_bound [of i t0 "bl_entries b"] slots_from_selectable [of i t0 "bl_entries b"] that t0(3)
    by (auto simp: selectable_def dest: ejected_antimono)
  then show ?thesis using t0(1) by (simp add: entries_ok_def t0(3) count_slots_from)
qed

theorem list_wellformed_witness:
  "\<forall>rng. list_all (\<lambda>i. i < length (bl_entries (bl_SetHealth 2 ''b'' False (demo_list [] rng))))
     (bl_slots (bl_SetHealth 2 ''b'' False (demo_list [] rng)))"
proof
  fix rng
  have "bl_reach demo_outlier 2 (bl_SetHealth 2 ''b'' False (demo_list [] rng))"
    by (rule bl_reach.health [OF demo_reach]) simp
  from list_wellformed [OF this order_refl]
  show "list_all (\<lambda>i. i < length (bl_entries (bl_SetHealth 2 ''b'' False (demo_list [] rng))))
     (bl_slots (bl_SetHealth 2 ''b'' False (demo_list [] rng)))" by (simp add: list_all_iff)
qed

abbreviation (input) fail_run :: "string \<Rightarrow> gotime list \<Rightarrow> 'l BackendList \<Rightarrow> 'l BackendList" where
  "fail_run a nows b \<equiv> foldl (\<lambda>b now. bl_RecordResult now a False b) b nows"

lemma fail_run_counts:
  assumes "oc_Enabled (bl_outlier b)" "find_entry a b = Some e"
    and "be_consecErrors e + int (length nows) < oc_ConsecutiveErrors (bl_outlier b)"
  shows "fail_run a nows b =
    upd_entry a (\<lambda>e. e\<lparr>be_consecErrors := be_consecErrors e + int (length nows)\<rparr>) b"
  using assms
proof (induction nows rule: rev_induct)
  case (snoc now nows)
  let ?f = "\<lambda>n e. e\<lparr>be_consecErrors := be_consecErrors e + n\<rparr>"
  define c where "c = fail_run a nows b"
  have c: "c = upd_entry a (?f (int (length nows))) b" using snoc by (simp add: c_def)
  have e1: "find_entry a c = Some (?f (int (length nows)) e)"
    unfolding c using snoc.prems(2) by (simp add: find_entry_upd)
  let ?n = "be_consecErrors e + int (length nows) + 1"
  have "bl_outlier c = bl_outlier b" by (simp add: c)
  then have "bl_RecordResult now a False c = upd_entry a (\<lambda>x. x\<lparr>be_consecErrors := ?n\<rparr>) c"
    using snoc.prems e1 by (simp add: bl_RecordResult_def Let_def)
  also have "\<dots> = upd_entry a (\<lambda>x. x\<lparr>be_consecErrors := ?n\<rparr>) b"
    unfolding c by (subst upd_entry_twice) (simp_all add: comp_def)
  also have "\<dots> = upd_entry a (?f (int (length (nows @ [now])))) b"
    unfolding upd_entry_def using snoc.prems(2)
    by (simp add: find_entry_def, intro arg_cong [where f = "\<lambda>x. b\<lparr>bl_entries := x\<rparr>"] update_first_cong_find)
       (simp add: find_entry_def)
  finally show ?case by (simp add: c_def)
qed (simp add: upd_entry_def update_first_ident)

text \<open>
  A backend is ejected at its \<open>ConsecutiveErrors\<close>-th failure in a row and not before: the failures
  before it only count, the last one ejects the entry (when the valve has room) for the duration of
  its new ejection count and resets the error count.
\<close>

theorem eject_at_threshold:
  assumes "oc_Enabled (bl_outlier b)" "find_entry a b = Some e" "be_consecErrors e = 0"
    and "oc_ConsecutiveErrors (bl_outlier b) = int (length nows) + 1"
    and "\<not> ejected now e"
    and "(bl_EjectedLen now b + 1) * 100 \<le> oc_MaxEjectPercent (bl_outlier b) * bl_Len b"
  shows "find_entry a (foldl (\<lambda>b now. bl_RecordResult now a False b) b nows) =
      Some (e\<lparr>be_consecErrors := int (length nows)\<rparr>) \<and>
    find_entry a (bl_RecordResult now a False (foldl (\<lambda>b now. bl_RecordResult now a False b) b nows)) =
      Some (e\<lparr>be_consecErrors := 0, be_ejectedUntil := now + ejectDuration (bl_outlier b) (be_ejectCount e + 1),
              be_ejectCount := be_ejectCount e + 1\<rparr>)"
proof -
  define c where "c = fail_run a nows b"
  have c: "c = upd_entry a (\<lambda>e. e\<lparr>be_consecErrors := be_consecErrors e + int (length nows)\<rparr>) b"
    unfolding c_def using fail_run_counts [OF assms(1,2), of nows] assms(3,4) by simp
  have e1: "find_entry a c = Some (e\<lparr>be_consecErrors := int (length nows)\<rparr>)"
    unfolding c using assms(2,3) by (simp add: find_entry_upd)
  let ?b1 = "upd_entry a (\<lambda>x. x\<lparr>be_consecErrors := int (length nows) + 1\<rparr>) c"
  have "count_if (ejected now) (bl_entries ?b1) = bl_EjectedLen now b"
    unfolding c bl_EjectedLen_def by (simp add: upd_entry_count ejected_def)
  moreover have "int (length (bl_entries c)) = bl_Len b" "bl_outlier c = bl_outlier b"
    by (simp_all add: c bl_Len_def)
  ultimately have "bl_RecordResult now a False c = rebuildSlotsLocked now
      (upd_entry a (\<lambda>x. x\<lparr>be_ejectCount := be_ejectCount e + 1,
         be_ejectedUntil := now + ejectDuration (bl_outlier b) (be_ejectCount e + 1),
         be_consecErrors := 0\<rparr>) ?b1)"
    using assms(1,4,5,6) e1 by (auto simp: bl_RecordResult_def Let_def ejected_def)
  then have "find_entry a (bl_RecordResult now a False c) =
      Some (e\<lparr>be_consecErrors := 0, be_ejectedUntil := now + ejectDuration (bl_outlier b) (be_ejectCount e + 1),
              be_ejectCount := be_ejectCount e + 1\<rparr>)"
    using e1 by (simp add: find_entry_upd)
  with e1 show ?thesis by (simp add: c_def)
qed

theorem eject_at_threshold_witness:
  "\<forall>rng. map_option be_ejectedUntil (find_entry ''b''
     (bl_RecordResult 3 ''b'' False (foldl (\<lambda>b now. bl_RecordResult now ''b'' False b) (demo_list [] rng) [2])))
     = Some 13"
proof
  fix rng
  let ?e = "bl_entries (demo_list [] rng) ! 1"
  have "find_entry ''b'' (bl_RecordResult 3 ''b'' False
      (foldl (\<lambda>b now. bl_RecordResult now ''b'' False b) (demo_list [] rng) [2])) =
    Some (?e\<lparr>be_consecErrors := 0,
      be_ejectedUntil := 3 + ejectDuration (bl_outlier (demo_list [] rng)) (be_ejectCount ?e + 1),
      be_ejectCount := be_ejectCount ?e + 1\<rparr>)"
    by (rule eject_at_threshold [THEN conjunct2])
       (simp_all add: demo_fields demo_outlier_def find_entry_def demo_entries ejected_def bl_EjectedLen_def bl_Len_def)
  then show "map_option be_ejectedUntil (find_entry ''b'' (bl_RecordResult 3 ''b'' False
      (foldl (\<lambda>b now. bl_RecordResult now ''b'' False b) (demo_list [] rng) [2]))) = Some 13"
    by (simp add: demo_fields demo_outlier_def demo_entries ejectDuration_def wrap64_id is_int64_def int64_defs Let_def)
qed


text \<open>
  Ejections back off linearly: with a positive base and maximum, the \<open>n\<close>-th ejection lasts
  \<open>n\<close> times the base, at most the maximum, as long as that product fits in 63 bits.
\<close>

theorem ejection_backoff:
  assumes "0 < n" "n * oc_BaseEjectDuration (outlier_withDefaults cfg) \<le> max_int64"
  shows "ejectDuration (outlier_withDefaults cfg) n =
      min (n * oc_BaseEjectDuration (outlier_withDefaults cfg)) (oc_MaxEjectDuration (outlier_withDefaults cfg)) \<and>
    0 < ejectDuration (outlier_withDefaults cfg) n"
proof -
  let ?c = "outlier_withDefaults cfg"
  have p: "0 < n * oc_BaseEjectDuration ?c" using assms(1) outlier_defaults_range(3) by simp
  then have "is_int64 (n * oc_BaseEjectDuration ?c)" using assms(2) by (simp add: is_int64_def int64_defs)
  then show ?thesis using p outlier_defaults_range(4) [of cfg]
    by (simp add: ejectDuration_def wrap64_id min_def)
qed

theorem ejection_backoff_witness: "ejectDuration (outlier_withDefaults demo_outlier) 2 = 15"
  using ejection_backoff [of 2 demo_outlier]
  by (simp add: demo_outlier_def outlier_withDefaults_def int64_defs)

section \<open>Control-plane updates\<close>

text \<open>
  What an accepted update keeps: the new entries are the backends of the set in its order; a
  backend that was there keeps its health mark and its open connections, a new one starts healthy
  with none, and every error count and every ejection is cleared.
\<close>

theorem update_entries:
  assumes "bl_version b = 0 \<or> bl_version b < BS_Version bs" "distinct (bl_Addresses b)"
  shows "bl_entries (bl_Update now bs b) =
    map (\<lambda>be. let w = (if Backend_Weight be \<le> 0 then 1 else Backend_Weight be)
      in case find_entry (Backend_Address be) b of
        Some e \<Rightarrow> e\<lparr>be_weight := w, be_consecErrors := 0, be_ejectedUntil := 0, be_ejectCount := 0\<rparr>
      | None \<Rightarrow> \<lparr>be_address = Backend_Address be, be_weight = w, be_healthy = True, be_activeConns = 0,
          be_consecErrors = 0, be_ejectedUntil = 0, be_ejectCount = 0\<rparr>)
      (BS_Backends bs)"
proof -
  have pe: "prevEntries (bl_entries b) a = find_entry a b" for a
  proof (cases "find_entry a b")
    case None
    then have "\<forall>e \<in> set (bl_entries b). be_address e \<noteq> a" by (simp add: find_entry_def find_eq_None)
    then show ?thesis using None prevEntries_SomeD by (cases "prevEntries (bl_entries b) a") auto
  next
    case (Some e)
    then show ?thesis
      using prevEntries_distinct assms(2) find_entry_SomeD [OF Some] by (fastforce simp: bl_Addresses_def)
  qed
  have "newEntry (bl_entries b) be =
      (let w = (if Backend_Weight be \<le> 0 then 1 else Backend_Weight be)
      in case find_entry (Backend_Address be) b of
        Some e \<Rightarrow> e\<lparr>be_weight := w, be_consecErrors := 0, be_ejectedUntil := 0, be_ejectCount := 0\<rparr>
      | None \<Rightarrow> \<lparr>be_address = Backend_Address be, be_weight = w, be_healthy = True, be_activeConns = 0,
          be_consecErrors = 0, be_ejectedUntil = 0, be_ejectCount = 0\<rparr>)" for be
    by (auto simp: newEntry_def prevHealth_prevEntries pe Let_def dest: find_entry_SomeD split: option.splits)
  then show ?thesis using assms(1) by (auto simp: bl_Update_def)
qed

theorem update_entries_witness:
  "\<forall>rng. map be_healthy (bl_entries (bl_Update 3 ((demo_set [])\<lparr>BS_Version := 2\<rparr>)
     (bl_SetHealth 2 ''a'' False (demo_list [] rng)))) = [False, True]"
proof
  fix rng
  let ?b = "bl_SetHealth 2 ''a'' False (demo_list [] rng)"
  have b: "bl_entries ?b = [(bl_entries (demo_list [] rng) ! 0)\<lparr>be_healthy := False\<rparr>, bl_entries (demo_list [] rng) ! 1]"
    by (simp add: bl_SetHealth_def demo_entries Let_def)
  have "bl_version ?b = 1"
    by (simp add: bl_SetHealth_def demo_entries demo_simps)
  then show "map be_healthy (bl_entries (bl_Update 3 ((demo_set [])\<lparr>BS_Version := 2\<rparr>) ?b)) = [False, True]"
    using update_entries [of ?b "(demo_set [])\<lparr>BS_Version := 2\<rparr>" 3]
    by (simp add: b demo_entries bl_Addresses_def find_entry_def demo_set_def)
qed

text \<open>
  Two data planes converge: whatever the order, the repetitions and the lost copies in which they
  received the same stamped updates of a group, if each was behind the newest one they end with the
  same backends, weights, algorithm, stickiness and rate limit. Updates with equal version are
  taken to have equal content.
\<close>

theorem updates_converge:
  fixes b b' :: "'l BackendList"
  assumes "0 \<le> bl_version b" "0 \<le> bl_version b'"
    and "\<forall>m \<in> set ms. 0 < BS_Version (snd m)" "set ms' = set ms"
    and "\<exists>m \<in> set ms. bl_version b < BS_Version (snd m)" "\<exists>m \<in> set ms. bl_version b' < BS_Version (snd m)"
    and "\<forall>m \<in> set ms. \<forall>m' \<in> set ms. BS_Version (snd m) = BS_Version (snd m') \<longrightarrow> bs_view (snd m) = bs_view (snd m')"
  shows "bl_view (foldl bl_receive b ms) = bl_view (foldl bl_receive b' ms')"
  using assms by (rule bl_recv.run_converges)

theorem updates_converge_witness:
  "\<forall>rng. bl_view (foldl bl_receive (NewBackendList rng 1 :: unit BackendList)
       [(1, demo_set []), (2, (demo_set ''p2c'')\<lparr>BS_Version := 2\<rparr>)]) =
     bl_view (foldl bl_receive (NewBackendList rng 1 :: unit BackendList)
       [(2, (demo_set ''p2c'')\<lparr>BS_Version := 2\<rparr>), (1, demo_set []), (1, demo_set [])])"
  by (intro allI updates_converge) (auto simp: NewBackendList_def demo_set_def)

section \<open>Rate limiting\<close>

text \<open>
  The rate limit is per client and exact for bursts: of the requests that arrive at one instant,
  from any clients in any order, a client with no bucket yet has exactly its first
  \<open>min(requests, burst)\<close> admitted, whatever the others send. The burst is the configured one, or
  the rate rounded down, and at least 1. Hypothesis on the limiter library: a new limiter admits
  exactly its burst at one instant.
\<close>

theorem burst_exact_per_client:
  assumes "full_bucket nl al" "RL_Enabled (gl_cfg g)" "0 < RL_RPS (gl_cfg g)" "gl_clients g k = None"
  shows "int (length (filter (\<lambda>v. v = (k, True)) (fst (allow_run nl al now cs g)))) =
    min (int (count_list cs k)) (effBurst (gl_cfg g))"
proof -
  have "int (length (filter (\<lambda>v. v = (k, True)) (fst (allow_run nl al now cs g)))) =
      min (int (count_list cs k)) (max 0 (effBurst (gl_cfg g) - int 0))"
    using assms effBurst_pos [of "gl_cfg g"]
    by (intro allow_run_admits) (auto simp: bucket_at_def full_bucket_def)
  then show ?thesis using effBurst_pos [of "gl_cfg g"] by simp
qed

text \<open>A token bucket: rate, burst, tokens and the instant of the last event.\<close>

definition demo_limiter :: "rat \<Rightarrow> int \<Rightarrow> rat \<times> int \<times> rat \<times> gotime" where
  "demo_limiter r b = (r, b, of_int b, 0)"

lemma full_refill:
  assumes "0 < r" "0 < b"
  shows "min (of_int b) (of_int b + r * of_int (max 0 now) / 1000000000) = (of_int b :: rat)"
  using assms by (simp add: min_def)

definition demo_allow :: "rat \<times> int \<times> rat \<times> gotime \<Rightarrow> gotime \<Rightarrow> bool \<times> (rat \<times> int \<times> rat \<times> gotime)" where
  "demo_allow l now =
     (let (r, b, tokens, last) = l;
          refill = min (of_int b) (tokens + r * of_int (max 0 (now - last)) / of_int second)
      in if 1 \<le> refill then (True, (r, b, refill - 1, now)) else (False, (r, b, refill, now)))"

lemma demo_allow_same_instant:
  "tok \<le> of_int b \<Longrightarrow> demo_allow (r, b, tok, now) now =
     (if 1 \<le> tok then (True, (r, b, tok - 1, now)) else (False, (r, b, tok, now)))"
  by (auto simp: demo_allow_def Let_def min_def)

lemma demo_spend:
  assumes "0 < r" "0 < b"
  shows "0 < j \<Longrightarrow> spend demo_allow now j (demo_limiter r b) =
      (r, b, if int j \<le> b then of_int (b - int j) else 0, now)"
proof (induction j)
  case (Suc j)
  show ?case
  proof (cases "j = 0")
    case True
    with assms show ?thesis
      by (simp add: spend_def demo_limiter_def demo_allow_def Let_def full_refill del: min.bounded_iff)
  next
    case False
    with Suc.IH have "spend demo_allow now (Suc j) (demo_limiter r b) =
        snd (demo_allow (r, b, if int j \<le> b then of_int (b - int j) else 0, now) now)"
      by (simp add: spend_def)
    also have "\<dots> = (r, b, if int (Suc j) \<le> b then of_int (b - int (Suc j)) else 0, now)"
    proof (cases "int j < b")
      case True
      then have "(1 :: rat) \<le> of_int (b - int j)" by (subst of_int_1_le_iff) simp
      then show ?thesis using True by (subst demo_allow_same_instant) simp_all
    next
      case False
      then show ?thesis using assms by (subst demo_allow_same_instant) auto
    qed
    finally show ?thesis .
  qed
qed simp

lemma demo_full_bucket: "full_bucket demo_limiter demo_allow"
  unfolding full_bucket_def
proof (intro allI impI)
  fix r :: rat and b :: int and now :: gotime and j :: nat
  assume p: "0 < r" "0 < b"
  show "fst (demo_allow (spend demo_allow now j (demo_limiter r b)) now) \<longleftrightarrow> int j < b"
  proof (cases "j = 0")
    case True
    with p show ?thesis
      by (simp add: spend_def demo_limiter_def demo_allow_def Let_def full_refill del: min.bounded_iff)
  next
    case False
    then have "fst (demo_allow (spend demo_allow now j (demo_limiter r b)) now) \<longleftrightarrow>
        (1 :: rat) \<le> (if int j \<le> b then of_int (b - int j) else 0)"
      using p by (simp only: demo_spend [OF p] neq0_conv) (subst demo_allow_same_instant, auto)
    also have "\<dots> \<longleftrightarrow> int j < b"
      using of_int_1_le_iff [of "b - int j", where ?'a = rat] by (auto simp del: of_int_diff)
    finally show ?thesis .
  qed
qed

theorem burst_exact_per_client_witness:
  "length (filter (\<lambda>v. v = (''x'', True)) (fst (allow_run demo_limiter demo_allow 7
     [''x'', ''y'', ''x'', ''x'', ''y'']
     (setConfig \<lparr>RL_Enabled = True, RL_RPS = 1, RL_Burst = 2\<rparr> (newGroupRateLimiter 0))))) = 2"
  using burst_exact_per_client [OF demo_full_bucket,
      of "setConfig \<lparr>RL_Enabled = True, RL_RPS = 1, RL_Burst = 2\<rparr> (newGroupRateLimiter 0)" "''x''" 7
         "[''x'', ''y'', ''x'', ''x'', ''y'']"]
  by (simp add: setConfig_def newGroupRateLimiter_def zeroRateLimitConfig_def effBurst_def)

end
