(* ===== verification/Json.thy ===== *)
theory Json
  imports Wire "HOL-Library.List_Lexorder" "HOL-Library.Char_ord"
begin

text \<open>
  What the control plane uses of \<open>encoding/json\<close> and of the file system.

  A file holds a JSON document, as a value of \<open>json\<close>, or bytes that are no document. Encoders follow the
  struct tags of the source (\<open>omitempty\<close>, sorted map keys); decoders follow the library: unknown keys
  are skipped, keys match without regard to case, \<open>null\<close> leaves a value as it is, the last of several
  equal keys counts, and a value of the wrong kind is an error. Strings are valid UTF-8, on which
  JSON strings are exact. The text layout (indentation) carries no information and is left out.

  A nil Go map decoded from \<open>null\<close> is \<open>None\<close>, because storing into it panics.
\<close>

section \<open>Documents\<close>

datatype json =
    JNull
  | JBool bool
  | JInt int
  | JFloat rat
  | JStr string
  | JArr "json list"
  | JObj "(string \<times> json) list"

text \<open>Numbers: a literal without fraction and exponent is a \<open>JInt\<close>, which is how whole floats print.\<close>

definition jFloat :: "rat \<Rightarrow> json" where
  "jFloat f = (if of_int \<lfloor>f\<rfloor> = f \<and> \<bar>f\<bar> < 10 ^ 21 then JInt \<lfloor>f\<rfloor> else JFloat f)"

definition jField :: "string \<Rightarrow> json \<Rightarrow> (string \<times> json) list" where
  "jField k v = [(k, v)]"

definition jOmitEmpty :: "bool \<Rightarrow> string \<Rightarrow> json \<Rightarrow> (string \<times> json) list" where
  "jOmitEmpty isEmpty k v = (if isEmpty then [] else [(k, v)])"

definition jMap :: "('v \<Rightarrow> json) \<Rightarrow> (string \<times> 'v) list \<Rightarrow> json" where
  "jMap enc m = JObj (map (\<lambda>(k, v). (k, enc v)) (sort_key fst m))"

fun dBool :: "json \<Rightarrow> bool \<Rightarrow> bool option" where
  "dBool JNull v = Some v"
| "dBool (JBool b) v = Some b"
| "dBool _ v = None"

fun dStr :: "json \<Rightarrow> string \<Rightarrow> string option" where
  "dStr JNull v = Some v"
| "dStr (JStr s) v = Some s"
| "dStr _ v = None"

fun dInt :: "int \<Rightarrow> json \<Rightarrow> int \<Rightarrow> int option" where
  "dInt w JNull v = Some v"
| "dInt w (JInt n) v = (if - w \<le> n \<and> n < w then Some n else None)"
| "dInt w _ v = None"

abbreviation "dInt32 \<equiv> dInt (2 ^ 31)"
abbreviation "dInt64 \<equiv> dInt (2 ^ 63)"

fun dFloat :: "json \<Rightarrow> rat \<Rightarrow> rat option" where
  "dFloat JNull v = Some v"
| "dFloat (JInt n) v = Some (f64 (of_int n))"
| "dFloat (JFloat r) v = Some (f64 r)"
| "dFloat _ v = None"

fun dObj :: "(string \<Rightarrow> json \<Rightarrow> 'r \<Rightarrow> 'r option) \<Rightarrow> (string \<times> json) list \<Rightarrow> 'r \<Rightarrow> 'r option" where
  "dObj f [] r = Some r"
| "dObj f ((k, v) # kvs) r = (case f k v r of None \<Rightarrow> None | Some r' \<Rightarrow> dObj f kvs r')"

fun dStruct :: "(string \<Rightarrow> json \<Rightarrow> 'r \<Rightarrow> 'r option) \<Rightarrow> json \<Rightarrow> 'r \<Rightarrow> 'r option" where
  "dStruct f JNull r = Some r"
| "dStruct f (JObj kvs) r = dObj f kvs r"
| "dStruct f _ r = None"

fun dMap :: "(json \<Rightarrow> 'v option) \<Rightarrow> json \<Rightarrow> (string \<times> 'v) list option option" where
  "dMap dec JNull = Some None"
| "dMap dec (JObj kvs) = map_option Some (dObj (\<lambda>k v m. map_option (\<lambda>x. AList.update k x m) (dec v)) kvs [])"
| "dMap dec _ = None"

lemma dObj_append: "dObj f (xs @ ys) r = (case dObj f xs r of None \<Rightarrow> None | Some r' \<Rightarrow> dObj f ys r')"
  by (induction f xs r rule: dObj.induct) (auto split: option.splits)

lemma dObj_field [simp]: "dObj f (jField k v) r = f k v r"
  by (simp add: jField_def split: option.split)

lemma dObj_omit:
  "(isEmpty \<Longrightarrow> r' = r) \<Longrightarrow> (\<not> isEmpty \<Longrightarrow> f k v r = Some r') \<Longrightarrow> dObj f (jOmitEmpty isEmpty k v) r = Some r'"
  by (simp add: jOmitEmpty_def)

lemma dFloat_jFloat [simp]: "f64 x = x \<Longrightarrow> dFloat (jFloat x) v = Some x"
  by (auto simp: jFloat_def)

lemma map_of_sort [simp]: "distinct (map fst m) \<Longrightarrow> map_of (sort_key fst m) = map_of m"
  by (subst map_of_inject_set) (simp_all add: distinct_map)

lemma dObj_map:
  assumes "distinct (map fst kvs)" "\<forall>(k, v) \<in> set kvs. dec (enc v) = Some (conv v)"
  shows "\<exists>m'. dObj (\<lambda>k v m. map_option (\<lambda>x. AList.update k x m) (dec v)) (map (\<lambda>(k, v). (k, enc v)) kvs) m = Some m' \<and>
           map_of m' = map_of m ++ (\<lambda>k. map_option conv (map_of kvs k)) \<and>
           (distinct (map fst m) \<longrightarrow> distinct (map fst m'))"
  using assms
proof (induction kvs arbitrary: m)
  case (Cons kv kvs)
  obtain k v where kv: "kv = (k, v)" by (cases kv)
  from Cons.prems have d: "dec (enc v) = Some (conv v)" and k: "map_of kvs k = None"
    by (auto simp: kv map_of_eq_None_iff)
  from Cons.IH [of "AList.update k (conv v) m"] Cons.prems obtain m' where
    "dObj (\<lambda>k v m. map_option (\<lambda>x. AList.update k x m) (dec v)) (map (\<lambda>(k, v). (k, enc v)) kvs) (AList.update k (conv v) m) = Some m'"
    and e: "map_of m' = map_of (AList.update k (conv v) m) ++ (\<lambda>k. map_option conv (map_of kvs k))"
    and "distinct (map fst (AList.update k (conv v) m)) \<longrightarrow> distinct (map fst m')" by auto
  moreover have "map_of m' = map_of m ++ (\<lambda>k'. map_option conv (map_of (kv # kvs) k'))"
    unfolding e using k by (simp add: kv fun_eq_iff map_add_def update_conv' split: option.split)
  ultimately show ?case by (auto simp: kv d distinct_update)
qed auto

lemma dMap_jMap:
  assumes "distinct (map fst m)" "\<forall>(k, v) \<in> set m. dec (enc v) = Some (conv v)"
  shows "\<exists>m'. dMap dec (jMap enc m) = Some (Some m') \<and> distinct (map fst m') \<and>
           (\<forall>k. map_of m' k = map_option conv (map_of m k))"
proof -
  have "distinct (map fst (sort_key fst m))" using assms(1) by (simp add: distinct_map)
  from dObj_map [OF this, of dec enc conv "[]"] assms show ?thesis by (auto simp: jMap_def)
qed

section \<open>Writing a file atomically\<close>

datatype content = Doc json | Raw string

type_synonym filesystem = "string \<rightharpoonup> content"

text \<open>
  The calls of \<open>persist\<close>, each of which may fail. The world of one \<open>persist\<close> says which calls fail, the
  name \<open>CreateTemp\<close> picks (a name no file has) and what a failing write leaves in the file.
\<close>

datatype sysCall = MkdirAll | CreateTemp | WriteTemp | ChmodTemp | CloseTemp | RenameTemp | RemoveTemp

record persistEnv =
  pe_fails :: "sysCall \<Rightarrow> bool"
  pe_tmp :: string
  pe_partial :: string

fun sysDo :: "persistEnv \<Rightarrow> string \<Rightarrow> json \<Rightarrow> sysCall \<Rightarrow> filesystem \<Rightarrow> filesystem" where
  "sysDo env path doc CreateTemp fs = fs(pe_tmp env \<mapsto> Raw [])"
| "sysDo env path doc WriteTemp fs = fs(pe_tmp env \<mapsto> Doc doc)"
| "sysDo env path doc RenameTemp fs = (fs(path := fs (pe_tmp env)))(pe_tmp env := None)"
| "sysDo env path doc RemoveTemp fs = fs(pe_tmp env := None)"
| "sysDo env path doc _ fs = fs"

fun sysFail :: "persistEnv \<Rightarrow> sysCall \<Rightarrow> filesystem \<Rightarrow> filesystem" where
  "sysFail env WriteTemp fs = fs(pe_tmp env \<mapsto> Raw (pe_partial env))"
| "sysFail env _ fs = fs"

text \<open>The file systems after every call, newest last, and the call that failed, if one did.\<close>

fun sysRun :: "persistEnv \<Rightarrow> string \<Rightarrow> json \<Rightarrow> sysCall list \<Rightarrow> filesystem list \<Rightarrow> sysCall option \<times> filesystem list" where
  "sysRun env path doc [] tr = (None, tr)"
| "sysRun env path doc (c # cs) tr =
     (if pe_fails env c then (Some c, tr @ [sysFail env c (last tr)])
      else sysRun env path doc cs (tr @ [sysDo env path doc c (last tr)]))"

definition persistTrace :: "persistEnv \<Rightarrow> string \<Rightarrow> json \<Rightarrow> filesystem \<Rightarrow> sysCall option \<times> filesystem list" where
  "persistTrace env path doc fs =
     (if path = [] then (None, [fs])
      else
        (let (err, tr) = sysRun env path doc [MkdirAll, CreateTemp, WriteTemp, ChmodTemp, CloseTemp, RenameTemp] [fs]
         in if err = Some MkdirAll \<or> err = Some CreateTemp then (err, tr)
            else (err, tr @ [if pe_fails env RemoveTemp then last tr else sysDo env path doc RemoveTemp (last tr)])))"

definition persistFile :: "persistEnv \<Rightarrow> string \<Rightarrow> json \<Rightarrow> filesystem \<Rightarrow> sysCall option \<times> filesystem" where
  "persistFile env path doc fs = (let (err, tr) = persistTrace env path doc fs in (err, last tr))"

lemma persistTrace_cases:
  assumes "pe_tmp env \<noteq> path"
  shows "\<forall>fs' \<in> set (snd (persistTrace env path doc fs)). fs' path = fs path \<or> fs' path = Some (Doc doc)"
    and "\<forall>p. p \<noteq> path \<longrightarrow> p \<noteq> pe_tmp env \<longrightarrow> (\<forall>fs' \<in> set (snd (persistTrace env path doc fs)). fs' p = fs p)"
  using assms by (auto simp: persistTrace_def Let_def)

lemma persistFile_ok:
  "path \<noteq> [] \<Longrightarrow> pe_tmp env \<noteq> path \<Longrightarrow> persistFile env path doc fs = (None, fs') \<Longrightarrow> fs' path = Some (Doc doc)"
  by (auto simp: persistFile_def persistTrace_def Let_def split: if_splits)

lemma persistFile_err:
  "pe_tmp env \<noteq> path \<Longrightarrow> persistFile env path doc fs = (Some c, fs') \<Longrightarrow> fs' path = fs path"
  by (auto simp: persistFile_def persistTrace_def Let_def split: if_splits)

lemma persistFile_other:
  "p \<noteq> path \<Longrightarrow> p \<noteq> pe_tmp env \<Longrightarrow> persistFile env path doc fs = (err, fs') \<Longrightarrow> fs' p = fs p"
  by (auto simp: persistFile_def persistTrace_def Let_def split: if_splits)

definition quiet_env :: "string \<Rightarrow> persistEnv" where
  "quiet_env tmp = \<lparr>pe_fails = (\<lambda>_. False), pe_tmp = tmp, pe_partial = []\<rparr>"

end
