(* ===== verification/Http.thy ===== *)
theory Http
  imports Float64
begin

text \<open>
  What the data plane uses of \<open>net/http\<close>: header maps, requests, response writers, \<open>http.Error\<close> and
  \<open>http.SetCookie\<close>, and the client address of a request (\<open>clientIP\<close> of
  \<open>internal/dataplane/accesslog.go\<close>).

  A header maps canonical names to value lists; every access canonicalises the name, as the library
  does. A request carries what the server has parsed: query parameters, cookies (name and value, in
  order), whether there is a body and the cap a \<open>MaxBytesReader\<close> puts on it. A response writer is an
  interface value: the server's own writer, which keeps the header map a handler may still change and,
  once the header is written, the status and headers that went to the client, or the
  \<open>accessLogResponseWriter\<close> that wraps another writer. Every write to the client succeeds.
\<close>

section \<open>Headers\<close>

type_synonym header = "string \<rightharpoonup> string list"

definition is_token_char :: "char \<Rightarrow> bool" where
  "is_token_char c \<longleftrightarrow> is_upper c \<or> is_lower c \<or> is_digit c \<or> c \<in> set ''!#$%&*+-.^_`|~'' \<or> c = CHR 0x27"

fun canon :: "bool \<Rightarrow> string \<Rightarrow> string" where
  "canon up [] = []"
| "canon up (c # cs) = (if up then to_upper c else to_lower c) # canon (c = CHR ''-'') cs"

definition CanonicalHeaderKey :: "string \<Rightarrow> string" where
  "CanonicalHeaderKey s = (if list_all is_token_char s then canon True s else s)"

definition header_Values :: "header \<Rightarrow> string \<Rightarrow> string list" where
  "header_Values h name = (case h (CanonicalHeaderKey name) of None \<Rightarrow> [] | Some vs \<Rightarrow> vs)"

definition header_Get :: "header \<Rightarrow> string \<Rightarrow> string" where
  "header_Get h name = (case header_Values h name of [] \<Rightarrow> [] | v # _ \<Rightarrow> v)"

definition header_Set :: "string \<Rightarrow> string \<Rightarrow> header \<Rightarrow> header" where
  "header_Set name val h = h(CanonicalHeaderKey name \<mapsto> [val])"

definition header_Add :: "string \<Rightarrow> string \<Rightarrow> header \<Rightarrow> header" where
  "header_Add name val h = h(CanonicalHeaderKey name \<mapsto> header_Values h name @ [val])"

definition header_Del :: "string \<Rightarrow> header \<Rightarrow> header" where
  "header_Del name h = h(CanonicalHeaderKey name := None)"

text \<open>
  Adding every value of \<open>src\<close> to \<open>dst\<close>, name by name; the names of \<open>src\<close> are canonical, since
  headers are only filled through the operations above.
\<close>

definition header_AddAll :: "header \<Rightarrow> header \<Rightarrow> header" where
  "header_AddAll src dst =
     (\<lambda>k. case src k of
        None \<Rightarrow> dst k
      | Some vs \<Rightarrow> if vs = [] then dst k else Some ((case dst k of None \<Rightarrow> [] | Some us \<Rightarrow> us) @ vs))"

lemma header_AddAll_empty [simp]: "header_AddAll Map.empty dst = dst"
  by (simp add: header_AddAll_def)

section \<open>Requests\<close>

record Request =
  rq_Method :: string
  rq_Host :: string
  rq_Path :: string
  rq_Header :: header
  rq_Query :: "string \<rightharpoonup> string list"
  rq_Cookies :: "(string \<times> string) list"
  rq_RemoteAddr :: string
  rq_HasBody :: bool
  rq_ContentLength :: int
  rq_Proto :: string
  rq_MaxBytes :: "int option"

definition rq_Cookie :: "Request \<Rightarrow> string \<Rightarrow> string option" where
  "rq_Cookie r name = map_option snd (find (\<lambda>c. fst c = name) (rq_Cookies r))"

definition trimSpace :: "string \<Rightarrow> string" where
  "trimSpace s =
     (let blank = (\<lambda>c. c = CHR '' '' \<or> c = CHR 0x09)
      in rev (dropWhile blank (rev (dropWhile blank s))))"

definition clientIP :: "Request \<Rightarrow> string" where
  "clientIP r =
     (let xff = header_Get (rq_Header r) ''X-Forwarded-For''
      in if xff \<noteq> [] then trimSpace (takeWhile (\<lambda>c. c \<noteq> CHR '','') xff)
         else
           (let addr = rq_RemoteAddr r
            in if CHR '':'' \<in> set addr
               then rev (tl (dropWhile (\<lambda>c. c \<noteq> CHR '':'') (rev addr)))
               else addr))"

section \<open>Response writers\<close>

text \<open>
  The writer of the connection. The first final status is the one that is sent, with the headers of that
  moment; an informational one goes out at once, with the headers of that moment, and leaves the final
  answer open.
\<close>

definition informational :: "int \<Rightarrow> bool" where
  [simp]: "informational code \<longleftrightarrow> 100 \<le> code \<and> code \<le> 199 \<and> code \<noteq> 101"

record response =
  res_header :: header
  res_interim :: "(int \<times> header) list"
  res_sent :: "(int \<times> header) option"
  res_body :: string

definition res_WriteHeader :: "int \<Rightarrow> response \<Rightarrow> response" where
  "res_WriteHeader code w =
     (case res_sent w of
        Some _ \<Rightarrow> w
      | None \<Rightarrow>
          if informational code then w\<lparr>res_interim := res_interim w @ [(code, res_header w)]\<rparr>
          else w\<lparr>res_sent := Some (code, res_header w)\<rparr>)"

definition res_Write :: "string \<Rightarrow> response \<Rightarrow> response" where
  "res_Write b w = (let w1 = res_WriteHeader 200 w in w1\<lparr>res_body := res_body w1 @ b\<rparr>)"

datatype ResponseWriter =
    NetWriter response
  | AccessLogWriter (alw_ResponseWriter: ResponseWriter) (alw_status: int) (alw_bytes: int)

definition new_writer :: ResponseWriter where
  "new_writer = NetWriter \<lparr>res_header = Map.empty, res_interim = [], res_sent = None, res_body = []\<rparr>"

fun w_WriteHeader :: "int \<Rightarrow> ResponseWriter \<Rightarrow> ResponseWriter" where
  "w_WriteHeader code (NetWriter w) = NetWriter (res_WriteHeader code w)"
| "w_WriteHeader code (AccessLogWriter w status bytes) = AccessLogWriter (w_WriteHeader code w) code bytes"

fun w_Write :: "string \<Rightarrow> ResponseWriter \<Rightarrow> ResponseWriter" where
  "w_Write b (NetWriter w) = NetWriter (res_Write b w)"
| "w_Write b (AccessLogWriter w status bytes) =
     AccessLogWriter (w_Write b w) (if status = 0 then 200 else status) (bytes + int (length b))"

fun w_mapHeader :: "(header \<Rightarrow> header) \<Rightarrow> ResponseWriter \<Rightarrow> ResponseWriter" where
  "w_mapHeader f (NetWriter w) = NetWriter (w\<lparr>res_header := f (res_header w)\<rparr>)"
| "w_mapHeader f (AccessLogWriter w status bytes) = AccessLogWriter (w_mapHeader f w) status bytes"

text \<open>
  Taking over the connection to switch protocols, through \<open>http.ResponseController\<close>: the server's writer
  offers it, and the answer 101 goes out with the headers gathered so far. The access-log writer has
  neither a \<open>Hijack\<close> nor an \<open>Unwrap\<close> method, so the controller reports \<open>ErrNotSupported\<close>.
\<close>

fun w_Hijack :: "ResponseWriter \<Rightarrow> ResponseWriter option" where
  "w_Hijack (NetWriter w) = Some (NetWriter (res_WriteHeader 101 w))"
| "w_Hijack (AccessLogWriter w status bytes) = None"

text \<open>What the client gets: the writer of the connection below every wrapper.\<close>

fun conn_writer :: "ResponseWriter \<Rightarrow> response" where
  "conn_writer (NetWriter w) = w"
| "conn_writer (AccessLogWriter w status bytes) = conn_writer w"

definition rw_header :: "ResponseWriter \<Rightarrow> header" where
  "rw_header w = res_header (conn_writer w)"

definition rw_sent :: "ResponseWriter \<Rightarrow> (int \<times> header) option" where
  "rw_sent w = res_sent (conn_writer w)"

definition rw_body :: "ResponseWriter \<Rightarrow> string" where
  "rw_body w = res_body (conn_writer w)"

text \<open>\<open>http.Error\<close> on any response writer, given by its operations.\<close>

definition http_Error_on ::
    "((header \<Rightarrow> header) \<Rightarrow> 'w \<Rightarrow> 'w) \<Rightarrow> (int \<Rightarrow> 'w \<Rightarrow> 'w) \<Rightarrow> (string \<Rightarrow> 'w \<Rightarrow> 'w) \<Rightarrow> string \<Rightarrow> int \<Rightarrow> 'w \<Rightarrow> 'w" where
  "http_Error_on mapHeader writeHeader wr msg code w =
     wr (msg @ [CHR 0x0A])
       (writeHeader code
         (mapHeader
           (header_Set ''X-Content-Type-Options'' ''nosniff'' \<circ>
            header_Set ''Content-Type'' ''text/plain; charset=utf-8'' \<circ>
            header_Del ''Content-Length'') w))"

definition http_Error :: "string \<Rightarrow> int \<Rightarrow> ResponseWriter \<Rightarrow> ResponseWriter" where
  "http_Error msg code w = http_Error_on w_mapHeader w_WriteHeader w_Write msg code w"

section \<open>Cookies\<close>

definition cookieValueByte :: "char \<Rightarrow> bool" where
  "cookieValueByte c \<longleftrightarrow> 0x20 \<le> (of_char c :: nat) \<and> (of_char c :: nat) < 0x7F \<and>
     c \<noteq> CHR 0x22 \<and> c \<noteq> CHR '';'' \<and> c \<noteq> CHR 0x5C"

definition sanitizeCookieValue :: "string \<Rightarrow> string" where
  "sanitizeCookieValue v =
     (let v1 = filter cookieValueByte v
      in if v1 \<noteq> [] \<and> (CHR '' '' \<in> set v1 \<or> CHR '','' \<in> set v1)
         then CHR 0x22 # v1 @ [CHR 0x22] else v1)"

text \<open>\<open>Cookie.String\<close> for a cookie with path \<open>/\<close>, \<open>HttpOnly\<close> and \<open>SameSite=Lax\<close>; empty for an invalid name.\<close>

definition cookieString :: "string \<Rightarrow> string \<Rightarrow> int \<Rightarrow> string" where
  "cookieString name val maxAge =
     (if name = [] \<or> \<not> list_all is_token_char name then []
      else name @ ''='' @ sanitizeCookieValue val @ ''; Path=/'' @
        (if maxAge > 0 then ''; Max-Age='' @ itoa (nat maxAge)
         else if maxAge < 0 then ''; Max-Age=0'' else []) @
        ''; HttpOnly; SameSite=Lax'')"

definition SetCookie :: "string \<Rightarrow> string \<Rightarrow> int \<Rightarrow> ResponseWriter \<Rightarrow> ResponseWriter" where
  "SetCookie name val maxAge w =
     (let v = cookieString name val maxAge
      in if v \<noteq> [] then w_mapHeader (header_Add ''Set-Cookie'' v) w else w)"

text \<open>\<open>int(d.Seconds())\<close> for a duration that is not negative.\<close>

definition int_Seconds :: "duration \<Rightarrow> int" where
  "int_Seconds d = \<lfloor>f64 (of_int (d div second) + f64 (of_int (d mod second) / 1000000000))\<rfloor>"

section \<open>Facts\<close>

lemma conn_writer_ops [simp]:
  "conn_writer (w_WriteHeader c w) = res_WriteHeader c (conn_writer w)"
  "conn_writer (w_Write b w) = res_Write b (conn_writer w)"
  "conn_writer (w_mapHeader f w) = (conn_writer w)\<lparr>res_header := f (res_header (conn_writer w))\<rparr>"
  by (induction w) simp_all

lemma mapHeader_frame [simp]:
  "rw_sent (w_mapHeader f w) = rw_sent w" "rw_body (w_mapHeader f w) = rw_body w"
  "rw_header (w_mapHeader f w) = f (rw_header w)"
  by (simp_all add: rw_sent_def rw_body_def rw_header_def)

lemma WriteHeader_frame [simp]:
  "rw_header (w_WriteHeader c w) = rw_header w" "rw_body (w_WriteHeader c w) = rw_body w"
  "rw_sent (w_WriteHeader c w) =
     (case rw_sent w of None \<Rightarrow> if informational c then None else Some (c, rw_header w) | Some s \<Rightarrow> Some s)"
  by (simp_all add: rw_sent_def rw_body_def rw_header_def res_WriteHeader_def split: option.splits)

lemma Write_frame [simp]:
  "rw_header (w_Write b w) = rw_header w" "rw_body (w_Write b w) = rw_body w @ b"
  "rw_sent (w_Write b w) = (case rw_sent w of None \<Rightarrow> Some (200, rw_header w) | Some s \<Rightarrow> Some s)"
  by (simp_all add: rw_sent_def rw_body_def rw_header_def res_Write_def res_WriteHeader_def Let_def split: option.splits)

lemma Hijack_sent: "rw_sent w = None \<Longrightarrow> w_Hijack w = Some w1 \<Longrightarrow> map_option fst (rw_sent w1) = Some 101"
  by (cases w) (auto simp: rw_sent_def res_WriteHeader_def)

lemma new_writer_frame [simp]:
  "rw_sent new_writer = None" "rw_body new_writer = []" "rw_header new_writer = Map.empty"
  by (simp_all add: new_writer_def rw_sent_def rw_body_def rw_header_def)

lemma http_Error_status:
  "rw_sent w = None \<Longrightarrow> \<not> informational code \<Longrightarrow> map_option fst (rw_sent (http_Error msg code w)) = Some code"
  by (auto simp add: http_Error_def http_Error_on_def)

lemma http_Error_keeps: "rw_sent w = Some s \<Longrightarrow> rw_sent (http_Error msg code w) = Some s"
  by (simp add: http_Error_def http_Error_on_def)

lemma header_Get_Set [simp]: "header_Get (header_Set n v h) n = v"
  by (simp add: header_Get_def header_Values_def header_Set_def)

lemma header_Values_Del [simp]: "header_Values (header_Del n h) n = []"
  by (simp add: header_Values_def header_Del_def)


section \<open>The interface of a response writer\<close>

text \<open>
  What code that answers a request relies on: the first final status written is the one that counts, a write
  without one means 200, bodies are appended, and header changes touch nothing else. \<open>ok\<close> is the
  writer's own invariant.
\<close>

locale response_writer =
  fixes mapHeader :: "(header \<Rightarrow> header) \<Rightarrow> 'w \<Rightarrow> 'w"
    and writeHeader :: "int \<Rightarrow> 'w \<Rightarrow> 'w"
    and wr :: "string \<Rightarrow> 'w \<Rightarrow> 'w"
    and status :: "'w \<Rightarrow> int option"
    and hdr :: "'w \<Rightarrow> header"
    and body :: "'w \<Rightarrow> string"
    and ok :: "'w \<Rightarrow> bool"
  assumes mapHeader_laws: "hdr (mapHeader f w) = f (hdr w)" "status (mapHeader f w) = status w"
      "body (mapHeader f w) = body w" "ok w \<Longrightarrow> ok (mapHeader f w)"
    and writeHeader_laws: "\<not> informational c \<Longrightarrow> status (writeHeader c w) = (case status w of None \<Rightarrow> Some c | Some s \<Rightarrow> Some s)"
      "hdr (writeHeader c w) = hdr w" "body (writeHeader c w) = body w" "ok w \<Longrightarrow> ok (writeHeader c w)"
    and wr_laws: "ok w \<Longrightarrow> status (wr b w) = (case status w of None \<Rightarrow> Some 200 | Some s \<Rightarrow> Some s)"
      "hdr (wr b w) = hdr w" "body (wr b w) = body w @ b" "ok w \<Longrightarrow> ok (wr b w)"
begin

lemma error_answer:
  assumes "ok w" "\<not> informational code"
  shows "status (http_Error_on mapHeader writeHeader wr msg code w) =
      (case status w of None \<Rightarrow> Some code | Some s \<Rightarrow> Some s)"
    and "body (http_Error_on mapHeader writeHeader wr msg code w) = body w @ msg @ [CHR 0x0A]"
    and "ok (http_Error_on mapHeader writeHeader wr msg code w)"
  using assms unfolding http_Error_on_def
  by (auto simp: wr_laws writeHeader_laws mapHeader_laws simp del: informational_def split: option.splits)

lemma full_answer:
  assumes "ok w" "\<not> informational code"
  shows "status (wr b (writeHeader code (mapHeader f w))) = (case status w of None \<Rightarrow> Some code | Some s \<Rightarrow> Some s)"
    and "hdr (wr b (writeHeader code (mapHeader f w))) = f (hdr w)"
    and "body (wr b (writeHeader code (mapHeader f w))) = body w @ b"
  using assms by (auto simp: wr_laws writeHeader_laws mapHeader_laws simp del: informational_def split: option.splits)

end

interpretation net_writer: response_writer w_mapHeader w_WriteHeader w_Write
  "\<lambda>w. map_option fst (rw_sent w)" rw_header rw_body "\<lambda>_. True"
  by unfold_locales (auto split: option.splits)

end
