(* ===== verification/Stores.thy ===== *)
theory Stores
  imports Json Http
begin

text \<open>
  The control plane's settings stores (\<open>internal/controlplane/overrides.go\<close>, \<open>algorithm.go\<close>, \<open>sticky.go\<close>,
  \<open>ratelimit.go\<close>): per-group settings in memory, each store persisted to one JSON file.

  A store is a record of its path and its map. A Go map is an association list with distinct keys; a
  nil map, which only a file that holds \<open>null\<close> gives, is \<open>None\<close>. An operation takes the store together
  with the file system and the world of its \<open>persist\<close> (\<open>Json\<close>), and its outcome is a value: done, an
  error, or a panic on the nil map.

  The locale \<open>settings_store\<close> is the contract the server relies on; every store interprets it.
\<close>

section \<open>Parts the stores share\<close>

datatype storeError = UnknownAlgorithm | PersistFailed sysCall

datatype storeResult = StoreOk | StoreErr storeError | StorePanic

definition persistResult :: "sysCall option \<Rightarrow> storeResult" where
  "persistResult err = (case err of None \<Rightarrow> StoreOk | Some c \<Rightarrow> StoreErr (PersistFailed c))"

definition mapGet :: "(string \<times> 'v) list option \<Rightarrow> string \<Rightarrow> 'v option" where
  "mapGet d k = (case d of None \<Rightarrow> None | Some m \<Rightarrow> map_of m k)"

text \<open>The load of the constructors: an absent, unreadable or malformed file is an empty map.\<close>

definition loadFile :: "(json \<Rightarrow> (string \<times> 'v) list option option) \<Rightarrow> string \<Rightarrow> filesystem \<Rightarrow> (string \<times> 'v) list option" where
  "loadFile dec path fs =
     (if path = [] then Some []
      else case fs path of
        Some (Doc doc) \<Rightarrow> (case dec doc of Some loaded \<Rightarrow> loaded | None \<Rightarrow> Some [])
      | _ \<Rightarrow> Some [])"

definition persistMap ::
    "('v \<Rightarrow> json) \<Rightarrow> persistEnv \<Rightarrow> string \<Rightarrow> (string \<times> 'v) list \<Rightarrow> filesystem \<Rightarrow> storeResult \<times> filesystem" where
  "persistMap enc env path m fs = (let (err, fs') = persistFile env path (jMap enc m) fs in (persistResult err, fs'))"

section \<open>Overrides\<close>

record Override =
  ov_Weight :: "int option"
  ov_Drained :: bool

record OverrideStore =
  os_path :: string
  os_data :: "(string \<times> (string \<times> Override) list option) list option"

definition jOverride :: "Override \<Rightarrow> json" where
  "jOverride ov = JObj (jOmitEmpty (ov_Weight ov = None) ''weight'' (JInt (the (ov_Weight ov))) @
     jField ''drained'' (JBool (ov_Drained ov)))"

definition dOverrideField :: "string \<Rightarrow> json \<Rightarrow> Override \<Rightarrow> Override option" where
  "dOverrideField k v ov =
     (if EqualFold k ''weight'' then
        (if v = JNull then Some (ov\<lparr>ov_Weight := None\<rparr>)
         else map_option (\<lambda>n. ov\<lparr>ov_Weight := Some n\<rparr>) (dInt32 v 0))
      else if EqualFold k ''drained'' then map_option (\<lambda>b. ov\<lparr>ov_Drained := b\<rparr>) (dBool v (ov_Drained ov))
      else Some ov)"

definition dOverride :: "json \<Rightarrow> Override option" where
  "dOverride doc = dStruct dOverrideField doc \<lparr>ov_Weight = None, ov_Drained = False\<rparr>"

definition NewOverrideStore :: "string \<Rightarrow> filesystem \<Rightarrow> OverrideStore" where
  "NewOverrideStore path fs = \<lparr>os_path = path, os_data = loadFile (dMap (dMap dOverride)) path fs\<rparr>"

definition innerMap :: "(string \<times> Override) list option option \<Rightarrow> (string \<times> Override) list" where
  "innerMap x = (case x of Some (Some m) \<Rightarrow> m | _ \<Rightarrow> [])"

definition os_GroupOverrides :: "OverrideStore \<Rightarrow> string \<Rightarrow> (string \<times> Override) list" where
  "os_GroupOverrides s g = innerMap (mapGet (os_data s) g)"

definition os_cloneLocked :: "OverrideStore \<Rightarrow> (string \<times> (string \<times> Override) list) list" where
  "os_cloneLocked s =
     (case os_data s of None \<Rightarrow> [] | Some m \<Rightarrow> map (\<lambda>(g, addrs). (g, innerMap (Some addrs))) m)"

definition os_persist ::
    "persistEnv \<Rightarrow> OverrideStore \<Rightarrow> (string \<times> (string \<times> Override) list) list \<Rightarrow> filesystem \<Rightarrow> storeResult \<times> filesystem" where
  "os_persist env s snapshot fs = persistMap (jMap jOverride) env (os_path s) snapshot fs"

definition os_Set ::
    "persistEnv \<Rightarrow> string \<Rightarrow> string \<Rightarrow> int option \<Rightarrow> bool \<Rightarrow> OverrideStore \<times> filesystem
       \<Rightarrow> storeResult \<times> OverrideStore \<times> filesystem" where
  "os_Set env g address weight drained sf =
     (let (s, fs) = sf
      in case os_data s of
           None \<Rightarrow> (StorePanic, s, fs)
         | Some m \<Rightarrow>
             (let ov = \<lparr>ov_Weight = weight, ov_Drained = drained\<rparr>;
                  s1 = s\<lparr>os_data := Some (AList.update g (Some (AList.update address ov (innerMap (map_of m g)))) m)\<rparr>;
                  (res, fs1) = os_persist env s1 (os_cloneLocked s1) fs
              in (res, s1, fs1)))"

definition os_Clear ::
    "persistEnv \<Rightarrow> string \<Rightarrow> string \<Rightarrow> OverrideStore \<times> filesystem \<Rightarrow> storeResult \<times> OverrideStore \<times> filesystem" where
  "os_Clear env g address sf =
     (let (s, fs) = sf;
          s1 = (case os_data s of
                  None \<Rightarrow> s
                | Some m \<Rightarrow>
                    (case map_of m g of
                       Some (Some addrs) \<Rightarrow>
                         (let addrs1 = AList.delete address addrs
                          in if addrs1 = [] then s\<lparr>os_data := Some (AList.delete g m)\<rparr>
                             else s\<lparr>os_data := Some (AList.update g (Some addrs1) m)\<rparr>)
                     | _ \<Rightarrow> s));
          (res, fs1) = os_persist env s1 (os_cloneLocked s1) fs
      in (res, s1, fs1))"

section \<open>Algorithms\<close>

text \<open>The control plane keeps an algorithm as the string it was given, which a file may set to anything.\<close>

definition ValidAlgorithms :: "string list" where
  "ValidAlgorithms = [''round_robin'', ''least_connections'', ''random'', ''p2c'', ''consistent_hash'']"

definition IsValidAlgorithm :: "string \<Rightarrow> bool" where
  "IsValidAlgorithm a \<longleftrightarrow> list_ex (\<lambda>v. v = a) ValidAlgorithms"

record AlgorithmStore =
  as_path :: string
  as_data :: "(string \<times> string) list option"

definition NewAlgorithmStore :: "string \<Rightarrow> filesystem \<Rightarrow> AlgorithmStore" where
  "NewAlgorithmStore path fs = \<lparr>as_path = path, as_data = loadFile (dMap (\<lambda>v. dStr v [])) path fs\<rparr>"

definition as_Get :: "AlgorithmStore \<Rightarrow> string \<Rightarrow> string" where
  "as_Get s g =
     (case mapGet (as_data s) g of
        Some a \<Rightarrow> if IsValidAlgorithm a then a else ''round_robin''
      | None \<Rightarrow> ''round_robin'')"

definition as_persist :: "persistEnv \<Rightarrow> AlgorithmStore \<Rightarrow> (string \<times> string) list \<Rightarrow> filesystem \<Rightarrow> storeResult \<times> filesystem" where
  "as_persist env s snapshot fs = persistMap JStr env (as_path s) snapshot fs"

definition as_Set ::
    "persistEnv \<Rightarrow> string \<Rightarrow> string \<Rightarrow> AlgorithmStore \<times> filesystem \<Rightarrow> storeResult \<times> AlgorithmStore \<times> filesystem" where
  "as_Set env g algorithm sf =
     (let (s, fs) = sf
      in if \<not> IsValidAlgorithm algorithm then (StoreErr UnknownAlgorithm, s, fs)
         else case as_data s of
           None \<Rightarrow> (StorePanic, s, fs)
         | Some m \<Rightarrow>
             (let snapshot = AList.update g algorithm m;
                  s1 = s\<lparr>as_data := Some snapshot\<rparr>;
                  (res, fs1) = as_persist env s1 snapshot fs
              in (res, s1, fs1)))"

section \<open>Sticky sessions\<close>

record cpStickyConfig =
  cs_Enabled :: bool
  cs_CookieName :: string
  cs_TTL :: duration

definition zeroSticky :: cpStickyConfig where
  "zeroSticky = \<lparr>cs_Enabled = False, cs_CookieName = [], cs_TTL = 0\<rparr>"

definition effectiveCookieName :: "cpStickyConfig \<Rightarrow> string" where
  "effectiveCookieName c = (if cs_CookieName c = [] then ''jb_affinity'' else cs_CookieName c)"

definition effectiveTTL :: "cpStickyConfig \<Rightarrow> duration" where
  "effectiveTTL c = (if cs_TTL c \<le> 0 then 30 * minute else cs_TTL c)"

definition TTLMinutes :: "cpStickyConfig \<Rightarrow> int" where
  "TTLMinutes c =
     (let d = effectiveTTL c in \<lfloor>f64 (of_int (d div minute) + f64 (of_int (d mod minute) / 60000000000))\<rfloor>)"

definition CookieDisplayName :: "cpStickyConfig \<Rightarrow> string" where
  "CookieDisplayName c = effectiveCookieName c"

record StickyStore =
  ss_path :: string
  ss_data :: "(string \<times> cpStickyConfig) list option"

definition jSticky :: "cpStickyConfig \<Rightarrow> json" where
  "jSticky c = JObj (jField ''enabled'' (JBool (cs_Enabled c)) @
     jOmitEmpty (cs_CookieName c = []) ''cookieName'' (JStr (cs_CookieName c)) @
     jOmitEmpty (cs_TTL c = 0) ''ttl'' (JInt (cs_TTL c)))"

definition dStickyField :: "string \<Rightarrow> json \<Rightarrow> cpStickyConfig \<Rightarrow> cpStickyConfig option" where
  "dStickyField k v c =
     (if EqualFold k ''enabled'' then map_option (\<lambda>b. c\<lparr>cs_Enabled := b\<rparr>) (dBool v (cs_Enabled c))
      else if EqualFold k ''cookieName'' then map_option (\<lambda>n. c\<lparr>cs_CookieName := n\<rparr>) (dStr v (cs_CookieName c))
      else if EqualFold k ''ttl'' then map_option (\<lambda>n. c\<lparr>cs_TTL := n\<rparr>) (dInt64 v (cs_TTL c))
      else Some c)"

definition dSticky :: "json \<Rightarrow> cpStickyConfig option" where
  "dSticky doc = dStruct dStickyField doc zeroSticky"

definition NewStickyStore :: "string \<Rightarrow> filesystem \<Rightarrow> StickyStore" where
  "NewStickyStore path fs = \<lparr>ss_path = path, ss_data = loadFile (dMap dSticky) path fs\<rparr>"

definition ss_Get :: "StickyStore \<Rightarrow> string \<Rightarrow> cpStickyConfig" where
  "ss_Get s g = (case mapGet (ss_data s) g of Some c \<Rightarrow> c | None \<Rightarrow> zeroSticky)"

definition ss_persist :: "persistEnv \<Rightarrow> StickyStore \<Rightarrow> (string \<times> cpStickyConfig) list \<Rightarrow> filesystem \<Rightarrow> storeResult \<times> filesystem" where
  "ss_persist env s snapshot fs = persistMap jSticky env (ss_path s) snapshot fs"

definition ss_Set ::
    "persistEnv \<Rightarrow> string \<Rightarrow> cpStickyConfig \<Rightarrow> StickyStore \<times> filesystem \<Rightarrow> storeResult \<times> StickyStore \<times> filesystem" where
  "ss_Set env g cfg sf =
     (let (s, fs) = sf
      in case ss_data s of
           None \<Rightarrow> (StorePanic, s, fs)
         | Some m \<Rightarrow>
             (let snapshot = AList.update g cfg m;
                  s1 = s\<lparr>ss_data := Some snapshot\<rparr>;
                  (res, fs1) = ss_persist env s1 snapshot fs
              in (res, s1, fs1)))"

section \<open>Rate limits\<close>

record cpRateLimitConfig =
  cr_Enabled :: bool
  cr_RPS :: rat
  cr_Burst :: int

definition zeroRateLimit :: cpRateLimitConfig where
  "zeroRateLimit = \<lparr>cr_Enabled = False, cr_RPS = 0, cr_Burst = 0\<rparr>"

definition effectiveRPS :: "cpRateLimitConfig \<Rightarrow> rat" where
  "effectiveRPS c = (if cr_RPS c \<le> 0 then 10 else cr_RPS c)"

text \<open>The conversion of a float beyond 64 bits gives the smallest integer, as on amd64.\<close>

definition int_of_float :: "rat \<Rightarrow> int" where
  "int_of_float f = (if is_int64 \<lfloor>f\<rfloor> then \<lfloor>f\<rfloor> else min_int64)"

definition effectiveBurst :: "cpRateLimitConfig \<Rightarrow> int" where
  "effectiveBurst c =
     (if cr_Burst c \<le> 0 then (let b = int_of_float (effectiveRPS c) in if b < 1 then 1 else b) else cr_Burst c)"

definition RPSDisplay :: "cpRateLimitConfig \<Rightarrow> rat" where
  "RPSDisplay c = effectiveRPS c"

definition BurstDisplay :: "cpRateLimitConfig \<Rightarrow> int" where
  "BurstDisplay c = effectiveBurst c"

record RateLimitStore =
  rs_path :: string
  rs_data :: "(string \<times> cpRateLimitConfig) list option"

definition jRateLimit :: "cpRateLimitConfig \<Rightarrow> json" where
  "jRateLimit c = JObj (jField ''enabled'' (JBool (cr_Enabled c)) @
     jOmitEmpty (cr_RPS c = 0) ''rps'' (jFloat (cr_RPS c)) @
     jOmitEmpty (cr_Burst c = 0) ''burst'' (JInt (cr_Burst c)))"

definition dRateLimitField :: "string \<Rightarrow> json \<Rightarrow> cpRateLimitConfig \<Rightarrow> cpRateLimitConfig option" where
  "dRateLimitField k v c =
     (if EqualFold k ''enabled'' then map_option (\<lambda>b. c\<lparr>cr_Enabled := b\<rparr>) (dBool v (cr_Enabled c))
      else if EqualFold k ''rps'' then map_option (\<lambda>x. c\<lparr>cr_RPS := x\<rparr>) (dFloat v (cr_RPS c))
      else if EqualFold k ''burst'' then map_option (\<lambda>n. c\<lparr>cr_Burst := n\<rparr>) (dInt64 v (cr_Burst c))
      else Some c)"

definition dRateLimit :: "json \<Rightarrow> cpRateLimitConfig option" where
  "dRateLimit doc = dStruct dRateLimitField doc zeroRateLimit"

definition NewRateLimitStore :: "string \<Rightarrow> filesystem \<Rightarrow> RateLimitStore" where
  "NewRateLimitStore path fs = \<lparr>rs_path = path, rs_data = loadFile (dMap dRateLimit) path fs\<rparr>"

definition rs_Get :: "RateLimitStore \<Rightarrow> string \<Rightarrow> cpRateLimitConfig" where
  "rs_Get s g = (case mapGet (rs_data s) g of Some c \<Rightarrow> c | None \<Rightarrow> zeroRateLimit)"

definition rs_persist :: "persistEnv \<Rightarrow> RateLimitStore \<Rightarrow> (string \<times> cpRateLimitConfig) list \<Rightarrow> filesystem \<Rightarrow> storeResult \<times> filesystem" where
  "rs_persist env s snapshot fs = persistMap jRateLimit env (rs_path s) snapshot fs"

definition rs_Set ::
    "persistEnv \<Rightarrow> string \<Rightarrow> cpRateLimitConfig \<Rightarrow> RateLimitStore \<times> filesystem \<Rightarrow> storeResult \<times> RateLimitStore \<times> filesystem" where
  "rs_Set env g cfg sf =
     (let (s, fs) = sf
      in case rs_data s of
           None \<Rightarrow> (StorePanic, s, fs)
         | Some m \<Rightarrow>
             (let snapshot = AList.update g cfg m;
                  s1 = s\<lparr>rs_data := Some snapshot\<rparr>;
                  (res, fs1) = rs_persist env s1 snapshot fs
              in (res, s1, fs1)))"

section \<open>The contract\<close>

text \<open>
  What the server relies on: a stored setting is the one read back, other settings stay, a failed write
  leaves the file as it was, and a store built anew from the file of a successful write reads like the
  one that wrote it.
\<close>

locale settings_store =
  fixes get :: "'s \<Rightarrow> 'k \<Rightarrow> 'v"
    and put :: "persistEnv \<Rightarrow> 'k \<Rightarrow> 'v \<Rightarrow> 's \<times> filesystem \<Rightarrow> storeResult \<times> 's \<times> filesystem"
    and path :: "'s \<Rightarrow> string"
    and reload :: "string \<Rightarrow> filesystem \<Rightarrow> 's"
    and ok :: "'s \<Rightarrow> bool"
    and valid :: "'v \<Rightarrow> bool"
  assumes put_get: "ok s \<Longrightarrow> valid v \<Longrightarrow> put env k v (s, fs) = (res, s', fs') \<Longrightarrow>
      get s' k' = (if k' = k then v else get s k')"
    and put_ok: "ok s \<Longrightarrow> valid v \<Longrightarrow> put env k v (s, fs) = (res, s', fs') \<Longrightarrow>
      ok s' \<and> path s' = path s \<and> res \<noteq> StorePanic"
    and put_saved: "ok s \<Longrightarrow> valid v \<Longrightarrow> put env k v (s, fs) = (StoreOk, s', fs') \<Longrightarrow>
      path s \<noteq> [] \<Longrightarrow> pe_tmp env \<noteq> path s \<Longrightarrow> get (reload (path s) fs') k' = get s' k'"
    and put_failed: "ok s \<Longrightarrow> valid v \<Longrightarrow> put env k v (s, fs) = (StoreErr e, s', fs') \<Longrightarrow>
      pe_tmp env \<noteq> path s \<Longrightarrow> fs' (path s) = fs (path s)"
    and put_other: "ok s \<Longrightarrow> valid v \<Longrightarrow> put env k v (s, fs) = (res, s', fs') \<Longrightarrow>
      p \<noteq> path s \<Longrightarrow> p \<noteq> pe_tmp env \<Longrightarrow> fs' p = fs p"
    and reload_cong: "fs p = fs' p \<Longrightarrow> reload p fs = reload p fs'"
begin

lemma put_restart:
  assumes "ok s" "valid v" "put env k v (s, fs) = (StoreOk, s', fs')" "path s \<noteq> []" "pe_tmp env \<noteq> path s"
    and "fs'' (path s) = fs' (path s)"
  shows "get (reload (path s) fs'') k' = (if k' = k then v else get s k')"
  using put_saved [OF assms(1-5)] put_get [OF assms(1-3)] reload_cong [where p = "path s" and fs = fs'' and fs' = fs', OF assms(6)] by simp

lemma run_last_write:
  assumes "ok s" "\<forall>(env, k, v) \<in> set ops. valid v"
  shows "ok (fst (foldl (\<lambda>sf (env, k, v). snd (put env k v sf)) (s, fs) ops)) \<and>
    path (fst (foldl (\<lambda>sf (env, k, v). snd (put env k v sf)) (s, fs) ops)) = path s \<and>
    get (fst (foldl (\<lambda>sf (env, k, v). snd (put env k v sf)) (s, fs) ops)) k' =
      (case map_of (rev (map snd ops)) k' of Some v \<Rightarrow> v | None \<Rightarrow> get s k')"
  using assms(2)
proof (induction ops rule: rev_induct)
  case (snoc op ops)
  obtain env k v where op: "op = (env, k, v)" by (cases op)
  obtain s1 fs1 where f: "foldl (\<lambda>sf (env, k, v). snd (put env k v sf)) (s, fs) ops = (s1, fs1)" by fastforce
  obtain res s2 fs2 where p: "put env k v (s1, fs1) = (res, s2, fs2)" by (cases "put env k v (s1, fs1)")
  have i: "ok s1" "path s1 = path s" "get s1 k' = (case map_of (rev (map snd ops)) k' of Some v \<Rightarrow> v | None \<Rightarrow> get s k')"
    using snoc by (auto simp: f)
  have "valid v" using snoc.prems by (auto simp: op)
  then show ?case using put_get [OF i(1) _ p] put_ok [OF i(1) _ p] i(2,3) by (simp add: f op p)
qed (use assms(1) in simp)

text \<open>Whatever was written before, and however it ended, a restart after a successful write reads the last writes.\<close>

lemma run_restart:
  assumes "ok s" "\<forall>(env, k, v) \<in> set ops. valid v" "path s \<noteq> []"
    and "foldl (\<lambda>sf (env, k, v). snd (put env k v sf)) (s, fs) ops = (s1, fs1)"
    and "valid v" "put env k v (s1, fs1) = (StoreOk, s2, fs2)" "pe_tmp env \<noteq> path s"
  shows "get (reload (path s) fs2) k' =
    (case map_of ((k, v) # rev (map snd ops)) k' of Some v \<Rightarrow> v | None \<Rightarrow> get s k')"
proof -
  have r: "ok s1" "path s1 = path s" "get s1 k' = (case map_of (rev (map snd ops)) k' of Some v \<Rightarrow> v | None \<Rightarrow> get s k')"
    using run_last_write [OF assms(1,2), of fs k'] by (simp_all add: assms(4))
  have "get (reload (path s) fs2) k' = get s2 k'"
    using put_saved [OF r(1) assms(5,6)] assms(3,7) r(2) by simp
  also have "\<dots> = (if k' = k then v else get s1 k')" by (rule put_get [OF r(1) assms(5,6)])
  finally show ?thesis by (simp add: r(3))
qed

end

section \<open>The stores meet the contract\<close>

definition goodMap :: "('v \<Rightarrow> bool) \<Rightarrow> (string \<times> 'v) list option \<Rightarrow> bool" where
  "goodMap P d \<longleftrightarrow> (case d of None \<Rightarrow> False | Some m \<Rightarrow> distinct (map fst m) \<and> list_all (\<lambda>(k, v). P v) m)"

lemma goodMapE:
  assumes "goodMap P d"
  obtains m where "d = Some m" "distinct (map fst m)" "\<forall>(k, v) \<in> set m. P v"
  using assms by (auto simp: goodMap_def list_all_iff split: option.splits)

lemma set_update_values: "\<forall>(k, v) \<in> set m. P v \<Longrightarrow> P v \<Longrightarrow> \<forall>(k, v) \<in> set (AList.update k0 v m). P v"
  by (induction m) auto

lemma goodMap_update: "goodMap P (Some m) \<Longrightarrow> P v \<Longrightarrow> goodMap P (Some (AList.update k v m))"
  using set_update_values [of m P v k] by (auto simp: goodMap_def list_all_iff distinct_update)

lemma persistMap_ok: "persistMap enc env path m fs = (StoreOk, fs') \<longleftrightarrow> persistFile env path (jMap enc m) fs = (None, fs')"
  by (auto simp: persistMap_def persistResult_def split: prod.splits option.splits)

lemma persistMap_failed:
  "pe_tmp env \<noteq> path \<Longrightarrow> persistMap enc env path m fs = (StoreErr e, fs') \<Longrightarrow> fs' path = fs path"
  by (auto simp: persistMap_def persistResult_def split: prod.splits option.splits dest: persistFile_err)

lemma persistMap_other:
  "p \<noteq> path \<Longrightarrow> p \<noteq> pe_tmp env \<Longrightarrow> persistMap enc env path m fs = (res, fs') \<Longrightarrow> fs' p = fs p"
  by (auto simp: persistMap_def split: prod.splits dest: persistFile_other)

lemma loadFile_cong: "fs p = fs' p \<Longrightarrow> loadFile dec p fs = loadFile dec p fs'"
  by (simp add: loadFile_def)

lemma persistMap_no_panic: "persistMap enc env path m fs \<noteq> (StorePanic, fs')"
  by (auto simp: persistMap_def persistResult_def split: prod.splits option.splits)

lemma load_persisted:
  assumes "path \<noteq> []" "pe_tmp env \<noteq> path" "persistMap enc env path m fs = (StoreOk, fs')"
    and "distinct (map fst m)" "\<forall>(k, v) \<in> set m. dec (enc v) = Some (conv v)"
  shows "mapGet (loadFile (dMap dec) path fs') k = map_option conv (map_of m k)"
proof -
  have "fs' path = Some (Doc (jMap enc m))" using assms(1-3) persistFile_ok by (simp add: persistMap_ok)
  moreover obtain m' where "dMap dec (jMap enc m) = Some (Some m')" "\<forall>k. map_of m' k = map_option conv (map_of m k)"
    using dMap_jMap [of m dec enc conv] assms(4,5) by blast
  ultimately show ?thesis using assms(1) by (simp add: loadFile_def mapGet_def)
qed

lemma load_persisted_id:
  "path \<noteq> [] \<Longrightarrow> pe_tmp env \<noteq> path \<Longrightarrow> persistMap enc env path m fs = (StoreOk, fs') \<Longrightarrow>
    distinct (map fst m) \<Longrightarrow> \<forall>(k, v) \<in> set m. dec (enc v) = Some v \<Longrightarrow>
    mapGet (loadFile (dMap dec) path fs') k = map_of m k"
  using load_persisted [where conv = id and m = m and dec = dec and enc = enc] by (simp add: option.map_id)

subsection \<open>Codecs\<close>

lemma field_names [simp]:
  "\<not> EqualFold ''drained'' ''weight''" "\<not> EqualFold ''cookieName'' ''enabled''" "\<not> EqualFold ''ttl'' ''enabled''"
  "\<not> EqualFold ''ttl'' ''cookieName''" "\<not> EqualFold ''rps'' ''enabled''" "\<not> EqualFold ''burst'' ''enabled''"
  "\<not> EqualFold ''burst'' ''rps''"
  by code_simp+

definition validOverride :: "Override \<Rightarrow> bool" where
  "validOverride ov \<longleftrightarrow> (case ov_Weight ov of None \<Rightarrow> True | Some w \<Rightarrow> - (2 ^ 31) \<le> w \<and> w < 2 ^ 31)"

definition validSticky :: "cpStickyConfig \<Rightarrow> bool" where
  "validSticky c \<longleftrightarrow> is_int64 (cs_TTL c)"

definition validRateLimit :: "cpRateLimitConfig \<Rightarrow> bool" where
  "validRateLimit c \<longleftrightarrow> f64 (cr_RPS c) = cr_RPS c \<and> is_int64 (cr_Burst c)"

lemma override_roundtrip: "validOverride ov \<Longrightarrow> dOverride (jOverride ov) = Some ov"
  by (cases "ov_Weight ov")
     (simp_all add: dOverride_def jOverride_def dObj_append jOmitEmpty_def dOverrideField_def validOverride_def)

lemma sticky_roundtrip: "validSticky c \<Longrightarrow> dSticky (jSticky c) = Some c"
  by (cases "cs_CookieName c = []"; cases "cs_TTL c = 0")
     (simp_all add: dSticky_def jSticky_def dObj_append jOmitEmpty_def dStickyField_def validSticky_def zeroSticky_def
       int64_defs)

lemma rateLimit_roundtrip: "validRateLimit c \<Longrightarrow> dRateLimit (jRateLimit c) = Some c"
  by (cases "cr_RPS c = 0"; cases "cr_Burst c = 0")
     (simp_all add: dRateLimit_def jRateLimit_def dObj_append jOmitEmpty_def dRateLimitField_def validRateLimit_def
       zeroRateLimit_def int64_defs)

subsection \<open>Interpretations\<close>

lemma mapGet_update [simp]: "mapGet (Some (AList.update k v m)) k' = (if k' = k then Some v else map_of m k')"
  by (simp add: mapGet_def update_conv')

lemma IsValidAlgorithm_mem: "IsValidAlgorithm a \<longleftrightarrow> a \<in> set ValidAlgorithms"
  by (auto simp: IsValidAlgorithm_def list_ex_iff)

text \<open>
  Three of the stores keep one value per group and are built alike; what they share is proved once, for
  a store whose \<open>Set\<close> updates its map and then persists the copy.
\<close>

locale map_file_store =
  fixes get :: "'s \<Rightarrow> string \<Rightarrow> 'v"
    and put :: "persistEnv \<Rightarrow> string \<Rightarrow> 'v \<Rightarrow> 's \<times> filesystem \<Rightarrow> storeResult \<times> 's \<times> filesystem"
    and path :: "'s \<Rightarrow> string"
    and new :: "string \<Rightarrow> filesystem \<Rightarrow> 's"
    and data :: "'s \<Rightarrow> (string \<times> 'v) list option"
    and setData :: "(string \<times> 'v) list \<Rightarrow> 's \<Rightarrow> 's"
    and dflt :: "'v option \<Rightarrow> 'v"
    and enc :: "'v \<Rightarrow> json"
    and dec :: "json \<Rightarrow> 'v option"
    and good :: "'v \<Rightarrow> bool"
    and valid :: "'v \<Rightarrow> bool"
  assumes get_data: "get s k = dflt (mapGet (data s) k)"
    and put_data: "valid v \<Longrightarrow> data s = Some m \<Longrightarrow> put env k v (s, fs) =
      (let (res, fs1) = persistMap enc env (path s) (AList.update k v m) fs
       in (res, setData (AList.update k v m) s, fs1))"
    and data_laws: "data (setData m s) = Some m" "path (setData m s) = path s"
      "data (new p fs) = loadFile (dMap dec) p fs"
    and new_cong: "fs p = fs' p \<Longrightarrow> new p fs = new p fs'"
    and value_laws: "good v \<Longrightarrow> dec (enc v) = Some v" "valid v \<Longrightarrow> good v" "valid v \<Longrightarrow> dflt (Some v) = v"
begin

lemma put_split:
  assumes "goodMap good (data s)" "valid v" "put env k v (s, fs) = (res, s', fs')"
  obtains m where "data s = Some m" "s' = setData (AList.update k v m) s"
    "distinct (map fst (AList.update k v m))" "\<forall>(k, v) \<in> set (AList.update k v m). good v"
    "persistMap enc env (path s) (AList.update k v m) fs = (res, fs')"
proof -
  obtain m where m: "data s = Some m" "distinct (map fst m)" "\<forall>(k, v) \<in> set m. good v"
    using assms(1) by (rule goodMapE)
  obtain r fs1 where p: "persistMap enc env (path s) (AList.update k v m) fs = (r, fs1)" by fastforce
  have "\<forall>(k, v) \<in> set (AList.update k v m). good v"
    using m(3) value_laws(2) [OF assms(2)] by (rule set_update_values)
  with m p assms(3) show ?thesis by (intro that [of m]) (auto simp: put_data [OF assms(2) m(1)] distinct_update)
qed

end

sublocale map_file_store \<subseteq> settings_store get put path new "\<lambda>s. goodMap good (data s)" valid
proof
  fix s v env k fs res s' fs' k'
  assume a: "goodMap good (data s)" "valid v"
  show "get s' k' = (if k' = k then v else get s k')" if p: "put env k v (s, fs) = (res, s', fs')"
  proof (rule put_split [OF a p])
    fix m assume "data s = Some m" "s' = setData (AList.update k v m) s"
    then show ?thesis using a(2) by (simp add: get_data data_laws value_laws mapGet_def update_conv')
  qed
  show "goodMap good (data s') \<and> path s' = path s \<and> res \<noteq> StorePanic" if p: "put env k v (s, fs) = (res, s', fs')"
    using a by (rule_tac put_split [OF a p])
      (auto simp: data_laws value_laws persistMap_no_panic intro!: goodMap_update)
  show "get (new (path s) fs') k' = get s' k'"
    if p: "put env k v (s, fs) = (StoreOk, s', fs')" and t: "path s \<noteq> []" "pe_tmp env \<noteq> path s"
  proof (rule put_split [OF a p])
    fix m
    assume m: "s' = setData (AList.update k v m) s" "distinct (map fst (AList.update k v m))"
      "\<forall>(k, v) \<in> set (AList.update k v m). good v"
      "persistMap enc env (path s) (AList.update k v m) fs = (StoreOk, fs')"
    have "mapGet (loadFile (dMap dec) (path s) fs') k' = map_of (AList.update k v m) k'"
      using m(3) value_laws(1) by (intro load_persisted_id [OF t m(4,2)]) auto
    then show ?thesis by (simp add: get_data data_laws m(1) mapGet_def)
  qed
  show "fs' (path s) = fs (path s)" if p: "put env k v (s, fs) = (StoreErr e, s', fs')" and "pe_tmp env \<noteq> path s" for e
    using that(2) by (rule_tac put_split [OF a p]) (rule persistMap_failed)
  show "fs' p = fs p" if put: "put env k v (s, fs) = (res, s', fs')" and "p \<noteq> path s" "p \<noteq> pe_tmp env" for p
    using that(2,3) by (rule_tac put_split [OF a put]) (rule persistMap_other)
qed (rule new_cong)

interpretation alg_store: map_file_store as_Get as_Set as_path NewAlgorithmStore
  as_data "\<lambda>m s. s\<lparr>as_data := Some m\<rparr>"
  "\<lambda>x. case x of Some a \<Rightarrow> if IsValidAlgorithm a then a else ''round_robin'' | None \<Rightarrow> ''round_robin''"
  JStr "\<lambda>v. dStr v []" "\<lambda>_. True" IsValidAlgorithm
  by unfold_locales (simp_all add: as_Get_def as_Set_def as_persist_def NewAlgorithmStore_def Let_def, erule loadFile_cong)

interpretation sticky_store: map_file_store ss_Get ss_Set ss_path NewStickyStore
  ss_data "\<lambda>m s. s\<lparr>ss_data := Some m\<rparr>" "\<lambda>x. case x of Some c \<Rightarrow> c | None \<Rightarrow> zeroSticky"
  jSticky dSticky validSticky validSticky
  by unfold_locales (simp_all add: ss_Get_def ss_Set_def ss_persist_def NewStickyStore_def Let_def
      sticky_roundtrip, erule loadFile_cong)

interpretation rate_store: map_file_store rs_Get rs_Set rs_path NewRateLimitStore
  rs_data "\<lambda>m s. s\<lparr>rs_data := Some m\<rparr>" "\<lambda>x. case x of Some c \<Rightarrow> c | None \<Rightarrow> zeroRateLimit"
  jRateLimit dRateLimit validRateLimit validRateLimit
  by unfold_locales (simp_all add: rs_Get_def rs_Set_def rs_persist_def NewRateLimitStore_def Let_def
      rateLimit_roundtrip, erule loadFile_cong)

text \<open>Overrides are keyed by group and address; clearing one is storing none.\<close>

definition os_get :: "OverrideStore \<Rightarrow> string \<times> string \<Rightarrow> Override option" where
  "os_get s ga = map_of (os_GroupOverrides s (fst ga)) (snd ga)"

definition os_put ::
    "persistEnv \<Rightarrow> string \<times> string \<Rightarrow> Override option \<Rightarrow> OverrideStore \<times> filesystem
       \<Rightarrow> storeResult \<times> OverrideStore \<times> filesystem" where
  "os_put env ga v sf =
     (case v of
        None \<Rightarrow> os_Clear env (fst ga) (snd ga) sf
      | Some ov \<Rightarrow> os_Set env (fst ga) (snd ga) (ov_Weight ov) (ov_Drained ov) sf)"

definition goodInner :: "(string \<times> Override) list option \<Rightarrow> bool" where
  "goodInner x \<longleftrightarrow> goodMap validOverride (Some (innerMap (Some x)))"

definition goodOverrides :: "OverrideStore \<Rightarrow> bool" where
  "goodOverrides s \<longleftrightarrow> goodMap goodInner (os_data s)"

lemma goodMap_delete: "goodMap P (Some m) \<Longrightarrow> goodMap P (Some (AList.delete k m))"
  using distinct_delete [of m k] by (auto simp: goodMap_def list_all_iff AList.delete_eq)

lemma goodMap_lookup: "goodMap P (Some m) \<Longrightarrow> map_of m k = Some v \<Longrightarrow> P v"
  by (auto simp: goodMap_def list_all_iff dest: map_of_SomeD)

lemma goodInner_lookup: "goodMap goodInner (Some m) \<Longrightarrow> goodMap validOverride (Some (innerMap (map_of m g)))"
proof (cases "map_of m g")
  case None then show ?thesis by (simp add: innerMap_def goodMap_def)
next
  case (Some x)
  assume "goodMap goodInner (Some m)"
  then have "goodInner x" using Some by (rule goodMap_lookup)
  then show ?thesis by (simp add: Some goodInner_def)
qed

lemma os_Clear_mem:
  assumes "goodMap goodInner (Some m)" "os_data s = Some m" "os_Clear env g a (s, fs) = (res, s', fs')"
  obtains m' where "s' = s\<lparr>os_data := Some m'\<rparr>" "goodMap goodInner (Some m')"
    "\<And>g'. map_of (innerMap (map_of m' g')) = (if g' = g then (map_of (innerMap (map_of m g)))(a := None) else map_of (innerMap (map_of m g')))"
    "os_persist env s' (os_cloneLocked s') fs = (res, fs')"
proof (cases "\<exists>i. map_of m g = Some (Some i)")
  case True
  then obtain i where i: "map_of m g = Some (Some i)" by blast
  then have gi: "goodMap validOverride (Some i)" using goodInner_lookup [OF assms(1), of g] by (simp add: innerMap_def)
  have d: "map_of (AList.delete a i) = (map_of i)(a := None)" by (simp add: delete_conv')
  show thesis
  proof (cases "AList.delete a i = []")
    case True
    then have "(map_of i)(a := None) = Map.empty" using d by simp
    then show thesis using assms i True
      by (intro that [of "AList.delete g m"])
         (auto simp: os_Clear_def goodMap_delete delete_conv' innerMap_def Let_def split: prod.splits)
  next
    case False
    have "goodMap goodInner (Some (AList.update g (Some (AList.delete a i)) m))"
      using assms(1) gi by (intro goodMap_update) (simp_all add: goodInner_def innerMap_def goodMap_delete)
    then show thesis using assms i False
      by (intro that [of "AList.update g (Some (AList.delete a i)) m"])
         (auto simp: os_Clear_def update_conv' delete_conv' innerMap_def Let_def split: prod.splits)
  qed
next
  case False
  then have n: "innerMap (map_of m g) = []" by (auto simp: innerMap_def split: option.splits)
  have "os_persist env s (os_cloneLocked s) fs = (res, fs') \<and> s' = s"
    using False assms(2,3) by (auto simp: os_Clear_def split: option.splits prod.splits)
  then show thesis using assms(1,2) n by (intro that [of m]) auto
qed

lemma os_put_mem:
  assumes "goodOverrides s" "pred_option validOverride v" "os_put env (g, a) v (s, fs) = (res, s', fs')"
  obtains m m' where "os_data s = Some m" "s' = s\<lparr>os_data := Some m'\<rparr>" "goodMap goodInner (Some m')"
    "\<And>g'. map_of (innerMap (map_of m' g')) = (if g' = g then (map_of (innerMap (map_of m g)))(a := v) else map_of (innerMap (map_of m g')))"
    "persistMap (jMap jOverride) env (os_path s) (map (\<lambda>(g, addrs). (g, innerMap (Some addrs))) m') fs = (res, fs')"
proof -
  obtain m where m: "os_data s = Some m" "goodMap goodInner (Some m)"
    using assms(1) by (auto simp: goodOverrides_def goodMap_def split: option.splits)
  show thesis
  proof (cases v)
    case None
    with assms(3) have "os_Clear env g a (s, fs) = (res, s', fs')" by (simp add: os_put_def)
    then show thesis
    proof (rule os_Clear_mem [OF m(2,1)], goal_cases)
      case (1 m') then show ?case using m(1) None by (intro that [of m m']) (simp_all add: os_persist_def os_cloneLocked_def)
    qed
  next
    case (Some ov)
    have ov: "\<lparr>ov_Weight = ov_Weight ov, ov_Drained = ov_Drained ov\<rparr> = ov" by simp
    let ?m = "AList.update g (Some (AList.update a ov (innerMap (map_of m g)))) m"
    have "goodInner (Some (AList.update a ov (innerMap (map_of m g))))"
      using goodInner_lookup [OF m(2), of g] assms(2) Some by (simp add: goodInner_def innerMap_def goodMap_update)
    then have "goodMap goodInner (Some ?m)" by (rule goodMap_update [OF m(2)])
    then show thesis using assms(3) m Some
      by (intro that [of m ?m])
         (auto simp: os_put_def os_Set_def os_persist_def os_cloneLocked_def update_conv' innerMap_def Let_def ov
            simp del: Override.surjective split: prod.splits)
  qed
qed

lemma overrides_reloaded:
  assumes "goodMap goodInner (Some m)" "path \<noteq> []" "pe_tmp env \<noteq> path"
    and "persistMap (jMap jOverride) env path (map (\<lambda>(g, addrs). (g, innerMap (Some addrs))) m) fs = (StoreOk, fs')"
  shows "os_get (NewOverrideStore path fs') (g, a) = map_of (innerMap (map_of m g)) a"
proof -
  define conv where "conv = (\<lambda>i. the (dMap dOverride (jMap jOverride i)))"
  let ?clone = "map (\<lambda>(g, addrs). (g, innerMap (Some addrs))) m"
  have conv_ok: "dMap dOverride (jMap jOverride i) = Some (conv i) \<and> map_of (innerMap (Some (conv i))) = map_of i"
    if "goodMap validOverride (Some i)" for i
  proof -
    have "distinct (map fst i)" "\<forall>(k, v) \<in> set i. dOverride (jOverride v) = Some (id v)"
      using that by (auto simp: goodMap_def list_all_iff override_roundtrip)
    from dMap_jMap [OF this] show ?thesis by (auto simp: conv_def innerMap_def fun_eq_iff option.map_ident)
  qed
  have g: "\<forall>(k, i) \<in> set ?clone. goodMap validOverride (Some i)"
    using assms(1) unfolding goodMap_def [of goodInner] by (auto simp: goodInner_def list_all_iff)
  have "mapGet (loadFile (dMap (dMap dOverride)) path fs') g = map_option conv (map_of ?clone g)"
    using assms(1) g conv_ok by (intro load_persisted [OF assms(2-4)]) (auto simp: goodMap_def comp_def case_prod_beta)
  also have "map_of ?clone g = map_option (\<lambda>addrs. innerMap (Some addrs)) (map_of m g)" by (simp add: map_of_map)
  finally have f: "mapGet (loadFile (dMap (dMap dOverride)) path fs') g =
      map_option conv (map_option (\<lambda>addrs. innerMap (Some addrs)) (map_of m g))" .
  show ?thesis
  proof (cases "map_of m g")
    case None
    with f show ?thesis by (simp add: os_get_def os_GroupOverrides_def NewOverrideStore_def innerMap_def)
  next
    case (Some x)
    have "map_of (innerMap (Some (conv (innerMap (Some x))))) = map_of (innerMap (Some x))"
      using conv_ok [of "innerMap (Some x)"] goodInner_lookup [OF assms(1), of g] Some by simp
    with f Some show ?thesis by (simp add: os_get_def os_GroupOverrides_def NewOverrideStore_def)
  qed
qed

interpretation override_store: settings_store os_get os_put os_path NewOverrideStore goodOverrides
  "pred_option validOverride"
proof
  fix s :: OverrideStore and v env fs res s' fs' and k k' :: "string \<times> string"
  obtain g a where k: "k = (g, a)" by (cases k)
  obtain g' a' where k': "k' = (g', a')" by (cases k')
  assume a: "goodOverrides s" "pred_option validOverride v"
  show "os_get s' k' = (if k' = k then v else os_get s k')" if "os_put env k v (s, fs) = (res, s', fs')"
  proof (rule os_put_mem [OF a that [unfolded k]])
    fix m m'
    assume "os_data s = Some m" "s' = s\<lparr>os_data := Some m'\<rparr>"
      "\<And>g'. map_of (innerMap (map_of m' g')) = (if g' = g then (map_of (innerMap (map_of m g)))(a := v) else map_of (innerMap (map_of m g')))"
    then show ?thesis by (simp add: k k' os_get_def os_GroupOverrides_def mapGet_def)
  qed
  show "goodOverrides s' \<and> os_path s' = os_path s \<and> res \<noteq> StorePanic" if "os_put env k v (s, fs) = (res, s', fs')"
    by (rule os_put_mem [OF a that [unfolded k]]) (auto simp: goodOverrides_def persistMap_no_panic)
  show "os_get (NewOverrideStore (os_path s) fs') k' = os_get s' k'"
    if p: "os_put env k v (s, fs) = (StoreOk, s', fs')" and t: "os_path s \<noteq> []" "pe_tmp env \<noteq> os_path s"
  proof (rule os_put_mem [OF a p [unfolded k]])
    fix m m' assume m: "s' = s\<lparr>os_data := Some m'\<rparr>" "goodMap goodInner (Some m')"
      "persistMap (jMap jOverride) env (os_path s) (map (\<lambda>(g, addrs). (g, innerMap (Some addrs))) m') fs = (StoreOk, fs')"
    show ?thesis using overrides_reloaded [OF m(2) t m(3), of g' a']
      by (simp add: k' m(1) os_get_def os_GroupOverrides_def mapGet_def)
  qed
  show "fs' (os_path s) = fs (os_path s)" if p: "os_put env k v (s, fs) = (StoreErr e, s', fs')" and "pe_tmp env \<noteq> os_path s" for e
    using that(2) by (rule_tac os_put_mem [OF a p [unfolded k]]) (rule persistMap_failed)
  show "fs' p = fs p" if put: "os_put env k v (s, fs) = (res, s', fs')" and "p \<noteq> os_path s" "p \<noteq> pe_tmp env" for p
    using that(2,3) by (rule_tac os_put_mem [OF a put [unfolded k]]) (rule persistMap_other)
qed (simp add: NewOverrideStore_def, erule loadFile_cong)

section \<open>Properties\<close>

text \<open>
  Overrides survive a restart: start from any sound store with a file, apply any sequence of sets and
  clears, whether or not each reached the disk, and then one that succeeds; a control plane that starts
  anew on that file reads for every backend the last override written for it, or the original one.
\<close>

theorem overrides_survive_restart:
  assumes "goodOverrides s" "os_path s \<noteq> []" "\<forall>(env, k, v) \<in> set ops. pred_option validOverride v"
    and "foldl (\<lambda>sf (env, k, v). snd (os_put env k v sf)) (s, fs) ops = (s1, fs1)"
    and "pred_option validOverride v" "os_put env k v (s1, fs1) = (StoreOk, s2, fs2)" "pe_tmp env \<noteq> os_path s"
  shows "os_get (NewOverrideStore (os_path s) fs2) k' =
    (case map_of ((k, v) # rev (map snd ops)) k' of Some v \<Rightarrow> v | None \<Rightarrow> os_get s k')"
  by (rule override_store.run_restart) (use assms in auto)

lemma quiet_persist [simp]: "fst (persistMap enc (quiet_env t) path m fs) = StoreOk"
  by (simp add: persistMap_def persistFile_def persistTrace_def persistResult_def quiet_env_def Let_def)

lemma quiet_set:
  "fst (os_Set (quiet_env t) g a w d (\<lparr>os_path = p, os_data = Some m\<rparr>, fs)) = StoreOk"
  "fst (os_Clear (quiet_env t) g a (s, fs)) = StoreOk"
  by (simp_all add: os_Set_def os_Clear_def os_persist_def Let_def case_prod_beta)

lemma demo_good: "goodOverrides (NewOverrideStore p Map.empty)"
  by (simp add: goodOverrides_def NewOverrideStore_def loadFile_def goodMap_def)

theorem overrides_survive_restart_witness:
  "os_get (NewOverrideStore ''o.json'' (snd (snd (os_Set (quiet_env ''t'') ''g'' ''a'' (Some 3) False
     (snd (os_Set (quiet_env ''t'') ''g'' ''b'' None True (NewOverrideStore ''o.json'' Map.empty, Map.empty))))))) (''g'', ''b'')
   = Some \<lparr>ov_Weight = None, ov_Drained = True\<rparr>"
proof -
  let ?s = "NewOverrideStore ''o.json'' Map.empty"
  let ?b = "\<lparr>ov_Weight = None, ov_Drained = True\<rparr>" and ?a = "\<lparr>ov_Weight = Some 3, ov_Drained = False\<rparr>"
  obtain s1 fs1 where 1: "snd (os_Set (quiet_env ''t'') ''g'' ''b'' None True (?s, Map.empty)) = (s1, fs1)" by fastforce
  have d1: "s1 = \<lparr>os_path = ''o.json'', os_data = Some [(''g'', Some [(''b'', ?b)])]\<rparr>"
    using 1 by (auto simp: os_Set_def NewOverrideStore_def loadFile_def Let_def innerMap_def split: prod.splits)
  obtain s2 fs2 where 2: "os_Set (quiet_env ''t'') ''g'' ''a'' (Some 3) False (s1, fs1) = (StoreOk, s2, fs2)"
    using quiet_set(1) [of "''t''" "''g''" "''a''" "Some 3" False "''o.json''" "[(''g'', Some [(''b'', ?b)])]" fs1]
    by (cases "os_Set (quiet_env ''t'') ''g'' ''a'' (Some 3) False (s1, fs1)") (auto simp: d1)
  have "os_get (NewOverrideStore (os_path ?s) fs2) (''g'', ''b'') =
      (case map_of (((''g'', ''a''), Some ?a) # rev (map snd [(quiet_env ''t'', (''g'', ''b''), Some ?b)])) (''g'', ''b'')
       of Some v \<Rightarrow> v | None \<Rightarrow> os_get ?s (''g'', ''b''))"
    by (rule overrides_survive_restart [OF demo_good, where ?s2.0 = s2 and ?s1.0 = s1 and ?fs1.0 = fs1 and env = "quiet_env ''t''"
          and fs = Map.empty])
       (use 1 2 in \<open>simp_all add: os_put_def NewOverrideStore_def validOverride_def quiet_env_def\<close>)
  moreover have "os_path ?s = ''o.json''" by (simp add: NewOverrideStore_def)
  ultimately show ?thesis by (simp add: 1 2)
qed

text \<open>
  The group settings survive a restart: after a load-balancing algorithm, a sticky-session setting and
  a rate limit were stored without error, each store in its own file, a control plane that starts anew on
  the final file system reads exactly these settings, and for every other group what it read before.
\<close>

theorem settings_survive_restart:
  assumes "goodMap (\<lambda>_. True) (as_data sa)" "goodMap validSticky (ss_data ss)" "goodMap validRateLimit (rs_data sr)"
    and "IsValidAlgorithm a" "validSticky c" "validRateLimit r"
    and "as_path sa \<noteq> []" "ss_path ss \<noteq> []" "rs_path sr \<noteq> []" "distinct [as_path sa, ss_path ss, rs_path sr, pe_tmp env]"
    and "as_Set env g a (sa, fs) = (StoreOk, sa', fs1)" "ss_Set env h c (ss, fs1) = (StoreOk, ss', fs2)"
    and "rs_Set env i r (sr, fs2) = (StoreOk, sr', fs3)"
  shows "as_Get (NewAlgorithmStore (as_path sa) fs3) g' = (if g' = g then a else as_Get sa g') \<and>
    ss_Get (NewStickyStore (ss_path ss) fs3) g' = (if g' = h then c else ss_Get ss g') \<and>
    rs_Get (NewRateLimitStore (rs_path sr) fs3) g' = (if g' = i then r else rs_Get sr g')"
proof -
  have f2: "fs2 p = fs1 p" if "p \<noteq> ss_path ss" "p \<noteq> pe_tmp env" for p
    using sticky_store.put_other [OF assms(2,5,12)] that by blast
  have f3: "fs3 p = fs2 p" if "p \<noteq> rs_path sr" "p \<noteq> pe_tmp env" for p
    using rate_store.put_other [OF assms(3,6,13)] that by blast
  have e: "fs3 (as_path sa) = fs1 (as_path sa)" "fs3 (ss_path ss) = fs2 (ss_path ss)"
    using assms(10) by (simp_all add: f2 f3)
  from assms(10) have t: "pe_tmp env \<noteq> as_path sa" "pe_tmp env \<noteq> ss_path ss" "pe_tmp env \<noteq> rs_path sr" by auto
  show ?thesis
    using alg_store.put_restart [where fs'' = fs3, OF assms(1,4,11,7) t(1) e(1), of g']
      sticky_store.put_restart [where fs'' = fs3, OF assms(2,5,12,8) t(2) e(2), of g']
      rate_store.put_restart [where fs'' = fs3, OF assms(3,6,13,9) t(3) refl, of g'] by simp
qed

theorem settings_survive_restart_witness:
  "let e = quiet_env ''t''; fs0 = Map.empty; c = \<lparr>cs_Enabled = True, cs_CookieName = [], cs_TTL = 60\<rparr>;
       r = \<lparr>cr_Enabled = True, cr_RPS = 0, cr_Burst = 7\<rparr>;
       fs1 = snd (snd (as_Set e ''g'' ''p2c'' (NewAlgorithmStore ''a'' fs0, fs0)));
       fs2 = snd (snd (ss_Set e ''g'' c (NewStickyStore ''s'' fs0, fs1)));
       fs3 = snd (snd (rs_Set e ''g'' r (NewRateLimitStore ''r'' fs0, fs2)))
   in as_Get (NewAlgorithmStore ''a'' fs3) ''g'' = ''p2c'' \<and> ss_Get (NewStickyStore ''s'' fs3) ''g'' = c \<and>
      rs_Get (NewRateLimitStore ''r'' fs3) ''g'' = r"
proof -
  let ?sa = "NewAlgorithmStore ''a'' Map.empty" and ?ss = "NewStickyStore ''s'' Map.empty"
    and ?sr = "NewRateLimitStore ''r'' Map.empty" and ?e = "quiet_env ''t''"
  let ?c = "\<lparr>cs_Enabled = True, cs_CookieName = [], cs_TTL = 60\<rparr>" and ?r = "\<lparr>cr_Enabled = True, cr_RPS = 0, cr_Burst = 7\<rparr>"
  have v: "IsValidAlgorithm ''p2c''" by code_simp
  note defs = NewAlgorithmStore_def NewStickyStore_def NewRateLimitStore_def loadFile_def
  have ok: "fst (as_Set ?e ''g'' ''p2c'' (?sa, fs)) = StoreOk" "fst (ss_Set ?e ''g'' ?c (?ss, fs)) = StoreOk"
    "fst (rs_Set ?e ''g'' ?r (?sr, fs)) = StoreOk" for fs
    using v by (simp_all add: as_Set_def ss_Set_def rs_Set_def as_persist_def ss_persist_def rs_persist_def
        Let_def case_prod_beta defs)
  obtain sa' fs1 where 1: "as_Set ?e ''g'' ''p2c'' (?sa, Map.empty) = (StoreOk, sa', fs1)" using ok(1) by (metis eq_fst_iff prod.collapse)
  obtain ss' fs2 where 2: "ss_Set ?e ''g'' ?c (?ss, fs1) = (StoreOk, ss', fs2)" using ok(2) by (metis eq_fst_iff prod.collapse)
  obtain sr' fs3 where 3: "rs_Set ?e ''g'' ?r (?sr, fs2) = (StoreOk, sr', fs3)" using ok(3) by (metis eq_fst_iff prod.collapse)
  have "as_Get (NewAlgorithmStore (as_path ?sa) fs3) ''g'' = (if ''g'' = ''g'' then ''p2c'' else as_Get ?sa ''g'') \<and>
    ss_Get (NewStickyStore (ss_path ?ss) fs3) ''g'' = (if ''g'' = ''g'' then ?c else ss_Get ?ss ''g'') \<and>
    rs_Get (NewRateLimitStore (rs_path ?sr) fs3) ''g'' = (if ''g'' = ''g'' then ?r else rs_Get ?sr ''g'')"
    using v by (intro settings_survive_restart [OF _ _ _ _ _ _ _ _ _ _ 1 2 3])
      (simp_all add: defs goodMap_def validSticky_def validRateLimit_def int64_defs quiet_env_def)
  then show ?thesis unfolding Let_def by (simp add: 1 2 3) (simp add: defs)
qed

text \<open>
  C35. Writing a store's file is atomic: whatever call of \<open>persist\<close> fails or wherever the process is
  killed, the file at the store's path holds either its old content or the complete new document. An
  error leaves the old content, success the new one, and no other file but the temporary one changes.
\<close>

theorem persist_atomic:
  assumes "pe_tmp env \<noteq> path" "persistTrace env path doc fs = (err, tr)"
  shows "(\<forall>fs' \<in> set tr. fs' path = fs path \<or> fs' path = Some (Doc doc)) \<and>
    (\<forall>fs' \<in> set tr. \<forall>p. p \<noteq> path \<longrightarrow> p \<noteq> pe_tmp env \<longrightarrow> fs' p = fs p) \<and>
    (err \<noteq> None \<longrightarrow> last tr path = fs path) \<and> (err = None \<longrightarrow> path \<noteq> [] \<longrightarrow> last tr path = Some (Doc doc))"
proof -
  have p: "persistFile env path doc fs = (err, last tr)" by (simp add: persistFile_def assms(2))
  show ?thesis
    using persistTrace_cases [OF assms(1), of doc fs] persistFile_ok [OF _ assms(1), of doc fs "last tr"]
      persistFile_err [OF assms(1), of doc fs _ "last tr"] p assms(2) by auto
qed

theorem persist_atomic_witness:
  "snd (persistFile \<lparr>pe_fails = (\<lambda>c. c = WriteTemp), pe_tmp = ''t'', pe_partial = ''{''\<rparr> ''p'' JNull [''p'' \<mapsto> Raw ''old'']) ''p''
     = Some (Raw ''old'')"
proof -
  let ?env = "\<lparr>pe_fails = (\<lambda>c. c = WriteTemp), pe_tmp = ''t'', pe_partial = ''{''\<rparr>"
  obtain err tr where t: "persistTrace ?env ''p'' JNull [''p'' \<mapsto> Raw ''old''] = (err, tr)" by fastforce
  have "err \<noteq> None" using t by (auto simp: persistTrace_def)
  then show ?thesis using persist_atomic [OF _ t] by (simp add: persistFile_def t)
qed

text \<open>
  Two concurrent changes can lose one on disk: \<open>Set\<close> updates memory under the lock but writes its copy
  after releasing it, so the first change may write last. Both calls return without error and memory
  has both overrides, but after a restart the second one is gone.
\<close>

theorem concurrent_sets_lose:
  assumes "goodOverrides s" "os_path s \<noteq> []" "pe_tmp env1 \<noteq> os_path s" "(g2, a2) \<noteq> (g1, a1)"
    and "validOverride \<lparr>ov_Weight = w1, ov_Drained = d1\<rparr>" "validOverride \<lparr>ov_Weight = w2, ov_Drained = d2\<rparr>"
    and "os_Set env2 g2 a2 w2 d2 (s1, fs0) = (StoreOk, s2, fs1)"
    and "os_Set env1 g1 a1 w1 d1 (s, fs1) = (StoreOk, s1, fs2)"
  shows "os_get s2 (g2, a2) = Some \<lparr>ov_Weight = w2, ov_Drained = d2\<rparr> \<and>
    os_get (NewOverrideStore (os_path s) fs2) (g2, a2) = os_get s (g2, a2)"
proof -
  let ?o1 = "\<lparr>ov_Weight = w1, ov_Drained = d1\<rparr>" and ?o2 = "\<lparr>ov_Weight = w2, ov_Drained = d2\<rparr>"
  have 1: "os_put env1 (g1, a1) (Some ?o1) (s, fs1) = (StoreOk, s1, fs2)" using assms(8) by (simp add: os_put_def)
  have 2: "os_put env2 (g2, a2) (Some ?o2) (s1, fs0) = (StoreOk, s2, fs1)" using assms(7) by (simp add: os_put_def)
  have v: "pred_option validOverride (Some ?o1)" "pred_option validOverride (Some ?o2)" using assms(5,6) by simp_all
  have "goodOverrides s1" using override_store.put_ok [OF assms(1) v(1) 1] by simp
  from override_store.put_get [OF this v(2) 2, of "(g2, a2)"]
    override_store.put_restart [where fs'' = fs2, OF assms(1) v(1) 1 assms(2,3) refl, of "(g2, a2)"]
  show ?thesis using assms(4) by auto
qed

theorem concurrent_sets_lose_witness:
  "let s = NewOverrideStore ''o'' Map.empty; e1 = quiet_env ''t''; e2 = quiet_env ''u'';
       s1 = fst (snd (os_Set e1 ''g'' ''a'' None True (s, Map.empty)));
       fs1 = snd (snd (os_Set e2 ''g'' ''b'' None True (s1, Map.empty)));
       fs2 = snd (snd (os_Set e1 ''g'' ''a'' None True (s, fs1)))
   in os_get (NewOverrideStore ''o'' fs2) (''g'', ''b'') = None"
proof -
  let ?s = "NewOverrideStore ''o'' Map.empty" and ?e1 = "quiet_env ''t''" and ?e2 = "quiet_env ''u''"
  have s: "?s = \<lparr>os_path = ''o'', os_data = Some []\<rparr>" by (simp add: NewOverrideStore_def loadFile_def)
  define s1 where "s1 = fst (snd (os_Set ?e1 ''g'' ''a'' None True (?s, Map.empty)))"
  have s1: "s1 = \<lparr>os_path = ''o'', os_data = Some [(''g'', Some [(''a'', \<lparr>ov_Weight = None, ov_Drained = True\<rparr>)])]\<rparr>"
    by (simp add: s1_def s os_Set_def Let_def case_prod_beta innerMap_def)
  obtain s2 fs1 where 2: "os_Set ?e2 ''g'' ''b'' None True (s1, Map.empty) = (StoreOk, s2, fs1)"
    using quiet_set(1) unfolding s1 by (metis eq_fst_iff prod.collapse)
  obtain s1' fs2 where 1: "os_Set ?e1 ''g'' ''a'' None True (?s, fs1) = (StoreOk, s1', fs2)"
    using quiet_set(1) unfolding s by (metis eq_fst_iff prod.collapse)
  have "s1' = s1" using 1 by (auto simp: s1 s os_Set_def Let_def innerMap_def split: prod.splits)
  have "os_get (NewOverrideStore (os_path ?s) fs2) (''g'', ''b'') = os_get ?s (''g'', ''b'')"
    by (rule concurrent_sets_lose [THEN conjunct2, OF demo_good _ _ _ _ _ 2 1 [unfolded \<open>s1' = s1\<close>]])
       (simp_all add: s quiet_env_def validOverride_def)
  then show ?thesis unfolding Let_def s1_def [symmetric] by (simp add: 1 2) (simp add: s os_get_def os_GroupOverrides_def mapGet_def innerMap_def)
qed

end
