(* ===== verification/RouteStore.thy ===== *)
theory RouteStore
  imports Stores
begin

text \<open>
  The route table of the control plane (\<open>internal/controlplane/routes.go\<close>) and the blob stores it is
  persisted through (\<open>blobstore.go\<close>).

  The interface \<open>BlobStore\<close> is the locale \<open>blob_store\<close>; the file and the Postgres store interpret it. A call
  that reaches the disk or the database may fail, which is an argument of the operation. The table's
  JSON form is written out with the struct tags of the source. A Go map of header values is its
  association list sorted by key. Paths are clean (no empty, \<open>.\<close> or \<open>..\<close> elements), on which
  \<open>filepath.Join\<close> adds a separator and \<open>Dir\<close> cuts at the last one. The version is an unbounded integer.
\<close>

section \<open>Blob stores\<close>

locale blob_store =
  fixes load :: "'st \<Rightarrow> string \<Rightarrow> content option"
    and save :: "'e \<Rightarrow> string \<Rightarrow> content \<Rightarrow> 'st \<Rightarrow> bool \<times> 'st"
  assumes save_ok: "save e k d st = (True, st') \<Longrightarrow> load st' k' = (if k' = k then Some d else load st k')"
    and save_failed: "save e k d st = (False, st') \<Longrightarrow> load st' k' = load st k'"
begin

lemma saves_last:
  "load (foldl (\<lambda>st (e, k, d). snd (save e k d st)) st ops) k' \<in>
     insert (load st k') {Some d |e k d. (e, k, d) \<in> set ops \<and> k = k'}"
proof (induction ops rule: rev_induct)
  case (snoc op ops)
  obtain e k d where op: "op = (e, k, d)" by (cases op)
  let ?st = "foldl (\<lambda>st (e, k, d). snd (save e k d st)) st ops"
  obtain b st' where s: "save e k d ?st = (b, st')" by fastforce
  have "load st' k' = (if b \<and> k' = k then Some d else load ?st k')"
    using save_ok [of e k d ?st st' k'] save_failed [of e k d ?st st' k'] s by (cases b) auto
  then show ?case using snoc by (auto simp: op s)
qed simp

end

subsection \<open>Files\<close>

record FileBlobStore =
  fb_dir :: string
  fb_fs :: filesystem

definition path_Join :: "string \<Rightarrow> string \<Rightarrow> string" where
  "path_Join dir name = (if dir = ''.'' \<or> dir = [] then name else if dir = ''/'' then CHR ''/'' # name else dir @ CHR ''/'' # name)"

definition path_Base :: "string \<Rightarrow> string" where
  "path_Base p = rev (takeWhile (\<lambda>c. c \<noteq> CHR ''/'') (rev p))"

definition path_Dir :: "string \<Rightarrow> string" where
  "path_Dir p =
     (let d = rev (dropWhile (\<lambda>c. c \<noteq> CHR ''/'') (rev p)) in if d = [] then ''.'' else if d = ''/'' then d else butlast d)"

definition path_Ext :: "string \<Rightarrow> string" where
  "path_Ext base =
     (if CHR ''.'' \<in> set base then CHR ''.'' # rev (takeWhile (\<lambda>c. c \<noteq> CHR ''.'') (rev base)) else [])"

definition fb_path :: "FileBlobStore \<Rightarrow> string \<Rightarrow> string" where
  "fb_path s key = path_Join (fb_dir s) (key @ ''.json'')"

definition NewFileBlobStore :: "bool \<Rightarrow> string \<Rightarrow> filesystem \<Rightarrow> FileBlobStore option" where
  "NewFileBlobStore mkdirFails dir fs =
     (let dir = (if dir = [] then ''/var/lib/go-loadbalancer'' else dir)
      in if mkdirFails then None else Some \<lparr>fb_dir = dir, fb_fs = fs\<rparr>)"

definition fb_Load :: "FileBlobStore \<Rightarrow> string \<Rightarrow> content option" where
  "fb_Load s key = fb_fs s (fb_path s key)"

definition fb_Save :: "persistEnv \<Rightarrow> string \<Rightarrow> content \<Rightarrow> FileBlobStore \<Rightarrow> bool \<times> FileBlobStore" where
  "fb_Save env key d s =
     (let tmp = fb_path s key @ ''.tmp''
      in if pe_fails env WriteTemp then (False, s\<lparr>fb_fs := (fb_fs s)(tmp \<mapsto> Raw (pe_partial env))\<rparr>)
         else
           (let fs1 = (fb_fs s)(tmp \<mapsto> d)
            in if pe_fails env RenameTemp then (False, s\<lparr>fb_fs := fs1\<rparr>)
               else (True, s\<lparr>fb_fs := fs1(tmp := None, fb_path s key \<mapsto> d)\<rparr>)))"

lemma path_Join_inj: "path_Join dir a = path_Join dir b \<longleftrightarrow> a = b"
  by (auto simp: path_Join_def)

lemma fb_path_inj [simp]: "fb_path s a = fb_path s b \<longleftrightarrow> a = b"
  by (simp add: fb_path_def path_Join_inj)

lemma fb_path_json: "\<exists>p. fb_path s k = p @ ''.json''"
  by (auto simp: fb_path_def path_Join_def)

lemma fb_tmp_not_path [simp]: "fb_path s a \<noteq> fb_path s b @ ''.tmp''"
proof
  assume eq: "fb_path s a = fb_path s b @ ''.tmp''"
  obtain p where "fb_path s a = p @ ''.json''" using fb_path_json by blast
  with eq have "last (p @ ''.json'') = last (fb_path s b @ ''.tmp'')" by simp
  then show False by simp
qed

lemma fb_path_upd [simp]: "fb_path (s\<lparr>fb_fs := x\<rparr>) k = fb_path s k"
  by (simp add: fb_path_def)

interpretation file_blobs: blob_store fb_Load fb_Save
proof
  fix e k d st st' k'
  show "fb_Load st' k' = (if k' = k then Some d else fb_Load st k')" if "fb_Save e k d st = (True, st')"
    using that fb_tmp_not_path [of st k' k] by (auto simp: fb_Save_def fb_Load_def Let_def split: if_splits)
  show "fb_Load st' k' = fb_Load st k'" if "fb_Save e k d st = (False, st')"
    using that fb_tmp_not_path [of st k' k] by (auto simp: fb_Save_def fb_Load_def Let_def split: if_splits)
qed

subsection \<open>Postgres\<close>

text \<open>The table \<open>jbalance_admin_state\<close>: one row per key. \<open>e\<close> says whether the statement fails.\<close>

record PostgresBlobStore =
  pg_table :: "string \<rightharpoonup> content"

definition pg_Load :: "PostgresBlobStore \<Rightarrow> string \<Rightarrow> content option" where
  "pg_Load s key = pg_table s key"

definition pg_Save :: "bool \<Rightarrow> string \<Rightarrow> content \<Rightarrow> PostgresBlobStore \<Rightarrow> bool \<times> PostgresBlobStore" where
  "pg_Save e key d s = (if e then (False, s) else (True, s\<lparr>pg_table := (pg_table s)(key \<mapsto> d)\<rparr>))"

interpretation pg_blobs: blob_store pg_Load pg_Save
  by unfold_locales (auto simp: pg_Load_def pg_Save_def split: if_splits)

subsection \<open>Either\<close>

text \<open>The interface value: one of the two stores, its calls dispatched to it.\<close>

datatype BlobStore = FileBlobs FileBlobStore | PgBlobs PostgresBlobStore

fun blob_Load :: "BlobStore \<Rightarrow> string \<Rightarrow> content option" where
  "blob_Load (FileBlobs s) key = fb_Load s key"
| "blob_Load (PgBlobs s) key = pg_Load s key"

fun blob_Save :: "persistEnv \<times> bool \<Rightarrow> string \<Rightarrow> content \<Rightarrow> BlobStore \<Rightarrow> bool \<times> BlobStore" where
  "blob_Save e key d (FileBlobs s) = (let (ok, s1) = fb_Save (fst e) key d s in (ok, FileBlobs s1))"
| "blob_Save e key d (PgBlobs s) = (let (ok, s1) = pg_Save (snd e) key d s in (ok, PgBlobs s1))"

interpretation either_blobs: blob_store blob_Load blob_Save
proof
  fix e :: "persistEnv \<times> bool" and k d st st' k'
  show "blob_Load st' k' = (if k' = k then Some d else blob_Load st k')" if "blob_Save e k d st = (True, st')"
    using that by (cases st) (auto simp: file_blobs.save_ok pg_blobs.save_ok split: prod.splits)
  show "blob_Load st' k' = blob_Load st k'" if "blob_Save e k d st = (False, st')"
    using that by (cases st) (auto simp: file_blobs.save_failed pg_blobs.save_failed split: prod.splits)
qed

text \<open>\<open>mkdirFails\<close> and \<open>database\<close> are what the directory and the connection give; the result is none on an error.\<close>

definition NewBlobStore :: "bool \<Rightarrow> filesystem \<Rightarrow> PostgresBlobStore option \<Rightarrow> string \<Rightarrow> string \<Rightarrow> BlobStore option" where
  "NewBlobStore mkdirFails fs database backend dir =
     (if backend = [] \<or> backend = ''file'' then map_option FileBlobs (NewFileBlobStore mkdirFails dir fs)
      else if backend = ''postgres'' then map_option PgBlobs database
      else None)"

definition fileStoreFromPath :: "string \<Rightarrow> filesystem \<Rightarrow> FileBlobStore option \<times> string" where
  "fileStoreFromPath path fs =
     (if path = [] then (None, [])
      else
        (let base = path_Base path; ext = path_Ext base;
             key = (if ext \<noteq> [] then take (length base - length ext) base else base)
         in (Some \<lparr>fb_dir = path_Dir path, fb_fs = fs\<rparr>, key)))"

section \<open>Routes\<close>

record cpHeaderMatch =
  chm_Name :: string
  chm_Value :: string

record cpQueryMatch =
  cqm_Name :: string
  cqm_Value :: string

record cpRouteRewrite =
  crw_SetRequestHeaders :: "(string \<times> string) list"
  crw_RemoveRequestHeaders :: "string list"
  crw_SetResponseHeaders :: "(string \<times> string) list"
  crw_RemoveResponseHeaders :: "string list"
  crw_StripPathPrefix :: string
  crw_AddPathPrefix :: string

record cpRouteAuth =
  cra_Mode :: string
  cra_APIKeys :: "string list"
  cra_APIKeyHeader :: string
  cra_HMACSecret :: string
  cra_RSAPublicKeyPEM :: string
  cra_ExpectedIssuer :: string
  cra_ExpectedAudience :: string

record cpRouteTarget =
  crt_Group :: string
  crt_Weight :: int

record cpRoute =
  cr_Host :: string
  cr_PathPrefix :: string
  cr_Methods :: "string list"
  cr_TargetGroup :: string
  cr_Split :: "cpRouteTarget list"
  cr_Name :: string
  cr_Rewrite :: "cpRouteRewrite option"
  cr_Auth :: "cpRouteAuth option"
  cr_HeaderMatches :: "cpHeaderMatch list"
  cr_QueryMatches :: "cpQueryMatch list"

definition cr_Matches :: "cpRoute \<Rightarrow> string \<Rightarrow> string \<Rightarrow> string \<Rightarrow> bool" where
  "cr_Matches r host path method =
     (if cr_Host r \<noteq> [] \<and> cr_Host r \<noteq> ''*'' \<and> \<not> EqualFold (cr_Host r) host then False
      else if cr_PathPrefix r \<noteq> [] \<and> cr_PathPrefix r \<noteq> ''/'' \<and> \<not> HasPrefix path (cr_PathPrefix r) then False
      else if cr_Methods r \<noteq> [] \<and> \<not> list_ex (\<lambda>m. EqualFold m method) (cr_Methods r) then False
      else True)"

definition headerMatches :: "header option \<Rightarrow> string \<Rightarrow> string \<Rightarrow> bool" where
  "headerMatches header name want =
     (case header of
        None \<Rightarrow> False
      | Some h \<Rightarrow> if want = [] then header_Values h name \<noteq> [] else list_ex (\<lambda>v. v = want) (header_Values h name))"

definition queryMatches :: "(string \<rightharpoonup> string list) option \<Rightarrow> string \<Rightarrow> string \<Rightarrow> bool" where
  "queryMatches query name want =
     (case query of
        None \<Rightarrow> False
      | Some q \<Rightarrow>
          (case q name of None \<Rightarrow> False | Some vals \<Rightarrow> if want = [] then True else list_ex (\<lambda>v. v = want) vals))"

definition cr_MatchesRequest ::
    "cpRoute \<Rightarrow> string \<Rightarrow> string \<Rightarrow> string \<Rightarrow> header option \<Rightarrow> (string \<rightharpoonup> string list) option \<Rightarrow> bool" where
  "cr_MatchesRequest r host path method header query =
     (if \<not> cr_Matches r host path method then False
      else if \<not> list_all (\<lambda>hm. headerMatches header (chm_Name hm) (chm_Value hm)) (cr_HeaderMatches r) then False
      else list_all (\<lambda>qm. queryMatches query (cqm_Name qm) (cqm_Value qm)) (cr_QueryMatches r))"

section \<open>The table as JSON\<close>

definition foldName :: "string \<Rightarrow> string" where
  "foldName k = map to_lower k"

fun dArr :: "(json \<Rightarrow> 'a option) \<Rightarrow> json \<Rightarrow> 'a list option" where
  "dArr dec JNull = Some []"
| "dArr dec (JArr js) = those (map dec js)"
| "dArr dec _ = None"

fun dStrMap :: "json \<Rightarrow> (string \<times> string) list \<Rightarrow> (string \<times> string) list option" where
  "dStrMap JNull m = Some []"
| "dStrMap (JObj kvs) m = dObj (\<lambda>k v m. map_option (\<lambda>x. AList.update k x m) (dStr v [])) kvs m"
| "dStrMap _ m = None"

definition zeroHeaderMatch :: cpHeaderMatch where "zeroHeaderMatch = \<lparr>chm_Name = [], chm_Value = []\<rparr>"

definition zeroQueryMatch :: cpQueryMatch where "zeroQueryMatch = \<lparr>cqm_Name = [], cqm_Value = []\<rparr>"

definition zeroTarget :: cpRouteTarget where "zeroTarget = \<lparr>crt_Group = [], crt_Weight = 0\<rparr>"

definition zeroCpRewrite :: cpRouteRewrite where
  "zeroCpRewrite = \<lparr>crw_SetRequestHeaders = [], crw_RemoveRequestHeaders = [], crw_SetResponseHeaders = [],
     crw_RemoveResponseHeaders = [], crw_StripPathPrefix = [], crw_AddPathPrefix = []\<rparr>"

definition zeroCpAuth :: cpRouteAuth where
  "zeroCpAuth = \<lparr>cra_Mode = [], cra_APIKeys = [], cra_APIKeyHeader = [], cra_HMACSecret = [],
     cra_RSAPublicKeyPEM = [], cra_ExpectedIssuer = [], cra_ExpectedAudience = []\<rparr>"

definition zeroRoute :: cpRoute where
  "zeroRoute = \<lparr>cr_Host = [], cr_PathPrefix = [], cr_Methods = [], cr_TargetGroup = [], cr_Split = [], cr_Name = [],
     cr_Rewrite = None, cr_Auth = None, cr_HeaderMatches = [], cr_QueryMatches = []\<rparr>"

definition jHeaderMatch :: "cpHeaderMatch \<Rightarrow> json" where
  "jHeaderMatch r = JObj (jField ''name'' (JStr (chm_Name r)) @
     jOmitEmpty (chm_Value r = []) ''value'' (JStr (chm_Value r)))"

definition dHeaderMatchField :: "string \<Rightarrow> json \<Rightarrow> cpHeaderMatch \<Rightarrow> cpHeaderMatch option" where
  "dHeaderMatchField k v r =
     (if foldName k = ''name'' then map_option (\<lambda>x. r\<lparr>chm_Name := x\<rparr>) (dStr v (chm_Name r))
      else if foldName k = ''value'' then map_option (\<lambda>x. r\<lparr>chm_Value := x\<rparr>) (dStr v (chm_Value r))
      else Some r)"

definition jQueryMatch :: "cpQueryMatch \<Rightarrow> json" where
  "jQueryMatch r = JObj (jField ''name'' (JStr (cqm_Name r)) @
     jOmitEmpty (cqm_Value r = []) ''value'' (JStr (cqm_Value r)))"

definition dQueryMatchField :: "string \<Rightarrow> json \<Rightarrow> cpQueryMatch \<Rightarrow> cpQueryMatch option" where
  "dQueryMatchField k v r =
     (if foldName k = ''name'' then map_option (\<lambda>x. r\<lparr>cqm_Name := x\<rparr>) (dStr v (cqm_Name r))
      else if foldName k = ''value'' then map_option (\<lambda>x. r\<lparr>cqm_Value := x\<rparr>) (dStr v (cqm_Value r))
      else Some r)"

definition jRouteRewrite :: "cpRouteRewrite \<Rightarrow> json" where
  "jRouteRewrite r = JObj (jOmitEmpty (crw_SetRequestHeaders r = []) ''setRequestHeaders'' (jMap JStr (crw_SetRequestHeaders r)) @
     jOmitEmpty (crw_RemoveRequestHeaders r = []) ''removeRequestHeaders'' (JArr (map JStr (crw_RemoveRequestHeaders r))) @
     jOmitEmpty (crw_SetResponseHeaders r = []) ''setResponseHeaders'' (jMap JStr (crw_SetResponseHeaders r)) @
     jOmitEmpty (crw_RemoveResponseHeaders r = []) ''removeResponseHeaders'' (JArr (map JStr (crw_RemoveResponseHeaders r))) @
     jOmitEmpty (crw_StripPathPrefix r = []) ''stripPathPrefix'' (JStr (crw_StripPathPrefix r)) @
     jOmitEmpty (crw_AddPathPrefix r = []) ''addPathPrefix'' (JStr (crw_AddPathPrefix r)))"

definition dRouteRewriteField :: "string \<Rightarrow> json \<Rightarrow> cpRouteRewrite \<Rightarrow> cpRouteRewrite option" where
  "dRouteRewriteField k v r =
     (if foldName k = ''setrequestheaders'' then map_option (\<lambda>x. r\<lparr>crw_SetRequestHeaders := x\<rparr>) (dStrMap v (crw_SetRequestHeaders r))
      else if foldName k = ''removerequestheaders'' then map_option (\<lambda>x. r\<lparr>crw_RemoveRequestHeaders := x\<rparr>) (dArr (\<lambda>e. dStr e []) v)
      else if foldName k = ''setresponseheaders'' then map_option (\<lambda>x. r\<lparr>crw_SetResponseHeaders := x\<rparr>) (dStrMap v (crw_SetResponseHeaders r))
      else if foldName k = ''removeresponseheaders'' then map_option (\<lambda>x. r\<lparr>crw_RemoveResponseHeaders := x\<rparr>) (dArr (\<lambda>e. dStr e []) v)
      else if foldName k = ''strippathprefix'' then map_option (\<lambda>x. r\<lparr>crw_StripPathPrefix := x\<rparr>) (dStr v (crw_StripPathPrefix r))
      else if foldName k = ''addpathprefix'' then map_option (\<lambda>x. r\<lparr>crw_AddPathPrefix := x\<rparr>) (dStr v (crw_AddPathPrefix r))
      else Some r)"

definition jRouteAuth :: "cpRouteAuth \<Rightarrow> json" where
  "jRouteAuth r = JObj (jField ''mode'' (JStr (cra_Mode r)) @
     jOmitEmpty (cra_APIKeys r = []) ''apiKeys'' (JArr (map JStr (cra_APIKeys r))) @
     jOmitEmpty (cra_APIKeyHeader r = []) ''apiKeyHeader'' (JStr (cra_APIKeyHeader r)) @
     jOmitEmpty (cra_HMACSecret r = []) ''hmacSecret'' (JStr (cra_HMACSecret r)) @
     jOmitEmpty (cra_RSAPublicKeyPEM r = []) ''rsaPublicKeyPem'' (JStr (cra_RSAPublicKeyPEM r)) @
     jOmitEmpty (cra_ExpectedIssuer r = []) ''expectedIssuer'' (JStr (cra_ExpectedIssuer r)) @
     jOmitEmpty (cra_ExpectedAudience r = []) ''expectedAudience'' (JStr (cra_ExpectedAudience r)))"

definition dRouteAuthField :: "string \<Rightarrow> json \<Rightarrow> cpRouteAuth \<Rightarrow> cpRouteAuth option" where
  "dRouteAuthField k v r =
     (if foldName k = ''mode'' then map_option (\<lambda>x. r\<lparr>cra_Mode := x\<rparr>) (dStr v (cra_Mode r))
      else if foldName k = ''apikeys'' then map_option (\<lambda>x. r\<lparr>cra_APIKeys := x\<rparr>) (dArr (\<lambda>e. dStr e []) v)
      else if foldName k = ''apikeyheader'' then map_option (\<lambda>x. r\<lparr>cra_APIKeyHeader := x\<rparr>) (dStr v (cra_APIKeyHeader r))
      else if foldName k = ''hmacsecret'' then map_option (\<lambda>x. r\<lparr>cra_HMACSecret := x\<rparr>) (dStr v (cra_HMACSecret r))
      else if foldName k = ''rsapublickeypem'' then map_option (\<lambda>x. r\<lparr>cra_RSAPublicKeyPEM := x\<rparr>) (dStr v (cra_RSAPublicKeyPEM r))
      else if foldName k = ''expectedissuer'' then map_option (\<lambda>x. r\<lparr>cra_ExpectedIssuer := x\<rparr>) (dStr v (cra_ExpectedIssuer r))
      else if foldName k = ''expectedaudience'' then map_option (\<lambda>x. r\<lparr>cra_ExpectedAudience := x\<rparr>) (dStr v (cra_ExpectedAudience r))
      else Some r)"

definition jRouteTarget :: "cpRouteTarget \<Rightarrow> json" where
  "jRouteTarget r = JObj (jField ''group'' (JStr (crt_Group r)) @
     jOmitEmpty (crt_Weight r = 0) ''weight'' (JInt (crt_Weight r)))"

definition dRouteTargetField :: "string \<Rightarrow> json \<Rightarrow> cpRouteTarget \<Rightarrow> cpRouteTarget option" where
  "dRouteTargetField k v r =
     (if foldName k = ''group'' then map_option (\<lambda>x. r\<lparr>crt_Group := x\<rparr>) (dStr v (crt_Group r))
      else if foldName k = ''weight'' then map_option (\<lambda>x. r\<lparr>crt_Weight := x\<rparr>) (dInt32 v (crt_Weight r))
      else Some r)"

definition jRoute :: "cpRoute \<Rightarrow> json" where
  "jRoute r = JObj (jField ''host'' (JStr (cr_Host r)) @
     jField ''pathPrefix'' (JStr (cr_PathPrefix r)) @
     jOmitEmpty (cr_Methods r = []) ''methods'' (JArr (map JStr (cr_Methods r))) @
     jField ''targetGroup'' (JStr (cr_TargetGroup r)) @
     jOmitEmpty (cr_Split r = []) ''split'' (JArr (map jRouteTarget (cr_Split r))) @
     jOmitEmpty (cr_Name r = []) ''name'' (JStr (cr_Name r)) @
     jOmitEmpty (cr_Rewrite r = None) ''rewrite'' (jRouteRewrite (the (cr_Rewrite r))) @
     jOmitEmpty (cr_Auth r = None) ''auth'' (jRouteAuth (the (cr_Auth r))) @
     jOmitEmpty (cr_HeaderMatches r = []) ''headerMatches'' (JArr (map jHeaderMatch (cr_HeaderMatches r))) @
     jOmitEmpty (cr_QueryMatches r = []) ''queryMatches'' (JArr (map jQueryMatch (cr_QueryMatches r))))"

definition dRouteField :: "string \<Rightarrow> json \<Rightarrow> cpRoute \<Rightarrow> cpRoute option" where
  "dRouteField k v r =
     (if foldName k = ''host'' then map_option (\<lambda>x. r\<lparr>cr_Host := x\<rparr>) (dStr v (cr_Host r))
      else if foldName k = ''pathprefix'' then map_option (\<lambda>x. r\<lparr>cr_PathPrefix := x\<rparr>) (dStr v (cr_PathPrefix r))
      else if foldName k = ''methods'' then map_option (\<lambda>x. r\<lparr>cr_Methods := x\<rparr>) (dArr (\<lambda>e. dStr e []) v)
      else if foldName k = ''targetgroup'' then map_option (\<lambda>x. r\<lparr>cr_TargetGroup := x\<rparr>) (dStr v (cr_TargetGroup r))
      else if foldName k = ''split'' then map_option (\<lambda>x. r\<lparr>cr_Split := x\<rparr>) (dArr (\<lambda>e. dStruct dRouteTargetField e zeroTarget) v)
      else if foldName k = ''name'' then map_option (\<lambda>x. r\<lparr>cr_Name := x\<rparr>) (dStr v (cr_Name r))
      else if foldName k = ''rewrite'' then (if v = JNull then Some (r\<lparr>cr_Rewrite := None\<rparr>)
         else map_option (\<lambda>x. r\<lparr>cr_Rewrite := Some x\<rparr>) (dStruct dRouteRewriteField v (case cr_Rewrite r of Some x \<Rightarrow> x | None \<Rightarrow> zeroCpRewrite)))
      else if foldName k = ''auth'' then (if v = JNull then Some (r\<lparr>cr_Auth := None\<rparr>)
         else map_option (\<lambda>x. r\<lparr>cr_Auth := Some x\<rparr>) (dStruct dRouteAuthField v (case cr_Auth r of Some x \<Rightarrow> x | None \<Rightarrow> zeroCpAuth)))
      else if foldName k = ''headermatches'' then map_option (\<lambda>x. r\<lparr>cr_HeaderMatches := x\<rparr>) (dArr (\<lambda>e. dStruct dHeaderMatchField e zeroHeaderMatch) v)
      else if foldName k = ''querymatches'' then map_option (\<lambda>x. r\<lparr>cr_QueryMatches := x\<rparr>) (dArr (\<lambda>e. dStruct dQueryMatchField e zeroQueryMatch) v)
      else Some r)"

definition jTable :: "cpRoute list \<Rightarrow> int \<Rightarrow> json" where
  "jTable routes version = JObj (jField ''routes'' (JArr (map jRoute routes)) @ jField ''version'' (JInt version))"

definition dTableField :: "string \<Rightarrow> json \<Rightarrow> cpRoute list \<times> int \<Rightarrow> (cpRoute list \<times> int) option" where
  "dTableField k v r =
     (if foldName k = ''routes'' then map_option (\<lambda>x. (x, snd r)) (dArr (\<lambda>e. dStruct dRouteField e zeroRoute) v)
      else if foldName k = ''version'' then map_option (\<lambda>x. (fst r, x)) (dInt64 v (snd r))
      else Some r)"

section \<open>The store\<close>

text \<open>A nil store is \<open>None\<close>; \<open>load\<close> and \<open>save\<close> are the methods of the interface.\<close>

record 'st RouteStore =
  rts_store :: "'st option"
  rts_key :: string
  rts_routes :: "cpRoute list"
  rts_version :: int

definition NewRouteStoreWithBackend :: "('st \<Rightarrow> string \<Rightarrow> content option) \<Rightarrow> 'st option \<Rightarrow> string \<Rightarrow> 'st RouteStore" where
  "NewRouteStoreWithBackend load store key =
     (let s = \<lparr>rts_store = store, rts_key = key, rts_routes = [], rts_version = 0\<rparr>
      in case store of
           None \<Rightarrow> s
         | Some st \<Rightarrow>
             (case load st key of
                Some (Doc doc) \<Rightarrow>
                  (case dStruct dTableField doc ([], 0) of
                     Some (routes, version) \<Rightarrow> s\<lparr>rts_routes := routes, rts_version := version\<rparr>
                   | None \<Rightarrow> s)
              | _ \<Rightarrow> s))"

definition NewRouteStore :: "string \<Rightarrow> filesystem \<Rightarrow> FileBlobStore RouteStore" where
  "NewRouteStore path fs = (let (store, key) = fileStoreFromPath path fs in NewRouteStoreWithBackend fb_Load store key)"

definition rts_persist ::
    "('e \<Rightarrow> string \<Rightarrow> content \<Rightarrow> 'st \<Rightarrow> bool \<times> 'st) \<Rightarrow> 'e \<Rightarrow> cpRoute list \<times> int \<Rightarrow> 'st RouteStore \<Rightarrow> bool \<times> 'st RouteStore" where
  "rts_persist save e data s =
     (case rts_store s of
        None \<Rightarrow> (True, s)
      | Some st \<Rightarrow>
          (let (ok, st1) = save e (rts_key s) (Doc (jTable (fst data) (snd data))) st
           in (ok, s\<lparr>rts_store := Some st1\<rparr>)))"

definition rts_Set ::
    "('e \<Rightarrow> string \<Rightarrow> content \<Rightarrow> 'st \<Rightarrow> bool \<times> 'st) \<Rightarrow> 'e \<Rightarrow> cpRoute list \<Rightarrow> 'st RouteStore \<Rightarrow> bool \<times> 'st RouteStore" where
  "rts_Set save e routes s =
     (let s1 = s\<lparr>rts_routes := routes, rts_version := rts_version s + 1\<rparr>
      in rts_persist save e (rts_routes s1, rts_version s1) s1)"

subsection \<open>Round trip\<close>

lemma foldNames [simp]:
  "foldName ''host'' = ''host''"
  "foldName ''pathPrefix'' = ''pathprefix''"
  "foldName ''methods'' = ''methods''"
  "foldName ''targetGroup'' = ''targetgroup''"
  "foldName ''split'' = ''split''"
  "foldName ''name'' = ''name''"
  "foldName ''rewrite'' = ''rewrite''"
  "foldName ''auth'' = ''auth''"
  "foldName ''headerMatches'' = ''headermatches''"
  "foldName ''queryMatches'' = ''querymatches''"
  "foldName ''setRequestHeaders'' = ''setrequestheaders''"
  "foldName ''removeRequestHeaders'' = ''removerequestheaders''"
  "foldName ''setResponseHeaders'' = ''setresponseheaders''"
  "foldName ''removeResponseHeaders'' = ''removeresponseheaders''"
  "foldName ''stripPathPrefix'' = ''strippathprefix''"
  "foldName ''addPathPrefix'' = ''addpathprefix''"
  "foldName ''mode'' = ''mode''"
  "foldName ''apiKeys'' = ''apikeys''"
  "foldName ''apiKeyHeader'' = ''apikeyheader''"
  "foldName ''hmacSecret'' = ''hmacsecret''"
  "foldName ''rsaPublicKeyPem'' = ''rsapublickeypem''"
  "foldName ''expectedIssuer'' = ''expectedissuer''"
  "foldName ''expectedAudience'' = ''expectedaudience''"
  "foldName ''group'' = ''group''"
  "foldName ''weight'' = ''weight''"
  "foldName ''value'' = ''value''"
  "foldName ''routes'' = ''routes''"
  "foldName ''version'' = ''version''"
  by code_simp+

lemma dObj_omit_if: "dObj f (jOmitEmpty b k v) r = (if b then Some r else f k v r)"
  by (simp add: jOmitEmpty_def split: option.split)

lemma those_map [simp]: "(\<And>x. x \<in> set xs \<Longrightarrow> dec (enc x) = Some x) \<Longrightarrow> those (map (\<lambda>x. dec (enc x)) xs) = Some xs"
  by (induction xs) auto

lemma dArr_roundtrip: "(\<And>x. x \<in> set xs \<Longrightarrow> dec (enc x) = Some x) \<Longrightarrow> dArr dec (JArr (map enc xs)) = Some xs"
  by (simp add: comp_def)

definition canonMap :: "(string \<times> string) list \<Rightarrow> bool" where
  "canonMap m \<longleftrightarrow> sorted (map fst m) \<and> distinct (map fst m)"

lemma AList_update_new: "k \<notin> fst ` set m \<Longrightarrow> AList.update k v m = m @ [(k, v)]"
  by (induction m) auto

lemma dStrMap_roundtrip:
  assumes "canonMap m"
  shows "dStrMap (jMap JStr m) [] = Some m"
proof -
  have "dObj (\<lambda>k v m. map_option (\<lambda>x. AList.update k x m) (dStr v [])) (map (\<lambda>(k, v). (k, JStr v)) kvs) acc = Some (acc @ kvs)"
    if "distinct (map fst (acc @ kvs))" for kvs acc
    using that by (induction kvs arbitrary: acc) (auto simp: AList_update_new)
  moreover have "sort_key fst m = m"
    using assms by (intro sort_key_id_if_sorted) (simp add: canonMap_def)
  ultimately show ?thesis using assms by (simp add: jMap_def canonMap_def)
qed

text \<open>The routes a table can hold: weights fit the wire type and header maps are in canonical form.\<close>

definition validRewrite :: "cpRouteRewrite \<Rightarrow> bool" where
  "validRewrite r \<longleftrightarrow> canonMap (crw_SetRequestHeaders r) \<and> canonMap (crw_SetResponseHeaders r)"

definition validTarget :: "cpRouteTarget \<Rightarrow> bool" where
  "validTarget t \<longleftrightarrow> - (2 ^ 31) \<le> crt_Weight t \<and> crt_Weight t < 2 ^ 31"

definition validRoute :: "cpRoute \<Rightarrow> bool" where
  "validRoute r \<longleftrightarrow> list_all validTarget (cr_Split r) \<and> pred_option validRewrite (cr_Rewrite r)"

lemma headerMatch_roundtrip: "dStruct dHeaderMatchField (jHeaderMatch r) zeroHeaderMatch = Some r"
  by (simp add: jHeaderMatch_def dObj_append dObj_omit_if dHeaderMatchField_def zeroHeaderMatch_def)

lemma queryMatch_roundtrip: "dStruct dQueryMatchField (jQueryMatch r) zeroQueryMatch = Some r"
  by (simp add: jQueryMatch_def dObj_append dObj_omit_if dQueryMatchField_def zeroQueryMatch_def)

lemma target_roundtrip: "validTarget r \<Longrightarrow> dStruct dRouteTargetField (jRouteTarget r) zeroTarget = Some r"
  by (simp add: jRouteTarget_def dObj_append dObj_omit_if dRouteTargetField_def zeroTarget_def validTarget_def)

text \<open>A step over an optional field: the value is stored, also when an empty one was left out.\<close>

lemma omitted: "(P \<Longrightarrow> A = B) \<Longrightarrow> (if P then Some A else Some B) = Some B"
  by simp

lemma those_Some [simp]: "those (map Some xs) = Some xs"
  by (induction xs) auto

lemmas codec = dObj_append dObj_omit_if omitted comp_def

lemma rewrite_roundtrip:
  "validRewrite r \<Longrightarrow> dStruct dRouteRewriteField (jRouteRewrite r) zeroCpRewrite = Some r"
  by (simp add: jRouteRewrite_def codec dRouteRewriteField_def zeroCpRewrite_def validRewrite_def dStrMap_roundtrip
      split del: if_split cong: if_cong)

lemma auth_roundtrip: "dStruct dRouteAuthField (jRouteAuth r) zeroCpAuth = Some r"
  by (simp add: jRouteAuth_def codec dRouteAuthField_def zeroCpAuth_def split del: if_split cong: if_cong)

lemma route_roundtrip:
  assumes "validRoute r"
  shows "dStruct dRouteField (jRoute r) zeroRoute = Some r"
proof -
  have t: "those (map (\<lambda>x. dStruct dRouteTargetField (jRouteTarget x) zeroTarget) (cr_Split r)) = Some (cr_Split r)"
    using assms by (intro those_map) (simp add: target_roundtrip validRoute_def list_all_iff)
  have hm: "those (map (\<lambda>x. dStruct dHeaderMatchField (jHeaderMatch x) zeroHeaderMatch) xs) = Some xs" for xs
    by (intro those_map) (simp add: headerMatch_roundtrip)
  have qm: "those (map (\<lambda>x. dStruct dQueryMatchField (jQueryMatch x) zeroQueryMatch) xs) = Some xs" for xs
    by (intro those_map) (simp add: queryMatch_roundtrip)
  have rw: "cr_Rewrite r \<noteq> None \<Longrightarrow> dStruct dRouteRewriteField (jRouteRewrite (the (cr_Rewrite r))) zeroCpRewrite = Some (the (cr_Rewrite r))"
    using assms by (auto simp: rewrite_roundtrip validRoute_def)
  have n: "jRouteRewrite x \<noteq> JNull" "jRouteAuth y \<noteq> JNull" for x y by (simp_all add: jRouteRewrite_def jRouteAuth_def)
  show ?thesis
    using rw by (cases "cr_Rewrite r"; cases "cr_Auth r")
      (simp_all add: jRoute_def codec dRouteField_def zeroRoute_def t n auth_roundtrip hm qm
        split del: if_split cong: if_cong)
qed

lemma table_roundtrip:
  assumes "list_all validRoute routes" "is_int64 version"
  shows "dStruct dTableField (jTable routes version) ([], 0) = Some (routes, version)"
proof -
  have "those (map (\<lambda>x. dStruct dRouteField (jRoute x) zeroRoute) routes) = Some routes"
    using assms(1) by (intro those_map) (simp add: route_roundtrip list_all_iff)
  then show ?thesis using assms(2) by (simp add: jTable_def codec dTableField_def int64_defs)
qed

section \<open>Persistence of the table\<close>

context blob_store
begin

text \<open>What a process that starts anew on the store reads: the table after a save that succeeded, the old one otherwise.\<close>

lemma routes_restart:
  assumes "rts_store s = Some st" "list_all validRoute routes" "is_int64 (rts_version s + 1)"
    and "rts_Set save e routes s = (ok, s')"
  shows "NewRouteStoreWithBackend load (rts_store s') (rts_key s') =
      (if ok then s' else (NewRouteStoreWithBackend load (rts_store s) (rts_key s))\<lparr>rts_store := rts_store s'\<rparr>)"
    and "rts_routes s' = routes" "rts_version s' = rts_version s + 1" "rts_key s' = rts_key s" "rts_store s' \<noteq> None"
proof -
  obtain b st' where sv: "save e (rts_key s) (Doc (jTable routes (rts_version s + 1))) st = (b, st')" by fastforce
  have s': "b = ok" "s' = s\<lparr>rts_routes := routes, rts_version := rts_version s + 1, rts_store := Some st'\<rparr>"
    using assms(1,4) sv by (auto simp: rts_Set_def rts_persist_def Let_def)
  show "rts_routes s' = routes" "rts_version s' = rts_version s + 1" "rts_key s' = rts_key s" "rts_store s' \<noteq> None"
    by (simp_all add: s'(2))
  have "load st' (rts_key s) = (if ok then Some (Doc (jTable routes (rts_version s + 1))) else load st (rts_key s))"
    using save_ok [where k' = "rts_key s", of e "rts_key s" _ st st'] save_failed [where k' = "rts_key s", of e "rts_key s" _ st st'] sv s'(1)
    by (cases ok) auto
  then show "NewRouteStoreWithBackend load (rts_store s') (rts_key s') =
      (if ok then s' else (NewRouteStoreWithBackend load (rts_store s) (rts_key s))\<lparr>rts_store := rts_store s'\<rparr>)"
    using assms(1) table_roundtrip [OF assms(2,3)]
    by (cases ok) (simp_all add: NewRouteStoreWithBackend_def s'(2) Let_def split: option.split content.split)
qed

end

section \<open>Properties\<close>

text \<open>
  The route table survives a restart, on files as on Postgres: after a \<open>Set\<close> that returned no error a
  control plane that starts anew on the store holds exactly the same rules in the same order at the
  same version. After a \<open>Set\<close> whose save failed the running control plane holds the new rules all
  the same, and one that starts anew holds the table it would have read before.
\<close>

theorem routes_survive_restart:
  assumes "list_all validRoute routes" "is_int64 (v + 1)" "v = rts_version s" "v = rts_version t"
    and "rts_store s \<noteq> None" "rts_Set fb_Save e routes s = (ok, s')"
    and "rts_store t \<noteq> None" "rts_Set pg_Save e' routes t = (ok', t')"
  shows "rts_routes s' = routes \<and> rts_version s' = v + 1 \<and> rts_routes t' = routes \<and> rts_version t' = v + 1 \<and>
    NewRouteStoreWithBackend fb_Load (rts_store s') (rts_key s') =
      (if ok then s' else (NewRouteStoreWithBackend fb_Load (rts_store s) (rts_key s))\<lparr>rts_store := rts_store s'\<rparr>) \<and>
    NewRouteStoreWithBackend pg_Load (rts_store t') (rts_key t') =
      (if ok' then t' else (NewRouteStoreWithBackend pg_Load (rts_store t) (rts_key t))\<lparr>rts_store := rts_store t'\<rparr>)"
proof -
  obtain st where st: "rts_store s = Some st" using assms(5) by blast
  obtain tt where tt: "rts_store t = Some tt" using assms(7) by blast
  show ?thesis
    using file_blobs.routes_restart [OF st assms(1) assms(2) [unfolded assms(3)] assms(6)]
      pg_blobs.routes_restart [OF tt assms(1) assms(2) [unfolded assms(4)] assms(8)] assms(3,4) by simp
qed

definition demo_cpRoute :: cpRoute where
  "demo_cpRoute = zeroRoute\<lparr>cr_PathPrefix := ''/api'', cr_TargetGroup := ''g'', cr_Split := [\<lparr>crt_Group = ''h'', crt_Weight = 3\<rparr>],
     cr_Rewrite := Some (zeroCpRewrite\<lparr>crw_StripPathPrefix := ''/api''\<rparr>)\<rparr>"

theorem routes_survive_restart_witness:
  "let s = NewRouteStore ''/d/routes.json'' Map.empty; s' = snd (rts_Set fb_Save (quiet_env []) [demo_cpRoute] s);
       t = NewRouteStoreWithBackend pg_Load (Some \<lparr>pg_table = Map.empty\<rparr>) ''routes'';
       t' = snd (rts_Set pg_Save True [demo_cpRoute] t)
   in NewRouteStoreWithBackend fb_Load (rts_store s') (rts_key s') = s' \<and>
      rts_routes (NewRouteStoreWithBackend pg_Load (rts_store t') (rts_key t')) = [] \<and> rts_routes t' = [demo_cpRoute]"
proof -
  let ?s = "NewRouteStore ''/d/routes.json'' Map.empty" and ?t = "NewRouteStoreWithBackend pg_Load (Some \<lparr>pg_table = Map.empty\<rparr>) ''routes''"
  have p: "fileStoreFromPath ''/d/routes.json'' Map.empty = (Some \<lparr>fb_dir = ''/d'', fb_fs = Map.empty\<rparr>, ''routes'')"
    by (simp add: fileStoreFromPath_def path_Base_def path_Dir_def path_Ext_def Let_def)
  have s: "?s = \<lparr>rts_store = Some \<lparr>fb_dir = ''/d'', fb_fs = Map.empty\<rparr>, rts_key = ''routes'', rts_routes = [], rts_version = 0\<rparr>"
    by (simp add: NewRouteStore_def p NewRouteStoreWithBackend_def fb_Load_def)
  have t: "?t = \<lparr>rts_store = Some \<lparr>pg_table = Map.empty\<rparr>, rts_key = ''routes'', rts_routes = [], rts_version = 0\<rparr>"
    by (simp add: NewRouteStoreWithBackend_def pg_Load_def)
  obtain s' where s': "rts_Set fb_Save (quiet_env []) [demo_cpRoute] ?s = (True, s')"
    by (auto simp: s rts_Set_def rts_persist_def fb_Save_def quiet_env_def Let_def)
  obtain t' where t': "rts_Set pg_Save True [demo_cpRoute] ?t = (False, t')"
    by (auto simp: t rts_Set_def rts_persist_def pg_Save_def Let_def)
  have v: "list_all validRoute [demo_cpRoute]"
    by (simp add: validRoute_def demo_cpRoute_def zeroRoute_def zeroCpRewrite_def validTarget_def validRewrite_def canonMap_def)
  have "rts_routes t' = [demo_cpRoute] \<and> NewRouteStoreWithBackend fb_Load (rts_store s') (rts_key s') = s' \<and>
    NewRouteStoreWithBackend pg_Load (rts_store t') (rts_key t') =
      (NewRouteStoreWithBackend pg_Load (rts_store ?t) (rts_key ?t))\<lparr>rts_store := rts_store t'\<rparr>"
    using routes_survive_restart [OF v, of 0 ?s ?t "quiet_env []" True s' True False t'] s' t'
    by (simp add: s t int64_defs)
  moreover have "rts_routes (NewRouteStoreWithBackend pg_Load (rts_store ?t) (rts_key ?t)) = []"
    by (simp add: NewRouteStoreWithBackend_def pg_Load_def)
  ultimately show ?thesis by (simp add: s' t')
qed

text \<open>
  A path with another extension than \<open>.json\<close> is not the file the table is written to.
\<close>

lemma fileStore_other_extension:
  "(case fileStoreFromPath ''/d/routes.yaml'' fs of (Some st, key) \<Rightarrow> fb_path st key | _ \<Rightarrow> []) = ''/d/routes.json''"
  by (simp add: fileStoreFromPath_def path_Base_def path_Dir_def path_Ext_def path_Join_def fb_path_def Let_def)

end
