(* ===== verification/Pool.thy ===== *)
theory Pool
  imports Json
begin

text \<open>
  The backend pool (\<open>internal/pool/pool.go\<close>) and two of its providers: the simulated one (\<open>fake.go\<close>) and the
  one that reads a YAML file (\<open>file.go\<close>). The interface \<open>Provider\<close> is the locale \<open>pool_provider\<close>,
  extended by \<open>provider\<close>.

  The map of groups is an association list, its order the iteration order of the Go map. The YAML parser
  is third-party code: its result, the decoded \<open>fileConfig\<close> or an error, is part of what the world holds
  at the path. Random draws come from a stream.
\<close>

record PoolBackend =
  pb_Address :: string
  pb_Weight :: int

record Snapshot =
  sn_Group :: string
  sn_Backends :: "PoolBackend list"

text \<open>
  What the reconciliation relies on, for a provider observed in one state: a snapshot is one of a listed
  group, and the group's own. A provider that needs no remote service also has a snapshot for every
  group it lists.
\<close>

locale pool_provider =
  fixes groups :: "'p \<Rightarrow> string list option"
    and snapshot :: "'p \<Rightarrow> string \<Rightarrow> Snapshot option"
  assumes known: "groups p = Some gs \<Longrightarrow> snapshot p g = Some sn \<Longrightarrow> g \<in> set gs"
    and own: "snapshot p g = Some sn \<Longrightarrow> sn_Group sn = g"
begin

text \<open>What one round of the reconciliation collects: groups without an answer are skipped.\<close>

lemma collected:
  "groups p = Some gs \<Longrightarrow> sns = List.map_filter (snapshot p) gs \<Longrightarrow> set (map sn_Group sns) \<subseteq> set gs"
  using own by (fastforce simp: List.map_filter_def)

end

locale provider = pool_provider groups snapshot
  for groups :: "'p \<Rightarrow> string list option" and snapshot :: "'p \<Rightarrow> string \<Rightarrow> Snapshot option" +
  assumes answers: "groups p = Some gs \<Longrightarrow> g \<in> set gs \<Longrightarrow> snapshot p g \<noteq> None"
begin

lemma snapshots_of_groups:
  "groups p = Some gs \<Longrightarrow> \<exists>sns. map (snapshot p) gs = map Some sns \<and> map sn_Group sns = gs"
proof -
  assume g: "groups p = Some gs"
  have "\<forall>x \<in> set gs. snapshot p x = Some (the (snapshot p x)) \<and> sn_Group (the (snapshot p x)) = x"
    using answers [OF g] own by fastforce
  then show ?thesis by (intro exI [of _ "map (\<lambda>x. the (snapshot p x)) gs"]) (auto simp: list_eq_iff_nth_eq)
qed

end

section \<open>The simulated pool\<close>

record FakeProvider =
  fp_groups :: "(string \<times> PoolBackend list) list"
  fp_basePort :: nat
  fp_rng :: "nat stream"

definition fakeAddress :: "nat \<Rightarrow> string" where
  "fakeAddress port = ''127.0.0.1:'' @ itoa port"

definition fakeBackend :: "nat \<Rightarrow> PoolBackend" where
  "fakeBackend port = \<lparr>pb_Address = fakeAddress port, pb_Weight = 1\<rparr>"

fun fakeGroups :: "nat \<Rightarrow> (string \<times> nat) list \<Rightarrow> (string \<times> PoolBackend list) list" where
  "fakeGroups port [] = []"
| "fakeGroups port ((g, count) # gs) = (g, map fakeBackend [port ..< port + count]) # fakeGroups (port + count) gs"

definition NewFakeProvider :: "nat stream \<Rightarrow> nat \<Rightarrow> (string \<times> nat) list \<Rightarrow> FakeProvider" where
  "NewFakeProvider rng basePort groups =
     \<lparr>fp_groups = fakeGroups basePort groups, fp_basePort = basePort, fp_rng = rng\<rparr>"

definition fp_Groups :: "FakeProvider \<Rightarrow> string list option" where
  "fp_Groups p = Some (map fst (fp_groups p))"

definition fp_Snapshot :: "FakeProvider \<Rightarrow> string \<Rightarrow> Snapshot option" where
  "fp_Snapshot p g = map_option (\<lambda>bs. \<lparr>sn_Group = g, sn_Backends = bs\<rparr>) (map_of (fp_groups p) g)"

text \<open>
  The ports in use are those of the addresses the provider itself printed; the scan for a free one ends
  because finitely many are used.
\<close>

definition usedPort :: "FakeProvider \<Rightarrow> nat \<Rightarrow> bool" where
  "usedPort p port \<longleftrightarrow> list_ex (\<lambda>(g, bs). list_ex (\<lambda>b. pb_Address b = fakeAddress port) bs) (fp_groups p)"

definition atoi :: "string \<Rightarrow> nat" where
  "atoi s = foldl (\<lambda>n c. 10 * n + (of_char c - 48)) 0 s"

lemma atoi_itoa [simp]: "atoi (itoa n) = n"
proof (induction n rule: itoa.induct)
  case (1 n)
  have d: "of_char (char_of (48 + k :: nat) :: char) = 48 + k" if "k < 10" for k :: nat
    using that by (simp add: of_char_of)
  show ?case
  proof (cases "n < 10")
    case True
    then show ?thesis by (subst itoa.simps) (simp add: atoi_def d)
  next
    case False
    then have "atoi (itoa n) = 10 * atoi (itoa (n div 10)) + n mod 10"
      by (subst itoa.simps) (simp add: atoi_def d)
    with 1 False show ?thesis by simp
  qed
qed

lemma itoa_inj [simp]: "itoa m = itoa n \<longleftrightarrow> m = n"
  by (metis atoi_itoa)

lemma fakeAddress_inj [simp]: "fakeAddress m = fakeAddress n \<longleftrightarrow> m = n"
  by (simp add: fakeAddress_def)

lemma finite_usedPort: "finite {q. usedPort p q}"
proof -
  have "fakeAddress ` {q. usedPort p q} \<subseteq> pb_Address ` (\<Union>(g, bs) \<in> set (fp_groups p). set bs)"
  proof clarify
    fix q assume "usedPort p q"
    then obtain g bs b where "(g, bs) \<in> set (fp_groups p)" "b \<in> set bs" "pb_Address b = fakeAddress q"
      by (auto simp: usedPort_def list_ex_iff)
    then show "fakeAddress q \<in> pb_Address ` (\<Union>(g, bs) \<in> set (fp_groups p). set bs)"
      by (intro image_eqI [of _ _ b]) auto
  qed
  then have "finite (fakeAddress ` {q. usedPort p q})" by (rule finite_subset) auto
  then show ?thesis by (rule finite_imageD) (simp add: inj_on_def)
qed

function nextPort :: "FakeProvider \<Rightarrow> nat \<Rightarrow> nat" where
  "nextPort p port = (if usedPort p port then nextPort p (port + 1) else port)"
  by pat_completeness auto
termination
proof (relation "measure (\<lambda>(p, port). card {q. usedPort p q \<and> port \<le> q})")
  fix p port assume u: "usedPort p port"
  have "finite {q. usedPort p q \<and> port \<le> q}" using finite_usedPort by (rule rev_finite_subset) auto
  then have "card {q. usedPort p q \<and> port + 1 \<le> q} < card {q. usedPort p q \<and> port \<le> q}"
  proof (rule psubset_card_mono)
    have "port \<in> {q. usedPort p q \<and> port \<le> q}" "port \<notin> {q. usedPort p q \<and> port + 1 \<le> q}" using u by simp_all
    moreover have "{q. usedPort p q \<and> port + 1 \<le> q} \<subseteq> {q. usedPort p q \<and> port \<le> q}" by auto
    ultimately show "{q. usedPort p q \<and> port + 1 \<le> q} \<subset> {q. usedPort p q \<and> port \<le> q}" by blast
  qed
  then show "((p, port + 1), (p, port)) \<in> measure (\<lambda>(p, port). card {q. usedPort p q \<and> port \<le> q})" by simp
qed simp

declare nextPort.simps [simp del]

definition nextPortForGroup :: "FakeProvider \<Rightarrow> nat" where
  "nextPortForGroup p = nextPort p (fp_basePort p)"

lemma nextPort_free: "\<not> usedPort p (nextPort p port)"
  by (induction p port rule: nextPort.induct) (subst nextPort.simps, simp)

text \<open>\<open>None\<close> is the panic of \<open>Intn(0)\<close>, which a negative minimum allows.\<close>

definition mutateRandomGroup :: "int \<Rightarrow> int \<Rightarrow> FakeProvider \<Rightarrow> FakeProvider option" where
  "mutateRandomGroup minPerGroup maxPerGroup p =
     (if fp_groups p = [] then Some p
      else
        (let (target, rng1) = Intn (length (fp_groups p)) (fp_rng p);
             (g, backends) = fp_groups p ! target;
             (coin, rng2) = Intn 2 rng1;
             scaleUp = (coin = 0)
         in if scaleUp \<and> int (length backends) < maxPerGroup then
              Some (p\<lparr>fp_rng := rng2,
                fp_groups := (fp_groups p)[target := (g, backends @ [fakeBackend (nextPortForGroup p)])]\<rparr>)
            else if \<not> scaleUp \<and> int (length backends) > minPerGroup then
              (if backends = [] then None
               else let (idx, rng3) = Intn (length backends) rng2
               in Some (p\<lparr>fp_rng := rng3,
                    fp_groups := (fp_groups p)[target := (g, take idx backends @ drop (idx + 1) backends)]\<rparr>))
            else Some (p\<lparr>fp_rng := rng2\<rparr>)))"

text \<open>Sound pools: distinct groups and one backend per address, over all groups.\<close>

definition fp_addresses :: "FakeProvider \<Rightarrow> string list" where
  "fp_addresses p = concat (map (map pb_Address \<circ> snd) (fp_groups p))"

definition fp_ok :: "FakeProvider \<Rightarrow> bool" where
  "fp_ok p \<longleftrightarrow> distinct (map fst (fp_groups p)) \<and> distinct (fp_addresses p)"

lemma fakeGroups_keys [simp]: "map fst (fakeGroups port gs) = map fst gs"
  by (induction port gs rule: fakeGroups.induct) auto

lemma fakeGroups_ports:
  "concat (map (map pb_Address \<circ> snd) (fakeGroups port gs)) = map fakeAddress [port ..< port + sum_list (map snd gs)]"
proof (induction port gs rule: fakeGroups.induct)
  case (2 port g count gs)
  have "[port ..< port + (count + n)] = [port ..< port + count] @ [port + count ..< port + (count + n)]" for n
    using upt_add_eq_append [of port "port + count" n] by (simp add: add.assoc)
  with 2 show ?case by (simp add: fakeBackend_def comp_def add.assoc)
qed simp

lemma fp_ok_init: "distinct (map fst gs) \<Longrightarrow> fp_ok (NewFakeProvider rng base gs)"
  by (simp add: fp_ok_def NewFakeProvider_def fp_addresses_def fakeGroups_ports distinct_map inj_on_def)

lemma usedPort_addresses: "usedPort p q \<longleftrightarrow> fakeAddress q \<in> set (fp_addresses p)"
  by (force simp: usedPort_def fp_addresses_def list_ex_iff)

lemma addresses_split:
  assumes "i < length (fp_groups p)"
  obtains as bs where "\<And>r g b. fp_addresses (p\<lparr>fp_rng := r, fp_groups := (fp_groups p)[i := (g, b)]\<rparr>) = as @ map pb_Address b @ bs"
    "fp_addresses p = as @ map pb_Address (snd (fp_groups p ! i)) @ bs"
proof -
  let ?f = "map pb_Address \<circ> snd"
  have "map ?f (fp_groups p) = map ?f (take i (fp_groups p) @ fp_groups p ! i # drop (Suc i) (fp_groups p))"
    using id_take_nth_drop [OF assms] by simp
  then have "fp_addresses p = concat (map ?f (take i (fp_groups p))) @ map pb_Address (snd (fp_groups p ! i)) @
      concat (map ?f (drop (Suc i) (fp_groups p)))"
    unfolding fp_addresses_def by (simp only: map_append list.map concat_append concat.simps comp_apply)
  then show thesis by (intro that) (simp_all add: fp_addresses_def upd_conv_take_nth_drop assms)
qed

lemma keys_update: "i < length xs \<Longrightarrow> map fst (xs[i := (fst (xs ! i), y)]) = map fst xs"
  by (rule nth_equalityI) (auto simp: nth_list_update)

text \<open>A group replaced by one with the same name and other addresses that are new or were the group's own.\<close>

lemma fp_ok_update:
  assumes "fp_ok p" "i < length (fp_groups p)" "fp_groups p ! i = (g, bs)"
    and "distinct (map pb_Address b)" "\<forall>a \<in> pb_Address ` set b. a \<in> pb_Address ` set bs \<or> a \<notin> set (fp_addresses p)"
  shows "fp_ok (p\<lparr>fp_rng := r, fp_groups := (fp_groups p)[i := (g, b)]\<rparr>)"
proof -
  obtain as cs where 1: "fp_addresses (p\<lparr>fp_rng := r, fp_groups := (fp_groups p)[i := (g, b)]\<rparr>) = as @ map pb_Address b @ cs"
    and 2: "fp_addresses p = as @ map pb_Address bs @ cs" by (rule addresses_split [OF assms(2)]) (simp add: assms(3))
  have d: "distinct (as @ map pb_Address bs @ cs)" using assms(1) 2 by (simp add: fp_ok_def)
  have n: "a \<notin> set as \<and> a \<notin> set cs" if "a \<in> pb_Address ` set b" for a
    using assms(5) that d unfolding 2 by auto
  have "distinct (as @ map pb_Address b @ cs)" using d assms(4) n by auto
  then show ?thesis using assms(1) keys_update [OF assms(2), of b] assms(3) by (simp add: fp_ok_def 1)
qed

lemma drop_one_subset: "set (take k xs @ drop (Suc k) xs) \<subseteq> set xs"
  by (auto dest: in_set_takeD in_set_dropD)

lemma mutate_cases:
  assumes "fp_ok p" "0 \<le> lo"
  obtains (idle) r where "mutateRandomGroup lo hi p = Some (p\<lparr>fp_rng := r\<rparr>)"
  | (changed) i g bs b r where "mutateRandomGroup lo hi p = Some (p\<lparr>fp_rng := r, fp_groups := (fp_groups p)[i := (g, b)]\<rparr>)"
      "i < length (fp_groups p)" "fp_groups p ! i = (g, bs)"
      "length b = Suc (length bs) \<and> int (length bs) < hi \<or> Suc (length b) = length bs \<and> lo < int (length bs)"
      "distinct (map pb_Address b)" "\<forall>a \<in> pb_Address ` set b. a \<in> pb_Address ` set bs \<or> a \<notin> set (fp_addresses p)"
proof (cases "fp_groups p = []")
  case True
  then show thesis by (intro idle [of "fp_rng p"]) (simp add: mutateRandomGroup_def)
next
  case False
  obtain t rng1 where t: "Intn (length (fp_groups p)) (fp_rng p) = (t, rng1)" by fastforce
  then have lt: "t < length (fp_groups p)" using False Intn_less [of "length (fp_groups p)" "fp_rng p"] by simp
  obtain g bs where gb: "fp_groups p ! t = (g, bs)" by fastforce
  obtain c rng2 where c: "Intn 2 rng1 = (c, rng2)" by fastforce
  have d: "distinct (map pb_Address bs)" "pb_Address ` set bs \<subseteq> set (fp_addresses p)"
  proof -
    obtain as cs where "fp_addresses p = as @ map pb_Address bs @ cs"
      by (rule addresses_split [OF lt]) (simp add: gb)
    then show "distinct (map pb_Address bs)" "pb_Address ` set bs \<subseteq> set (fp_addresses p)"
      using assms(1) by (auto simp: fp_ok_def)
  qed
  note unf = mutateRandomGroup_def t c gb
  consider (up) "c = 0" "int (length bs) < hi" | (down) "c \<noteq> 0" "lo < int (length bs)"
    | (none) "\<not> (c = 0 \<and> int (length bs) < hi)" "\<not> (c \<noteq> 0 \<and> lo < int (length bs))" by blast
  then show thesis
  proof cases
    case up
    let ?n = "fakeBackend (nextPortForGroup p)"
    have "pb_Address ?n \<notin> set (fp_addresses p)"
      using nextPort_free [of p "fp_basePort p"] by (simp add: fakeBackend_def usedPort_addresses nextPortForGroup_def)
    then show thesis using up False lt gb d
      by (intro changed [where b = "bs @ [?n]" and i = t and g = g and bs = bs and r = rng2]) (auto simp: unf)
  next
    case down
    then have ne: "bs \<noteq> []" using assms(2) by auto
    obtain k rng3 where k: "Intn (length bs) rng2 = (k, rng3)" by fastforce
    then have kl: "k < length bs" using ne Intn_less [of "length bs" rng2] by simp
    have "distinct (map pb_Address (take k bs @ bs ! k # drop (Suc k) bs))"
      using d(1) id_take_nth_drop [OF kl] by simp
    then have "distinct (map pb_Address (take k bs @ drop (Suc k) bs))" by auto
    then show thesis using down False lt gb ne kl drop_one_subset [of k bs]
      by (intro changed [where b = "take k bs @ drop (Suc k) bs" and i = t and g = g and bs = bs and r = rng3]) (auto simp: unf k)
  next
    case none
    then show thesis using False by (intro idle [of rng2]) (auto simp: unf)
  qed
qed

text \<open>
  The simulated pool stays sound through any scaling step: groups keep their names, no address is
  used twice over all groups (the scan for a free port ends and finds one), and a step changes a
  group by at most one backend and never pushes a group out of the bounds it was within.
\<close>

theorem scaling_sound:
  assumes "fp_ok p" "0 \<le> lo"
  shows "\<exists>p'. mutateRandomGroup lo hi p = Some p' \<and> fp_ok p' \<and> map fst (fp_groups p') = map fst (fp_groups p) \<and>
    (\<forall>i < length (fp_groups p).
       let n = int (length (snd (fp_groups p ! i))); n' = int (length (snd (fp_groups p' ! i)))
       in \<bar>n' - n\<bar> \<le> 1 \<and> (lo \<le> n \<longrightarrow> lo \<le> n') \<and> (n \<le> hi \<longrightarrow> n' \<le> hi))"
  using assms
proof (cases rule: mutate_cases [where hi = hi])
  case (idle r)
  then show ?thesis using assms(1) by (simp add: fp_ok_def fp_addresses_def Let_def)
next
  case (changed i g bs b r)
  have "fp_ok (p\<lparr>fp_rng := r, fp_groups := (fp_groups p)[i := (g, b)]\<rparr>)"
    using assms(1) changed(2,3,5,6) by (rule fp_ok_update)
  then show ?thesis using changed keys_update [OF changed(2), of b] by (auto simp: Let_def nth_list_update)
qed

theorem scaling_sound_witness:
  "\<forall>rng. \<exists>p'. mutateRandomGroup 1 4 (NewFakeProvider rng 9000 [(''a'', 2), (''b'', 1)]) = Some p' \<and> fp_ok p'"
proof
  fix rng
  have "fp_ok (NewFakeProvider rng 9000 [(''a'', 2), (''b'', 1)])" by (rule fp_ok_init) simp
  from scaling_sound [OF this, of 1 4]
  show "\<exists>p'. mutateRandomGroup 1 4 (NewFakeProvider rng 9000 [(''a'', 2), (''b'', 1)]) = Some p' \<and> fp_ok p'" by auto
qed

interpretation fake_provider: provider fp_Groups fp_Snapshot
proof
  fix p gs g
  have iff: "fp_Snapshot p g \<noteq> None \<longleftrightarrow> g \<in> set gs" if "fp_Groups p = Some gs"
  proof -
    have "set gs = fst ` set (fp_groups p)" using that unfolding fp_Groups_def by (metis list.set_map option.inject)
    then show ?thesis using map_of_eq_None_iff [of "fp_groups p" g] by (simp add: fp_Snapshot_def)
  qed
  show "g \<in> set gs" if "fp_Groups p = Some gs" "fp_Snapshot p g = Some sn" for sn
    using iff that by simp
  show "fp_Snapshot p g \<noteq> None" if "fp_Groups p = Some gs" "g \<in> set gs"
    using iff that by simp
  show "sn_Group sn = g" if "fp_Snapshot p g = Some sn" for sn
    using that by (auto simp: fp_Snapshot_def)
qed

section \<open>The file pool\<close>

record fileBackend =
  fbe_Address :: string
  fbe_Weight :: int

type_synonym fileConfig = "(string \<times> fileBackend list) list"

text \<open>
  What the calls on the file return: the modification time of the first and of the second \<open>Stat\<close>, and
  the parsed file. \<open>None\<close> is an error.
\<close>

record fileWorld =
  fw_stat1 :: "int option"
  fw_stat2 :: "int option"
  fw_data :: "fileConfig option"

record FileProvider =
  fpv_modTime :: int
  fpv_groups :: "(string \<times> PoolBackend list) list"

definition fileGroups :: "fileConfig \<Rightarrow> (string \<times> PoolBackend list) list option" where
  "fileGroups cfg =
     (if list_ex (\<lambda>(g, entries). list_ex (\<lambda>e. fbe_Address e = []) entries) cfg then None
      else Some (map (\<lambda>(g, entries). (g, map (\<lambda>e. \<lparr>pb_Address = fbe_Address e, pb_Weight = fbe_Weight e\<rparr>) entries)) cfg))"

definition fpv_reload :: "fileWorld \<Rightarrow> FileProvider \<Rightarrow> bool \<times> FileProvider" where
  "fpv_reload w p =
     (case fw_stat2 w of
        None \<Rightarrow> (False, p)
      | Some mt \<Rightarrow>
          (case fw_data w of
             None \<Rightarrow> (False, p)
           | Some cfg \<Rightarrow>
               (case fileGroups cfg of
                  None \<Rightarrow> (False, p)
                | Some groups \<Rightarrow> (True, p\<lparr>fpv_groups := groups, fpv_modTime := mt\<rparr>))))"

definition NewFileProvider :: "string \<Rightarrow> fileWorld \<Rightarrow> FileProvider option" where
  "NewFileProvider path w =
     (if path = [] then None
      else let (ok, p) = fpv_reload w \<lparr>fpv_modTime = 0, fpv_groups = []\<rparr> in if ok then Some p else None)"

definition reloadIfChanged :: "fileWorld \<Rightarrow> FileProvider \<Rightarrow> bool \<times> FileProvider" where
  "reloadIfChanged w p =
     (case fw_stat1 w of
        None \<Rightarrow> (False, p)
      | Some mt \<Rightarrow> if mt = fpv_modTime p then (True, p) else fpv_reload w p)"

definition fpv_Groups :: "fileWorld \<Rightarrow> FileProvider \<Rightarrow> string list option \<times> FileProvider" where
  "fpv_Groups w p =
     (let (ok, p1) = reloadIfChanged w p in (if ok then Some (map fst (fpv_groups p1)) else None, p1))"

definition fpv_Snapshot :: "fileWorld \<Rightarrow> FileProvider \<Rightarrow> string \<Rightarrow> Snapshot option \<times> FileProvider" where
  "fpv_Snapshot w p g =
     (let (ok, p1) = reloadIfChanged w p
      in (if ok then map_option (\<lambda>bs. \<lparr>sn_Group = g, sn_Backends = bs\<rparr>) (map_of (fpv_groups p1) g) else None, p1))"

interpretation file_provider: provider "\<lambda>(w, p). fst (fpv_Groups w p)" "\<lambda>(w, p) g. fst (fpv_Snapshot w p g)"
proof
  fix q :: "fileWorld \<times> FileProvider" and gs g
  obtain w p where q: "q = (w, p)" by (cases q)
  obtain ok p1 where r: "reloadIfChanged w p = (ok, p1)" by fastforce
  have iff: "((case q of (w, p) \<Rightarrow> \<lambda>g. fst (fpv_Snapshot w p g)) g \<noteq> None) = (g \<in> set gs)"
    if "(case q of (w, p) \<Rightarrow> fst (fpv_Groups w p)) = Some gs"
  proof -
    from that have "ok" "gs = map fst (fpv_groups p1)" by (simp_all add: q fpv_Groups_def r split: if_splits)
    then show ?thesis using map_of_eq_None_iff [of "fpv_groups p1" g] by (simp add: q fpv_Snapshot_def r)
  qed
  show "g \<in> set gs" if "(case q of (w, p) \<Rightarrow> fst (fpv_Groups w p)) = Some gs"
    "(case q of (w, p) \<Rightarrow> \<lambda>g. fst (fpv_Snapshot w p g)) g = Some sn" for sn
    using iff that by simp
  show "(case q of (w, p) \<Rightarrow> \<lambda>g. fst (fpv_Snapshot w p g)) g \<noteq> None"
    if "(case q of (w, p) \<Rightarrow> fst (fpv_Groups w p)) = Some gs" "g \<in> set gs"
    using iff that by simp
  show "sn_Group sn = g" if "(case q of (w, p) \<Rightarrow> \<lambda>g. fst (fpv_Snapshot w p g)) g = Some sn" for sn
    using that by (auto simp: q fpv_Snapshot_def r split: if_splits)
qed

text \<open>The held groups are always those of one file that was read completely and had no empty address.\<close>

definition fpv_loaded :: "fileConfig set \<Rightarrow> FileProvider \<Rightarrow> bool" where
  "fpv_loaded files p \<longleftrightarrow> (\<exists>cfg \<in> files. fileGroups cfg = Some (fpv_groups p))"

lemma reload_loaded:
  "fpv_loaded files p \<Longrightarrow> \<forall>cfg. fw_data w = Some cfg \<longrightarrow> cfg \<in> files \<Longrightarrow> fpv_loaded files (snd (reloadIfChanged w p))"
  by (auto simp: reloadIfChanged_def fpv_reload_def fpv_loaded_def split: option.splits)

text \<open>
  A file pool never serves a half-edited file: started successfully, and then asked for groups and
  snapshots any number of times while the file is edited, removed and restored in any way, it holds
  at every moment exactly the groups of one complete, valid version of the file, and every backend it
  holds has an address.
\<close>

theorem file_pool_consistent:
  assumes "NewFileProvider path w0 = Some p0" "p = foldl (\<lambda>p w. snd (fpv_Groups w p)) p0 ws"
  shows "\<exists>cfg. (\<exists>w \<in> set (w0 # ws). fw_data w = Some cfg) \<and> fileGroups cfg = Some (fpv_groups p) \<and>
    (\<forall>(g, bs) \<in> set (fpv_groups p). \<forall>b \<in> set bs. pb_Address b \<noteq> [])"
proof -
  let ?files = "{cfg. \<exists>w \<in> set (w0 # ws). fw_data w = Some cfg}"
  have "fpv_loaded ?files p0"
    using assms(1) by (auto simp: NewFileProvider_def fpv_reload_def fpv_loaded_def split: if_splits option.splits)
  moreover have "fpv_loaded ?files (foldl (\<lambda>p w. snd (fpv_Groups w p)) q us)"
    if "fpv_loaded ?files q" "set us \<subseteq> set (w0 # ws)" for q us
    using that
  proof (induction us arbitrary: q)
    case (Cons u us)
    have "fpv_loaded ?files (snd (reloadIfChanged u q))" using Cons.prems by (intro reload_loaded) auto
    then have "fpv_loaded ?files (snd (fpv_Groups u q))" by (simp add: fpv_Groups_def case_prod_beta)
    with Cons show ?case by auto
  qed simp
  ultimately obtain cfg where c: "cfg \<in> ?files" "fileGroups cfg = Some (fpv_groups p)"
    unfolding assms(2) fpv_loaded_def by (metis (no_types, lifting) set_subset_Cons)
  have "\<forall>(g, bs) \<in> set (fpv_groups p). \<forall>b \<in> set bs. pb_Address b \<noteq> []"
  proof clarify
    fix g bs b assume "(g, bs) \<in> set (fpv_groups p)" "b \<in> set bs" "pb_Address b = []"
    moreover have "fpv_groups p = map (\<lambda>(g, entries). (g, map (\<lambda>e. \<lparr>pb_Address = fbe_Address e, pb_Weight = fbe_Weight e\<rparr>) entries)) cfg"
      and "\<And>g es e. (g, es) \<in> set cfg \<Longrightarrow> e \<in> set es \<Longrightarrow> fbe_Address e \<noteq> []"
      using c(2) by (auto simp: fileGroups_def list_ex_iff split: if_splits)
    ultimately show False by auto
  qed
  with c show ?thesis by auto
qed

theorem file_pool_consistent_witness:
  "let v1 = [(''g'', [\<lparr>fbe_Address = ''a'', fbe_Weight = 2\<rparr>])];
       w0 = \<lparr>fw_stat1 = Some 1, fw_stat2 = Some 1, fw_data = Some v1\<rparr>;
       broken = \<lparr>fw_stat1 = Some 2, fw_stat2 = Some 2, fw_data = None\<rparr>;
       p = foldl (\<lambda>p w. snd (fpv_Groups w p)) (the (NewFileProvider ''f'' w0)) [broken, w0]
   in \<forall>(g, bs) \<in> set (fpv_groups p). \<forall>b \<in> set bs. pb_Address b \<noteq> []"
proof -
  let ?w0 = "\<lparr>fw_stat1 = Some 1, fw_stat2 = Some 1, fw_data = Some [(''g'', [\<lparr>fbe_Address = ''a'', fbe_Weight = 2\<rparr>])]\<rparr>"
  have n: "NewFileProvider ''f'' ?w0 = Some \<lparr>fpv_modTime = 1, fpv_groups = [(''g'', [\<lparr>pb_Address = ''a'', pb_Weight = 2\<rparr>])]\<rparr>"
    by (simp add: NewFileProvider_def fpv_reload_def fileGroups_def)
  show ?thesis unfolding Let_def n option.sel using file_pool_consistent [OF n refl] by blast
qed

end
