(* ===== verification/Server.thy ===== *)
theory Server
  imports RouteStore Pool
begin

text \<open>
  The control-plane server (\<open>internal/controlplane/server.go\<close>) and its traffic history
  (\<open>metricshistory.go\<close>).

  The record \<open>Server\<close> has the fields of the struct. A subscriber channel is a number with its queue, which
  holds at most four messages, and whether a message for it was dropped, which the code logs. A map that is
  iterated is an association list. Every critical section is one step; an operation with several is
  composed of them, and \<open>Streams\<close> interleaves them. The answers of the provider and the clock readings
  are arguments. Versions, totals and counts are unbounded integers. Logging is left out.
\<close>

section \<open>Data\<close>

record 'm subChan =
  ch_queue :: "'m list"
  ch_dropped :: bool

type_synonym backendHealthKey = "string \<times> string \<times> string"

record healthEntry =
  hl_healthy :: bool
  hl_reportedAt :: gotime

type_synonym metricsKey = "string \<times> string"

record metricsEntry =
  me_requestsTotal :: int
  me_errors5xxTotal :: int
  me_activeConns :: int
  me_avgDurationMs :: rat
  me_reportedAt :: gotime

record instanceState =
  is_group :: string
  is_connectedAt :: gotime
  is_connected :: bool
  is_lastHealthReportAt :: gotime
  is_reportedBackends :: int

record historyPoint =
  hp_t :: gotime
  hp_requestsTotal :: int
  hp_errors5xxTotal :: int
  hp_activeConnections :: int
  hp_avgDurationMs :: rat

record 'st Server =
  sv_overrides :: OverrideStore
  sv_algorithms :: AlgorithmStore
  sv_routes :: "'st RouteStore"
  sv_sticky :: StickyStore
  sv_rateLimits :: RateLimitStore
  sv_subs :: "string \<rightharpoonup> (nat \<times> BackendSet subChan) list"
  sv_last :: "string \<rightharpoonup> BackendSet"
  sv_health :: "(backendHealthKey \<times> healthEntry) list"
  sv_metrics :: "(metricsKey \<times> metricsEntry) list"
  sv_instances :: "(string \<times> instanceState) list"
  sv_history :: "historyPoint list"
  sv_routeSubs :: "(nat \<times> RouteTableMsg subChan) list"
  sv_lastRoutes :: "RouteTableMsg option"

definition NewServer ::
    "OverrideStore option \<Rightarrow> AlgorithmStore option \<Rightarrow> 'st RouteStore option \<Rightarrow> StickyStore option \<Rightarrow> RateLimitStore option
       \<Rightarrow> 'st Server" where
  "NewServer overrides algorithms routes sticky rateLimits =
     \<lparr>sv_overrides = (case overrides of Some s \<Rightarrow> s | None \<Rightarrow> NewOverrideStore [] Map.empty),
      sv_algorithms = (case algorithms of Some s \<Rightarrow> s | None \<Rightarrow> NewAlgorithmStore [] Map.empty),
      sv_routes = (case routes of Some s \<Rightarrow> s | None \<Rightarrow> NewRouteStoreWithBackend (\<lambda>_ _. None) None []),
      sv_sticky = (case sticky of Some s \<Rightarrow> s | None \<Rightarrow> NewStickyStore [] Map.empty),
      sv_rateLimits = (case rateLimits of Some s \<Rightarrow> s | None \<Rightarrow> NewRateLimitStore [] Map.empty),
      sv_subs = Map.empty, sv_last = Map.empty, sv_health = [], sv_metrics = [], sv_instances = [], sv_history = [],
      sv_routeSubs = [], sv_lastRoutes = None\<rparr>"

section \<open>Backend sets\<close>

definition snapshotToBackendSet ::
    "string \<Rightarrow> Snapshot \<Rightarrow> (string \<times> Override) list \<Rightarrow> string \<Rightarrow> cpStickyConfig \<Rightarrow> cpRateLimitConfig \<Rightarrow> BackendSet" where
  "snapshotToBackendSet g snap overrides algorithm sticky rateLimit =
     \<lparr>BS_Group = g,
      BS_Backends =
        map (\<lambda>b. \<lparr>Backend_Address = pb_Address b,
                   Backend_Weight = (case map_of overrides (pb_Address b) of
                      Some ov \<Rightarrow> (case ov_Weight ov of Some w \<Rightarrow> w | None \<Rightarrow> pb_Weight b)
                    | None \<Rightarrow> pb_Weight b)\<rparr>)
          (filter (\<lambda>b. \<not> (case map_of overrides (pb_Address b) of Some ov \<Rightarrow> ov_Drained ov | None \<Rightarrow> False))
            (sn_Backends snap)),
      BS_Version = 0,
      BS_Algorithm = algorithm,
      BS_Sticky = cs_Enabled sticky,
      BS_StickyCookieName = effectiveCookieName sticky,
      BS_StickyTtlSeconds = int_Seconds (effectiveTTL sticky),
      BS_RateLimitRps = (if cr_Enabled rateLimit then effectiveRPS rateLimit else 0),
      BS_RateLimitBurst =
        (if cr_Enabled rateLimit
         then (let b = effectiveBurst rateLimit in if b > max_int32 then max_int32 else b)
         else 0)\<rparr>"

fun equalLoop :: "Backend list \<Rightarrow> (string \<times> int) list \<Rightarrow> bool" where
  "equalLoop [] count = (count = [])"
| "equalLoop (be # bes) count =
     (case map_of count (Backend_Address be) of
        None \<Rightarrow> False
      | Some w \<Rightarrow> if w \<noteq> Backend_Weight be then False else equalLoop bes (AList.delete (Backend_Address be) count))"

definition backendSetsEqual :: "BackendSet option \<Rightarrow> BackendSet option \<Rightarrow> bool" where
  "backendSetsEqual a b =
     (case a of
        None \<Rightarrow> b = None
      | Some a \<Rightarrow>
          (case b of
             None \<Rightarrow> False
           | Some b \<Rightarrow>
               if length (BS_Backends a) \<noteq> length (BS_Backends b) then False
               else equalLoop (BS_Backends b)
                 (foldl (\<lambda>m be. AList.update (Backend_Address be) (Backend_Weight be) m) [] (BS_Backends a))))"

section \<open>Publishing\<close>

text \<open>The non-blocking send: a full queue drops the message.\<close>

definition trySend :: "'m \<Rightarrow> 'm subChan \<Rightarrow> 'm subChan" where
  "trySend m ch =
     (if length (ch_queue ch) < 4 then ch\<lparr>ch_queue := ch_queue ch @ [m]\<rparr> else ch\<lparr>ch_dropped := True\<rparr>)"

definition sendAll :: "'m \<Rightarrow> (nat \<times> 'm subChan) list \<Rightarrow> (nat \<times> 'm subChan) list" where
  "sendAll m subs = map (\<lambda>(c, ch). (c, trySend m ch)) subs"

text \<open>The set to publish is computed from the stores before the server's lock is taken.\<close>

definition prepareSet :: "string \<Rightarrow> Snapshot \<Rightarrow> 'st Server \<Rightarrow> BackendSet" where
  "prepareSet g snap sv =
     snapshotToBackendSet g snap (os_GroupOverrides (sv_overrides sv) g) (as_Get (sv_algorithms sv) g)
       (ss_Get (sv_sticky sv) g) (rs_Get (sv_rateLimits sv) g)"

definition commitSet :: "string \<Rightarrow> BackendSet \<Rightarrow> 'st Server \<Rightarrow> 'st Server" where
  "commitSet g new sv =
     (let version = (case sv_last sv g of None \<Rightarrow> 1 | Some prev \<Rightarrow> BS_Version prev + 1);
          new = new\<lparr>BS_Version := version\<rparr>
      in sv\<lparr>sv_last := (sv_last sv)(g \<mapsto> new),
            sv_subs := (case sv_subs sv g of
                          None \<Rightarrow> sv_subs sv
                        | Some subs \<Rightarrow> (sv_subs sv)(g \<mapsto> sendAll new subs))\<rparr>)"

definition commitIfChanged :: "string \<Rightarrow> BackendSet \<Rightarrow> 'st Server \<Rightarrow> 'st Server" where
  "commitIfChanged g new sv = (if backendSetsEqual (sv_last sv g) (Some new) then sv else commitSet g new sv)"

definition publishIfChanged :: "string \<Rightarrow> Snapshot \<Rightarrow> 'st Server \<Rightarrow> 'st Server" where
  "publishIfChanged g snap sv = commitIfChanged g (prepareSet g snap sv) sv"

definition forceRepublish :: "(string \<Rightarrow> Snapshot option) \<Rightarrow> string \<Rightarrow> 'st Server \<Rightarrow> 'st Server" where
  "forceRepublish snapshot g sv =
     (case snapshot g of None \<Rightarrow> sv | Some snap \<Rightarrow> commitSet g (prepareSet g snap sv) sv)"

definition reconcileGroup :: "(string \<Rightarrow> Snapshot option) \<Rightarrow> string \<Rightarrow> 'st Server \<Rightarrow> 'st Server" where
  "reconcileGroup snapshot g sv = (case snapshot g of None \<Rightarrow> sv | Some snap \<Rightarrow> publishIfChanged g snap sv)"

definition reconcile :: "string list option \<Rightarrow> (string \<Rightarrow> Snapshot option) \<Rightarrow> 'st Server \<Rightarrow> 'st Server" where
  "reconcile groups snapshot sv = (case groups of None \<Rightarrow> sv | Some gs \<Rightarrow> foldl (\<lambda>sv g. reconcileGroup snapshot g sv) sv gs)"

section \<open>Changing settings\<close>

text \<open>
  A handler that changes a setting stores it and republishes the group unless storing failed. A panic
  of the store passes through the handler.
\<close>

definition afterStore :: "storeResult \<Rightarrow> ('st Server \<Rightarrow> 'st Server) \<Rightarrow> 'st Server \<Rightarrow> 'st Server" where
  "afterStore res republish sv = (if res = StoreOk then republish sv else sv)"

definition SetOverride ::
    "persistEnv \<Rightarrow> (string \<Rightarrow> Snapshot option) \<Rightarrow> string \<Rightarrow> string \<Rightarrow> int option \<Rightarrow> bool \<Rightarrow> 'st Server \<times> filesystem
       \<Rightarrow> storeResult \<times> 'st Server \<times> filesystem" where
  "SetOverride env snapshot g address weight drained sf =
     (let (sv, fs) = sf; (res, st, fs1) = os_Set env g address weight drained (sv_overrides sv, fs)
      in (res, afterStore res (forceRepublish snapshot g) (sv\<lparr>sv_overrides := st\<rparr>), fs1))"

definition ClearOverride ::
    "persistEnv \<Rightarrow> (string \<Rightarrow> Snapshot option) \<Rightarrow> string \<Rightarrow> string \<Rightarrow> 'st Server \<times> filesystem
       \<Rightarrow> storeResult \<times> 'st Server \<times> filesystem" where
  "ClearOverride env snapshot g address sf =
     (let (sv, fs) = sf; (res, st, fs1) = os_Clear env g address (sv_overrides sv, fs)
      in (res, afterStore res (forceRepublish snapshot g) (sv\<lparr>sv_overrides := st\<rparr>), fs1))"

definition SetAlgorithm ::
    "persistEnv \<Rightarrow> (string \<Rightarrow> Snapshot option) \<Rightarrow> string \<Rightarrow> string \<Rightarrow> 'st Server \<times> filesystem
       \<Rightarrow> storeResult \<times> 'st Server \<times> filesystem" where
  "SetAlgorithm env snapshot g algorithm sf =
     (let (sv, fs) = sf; (res, st, fs1) = as_Set env g algorithm (sv_algorithms sv, fs)
      in (res, afterStore res (forceRepublish snapshot g) (sv\<lparr>sv_algorithms := st\<rparr>), fs1))"

definition SetSticky ::
    "persistEnv \<Rightarrow> (string \<Rightarrow> Snapshot option) \<Rightarrow> string \<Rightarrow> cpStickyConfig \<Rightarrow> 'st Server \<times> filesystem
       \<Rightarrow> storeResult \<times> 'st Server \<times> filesystem" where
  "SetSticky env snapshot g cfg sf =
     (let (sv, fs) = sf; (res, st, fs1) = ss_Set env g cfg (sv_sticky sv, fs)
      in (res, afterStore res (forceRepublish snapshot g) (sv\<lparr>sv_sticky := st\<rparr>), fs1))"

definition sv_Sticky :: "'st Server \<Rightarrow> string \<Rightarrow> cpStickyConfig" where
  "sv_Sticky sv g = ss_Get (sv_sticky sv) g"

definition SetRateLimit ::
    "persistEnv \<Rightarrow> (string \<Rightarrow> Snapshot option) \<Rightarrow> string \<Rightarrow> cpRateLimitConfig \<Rightarrow> 'st Server \<times> filesystem
       \<Rightarrow> storeResult \<times> 'st Server \<times> filesystem" where
  "SetRateLimit env snapshot g cfg sf =
     (let (sv, fs) = sf; (res, st, fs1) = rs_Set env g cfg (sv_rateLimits sv, fs)
      in (res, afterStore res (forceRepublish snapshot g) (sv\<lparr>sv_rateLimits := st\<rparr>), fs1))"

definition sv_RateLimit :: "'st Server \<Rightarrow> string \<Rightarrow> cpRateLimitConfig" where
  "sv_RateLimit sv g = rs_Get (sv_rateLimits sv) g"

section \<open>Routes\<close>

definition routeToProto :: "cpRoute \<Rightarrow> Route" where
  "routeToProto r =
     \<lparr>Route_Host = cr_Host r, Route_PathPrefix = cr_PathPrefix r, Route_Methods = cr_Methods r,
      Route_TargetGroup = cr_TargetGroup r, Route_Name = cr_Name r,
      Route_Split = map (\<lambda>t. \<lparr>RT_Group = crt_Group t, RT_Weight = crt_Weight t\<rparr>) (filter (\<lambda>t. crt_Group t \<noteq> []) (cr_Split r)),
      Route_Rewrite = map_option (\<lambda>rw. \<lparr>RW_SetRequestHeaders = crw_SetRequestHeaders rw,
         RW_RemoveRequestHeaders = crw_RemoveRequestHeaders rw, RW_SetResponseHeaders = crw_SetResponseHeaders rw,
         RW_RemoveResponseHeaders = crw_RemoveResponseHeaders rw, RW_StripPathPrefix = crw_StripPathPrefix rw,
         RW_AddPathPrefix = crw_AddPathPrefix rw\<rparr>) (cr_Rewrite r),
      Route_Auth = (case cr_Auth r of
         None \<Rightarrow> None
       | Some a \<Rightarrow>
           if cra_Mode a \<noteq> [] \<and> cra_Mode a \<noteq> ''none'' then
             Some \<lparr>RA_Mode = cra_Mode a, RA_ApiKeys = cra_APIKeys a, RA_ApiKeyHeader = cra_APIKeyHeader a,
               RA_HmacSecret = cra_HMACSecret a, RA_RsaPublicKeyPem = cra_RSAPublicKeyPEM a,
               RA_ExpectedIssuer = cra_ExpectedIssuer a, RA_ExpectedAudience = cra_ExpectedAudience a\<rparr>
           else None),
      Route_HeaderMatches = map (\<lambda>m. Some \<lparr>HM_Name = chm_Name m, HM_Value = chm_Value m\<rparr>)
         (filter (\<lambda>m. chm_Name m \<noteq> []) (cr_HeaderMatches r)),
      Route_QueryMatches = map (\<lambda>m. Some \<lparr>QM_Name = cqm_Name m, QM_Value = cqm_Value m\<rparr>)
         (filter (\<lambda>m. cqm_Name m \<noteq> []) (cr_QueryMatches r))\<rparr>"

text \<open>The table is built from the store before the lock of the route subscribers is taken.\<close>

definition buildTable :: "int \<Rightarrow> cpRoute list \<Rightarrow> RouteTableMsg" where
  "buildTable version routes = \<lparr>RTM_Routes = map routeToProto routes, RTM_Version = version\<rparr>"

definition commitRoutes :: "RouteTableMsg \<Rightarrow> 'st Server \<Rightarrow> 'st Server" where
  "commitRoutes table sv = sv\<lparr>sv_lastRoutes := Some table, sv_routeSubs := sendAll table (sv_routeSubs sv)\<rparr>"

definition publishRoutes :: "'st Server \<Rightarrow> 'st Server" where
  "publishRoutes sv = commitRoutes (buildTable (rts_version (sv_routes sv)) (rts_routes (sv_routes sv))) sv"

definition SetRoutes ::
    "('e \<Rightarrow> string \<Rightarrow> content \<Rightarrow> 'st \<Rightarrow> bool \<times> 'st) \<Rightarrow> 'e \<Rightarrow> cpRoute list \<Rightarrow> 'st Server \<Rightarrow> bool \<times> 'st Server" where
  "SetRoutes save e routes sv =
     (let (ok, st) = rts_Set save e routes (sv_routes sv); sv1 = sv\<lparr>sv_routes := st\<rparr>
      in if ok then (True, publishRoutes sv1) else (False, sv1))"

definition sv_Routes :: "'st Server \<Rightarrow> cpRoute list" where
  "sv_Routes sv = rts_routes (sv_routes sv)"

section \<open>Subscriptions\<close>

definition newChan :: "'m subChan" where
  "newChan = \<lparr>ch_queue = [], ch_dropped = False\<rparr>"

definition sv_subscribe :: "string \<Rightarrow> nat \<Rightarrow> 'st Server \<Rightarrow> 'st Server" where
  "sv_subscribe g c sv =
     (let subs = (case sv_subs sv g of None \<Rightarrow> [] | Some subs \<Rightarrow> subs)
      in sv\<lparr>sv_subs := (sv_subs sv)(g \<mapsto> AList.update c newChan subs)\<rparr>)"

definition sv_unsubscribe :: "string \<Rightarrow> nat \<Rightarrow> 'st Server \<Rightarrow> 'st Server" where
  "sv_unsubscribe g c sv =
     (case sv_subs sv g of
        None \<Rightarrow> sv
      | Some subs \<Rightarrow> sv\<lparr>sv_subs := (sv_subs sv)(g \<mapsto> AList.delete c subs)\<rparr>)"

definition markInstanceConnected :: "gotime \<Rightarrow> string \<Rightarrow> string \<Rightarrow> 'st Server \<Rightarrow> 'st Server" where
  "markInstanceConnected now instanceID g sv =
     (if instanceID = [] then sv
      else sv\<lparr>sv_instances := AList.update instanceID
             \<lparr>is_group = g, is_connectedAt = now, is_connected = True, is_lastHealthReportAt = zero_time, is_reportedBackends = 0\<rparr>
             (sv_instances sv)\<rparr>)"

definition markInstanceDisconnected :: "string \<Rightarrow> 'st Server \<Rightarrow> 'st Server" where
  "markInstanceDisconnected instanceID sv =
     (if instanceID = [] then sv
      else case map_of (sv_instances sv) instanceID of
        None \<Rightarrow> sv
      | Some st \<Rightarrow> sv\<lparr>sv_instances := AList.update instanceID (st\<lparr>is_connected := False\<rparr>) (sv_instances sv)\<rparr>)"

definition recordInstanceHealthReport :: "string \<Rightarrow> int \<Rightarrow> gotime \<Rightarrow> 'st Server \<Rightarrow> 'st Server" where
  "recordInstanceHealthReport instanceID backendCount now sv =
     (if instanceID = [] then sv
      else case map_of (sv_instances sv) instanceID of
        None \<Rightarrow> sv
      | Some st \<Rightarrow> sv\<lparr>sv_instances := AList.update instanceID
            (st\<lparr>is_lastHealthReportAt := now, is_reportedBackends := backendCount\<rparr>) (sv_instances sv)\<rparr>)"

text \<open>
  The parts of \<open>StreamBackends\<close>: what it does before the first message, the receipt of one update from
  its channel, and its deferred calls.
\<close>

definition streamOpen :: "gotime \<Rightarrow> nat \<Rightarrow> StreamBackendsRequest \<Rightarrow> 'st Server \<Rightarrow> 'st Server" where
  "streamOpen now c req sv =
     markInstanceConnected now (sbr_InstanceId req) (sbr_Group req) (sv_subscribe (sbr_Group req) c sv)"

definition chanRecv :: "nat \<Rightarrow> (nat \<times> 'm subChan) list \<Rightarrow> ('m \<times> (nat \<times> 'm subChan) list) option" where
  "chanRecv c subs =
     (case map_of subs c of
        None \<Rightarrow> None
      | Some ch \<Rightarrow>
          (case ch_queue ch of
             [] \<Rightarrow> None
           | m # q \<Rightarrow> Some (m, AList.update c (ch\<lparr>ch_queue := q\<rparr>) subs)))"

definition streamRecv :: "string \<Rightarrow> nat \<Rightarrow> 'st Server \<Rightarrow> (BackendSet \<times> 'st Server) option" where
  "streamRecv g c sv =
     (case sv_subs sv g of
        None \<Rightarrow> None
      | Some subs \<Rightarrow> map_option (\<lambda>(m, subs1). (m, sv\<lparr>sv_subs := (sv_subs sv)(g \<mapsto> subs1)\<rparr>)) (chanRecv c subs))"

definition streamClose :: "nat \<Rightarrow> StreamBackendsRequest \<Rightarrow> 'st Server \<Rightarrow> 'st Server" where
  "streamClose c req sv =
     sv_unsubscribe (sbr_Group req) c (markInstanceDisconnected (sbr_InstanceId req) sv)"

text \<open>The parts of \<open>StreamRoutes\<close>.\<close>

definition routesOpen :: "nat \<Rightarrow> 'st Server \<Rightarrow> RouteTableMsg option \<times> 'st Server" where
  "routesOpen c sv = (sv_lastRoutes sv, sv\<lparr>sv_routeSubs := AList.update c newChan (sv_routeSubs sv)\<rparr>)"

definition routesRecv :: "nat \<Rightarrow> 'st Server \<Rightarrow> (RouteTableMsg \<times> 'st Server) option" where
  "routesRecv c sv = map_option (\<lambda>(m, subs). (m, sv\<lparr>sv_routeSubs := subs\<rparr>)) (chanRecv c (sv_routeSubs sv))"

definition routesClose :: "nat \<Rightarrow> 'st Server \<Rightarrow> 'st Server" where
  "routesClose c sv = sv\<lparr>sv_routeSubs := AList.delete c (sv_routeSubs sv)\<rparr>"

section \<open>Reports\<close>

definition healthReportMaxAge :: duration where "healthReportMaxAge = 30 * second"

definition metricsReportMaxAge :: duration where "metricsReportMaxAge = 30 * second"

definition ReportHealth :: "gotime \<Rightarrow> HealthReport \<Rightarrow> 'st Server \<Rightarrow> 'st Server" where
  "ReportHealth now report sv =
     recordInstanceHealthReport (HR_InstanceId report) (int (length (HR_Backends report))) now
       (sv\<lparr>sv_health := foldl (\<lambda>m bh. AList.update (HR_Group report, HR_InstanceId report, BH_Address bh)
             \<lparr>hl_healthy = BH_Healthy bh, hl_reportedAt = now\<rparr> m) (sv_health sv) (HR_Backends report)\<rparr>)"

record GroupMetricsSnapshot =
  gs_Group :: string
  gs_RequestsTotal :: int
  gs_Errors5xxTotal :: int
  gs_ActiveConnections :: int
  gs_AvgDurationMs :: rat
  gs_ReportingInstances :: int

definition addMetrics :: "string \<Rightarrow> metricsEntry \<Rightarrow> (string \<times> GroupMetricsSnapshot) list \<Rightarrow> (string \<times> GroupMetricsSnapshot) list" where
  "addMetrics g entry byGroup =
     (let s = (case map_of byGroup g of
                 Some s \<Rightarrow> s
               | None \<Rightarrow> \<lparr>gs_Group = g, gs_RequestsTotal = 0, gs_Errors5xxTotal = 0, gs_ActiveConnections = 0,
                          gs_AvgDurationMs = 0, gs_ReportingInstances = 0\<rparr>)
      in AList.update g
           (s\<lparr>gs_RequestsTotal := gs_RequestsTotal s + me_requestsTotal entry,
              gs_Errors5xxTotal := gs_Errors5xxTotal s + me_errors5xxTotal entry,
              gs_ActiveConnections := gs_ActiveConnections s + me_activeConns entry,
              gs_AvgDurationMs := f64 (gs_AvgDurationMs s + me_avgDurationMs entry),
              gs_ReportingInstances := gs_ReportingInstances s + 1\<rparr>) byGroup)"

definition MetricsSnapshot :: "gotime \<Rightarrow> 'st Server \<Rightarrow> GroupMetricsSnapshot list" where
  "MetricsSnapshot now sv =
     (let byGroup = foldl (\<lambda>m (key, entry).
            if time_sub now (me_reportedAt entry) > metricsReportMaxAge then m else addMetrics (snd key) entry m)
            [] (sv_metrics sv);
          out = map (\<lambda>(g, s). if gs_ReportingInstances s > 0
                  then s\<lparr>gs_AvgDurationMs := f64 (gs_AvgDurationMs s / of_int (gs_ReportingInstances s))\<rparr> else s) byGroup
      in sort_key gs_Group out)"

section \<open>History\<close>

definition maxHistoryPoints :: nat where "maxHistoryPoints = 250"

definition historyBucketWidth :: duration where "historyBucketWidth = 5 * second"

definition historyTotals :: "GroupMetricsSnapshot list \<Rightarrow> gotime \<Rightarrow> historyPoint" where
  "historyTotals snapshots now =
     \<lparr>hp_t = now, hp_requestsTotal = sum_list (map gs_RequestsTotal snapshots),
      hp_errors5xxTotal = sum_list (map gs_Errors5xxTotal snapshots),
      hp_activeConnections = sum_list (map gs_ActiveConnections snapshots),
      hp_avgDurationMs =
        (if snapshots = [] then 0
         else f64 (foldl (\<lambda>x s. f64 (x + gs_AvgDurationMs s)) 0 snapshots / of_nat (length snapshots)))\<rparr>"

definition history_record :: "gotime \<Rightarrow> GroupMetricsSnapshot list \<Rightarrow> historyPoint list \<Rightarrow> historyPoint list" where
  "history_record now snapshots points =
     (let p = historyTotals snapshots now
      in if points \<noteq> [] \<and> time_sub now (hp_t (last points)) < historyBucketWidth
         then butlast points @ [p\<lparr>hp_t := hp_t (last points)\<rparr>]
         else
           (let points1 = points @ [p]
            in if length points1 > maxHistoryPoints then drop 1 points1 else points1))"

record HistoryPoint =
  hs_Time :: gotime
  hs_RequestsDelta :: int
  hs_Errors5xxDelta :: int
  hs_ActiveConns :: int
  hs_AvgDurationMs :: rat

definition historyDelta :: "(historyPoint \<Rightarrow> int) \<Rightarrow> historyPoint option \<Rightarrow> historyPoint \<Rightarrow> int" where
  "historyDelta f prev p =
     (case prev of
        None \<Rightarrow> 0
      | Some q \<Rightarrow> let d = f p - f q in if d < 0 then 0 else d)"

definition history_Recent :: "nat \<Rightarrow> historyPoint list \<Rightarrow> HistoryPoint list" where
  "history_Recent n points =
     (let start = (if length points > n then length points - n else 0);
          src = drop start points
      in map (\<lambda>i. let p = src ! i;
                      prev = (if i > 0 then Some (src ! (i - 1))
                              else if start > 0 then Some (points ! (start - 1)) else None)
                  in \<lparr>hs_Time = hp_t p, hs_RequestsDelta = historyDelta hp_requestsTotal prev p,
                      hs_Errors5xxDelta = historyDelta hp_errors5xxTotal prev p,
                      hs_ActiveConns = hp_activeConnections p, hs_AvgDurationMs = hp_avgDurationMs p\<rparr>)
           [0 ..< length src])"

definition sv_MetricsHistory :: "nat \<Rightarrow> 'st Server \<Rightarrow> HistoryPoint list" where
  "sv_MetricsHistory n sv = history_Recent n (sv_history sv)"

text \<open>\<open>ReportMetrics\<close> reads the clock for the entries, for the aggregation and for the history.\<close>

definition ReportMetrics :: "gotime \<Rightarrow> gotime \<Rightarrow> gotime \<Rightarrow> MetricsReport \<Rightarrow> 'st Server \<Rightarrow> 'st Server" where
  "ReportMetrics now now1 now2 report sv =
     (let sv1 = sv\<lparr>sv_metrics := foldl (\<lambda>m gm. AList.update (MR_InstanceId report, GM_Group gm)
            \<lparr>me_requestsTotal = GM_RequestsTotal gm, me_errors5xxTotal = GM_Errors5xxTotal gm,
             me_activeConns = GM_ActiveConnections gm, me_avgDurationMs = GM_AvgDurationMs gm, me_reportedAt = now\<rparr> m)
            (sv_metrics sv) (MR_Groups report)\<rparr>
      in sv1\<lparr>sv_history := history_record now2 (MetricsSnapshot now1 sv1) (sv_history sv1)\<rparr>)"

section \<open>Views\<close>

definition healthForAddress :: "gotime \<Rightarrow> 'st Server \<Rightarrow> string \<Rightarrow> string \<Rightarrow> bool \<times> bool" where
  "healthForAddress now sv g address =
     foldl (\<lambda>(healthy, hasData) (key, entry).
       if fst key \<noteq> g \<or> snd (snd key) \<noteq> address then (healthy, hasData)
       else if time_sub now (hl_reportedAt entry) > healthReportMaxAge then (healthy, hasData)
       else (if \<not> hl_healthy entry then False else healthy, True)) (True, False) (sv_health sv)"

record BackendState =
  bst_Address :: string
  bst_Weight :: int
  bst_Healthy :: bool
  bst_HealthKnown :: bool
  bst_Drained :: bool
  bst_WeightOverridden :: bool

record GroupState =
  grs_Group :: string
  grs_Version :: int
  grs_Backends :: "BackendState list"
  grs_SubscriberCount :: nat
  grs_Algorithm :: string
  grs_Sticky :: cpStickyConfig
  grs_RateLimit :: cpRateLimitConfig

definition backendState :: "gotime \<Rightarrow> 'st Server \<Rightarrow> string \<Rightarrow> PoolBackend \<Rightarrow> BackendState" where
  "backendState now sv g b =
     (let ov = map_of (os_GroupOverrides (sv_overrides sv) g) (pb_Address b);
          w = (case ov of Some ov \<Rightarrow> ov_Weight ov | None \<Rightarrow> None);
          (healthy, known) = healthForAddress now sv g (pb_Address b)
      in \<lparr>bst_Address = pb_Address b, bst_Weight = (case w of Some w \<Rightarrow> w | None \<Rightarrow> pb_Weight b),
          bst_Healthy = healthy, bst_HealthKnown = known,
          bst_Drained = (case ov of Some ov \<Rightarrow> ov_Drained ov | None \<Rightarrow> False), bst_WeightOverridden = (w \<noteq> None)\<rparr>)"

definition groupState :: "gotime \<Rightarrow> 'st Server \<Rightarrow> string \<Rightarrow> Snapshot \<Rightarrow> GroupState" where
  "groupState now sv g snap =
     \<lparr>grs_Group = g, grs_Version = (case sv_last sv g of Some l \<Rightarrow> BS_Version l | None \<Rightarrow> 0),
      grs_Backends = map (backendState now sv g) (sn_Backends snap),
      grs_SubscriberCount = (case sv_subs sv g of Some subs \<Rightarrow> length subs | None \<Rightarrow> 0),
      grs_Algorithm = as_Get (sv_algorithms sv) g, grs_Sticky = ss_Get (sv_sticky sv) g,
      grs_RateLimit = rs_Get (sv_rateLimits sv) g\<rparr>"

definition sv_Snapshot :: "gotime \<Rightarrow> string list option \<Rightarrow> (string \<Rightarrow> Snapshot option) \<Rightarrow> 'st Server \<Rightarrow> GroupState list" where
  "sv_Snapshot now groups snapshot sv =
     (case groups of
        None \<Rightarrow> []
      | Some gs \<Rightarrow> concat (map (\<lambda>g. case snapshot g of None \<Rightarrow> [] | Some snap \<Rightarrow> [groupState now sv g snap]) gs))"

record InstanceState =
  ist_InstanceID :: string
  ist_Group :: string
  ist_Connected :: bool
  ist_ConnectedSince :: gotime
  ist_LastHealthReport :: gotime
  ist_ReportedBackends :: int

definition FleetSnapshot :: "'st Server \<Rightarrow> InstanceState list" where
  "FleetSnapshot sv =
     sort_key ist_InstanceID
       (map (\<lambda>(id, st). \<lparr>ist_InstanceID = id, ist_Group = is_group st, ist_Connected = is_connected st,
               ist_ConnectedSince = is_connectedAt st, ist_LastHealthReport = is_lastHealthReportAt st,
               ist_ReportedBackends = is_reportedBackends st\<rparr>) (sv_instances sv))"

end
