(* ===== verification/EdgeAuth.thy ===== *)
theory EdgeAuth
  imports Http Wire
begin

text \<open>
  Per-route edge authentication (\<open>internal/dataplane/edgeauth.go\<close>). An \<open>error\<close> result is \<open>Some\<close> of
  its message, \<open>nil\<close> is \<open>None\<close>. The token parser of \<open>golang-jwt\<close> is the parameter \<open>jwtParse\<close>: given
  the token, the key function and the issuer and audience options it returns an error or whether
  the token is valid. Decoding PEM and parsing the two public-key encodings are parameters as well.
  \<open>ConstantTimeCompare\<close> is equality of byte strings.
\<close>

section \<open>Definitions\<close>

record routeAuth =
  ra_mode :: string
  ra_apiKeys :: "string list"
  ra_apiKeyHeader :: string
  ra_hmacSecret :: string
  ra_rsaPublicKeyPEM :: string
  ra_expectedIssuer :: string
  ra_expectedAudience :: string

definition zeroAuth :: routeAuth where
  "zeroAuth = \<lparr>ra_mode = [], ra_apiKeys = [], ra_apiKeyHeader = [], ra_hmacSecret = [],
     ra_rsaPublicKeyPEM = [], ra_expectedIssuer = [], ra_expectedAudience = []\<rparr>"

definition authFromProto :: "RouteAuth option \<Rightarrow> routeAuth" where
  "authFromProto a =
     (case a of
        None \<Rightarrow> zeroAuth
      | Some a \<Rightarrow> \<lparr>ra_mode = RA_Mode a, ra_apiKeys = RA_ApiKeys a, ra_apiKeyHeader = RA_ApiKeyHeader a,
          ra_hmacSecret = RA_HmacSecret a, ra_rsaPublicKeyPEM = RA_RsaPublicKeyPem a,
          ra_expectedIssuer = RA_ExpectedIssuer a, ra_expectedAudience = RA_ExpectedAudience a\<rparr>)"

definition auth_enabled :: "routeAuth \<Rightarrow> bool" where
  "auth_enabled a \<longleftrightarrow> ra_mode a = ''api_key'' \<or> ra_mode a = ''jwt''"

definition apiKeyLoop :: "string \<Rightarrow> string list \<Rightarrow> bool" where
  "apiKeyLoop presented ks = foldl (\<lambda>ok k. if presented = k then True else ok) False ks"

definition checkAPIKey :: "routeAuth \<Rightarrow> Request \<Rightarrow> string option" where
  "checkAPIKey a r =
     (let header = (if ra_apiKeyHeader a = [] then ''X-API-Key'' else ra_apiKeyHeader a);
          presented = header_Get (rq_Header r) header
      in if presented = [] then Some ''missing API key''
         else if \<not> apiKeyLoop presented (ra_apiKeys a) then Some ''invalid API key'' else None)"

datatype signingMethod = SigningMethodHMAC | SigningMethodRSA | SigningMethodOther

datatype 'k verifyKey = HmacKey string | PublicKey 'k

definition parseRSAPublicKey ::
    "(string \<Rightarrow> string option) \<Rightarrow> (string \<Rightarrow> string + 'k) \<Rightarrow> (string \<Rightarrow> string + 'k) \<Rightarrow> string \<Rightarrow> string + 'k" where
  "parseRSAPublicKey pemDecode parsePKIX parsePKCS1 pemBytes =
     (case pemDecode pemBytes of
        None \<Rightarrow> Inl ''invalid PEM for RSA public key''
      | Some bytes \<Rightarrow> (case parsePKIX bytes of Inr pub \<Rightarrow> Inr pub | Inl _ \<Rightarrow> parsePKCS1 bytes))"

definition keyFunc :: "(string \<Rightarrow> string + 'k) \<Rightarrow> routeAuth \<Rightarrow> signingMethod \<Rightarrow> string + 'k verifyKey" where
  "keyFunc parseKey a m =
     (case m of
        SigningMethodHMAC \<Rightarrow>
          if ra_hmacSecret a = [] then Inl ''HMAC token presented but no hmac_secret configured''
          else Inr (HmacKey (ra_hmacSecret a))
      | SigningMethodRSA \<Rightarrow>
          if ra_rsaPublicKeyPEM a = [] then Inl ''RSA token presented but no rsa_public_key configured''
          else map_sum id PublicKey (parseKey (ra_rsaPublicKeyPEM a))
      | SigningMethodOther \<Rightarrow> Inl ''unexpected signing method'')"

type_synonym 'k jwtParser =
  "string \<Rightarrow> (signingMethod \<Rightarrow> string + 'k verifyKey) \<Rightarrow> string option \<Rightarrow> string option \<Rightarrow> string + bool"

definition checkJWT :: "'k jwtParser \<Rightarrow> (string \<Rightarrow> string + 'k) \<Rightarrow> routeAuth \<Rightarrow> Request \<Rightarrow> string option" where
  "checkJWT jwtParse parseKey a r =
     (let authz = header_Get (rq_Header r) ''Authorization''; prefix = ''Bearer ''
      in if length authz < length prefix \<or> \<not> EqualFold (take (length prefix) authz) prefix
         then Some ''missing bearer token''
         else
           (let tokenStr = drop (length prefix) authz;
                issuer = (if ra_expectedIssuer a \<noteq> [] then Some (ra_expectedIssuer a) else None);
                audience = (if ra_expectedAudience a \<noteq> [] then Some (ra_expectedAudience a) else None)
            in case jwtParse tokenStr (keyFunc parseKey a) issuer audience of
                 Inl err \<Rightarrow> Some err
               | Inr valid \<Rightarrow> if valid then None else Some ''invalid token''))"

definition authenticate ::
    "'k jwtParser \<Rightarrow> (string \<Rightarrow> string + 'k) \<Rightarrow> routeAuth \<Rightarrow> Request \<Rightarrow> string option" where
  "authenticate jwtParse parseKey a r =
     (if ra_mode a = [] \<or> ra_mode a = ''none'' then None
      else if ra_mode a = ''api_key'' then checkAPIKey a r
      else if ra_mode a = ''jwt'' then checkJWT jwtParse parseKey a r
      else Some ''unknown auth mode'')"

definition authChallenge :: "routeAuth \<Rightarrow> string" where
  "authChallenge a =
     (if ra_mode a = ''jwt'' then ''Bearer''
      else ''ApiKey header='' @ (if ra_apiKeyHeader a = [] then ''X-API-Key'' else ra_apiKeyHeader a))"

section \<open>Lemmas\<close>

lemma apiKeyLoop_mem: "apiKeyLoop p ks \<longleftrightarrow> p \<in> set ks"
proof -
  have "foldl (\<lambda>ok k. if p = k then True else ok) b ks \<longleftrightarrow> b \<or> p \<in> set ks" for b
    by (induction ks arbitrary: b) auto
  then show ?thesis by (simp add: apiKeyLoop_def)
qed

text \<open>
  A route in mode \<open>api_key\<close> admits a request exactly when the request presents a non-empty key,
  in the configured header or \<open>X-API-Key\<close>, that is one of the configured keys.
\<close>

theorem api_key_exact:
  assumes "ra_mode a = ''api_key''"
  shows "authenticate jwtParse parseKey a r = None \<longleftrightarrow>
    (\<exists>k \<in> set (ra_apiKeys a). k \<noteq> [] \<and>
      header_Get (rq_Header r) (if ra_apiKeyHeader a = [] then ''X-API-Key'' else ra_apiKeyHeader a) = k)"
  using assms by (auto simp: authenticate_def checkAPIKey_def Let_def apiKeyLoop_mem)

definition demo_request :: "(string \<times> string) list \<Rightarrow> Request" where
  "demo_request hs = \<lparr>rq_Method = ''GET'', rq_Host = ''h'', rq_Path = ''/p'',
     rq_Header = foldr (\<lambda>(n, v). header_Set n v) hs Map.empty, rq_Query = Map.empty, rq_Cookies = [],
     rq_RemoteAddr = ''10.0.0.1:99'', rq_HasBody = False, rq_ContentLength = 0,
     rq_Proto = ''HTTP/1.1'', rq_MaxBytes = None\<rparr>"

theorem api_key_exact_witness:
  "authenticate (\<lambda>_ _ _ _. Inr False) (\<lambda>_. Inr ()) (zeroAuth\<lparr>ra_mode := ''api_key'', ra_apiKeys := [''s1'', ''s2'']\<rparr>)
     (demo_request [(''X-API-Key'', ''s2'')]) = None"
proof -
  have "authenticate (\<lambda>_ _ _ _. Inr False) (\<lambda>_. Inr ()) (zeroAuth\<lparr>ra_mode := ''api_key'', ra_apiKeys := [''s1'', ''s2'']\<rparr>)
      (demo_request [(''X-API-Key'', ''s2'')]) = None \<longleftrightarrow>
    (\<exists>k \<in> set [''s1'', ''s2'']. k \<noteq> [] \<and> header_Get (rq_Header (demo_request [(''X-API-Key'', ''s2'')])) ''X-API-Key'' = k)"
    using api_key_exact [of "zeroAuth\<lparr>ra_mode := ''api_key'', ra_apiKeys := [''s1'', ''s2'']\<rparr>"
        "\<lambda>_ _ _ _. Inr False" "\<lambda>_. Inr ()" "demo_request [(''X-API-Key'', ''s2'')]"]
    by (simp add: zeroAuth_def)
  then show ?thesis by (simp add: demo_request_def)
qed

text \<open>
  The documented contract of \<open>jwt.Parse\<close>: a token is accepted only if the key function returned a
  key for the signing method the token names and the signature verifies under that key.
\<close>

definition jwt_sound :: "('k verifyKey \<Rightarrow> string \<Rightarrow> bool) \<Rightarrow> (string \<Rightarrow> signingMethod) \<Rightarrow> 'k jwtParser \<Rightarrow> bool" where
  "jwt_sound verifies method jwtParse \<longleftrightarrow>
     (\<forall>tok kf iss aud. jwtParse tok kf iss aud = Inr True \<longrightarrow>
        (\<exists>key. kf (method tok) = Inr key \<and> verifies key tok))"

text \<open>
  C28. No key confusion in mode \<open>jwt\<close>: a request is admitted only with a bearer token that names HMAC
  and verifies under the configured secret, which is not empty, or that names RSA and verifies
  under the configured public key. In particular the public key is never used as an HMAC secret, and
  other signing methods are never accepted.
\<close>

theorem jwt_no_key_confusion:
  assumes "jwt_sound verifies method jwtParse" "ra_mode a = ''jwt''" "authenticate jwtParse parseKey a r = None"
  shows "\<exists>tok. EqualFold (take 7 (header_Get (rq_Header r) ''Authorization'')) ''Bearer '' \<and>
    tok = drop 7 (header_Get (rq_Header r) ''Authorization'') \<and>
    (method tok = SigningMethodHMAC \<and> ra_hmacSecret a \<noteq> [] \<and> verifies (HmacKey (ra_hmacSecret a)) tok \<or>
     method tok = SigningMethodRSA \<and> (\<exists>k. parseKey (ra_rsaPublicKeyPEM a) = Inr k \<and> verifies (PublicKey k) tok))"
proof -
  let ?authz = "header_Get (rq_Header r) ''Authorization''"
  define iss aud where "iss = (if ra_expectedIssuer a \<noteq> [] then Some (ra_expectedIssuer a) else None)"
    and "aud = (if ra_expectedAudience a \<noteq> [] then Some (ra_expectedAudience a) else None)"
  have L: "length ''Bearer '' = 7" by simp
  have c: "checkJWT jwtParse parseKey a r = None" using assms(2,3) by (simp add: authenticate_def)
  then have pre: "EqualFold (take 7 ?authz) ''Bearer ''"
    and p: "jwtParse (drop 7 ?authz) (keyFunc parseKey a) iss aud = Inr True"
    unfolding checkJWT_def Let_def L iss_def aud_def by (auto split: if_splits sum.splits)
  obtain key where key: "keyFunc parseKey a (method (drop 7 ?authz)) = Inr key" "verifies key (drop 7 ?authz)"
    using assms(1) p unfolding jwt_sound_def by blast
  have "method (drop 7 ?authz) = SigningMethodHMAC \<and> ra_hmacSecret a \<noteq> [] \<and> key = HmacKey (ra_hmacSecret a) \<or>
      method (drop 7 ?authz) = SigningMethodRSA \<and> (\<exists>k. parseKey (ra_rsaPublicKeyPEM a) = Inr k \<and> key = PublicKey k)"
    using key(1) by (cases "parseKey (ra_rsaPublicKeyPEM a)")
       (auto simp: keyFunc_def split: signingMethod.splits if_splits)
  then show ?thesis using pre key(2) by blast
qed

definition demo_jwt :: "unit jwtParser" where
  "demo_jwt tok kf iss aud =
     (case kf SigningMethodHMAC of Inl e \<Rightarrow> Inl e | Inr key \<Rightarrow> Inr (key = HmacKey tok))"

theorem jwt_no_key_confusion_witness:
  "authenticate demo_jwt (\<lambda>_. Inl ''no key'') (zeroAuth\<lparr>ra_mode := ''jwt'', ra_hmacSecret := ''s''\<rparr>)
     (demo_request [(''Authorization'', ''bearer s'')]) = None \<and>
   (\<exists>tok. tok = ''s'' \<and> (HmacKey ''s'' :: unit verifyKey) = HmacKey tok)"
proof -
  let ?a = "zeroAuth\<lparr>ra_mode := ''jwt'', ra_hmacSecret := ''s''\<rparr>"
  let ?r = "demo_request [(''Authorization'', ''bearer s'')]"
  have s: "jwt_sound (\<lambda>k tok. k = HmacKey tok) (\<lambda>_. SigningMethodHMAC) demo_jwt"
    by (auto simp: jwt_sound_def demo_jwt_def split: sum.splits)
  have h: "header_Get (rq_Header ?r) ''Authorization'' = ''bearer s''" by (simp add: demo_request_def)
  have "EqualFold ''bearer '' ''Bearer ''" by code_simp
  then have ok: "authenticate demo_jwt (\<lambda>_. Inl ''no key'') ?a ?r = None"
    by (simp add: authenticate_def checkJWT_def h demo_jwt_def keyFunc_def zeroAuth_def)
  show ?thesis using jwt_no_key_confusion [OF s _ ok] ok by (simp add: h zeroAuth_def)
qed

end
