(* ===== verification/Router.thy ===== *)
theory Router
  imports EdgeAuth Versioned
begin

text \<open>
  The data plane's route table (\<open>internal/dataplane/router.go\<close>): conversion of the pushed table,
  matching, weighted splits, and request and response rewrites. A Go map of headers to set is an
  association list: \<open>range\<close> visits it in some order, here the order of the list.
\<close>

section \<open>Data\<close>

record kvMatch =
  kv_name :: string
  kv_value :: string

record routeRewrite =
  rr_setRequestHeaders :: "(string \<times> string) list"
  rr_removeRequestHeaders :: "string list"
  rr_setResponseHeaders :: "(string \<times> string) list"
  rr_removeResponseHeaders :: "string list"
  rr_stripPathPrefix :: string
  rr_addPathPrefix :: string

record routeTarget =
  tg_group :: string
  tg_weight :: int

record route =
  r_host :: string
  r_pathPrefix :: string
  r_methods :: "string list"
  r_targetGroup :: string
  r_split :: "routeTarget list"
  r_rewrite :: routeRewrite
  r_auth :: routeAuth
  r_headerMatches :: "kvMatch list"
  r_queryMatches :: "kvMatch list"

record RouteTable =
  rt_routes :: "route list"
  rt_version :: int
  rt_defaultGroup :: string
  rt_rng :: "nat stream"

section \<open>Matching\<close>

definition zeroRewrite :: routeRewrite where
  "zeroRewrite = \<lparr>rr_setRequestHeaders = [], rr_removeRequestHeaders = [], rr_setResponseHeaders = [],
     rr_removeResponseHeaders = [], rr_stripPathPrefix = [], rr_addPathPrefix = []\<rparr>"

definition rewrite_isZero :: "routeRewrite \<Rightarrow> bool" where
  "rewrite_isZero rw \<longleftrightarrow> rr_setRequestHeaders rw = [] \<and> rr_removeRequestHeaders rw = [] \<and>
     rr_setResponseHeaders rw = [] \<and> rr_removeResponseHeaders rw = [] \<and>
     rr_stripPathPrefix rw = [] \<and> rr_addPathPrefix rw = []"

definition headerConditionMet :: "header option \<Rightarrow> kvMatch \<Rightarrow> bool" where
  "headerConditionMet header hm =
     (case header of
        None \<Rightarrow> False
      | Some h \<Rightarrow>
          if kv_value hm = [] then header_Values h (kv_name hm) \<noteq> []
          else list_ex (\<lambda>v. v = kv_value hm) (header_Values h (kv_name hm)))"

definition queryConditionMet :: "(string \<rightharpoonup> string list) option \<Rightarrow> kvMatch \<Rightarrow> bool" where
  "queryConditionMet query qm =
     (case query of
        None \<Rightarrow> False
      | Some q \<Rightarrow>
          (case q (kv_name qm) of
             None \<Rightarrow> False
           | Some vals \<Rightarrow> kv_value qm = [] \<or> list_ex (\<lambda>v. v = kv_value qm) vals))"

definition route_matches ::
    "route \<Rightarrow> string \<Rightarrow> string \<Rightarrow> string \<Rightarrow> header option \<Rightarrow> (string \<rightharpoonup> string list) option \<Rightarrow> bool" where
  "route_matches r host path method header query \<longleftrightarrow>
     (if r_host r \<noteq> [] \<and> r_host r \<noteq> ''*'' \<and> \<not> EqualFold (r_host r) host then False
      else if r_pathPrefix r \<noteq> [] \<and> r_pathPrefix r \<noteq> ''/'' \<and> \<not> HasPrefix path (r_pathPrefix r) then False
      else if r_methods r \<noteq> [] \<and> \<not> list_ex (\<lambda>m. EqualFold m method) (r_methods r) then False
      else if \<not> list_all (headerConditionMet header) (r_headerMatches r) then False
      else list_all (queryConditionMet query) (r_queryMatches r))"

section \<open>The table\<close>

definition NewRouteTable :: "nat stream \<Rightarrow> string \<Rightarrow> RouteTable" where
  "NewRouteTable rng defaultGroup =
     \<lparr>rt_routes = [], rt_version = 0, rt_defaultGroup = defaultGroup, rt_rng = rng\<rparr>"

fun splitFromProto :: "RouteTarget list \<Rightarrow> routeTarget list" where
  "splitFromProto [] = []"
| "splitFromProto (tgt # tgts) =
     (if RT_Group tgt = [] then splitFromProto tgts
      else \<lparr>tg_group = RT_Group tgt, tg_weight = (if RT_Weight tgt \<le> 0 then 1 else RT_Weight tgt)\<rparr>
             # splitFromProto tgts)"

fun kvMatchesFromProto :: "HeaderMatch option list \<Rightarrow> kvMatch list" where
  "kvMatchesFromProto [] = []"
| "kvMatchesFromProto (m # ms) =
     (case m of
        None \<Rightarrow> kvMatchesFromProto ms
      | Some h \<Rightarrow>
          if HM_Name h = [] then kvMatchesFromProto ms
          else \<lparr>kv_name = HM_Name h, kv_value = HM_Value h\<rparr> # kvMatchesFromProto ms)"

fun queryMatchesFromProto :: "QueryMatch option list \<Rightarrow> kvMatch list" where
  "queryMatchesFromProto [] = []"
| "queryMatchesFromProto (m # ms) =
     (case m of
        None \<Rightarrow> queryMatchesFromProto ms
      | Some q \<Rightarrow>
          if QM_Name q = [] then queryMatchesFromProto ms
          else \<lparr>kv_name = QM_Name q, kv_value = QM_Value q\<rparr> # queryMatchesFromProto ms)"

definition rewriteFromProto :: "RouteRewrite option \<Rightarrow> routeRewrite" where
  "rewriteFromProto rw =
     (case rw of
        None \<Rightarrow> zeroRewrite
      | Some rw \<Rightarrow> \<lparr>rr_setRequestHeaders = RW_SetRequestHeaders rw, rr_removeRequestHeaders = RW_RemoveRequestHeaders rw,
          rr_setResponseHeaders = RW_SetResponseHeaders rw, rr_removeResponseHeaders = RW_RemoveResponseHeaders rw,
          rr_stripPathPrefix = RW_StripPathPrefix rw, rr_addPathPrefix = RW_AddPathPrefix rw\<rparr>)"

definition routeFromProto :: "Route \<Rightarrow> route" where
  "routeFromProto r =
     \<lparr>r_host = Route_Host r, r_pathPrefix = Route_PathPrefix r, r_methods = Route_Methods r,
      r_targetGroup = Route_TargetGroup r, r_split = splitFromProto (Route_Split r),
      r_rewrite = rewriteFromProto (Route_Rewrite r), r_auth = authFromProto (Route_Auth r),
      r_headerMatches = kvMatchesFromProto (Route_HeaderMatches r),
      r_queryMatches = queryMatchesFromProto (Route_QueryMatches r)\<rparr>"

definition rt_Update :: "RouteTableMsg \<Rightarrow> RouteTable \<Rightarrow> RouteTable" where
  "rt_Update table t =
     (if RTM_Version table \<le> rt_version t \<and> rt_version t \<noteq> 0 then t
      else t\<lparr>rt_routes := map routeFromProto (RTM_Routes table), rt_version := RTM_Version table\<rparr>)"

fun splitLoop :: "routeTarget list \<Rightarrow> int \<Rightarrow> string \<Rightarrow> string" where
  "splitLoop [] n dflt = dflt"
| "splitLoop (s # ss) n dflt = (if n < tg_weight s then tg_group s else splitLoop ss (n - tg_weight s) dflt)"

definition pickSplit :: "routeTarget list \<Rightarrow> RouteTable \<Rightarrow> string \<times> RouteTable" where
  "pickSplit split t =
     (if length split = 1 then (tg_group (split ! 0), t)
      else
        (let total = sum_list (map tg_weight split)
         in if total \<le> 0 then (tg_group (split ! 0), t)
            else
              (let (n, rng) = Intn (nat total) (rt_rng t)
               in (splitLoop split (int n) (tg_group (last split)), t\<lparr>rt_rng := rng\<rparr>))))"

definition resolveMatch ::
    "string \<Rightarrow> string \<Rightarrow> string \<Rightarrow> header option \<Rightarrow> (string \<rightharpoonup> string list) option \<Rightarrow> RouteTable
       \<Rightarrow> (string \<times> routeRewrite \<times> routeAuth) \<times> RouteTable" where
  "resolveMatch host path method header query t =
     (case find (\<lambda>r. route_matches r host path method header query) (rt_routes t) of
        None \<Rightarrow> ((rt_defaultGroup t, zeroRewrite, zeroAuth), t)
      | Some r \<Rightarrow>
          if r_split r = [] then ((r_targetGroup r, r_rewrite r, r_auth r), t)
          else (let (g, t1) = pickSplit (r_split r) t in ((g, r_rewrite r, r_auth r), t1)))"

definition rt_Resolve ::
    "string \<Rightarrow> string \<Rightarrow> string \<Rightarrow> header option \<Rightarrow> (string \<rightharpoonup> string list) option \<Rightarrow> RouteTable
       \<Rightarrow> string \<times> RouteTable" where
  "rt_Resolve host path method header query t =
     (let ((group, _, _), t1) = resolveMatch host path method header query t in (group, t1))"

definition rt_ResolveRoute ::
    "string \<Rightarrow> string \<Rightarrow> string \<Rightarrow> header option \<Rightarrow> (string \<rightharpoonup> string list) option \<Rightarrow> RouteTable
       \<Rightarrow> (string \<times> routeRewrite) \<times> RouteTable" where
  "rt_ResolveRoute host path method header query t =
     (let ((group, rw, _), t1) = resolveMatch host path method header query t in ((group, rw), t1))"

definition rt_ResolveWithAuth ::
    "string \<Rightarrow> string \<Rightarrow> string \<Rightarrow> header option \<Rightarrow> (string \<rightharpoonup> string list) option \<Rightarrow> RouteTable
       \<Rightarrow> (string \<times> routeAuth) \<times> RouteTable" where
  "rt_ResolveWithAuth host path method header query t =
     (let ((group, _, auth), t1) = resolveMatch host path method header query t in ((group, auth), t1))"

definition rt_Len :: "RouteTable \<Rightarrow> int" where
  "rt_Len t = int (length (rt_routes t))"

definition addGroup :: "string \<Rightarrow> string list \<Rightarrow> string list" where
  "addGroup g out = (if g = [] \<or> g \<in> set out then out else out @ [g])"

definition rt_TargetGroups :: "RouteTable \<Rightarrow> string list" where
  "rt_TargetGroups t =
     foldl (\<lambda>out r. foldl (\<lambda>out s. addGroup (tg_group s) out) (addGroup (r_targetGroup r) out) (r_split r))
       [rt_defaultGroup t] (rt_routes t)"

section \<open>Rewrites\<close>

definition stripPath :: "string \<Rightarrow> string \<Rightarrow> string" where
  "stripPath prefix path =
     (if prefix \<noteq> [] \<and> HasPrefix path prefix
      then (let p = drop (length prefix) path in if p = [] \<or> hd p \<noteq> CHR ''/'' then CHR ''/'' # p else p)
      else path)"

definition applyHeaders :: "(string \<times> string) list \<Rightarrow> string list \<Rightarrow> header \<Rightarrow> header" where
  "applyHeaders sets dels h =
     foldl (\<lambda>h n. header_Del n h) (foldl (\<lambda>h (n, v). header_Set n v h) h sets) dels"

definition applyRequest :: "routeRewrite \<Rightarrow> Request \<Rightarrow> Request" where
  "applyRequest rw r =
     (if rewrite_isZero rw then r
      else
        (let p1 = stripPath (rr_stripPathPrefix rw) (rq_Path r);
             p2 = (if rr_addPathPrefix rw \<noteq> [] then rr_addPathPrefix rw @ p1 else p1)
         in r\<lparr>rq_Path := p2,
              rq_Header := applyHeaders (rr_setRequestHeaders rw) (rr_removeRequestHeaders rw) (rq_Header r)\<rparr>))"

definition applyResponse :: "routeRewrite \<Rightarrow> header \<Rightarrow> header" where
  "applyResponse rw h = applyHeaders (rr_setResponseHeaders rw) (rr_removeResponseHeaders rw) h"

section \<open>Lemmas\<close>

lemma splitFromProto_ok: "s \<in> set (splitFromProto tgts) \<Longrightarrow> 0 < tg_weight s \<and> tg_group s \<noteq> []"
  by (induction tgts rule: splitFromProto.induct) (auto split: if_splits)

lemma splitLoop_in:
  "0 \<le> n \<Longrightarrow> n < sum_list (map tg_weight ss) \<Longrightarrow> splitLoop ss n z \<in> tg_group ` set ss"
  by (induction ss n z rule: splitLoop.induct) auto

lemma pickSplit_in:
  assumes "split \<noteq> []" shows "fst (pickSplit split t) \<in> tg_group ` set split"
proof -
  have 0: "tg_group (split ! 0) \<in> tg_group ` set split" using assms by simp
  show ?thesis
  proof (cases "length split = 1 \<or> sum_list (map tg_weight split) \<le> 0")
    case True
    then show ?thesis using 0 by (auto simp: pickSplit_def Let_def)
  next
    case False
    let ?t = "sum_list (map tg_weight split)"
    have "shd (rt_rng t) mod nat ?t < nat ?t" using False by simp
    then have "int (shd (rt_rng t) mod nat ?t) < ?t" using False by linarith
    then show ?thesis using False by (simp add: pickSplit_def Let_def Intn_def splitLoop_in)
  qed
qed

text \<open>The draws that select a group: as many as the weights of its targets.\<close>

lemma splitLoop_count:
  assumes "\<forall>s \<in> set ss. 0 \<le> tg_weight s"
  shows "card {n. n < nat (sum_list (map tg_weight ss)) \<and> splitLoop ss (int n) z = g} =
    nat (sum_list (map tg_weight (filter (\<lambda>s. tg_group s = g) ss)))"
  using assms
proof (induction ss)
  case (Cons s ss)
  let ?w = "nat (tg_weight s)" and ?T = "nat (sum_list (map tg_weight ss))"
  let ?R = "nat (sum_list (map tg_weight (filter (\<lambda>s. tg_group s = g) ss)))"
  have w: "0 \<le> tg_weight s" and T: "0 \<le> sum_list (map tg_weight ss)"
    and R: "0 \<le> sum_list (map tg_weight (filter (\<lambda>s. tg_group s = g) ss))"
    using Cons.prems by (auto intro!: sum_list_nonneg)
  let ?A = "{n. n < ?w \<and> tg_group s = g}" and ?B = "{n. n < ?T \<and> splitLoop ss (int n) z = g}"
  have "{n. n < nat (sum_list (map tg_weight (s # ss))) \<and> splitLoop (s # ss) (int n) z = g} = ?A \<union> (\<lambda>n. n + ?w) ` ?B"
  proof (intro set_eqI iffI)
    fix n assume n: "n \<in> {n. n < nat (sum_list (map tg_weight (s # ss))) \<and> splitLoop (s # ss) (int n) z = g}"
    show "n \<in> ?A \<union> (\<lambda>n. n + ?w) ` ?B"
    proof (cases "int n < tg_weight s")
      case True
      with n show ?thesis by auto
    next
      case False
      then obtain m where m: "n = m + ?w" using w by (metis le_add_diff_inverse2 nat_le_iff not_le)
      then have "int n - tg_weight s = int m" using w by simp
      then have "m \<in> ?B" using n False m w T by auto
      then show ?thesis using m by blast
    qed
  next
    fix n assume "n \<in> ?A \<union> (\<lambda>n. n + ?w) ` ?B"
    then show "n \<in> {n. n < nat (sum_list (map tg_weight (s # ss))) \<and> splitLoop (s # ss) (int n) z = g}"
      using w T by auto
  qed
  moreover have "card ((\<lambda>n. n + ?w) ` ?B) = ?R" using Cons by (simp add: card_image)
  moreover have "card ?A = (if tg_group s = g then ?w else 0)" by simp
  moreover have "?A \<inter> (\<lambda>n. n + ?w) ` ?B = {}" by auto
  ultimately have "card {n. n < nat (sum_list (map tg_weight (s # ss))) \<and> splitLoop (s # ss) (int n) z = g} =
      (if tg_group s = g then ?w else 0) + ?R"
    by (simp add: card_Un_disjoint)
  then show ?case using w R by (simp add: nat_add_distrib)
qed simp

lemma addGroup_set: "set (addGroup g out) = set out \<union> (if g = [] then {} else {g})"
  by (auto simp: addGroup_def)

lemma foldl_addGroup_set:
  "set (foldl (\<lambda>out s. addGroup (tg_group s) out) out ss) = set out \<union> (tg_group ` set ss - {[]})"
  by (induction ss arbitrary: out) (auto simp: addGroup_set)

lemma TargetGroups_set:
  "set (rt_TargetGroups t) =
     {rt_defaultGroup t} \<union> (\<Union>r \<in> set (rt_routes t). insert (r_targetGroup r) (tg_group ` set (r_split r)) - {[]})"
proof -
  have "set (foldl (\<lambda>out r. foldl (\<lambda>out s. addGroup (tg_group s) out) (addGroup (r_targetGroup r) out) (r_split r)) out rs) =
      set out \<union> (\<Union>r \<in> set rs. insert (r_targetGroup r) (tg_group ` set (r_split r)) - {[]})" for rs :: "route list" and out
    by (induction rs arbitrary: out) (auto simp: foldl_addGroup_set addGroup_set)
  then show ?thesis by (simp add: rt_TargetGroups_def)
qed

lemma distinct_addGroup: "distinct out \<Longrightarrow> distinct (addGroup g out)"
  by (simp add: addGroup_def)

lemma distinct_TargetGroups: "distinct (rt_TargetGroups t)"
proof -
  have i: "distinct out \<Longrightarrow> distinct (foldl (\<lambda>out s. addGroup (tg_group s) out) out ss)" for out and ss :: "routeTarget list"
    by (induction ss arbitrary: out) (auto simp: distinct_addGroup)
  have "distinct out \<Longrightarrow> distinct (foldl (\<lambda>out r. foldl (\<lambda>out s. addGroup (tg_group s) out)
      (addGroup (r_targetGroup r) out) (r_split r)) out rs)" for out and rs :: "route list"
    by (induction rs arbitrary: out) (auto simp: i distinct_addGroup)
  then show ?thesis by (simp add: rt_TargetGroups_def)
qed

text \<open>The headers after a rewrite: removals win, then the last value set, then what was there.\<close>

lemma foldl_Set_lookup:
  "foldl (\<lambda>h (n, v). header_Set n v h) h sets k =
     (case find (\<lambda>(n, v). CanonicalHeaderKey n = k) (rev sets) of Some (n, v) \<Rightarrow> Some [v] | None \<Rightarrow> h k)"
  by (induction sets rule: rev_induct) (auto simp: header_Set_def)

lemma foldl_Del_lookup:
  "foldl (\<lambda>h n. header_Del n h) h dels k = (if k \<in> CanonicalHeaderKey ` set dels then None else h k)"
  by (induction dels rule: rev_induct) (auto simp: header_Del_def)

section \<open>The versioned-snapshot contract\<close>

interpretation rt_recv: versioned_receiver rt_version RTM_Version "\<lambda>t m. rt_Update m t" rt_routes
  "\<lambda>m. map routeFromProto (RTM_Routes m)"
  by unfold_locales (auto simp: rt_Update_def)


section \<open>Properties\<close>

text \<open>
  Rules are evaluated in order and the first match decides: the request gets that rule's rewrite
  and authentication policy and one of its target groups (its target, or a member of its split);
  with no match it goes to the default group with neither rewrite nor authentication.
\<close>

theorem first_match_decides:
  "((\<forall>r \<in> set (rt_routes t). \<not> route_matches r host path method header query) \<longrightarrow>
      resolveMatch host path method header query t = ((rt_defaultGroup t, zeroRewrite, zeroAuth), t)) \<and>
   (\<forall>i < length (rt_routes t).
      route_matches (rt_routes t ! i) host path method header query \<longrightarrow>
      (\<forall>j < i. \<not> route_matches (rt_routes t ! j) host path method header query) \<longrightarrow>
      (\<exists>g. fst (resolveMatch host path method header query t) =
             (g, r_rewrite (rt_routes t ! i), r_auth (rt_routes t ! i)) \<and>
           g \<in> (if r_split (rt_routes t ! i) = [] then {r_targetGroup (rt_routes t ! i)}
                 else tg_group ` set (r_split (rt_routes t ! i)))))"
proof (intro conjI allI impI)
  let ?m = "\<lambda>r. route_matches r host path method header query"
  show "\<forall>r \<in> set (rt_routes t). \<not> ?m r \<Longrightarrow>
      resolveMatch host path method header query t = ((rt_defaultGroup t, zeroRewrite, zeroAuth), t)"
    by (simp add: resolveMatch_def find_eq_None [THEN iffD2])
  fix i assume "i < length (rt_routes t)" "?m (rt_routes t ! i)" "\<forall>j < i. \<not> ?m (rt_routes t ! j)"
  then have "find ?m (rt_routes t) = Some (rt_routes t ! i)"
    unfolding find_Some_iff by (intro exI [of _ i]) simp
  then show "\<exists>g. fst (resolveMatch host path method header query t) =
             (g, r_rewrite (rt_routes t ! i), r_auth (rt_routes t ! i)) \<and>
           g \<in> (if r_split (rt_routes t ! i) = [] then {r_targetGroup (rt_routes t ! i)}
                 else tg_group ` set (r_split (rt_routes t ! i)))"
    using pickSplit_in [of "r_split (rt_routes t ! i)" t]
    by (auto simp: resolveMatch_def Let_def split: prod.splits)
qed

definition demo_route :: "string \<Rightarrow> string \<Rightarrow> Route" where
  "demo_route pre grp =
     \<lparr>Route_Host = [], Route_PathPrefix = pre, Route_Methods = [''get''], Route_TargetGroup = grp, Route_Name = [],
      Route_Split = [], Route_Rewrite = None, Route_Auth = None, Route_HeaderMatches = [], Route_QueryMatches = []\<rparr>"

definition demo_split :: Route where
  "demo_split = (demo_route ''/s'' ''x'')\<lparr>Route_Split :=
     [\<lparr>RT_Group = ''stable'', RT_Weight = 3\<rparr>, \<lparr>RT_Group = ''canary'', RT_Weight = 1\<rparr>]\<rparr>"

definition demo_table :: "nat stream \<Rightarrow> RouteTable" where
  "demo_table rng = rt_Update \<lparr>RTM_Routes = [demo_route ''/a'' ''A'', demo_split], RTM_Version = 1\<rparr>
     (NewRouteTable rng ''web'')"

lemma demo_routes: "rt_routes (demo_table rng) = [routeFromProto (demo_route ''/a'' ''A''), routeFromProto demo_split]"
  by (simp add: demo_table_def rt_Update_def NewRouteTable_def)

lemma demo_matches:
  "route_matches (routeFromProto (demo_route ''/a'' ''A'')) ''h'' ''/a/b'' ''GET'' None None"
  "\<not> route_matches (routeFromProto (demo_route ''/a'' ''A'')) ''h'' ''/s'' ''GET'' None None"
  "route_matches (routeFromProto demo_split) ''h'' ''/s'' ''GET'' None None"
  by code_simp+

theorem first_match_decides_witness:
  "\<forall>rng. fst (resolveMatch ''h'' ''/a/b'' ''GET'' None None (demo_table rng)) = (''A'', zeroRewrite, zeroAuth)"
proof
  fix rng
  show "fst (resolveMatch ''h'' ''/a/b'' ''GET'' None None (demo_table rng)) = (''A'', zeroRewrite, zeroAuth)"
    using first_match_decides [of "demo_table rng" "''h''" "''/a/b''" "''GET''" None None, THEN conjunct2, rule_format, of 0]
      demo_matches(1)
    by (simp add: demo_routes routeFromProto_def demo_route_def rewriteFromProto_def authFromProto_def)
qed

text \<open>
  A weighted split is exact: of the equally likely draws, one per unit of total weight, exactly as
  many go to a group as the weights of its targets add up to. Tables that came through \<open>Update\<close>
  satisfy the hypothesis that weights are positive.
\<close>

theorem split_proportional:
  assumes "find (\<lambda>r. route_matches r host path method header query) (rt_routes t) = Some r"
    and "r_split r \<noteq> []" "\<forall>s \<in> set (r_split r). 0 < tg_weight s"
  shows "card {n. n < nat (sum_list (map tg_weight (r_split r))) \<and>
      fst (rt_Resolve host path method header query (t\<lparr>rt_rng := n ## rest\<rparr>)) = g} =
    nat (sum_list (map tg_weight (filter (\<lambda>s. tg_group s = g) (r_split r))))"
proof -
  let ?w = "sum_list (map tg_weight (r_split r))"
  have fst: "fst (rt_Resolve host path method header query (t\<lparr>rt_rng := n ## rest\<rparr>)) =
      fst (pickSplit (r_split r) (t\<lparr>rt_rng := n ## rest\<rparr>))" for n
    using assms(1,2) by (simp add: rt_Resolve_def resolveMatch_def Let_def split: prod.splits)
  have w: "0 < ?w"
  proof (cases "r_split r")
    case (Cons s ss)
    then have "0 < tg_weight s" "0 \<le> sum_list (map tg_weight ss)"
      using assms(3) by (fastforce intro: sum_list_nonneg)+
    then show ?thesis using Cons by simp
  qed (use assms(2) in simp)
  show ?thesis
  proof (cases "length (r_split r) = 1")
    case True
    then obtain s where "r_split r = [s]" by (auto simp: length_Suc_conv)
    then show ?thesis unfolding fst by (simp add: pickSplit_def)
  next
    case False
    have pick: "fst (pickSplit (r_split r) (t\<lparr>rt_rng := n ## rest\<rparr>)) =
        splitLoop (r_split r) (int n) (tg_group (last (r_split r)))" if "n < nat ?w" for n
      using False w that by (simp add: pickSplit_def Let_def Intn_def)
    have eq: "{n. n < nat ?w \<and> fst (pickSplit (r_split r) (t\<lparr>rt_rng := n ## rest\<rparr>)) = g} =
        {n. n < nat ?w \<and> splitLoop (r_split r) (int n) (tg_group (last (r_split r))) = g}"
      using pick by (intro Collect_cong conj_cong) simp_all
    have "\<forall>s \<in> set (r_split r). 0 \<le> tg_weight s" using assms(3) by (blast intro: less_imp_le)
    then show ?thesis unfolding fst eq by (rule splitLoop_count)
  qed
qed

theorem split_proportional_witness:
  "\<forall>rng. card {n. n < 4 \<and> fst (rt_Resolve ''h'' ''/s'' ''GET'' None None ((demo_table rng)\<lparr>rt_rng := n ## rng\<rparr>)) = ''canary''} = 1"
proof
  fix rng
  have "find (\<lambda>r. route_matches r ''h'' ''/s'' ''GET'' None None) (rt_routes (demo_table rng)) = Some (routeFromProto demo_split)"
    by (simp add: demo_routes demo_matches)
  from split_proportional [OF this, of rng "''canary''"]
  show "card {n. n < 4 \<and> fst (rt_Resolve ''h'' ''/s'' ''GET'' None None ((demo_table rng)\<lparr>rt_rng := n ## rng\<rparr>)) = ''canary''} = 1"
    by (simp add: routeFromProto_def demo_split_def)
qed

text \<open>
  \<open>TargetGroups\<close> lists, without repetition, every group a request can resolve to, apart from the
  empty name of a rule that has neither a target nor a split.
\<close>

theorem target_groups_complete:
  "distinct (rt_TargetGroups t) \<and>
   (fst (rt_Resolve host path method header query t) \<in> set (rt_TargetGroups t) \<or>
    fst (rt_Resolve host path method header query t) = [])"
proof -
  let ?g = "fst (rt_Resolve host path method header query t)"
  have "?g \<in> set (rt_TargetGroups t) \<or> ?g = []"
  proof (cases "find (\<lambda>r. route_matches r host path method header query) (rt_routes t)")
    case None
    then show ?thesis by (simp add: rt_Resolve_def resolveMatch_def TargetGroups_set)
  next
    case (Some r)
    then have r: "r \<in> set (rt_routes t)" by (blast dest: find_SomeD)
    have "?g \<in> insert (r_targetGroup r) (tg_group ` set (r_split r))"
      using Some pickSplit_in [of "r_split r" t]
      by (auto simp: rt_Resolve_def resolveMatch_def Let_def split: prod.splits)
    then show ?thesis using r unfolding TargetGroups_set by blast
  qed
  then show ?thesis using distinct_TargetGroups by blast
qed

text \<open>
  Two data planes that received the same stamped route tables, in any order and with any
  repetitions, and were behind the newest one, end with the same rules in the same order.
\<close>

theorem route_tables_converge:
  assumes "0 \<le> rt_version t" "0 \<le> rt_version t'"
    and "\<forall>m \<in> set ms. 0 < RTM_Version m" "set ms' = set ms"
    and "\<exists>m \<in> set ms. rt_version t < RTM_Version m" "\<exists>m \<in> set ms. rt_version t' < RTM_Version m"
    and "\<forall>m \<in> set ms. \<forall>m' \<in> set ms. RTM_Version m = RTM_Version m' \<longrightarrow>
      map routeFromProto (RTM_Routes m) = map routeFromProto (RTM_Routes m')"
  shows "rt_routes (foldl (\<lambda>t m. rt_Update m t) t ms) = rt_routes (foldl (\<lambda>t m. rt_Update m t) t' ms')"
  using assms by (rule rt_recv.run_converges)

theorem route_tables_converge_witness:
  "\<forall>rng. rt_routes (foldl (\<lambda>t m. rt_Update m t) (NewRouteTable rng ''web'')
       [\<lparr>RTM_Routes = [], RTM_Version = 1\<rparr>, \<lparr>RTM_Routes = [demo_split], RTM_Version = 2\<rparr>]) =
     rt_routes (foldl (\<lambda>t m. rt_Update m t) (demo_table rng)
       [\<lparr>RTM_Routes = [demo_split], RTM_Version = 2\<rparr>, \<lparr>RTM_Routes = [], RTM_Version = 1\<rparr>])"
  by (intro allI route_tables_converge) (auto simp: NewRouteTable_def demo_table_def rt_Update_def)

text \<open>
  What a rewrite does to the outbound request: for every header name a removal wins over a set,
  a set replaces the old values, and other headers are untouched; the path prefix is stripped only if
  the path has it, what is left always starts with a slash, and the added prefix comes in front.
\<close>

theorem rewrite_request_spec:
  "header_Values (rq_Header (applyRequest rw r)) name =
     (if CanonicalHeaderKey name \<in> CanonicalHeaderKey ` set (rr_removeRequestHeaders rw) then []
      else case find (\<lambda>(n, v). CanonicalHeaderKey n = CanonicalHeaderKey name) (rev (rr_setRequestHeaders rw)) of
             Some (n, v) \<Rightarrow> [v]
           | None \<Rightarrow> header_Values (rq_Header r) name) \<and>
   (\<exists>p. rq_Path (applyRequest rw r) = rr_addPathPrefix rw @ p \<and>
      (if rr_stripPathPrefix rw \<noteq> [] \<and> HasPrefix (rq_Path r) (rr_stripPathPrefix rw)
       then \<exists>rest. rq_Path r = rr_stripPathPrefix rw @ rest \<and> p \<in> {rest, CHR ''/'' # rest} \<and> take 1 p = ''/''
       else p = rq_Path r))"
proof (cases "rewrite_isZero rw")
  case True
  then show ?thesis by (simp add: applyRequest_def rewrite_isZero_def)
next
  case False
  let ?p = "stripPath (rr_stripPathPrefix rw) (rq_Path r)"
  have path: "rq_Path (applyRequest rw r) = rr_addPathPrefix rw @ ?p"
    using False by (simp add: applyRequest_def Let_def)
  have "if rr_stripPathPrefix rw \<noteq> [] \<and> HasPrefix (rq_Path r) (rr_stripPathPrefix rw)
      then \<exists>rest. rq_Path r = rr_stripPathPrefix rw @ rest \<and> ?p \<in> {rest, CHR ''/'' # rest} \<and> take 1 ?p = ''/''
      else ?p = rq_Path r"
  proof (cases "rr_stripPathPrefix rw \<noteq> [] \<and> HasPrefix (rq_Path r) (rr_stripPathPrefix rw)")
    case True
    then obtain rest where r: "rq_Path r = rr_stripPathPrefix rw @ rest" by (auto simp: HasPrefix_iff)
    have "take 1 ?p = ''/''" using True r by (cases rest) (auto simp: stripPath_def Let_def)
    moreover have "?p \<in> {rest, CHR ''/'' # rest}" using True r by (auto simp: stripPath_def Let_def)
    ultimately show ?thesis using True r by auto
  next
    case False
    then show ?thesis by (auto simp: stripPath_def)
  qed
  moreover have "header_Values (rq_Header (applyRequest rw r)) name =
     (if CanonicalHeaderKey name \<in> CanonicalHeaderKey ` set (rr_removeRequestHeaders rw) then []
      else case find (\<lambda>(n, v). CanonicalHeaderKey n = CanonicalHeaderKey name) (rev (rr_setRequestHeaders rw)) of
             Some (n, v) \<Rightarrow> [v] | None \<Rightarrow> header_Values (rq_Header r) name)"
    using False by (simp add: applyRequest_def Let_def applyHeaders_def header_Values_def foldl_Del_lookup
        foldl_Set_lookup split: option.splits prod.splits)
  ultimately show ?thesis using path by blast
qed

end
