(* ===== verification/ServerProps.thy ===== *)
theory ServerProps
  imports Server BackendProps Router "HOL-Library.Multiset"
begin

text \<open>
  Properties of the control-plane server: when two backend sets count as equal, what a drain does, how
  health reports are combined, the traffic history, and that the rules the data planes get mean what
  the control plane's own rules mean.
\<close>

section \<open>Equality of backend sets\<close>

definition bpair :: "Backend \<Rightarrow> string \<times> int" where
  "bpair be = (Backend_Address be, Backend_Weight be)"

lemma inj_bpair: "inj bpair"
  by (rule injI) (simp add: bpair_def)

lemma mset_delete:
  assumes "distinct (map fst m)" "map_of m k = Some w"
  shows "mset m = add_mset (k, w) (mset (AList.delete k m))"
  using assms
proof (induction m)
  case (Cons kv m)
  show ?case
  proof (cases "fst kv = k")
    case True
    with Cons.prems have "k \<notin> fst ` set m" "kv = (k, w)" by (cases kv; auto)+
    then show ?thesis using delete_notin_dom [of k m] by simp
  qed (use Cons in \<open>cases kv; auto\<close>)
qed simp

lemma equalLoop_mset: "distinct (map fst m) \<Longrightarrow> equalLoop bes m \<longleftrightarrow> mset (map bpair bes) = mset m"
proof (induction bes arbitrary: m)
  case (Cons be bes)
  let ?a = "Backend_Address be" and ?w = "Backend_Weight be"
  show ?case
  proof (cases "map_of m ?a")
    case None
    then have "(?a, ?w) \<notin># mset m" by (force simp: map_of_eq_None_iff)
    moreover have "(?a, ?w) \<in># mset (map bpair (be # bes))" by (simp add: bpair_def)
    ultimately have "mset (map bpair (be # bes)) \<noteq> mset m" by metis
    then show ?thesis using None by simp
  next
    case (Some w)
    have m: "mset m = add_mset (?a, w) (mset (AList.delete ?a m))" by (rule mset_delete [OF Cons.prems Some])
    have "(?a, ?w) \<in># mset m \<Longrightarrow> w = ?w" using Some Cons.prems by (auto dest: map_of_is_SomeI)
    moreover have "(?a, ?w) \<in># mset (map bpair (be # bes))" by (simp add: bpair_def)
    ultimately have "w \<noteq> ?w \<Longrightarrow> mset (map bpair (be # bes)) \<noteq> mset m" by metis
    moreover have "equalLoop bes (AList.delete ?a m) \<longleftrightarrow> mset (map bpair bes) = mset (AList.delete ?a m)"
      using Cons.prems by (intro Cons.IH) (simp add: distinct_delete)
    moreover have "bpair be = (?a, ?w)" by (simp add: bpair_def)
    ultimately show ?thesis using Some m by (cases "w = ?w") auto
  qed
qed auto

lemma count_distinct:
  "foldl (\<lambda>m be. AList.update (Backend_Address be) (Backend_Weight be) m) m bes = m @ map bpair bes"
  if "distinct (map fst m @ map Backend_Address bes)"
  using that
proof (induction bes arbitrary: m)
  case (Cons be bes)
  then show ?case by (simp add: AList_update_new bpair_def)
qed simp

lemma count_keys: "distinct (map fst m) \<Longrightarrow>
    distinct (map fst (foldl (\<lambda>m be. AList.update (Backend_Address be) (Backend_Weight be) m) m bes))"
  by (induction bes arbitrary: m) (simp_all add: distinct_update)

lemma count_dom: "set (map fst (foldl (\<lambda>m be. AList.update (Backend_Address be) (Backend_Weight be) m) m bes)) =
    set (map fst m) \<union> Backend_Address ` set bes"
  by (induction bes arbitrary: m) (auto simp: dom_update)

text \<open>
  Two backend sets count as equal exactly when they have the same backends with the same weights, in
  any order, and no address twice. So the order in which a provider lists backends never causes an
  update; and a provider that lists an address twice causes one at every reconcile.
\<close>

theorem backendSetsEqual_exact:
  "backendSetsEqual (Some a) (Some b) \<longleftrightarrow>
     distinct (map Backend_Address (BS_Backends a)) \<and> mset (BS_Backends a) = mset (BS_Backends b)"
proof -
  let ?as = "BS_Backends a" and ?bs = "BS_Backends b"
  let ?m = "foldl (\<lambda>m be. AList.update (Backend_Address be) (Backend_Weight be) m) [] ?as"
  have eq: "backendSetsEqual (Some a) (Some b) \<longleftrightarrow> length ?as = length ?bs \<and> mset (map bpair ?bs) = mset ?m"
    using equalLoop_mset [OF count_keys [of "[]" ?as]] by (simp add: backendSetsEqual_def)
  show ?thesis
  proof (cases "distinct (map Backend_Address ?as)")
    case True
    then have "?m = map bpair ?as" using count_distinct [of "[]" ?as] by simp
    moreover have "mset (map bpair ?bs) = mset (map bpair ?as) \<longleftrightarrow> mset ?bs = mset ?as"
      using inj_eq [OF multiset.inj_map [OF inj_bpair]] by (simp add: mset_map)
    ultimately show ?thesis using eq True by (auto dest: mset_eq_length)
  next
    case False
    have "length ?m = card (set (map fst ?m))" using distinct_card [OF count_keys [of "[]" ?as]] by simp
    also have "\<dots> = card (Backend_Address ` set ?as)" using count_dom [of "[]" ?as] by simp
    also have "\<dots> < length ?as"
      using False card_length [of "map Backend_Address ?as"] distinct_card card_distinct by (metis length_map list.set_map nat_less_le)
    finally have "length ?m \<noteq> length ?as" by simp
    then show ?thesis using eq False by (metis length_map mset_eq_length)
  qed
qed

section \<open>Overrides in published sets\<close>

definition publishedAddresses :: "'st Server \<Rightarrow> string \<Rightarrow> string set" where
  "publishedAddresses sv g = (case sv_last sv g of None \<Rightarrow> {} | Some bs \<Rightarrow> Backend_Address ` set (BS_Backends bs))"

definition isDrained :: "'st Server \<Rightarrow> string \<Rightarrow> string \<Rightarrow> bool" where
  "isDrained sv g a \<longleftrightarrow> (case os_get (sv_overrides sv) (g, a) of Some ov \<Rightarrow> ov_Drained ov | None \<Rightarrow> False)"

lemma prepareSet_addresses:
  "map Backend_Address (BS_Backends (prepareSet g snap sv)) =
     filter (\<lambda>a. \<not> isDrained sv g a) (map pb_Address (sn_Backends snap))"
  by (simp add: prepareSet_def snapshotToBackendSet_def isDrained_def os_get_def comp_def filter_map)

lemma commit_frame [simp]:
  "sv_overrides (commitSet g bs sv) = sv_overrides sv" "sv_overrides (commitIfChanged g bs sv) = sv_overrides sv"
  "sv_overrides (publishIfChanged g snap sv) = sv_overrides sv"
  by (simp_all add: commitSet_def commitIfChanged_def publishIfChanged_def Let_def)

lemma reconcileGroup_overrides [simp]: "sv_overrides (reconcileGroup sn g sv) = sv_overrides sv"
  by (simp add: reconcileGroup_def split: option.split)

text \<open>Reconciling changes no settings.\<close>

lemma reconcile_settings:
  "sv_overrides (reconcile groups snap sv) = sv_overrides sv \<and> sv_algorithms (reconcile groups snap sv) = sv_algorithms sv \<and>
   sv_sticky (reconcile groups snap sv) = sv_sticky sv \<and> sv_rateLimits (reconcile groups snap sv) = sv_rateLimits sv"
proof -
  have "sv_overrides (foldl (\<lambda>sv g. reconcileGroup snap g sv) sv gs) = sv_overrides sv \<and>
      sv_algorithms (foldl (\<lambda>sv g. reconcileGroup snap g sv) sv gs) = sv_algorithms sv \<and>
      sv_sticky (foldl (\<lambda>sv g. reconcileGroup snap g sv) sv gs) = sv_sticky sv \<and>
      sv_rateLimits (foldl (\<lambda>sv g. reconcileGroup snap g sv) sv gs) = sv_rateLimits sv" for gs
    by (induction gs arbitrary: sv)
      (simp_all add: reconcileGroup_def publishIfChanged_def commitIfChanged_def commitSet_def Let_def split: option.split)
  then show ?thesis by (simp add: reconcile_def split: option.split)
qed

lemma commit_last [simp]:
  "sv_last (commitSet g bs sv) h = (if h = g then
     Some (bs\<lparr>BS_Version := (case sv_last sv g of None \<Rightarrow> 1 | Some prev \<Rightarrow> BS_Version prev + 1)\<rparr>) else sv_last sv h)"
  by (simp add: commitSet_def Let_def)

lemma publish_no_drained:
  assumes "isDrained sv g a" "a \<notin> publishedAddresses sv g"
  shows "a \<notin> publishedAddresses (publishIfChanged h snap sv) g"
proof -
  have "a \<notin> Backend_Address ` set (BS_Backends (prepareSet g snap sv))"
    using prepareSet_addresses [of g snap sv] assms(1) by (metis (mono_tags, lifting) list.set_map mem_Collect_eq set_filter)
  then show ?thesis using assms(2)
    by (auto simp: publishIfChanged_def commitIfChanged_def publishedAddresses_def split: if_splits)
qed

lemma isDrained_reconcileGroup [simp]: "isDrained (reconcileGroup sn h sv) g a = isDrained sv g a"
  by (simp add: isDrained_def)

lemma reconcileGroup_no_drained:
  "isDrained sv g a \<Longrightarrow> a \<notin> publishedAddresses sv g \<Longrightarrow> a \<notin> publishedAddresses (reconcileGroup sn h sv) g"
  by (simp add: reconcileGroup_def publish_no_drained split: option.split)

lemma reconcile_no_drained:
  assumes "isDrained sv g a" "a \<notin> publishedAddresses sv g"
  shows "isDrained (reconcile groups sn sv) g a \<and> a \<notin> publishedAddresses (reconcile groups sn sv) g"
proof -
  have "isDrained (foldl (\<lambda>sv g. reconcileGroup sn g sv) sv gs) g a \<and>
      a \<notin> publishedAddresses (foldl (\<lambda>sv g. reconcileGroup sn g sv) sv gs) g" for gs
    using assms by (induction gs rule: rev_induct) (simp_all add: reconcileGroup_no_drained)
  then show ?thesis using assms by (simp add: reconcile_def split: option.split)
qed

text \<open>
  With nothing else at work, a drain takes effect at once: when \<open>SetOverride\<close> with \<open>drained\<close> returns without
  error and the provider answered, the set published for the group is the provider's list without the
  drained backends, at the next version, and reconciles do not bring the backend back. What other
  publications can do meanwhile is in \<open>Streams\<close>.
\<close>

theorem drain_published:
  assumes "goodOverrides (sv_overrides sv)" "validOverride \<lparr>ov_Weight = w, ov_Drained = True\<rparr>"
    and "SetOverride env snapshot g a w True (sv, fs) = (StoreOk, sv1, fs1)" "snapshot g = Some snap"
  shows "\<exists>bs. sv_last sv1 g = Some bs \<and>
      map Backend_Address (BS_Backends bs) = filter (\<lambda>x. x \<noteq> a \<and> \<not> isDrained sv g x) (map pb_Address (sn_Backends snap)) \<and>
      BS_Version bs = (case sv_last sv g of None \<Rightarrow> 1 | Some prev \<Rightarrow> BS_Version prev + 1) \<and>
    a \<notin> publishedAddresses (foldl (\<lambda>sv (groups, sn). reconcile groups sn sv) sv1 reports) g"
proof -
  let ?ov = "\<lparr>ov_Weight = w, ov_Drained = True\<rparr>"
  obtain st fs2 where st: "os_Set env g a w True (sv_overrides sv, fs) = (StoreOk, st, fs2)"
    and sv1: "sv1 = commitSet g (prepareSet g snap (sv\<lparr>sv_overrides := st\<rparr>)) (sv\<lparr>sv_overrides := st\<rparr>)"
    using assms(3,4) by (auto simp: SetOverride_def afterStore_def forceRepublish_def split: prod.splits if_splits)
  have "os_put env (g, a) (Some ?ov) (sv_overrides sv, fs) = (StoreOk, st, fs2)" using st by (simp add: os_put_def)
  from override_store.put_get [OF assms(1) _ this] assms(2)
  have o: "os_get st k = (if k = (g, a) then Some ?ov else os_get (sv_overrides sv) k)" for k by simp
  then have d: "isDrained (sv\<lparr>sv_overrides := st\<rparr>) g x \<longleftrightarrow> x = a \<or> isDrained sv g x" for x by (simp add: isDrained_def)
  have "isDrained sv' g a \<Longrightarrow> a \<notin> publishedAddresses sv' g \<Longrightarrow>
      a \<notin> publishedAddresses (foldl (\<lambda>sv (groups, sn). reconcile groups sn sv) sv' reports) g" for sv' :: "'a Server"
    by (induction reports arbitrary: sv') (simp_all add: reconcile_no_drained case_prod_beta)
  moreover have "isDrained sv1 g a" using d by (simp add: sv1 isDrained_def)
  moreover have m: "map Backend_Address (BS_Backends (prepareSet g snap (sv\<lparr>sv_overrides := st\<rparr>))) =
      filter (\<lambda>x. x \<noteq> a \<and> \<not> isDrained sv g x) (map pb_Address (sn_Backends snap))"
    by (simp add: prepareSet_addresses d)
  moreover have "a \<notin> publishedAddresses sv1 g"
    using arg_cong [OF m, of set] by (auto simp: sv1 publishedAddresses_def)
  ultimately show ?thesis by (auto simp: sv1)
qed

definition demo_server :: "unit Server" where
  "demo_server = NewServer None None None None None"

definition demo_snap :: Snapshot where
  "demo_snap = \<lparr>sn_Group = ''g'', sn_Backends = [\<lparr>pb_Address = ''a'', pb_Weight = 1\<rparr>, \<lparr>pb_Address = ''b'', pb_Weight = 2\<rparr>]\<rparr>"

lemma demo_overrides: "sv_overrides demo_server = \<lparr>os_path = [], os_data = Some []\<rparr>"
  by (simp add: demo_server_def NewServer_def NewOverrideStore_def loadFile_def)

theorem drain_published_witness:
  "''a'' \<notin> publishedAddresses (reconcile (Some [''g'']) (\<lambda>_. Some demo_snap)
     (fst (snd (SetOverride (quiet_env ''t'') (\<lambda>_. Some demo_snap) ''g'' ''a'' None True (demo_server, Map.empty))))) ''g''"
proof -
  let ?S = "SetOverride (quiet_env ''t'') (\<lambda>_. Some demo_snap) ''g'' ''a'' None True (demo_server, Map.empty)"
  have "fst ?S = StoreOk" using quiet_set(1) by (simp add: SetOverride_def demo_overrides case_prod_beta)
  then obtain sv1 fs1 where S: "?S = (StoreOk, sv1, fs1)" by (cases ?S) auto
  have "goodOverrides (sv_overrides demo_server)" by (simp add: demo_overrides goodOverrides_def goodMap_def)
  from drain_published [OF this _ S, of demo_snap "[(Some [''g''], \<lambda>_. Some demo_snap)]"]
  show ?thesis by (auto simp: validOverride_def S)
qed

section \<open>Health reports\<close>

definition freshHealth :: "gotime \<Rightarrow> string \<Rightarrow> string \<Rightarrow> backendHealthKey \<times> healthEntry \<Rightarrow> bool" where
  "freshHealth now g a ke \<longleftrightarrow> fst (fst ke) = g \<and> snd (snd (fst ke)) = a \<and>
     \<not> time_sub now (hl_reportedAt (snd ke)) > healthReportMaxAge"

lemma healthForAddress_fresh:
  "healthForAddress now sv g a =
     (\<forall>ke \<in> set (sv_health sv). freshHealth now g a ke \<longrightarrow> hl_healthy (snd ke), \<exists>ke \<in> set (sv_health sv). freshHealth now g a ke)"
proof -
  have "foldl (\<lambda>(healthy, hasData) (key, entry).
       if fst key \<noteq> g \<or> snd (snd key) \<noteq> a then (healthy, hasData)
       else if time_sub now (hl_reportedAt entry) > healthReportMaxAge then (healthy, hasData)
       else (if \<not> hl_healthy entry then False else healthy, True)) (h, d) kes =
     (h \<and> (\<forall>ke \<in> set kes. freshHealth now g a ke \<longrightarrow> hl_healthy (snd ke)), d \<or> (\<exists>ke \<in> set kes. freshHealth now g a ke))" for h d kes
    by (induction kes arbitrary: h d) (auto simp: freshHealth_def)
  then show ?thesis by (simp add: healthForAddress_def)
qed

lemma sv_health_report:
  "sv_health (ReportHealth now report sv) =
     foldl (\<lambda>m bh. AList.update (HR_Group report, HR_InstanceId report, BH_Address bh)
       \<lparr>hl_healthy = BH_Healthy bh, hl_reportedAt = now\<rparr> m) (sv_health sv) (HR_Backends report)"
  by (simp add: ReportHealth_def recordInstanceHealthReport_def split: option.split)

lemma distinct_updates: "distinct (map fst m) \<Longrightarrow> distinct (map fst (foldl (\<lambda>m x. AList.update (k x) (v x) m) m xs))"
  by (induction xs arbitrary: m) (simp_all add: distinct_update)

lemma health_keys_distinct:
  "distinct (map fst (sv_health sv)) \<Longrightarrow> distinct (map fst (sv_health (ReportHealth now report sv)))"
  unfolding sv_health_report by (rule distinct_updates)

lemma ReportHealth_lookup:
  "map_of (sv_health (ReportHealth now report sv)) (g, i, a) =
     (if g = HR_Group report \<and> i = HR_InstanceId report then
        (case find (\<lambda>bh. BH_Address bh = a) (rev (HR_Backends report)) of
           Some bh \<Rightarrow> Some \<lparr>hl_healthy = BH_Healthy bh, hl_reportedAt = now\<rparr>
         | None \<Rightarrow> map_of (sv_health sv) (g, i, a))
      else map_of (sv_health sv) (g, i, a))"
proof -
  have "map_of (foldl (\<lambda>m bh. AList.update (HR_Group report, HR_InstanceId report, BH_Address bh)
      \<lparr>hl_healthy = BH_Healthy bh, hl_reportedAt = now\<rparr> m) m bhs) (g, i, a) =
     (if g = HR_Group report \<and> i = HR_InstanceId report then
        (case find (\<lambda>bh. BH_Address bh = a) (rev bhs) of
           Some bh \<Rightarrow> Some \<lparr>hl_healthy = BH_Healthy bh, hl_reportedAt = now\<rparr> | None \<Rightarrow> map_of m (g, i, a))
      else map_of m (g, i, a))" for bhs m
    by (induction bhs rule: rev_induct) (auto simp: update_conv')
  then show ?thesis unfolding sv_health_report .
qed

lemma find_report:
  "bh \<in> set bhs \<Longrightarrow> distinct (map BH_Address bhs) \<Longrightarrow> find (\<lambda>b. BH_Address b = BH_Address bh) (rev bhs) = Some bh"
  by (induction bhs rule: rev_induct) (auto simp: image_iff)

text \<open>
  Health is unanimous: whatever reports arrived, a backend is shown healthy exactly when every
  instance whose last report on it is at most 30 seconds old says so, and as known exactly when there
  is such an instance. An instance's new report replaces its own old one and no other's.
\<close>

theorem health_unanimous:
  fixes sv0 :: "'st Server"
  assumes "distinct (map fst (sv_health sv0))"
    and "sv = foldl (\<lambda>sv (t, r). ReportHealth t r sv) sv0 reports" "sv' = ReportHealth now report sv"
  shows "(healthForAddress t sv' g a =
      (\<forall>i e. map_of (sv_health sv') (g, i, a) = Some e \<and> \<not> time_sub t (hl_reportedAt e) > 30 * second \<longrightarrow> hl_healthy e,
       \<exists>i e. map_of (sv_health sv') (g, i, a) = Some e \<and> \<not> time_sub t (hl_reportedAt e) > 30 * second)) \<and>
    (\<forall>g i a. (g, i) \<noteq> (HR_Group report, HR_InstanceId report) \<longrightarrow>
       map_of (sv_health sv') (g, i, a) = map_of (sv_health sv) (g, i, a)) \<and>
    (\<forall>bh \<in> set (HR_Backends report). distinct (map BH_Address (HR_Backends report)) \<longrightarrow>
       map_of (sv_health sv') (HR_Group report, HR_InstanceId report, BH_Address bh) =
         Some \<lparr>hl_healthy = BH_Healthy bh, hl_reportedAt = now\<rparr>)"
proof -
  have "distinct (map fst (sv_health sv))"
    unfolding assms(2) using assms(1) by (induction reports arbitrary: sv0) (simp_all add: health_keys_distinct case_prod_beta)
  then have d: "distinct (map fst (sv_health sv'))" by (simp add: assms(3) health_keys_distinct)
  have h: "ke \<in> set (sv_health sv') \<and> freshHealth t g a ke \<longleftrightarrow>
      (\<exists>i e. ke = ((g, i, a), e) \<and> map_of (sv_health sv') (g, i, a) = Some e \<and> \<not> time_sub t (hl_reportedAt e) > 30 * second)" for ke
    using d by (cases ke) (auto simp: freshHealth_def healthReportMaxAge_def)
  show ?thesis
  proof (intro conjI)
    show "healthForAddress t sv' g a =
      (\<forall>i e. map_of (sv_health sv') (g, i, a) = Some e \<and> \<not> time_sub t (hl_reportedAt e) > 30 * second \<longrightarrow> hl_healthy e,
       \<exists>i e. map_of (sv_health sv') (g, i, a) = Some e \<and> \<not> time_sub t (hl_reportedAt e) > 30 * second)"
      unfolding healthForAddress_fresh prod.inject using h by (intro conjI) (metis snd_conv)+
  qed (auto simp: assms(3) ReportHealth_lookup find_report)
qed

theorem health_unanimous_witness:
  "healthForAddress 2 (ReportHealth 1 \<lparr>HR_Group = ''g'', HR_InstanceId = ''i'', HR_Backends = [\<lparr>BH_Address = ''a'', BH_Healthy = False\<rparr>]\<rparr>
     demo_server) ''g'' ''a'' = (False, True)"
proof -
  let ?r = "\<lparr>HR_Group = ''g'', HR_InstanceId = ''i'', HR_Backends = [\<lparr>BH_Address = ''a'', BH_Healthy = False\<rparr>]\<rparr>"
  let ?sv = "ReportHealth 1 ?r demo_server"
  have m: "map_of (sv_health ?sv) (''g'', ''i'', ''a'') = Some \<lparr>hl_healthy = False, hl_reportedAt = 1\<rparr>"
    by (simp add: ReportHealth_lookup)
  have t: "\<not> time_sub 2 (hl_reportedAt \<lparr>hl_healthy = False, hl_reportedAt = 1\<rparr>) > 30 * second"
    by (simp add: time_sub_def int64_defs)
  have "distinct (map fst (sv_health demo_server))" by (simp add: demo_server_def NewServer_def)
  from health_unanimous [OF this, of demo_server "[]" ?sv 1 ?r 2 "''g''" "''a''"]
  have "healthForAddress 2 ?sv ''g'' ''a'' =
      (\<forall>i e. map_of (sv_health ?sv) (''g'', i, ''a'') = Some e \<and> \<not> time_sub 2 (hl_reportedAt e) > 30 * second \<longrightarrow> hl_healthy e,
       \<exists>i e. map_of (sv_health ?sv) (''g'', i, ''a'') = Some e \<and> \<not> time_sub 2 (hl_reportedAt e) > 30 * second)"
    by simp
  moreover have "\<not> (\<forall>i e. map_of (sv_health ?sv) (''g'', i, ''a'') = Some e \<and> \<not> time_sub 2 (hl_reportedAt e) > 30 * second \<longrightarrow> hl_healthy e)"
    using m t by (metis healthEntry.select_convs(1))
  moreover have "\<exists>i e. map_of (sv_health ?sv) (''g'', i, ''a'') = Some e \<and> \<not> time_sub 2 (hl_reportedAt e) > 30 * second"
    using m t by blast
  ultimately show ?thesis by (simp only: simp_thms)
qed

section \<open>History\<close>

lemma history_record_length: "length points \<le> 250 \<Longrightarrow> length (history_record now sns points) \<le> 250"
  by (auto simp: history_record_def Let_def maxHistoryPoints_def)

lemma historyDelta_nonneg: "0 \<le> historyDelta f prev p"
  by (simp add: historyDelta_def Let_def split: option.split)

lemma sum_deltas:
  assumes "sorted (map f (q # ps))"
  shows "(\<Sum>i = 0..<length ps. historyDelta f (Some (if i = 0 then q else ps ! (i - 1))) (ps ! i)) = f (last (q # ps)) - f q"
  using assms
proof (induction ps rule: rev_induct)
  case (snoc p ps)
  have s: "sorted (map f (q # ps))" "f (last (q # ps)) \<le> f p"
    using snoc.prems by (auto simp: sorted_append)
  have l: "(if ps = [] then q else (ps @ [p]) ! (length ps - 1)) = last (q # ps)"
    by (cases ps rule: rev_cases) (auto simp: nth_append)
  have "(\<Sum>i = 0..<length ps. historyDelta f (Some (if i = 0 then q else (ps @ [p]) ! (i - 1))) ((ps @ [p]) ! i)) =
      (\<Sum>i = 0..<length ps. historyDelta f (Some (if i = 0 then q else ps ! (i - 1))) (ps ! i))"
    by (rule sum.cong) (auto simp: nth_append)
  also have "\<dots> = f (last (q # ps)) - f q" by (rule snoc.IH [OF s(1)])
  finally show ?case using l s(2) by (auto simp: historyDelta_def Let_def)
qed simp

text \<open>
  The traffic history is bounded and its deltas are traffic: after any sequence of samples it has at
  most 250 points, \<open>Recent n\<close> shows the last \<open>n\<close> of them with deltas that are never negative, and while
  the fleet's counter did not fall, the deltas of a window add up to exactly what the counter grew since
  the point before the window.
\<close>

theorem history_accounts:
  assumes "length points0 \<le> 250" "points = foldl (\<lambda>ps (now, sns). history_record now sns ps) points0 samples"
  shows "length points \<le> 250 \<and> length (history_Recent n points) = min n (length points) \<and>
    map hs_Time (history_Recent n points) = map hp_t (drop (length points - n) points) \<and>
    (\<forall>h \<in> set (history_Recent n points). 0 \<le> hs_RequestsDelta h \<and> 0 \<le> hs_Errors5xxDelta h) \<and>
    (n < length points \<and> sorted (map hp_requestsTotal points) \<longrightarrow>
       sum_list (map hs_RequestsDelta (history_Recent n points)) =
         hp_requestsTotal (last points) - hp_requestsTotal (points ! (length points - n - 1)))"
proof (intro conjI impI)
  show "length points \<le> 250"
    unfolding assms(2) using assms(1)
    by (induction samples arbitrary: points0) (auto simp: history_record_length)
  show "length (history_Recent n points) = min n (length points)"
    by (simp add: history_Recent_def Let_def)
  show "map hs_Time (history_Recent n points) = map hp_t (drop (length points - n) points)"
    by (rule nth_equalityI) (auto simp: history_Recent_def Let_def)
  show "\<forall>h \<in> set (history_Recent n points). 0 \<le> hs_RequestsDelta h \<and> 0 \<le> hs_Errors5xxDelta h"
    by (auto simp: history_Recent_def Let_def historyDelta_nonneg)
  assume a: "n < length points \<and> sorted (map hp_requestsTotal points)"
  let ?s = "length points - n" let ?q = "points ! (?s - 1)" and ?ps = "drop ?s points"
  have "?s - 1 < length points" "Suc (?s - 1) = ?s" using a by auto
  then have d: "drop (?s - 1) points = ?q # ?ps" using Cons_nth_drop_Suc [of "?s - 1" points] by metis
  have "sorted (map hp_requestsTotal (?q # ?ps))" unfolding d [symmetric] using a by (simp add: drop_map [symmetric] sorted_wrt_drop)
  from sum_deltas [OF this] have "(\<Sum>i = 0..<length ?ps. historyDelta hp_requestsTotal (Some (if i = 0 then ?q else ?ps ! (i - 1))) (?ps ! i)) =
      hp_requestsTotal (last (?q # ?ps)) - hp_requestsTotal ?q" .
  moreover have "last (?q # ?ps) = last points" unfolding d [symmetric] using \<open>?s - 1 < length points\<close> by (rule last_drop)
  moreover have "map hs_RequestsDelta (history_Recent n points) =
      map (\<lambda>i. historyDelta hp_requestsTotal (Some (if i = 0 then ?q else ?ps ! (i - 1))) (?ps ! i)) [0 ..< length ?ps]"
    using a by (auto simp: history_Recent_def Let_def)
  ultimately show "sum_list (map hs_RequestsDelta (history_Recent n points)) = hp_requestsTotal (last points) - hp_requestsTotal ?q"
    by (simp only: interv_sum_list_conv_sum_set_nat set_upt)
qed

theorem history_accounts_witness:
  "let sample = (\<lambda>n. [\<lparr>gs_Group = ''g'', gs_RequestsTotal = n, gs_Errors5xxTotal = 0, gs_ActiveConnections = 0,
                         gs_AvgDurationMs = 0, gs_ReportingInstances = 1\<rparr>]);
       points = foldl (\<lambda>ps (now, sns). history_record now sns ps) [] [(0, sample 3), (6 * second, sample 5), (12 * second, sample 9)]
   in sum_list (map hs_RequestsDelta (history_Recent 2 points)) = 6"
proof -
  let ?sample = "\<lambda>n. [\<lparr>gs_Group = ''g'', gs_RequestsTotal = n, gs_Errors5xxTotal = 0, gs_ActiveConnections = 0,
                         gs_AvgDurationMs = 0, gs_ReportingInstances = 1\<rparr>]"
  let ?points = "foldl (\<lambda>ps (now, sns). history_record now sns ps) []
      [(0, ?sample 3), (6 * second, ?sample 5), (12 * second, ?sample 9)]"
  define ps where "ps = ?points"
  have p: "map hp_requestsTotal ps = [3, 5, 9]" unfolding ps_def
    by (simp add: history_record_def historyTotals_def historyBucketWidth_def maxHistoryPoints_def time_sub_def int64_defs Let_def)
  then obtain x y z where xyz: "ps = [x, y, z]" "hp_requestsTotal x = 3" "hp_requestsTotal z = 9" by (auto simp: map_eq_Cons_conv)
  have "2 < length ps \<and> sorted (map hp_requestsTotal ps) \<longrightarrow>
       sum_list (map hs_RequestsDelta (history_Recent 2 ps)) =
         hp_requestsTotal (last ps) - hp_requestsTotal (ps ! (length ps - 2 - 1))"
    using history_accounts [OF _ ps_def, of 2] by simp
  moreover have "sorted (map hp_requestsTotal ps)" unfolding p by simp
  ultimately show ?thesis unfolding Let_def ps_def [symmetric] by (simp add: xyz)
qed

section \<open>Rules on both planes\<close>

lemma splitFromProto_filter:
  "splitFromProto (map (\<lambda>t. \<lparr>RT_Group = crt_Group t, RT_Weight = crt_Weight t\<rparr>) (filter (\<lambda>t. crt_Group t \<noteq> []) ts)) =
     map (\<lambda>t. \<lparr>tg_group = crt_Group t, tg_weight = (if crt_Weight t \<le> 0 then 1 else crt_Weight t)\<rparr>) (filter (\<lambda>t. crt_Group t \<noteq> []) ts)"
  by (induction ts) auto

lemma kvMatches_published:
  "kvMatchesFromProto (map (\<lambda>m. Some \<lparr>HM_Name = chm_Name m, HM_Value = chm_Value m\<rparr>) (filter (\<lambda>m. chm_Name m \<noteq> []) ms)) =
     map (\<lambda>m. \<lparr>kv_name = chm_Name m, kv_value = chm_Value m\<rparr>) (filter (\<lambda>m. chm_Name m \<noteq> []) ms)"
  by (induction ms) auto

lemma queryMatches_published:
  "queryMatchesFromProto (map (\<lambda>m. Some \<lparr>QM_Name = cqm_Name m, QM_Value = cqm_Value m\<rparr>) (filter (\<lambda>m. cqm_Name m \<noteq> []) ms)) =
     map (\<lambda>m. \<lparr>kv_name = cqm_Name m, kv_value = cqm_Value m\<rparr>) (filter (\<lambda>m. cqm_Name m \<noteq> []) ms)"
  by (induction ms) auto

definition namedMatches :: "cpRoute \<Rightarrow> bool" where
  "namedMatches r \<longleftrightarrow> list_all (\<lambda>m. chm_Name m \<noteq> []) (cr_HeaderMatches r) \<and> list_all (\<lambda>m. cqm_Name m \<noteq> []) (cr_QueryMatches r)"

lemma condition_agree:
  "headerConditionMet h \<lparr>kv_name = n, kv_value = v\<rparr> = headerMatches h n v"
  "queryConditionMet q \<lparr>kv_name = n, kv_value = v\<rparr> = queryMatches q n v"
  by (auto simp: headerConditionMet_def headerMatches_def queryConditionMet_def queryMatches_def split: option.split)

lemma route_matches_published:
  assumes "namedMatches r"
  shows "route_matches (routeFromProto (routeToProto r)) host path method h q = cr_MatchesRequest r host path method h q"
proof -
  have "filter (\<lambda>m. chm_Name m \<noteq> []) (cr_HeaderMatches r) = cr_HeaderMatches r"
    "filter (\<lambda>m. cqm_Name m \<noteq> []) (cr_QueryMatches r) = cr_QueryMatches r"
    using assms by (auto simp: namedMatches_def filter_id_conv list_all_iff)
  then have "r_headerMatches (routeFromProto (routeToProto r)) = map (\<lambda>m. \<lparr>kv_name = chm_Name m, kv_value = chm_Value m\<rparr>) (cr_HeaderMatches r)"
    "r_queryMatches (routeFromProto (routeToProto r)) = map (\<lambda>m. \<lparr>kv_name = cqm_Name m, kv_value = cqm_Value m\<rparr>) (cr_QueryMatches r)"
    using kvMatches_published [of "cr_HeaderMatches r"] queryMatches_published [of "cr_QueryMatches r"]
    by (simp_all add: routeFromProto_def routeToProto_def)
  moreover have "r_host (routeFromProto (routeToProto r)) = cr_Host r" "r_pathPrefix (routeFromProto (routeToProto r)) = cr_PathPrefix r"
    "r_methods (routeFromProto (routeToProto r)) = cr_Methods r"
    by (simp_all add: routeFromProto_def routeToProto_def)
  ultimately show ?thesis
    by (simp add: route_matches_def cr_MatchesRequest_def cr_Matches_def list.pred_map comp_def condition_agree)
qed

text \<open>
  C11. The rules mean the same on both planes: once \<open>SetRoutes\<close> returned without error and a data plane with
  an older table applied the table that was published, that data plane sends every request by the
  first rule that matches on the control plane (its rewrite, its authentication, its group or one of
  its split groups), and a request no rule matches to its default group. Every header or query
  condition is assumed to have a name.
\<close>

theorem published_rules_decide:
  assumes "list_all namedMatches routes" "SetRoutes save e routes sv = (True, sv1)"
    and "rt_version t < rts_version (sv_routes sv) + 1"
  shows "\<exists>table. sv_lastRoutes sv1 = Some table \<and>
    (case find (\<lambda>r. cr_MatchesRequest r host path method h q) routes of
       None \<Rightarrow> fst (resolveMatch host path method h q (rt_Update table t)) = (rt_defaultGroup t, zeroRewrite, zeroAuth)
     | Some r \<Rightarrow>
         (\<exists>g. fst (resolveMatch host path method h q (rt_Update table t)) =
                (g, rewriteFromProto (Route_Rewrite (routeToProto r)), authFromProto (Route_Auth (routeToProto r))) \<and>
              g \<in> (let split = filter (\<lambda>t. crt_Group t \<noteq> []) (cr_Split r)
                    in if split = [] then {cr_TargetGroup r} else crt_Group ` set split)))"
proof -
  obtain st where st: "rts_Set save e routes (sv_routes sv) = (True, st)" and sv1: "sv1 = publishRoutes (sv\<lparr>sv_routes := st\<rparr>)"
    using assms(2) by (auto simp: SetRoutes_def Let_def split: prod.splits if_splits)
  have r: "rts_routes st = routes" "rts_version st = rts_version (sv_routes sv) + 1"
    using st by (auto simp: rts_Set_def rts_persist_def Let_def split: option.splits prod.splits)
  let ?T = "\<lparr>RTM_Routes = map routeToProto routes, RTM_Version = rts_version (sv_routes sv) + 1\<rparr>"
  let ?t = "rt_Update ?T t"
  have t: "rt_routes ?t = map (\<lambda>r. routeFromProto (routeToProto r)) routes" "rt_defaultGroup ?t = rt_defaultGroup t"
    using assms(3) by (simp_all add: rt_Update_def)
  have f: "find (\<lambda>r. route_matches r host path method h q) (map (\<lambda>r. routeFromProto (routeToProto r)) rs) =
      map_option (\<lambda>r. routeFromProto (routeToProto r)) (find (\<lambda>r. cr_MatchesRequest r host path method h q) rs)"
    if "list_all namedMatches rs" for rs using that by (induction rs) (auto simp: route_matches_published)
  have "case find (\<lambda>r. cr_MatchesRequest r host path method h q) routes of
       None \<Rightarrow> fst (resolveMatch host path method h q ?t) = (rt_defaultGroup t, zeroRewrite, zeroAuth)
     | Some r \<Rightarrow>
         (\<exists>g. fst (resolveMatch host path method h q ?t) =
                (g, rewriteFromProto (Route_Rewrite (routeToProto r)), authFromProto (Route_Auth (routeToProto r))) \<and>
              g \<in> (let split = filter (\<lambda>t. crt_Group t \<noteq> []) (cr_Split r)
                    in if split = [] then {cr_TargetGroup r} else crt_Group ` set split))"
  proof (cases "find (\<lambda>r. cr_MatchesRequest r host path method h q) routes")
    case None
    then show ?thesis using f [OF assms(1)] by (simp add: resolveMatch_def t)
  next
    case (Some x)
    let ?r = "routeFromProto (routeToProto x)"
    have sp: "r_split ?r = map (\<lambda>t. \<lparr>tg_group = crt_Group t, tg_weight = (if crt_Weight t \<le> 0 then 1 else crt_Weight t)\<rparr>)
        (filter (\<lambda>t. crt_Group t \<noteq> []) (cr_Split x))"
      unfolding splitFromProto_filter [symmetric] by (simp add: routeFromProto_def routeToProto_def)
    have o: "r_rewrite ?r = rewriteFromProto (Route_Rewrite (routeToProto x))"
      "r_auth ?r = authFromProto (Route_Auth (routeToProto x))" "r_targetGroup ?r = cr_TargetGroup x"
      by (simp_all add: routeFromProto_def routeToProto_def)
    have "tg_group ` set (r_split ?r) = crt_Group ` set (filter (\<lambda>t. crt_Group t \<noteq> []) (cr_Split x))" by (simp add: sp image_image)
    then show ?thesis using f [OF assms(1)] Some pickSplit_in [of "r_split ?r" ?t]
      by (auto simp: resolveMatch_def t o Let_def sp split: prod.splits)
  qed
  moreover have "sv_lastRoutes sv1 = Some ?T" by (simp add: sv1 publishRoutes_def commitRoutes_def buildTable_def r)
  ultimately show ?thesis by blast
qed

theorem published_rules_decide_witness:
  "\<forall>rng. let sv1 = snd (SetRoutes pg_Save False [demo_cpRoute] (NewServer None None None None None));
             t = rt_Update (the (sv_lastRoutes sv1)) (NewRouteTable rng ''web'')
         in fst (fst (resolveMatch ''x'' ''/api/v1'' ''GET'' None None t)) = ''h'' \<and>
            fst (fst (resolveMatch ''x'' ''/other'' ''GET'' None None t)) = ''web''"
proof
  fix rng
  let ?sv = "NewServer None None None None None :: PostgresBlobStore Server"
  let ?S = "SetRoutes pg_Save False [demo_cpRoute] ?sv"
  have r: "sv_routes ?sv = \<lparr>rts_store = None, rts_key = [], rts_routes = [], rts_version = 0\<rparr>"
    by (simp add: NewServer_def NewRouteStoreWithBackend_def)
  obtain sv1 where S: "?S = (True, sv1)" by (simp add: SetRoutes_def r rts_Set_def rts_persist_def Let_def)
  have n: "list_all namedMatches [demo_cpRoute]" by (simp add: namedMatches_def demo_cpRoute_def zeroRoute_def)
  have v: "rt_version (NewRouteTable rng ''web'') < rts_version (sv_routes ?sv) + 1" by (simp add: r NewRouteTable_def)
  have m: "cr_MatchesRequest demo_cpRoute ''x'' ''/api/v1'' ''GET'' None None"
    "\<not> cr_MatchesRequest demo_cpRoute ''x'' ''/other'' ''GET'' None None" by code_simp+
  have sp: "cr_Split demo_cpRoute = [\<lparr>crt_Group = ''h'', crt_Weight = 3\<rparr>]" by (simp add: demo_cpRoute_def)
  from published_rules_decide [OF n S v, of "''x''" "''/api/v1''" "''GET''" None None]
    published_rules_decide [OF n S v, of "''x''" "''/other''" "''GET''" None None]
  have "fst (fst (resolveMatch ''x'' ''/api/v1'' ''GET'' None None (rt_Update (the (sv_lastRoutes sv1)) (NewRouteTable rng ''web'')))) = ''h'' \<and>
    fst (fst (resolveMatch ''x'' ''/other'' ''GET'' None None (rt_Update (the (sv_lastRoutes sv1)) (NewRouteTable rng ''web'')))) = ''web''"
    using m by (auto simp: sp NewRouteTable_def)
  then show "let sv1 = snd ?S; t = rt_Update (the (sv_lastRoutes sv1)) (NewRouteTable rng ''web'')
         in fst (fst (resolveMatch ''x'' ''/api/v1'' ''GET'' None None t)) = ''h'' \<and>
            fst (fst (resolveMatch ''x'' ''/other'' ''GET'' None None t)) = ''web''"
    by (simp add: S Let_def)
qed

section \<open>What a restart and a failed snapshot lose\<close>

text \<open>
  A change of the load-balancing algorithm can be lost for good: when the provider fails at the
  moment of the change, \<open>SetAlgorithm\<close> still returns without error, and as long as the provider then
  reports the same backends no later reconcile publishes anything, because equality of sets ignores
  the settings: the data planes keep the old algorithm while the control plane shows the new one.
\<close>

theorem algorithm_change_lost:
  assumes "goodMap (\<lambda>_. True) (as_data (sv_algorithms sv))" "IsValidAlgorithm alg"
    and "SetAlgorithm env (\<lambda>_. None) g alg (sv, fs) = (StoreOk, sv1, fs1)"
    and "sv_last sv g = Some bs" "distinct (map Backend_Address (BS_Backends bs))"
    and "\<forall>snap \<in> set snaps. mset (BS_Backends (prepareSet g snap sv)) = mset (BS_Backends bs)"
  shows "foldl (\<lambda>sv snap. publishIfChanged g snap sv) sv1 snaps = sv1 \<and> sv_last sv1 g = Some bs \<and>
    as_Get (sv_algorithms sv1) g = alg"
proof -
  obtain st where st: "as_Set env g alg (sv_algorithms sv, fs) = (StoreOk, st, fs1)" and sv1: "sv1 = sv\<lparr>sv_algorithms := st\<rparr>"
    using assms(3) by (auto simp: SetAlgorithm_def afterStore_def forceRepublish_def split: prod.splits)
  have "as_Get st g = alg" using alg_store.put_get [OF assms(1,2) st, of g] by simp
  moreover have "BS_Backends (prepareSet g snap sv1) = BS_Backends (prepareSet g snap sv)" for snap
    by (simp add: prepareSet_def snapshotToBackendSet_def sv1)
  then have "snap \<in> set snaps \<Longrightarrow> publishIfChanged g snap sv1 = sv1" for snap
    using assms(4,5,6) by (simp add: publishIfChanged_def commitIfChanged_def sv1 backendSetsEqual_exact)
  then have "foldl (\<lambda>sv snap. publishIfChanged g snap sv) sv1 snaps = sv1" by (induction snaps) simp_all
  ultimately show ?thesis using assms(4) by (simp add: sv1)
qed

theorem algorithm_change_lost_witness:
  "let sv = publishIfChanged ''g'' demo_snap demo_server;
       sv1 = fst (snd (SetAlgorithm (quiet_env ''t'') (\<lambda>_. None) ''g'' ''p2c'' (sv, Map.empty)))
   in as_Get (sv_algorithms (publishIfChanged ''g'' demo_snap sv1)) ''g'' = ''p2c'' \<and>
      map_option BS_Algorithm (sv_last (publishIfChanged ''g'' demo_snap sv1) ''g'') = Some ''round_robin''"
proof -
  let ?sv = "publishIfChanged ''g'' demo_snap demo_server"
  let ?S = "SetAlgorithm (quiet_env ''t'') (\<lambda>_. None) ''g'' ''p2c'' (?sv, Map.empty)"
  have d: "sv_algorithms demo_server = \<lparr>as_path = [], as_data = Some []\<rparr>" "sv_last demo_server ''g'' = None"
    by (simp_all add: demo_server_def NewServer_def NewAlgorithmStore_def loadFile_def)
  have f: "sv_algorithms ?sv = sv_algorithms demo_server" "sv_overrides ?sv = sv_overrides demo_server"
    by (simp_all add: publishIfChanged_def commitIfChanged_def commitSet_def Let_def)
  have l: "sv_last ?sv ''g'' = Some ((prepareSet ''g'' demo_snap demo_server)\<lparr>BS_Version := 1\<rparr>)"
    by (simp add: publishIfChanged_def commitIfChanged_def d backendSetsEqual_def)
  have p: "BS_Backends (prepareSet ''g'' demo_snap ?sv) = BS_Backends (prepareSet ''g'' demo_snap demo_server)"
    "map Backend_Address (BS_Backends (prepareSet ''g'' demo_snap demo_server)) = [''a'', ''b'']"
    "BS_Algorithm (prepareSet ''g'' demo_snap demo_server) = ''round_robin''"
    by (simp_all add: prepareSet_def snapshotToBackendSet_def f demo_overrides os_GroupOverrides_def mapGet_def innerMap_def
        demo_snap_def as_Get_def d)
  have v: "IsValidAlgorithm ''p2c''" by code_simp
  then have "fst ?S = StoreOk" by (simp add: SetAlgorithm_def as_Set_def as_persist_def f d Let_def case_prod_beta)
  then obtain sv1 fs1 where S: "?S = (StoreOk, sv1, fs1)" by (cases ?S) auto
  have "goodMap (\<lambda>_. True) (as_data (sv_algorithms ?sv))" by (simp add: f d goodMap_def)
  from algorithm_change_lost [OF this v S l, of "[demo_snap]"]
  show ?thesis by (simp add: S p)
qed

text \<open>
  C39. After a restart of the control plane the data planes ignore it: a fresh server numbers the sets of a
  group from 1 again, and a data plane that stayed up holding version \<open>v\<close> drops all of the first \<open>v\<close>
  sets the new server publishes, whatever changes they carry. Route tables come with a persisted
  version, but a fresh server has no current table to send, although its store holds one.
\<close>

theorem restart_ignored:
  assumes "sv = foldl (\<lambda>sv new. commitSet g new sv) (NewServer ov al ro st rl) news" "news \<noteq> []"
    and "int (length news) \<le> bl_version b"
  shows "\<exists>bs. sv_last sv g = Some bs \<and> BS_Backends bs = BS_Backends (last news) \<and> bl_Update now bs b = b \<and>
    fst (routesOpen c sv) = None"
proof -
  have v: "(case sv_last (foldl (\<lambda>sv new. commitSet g new sv) (NewServer ov al ro st rl) ns) g of
       None \<Rightarrow> ns = [] | Some bs \<Rightarrow> BS_Version bs = int (length ns) \<and> ns \<noteq> [] \<and> BS_Backends bs = BS_Backends (last ns)) \<and>
     sv_lastRoutes (foldl (\<lambda>sv new. commitSet g new sv) (NewServer ov al ro st rl) ns) = None" for ns
  proof (induction ns rule: rev_induct)
    case (snoc n ns)
    then show ?case by (auto simp: commitSet_def Let_def split: option.splits)
  qed (simp add: NewServer_def)
  obtain bs where bs: "sv_last sv g = Some bs" using v [of news] assms(1,2) by (auto split: option.splits)
  then have "BS_Version bs = int (length news)" "BS_Backends bs = BS_Backends (last news)"
    using v [of news] by (simp_all add: assms(1))
  moreover have "bl_version b \<noteq> 0" using assms(2,3) by (cases news) auto
  then have "bl_Update now bs b = b" using assms(3) calculation(1) by (simp add: bl_Update_def)
  moreover have "fst (routesOpen c sv) = None" using v [of news] by (simp add: routesOpen_def assms(1))
  ultimately show ?thesis using bs by blast
qed

theorem restart_ignored_witness:
  "\<forall>rng. let b = bl_Update 1 ((prepareSet ''g'' demo_snap demo_server)\<lparr>BS_Version := 7\<rparr>) (NewBackendList rng 0 :: unit BackendList);
             sv = commitSet ''g'' (prepareSet ''g'' (demo_snap\<lparr>sn_Backends := []\<rparr>) demo_server) demo_server
         in bl_Update 2 (the (sv_last sv ''g'')) b = b"
proof
  fix rng
  let ?b = "bl_Update 1 ((prepareSet ''g'' demo_snap demo_server)\<lparr>BS_Version := 7\<rparr>) (NewBackendList rng 0 :: unit BackendList)"
  let ?new = "prepareSet ''g'' (demo_snap\<lparr>sn_Backends := []\<rparr>) demo_server"
  have v: "int (length [?new]) \<le> bl_version ?b" by (simp add: bl_Update_def NewBackendList_def)
  have n: "commitSet ''g'' ?new demo_server = foldl (\<lambda>sv new. commitSet ''g'' new sv) (NewServer None None None None None) [?new]"
    by (simp only: foldl_Cons foldl_Nil demo_server_def)
  obtain bs where "sv_last (commitSet ''g'' ?new demo_server) ''g'' = Some bs" "bl_Update 2 bs ?b = ?b"
    using restart_ignored [OF n _ v, of 2 0] by blast
  then show "let b = ?b; sv = commitSet ''g'' ?new demo_server in bl_Update 2 (the (sv_last sv ''g'')) b = b"
    unfolding Let_def by (simp only: option.sel)
qed

end
