(* ===== verification/Metrics.thy ===== *)
theory Metrics
  imports Float64
begin

text \<open>
  The data plane's metrics (\<open>internal/dataplane/metrics.go\<close>): the per-group counters behind
  \<open>ReportMetrics\<close> and the ring buffer behind the dashboard's charts. The Prometheus client is not
  modelled: \<open>m_prom\<close> is the sequence of calls made on it, newest first. A Go map of groups is an
  association list in order of insertion; \<open>range\<close> visits it in some order, here that one. Totals and
  durations are unbounded integers.
\<close>

section \<open>Data\<close>

datatype promEvent =
    RequestsInc string string
  | DurationObserve string duration
  | ActiveAdd string int
  | RetriesInc string
  | PanicsInc string
  | TcpBytesAdd string string int
  | TcpConnsInc string
  | TcpActiveAdd string int

record groupCounters =
  gc_requestsTotal :: int
  gc_errors5xxTotal :: int
  gc_activeConns :: int
  gc_intervalDurationTotal :: duration
  gc_intervalDurationCount :: int

record GroupSnapshot =
  gs_Group :: string
  gs_RequestsTotal :: int
  gs_Errors5xxTotal :: int
  gs_ActiveConns :: int
  gs_AvgDurationMs :: rat

record seriesPoint =
  sp_t :: gotime
  sp_requests :: int
  sp_errors5xx :: int
  sp_durationTotal :: duration
  sp_durationCount :: int
  sp_activeConns :: int
  sp_tcpConns :: int
  sp_tcpBytesIn :: int
  sp_tcpBytesOut :: int

record seriesStore =
  ss_points :: "seriesPoint list"
  ss_currentActive :: int

record SeriesPoint =
  SP_Time :: gotime
  SP_Requests :: int
  SP_Errors5xx :: int
  SP_AvgDurationMs :: rat
  SP_ActiveConns :: int
  SP_TCPConns :: int
  SP_TCPBytesIn :: int
  SP_TCPBytesOut :: int

record Metrics =
  m_prom :: "promEvent list"
  m_series :: seriesStore
  m_perGroup :: "(string \<times> groupCounters) list"

section \<open>Per-group counters\<close>

definition zeroCounters :: groupCounters where
  "zeroCounters = \<lparr>gc_requestsTotal = 0, gc_errors5xxTotal = 0, gc_activeConns = 0,
     gc_intervalDurationTotal = 0, gc_intervalDurationCount = 0\<rparr>"

text \<open>\<open>entry\<close> and a change of the entry it returns.\<close>

fun pg_upd :: "string \<Rightarrow> (groupCounters \<Rightarrow> groupCounters) \<Rightarrow> (string \<times> groupCounters) list
    \<Rightarrow> (string \<times> groupCounters) list" where
  "pg_upd g f [] = [(g, f zeroCounters)]"
| "pg_upd g f ((k, c) # gs) = (if k = g then (k, f c) # gs else (k, c) # pg_upd g f gs)"

definition pg_recordRequest :: "string \<Rightarrow> bool \<Rightarrow> duration \<Rightarrow> (string \<times> groupCounters) list
    \<Rightarrow> (string \<times> groupCounters) list" where
  "pg_recordRequest g is5xx d =
     pg_upd g (\<lambda>c. c\<lparr>gc_requestsTotal := gc_requestsTotal c + 1,
                  gc_errors5xxTotal := gc_errors5xxTotal c + (if is5xx then 1 else 0),
                  gc_intervalDurationTotal := gc_intervalDurationTotal c + d,
                  gc_intervalDurationCount := gc_intervalDurationCount c + 1\<rparr>)"

definition pg_setActiveConns :: "string \<Rightarrow> int \<Rightarrow> (string \<times> groupCounters) list \<Rightarrow> (string \<times> groupCounters) list" where
  "pg_setActiveConns g delta =
     pg_upd g (\<lambda>c. let n = gc_activeConns c + delta in c\<lparr>gc_activeConns := if n < 0 then 0 else n\<rparr>)"

text \<open>\<open>float64(d.Milliseconds()) / float64(n)\<close>, and 0 for no samples.\<close>

definition avgMs :: "duration \<Rightarrow> int \<Rightarrow> rat" where
  "avgMs d n = (if 0 < n then f64 (f64 (of_int (d div millisecond)) / f64 (of_int n)) else 0)"

definition snapshotAndResetInterval ::
    "(string \<times> groupCounters) list \<Rightarrow> GroupSnapshot list \<times> (string \<times> groupCounters) list" where
  "snapshotAndResetInterval gs =
     (map (\<lambda>(g, c). \<lparr>gs_Group = g, gs_RequestsTotal = gc_requestsTotal c, gs_Errors5xxTotal = gc_errors5xxTotal c,
        gs_ActiveConns = gc_activeConns c,
        gs_AvgDurationMs = avgMs (gc_intervalDurationTotal c) (gc_intervalDurationCount c)\<rparr>) gs,
      map (\<lambda>(g, c). (g, c\<lparr>gc_intervalDurationTotal := 0, gc_intervalDurationCount := 0\<rparr>)) gs)"

section \<open>The chart series\<close>

definition maxSeriesPoints :: nat where "maxSeriesPoints = 250"

definition seriesBucketWidth :: duration where "seriesBucketWidth = 5 * second"

definition currentBucketLocked :: "gotime \<Rightarrow> seriesStore \<Rightarrow> seriesStore" where
  "currentBucketLocked now s =
     (if ss_points s \<noteq> [] \<and> time_sub now (sp_t (last (ss_points s))) < seriesBucketWidth then s
      else
        (let ps = ss_points s @ [\<lparr>sp_t = now, sp_requests = 0, sp_errors5xx = 0, sp_durationTotal = 0,
               sp_durationCount = 0, sp_activeConns = ss_currentActive s, sp_tcpConns = 0,
               sp_tcpBytesIn = 0, sp_tcpBytesOut = 0\<rparr>]
         in s\<lparr>ss_points := if length ps > maxSeriesPoints then tl ps else ps\<rparr>))"

text \<open>Changing the bucket that \<open>currentBucketLocked\<close> returns: the last point.\<close>

definition ss_updLast :: "(seriesPoint \<Rightarrow> seriesPoint) \<Rightarrow> seriesStore \<Rightarrow> seriesStore" where
  "ss_updLast f s = s\<lparr>ss_points := butlast (ss_points s) @ [f (last (ss_points s))]\<rparr>"

definition ss_recordRequest :: "gotime \<Rightarrow> string \<Rightarrow> duration \<Rightarrow> seriesStore \<Rightarrow> seriesStore" where
  "ss_recordRequest now class d s =
     ss_updLast (\<lambda>b. b\<lparr>sp_requests := sp_requests b + 1, sp_durationTotal := sp_durationTotal b + d,
         sp_durationCount := sp_durationCount b + 1,
         sp_errors5xx := sp_errors5xx b + (if class = ''5xx'' then 1 else 0)\<rparr>)
       (currentBucketLocked now s)"

definition ss_recordActiveConns :: "gotime \<Rightarrow> int \<Rightarrow> seriesStore \<Rightarrow> seriesStore" where
  "ss_recordActiveConns now delta s =
     (let n = ss_currentActive s + delta;
          s1 = s\<lparr>ss_currentActive := if n < 0 then 0 else n\<rparr>
      in ss_updLast (\<lambda>b. b\<lparr>sp_activeConns := ss_currentActive s1\<rparr>) (currentBucketLocked now s1))"

definition ss_recordTCPConnection :: "gotime \<Rightarrow> seriesStore \<Rightarrow> seriesStore" where
  "ss_recordTCPConnection now s =
     ss_updLast (\<lambda>b. b\<lparr>sp_tcpConns := sp_tcpConns b + 1\<rparr>) (currentBucketLocked now s)"

definition ss_recordTCPBytes :: "gotime \<Rightarrow> string \<Rightarrow> int \<Rightarrow> seriesStore \<Rightarrow> seriesStore" where
  "ss_recordTCPBytes now direction n s =
     ss_updLast (\<lambda>b. if direction = ''out'' then b\<lparr>sp_tcpBytesOut := sp_tcpBytesOut b + n\<rparr>
                     else b\<lparr>sp_tcpBytesIn := sp_tcpBytesIn b + n\<rparr>)
       (currentBucketLocked now s)"

text \<open>\<open>Recent\<close> takes the last \<open>n\<close> points; for a negative \<open>n\<close> the Go slice expression panics.\<close>

definition ss_Recent :: "nat \<Rightarrow> seriesStore \<Rightarrow> SeriesPoint list" where
  "ss_Recent n s =
     map (\<lambda>p. \<lparr>SP_Time = sp_t p, SP_Requests = sp_requests p, SP_Errors5xx = sp_errors5xx p,
        SP_AvgDurationMs = avgMs (sp_durationTotal p) (sp_durationCount p), SP_ActiveConns = sp_activeConns p,
        SP_TCPConns = sp_tcpConns p, SP_TCPBytesIn = sp_tcpBytesIn p, SP_TCPBytesOut = sp_tcpBytesOut p\<rparr>)
       (drop (if length (ss_points s) > n then length (ss_points s) - n else 0) (ss_points s))"

section \<open>Metrics\<close>

definition NewMetrics :: Metrics where
  "NewMetrics = \<lparr>m_prom = [], m_series = \<lparr>ss_points = [], ss_currentActive = 0\<rparr>, m_perGroup = []\<rparr>"

definition statusClass :: "int \<Rightarrow> string" where
  "statusClass code =
     (if code \<ge> 500 then ''5xx'' else if code \<ge> 400 then ''4xx'' else if code \<ge> 300 then ''3xx''
      else if code \<ge> 200 then ''2xx'' else ''1xx'')"

definition ObserveHTTPRequest :: "gotime \<Rightarrow> string \<Rightarrow> int \<Rightarrow> duration \<Rightarrow> Metrics \<Rightarrow> Metrics" where
  "ObserveHTTPRequest now g statusCode d m =
     (let class = statusClass statusCode
      in m\<lparr>m_prom := DurationObserve g d # RequestsInc g class # m_prom m,
           m_series := ss_recordRequest now class d (m_series m),
           m_perGroup := pg_recordRequest g (class = ''5xx'') d (m_perGroup m)\<rparr>)"

definition SetActiveConnections :: "gotime \<Rightarrow> string \<Rightarrow> int \<Rightarrow> Metrics \<Rightarrow> Metrics" where
  "SetActiveConnections now g delta m =
     m\<lparr>m_prom := (if delta \<noteq> 0 then ActiveAdd g delta # m_prom m else m_prom m),
       m_series := ss_recordActiveConns now delta (m_series m),
       m_perGroup := pg_setActiveConns g delta (m_perGroup m)\<rparr>"

definition ObserveRetry :: "string \<Rightarrow> Metrics \<Rightarrow> Metrics" where
  "ObserveRetry g m = m\<lparr>m_prom := RetriesInc g # m_prom m\<rparr>"

definition ObservePanic :: "string \<Rightarrow> Metrics \<Rightarrow> Metrics" where
  "ObservePanic g m = m\<lparr>m_prom := PanicsInc g # m_prom m\<rparr>"

definition ObserveTCPConnection :: "gotime \<Rightarrow> string \<Rightarrow> Metrics \<Rightarrow> Metrics" where
  "ObserveTCPConnection now g m =
     m\<lparr>m_prom := TcpConnsInc g # m_prom m, m_series := ss_recordTCPConnection now (m_series m)\<rparr>"

definition ObserveTCPBytes :: "gotime \<Rightarrow> string \<Rightarrow> string \<Rightarrow> int \<Rightarrow> Metrics \<Rightarrow> Metrics" where
  "ObserveTCPBytes now g direction n m =
     (if n \<le> 0 then m
      else m\<lparr>m_prom := TcpBytesAdd g direction n # m_prom m,
             m_series := ss_recordTCPBytes now direction n (m_series m)\<rparr>)"

definition SetTCPActiveConnections :: "string \<Rightarrow> int \<Rightarrow> Metrics \<Rightarrow> Metrics" where
  "SetTCPActiveConnections g delta m =
     (if delta \<noteq> 0 then m\<lparr>m_prom := TcpActiveAdd g delta # m_prom m\<rparr> else m)"

definition m_GroupSnapshot :: "Metrics \<Rightarrow> GroupSnapshot list \<times> Metrics" where
  "m_GroupSnapshot m =
     (let (snaps, gs) = snapshotAndResetInterval (m_perGroup m) in (snaps, m\<lparr>m_perGroup := gs\<rparr>))"

section \<open>Invariants\<close>

definition pg_get :: "string \<Rightarrow> (string \<times> groupCounters) list \<Rightarrow> groupCounters" where
  "pg_get g gs = (case map_of gs g of None \<Rightarrow> zeroCounters | Some c \<Rightarrow> c)"

lemma pg_get_upd: "pg_get k (pg_upd g f gs) = (if k = g then f (pg_get g gs) else pg_get k gs)"
  by (induction g f gs rule: pg_upd.induct) (auto simp: pg_get_def)

lemma pg_upd_keys: "distinct (map fst gs) \<Longrightarrow> distinct (map fst (pg_upd g f gs))"
proof -
  have "fst ` set (pg_upd g f gs) = insert g (fst ` set gs)" for gs
    by (induction g f gs rule: pg_upd.induct) auto
  then show "distinct (map fst gs) \<Longrightarrow> distinct (map fst (pg_upd g f gs))"
    by (induction g f gs rule: pg_upd.induct) auto
qed

definition series_ok :: "seriesStore \<Rightarrow> bool" where
  "series_ok s \<longleftrightarrow> length (ss_points s) \<le> maxSeriesPoints \<and> 0 \<le> ss_currentActive s"

lemma series_ok_bucket: "series_ok s \<Longrightarrow> series_ok (currentBucketLocked now s) \<and> ss_points (currentBucketLocked now s) \<noteq> []"
  by (auto simp: series_ok_def currentBucketLocked_def Let_def maxSeriesPoints_def tl_append split: list.splits)

lemma series_ok_updLast: "series_ok s \<Longrightarrow> ss_points s \<noteq> [] \<Longrightarrow> series_ok (ss_updLast f s)"
  by (auto simp: series_ok_def ss_updLast_def Suc_le_eq maxSeriesPoints_def
      simp flip: length_greater_0_conv)

text \<open>The operations on a \<open>Metrics\<close>, as events.\<close>

datatype metricsOp =
    OpRequest gotime string int duration
  | OpActive gotime string int
  | OpRetry string
  | OpPanic string
  | OpTcpConn gotime string
  | OpTcpBytes gotime string string int
  | OpTcpActive string int
  | OpSnapshot

fun m_apply :: "Metrics \<Rightarrow> metricsOp \<Rightarrow> Metrics" where
  "m_apply m (OpRequest now g code d) = ObserveHTTPRequest now g code d m"
| "m_apply m (OpActive now g n) = SetActiveConnections now g n m"
| "m_apply m (OpRetry g) = ObserveRetry g m"
| "m_apply m (OpPanic g) = ObservePanic g m"
| "m_apply m (OpTcpConn now g) = ObserveTCPConnection now g m"
| "m_apply m (OpTcpBytes now g dir n) = ObserveTCPBytes now g dir n m"
| "m_apply m (OpTcpActive g n) = SetTCPActiveConnections g n m"
| "m_apply m OpSnapshot = snd (m_GroupSnapshot m)"

definition is5xxInc :: "string \<Rightarrow> promEvent \<Rightarrow> bool" where
  "is5xxInc g e \<longleftrightarrow> e = RequestsInc g ''5xx''"

fun isRequestInc :: "string \<Rightarrow> promEvent \<Rightarrow> bool" where
  "isRequestInc g (RequestsInc k c) \<longleftrightarrow> k = g"
| "isRequestInc g _ \<longleftrightarrow> False"

definition metrics_ok :: "Metrics \<Rightarrow> bool" where
  "metrics_ok m \<longleftrightarrow> series_ok (m_series m) \<and> distinct (map fst (m_perGroup m)) \<and>
     (\<forall>g. gc_requestsTotal (pg_get g (m_perGroup m)) = count_if (isRequestInc g) (m_prom m) \<and>
          gc_errors5xxTotal (pg_get g (m_perGroup m)) = count_if (is5xxInc g) (m_prom m) \<and>
          0 \<le> gc_activeConns (pg_get g (m_perGroup m)))"

lemma metrics_ok_init: "metrics_ok NewMetrics"
  by (simp add: metrics_ok_def NewMetrics_def series_ok_def pg_get_def zeroCounters_def)

lemma pg_get_reset:
  "pg_get g (snd (snapshotAndResetInterval gs)) =
     (pg_get g gs)\<lparr>gc_intervalDurationTotal := 0, gc_intervalDurationCount := 0\<rparr>"
  by (induction gs) (auto simp: pg_get_def snapshotAndResetInterval_def zeroCounters_def)

lemma reset_keys: "map fst (snd (snapshotAndResetInterval gs)) = map fst gs"
  by (induction gs) (auto simp: snapshotAndResetInterval_def)

lemma metrics_ok_apply: "metrics_ok m \<Longrightarrow> metrics_ok (m_apply m op)"
proof (cases op)
  case (OpRequest now g code d)
  assume "metrics_ok m"
  then show ?thesis unfolding OpRequest
    by (auto simp: metrics_ok_def ObserveHTTPRequest_def Let_def ss_recordRequest_def pg_recordRequest_def
        pg_get_upd pg_upd_keys is5xxInc_def series_ok_bucket intro!: series_ok_updLast)
next
  case (OpActive now g n)
  assume "metrics_ok m"
  then show ?thesis unfolding OpActive
    by (auto simp: metrics_ok_def SetActiveConnections_def ss_recordActiveConns_def pg_setActiveConns_def Let_def
        pg_get_upd pg_upd_keys is5xxInc_def intro!: series_ok_updLast
        series_ok_bucket [THEN conjunct1] series_ok_bucket [THEN conjunct2]) (auto simp: series_ok_def)
next
  case OpSnapshot
  assume "metrics_ok m"
  then show ?thesis unfolding OpSnapshot
    by (simp add: metrics_ok_def m_GroupSnapshot_def split_beta pg_get_reset reset_keys Let_def)
qed (auto simp: metrics_ok_def ObserveRetry_def ObservePanic_def ObserveTCPConnection_def ObserveTCPBytes_def
    SetTCPActiveConnections_def is5xxInc_def ss_recordTCPConnection_def ss_recordTCPBytes_def
    intro!: series_ok_updLast series_ok_bucket [THEN conjunct1] series_ok_bucket [THEN conjunct2])

lemma metrics_ok_run: "metrics_ok m \<Longrightarrow> metrics_ok (foldl m_apply m ops)"
  by (induction ops arbitrary: m) (auto simp: metrics_ok_apply)

section \<open>The complete series\<close>

text \<open>
  What the charts would show without a bound on the buffer: every bucket since the start. Beside it the total of open
  requests. The counters that were exported, added up.
\<close>

definition emptyPoint :: "gotime \<Rightarrow> int \<Rightarrow> seriesPoint" where
  "emptyPoint now active = \<lparr>sp_t = now, sp_requests = 0, sp_errors5xx = 0, sp_durationTotal = 0, sp_durationCount = 0,
     sp_activeConns = active, sp_tcpConns = 0, sp_tcpBytesIn = 0, sp_tcpBytesOut = 0\<rparr>"

definition bucketUpd :: "gotime \<Rightarrow> (seriesPoint \<Rightarrow> seriesPoint) \<Rightarrow> int \<Rightarrow> seriesPoint list \<Rightarrow> seriesPoint list" where
  "bucketUpd now f active ps =
     (if ps \<noteq> [] \<and> time_sub now (sp_t (last ps)) < seriesBucketWidth then butlast ps @ [f (last ps)]
      else ps @ [f (emptyPoint now active)])"

fun fullStep :: "seriesPoint list \<times> int \<Rightarrow> metricsOp \<Rightarrow> seriesPoint list \<times> int" where
  "fullStep (ps, a) (OpRequest now g code d) =
     (bucketUpd now (\<lambda>b. b\<lparr>sp_requests := sp_requests b + 1, sp_durationTotal := sp_durationTotal b + d,
        sp_durationCount := sp_durationCount b + 1, sp_errors5xx := sp_errors5xx b + (if 500 \<le> code then 1 else 0)\<rparr>) a ps, a)"
| "fullStep (ps, a) (OpActive now g n) =
     (bucketUpd now (\<lambda>b. b\<lparr>sp_activeConns := max 0 (a + n)\<rparr>) (max 0 (a + n)) ps, max 0 (a + n))"
| "fullStep (ps, a) (OpTcpConn now g) = (bucketUpd now (\<lambda>b. b\<lparr>sp_tcpConns := sp_tcpConns b + 1\<rparr>) a ps, a)"
| "fullStep (ps, a) (OpTcpBytes now g dir n) =
     (if n \<le> 0 then (ps, a)
      else (bucketUpd now (\<lambda>b. if dir = ''out'' then b\<lparr>sp_tcpBytesOut := sp_tcpBytesOut b + n\<rparr>
                              else b\<lparr>sp_tcpBytesIn := sp_tcpBytesIn b + n\<rparr>) a ps, a))"
| "fullStep (ps, a) _ = (ps, a)"

definition fullSeries :: "metricsOp list \<Rightarrow> seriesPoint list \<times> int" where
  "fullSeries ops = foldl fullStep ([], 0) ops"

definition totalOf :: "('a \<Rightarrow> int) \<Rightarrow> 'a list \<Rightarrow> int" where
  "totalOf f xs = sum_list (map f xs)"

fun requestsOf :: "promEvent \<Rightarrow> int" where
  "requestsOf (RequestsInc g c) = 1"
| "requestsOf _ = 0"

fun errorsOf :: "promEvent \<Rightarrow> int" where
  "errorsOf (RequestsInc g c) = (if c = ''5xx'' then 1 else 0)"
| "errorsOf _ = 0"

fun durationOf :: "promEvent \<Rightarrow> int" where
  "durationOf (DurationObserve g d) = d"
| "durationOf _ = 0"

fun tcpConnsOf :: "promEvent \<Rightarrow> int" where
  "tcpConnsOf (TcpConnsInc g) = 1"
| "tcpConnsOf _ = 0"

fun tcpBytesOf :: "promEvent \<Rightarrow> int" where
  "tcpBytesOf (TcpBytesAdd g dir n) = n"
| "tcpBytesOf _ = 0"

fun activeOf :: "string \<Rightarrow> promEvent \<Rightarrow> int" where
  "activeOf g (ActiveAdd k n) = (if k = g then n else 0)"
| "activeOf g _ = 0"

lemma totalOf_simps [simp]:
  "totalOf f [] = 0" "totalOf f (x # xs) = f x + totalOf f xs" "totalOf f (xs @ ys) = totalOf f xs + totalOf f ys"
  by (simp_all add: totalOf_def)

lemma totalOf_bucketUpd: "(\<And>now a. f (emptyPoint now a) = 0) \<Longrightarrow> (\<And>b. f (h b) = f b + d) \<Longrightarrow>
    totalOf f (bucketUpd now h a ps) = totalOf f ps + d"
  by (cases ps rule: rev_cases) (auto simp: bucketUpd_def)

text \<open>The buffer keeps the last points of the complete series.\<close>

definition keeps :: "seriesStore \<Rightarrow> seriesPoint list \<times> int \<Rightarrow> bool" where
  "keeps s full \<longleftrightarrow> ss_points s = drop (length (fst full) - maxSeriesPoints) (fst full) \<and> ss_currentActive s = snd full"

lemma keeps_bucket:
  assumes "keeps s (ps, a)"
  shows "keeps (ss_updLast f (currentBucketLocked now s)) (bucketUpd now f a ps, a)"
proof (cases ps rule: rev_cases)
  case Nil
  then show ?thesis using assms
    by (simp add: keeps_def ss_updLast_def currentBucketLocked_def bucketUpd_def Let_def maxSeriesPoints_def emptyPoint_def)
next
  case (snoc qs p)
  then obtain k where k: "ss_points s = drop k qs @ [p]" "k = length ps - maxSeriesPoints" "k \<le> length qs"
    using assms by (auto simp: keeps_def maxSeriesPoints_def)
  show ?thesis
  proof (cases "time_sub now (sp_t p) < seriesBucketWidth")
    case True
    then show ?thesis using assms k snoc
      by (simp add: keeps_def ss_updLast_def currentBucketLocked_def bucketUpd_def Let_def butlast_append)
  next
    case False
    have "drop (Suc (length qs) + 1 - 250) (qs @ [p] @ [x]) =
        (if 250 < length (drop k qs @ [p] @ [x]) then tl (drop k qs @ [p] @ [x]) else drop k qs @ [p] @ [x])" for x
    proof -
      let ?l = "qs @ [p] @ [x]"
      have "drop k qs @ [p] @ [x] = drop k ?l" "tl (drop k ?l) = drop (Suc k) ?l" using k(3) by (simp, simp only: drop_Suc tl_drop)
      moreover have "k = Suc (length qs) - 250" using k(2) snoc by (simp add: maxSeriesPoints_def)
      moreover have "Suc (length qs) + 1 - 250 = (if 250 < length (drop k ?l) then Suc k else k)"
        using \<open>k = Suc (length qs) - 250\<close> by auto
      ultimately show ?thesis by (simp del: drop_append)
    qed
    then show ?thesis using assms k snoc False
      by (auto simp: keeps_def ss_updLast_def currentBucketLocked_def bucketUpd_def Let_def maxSeriesPoints_def emptyPoint_def
          butlast_append tl_append butlast_tl split: list.splits)
  qed
qed

lemma keeps_apply:
  assumes "keeps (m_series m) full"
  shows "keeps (m_series (m_apply m op)) (fullStep full op)"
proof -
  obtain ps a where f: "full = (ps, a)" by fastforce
  note b = keeps_bucket [OF assms [unfolded f]]
  show ?thesis
  proof (cases op)
    case (OpRequest now g code d)
    have "(statusClass code = ''5xx'') = (500 \<le> code)" by (simp add: statusClass_def)
    then show ?thesis using b unfolding OpRequest f
      by (simp add: ObserveHTTPRequest_def ss_recordRequest_def Let_def)
  next
    case (OpActive now g n)
    let ?s = "(m_series m)\<lparr>ss_currentActive := max 0 (a + n)\<rparr>"
    have "keeps ?s (ps, max 0 (a + n))" using assms by (simp add: keeps_def f)
    note b = keeps_bucket [OF this]
    have "ss_currentActive (m_series m) = a" using assms by (simp add: keeps_def f)
    moreover have "(if a + n < 0 then 0 else a + n) = max 0 (a + n)" by simp
    ultimately show ?thesis using b unfolding OpActive f
      by (simp only: SetActiveConnections_def ss_recordActiveConns_def Let_def m_apply.simps fullStep.simps) simp
  qed (use assms b in \<open>simp_all add: f ObserveRetry_def ObservePanic_def ObserveTCPConnection_def ObserveTCPBytes_def
      SetTCPActiveConnections_def m_GroupSnapshot_def ss_recordTCPConnection_def ss_recordTCPBytes_def split_beta Let_def\<close>)
qed

lemma keeps_run: "keeps (m_series m) full \<Longrightarrow> keeps (m_series (foldl m_apply m ops)) (foldl fullStep full ops)"
  by (induction ops arbitrary: m full) (simp_all add: keeps_apply)

text \<open>The complete series adds up to the exported counters.\<close>

definition adds_up :: "seriesPoint list \<Rightarrow> promEvent list \<Rightarrow> bool" where
  "adds_up ps evs \<longleftrightarrow> totalOf sp_requests ps = totalOf requestsOf evs \<and> totalOf sp_errors5xx ps = totalOf errorsOf evs \<and>
     totalOf sp_durationTotal ps = totalOf durationOf evs \<and> totalOf sp_tcpConns ps = totalOf tcpConnsOf evs \<and>
     totalOf sp_tcpBytesIn ps + totalOf sp_tcpBytesOut ps = totalOf tcpBytesOf evs"

lemma adds_up_apply:
  assumes "adds_up (fst full) (m_prom m)"
  shows "adds_up (fst (fullStep full op)) (m_prom (m_apply m op))"
proof -
  obtain ps a where f: "full = (ps, a)" by fastforce
  note t = totalOf_bucketUpd [where f = sp_requests and d = 0] totalOf_bucketUpd [where f = sp_requests and d = 1]
    totalOf_bucketUpd [where f = sp_errors5xx and d = 0] totalOf_bucketUpd [where f = sp_errors5xx and d = 1]
    totalOf_bucketUpd [where f = sp_durationTotal and d = 0] totalOf_bucketUpd [where f = sp_durationTotal]
    totalOf_bucketUpd [where f = sp_tcpConns and d = 0] totalOf_bucketUpd [where f = sp_tcpConns and d = 1]
    totalOf_bucketUpd [where f = sp_tcpBytesIn and d = 0] totalOf_bucketUpd [where f = sp_tcpBytesIn]
    totalOf_bucketUpd [where f = sp_tcpBytesOut and d = 0] totalOf_bucketUpd [where f = sp_tcpBytesOut]
  show ?thesis
  proof (cases op)
    case (OpTcpBytes now g dir n)
    then show ?thesis using assms by (cases "dir = ''out''") (auto simp: f adds_up_def t emptyPoint_def ObserveTCPBytes_def)
  qed (use assms in \<open>auto simp: f adds_up_def t emptyPoint_def statusClass_def ObserveHTTPRequest_def SetActiveConnections_def
      ObserveRetry_def ObservePanic_def ObserveTCPConnection_def SetTCPActiveConnections_def m_GroupSnapshot_def split_beta Let_def\<close>)
qed

lemma adds_up_run: "adds_up (fst full) (m_prom m) \<Longrightarrow> adds_up (fst (foldl fullStep full ops)) (m_prom (foldl m_apply m ops))"
  by (induction ops arbitrary: m full) (simp_all add: adds_up_apply)

text \<open>The in-flight counter of a group is the sum of the changes, as long as these never take it below 0.\<close>

lemma prom_grows: "\<exists>evs. m_prom (m_apply m op) = evs @ m_prom m"
  by (cases op) (auto simp: ObserveHTTPRequest_def SetActiveConnections_def ObserveRetry_def ObservePanic_def ObserveTCPConnection_def
      ObserveTCPBytes_def SetTCPActiveConnections_def m_GroupSnapshot_def split_beta Let_def)

lemma active_apply:
  assumes "gc_activeConns (pg_get g (m_perGroup m)) = totalOf (activeOf g) (m_prom m)" "0 \<le> totalOf (activeOf g) (m_prom (m_apply m op))"
  shows "gc_activeConns (pg_get g (m_perGroup (m_apply m op))) = totalOf (activeOf g) (m_prom (m_apply m op))"
  using assms by (cases op) (auto simp: ObserveHTTPRequest_def SetActiveConnections_def ObserveRetry_def ObservePanic_def ObserveTCPConnection_def
      ObserveTCPBytes_def SetTCPActiveConnections_def m_GroupSnapshot_def pg_recordRequest_def pg_setActiveConns_def pg_get_upd pg_get_reset split_beta Let_def)

lemma active_run:
  "\<forall>k. 0 \<le> totalOf (activeOf g) (drop k (m_prom (foldl m_apply NewMetrics ops))) \<Longrightarrow>
     gc_activeConns (pg_get g (m_perGroup (foldl m_apply NewMetrics ops))) = totalOf (activeOf g) (m_prom (foldl m_apply NewMetrics ops))"
proof (induction ops rule: rev_induct)
  case Nil
  then show ?case by (simp add: NewMetrics_def pg_get_def zeroCounters_def)
next
  case (snoc op ops)
  let ?m = "foldl m_apply NewMetrics ops"
  obtain evs where e: "m_prom (m_apply ?m op) = evs @ m_prom ?m" using prom_grows by blast
  have "0 \<le> totalOf (activeOf g) (drop k (m_prom ?m))" for k
    using snoc.prems [rule_format, of "length evs + k"] by (simp add: e)
  moreover have "0 \<le> totalOf (activeOf g) (m_prom (m_apply ?m op))" using snoc.prems [rule_format, of 0] by simp
  ultimately show ?case using active_apply snoc.IH by simp
qed

text \<open>
  C38. The outputs of the metrics never drift apart, after any sequence of observations. For every group the
  report's request and 5xx totals are the numbers of increments its Prometheus counters received, and its in-flight
  number is the sum of the changes its Prometheus gauge received (as long as these never take it below 0, where
  it stays at 0). The chart buffer holds the last 250 buckets of the series that has every bucket since the start, and
  that series adds up, over all groups, to what Prometheus received: requests, 5xx answers, durations, TCP connections and bytes.
\<close>

theorem metrics_outputs_agree:
  assumes "m = foldl m_apply NewMetrics ops" "full = fst (fullSeries ops)"
  shows "gc_requestsTotal (pg_get g (m_perGroup m)) = count_if (isRequestInc g) (m_prom m) \<and>
    gc_errors5xxTotal (pg_get g (m_perGroup m)) = count_if (is5xxInc g) (m_prom m) \<and>
    0 \<le> gc_activeConns (pg_get g (m_perGroup m)) \<and>
    ((\<forall>k. 0 \<le> totalOf (activeOf g) (drop k (m_prom m))) \<longrightarrow> gc_activeConns (pg_get g (m_perGroup m)) = totalOf (activeOf g) (m_prom m)) \<and>
    ss_points (m_series m) = drop (length full - 250) full \<and>
    totalOf sp_requests full = totalOf requestsOf (m_prom m) \<and>
    totalOf sp_errors5xx full = totalOf errorsOf (m_prom m) \<and>
    totalOf sp_durationTotal full = totalOf durationOf (m_prom m) \<and>
    totalOf sp_tcpConns full = totalOf tcpConnsOf (m_prom m) \<and>
    totalOf sp_tcpBytesIn full + totalOf sp_tcpBytesOut full = totalOf tcpBytesOf (m_prom m)"
proof -
  have "keeps (m_series NewMetrics) ([], 0)" "adds_up (fst ([], 0::int)) (m_prom NewMetrics)"
    by (simp_all add: keeps_def adds_up_def NewMetrics_def)
  note k = keeps_run [OF this(1), of ops] adds_up_run [OF this(2), of ops]
  have "ss_points (m_series m) = drop (length full - 250) full"
    using k(1) by (simp add: keeps_def assms fullSeries_def maxSeriesPoints_def)
  moreover have "adds_up full (m_prom m)" using k(2) by (simp add: assms fullSeries_def)
  moreover note active_run [of g ops, folded assms(1)]
  moreover have "metrics_ok m" using metrics_ok_run [OF metrics_ok_init, of ops] by (simp add: assms(1))
  ultimately show ?thesis by (simp add: adds_up_def metrics_ok_def)
qed

definition demo_ops :: "metricsOp list" where
  "demo_ops = [OpActive 1 ''g'' 1, OpRequest 2 ''g'' 503 7, OpActive 3 ''g'' (- 1)]"

theorem metrics_outputs_agree_witness:
  "let m = foldl m_apply NewMetrics demo_ops
   in gc_requestsTotal (pg_get ''g'' (m_perGroup m)) = 1 \<and> gc_activeConns (pg_get ''g'' (m_perGroup m)) = 0 \<and>
      totalOf sp_requests (fst (fullSeries demo_ops)) = 1 \<and> ss_points (m_series m) = fst (fullSeries demo_ops)"
proof -
  let ?m = "foldl m_apply NewMetrics demo_ops"
  have p: "m_prom ?m = [ActiveAdd ''g'' (- 1), DurationObserve ''g'' 7, RequestsInc ''g'' ''5xx'', ActiveAdd ''g'' 1]"
    by code_simp
  have "0 \<le> totalOf (activeOf ''g'') (drop k (m_prom ?m))" for k
    unfolding p by (simp add: drop_Cons split: nat.split)
  moreover have "length (fst (fullSeries demo_ops)) = 1" by code_simp
  ultimately show ?thesis using metrics_outputs_agree [OF refl refl, where ops = demo_ops and g = "''g''"] by (simp add: p Let_def)
qed

end
