(* ===== verification/Subscriber.thy ===== *)
theory Subscriber
  imports ServerProps Metrics
begin

text \<open>
  The data plane's clients of the control plane: the reconnect loops of \<open>internal/dataplane/subscriber.go\<close> and
  \<open>routesubscriber.go\<close>, and the reports of \<open>healthreporter.go\<close> and \<open>metricsreporter.go\<close>.

  What happens to one connection attempt is an \<open>attempt\<close>: whether the process was asked to stop before it,
  whether the stream could be opened, the messages it delivered, and whether the process was asked to stop
  while it was read or during the wait that follows. A run of the loop is a function of the attempts; it
  returns the waits, the receiver's state, and whether the loop returned. The gRPC calls are these inputs.
\<close>

section \<open>The reconnect loop\<close>

record 'm streamTry =
  at_stopped :: bool
  at_opened :: bool
  at_msgs :: "'m list"
  at_stopRecv :: bool
  at_stopWait :: bool

definition maxBackoff :: duration where "maxBackoff = 30 * second"

text \<open>\<open>streamOnce\<close>: whether something was received, whether it ended with an error, the receiver's state.\<close>

definition streamOnce :: "('s \<Rightarrow> 'm \<Rightarrow> 's) \<Rightarrow> 'm streamTry \<Rightarrow> 's \<Rightarrow> bool \<times> bool \<times> 's" where
  "streamOnce recv a s =
     (if \<not> at_opened a then (False, True, s)
      else (at_msgs a \<noteq> [], \<not> at_stopRecv a, foldl recv s (at_msgs a)))"

definition nextBackoff :: "duration \<Rightarrow> duration" where
  "nextBackoff backoff = (let b = wrap64 (backoff * 2) in if b > maxBackoff then maxBackoff else b)"

fun runLoop :: "('s \<Rightarrow> 'm \<Rightarrow> 's) \<Rightarrow> duration \<Rightarrow> 'm streamTry list \<Rightarrow> 's \<Rightarrow> duration list \<times> 's \<times> bool" where
  "runLoop recv backoff [] s = ([], s, False)"
| "runLoop recv backoff (a # as) s =
     (if at_stopped a then ([], s, True)
      else
        (let (receivedAny, err, s1) = streamOnce recv a s;
             backoff1 = (if receivedAny then second else backoff)
         in if \<not> err then ([], s1, True)
            else if at_stopWait a then ([backoff1], s1, True)
            else (let (ws, s2, done) = runLoop recv (nextBackoff backoff1) as s1 in (backoff1 # ws, s2, done))))"

definition sub_Run :: "(gotime \<times> BackendSet) streamTry list \<Rightarrow> 'l BackendList \<Rightarrow> duration list \<times> 'l BackendList \<times> bool" where
  "sub_Run as b = runLoop bl_receive second as b"

definition rsub_Run :: "RouteTableMsg streamTry list \<Rightarrow> RouteTable \<Rightarrow> duration list \<times> RouteTable \<times> bool" where
  "rsub_Run as t = runLoop (\<lambda>t m. rt_Update m t) second as t"

section \<open>Reports\<close>

definition health_reportOnce :: "string \<Rightarrow> string \<Rightarrow> 'l BackendList \<Rightarrow> HealthReport option" where
  "health_reportOnce g instanceID b =
     (let snapshot = bl_HealthSnapshot b
      in if snapshot = [] then None
         else Some \<lparr>HR_Group = g, HR_InstanceId = instanceID,
                    HR_Backends = map (\<lambda>(a, h). \<lparr>BH_Address = a, BH_Healthy = h\<rparr>) snapshot\<rparr>)"

definition metrics_reportOnce :: "string \<Rightarrow> Metrics \<Rightarrow> MetricsReport option \<times> Metrics" where
  "metrics_reportOnce instanceID m =
     (let (snapshots, m1) = m_GroupSnapshot m
      in if snapshots = [] then (None, m1)
         else (Some \<lparr>MR_InstanceId = instanceID,
                 MR_Groups = map (\<lambda>s. \<lparr>GM_Group = Metrics.GroupSnapshot.gs_Group s,
                   GM_RequestsTotal = Metrics.GroupSnapshot.gs_RequestsTotal s,
                   GM_Errors5xxTotal = Metrics.GroupSnapshot.gs_Errors5xxTotal s,
                   GM_ActiveConnections = gs_ActiveConns s,
                   GM_AvgDurationMs = Metrics.GroupSnapshot.gs_AvgDurationMs s\<rparr>) snapshots\<rparr>, m1))"

section \<open>What the loop does\<close>

definition goes_on :: "'m streamTry \<Rightarrow> bool" where
  "goes_on a \<longleftrightarrow> \<not> at_stopped a \<and> (at_opened a \<longrightarrow> \<not> at_stopRecv a) \<and> \<not> at_stopWait a"

definition delivered :: "'m streamTry \<Rightarrow> 'm list" where
  "delivered a = (if at_opened a then at_msgs a else [])"

lemma nextBackoff_range: "second \<le> b \<Longrightarrow> b \<le> maxBackoff \<Longrightarrow> nextBackoff b = min (2 * b) maxBackoff"
  by (simp add: nextBackoff_def maxBackoff_def int64_defs Let_def min_def)

fun waitsFrom :: "duration \<Rightarrow> bool list \<Rightarrow> duration list" where
  "waitsFrom b [] = []"
| "waitsFrom b (got # gots) = (let w = (if got then second else b) in w # waitsFrom (min (2 * w) maxBackoff) gots)"

lemma runLoop_step:
  assumes "goes_on a"
  shows "runLoop recv b (a # as) s =
    (let w = (if delivered a \<noteq> [] then second else b); (ws, r) = runLoop recv (nextBackoff w) as (foldl recv s (delivered a)) in (w # ws, r))"
  using assms by (cases "at_opened a") (auto simp: goes_on_def streamOnce_def delivered_def Let_def split: prod.split)

lemma runLoop_going:
  "list_all goes_on as \<Longrightarrow> second \<le> b \<Longrightarrow> b \<le> maxBackoff \<Longrightarrow>
     runLoop recv b as s = (waitsFrom b (map (\<lambda>a. delivered a \<noteq> []) as), foldl recv s (concat (map delivered as)), False)"
proof (induction as arbitrary: b s)
  case (Cons a as)
  let ?w = "if delivered a \<noteq> [] then second else b"
  have w: "second \<le> ?w" "?w \<le> maxBackoff" using Cons.prems by (simp_all add: maxBackoff_def int64_defs)
  have "second \<le> nextBackoff ?w" "nextBackoff ?w \<le> maxBackoff"
    using w by (auto simp: nextBackoff_range maxBackoff_def int64_defs min_def)
  from Cons.IH [OF _ this] Cons.prems(1) show ?case
    using nextBackoff_range [OF w] by (simp add: runLoop_step Let_def del: runLoop.simps)
qed simp

lemma length_waitsFrom [simp]: "length (waitsFrom b gots) = length gots"
  by (induction gots arbitrary: b) (simp_all add: Let_def)

lemma waitsFrom_nth:
  "i < length gots \<Longrightarrow> waitsFrom b gots ! i =
     (if gots ! i then second else if i = 0 then b else min (2 * waitsFrom b gots ! (i - 1)) maxBackoff)"
proof (induction gots arbitrary: b i)
  case (Cons got gots)
  then show ?case
  proof (cases i)
    case (Suc k)
    then show ?thesis using Cons.IH [of k] Cons.prems by (cases k) (simp_all add: Let_def)
  qed (simp add: Let_def)
qed simp

lemma waitsFrom_closed:
  "i < length gots \<Longrightarrow> j \<le> i \<Longrightarrow> gots ! j \<or> j = 0 \<Longrightarrow> \<forall>l. j < l \<and> l \<le> i \<longrightarrow> \<not> gots ! l \<Longrightarrow>
     waitsFrom second gots ! i = min (2 ^ (i - j) * second) maxBackoff"
proof (induction i)
  case 0
  then show ?case by (simp add: waitsFrom_nth maxBackoff_def int64_defs)
next
  case (Suc i)
  show ?case
  proof (cases "j = Suc i")
    case True
    then show ?thesis using Suc.prems by (simp add: waitsFrom_nth maxBackoff_def int64_defs)
  next
    case False
    then have "waitsFrom second gots ! i = min (2 ^ (i - j) * second) maxBackoff" using Suc by auto
    moreover have "\<not> gots ! Suc i" "Suc i - j = Suc (i - j)" using Suc.prems False by auto
    ultimately show ?thesis using Suc.prems by (simp add: waitsFrom_nth maxBackoff_def int64_defs min_def)
  qed
qed

lemma runLoop_stops:
  "list_all goes_on as \<Longrightarrow> \<not> goes_on a \<Longrightarrow>
     snd (runLoop recv b (as @ a # rest) s) =
       (foldl recv s (concat (map delivered as) @ (if at_stopped a then [] else delivered a)), True)"
proof (induction as arbitrary: b s)
  case Nil
  then show ?case by (auto simp: goes_on_def streamOnce_def delivered_def Let_def)
next
  case (Cons a' as)
  then show ?case by (simp add: runLoop_step Let_def case_prod_beta del: runLoop.simps)
qed

text \<open>The loop of the route subscriber is the same loop on the route table.\<close>

lemma route_subscriber_loop:
  assumes "list_all goes_on as"
  shows "rsub_Run as t = (waitsFrom second (map (\<lambda>a. delivered a \<noteq> []) as),
    foldl (\<lambda>t m. rt_Update m t) t (concat (map delivered as)), False)"
  unfolding rsub_Run_def using assms by (rule runLoop_going) (simp_all add: maxBackoff_def int64_defs)

text \<open>
  C33. The reconnect loop: as long as nobody stops the data plane it never gives up, applies every set that any
  of its connections delivered, in order and none twice, and waits between connections one second after
  a connection that delivered something and twice as long after each further one that delivered nothing, up
  to 30 seconds. As soon as the data plane is stopped, before, during or after a connection, the loop returns
  at that attempt with all that was delivered applied.
\<close>

theorem subscriber_loop:
  assumes "list_all goes_on as" "sub_Run as b = (waits, b1, returned)" "\<not> goes_on a"
  shows "\<not> returned \<and> b1 = foldl bl_receive b (concat (map delivered as)) \<and> length waits = length as \<and>
    (\<forall>i < length as. \<forall>j \<le> i. (j = 0 \<or> delivered (as ! j) \<noteq> []) \<and> (\<forall>l. j < l \<and> l \<le> i \<longrightarrow> delivered (as ! l) = []) \<longrightarrow>
       waits ! i = min (2 ^ (i - j) * second) (30 * second)) \<and>
    snd (sub_Run (as @ a # rest) b) = (foldl bl_receive b1 (if at_stopped a then [] else delivered a), True)"
proof -
  have "second \<le> (second :: int)" "second \<le> maxBackoff" by (simp_all add: maxBackoff_def int64_defs)
  note g = runLoop_going [OF assms(1) this]
  have r: "waits = waitsFrom second (map (\<lambda>a. delivered a \<noteq> []) as)" "b1 = foldl bl_receive b (concat (map delivered as))" "\<not> returned"
    using assms(2) by (simp_all add: sub_Run_def g)
  have "waits ! i = min (2 ^ (i - j) * second) (30 * second)"
    if "i < length as" "j \<le> i" "j = 0 \<or> delivered (as ! j) \<noteq> []" "\<forall>l. j < l \<and> l \<le> i \<longrightarrow> delivered (as ! l) = []" for i j
    using waitsFrom_closed [of i "map (\<lambda>a. delivered a \<noteq> []) as" j] that by (auto simp: r(1) maxBackoff_def)
  moreover have "snd (sub_Run (as @ a # rest) b) = (foldl bl_receive b1 (if at_stopped a then [] else delivered a), True)"
    unfolding sub_Run_def runLoop_stops [OF assms(1,3)] by (simp add: r(2))
  ultimately show ?thesis using r by (simp only: length_waitsFrom length_map simp_thms) blast
qed

theorem subscriber_loop_witness:
  "let a = \<lparr>at_stopped = False, at_opened = False, at_msgs = [], at_stopRecv = False, at_stopWait = False\<rparr>
   in \<forall>rng. fst (sub_Run (replicate 7 a) (NewBackendList rng 0 :: unit BackendList)) ! 6 = 30 * second"
proof -
  define a :: "(gotime \<times> BackendSet) streamTry" where
    "a = \<lparr>at_stopped = False, at_opened = False, at_msgs = [], at_stopRecv = False, at_stopWait = False\<rparr>"
  have "fst (sub_Run (replicate 7 a) b) ! 6 = 30 * second" for b :: "unit BackendList"
  proof -
    obtain ws b1 ret where r: "sub_Run (replicate 7 a) b = (ws, b1, ret)" by (metis prod_cases3)
    have "list_all goes_on (replicate 7 a)" "\<not> goes_on (a\<lparr>at_stopped := True\<rparr>)"
      by (simp_all add: list_all_length goes_on_def a_def)
    from subscriber_loop [OF this(1) r this(2)]
    have w: "\<forall>i < 7. \<forall>j \<le> i. (j = 0 \<or> delivered (replicate 7 a ! j) \<noteq> []) \<and> (\<forall>l. j < l \<and> l \<le> i \<longrightarrow> delivered (replicate 7 a ! l) = []) \<longrightarrow>
       ws ! i = min (2 ^ (i - j) * second) (30 * second)" by simp
    have "delivered a = []" by (simp add: delivered_def a_def)
    then have "ws ! 6 = min (2 ^ (6 - 0) * second) (30 * second)" by (intro w [rule_format]) simp_all
    then show ?thesis by (simp add: r int64_defs)
  qed
  then show ?thesis by (simp add: a_def [symmetric])
qed

section \<open>A health report reaches the control plane\<close>

text \<open>
  What a data plane believes about its backends is what the control plane shows: within 30 seconds of a
  report, a backend of the list counts as known, and as healthy exactly when the reporting data plane holds it
  healthy and so does every other instance whose report on it is fresh.
\<close>

theorem health_report_shown:
  assumes "distinct (map be_address (bl_entries b))" "e \<in> set (bl_entries b)" "distinct (map fst (sv_health sv))"
    and "health_reportOnce g i b = Some report" "\<not> time_sub t now > 30 * second"
  shows "healthForAddress t (ReportHealth now report sv) g (be_address e) =
    (be_healthy e \<and> (\<forall>i' en. i' \<noteq> i \<and> map_of (sv_health sv) (g, i', be_address e) = Some en \<and>
        \<not> time_sub t (hl_reportedAt en) > 30 * second \<longrightarrow> hl_healthy en), True)"
proof -
  let ?sv = "ReportHealth now report sv" and ?a = "be_address e"
  have r: "report = \<lparr>HR_Group = g, HR_InstanceId = i,
      HR_Backends = map (\<lambda>e. \<lparr>BH_Address = be_address e, BH_Healthy = be_healthy e\<rparr>) (bl_entries b)\<rparr>"
    using assms(4) by (auto simp: health_reportOnce_def bl_HealthSnapshot_def Let_def split: if_splits)
  have "find (\<lambda>x. BH_Address x = BH_Address \<lparr>BH_Address = ?a, BH_Healthy = be_healthy e\<rparr>) (rev (HR_Backends report)) =
      Some \<lparr>BH_Address = ?a, BH_Healthy = be_healthy e\<rparr>"
    using assms(1,2) by (intro find_report) (auto simp: r comp_def)
  then have m: "map_of (sv_health ?sv) (g, i', ?a) =
      (if i' = i then Some \<lparr>hl_healthy = be_healthy e, hl_reportedAt = now\<rparr> else map_of (sv_health sv) (g, i', ?a))" for i'
    by (simp add: ReportHealth_lookup) (simp add: r)
  have f: "ke \<in> set (sv_health ?sv) \<and> freshHealth t g ?a ke \<longleftrightarrow>
      (\<exists>i' en. ke = ((g, i', ?a), en) \<and> map_of (sv_health ?sv) (g, i', ?a) = Some en \<and> \<not> time_sub t (hl_reportedAt en) > 30 * second)" for ke
    using health_keys_distinct [OF assms(3), of now report] by (cases ke) (auto simp: freshHealth_def healthReportMaxAge_def)
  have own: "((g, i, ?a), \<lparr>hl_healthy = be_healthy e, hl_reportedAt = now\<rparr>) \<in> set (sv_health ?sv) \<and>
      freshHealth t g ?a ((g, i, ?a), \<lparr>hl_healthy = be_healthy e, hl_reportedAt = now\<rparr>)"
    unfolding f using m assms(5) by auto
  have "(\<forall>ke \<in> set (sv_health ?sv). freshHealth t g ?a ke \<longrightarrow> hl_healthy (snd ke)) \<longleftrightarrow>
      (\<forall>i' en. map_of (sv_health ?sv) (g, i', ?a) = Some en \<and> \<not> time_sub t (hl_reportedAt en) > 30 * second \<longrightarrow> hl_healthy en)"
    using f by (metis snd_conv)
  also have "\<dots> \<longleftrightarrow> be_healthy e \<and> (\<forall>i' en. i' \<noteq> i \<and> map_of (sv_health sv) (g, i', ?a) = Some en \<and>
        \<not> time_sub t (hl_reportedAt en) > 30 * second \<longrightarrow> hl_healthy en)"
    using assms(5) by (auto simp: m split: if_splits)
  finally show ?thesis using own by (auto simp: healthForAddress_fresh)
qed

theorem health_report_shown_witness:
  "\<forall>rng. \<exists>report. health_reportOnce ''g'' ''i'' (bl_SetHealth 2 ''b'' False (demo_list [] rng)) = Some report \<and>
     healthForAddress 4 (ReportHealth 3 report demo_server) ''g'' ''b'' = (False, True)"
proof
  fix rng
  define b where "b = bl_SetHealth 2 ''b'' False (demo_list [] rng)"
  have e: "map (\<lambda>e. (be_address e, be_healthy e)) (bl_entries b) = [(''a'', True), (''b'', False)]"
    by (simp add: b_def demo_simps bl_SetHealth_def)
  from arg_cong [OF e, of "map fst"] have d: "map be_address (bl_entries b) = [''a'', ''b'']" by (simp add: comp_def)
  obtain z x where "bl_entries b = [z, x]" and x: "be_address x = ''b''" "\<not> be_healthy x"
    using e by (auto simp: map_eq_Cons_conv)
  then have m: "x \<in> set (bl_entries b)" by simp
  obtain report where r: "health_reportOnce ''g'' ''i'' b = Some report" using d by (auto simp: health_reportOnce_def bl_HealthSnapshot_def)
  have "distinct (map fst (sv_health demo_server))" by (simp add: demo_server_def NewServer_def)
  moreover have "\<not> time_sub 4 3 > 30 * second" by (simp add: time_sub_def int64_defs)
  ultimately have "healthForAddress 4 (ReportHealth 3 report demo_server) ''g'' ''b'' = (False, True)"
    using health_report_shown [OF _ m _ r, of demo_server 4 3] d x by simp
  then show "\<exists>report. health_reportOnce ''g'' ''i'' (bl_SetHealth 2 ''b'' False (demo_list [] rng)) = Some report \<and>
     healthForAddress 4 (ReportHealth 3 report demo_server) ''g'' ''b'' = (False, True)"
    using r by (auto simp: b_def)
qed

end
