(* ===== verification/HealthCheck.thy ===== *)
theory HealthCheck
  imports Backends "HOL-Library.Multiset"
begin

text \<open>
  Active health checking (\<open>internal/dataplane/healthcheck.go\<close>). The network is a parameter: \<open>dial\<close>
  says whether a TCP connection to an address succeeds within the timeout, \<open>httpDo\<close> returns the
  status of a GET to a URL with a \<open>Host\<close> override, or \<open>None\<close> for a request that cannot be built or
  fails. \<open>checkAll\<close> probes concurrently; each result is recorded under the checker's mutex, so a round
  is the sequence of the records in some order of the addresses, an argument of the model.
\<close>

section \<open>Definitions\<close>

datatype HealthCheckMode = HealthCheckTCP | HealthCheckHTTP

record HealthChecker =
  hc_Interval :: duration
  hc_Timeout :: duration
  hc_FailureThreshold :: int
  hc_SuccessThreshold :: int
  hc_Mode :: string
  hc_HTTPPath :: string
  hc_HTTPExpectStatus :: int
  hc_HTTPScheme :: string
  hc_HTTPHost :: string
  hc_streak :: "string \<rightharpoonup> int"

definition NewHealthChecker :: HealthChecker where
  "NewHealthChecker =
     \<lparr>hc_Interval = 5 * second, hc_Timeout = 2 * second, hc_FailureThreshold = 3, hc_SuccessThreshold = 2,
      hc_Mode = ''tcp'', hc_HTTPPath = [], hc_HTTPExpectStatus = 0, hc_HTTPScheme = [], hc_HTTPHost = [],
      hc_streak = Map.empty\<rparr>"

definition hc_mode :: "HealthChecker \<Rightarrow> HealthCheckMode" where
  "hc_mode h = (if hc_Mode h = ''http'' then HealthCheckHTTP else HealthCheckTCP)"

definition statusHealthy :: "HealthChecker \<Rightarrow> int \<Rightarrow> bool" where
  "statusHealthy h status =
     (if hc_HTTPExpectStatus h \<noteq> 0 then status = hc_HTTPExpectStatus h else 200 \<le> status \<and> status < 300)"

definition probeTCP :: "(string \<Rightarrow> bool) \<Rightarrow> string \<Rightarrow> bool" where
  "probeTCP dial addr = dial addr"

definition probeURL :: "HealthChecker \<Rightarrow> string \<Rightarrow> string" where
  "probeURL h addr =
     (let scheme = (if hc_HTTPScheme h = [] then ''http'' else hc_HTTPScheme h);
          path = (if hc_HTTPPath h = [] then ''/'' else hc_HTTPPath h);
          path = (if path ! 0 \<noteq> CHR ''/'' then CHR ''/'' # path else path)
      in scheme @ ''://'' @ addr @ path)"

definition probeHTTP :: "(string \<Rightarrow> string option \<Rightarrow> int option) \<Rightarrow> HealthChecker \<Rightarrow> string \<Rightarrow> bool" where
  "probeHTTP httpDo h addr =
     (case httpDo (probeURL h addr) (if hc_HTTPHost h \<noteq> [] then Some (hc_HTTPHost h) else None) of
        None \<Rightarrow> False
      | Some status \<Rightarrow> statusHealthy h status)"

definition nextStreak :: "int \<Rightarrow> bool \<Rightarrow> int" where
  "nextStreak streak success =
     (if success then (if streak < 0 then 0 else streak) + 1 else (if streak > 0 then 0 else streak) - 1)"

definition streakOf :: "HealthChecker \<Rightarrow> string \<Rightarrow> int" where
  "streakOf h addr = (case hc_streak h addr of None \<Rightarrow> 0 | Some n \<Rightarrow> n)"

definition hc_recordResult ::
    "gotime \<Rightarrow> string \<Rightarrow> bool \<Rightarrow> HealthChecker \<times> 'l BackendList \<Rightarrow> HealthChecker \<times> 'l BackendList" where
  "hc_recordResult now addr success hb =
     (let (h, b) = hb;
          streak = nextStreak (streakOf h addr) success;
          h1 = h\<lparr>hc_streak := (hc_streak h)(addr \<mapsto> streak)\<rparr>
      in if success \<and> streak \<ge> hc_SuccessThreshold h1 then (h1, bl_SetHealth now addr True b)
         else if \<not> success \<and> - streak \<ge> hc_FailureThreshold h1 then (h1, bl_SetHealth now addr False b)
         else (h1, b))"

definition checkOne ::
    "(string \<Rightarrow> bool) \<Rightarrow> (string \<Rightarrow> string option \<Rightarrow> int option) \<Rightarrow> gotime \<Rightarrow> string
       \<Rightarrow> HealthChecker \<times> 'l BackendList \<Rightarrow> HealthChecker \<times> 'l BackendList" where
  "checkOne dial httpDo now addr hb =
     (let ok = (if hc_mode (fst hb) = HealthCheckHTTP then probeHTTP httpDo (fst hb) addr else probeTCP dial addr)
      in hc_recordResult now addr ok hb)"

text \<open>One round over the addresses in the order \<open>addrs\<close> in which the probes finish.\<close>

definition checkAll ::
    "(string \<Rightarrow> bool) \<Rightarrow> (string \<Rightarrow> string option \<Rightarrow> int option) \<Rightarrow> gotime \<Rightarrow> string list
       \<Rightarrow> HealthChecker \<times> 'l BackendList \<Rightarrow> HealthChecker \<times> 'l BackendList" where
  "checkAll dial httpDo now addrs hb = fold (checkOne dial httpDo now) addrs hb"

text \<open>Successive results of one address.\<close>

definition hc_run ::
    "string \<Rightarrow> (gotime \<times> bool) list \<Rightarrow> HealthChecker \<times> 'l BackendList \<Rightarrow> HealthChecker \<times> 'l BackendList" where
  "hc_run addr rs hb = fold (\<lambda>(now, ok). hc_recordResult now addr ok) rs hb"

section \<open>Lemmas\<close>

lemma recordResult_streak:
  "hc_streak (fst (hc_recordResult now addr ok (h, b))) = (hc_streak h)(addr \<mapsto> nextStreak (streakOf h addr) ok)"
  by (simp add: hc_recordResult_def Let_def)

lemma recordResult_config:
  "hc_FailureThreshold (fst (hc_recordResult now addr ok hb)) = hc_FailureThreshold (fst hb)"
  "hc_SuccessThreshold (fst (hc_recordResult now addr ok hb)) = hc_SuccessThreshold (fst hb)"
  "hc_Mode (fst (hc_recordResult now addr ok hb)) = hc_Mode (fst hb)"
  by (cases hb; simp add: hc_recordResult_def Let_def)+

lemma streakOf_recordResult:
  "streakOf (fst (hc_recordResult now addr ok (h, b))) addr = nextStreak (streakOf h addr) ok"
  by (simp add: streakOf_def recordResult_streak)

text \<open>A negative streak \<open>- m\<close> means the last \<open>m\<close> results failed.\<close>

lemma nextStreak_neg:
  "nextStreak s r = - int (Suc k) \<Longrightarrow> \<not> r \<and> (k = 0 \<or> s = - int k)"
  by (auto simp: nextStreak_def split: if_splits)

lemma streak_failures: "foldl nextStreak 0 rs = - int m \<Longrightarrow> \<exists>pre. rs = pre @ replicate m False"
proof (induction rs arbitrary: m rule: rev_induct)
  case (snoc r rs)
  show ?case
  proof (cases m)
    case (Suc k)
    have r: "\<not> r" "k = 0 \<or> foldl nextStreak 0 rs = - int k"
      using nextStreak_neg [of "foldl nextStreak 0 rs" r k] snoc.prems Suc by auto
    then obtain pre where "rs = pre @ replicate k False" using snoc.IH by auto
    then show ?thesis using Suc r by (auto simp: replicate_append_same)
  qed simp
qed simp

lemma streak_after:
  "foldl nextStreak s (replicate (Suc m) False) \<le> - int (Suc m)"
  "foldl nextStreak s (replicate (Suc m) True) \<ge> int (Suc m)"
proof (induction m)
  case (Suc m)
  have snoc: "replicate (Suc (Suc m)) b = replicate (Suc m) b @ [b]" for b :: bool
    by (metis replicate_Suc replicate_append_same)
  { case 1 show ?case unfolding snoc using Suc(1) by (simp add: nextStreak_def del: replicate_Suc) }
  { case 2 show ?case unfolding snoc using Suc(2) by (simp add: nextStreak_def del: replicate_Suc) }
qed (simp_all add: nextStreak_def)

lemma hc_run_simps [simp]:
  "hc_run a [] hb = hb"
  "hc_run a (rs @ [r]) hb = hc_recordResult (fst r) a (snd r) (hc_run a rs hb)"
  by (simp_all add: hc_run_def split: prod.splits)

lemma hc_run_streak: "streakOf (fst (hc_run a rs hb)) a = foldl nextStreak (streakOf (fst hb) a) (map snd rs)"
proof (induction rs rule: rev_induct)
  case (snoc r rs)
  obtain h b where hb: "hc_run a rs hb = (h, b)" by fastforce
  show ?case using snoc by (simp add: hb streakOf_recordResult)
qed simp

lemma hc_run_config:
  "hc_FailureThreshold (fst (hc_run a rs hb)) = hc_FailureThreshold (fst hb)"
  "hc_SuccessThreshold (fst (hc_run a rs hb)) = hc_SuccessThreshold (fst hb)"
  by (induction rs rule: rev_induct) (simp_all add: recordResult_config)

lemma find_first: "find p xs = Some x \<Longrightarrow> q x \<Longrightarrow> find (\<lambda>x. p x \<and> q x) xs = Some x"
  by (induction xs) (auto split: if_splits)

lemma SetHealth_entries:
  assumes "distinct (bl_Addresses b)"
  shows "bl_entries (bl_SetHealth now a h b) =
    update_first (\<lambda>e. be_address e = a) (\<lambda>e. e\<lparr>be_healthy := h\<rparr>) (bl_entries b)"
proof -
  have u: "distinct (map be_address es) \<Longrightarrow>
      update_first (\<lambda>e. be_address e = a \<and> be_healthy e \<noteq> h) (\<lambda>e. e\<lparr>be_healthy := h\<rparr>) es =
      update_first (\<lambda>e. be_address e = a) (\<lambda>e. e\<lparr>be_healthy := h\<rparr>) es" for es
  proof (induction es)
    case (Cons e es)
    have "be_address x \<noteq> be_address e" if "x \<in> set es" for x
      using Cons.prems imageI [OF that, of be_address] by auto
    then have "be_address e = a \<Longrightarrow> update_first (\<lambda>e. be_address e = a \<and> be_healthy e \<noteq> h) (\<lambda>e. e\<lparr>be_healthy := h\<rparr>) es = es"
      by (intro update_first_ident) auto
    then show ?case using Cons by (cases "be_address e = a"; cases "be_healthy e = h") auto
  qed simp
  have "bl_entries (bl_SetHealth now a h b) =
      update_first (\<lambda>e. be_address e = a \<and> be_healthy e \<noteq> h) (\<lambda>e. e\<lparr>be_healthy := h\<rparr>) (bl_entries b)"
    by (cases "find (\<lambda>e. be_address e = a \<and> be_healthy e \<noteq> h) (bl_entries b)")
       (simp_all add: bl_SetHealth_def update_first_None)
  then show ?thesis using u [of "bl_entries b"] assms by (simp add: bl_Addresses_def)
qed

lemma SetHealth_addresses [simp]: "bl_Addresses (bl_SetHealth now a h b) = bl_Addresses b"
  by (auto simp: bl_SetHealth_def bl_Addresses_def Let_def map_update_first split: option.splits)

lemma SetHealth_find:
  assumes "distinct (bl_Addresses b)" "find_entry a b = Some e"
  shows "find_entry a (bl_SetHealth now a h b) = Some (e\<lparr>be_healthy := h\<rparr>)"
  using assms by (simp add: find_entry_def SetHealth_entries find_update_first)

lemma hc_run_addresses [simp]: "bl_Addresses (snd (hc_run a rs hb)) = bl_Addresses (snd hb)"
proof (induction rs rule: rev_induct)
  case (snoc r rs)
  obtain h b where hb: "hc_run a rs hb = (h, b)" by fastforce
  show ?case using snoc by (simp add: hb hc_recordResult_def Let_def)
qed simp

text \<open>Nothing of an entry but its health mark changes in a run.\<close>

lemma hc_run_entry:
  assumes "distinct (bl_Addresses (snd hb))" "find_entry a (snd hb) = Some e"
  shows "\<exists>h. find_entry a (snd (hc_run a rs hb)) = Some (e\<lparr>be_healthy := h\<rparr>)"
  using assms
proof (induction rs rule: rev_induct)
  case Nil
  then show ?case by (intro exI [of _ "be_healthy e"]) simp
next
  case (snoc r rs)
  obtain h b where hb: "hc_run a rs hb = (h, b)" by fastforce
  have d: "distinct (bl_Addresses b)" using snoc.prems hc_run_addresses [of a rs hb] by (simp add: hb)
  obtain v where "find_entry a b = Some (e\<lparr>be_healthy := v\<rparr>)" using snoc by (auto simp: hb)
  then show ?case using SetHealth_find [OF d] by (auto simp: hb hc_recordResult_def Let_def)
qed


section \<open>Records of different addresses commute\<close>

lemma update_first_commute:
  assumes "\<And>x. p x \<Longrightarrow> \<not> q x \<and> \<not> q (f x)" "\<And>x. q x \<Longrightarrow> \<not> p x \<and> \<not> p (g x)"
  shows "update_first p f (update_first q g xs) = update_first q g (update_first p f xs)"
  by (induction xs) (use assms in auto)

lemma find_None_update_first:
  assumes "\<And>x. q x \<Longrightarrow> \<not> p x \<and> \<not> p (g x)"
  shows "find p (update_first q g xs) = None \<longleftrightarrow> find p xs = None"
  by (induction xs) (use assms in auto)

lemma rebuild_overwrites:
  "rebuildSlotsLocked now ((rebuildSlotsLocked now b)\<lparr>bl_entries := es\<rparr>) = rebuildSlotsLocked now (b\<lparr>bl_entries := es\<rparr>)"
  by (simp add: rebuildSlotsLocked_def split: prod.splits)

lemma SetHealth_commute:
  assumes "a \<noteq> a'"
  shows "bl_SetHealth now a h (bl_SetHealth now a' h' b) = bl_SetHealth now a' h' (bl_SetHealth now a h b)"
proof -
  let ?p = "\<lambda>a h e. be_address e = a \<and> be_healthy e \<noteq> h" and ?f = "\<lambda>h e. e\<lparr>be_healthy := h\<rparr>"
  have c: "update_first (?p a h) (?f h) (update_first (?p a' h') (?f h') (bl_entries b)) =
      update_first (?p a' h') (?f h') (update_first (?p a h) (?f h) (bl_entries b))"
    by (rule update_first_commute) (use assms in auto)
  have n: "find (?p a h) (update_first (?p a' h') (?f h') (bl_entries b)) = None \<longleftrightarrow> find (?p a h) (bl_entries b) = None"
    "find (?p a' h') (update_first (?p a h) (?f h) (bl_entries b)) = None \<longleftrightarrow> find (?p a' h') (bl_entries b) = None"
    by (rule find_None_update_first; use assms in auto)+
  show ?thesis
  proof (cases "find (?p a h) (bl_entries b)")
    case None
    then show ?thesis using n(1)
      by (cases "find (?p a' h') (bl_entries b)") (simp_all add: bl_SetHealth_def Let_def)
  next
    case (Some e)
    then obtain e1 where e1: "find (?p a h) (update_first (?p a' h') (?f h') (bl_entries b)) = Some e1" using n(1) by fastforce
    show ?thesis
    proof (cases "find (?p a' h') (bl_entries b)")
      case None
      then show ?thesis using Some n(2) by (simp add: bl_SetHealth_def Let_def)
    next
      case (Some e2)
      then obtain e3 where "find (?p a' h') (update_first (?p a h) (?f h) (bl_entries b)) = Some e3" using n(2) by fastforce
      then show ?thesis using Some \<open>find (?p a h) (bl_entries b) = Some e\<close> e1 c
        by (simp add: bl_SetHealth_def Let_def rebuild_overwrites)
    qed
  qed
qed

definition verdict :: "HealthChecker \<Rightarrow> string \<Rightarrow> bool \<Rightarrow> bool option" where
  "verdict h addr ok =
     (if ok \<and> nextStreak (streakOf h addr) ok \<ge> hc_SuccessThreshold h then Some True
      else if \<not> ok \<and> - nextStreak (streakOf h addr) ok \<ge> hc_FailureThreshold h then Some False else None)"

lemma recordResult_verdict:
  "hc_recordResult now addr ok (h, b) =
     (h\<lparr>hc_streak := (hc_streak h)(addr \<mapsto> nextStreak (streakOf h addr) ok)\<rparr>,
      case verdict h addr ok of None \<Rightarrow> b | Some v \<Rightarrow> bl_SetHealth now addr v b)"
  by (cases ok) (simp_all add: hc_recordResult_def verdict_def Let_def)

lemma recordResult_commute:
  assumes "a \<noteq> a'"
  shows "hc_recordResult now a ok (hc_recordResult now a' ok' hb) = hc_recordResult now a' ok' (hc_recordResult now a ok hb)"
proof -
  obtain h b where hb: "hb = (h, b)" by fastforce
  have st: "streakOf (h\<lparr>hc_streak := (hc_streak h)(x \<mapsto> n)\<rparr>) y = streakOf h y" if "x \<noteq> y" for x y n
    using that by (simp add: streakOf_def)
  then have v: "verdict (h\<lparr>hc_streak := (hc_streak h)(x \<mapsto> n)\<rparr>) y v = verdict h y v" if "x \<noteq> y" for x y n v
    using that by (cases v) (simp_all add: verdict_def)
  have m: "(hc_streak h)(a' \<mapsto> n, a \<mapsto> n') = (hc_streak h)(a \<mapsto> n', a' \<mapsto> n)" for n n'
    using assms by (simp add: fun_upd_twist)
  have "a' \<noteq> a" using assms by simp
  then show ?thesis unfolding hb recordResult_verdict using assms m
    by (auto simp: st v SetHealth_commute [OF assms] split: option.splits)
qed

lemma probe_frame:
  "hc_mode (h\<lparr>hc_streak := m\<rparr>) = hc_mode h"
  "probeHTTP httpDo (h\<lparr>hc_streak := m\<rparr>) addr = probeHTTP httpDo h addr"
proof -
  have "statusHealthy (h\<lparr>hc_streak := m\<rparr>) s = statusHealthy h s" "probeURL (h\<lparr>hc_streak := m\<rparr>) addr = probeURL h addr"
    for s by (simp_all add: statusHealthy_def probeURL_def)
  then show "probeHTTP httpDo (h\<lparr>hc_streak := m\<rparr>) addr = probeHTTP httpDo h addr"
    by (simp add: probeHTTP_def split: option.splits)
qed (simp add: hc_mode_def)

lemma recordResult_shape:
  "\<exists>m2 b2. hc_recordResult now a ok (h\<lparr>hc_streak := m\<rparr>, b) = (h\<lparr>hc_streak := m2\<rparr>, b2)"
  by (auto simp: hc_recordResult_def Let_def)

section \<open>Properties\<close>

definition demo_backends :: "nat stream \<Rightarrow> unit BackendList" where
  "demo_backends rng = (NewBackendList rng 1)\<lparr>bl_entries :=
     [\<lparr>be_address = ''a'', be_weight = 1, be_healthy = True, be_activeConns = 0, be_consecErrors = 0,
       be_ejectedUntil = 0, be_ejectCount = 0\<rparr>]\<rparr>"

lemma demo_backends_facts:
  "distinct (bl_Addresses (demo_backends rng))"
  "find_entry ''a'' (demo_backends rng) = Some (bl_entries (demo_backends rng) ! 0)"
  "be_healthy (bl_entries (demo_backends rng) ! 0)"
  by (simp_all add: demo_backends_def bl_Addresses_def find_entry_def)

text \<open>
  Detection: once the last \<open>n\<close> probes of a backend failed, with \<open>n\<close> at least the failure threshold,
  the backend is marked unhealthy, and once the last \<open>n\<close> succeeded, with \<open>n\<close> at least the success
  threshold, it is marked healthy, whatever the results before that.
\<close>

theorem health_detected:
  assumes "distinct (bl_Addresses b)" "find_entry a b = Some e"
    and "map snd rs = pre @ replicate n ok" "0 < n"
    and "(if ok then hc_SuccessThreshold h else hc_FailureThreshold h) \<le> int n"
  shows "find_entry a (snd (hc_run a rs (h, b))) = Some (e\<lparr>be_healthy := ok\<rparr>)"
proof -
  obtain m where m: "n = Suc m" using assms(4) by (cases n) auto
  have "map snd rs = (pre @ replicate m ok) @ [ok]" using assms(3) m by (simp add: replicate_append_same)
  then obtain rs0 r where rs: "rs = rs0 @ [r]" "snd r = ok" 
    by (cases rs rule: rev_cases) auto
  obtain h0 b0 where hb: "hc_run a rs0 (h, b) = (h0, b0)" by fastforce
  have d: "distinct (bl_Addresses b0)" using assms(1) hc_run_addresses [of a rs0 "(h, b)"] by (simp add: hb)
  obtain v where e0: "find_entry a b0 = Some (e\<lparr>be_healthy := v\<rparr>)"
    using hc_run_entry [of "(h, b)" a e rs0] assms(1,2) by (auto simp: hb)
  have t: "hc_FailureThreshold h0 = hc_FailureThreshold h" "hc_SuccessThreshold h0 = hc_SuccessThreshold h"
    using hc_run_config [of a rs0 "(h, b)"] by (simp_all add: hb)
  have "nextStreak (streakOf h0 a) ok = streakOf (fst (hc_run a rs (h, b))) a"
    by (simp add: rs hb streakOf_recordResult)
  also have "\<dots> = foldl nextStreak (foldl nextStreak (streakOf h a) pre) (replicate (Suc m) ok)"
    using hc_run_streak [of a rs "(h, b)"] unfolding assms(3) m by (simp del: replicate_Suc)
  finally have "nextStreak (streakOf h0 a) ok =
      foldl nextStreak (foldl nextStreak (streakOf h a) pre) (replicate (Suc m) ok)" .
  then have "if ok then int n \<le> nextStreak (streakOf h0 a) ok else nextStreak (streakOf h0 a) ok \<le> - int n"
    using streak_after [where s = "foldl nextStreak (streakOf h a) pre" and m = m] m by (cases ok) (simp_all del: replicate_Suc)
  then have "snd (hc_recordResult (fst r) a ok (h0, b0)) = bl_SetHealth (fst r) a ok b0"
    using assms(5) t by (auto simp: hc_recordResult_def Let_def split: if_splits)
  then show ?thesis using SetHealth_find [OF d e0, of "fst r" ok] by (simp add: rs hb)
qed

theorem health_detected_witness:
  "\<forall>rng. map_option be_healthy (find_entry ''a'' (snd (hc_run ''a''
     [(2, True), (3, False), (4, False), (5, False)] (NewHealthChecker, demo_backends rng)))) = Some False"
  by (subst health_detected [OF demo_backends_facts(1,2), where pre = "[True]" and n = 3 and ok = False])
     (simp_all add: numeral_3_eq_3 NewHealthChecker_def)

text \<open>
  No flapping: while no \<open>FailureThreshold\<close> probes of a healthy backend fail in a row, it stays
  healthy, however many isolated failures there are.
\<close>

theorem health_no_flap:
  assumes "distinct (bl_Addresses b)" "find_entry a b = Some e" "be_healthy e" "streakOf h a = 0"
    and "\<forall>pre m post. map snd rs = pre @ replicate m False @ post \<longrightarrow> int m < hc_FailureThreshold h"
  shows "find_entry a (snd (hc_run a rs (h, b))) = Some e"
  using assms(5)
proof (induction rs rule: rev_induct)
  case (snoc r rs)
  have IH: "find_entry a (snd (hc_run a rs (h, b))) = Some e"
  proof (rule snoc.IH, intro allI impI)
    fix pre m post assume "map snd rs = pre @ replicate m False @ post"
    then have "map snd (rs @ [r]) = pre @ replicate m False @ (post @ [snd r])" by simp
    then show "int m < hc_FailureThreshold h" using snoc.prems by blast
  qed
  obtain h0 b0 where hb: "hc_run a rs (h, b) = (h0, b0)" by fastforce
  have d: "distinct (bl_Addresses b0)" using assms(1) hc_run_addresses [of a rs "(h, b)"] by (simp add: hb)
  have t: "hc_FailureThreshold h0 = hc_FailureThreshold h"
    using hc_run_config [of a rs "(h, b)"] by (simp add: hb)
  have s: "nextStreak (streakOf h0 a) (snd r) = foldl nextStreak 0 (map snd (rs @ [r]))"
    using hc_run_streak [of a rs "(h, b)"] assms(4) by (simp add: hb)
  show ?case
  proof (cases "snd r")
    case True
    have "e\<lparr>be_healthy := True\<rparr> = e" using assms(3) by simp
    then show ?thesis using True IH SetHealth_find [OF d, of a e "fst r" True]
      by (auto simp: hb hc_recordResult_def Let_def)
  next
    case False
    then obtain m where m: "nextStreak (streakOf h0 a) (snd r) = - int m"
      by (intro that [of "nat (- nextStreak (streakOf h0 a) (snd r))"]) (auto simp: nextStreak_def)
    then obtain pre where "map snd (rs @ [r]) = pre @ replicate m False @ []"
      using streak_failures [of "map snd (rs @ [r])" m] s by auto
    then have "int m < hc_FailureThreshold h" using snoc.prems by blast
    then show ?thesis using False IH m t by (auto simp: hb hc_recordResult_def Let_def)
  qed
qed (use assms(2) in simp)

theorem health_no_flap_witness:
  "\<forall>rng. find_entry ''a'' (snd (hc_run ''a'' [(2, False), (3, True), (4, False)] (NewHealthChecker, demo_backends rng))) =
     Some (bl_entries (demo_backends rng) ! 0)"
proof
  fix rng
  show "find_entry ''a'' (snd (hc_run ''a'' [(2, False), (3, True), (4, False)] (NewHealthChecker, demo_backends rng))) =
     Some (bl_entries (demo_backends rng) ! 0)"
  proof (rule health_no_flap [OF demo_backends_facts])
    show "streakOf NewHealthChecker ''a'' = 0" by (simp add: streakOf_def NewHealthChecker_def)
    have "int m < 3" if e: "[False, True, False] = pre @ replicate m False @ post" for pre m post
    proof (rule ccontr)
      assume "\<not> int m < 3"
      moreover have "3 = length pre + m + length post" using arg_cong [OF e, of length] by simp
      ultimately have "m = 3" "length pre = 0" "length post = 0" by linarith+
      then show False using e by (simp add: numeral_3_eq_3)
    qed
    then show "\<forall>pre m post. map snd [(2, False), (3, True), (4, False)] = pre @ replicate m False @ post \<longrightarrow>
        int m < hc_FailureThreshold NewHealthChecker"
      by (simp add: NewHealthChecker_def)
  qed
qed

text \<open>
  The concurrent probes of a round may finish in any order: for distinct addresses, every order in
  which their results are recorded gives the same streaks and the same backend list.
\<close>

theorem round_order_irrelevant:
  assumes "distinct addrs" "mset addrs' = mset addrs"
  shows "checkAll dial httpDo now addrs' (h, b) = checkAll dial httpDo now addrs (h, b)"
proof -
  let ?ok = "\<lambda>addr. if hc_mode h = HealthCheckHTTP then probeHTTP httpDo h addr else probeTCP dial addr"
  have "fold (checkOne dial httpDo now) as (h\<lparr>hc_streak := m\<rparr>, b1) =
      fold (\<lambda>addr. hc_recordResult now addr (?ok addr)) as (h\<lparr>hc_streak := m\<rparr>, b1)"
    for as m and b1 :: "'a BackendList"
  proof (induction as arbitrary: m b1)
    case (Cons a as)
    obtain m2 b2 where r: "hc_recordResult now a (?ok a) (h\<lparr>hc_streak := m\<rparr>, b1) = (h\<lparr>hc_streak := m2\<rparr>, b2)"
      using recordResult_shape by blast
    have "checkOne dial httpDo now a (h\<lparr>hc_streak := m\<rparr>, b1) = hc_recordResult now a (?ok a) (h\<lparr>hc_streak := m\<rparr>, b1)"
      by (simp add: checkOne_def probe_frame)
    then show ?case using Cons.IH [of m2 b2] r by (simp only: fold_Cons comp_apply)
  qed simp
  from this [of _ "hc_streak h" b]
  have e: "checkAll dial httpDo now as (h, b) = fold (\<lambda>addr. hc_recordResult now addr (?ok addr)) as (h, b)" for as
    by (simp add: checkAll_def)
  have "fold (\<lambda>addr. hc_recordResult now addr (?ok addr)) addrs' = fold (\<lambda>addr. hc_recordResult now addr (?ok addr)) addrs"
  proof (rule fold_multiset_equiv)
    fix x y assume "x \<in> set addrs'" "y \<in> set addrs'"
    show "hc_recordResult now x (?ok x) \<circ> hc_recordResult now y (?ok y) =
        hc_recordResult now y (?ok y) \<circ> hc_recordResult now x (?ok x)"
      by (cases "x = y") (auto simp: recordResult_commute)
  qed (rule assms(2))
  then show ?thesis unfolding e by (rule fun_cong)
qed


theorem round_order_irrelevant_witness:
  "\<forall>rng. checkAll (\<lambda>_. False) (\<lambda>_ _. None) 2 [''b'', ''a''] (NewHealthChecker, demo_backends rng) =
     checkAll (\<lambda>_. False) (\<lambda>_ _. None) 2 [''a'', ''b''] (NewHealthChecker, demo_backends rng)"
  by (intro allI round_order_irrelevant) simp_all

end
