(* ===== verification/Loops.thy ===== *)
theory Loops
  imports Subscriber HealthCheck
begin

text \<open>
  The background loops that a ticker drives: \<open>Run\<close> of the control plane's server (\<open>server.go\<close>), of the health
  checker (\<open>healthcheck.go\<close>) and of the two reporters (\<open>healthreporter.go\<close>, \<open>metricsreporter.go\<close>), and
  \<open>SimulateScaling\<close> of the fake provider (\<open>internal/pool/fake.go\<close>).

  A run of a loop is a function of what wakes it up: ticks, each with what the body reads from outside at that
  tick, and the end of the context. When both are ready Go chooses at random, so every list of wake-ups is
  possible. The result is the state and whether the loop returned. \<open>time.NewTicker\<close> panics for an interval that
  is not positive; then there is no result.
\<close>

section \<open>Ticker loops\<close>

datatype 'a wake = Tick 'a | Done

fun tickerLoop :: "('a \<Rightarrow> 's \<Rightarrow> 's) \<Rightarrow> 'a wake list \<Rightarrow> 's \<Rightarrow> 's \<times> bool" where
  "tickerLoop body [] s = (s, False)"
| "tickerLoop body (Done # ws) s = (s, True)"
| "tickerLoop body (Tick a # ws) s = tickerLoop body ws (body a s)"

lemma tickerLoop_ticks: "tickerLoop body (map Tick as @ ws) s = tickerLoop body ws (fold body as s)"
  by (induction as arbitrary: s) simp_all

lemma tickerLoop_all [simp]: "tickerLoop body (map Tick as) s = (fold body as s, False)"
  using tickerLoop_ticks [of body as "[]" s] by simp

lemma tickerLoop_returns: "snd (tickerLoop body ws s) \<longleftrightarrow> Done \<in> set ws"
  by (induction body ws s rule: tickerLoop.induct) simp_all

text \<open>What holds at the start and survives a tick holds throughout.\<close>

lemma tickerLoop_inv:
  "I s \<Longrightarrow> (\<And>a s. Tick a \<in> set ws \<Longrightarrow> I s \<Longrightarrow> I (body a s)) \<Longrightarrow> I (fst (tickerLoop body ws s))"
  by (induction body ws s rule: tickerLoop.induct) simp_all

section \<open>The loops\<close>

text \<open>One reconciliation reads the groups of the provider and a snapshot of each.\<close>

type_synonym poolAnswer = "string list option \<times> (string \<Rightarrow> Snapshot option)"

definition sv_Run :: "duration \<Rightarrow> poolAnswer \<Rightarrow> poolAnswer wake list \<Rightarrow> 'st Server \<Rightarrow> ('st Server \<times> bool) option" where
  "sv_Run interval first ws sv =
     (if interval \<le> 0 then None
      else Some (tickerLoop (\<lambda>(groups, snapshot). reconcile groups snapshot) ws (reconcile (fst first) (snd first) sv)))"

text \<open>
  A round reads the addresses of the list; \<open>pr_order\<close> is the order in which their probes finish, a permutation
  of them. In HTTP mode the loop's client does not follow redirects, which is \<open>pr_httpDo\<close>.
\<close>

record probeRound =
  pr_dial :: "string \<Rightarrow> bool"
  pr_httpDo :: "string \<Rightarrow> string option \<Rightarrow> int option"
  pr_now :: gotime
  pr_order :: "string list \<Rightarrow> string list"

definition hc_Run :: "probeRound wake list \<Rightarrow> HealthChecker \<times> 'l BackendList \<Rightarrow> ((HealthChecker \<times> 'l BackendList) \<times> bool) option" where
  "hc_Run ws hb =
     (if hc_Interval (fst hb) \<le> 0 then None
      else Some (tickerLoop (\<lambda>pr hb.
        checkAll (pr_dial pr) (pr_httpDo pr) (pr_now pr) (pr_order pr (bl_Addresses (snd hb))) hb) ws hb))"

text \<open>The reporters; \<open>clientFails\<close> is a client that cannot be created. The result is what was sent.\<close>

definition health_Run :: "bool \<Rightarrow> duration \<Rightarrow> string \<Rightarrow> string \<Rightarrow> 'l BackendList wake list \<Rightarrow> (HealthReport list \<times> bool) option" where
  "health_Run clientFails interval g instanceID ws =
     (if clientFails then Some ([], True)
      else if interval \<le> 0 then None
      else Some (tickerLoop (\<lambda>b sent. case health_reportOnce g instanceID b of None \<Rightarrow> sent | Some r \<Rightarrow> sent @ [r]) ws []))"

text \<open>A tick of the metrics reporter comes with what was observed since the one before.\<close>

definition metrics_Run ::
    "bool \<Rightarrow> duration \<Rightarrow> string \<Rightarrow> (Metrics \<Rightarrow> Metrics) wake list \<Rightarrow> Metrics \<Rightarrow> ((Metrics \<times> MetricsReport list) \<times> bool) option" where
  "metrics_Run clientFails interval instanceID ws m =
     (if clientFails then Some ((m, []), True)
      else if interval \<le> 0 then None
      else Some (tickerLoop (\<lambda>observed (m, sent).
        let (r, m1) = metrics_reportOnce instanceID (observed m)
        in (m1, case r of None \<Rightarrow> sent | Some r \<Rightarrow> sent @ [r])) ws (m, [])))"

text \<open>The scan for a port may in principle fail to end, which is no result.\<close>

definition SimulateScaling :: "duration \<Rightarrow> int \<Rightarrow> int \<Rightarrow> unit wake list \<Rightarrow> FakeProvider \<Rightarrow> (FakeProvider option \<times> bool) option" where
  "SimulateScaling interval minPerGroup maxPerGroup ws p =
     (if interval \<le> 0 then None
      else Some (tickerLoop (\<lambda>_ p. case p of None \<Rightarrow> None | Some p \<Rightarrow> mutateRandomGroup minPerGroup maxPerGroup p) ws (Some p)))"

section \<open>What the control plane publishes\<close>

lemma reconcileGroup_last:
  "sv_last (reconcileGroup snap h sv) g =
     (if g \<noteq> h then sv_last sv g
      else case snap g of None \<Rightarrow> sv_last sv g
        | Some sn \<Rightarrow> sv_last (publishIfChanged g sn sv) g)"
  by (auto simp: reconcileGroup_def publishIfChanged_def commitIfChanged_def split: option.split)

text \<open>The published set of a group agrees with a snapshot: the same backends with their weights, in some order.\<close>

definition agrees :: "'st Server \<Rightarrow> string \<Rightarrow> Snapshot \<Rightarrow> bool" where
  "agrees sv g sn \<longleftrightarrow> (\<exists>bs. sv_last sv g = Some bs \<and> mset (BS_Backends bs) = mset (BS_Backends (prepareSet g sn sv)))"

lemma prepareSet_cong:
  assumes "sv_overrides sv' = sv_overrides sv" "sv_algorithms sv' = sv_algorithms sv" "sv_sticky sv' = sv_sticky sv"
    "sv_rateLimits sv' = sv_rateLimits sv"
  shows "prepareSet g sn sv' = prepareSet g sn sv"
  using assms by (simp add: prepareSet_def)

lemma reconcileGroup_settings:
  "sv_overrides (reconcileGroup snap h sv) = sv_overrides sv" "sv_algorithms (reconcileGroup snap h sv) = sv_algorithms sv"
  "sv_sticky (reconcileGroup snap h sv) = sv_sticky sv" "sv_rateLimits (reconcileGroup snap h sv) = sv_rateLimits sv"
  using reconcile_settings [of "Some [h]" snap sv] by (simp_all add: reconcile_def)

lemma reconcile_Cons [simp]: "reconcile (Some (h # gs)) snap sv = reconcile (Some gs) snap (reconcileGroup snap h sv)"
  by (simp add: reconcile_def)

lemma reconcile_Nil [simp]: "reconcile (Some []) snap sv = sv"
  by (simp add: reconcile_def)

lemma prepareSet_reconcile [simp]:
  "prepareSet g sn (reconcile groups snap sv) = prepareSet g sn sv" "prepareSet g sn (reconcileGroup snap h sv) = prepareSet g sn sv"
  using reconcile_settings [of groups snap sv] by (auto intro!: prepareSet_cong simp: reconcileGroup_settings)

lemma reconcile_other: "g \<notin> set gs \<Longrightarrow> sv_last (reconcile (Some gs) snap sv) g = sv_last sv g"
  by (induction gs arbitrary: sv) (simp_all add: reconcileGroup_last)

lemma reconcile_other_subs: "g \<notin> set gs \<Longrightarrow> sv_subs (reconcile (Some gs) snap sv) g = sv_subs sv g"
  by (induction gs arbitrary: sv)
    (auto simp: reconcileGroup_def publishIfChanged_def commitIfChanged_def commitSet_def Let_def split: option.split)

lemma reconcile_unread: "snap g = None \<Longrightarrow> sv_last (reconcile (Some gs) snap sv) g = sv_last sv g"
  by (induction gs arbitrary: sv) (auto simp: reconcileGroup_last)

lemma publish_agrees: "agrees (publishIfChanged g sn sv) g sn"
proof (cases "backendSetsEqual (sv_last sv g) (Some (prepareSet g sn sv))")
  case True
  then obtain bs where "sv_last sv g = Some bs" by (cases "sv_last sv g") (auto simp: backendSetsEqual_def)
  then show ?thesis using True
    by (simp add: agrees_def publishIfChanged_def commitIfChanged_def backendSetsEqual_exact)
next
  case False
  have "prepareSet g sn (commitSet g (prepareSet g sn sv) sv) = prepareSet g sn sv"
    by (rule prepareSet_cong) (simp_all add: commitSet_def Let_def)
  then show ?thesis using False by (simp add: agrees_def publishIfChanged_def commitIfChanged_def)
qed

lemma reconcile_agrees: "g \<in> set gs \<Longrightarrow> snap g = Some sn \<Longrightarrow> agrees (reconcile (Some gs) snap sv) g sn"
proof (induction gs arbitrary: sv)
  case (Cons h gs)
  show ?case
  proof (cases "g \<in> set gs")
    case False
    then have "h = g" using Cons.prems by simp
    then have "agrees (reconcileGroup snap h sv) g sn" using Cons.prems publish_agrees by (simp add: reconcileGroup_def)
    then show ?thesis by (simp add: agrees_def reconcile_other [OF False])
  qed (use Cons in simp)
qed simp

text \<open>A group whose published set already is the one to publish is left alone: nothing is sent.\<close>

lemma reconcile_quiet:
  assumes "sv_last sv g = Some old" "distinct (map Backend_Address (BS_Backends old))"
    and "\<And>sn. snap g = Some sn \<Longrightarrow> mset (BS_Backends old) = mset (BS_Backends (prepareSet g sn sv))"
  shows "sv_last (reconcile (Some gs) snap sv) g = Some old \<and> sv_subs (reconcile (Some gs) snap sv) g = sv_subs sv g"
  using assms(1,3)
proof (induction gs arbitrary: sv)
  case (Cons h gs)
  let ?sv = "reconcileGroup snap h sv"
  have s: "sv_last ?sv g = Some old \<and> sv_subs ?sv g = sv_subs sv g"
  proof (cases "h = g")
    case True
    then show ?thesis using Cons.prems assms(2)
      by (auto simp: reconcileGroup_def publishIfChanged_def commitIfChanged_def backendSetsEqual_exact split: option.split)
  next
    case False
    then show ?thesis using Cons.prems(1)
      by (auto simp: reconcileGroup_def publishIfChanged_def commitIfChanged_def commitSet_def Let_def split: option.split)
  qed
  then show ?case using Cons.IH [of ?sv] Cons.prems(2) by simp
qed simp

text \<open>
  C37. The control plane follows its provider: after any run of the reconciliation loop, the last tick in which
  the provider listed its groups leaves every listed group whose snapshot it gave published with exactly
  the backends of that snapshot, drained ones left out and weight overrides applied; a group the tick
  did not list or could not read keeps the set it had; and a group whose set already agreed is not published again,
  so no data plane is sent anything for it.
\<close>

theorem run_follows_provider:
  assumes "sv_Run interval first (map Tick earlier) sv = Some (before, False)"
    and "sv_Run interval first (map Tick (earlier @ [(Some groups, snap)])) sv = Some (sv', stopped)"
  shows "\<not> stopped \<and> (if g \<in> set groups \<and> snap g \<noteq> None then agrees sv' g (the (snap g)) else sv_last sv' g = sv_last before g) \<and>
    (\<forall>old. sv_last before g = Some old \<and> distinct (map Backend_Address (BS_Backends old)) \<and>
        (g \<notin> set groups \<or> pred_option (agrees before g) (snap g)) \<longrightarrow>
      sv_last sv' g = Some old \<and> sv_subs sv' g = sv_subs before g)"
proof -
  have r: "sv' = reconcile (Some groups) snap before" "\<not> stopped"
    using assms by (auto simp: sv_Run_def split: if_splits simp del: map_append)
  have same: "sv_last sv' g = sv_last before g" if "g \<notin> set groups \<or> snap g = None"
    using that reconcile_other [of g groups snap before] reconcile_unread [of snap g groups before] r(1) by auto
  have quiet: "sv_last sv' g = Some old \<and> sv_subs sv' g = sv_subs before g"
    if "sv_last before g = Some old" "distinct (map Backend_Address (BS_Backends old))" "g \<notin> set groups \<or> pred_option (agrees before g) (snap g)" for old
  proof (cases "g \<in> set groups")
    case True
    have "mset (BS_Backends old) = mset (BS_Backends (prepareSet g sn before))" if "snap g = Some sn" for sn
      using \<open>g \<notin> set groups \<or> _\<close> \<open>sv_last before g = Some old\<close> True that by (simp add: agrees_def)
    then show ?thesis using r(1) reconcile_quiet [OF that(1,2), of snap groups] by simp
  next
    case False
    then show ?thesis using that(1) r(1) reconcile_other [OF False, of snap before] reconcile_other_subs [OF False, of snap before] by simp
  qed
  have "agrees sv' g sn" if "g \<in> set groups" "snap g = Some sn" for sn
    unfolding r(1) by (rule reconcile_agrees [of g groups snap]) (rule that)+
  then show ?thesis using r(2) same quiet by auto
qed


definition demo_answer :: poolAnswer where
  "demo_answer = (Some [''g''], \<lambda>g. if g = ''g'' then Some demo_snap else None)"

theorem run_follows_provider_witness:
  "\<exists>sv'. sv_Run 5 (None, \<lambda>_. None) [Tick demo_answer] demo_server = Some (sv', False) \<and> agrees sv' ''g'' demo_snap"
proof -
  let ?s = "snd demo_answer"
  obtain sv' where v: "sv_Run 5 (None, \<lambda>_. None) (map Tick ([] @ [(Some [''g''], ?s)])) demo_server = Some (sv', False)"
    by (simp add: sv_Run_def)
  have b: "sv_Run 5 (None, \<lambda>_. None) (map Tick []) demo_server = Some (demo_server, False)"
    by (simp add: sv_Run_def reconcile_def)
  from run_follows_provider [OF b v, of "''g''"] have "agrees sv' ''g'' demo_snap" by (simp add: demo_answer_def)
  then show ?thesis using v by (simp add: demo_answer_def)
qed

section \<open>Health checks under traffic\<close>

text \<open>The health marks of a list, and what each operation does to them.\<close>

lemma marks_SetHealth:
  assumes "distinct (bl_Addresses b)"
  shows "bl_HealthSnapshot (bl_SetHealth now x v b) = map (\<lambda>(y, m). (y, if y = x then v else m)) (bl_HealthSnapshot b)"
proof -
  let ?hit = "\<lambda>e. be_address e = x \<and> be_healthy e \<noteq> v"
  have u: "map (\<lambda>e. (be_address e, be_healthy e)) (update_first ?hit (\<lambda>e. e\<lparr>be_healthy := v\<rparr>) es) =
      map (\<lambda>e. (be_address e, if be_address e = x then v else be_healthy e)) es" if "distinct (map be_address es)" for es
    using that by (induction es) (auto simp: image_iff)
  show ?thesis
  proof (cases "find ?hit (bl_entries b)")
    case None
    then have "bl_SetHealth now x v b = b" by (simp add: bl_SetHealth_def)
    moreover have "\<forall>e \<in> set (bl_entries b). be_address e = x \<longrightarrow> be_healthy e = v" using None by (auto simp: find_None_iff)
    ultimately show ?thesis by (auto simp: bl_HealthSnapshot_def)
  next
    case (Some e)
    then show ?thesis using u [of "bl_entries b"] assms by (simp add: bl_SetHealth_def bl_HealthSnapshot_def bl_Addresses_def)
  qed
qed

lemma marks_traffic:
  "bl_HealthSnapshot (snd (bl_NextForKey now key b)) = bl_HealthSnapshot b"
  "bl_HealthSnapshot (snd (bl_PinTo now x b)) = bl_HealthSnapshot b"
  "bl_HealthSnapshot (bl_Release x b) = bl_HealthSnapshot b"
  "bl_HealthSnapshot (bl_RecordResult now x ok b) = bl_HealthSnapshot b"
  "bl_HealthSnapshot (snd (bl_RateLimitAllow nl al now k b)) = bl_HealthSnapshot b"
proof -
  show "bl_HealthSnapshot (snd (bl_NextForKey now key b)) = bl_HealthSnapshot b"
  proof (cases "bl_slots (bl_refresh now b) = []")
    case False
    then obtain i where t: "takes (bl_refresh now b) (bl_NextForKey now key b) i" by (rule NextForKey_takes)
    have "map (\<lambda>e. (be_address e, be_healthy e)) (bl_entries (snd (bl_NextForKey now key b))) =
        map (\<lambda>e. (be_address e, be_healthy e)) (bl_entries (bl_refresh now b))"
      unfolding takes_result(2) [OF t] by (rule map_bump) (simp add: bump_def)
    then show ?thesis by (simp add: bl_HealthSnapshot_def)
  qed (simp add: NextForKey_empty bl_HealthSnapshot_def)
  show "bl_HealthSnapshot (bl_RecordResult now x ok b) = bl_HealthSnapshot b"
    by (cases rule: RecordResult_cases [of now x ok b]) (simp_all add: bl_HealthSnapshot_def upd_entry_map)
qed (auto simp: bl_PinTo_def bl_Release_def bl_RateLimitAllow_def bl_HealthSnapshot_def upd_entry_map split: option.split prod.split)

lemma marks_Update:
  assumes "distinct (bl_Addresses b)" "(a, v) \<in> set (bl_HealthSnapshot b)" "a \<in> Backend_Address ` set (BS_Backends bs)"
  shows "(a, v) \<in> set (bl_HealthSnapshot (bl_Update now bs b))"
proof -
  obtain e where e: "e \<in> set (bl_entries b)" "be_address e = a" "be_healthy e = v" using assms(2) by (auto simp: bl_HealthSnapshot_def)
  have "prevHealth (bl_entries b) a = Some v"
    using prevEntries_distinct [OF assms(1) [unfolded bl_Addresses_def] e(1)] e by (simp add: prevHealth_prevEntries)
  then show ?thesis using assms(2,3) by (auto simp: bl_Update_def bl_HealthSnapshot_def newEntry_def image_iff)
qed

lemma marks_addresses: "bl_Addresses b = map fst (bl_HealthSnapshot b)"
  by (simp add: bl_Addresses_def bl_HealthSnapshot_def comp_def)

text \<open>
  A group's list with its checker: created, then any interleaving of probe results, selections, pins, releases, results
  of requests, rate-limit checks, and updates from the control plane, whatever backends they have (without
  duplicates). \<open>rs\<close> are the results of the probes of the backend \<open>a\<close> so far, and \<open>kept\<close> says whether \<open>a\<close> was in the list at
  the last of them and in every set since.
\<close>

inductive hc_sys :: "OutlierConfig \<Rightarrow> string \<Rightarrow> gotime \<Rightarrow> HealthChecker \<Rightarrow> 'l BackendList \<Rightarrow> bool list \<Rightarrow> bool \<Rightarrow> bool" for cfg a where
  init: "bl_reach cfg t b \<Longrightarrow> distinct (bl_Addresses b) \<Longrightarrow> hc_streak h a = None \<Longrightarrow> hc_sys cfg a t h b [] False"
| probe: "hc_sys cfg a t h b rs kept \<Longrightarrow> t \<le> now \<Longrightarrow> hc_recordResult now x ok (h, b) = (h', b') \<Longrightarrow>
    hc_sys cfg a now h' b' (if x = a then rs @ [ok] else rs) (if x = a then a \<in> set (bl_Addresses b) else kept)"
| select: "hc_sys cfg a t h b rs kept \<Longrightarrow> t \<le> now \<Longrightarrow> hc_sys cfg a now h (snd (bl_NextForKey now key b)) rs kept"
| pin: "hc_sys cfg a t h b rs kept \<Longrightarrow> t \<le> now \<Longrightarrow> hc_sys cfg a now h (snd (bl_PinTo now x b)) rs kept"
| result: "hc_sys cfg a t h b rs kept \<Longrightarrow> t \<le> now \<Longrightarrow> hc_sys cfg a now h (bl_RecordResult now x ok b) rs kept"
| release: "hc_sys cfg a t h b rs kept \<Longrightarrow> t \<le> now \<Longrightarrow> hc_sys cfg a now h (bl_Release x b) rs kept"
| limit: "hc_sys cfg a t h b rs kept \<Longrightarrow> t \<le> now \<Longrightarrow> hc_sys cfg a now h (snd (bl_RateLimitAllow nl al now k b)) rs kept"
| update: "hc_sys cfg a t h b rs kept \<Longrightarrow> t \<le> now \<Longrightarrow> distinct (map Backend_Address (BS_Backends bs)) \<Longrightarrow> b' = bl_Update now bs b \<Longrightarrow>
    hc_sys cfg a now h b' rs (kept \<and> a \<in> set (bl_Addresses b'))"

definition threshold :: "HealthChecker \<Rightarrow> bool \<Rightarrow> int" where
  "threshold h ok = (if ok then hc_SuccessThreshold h else hc_FailureThreshold h)"

definition hc_inv :: "string \<Rightarrow> HealthChecker \<Rightarrow> 'l BackendList \<Rightarrow> bool list \<Rightarrow> bool \<Rightarrow> bool" where
  "hc_inv a h b rs kept \<longleftrightarrow> distinct (bl_Addresses b) \<and> (kept \<longrightarrow> a \<in> set (bl_Addresses b)) \<and> streakOf h a = foldl nextStreak 0 rs \<and>
     (\<forall>pre n ok. kept \<and> rs = pre @ replicate n ok \<and> 0 < n \<and> threshold h ok \<le> int n \<longrightarrow> (a, ok) \<in> set (bl_HealthSnapshot b))"

lemma hc_inv_marks: "hc_inv a h b rs kept \<Longrightarrow> bl_HealthSnapshot b' = bl_HealthSnapshot b \<Longrightarrow> hc_inv a h b' rs kept"
  unfolding hc_inv_def marks_addresses by metis

lemma streak_run:
  assumes "rs @ [ok] = pre @ replicate n ok'" "0 < n"
  shows "ok' = ok \<and> (if ok then int n \<le> foldl nextStreak 0 (rs @ [ok]) else foldl nextStreak 0 (rs @ [ok]) \<le> - int n)"
proof -
  obtain m where n: "n = Suc m" using assms(2) by (cases n) auto
  have "last (rs @ [ok]) = ok'" unfolding assms(1) n by (simp del: replicate_Suc add: last_replicate)
  then have ok: "ok' = ok" by simp
  have "foldl nextStreak 0 (rs @ [ok]) = foldl nextStreak (foldl nextStreak 0 pre) (replicate (Suc m) ok)"
    unfolding assms(1) n ok by (simp del: replicate_Suc)
  then show ?thesis using ok streak_after [where s = "foldl nextStreak 0 pre" and m = m] n by (cases ok) (simp_all del: replicate_Suc)
qed

lemma hc_inv_probe:
  assumes "hc_inv a h b rs kept" "hc_recordResult now x ok (h, b) = (h', b')"
  shows "hc_inv a h' b' (if x = a then rs @ [ok] else rs) (if x = a then a \<in> set (bl_Addresses b) else kept)"
proof -
  let ?s = "nextStreak (streakOf h x) ok"
  have i: "distinct (bl_Addresses b)" "kept \<Longrightarrow> a \<in> set (bl_Addresses b)" "streakOf h a = foldl nextStreak 0 rs"
    "\<And>pre n ok. kept \<Longrightarrow> rs = pre @ replicate n ok \<Longrightarrow> 0 < n \<Longrightarrow> threshold h ok \<le> int n \<Longrightarrow> (a, ok) \<in> set (bl_HealthSnapshot b)"
    using assms(1) by (auto simp: hc_inv_def)
  have h': "hc_streak h' = (hc_streak h)(x \<mapsto> ?s)" "threshold h' = threshold h"
    and b': "b' = (if threshold h ok \<le> (if ok then ?s else - ?s) then bl_SetHealth now x ok b else b)"
    using assms(2) by (auto simp: hc_recordResult_def threshold_def fun_eq_iff Let_def split: if_splits)
  have addr: "bl_Addresses b' = bl_Addresses b"
    using marks_SetHealth [OF i(1), of now x ok] by (simp add: b' marks_addresses comp_def case_prod_beta)
  show ?thesis
  proof (cases "x = a")
    case True
    have s: "foldl nextStreak 0 (rs @ [ok]) = ?s" using i(3) True by simp
    have "(a, ok') \<in> set (bl_HealthSnapshot b')"
      if p: "rs @ [ok] = pre @ replicate n ok'" "0 < n" "threshold h ok' \<le> int n" and here: "a \<in> set (bl_Addresses b)" for pre n ok'
    proof -
      have "ok' = ok" "threshold h ok \<le> (if ok then ?s else - ?s)" using streak_run [OF p(1,2)] p(3) s by (auto split: if_splits)
      moreover obtain m where "(a, m) \<in> set (bl_HealthSnapshot b)" using here by (auto simp: marks_addresses)
      from imageI [OF this, of "\<lambda>(y, m). (y, if y = x then ok else m)"]
      have "(a, ok) \<in> set (bl_HealthSnapshot (bl_SetHealth now x ok b))" using True by (simp add: marks_SetHealth [OF i(1)])
      ultimately show ?thesis by (simp add: b')
    qed
    then show ?thesis using True i(1) addr s by (auto simp: hc_inv_def streakOf_def h')
  next
    case False
    have "(a, v) \<in> set (bl_HealthSnapshot b')" if "(a, v) \<in> set (bl_HealthSnapshot b)" for v
      using that False marks_SetHealth [OF i(1), of now x ok] by (force simp: b')
    then show ?thesis using False i addr by (auto simp: hc_inv_def streakOf_def h')
  qed
qed

lemma hc_sys_inv: "hc_sys cfg a t h b rs kept \<Longrightarrow> bl_inv t b \<and> hc_inv a h b rs kept"
proof (induction rule: hc_sys.induct)
  case (init t b h)
  then show ?case using reach_inv by (auto simp: hc_inv_def streakOf_def)
next
  case (probe t h b rs kept now x ok h' b')
  have "b' = b \<or> (\<exists>v. b' = bl_SetHealth now x v b)" using probe.hyps(3) by (auto simp: hc_recordResult_def Let_def split: if_splits)
  then have "bl_inv now b'" using probe bl_inv_SetHealth bl_inv_later by blast
  then show ?case using probe hc_inv_probe by blast
next
  case (update t h b rs kept now bs b')
  have m: "hc_inv a h b rs kept" using update by simp
  have d: "distinct (bl_Addresses b')" using m update.hyps(3,4) by (auto simp: hc_inv_def bl_Update_def bl_Addresses_def comp_def)
  have "(a, ok) \<in> set (bl_HealthSnapshot b')" if "a \<in> set (bl_Addresses b')" "(a, ok) \<in> set (bl_HealthSnapshot b)" for ok
  proof (cases "b' = b")
    case False
    then have "bl_Addresses b' = map Backend_Address (BS_Backends bs)"
      using update.hyps(4) by (auto simp: bl_Update_def bl_Addresses_def comp_def split: if_splits)
    then show ?thesis using marks_Update [of b a ok bs now] m that update.hyps(4) by (auto simp: hc_inv_def)
  qed (use that in simp)
  then have "hc_inv a h b' rs (kept \<and> a \<in> set (bl_Addresses b'))" using m d by (auto simp: hc_inv_def)
  then show ?case using update bl_inv_Update by blast
qed (blast intro: bl_inv_NextForKey bl_inv_PinTo bl_inv_RecordResult bl_inv_Release bl_inv_RateLimitAllow bl_inv_later
    hc_inv_marks marks_traffic)+

lemma NextForKey_selectable:
  assumes "bl_inv t b" "t \<le> now" "fst (bl_NextForKey now key b) = Some a"
  shows "\<exists>e \<in> set (bl_entries b). be_address e = a \<and> selectable now e"
proof (cases "bl_slots (bl_refresh now b) = []")
  case False
  then obtain i where t: "takes (bl_refresh now b) (bl_NextForKey now key b) i" by (rule NextForKey_takes)
  then have "i \<in> set (slots_from now 0 (bl_entries b))" by (simp add: takes_def refresh_slots [OF assms(1,2)])
  then have "i < length (bl_entries b)" "selectable now (bl_entries b ! i)" by (simp_all add: slots_from_member)
  moreover have "be_address (bl_entries b ! i) = a" using takes_result(1) [OF t] assms(3) by simp
  ultimately show ?thesis using nth_mem by blast
qed (use assms(3) in \<open>simp add: NextForKey_empty\<close>)

text \<open>A round of the checker is a sequence of probe steps.\<close>

lemma round_steps:
  assumes "hc_sys cfg a t h b rs kept" "t \<le> now" "checkAll dial httpDo now addrs (h, b) = (h', b')"
  shows "\<exists>rs' kept'. hc_sys cfg a now h' b' (rs @ rs') kept' \<and> length rs' = count_list addrs a \<or> addrs = [] \<and> h' = h \<and> b' = b"
  using assms
proof (induction addrs arbitrary: t h b rs kept)
  case (Cons x addrs)
  obtain h1 b1 where c: "checkOne dial httpDo now x (h, b) = (h1, b1)" by fastforce
  obtain ok where "hc_recordResult now x ok (h, b) = (h1, b1)" using c by (auto simp: checkOne_def Let_def)
  note p = hc_sys.probe [OF Cons.prems(1,2) this]
  have r: "checkAll dial httpDo now addrs (h1, b1) = (h', b')" using Cons.prems(3) c by (simp add: checkAll_def)
  let ?new = "if x = a then [ok] else []"
  obtain kept' where p': "hc_sys cfg a now h1 b1 (rs @ ?new) kept'" using p by (cases "x = a") auto
  from Cons.IH [OF p' order_refl r] show ?case
  proof (elim exE disjE conjE)
    fix rs' kept'' assume "hc_sys cfg a now h' b' ((rs @ ?new) @ rs') kept''" "length rs' = count_list addrs a"
    then show ?thesis by (intro exI [of _ "?new @ rs'"] exI [of _ kept'']) (auto simp: Cons)
  next
    assume "addrs = []" "h' = h1" "b' = b1"
    then show ?thesis using p' by (intro exI [of _ ?new] exI [of _ kept']) auto
  qed
qed (simp add: checkAll_def)

text \<open>
  A backend that comes back into the list after it was taken out starts healthy, whatever the checker remembers of it,
  so \<open>kept\<close> cannot be left out below: until its next probe it may get requests.
\<close>

lemma readded_healthy:
  assumes "a \<notin> set (bl_Addresses b)" "a \<in> Backend_Address ` set (BS_Backends bs)" "bl_version b < BS_Version bs"
    and "distinct (map Backend_Address (BS_Backends bs))"
  shows "fst (bl_PinTo now a (bl_Update now bs b))"
proof -
  let ?b = "bl_Update now bs b"
  have e: "bl_entries ?b = map (newEntry (bl_entries b)) (BS_Backends bs)" using assms(3) by (auto simp: bl_Update_def)
  have "prevEntries (bl_entries b) a = None" using assms(1) prevEntries_SomeD [of "bl_entries b" a]
    by (cases "prevEntries (bl_entries b) a") (auto simp: bl_Addresses_def)
  then have n: "be_address (newEntry (bl_entries b) x) = Backend_Address x"
    "Backend_Address x = a \<Longrightarrow> selectable now (newEntry (bl_entries b) x)" for x
    by (simp_all add: newEntry_def prevHealth_prevEntries selectable_def ejected_def)
  obtain x where "find_entry a ?b = Some x" using assms(2) n(1) by (cases "find_entry a ?b") (auto simp: find_entry_def e find_None_iff)
  moreover from this have "selectable now x" using n find_entry_SomeD [of a ?b x] by (auto simp: e)
  ultimately show ?thesis by (simp add: bl_PinTo_def)
qed

text \<open>
  C29. A backend that fails its probes gets no traffic: over every interleaving of probes with selections, pins,
  releases, results, limits and updates, once the last \<open>n\<close> probes of a backend failed, with \<open>n\<close> at least the failure
  threshold, no request is sent to it, by any algorithm or by an affinity cookie, until a probe succeeds or the
  control plane takes the backend out of the list (when it comes back it starts healthy). Once the last \<open>n\<close>
  succeeded, with \<open>n\<close> at least the success threshold, it takes pinned requests again unless it is ejected.
\<close>

theorem dead_backend_avoided:
  assumes "hc_sys cfg a t h b (pre @ replicate n ok) True" "0 < n" "t \<le> now"
    and "(if ok then hc_SuccessThreshold h else hc_FailureThreshold h) \<le> int n"
  shows "if ok then fst (bl_PinTo now a b) \<longleftrightarrow> (\<forall>e \<in> set (bl_entries b). be_address e = a \<longrightarrow> \<not> ejected now e)
    else fst (bl_NextForKey now key b) \<noteq> Some a \<and> \<not> fst (bl_PinTo now a b)"
proof -
  have i: "bl_inv t b" "distinct (map be_address (bl_entries b))" "(a, ok) \<in> set (bl_HealthSnapshot b)"
    using hc_sys_inv [OF assms(1)] assms(2,4) by (auto simp: hc_inv_def threshold_def bl_Addresses_def)
  then obtain e where e: "e \<in> set (bl_entries b)" "be_address e = a" "be_healthy e = ok" by (auto simp: bl_HealthSnapshot_def)
  have only: "e' = e" if "e' \<in> set (bl_entries b)" "be_address e' = a" for e'
    using i(2) e(1,2) that by (auto simp: distinct_map inj_on_def)
  have f: "find_entry a b = Some e"
  proof (cases "find_entry a b")
    case None
    then show ?thesis using e(1,2) by (auto simp: find_entry_def find_None_iff)
  next
    case (Some e')
    then show ?thesis using find_entry_SomeD only by metis
  qed
  have pin: "fst (bl_PinTo now a b) \<longleftrightarrow> selectable now e" by (simp add: bl_PinTo_def f)
  have "fst (bl_NextForKey now key b) \<noteq> Some a" if "\<not> selectable now e"
    using NextForKey_selectable [OF i(1) assms(3)] only that by metis
  moreover have "(\<forall>e' \<in> set (bl_entries b). be_address e' = a \<longrightarrow> \<not> ejected now e') \<longleftrightarrow> \<not> ejected now e"
    using e(1,2) only by metis
  ultimately show ?thesis using e(3) pin by (simp add: selectable_def)
qed


lemma demo_checked:
  "hc_sys demo_outlier ''a'' 1 NewHealthChecker (demo_list ''p2c'' rng) [] False"
proof (rule hc_sys.init)
  show "bl_reach demo_outlier 1 (demo_list ''p2c'' rng)"
    unfolding demo_list_def by (rule bl_reach.update [OF bl_reach.init order_refl])
qed (simp_all add: demo_simps bl_Addresses_def NewHealthChecker_def)

theorem dead_backend_avoided_witness:
  "\<forall>rng. let (h, b) = hc_recordResult 4 ''a'' False (hc_recordResult 3 ''a'' False
       (hc_recordResult 2 ''a'' False (NewHealthChecker, demo_list ''p2c'' rng)))
     in fst (bl_NextForKey 5 [] b) \<noteq> Some ''a'' \<and> \<not> fst (bl_PinTo 5 ''a'' b)"
proof
  fix rng
  obtain h1 b1 where r1: "hc_recordResult 2 ''a'' False (NewHealthChecker, demo_list ''p2c'' rng) = (h1, b1)" by fastforce
  obtain h2 b2 where r2: "hc_recordResult 3 ''a'' False (h1, b1) = (h2, b2)" by fastforce
  obtain h3 b3 where r3: "hc_recordResult 4 ''a'' False (h2, b2) = (h3, b3)" by fastforce
  have "bl_Addresses b' = bl_Addresses b" if "hc_recordResult now x ok (h, b) = (h', b')" for now x ok h h' and b b' :: "unit BackendList"
    using that by (auto simp: hc_recordResult_def Let_def split: if_splits)
  from this [OF r1] this [OF r2] have "''a'' \<in> set (bl_Addresses b2)" by (simp add: demo_entries bl_Addresses_def [of "demo_list _ _"])
  then have sys: "hc_sys demo_outlier ''a'' 4 h3 b3 ([] @ replicate 3 False) True"
    using hc_sys.probe [OF hc_sys.probe [OF hc_sys.probe [OF demo_checked _ r1] _ r2] _ r3] by (simp add: numeral_3_eq_3)
  have "hc_FailureThreshold h3 = 3" using r1 r2 r3
    by (auto simp: hc_recordResult_def NewHealthChecker_def Let_def split: if_splits)
  then show "let (h, b) = hc_recordResult 4 ''a'' False (hc_recordResult 3 ''a'' False
       (hc_recordResult 2 ''a'' False (NewHealthChecker, demo_list ''p2c'' rng)))
     in fst (bl_NextForKey 5 [] b) \<noteq> Some ''a'' \<and> \<not> fst (bl_PinTo 5 ''a'' b)"
    using dead_backend_avoided [OF sys, of 5 "[]"] by (simp add: r1 r2 r3)
qed

end
