(* ===== verification/Streams.thy ===== *)
theory Streams
  imports ServerProps
begin

text \<open>
  The control plane with its data planes, as a system of interleaved steps.

  A step is one critical section of the server, one send or receive on a stream, or one operation on the
  backend list of a data plane. So a set that was computed from the stores can be committed after another
  one, a stream subscribes before it reads the current set, and streams open and close at any time.
  \<open>sy_wire\<close> is what a stream sent and the data plane has not received; gRPC keeps the order of a stream and
  loses what is on the wire when the stream ends. \<open>sy_log\<close> is the specification: per group, the sets in the
  order in which they were published. The theorems relate what a data plane shows to that log.
\<close>

section \<open>The system\<close>

record job =
  jb_group :: string
  jb_set :: BackendSet
  jb_force :: bool

record subStream =
  sm_req :: StreamBackendsRequest
  sm_dp :: nat
  sm_started :: bool
  sm_wire :: "BackendSet list"

record ('st, 'l) sys =
  sy_server :: "'st Server"
  sy_jobs :: "job list"
  sy_streams :: "nat \<rightharpoonup> subStream"
  sy_dps :: "nat \<times> string \<Rightarrow> 'l BackendList"
  sy_log :: "string \<Rightarrow> BackendSet list"

text \<open>What a data plane does with a backend list between updates.\<close>

datatype 'l localOp =
    LHealth string bool
  | LSelect string
  | LPin string
  | LRelease string
  | LResult string bool
  | LLimit "rat \<Rightarrow> int \<Rightarrow> 'l" "'l \<Rightarrow> gotime \<Rightarrow> bool \<times> 'l" string

fun localDo :: "gotime \<Rightarrow> 'l localOp \<Rightarrow> 'l BackendList \<Rightarrow> 'l BackendList" where
  "localDo now (LHealth a h) b = bl_SetHealth now a h b"
| "localDo now (LSelect key) b = snd (bl_NextForKey now key b)"
| "localDo now (LPin a) b = snd (bl_PinTo now a b)"
| "localDo now (LRelease a) b = bl_Release a b"
| "localDo now (LResult a ok) b = bl_RecordResult now a ok b"
| "localDo now (LLimit nl al key) b = snd (bl_RateLimitAllow nl al now key b)"

datatype 'l event =
    Settings OverrideStore AlgorithmStore StickyStore RateLimitStore
  | Prepare string Snapshot bool
  | Commit nat
  | Open gotime nat nat StreamBackendsRequest
  | First nat
  | Deliver nat
  | Receive gotime nat
  | Close nat
  | Local gotime "nat \<times> string" "'l localOp"
  | Health gotime HealthReport
  | Traffic gotime gotime gotime MetricsReport

abbreviation "sm_group s \<equiv> sbr_Group (sm_req s)"

definition streamFirst :: "subStream \<Rightarrow> BackendSet option \<Rightarrow> subStream" where
  "streamFirst s current = s\<lparr>sm_started := True, sm_wire := sm_wire s @ (case current of None \<Rightarrow> [] | Some m \<Rightarrow> [m])\<rparr>"

text \<open>A commit, with its entry in the log: the set that is current afterwards, if it changed.\<close>

definition commitJob :: "job \<Rightarrow> ('st, 'l) sys \<Rightarrow> ('st, 'l) sys" where
  "commitJob j sy =
     (let sv = sy_server sy; g = jb_group j;
          skip = (\<not> jb_force j \<and> backendSetsEqual (sv_last sv g) (Some (jb_set j)));
          sv1 = (if jb_force j then commitSet g (jb_set j) sv else commitIfChanged g (jb_set j) sv)
      in sy\<lparr>sy_server := sv1,
            sy_log := (if skip then sy_log sy else (sy_log sy)(g := sy_log sy g @ [the (sv_last sv1 g)]))\<rparr>)"

fun step :: "('st, 'l) sys \<Rightarrow> 'l event \<Rightarrow> ('st, 'l) sys option" where
  "step sy (Settings ov al st rl) =
     Some (sy\<lparr>sy_server := (sy_server sy)\<lparr>sv_overrides := ov, sv_algorithms := al, sv_sticky := st, sv_rateLimits := rl\<rparr>\<rparr>)"
| "step sy (Prepare g snap force) =
     Some (sy\<lparr>sy_jobs := sy_jobs sy @ [\<lparr>jb_group = g, jb_set = prepareSet g snap (sy_server sy), jb_force = force\<rparr>]\<rparr>)"
| "step sy (Commit i) =
     (if i < length (sy_jobs sy)
      then Some (commitJob (sy_jobs sy ! i) (sy\<lparr>sy_jobs := take i (sy_jobs sy) @ drop (Suc i) (sy_jobs sy)\<rparr>))
      else None)"
| "step sy (Open now c d req) =
     (if sy_streams sy c = None
      then Some (sy\<lparr>sy_server := streamOpen now c req (sy_server sy),
                     sy_streams := (sy_streams sy)(c \<mapsto> \<lparr>sm_req = req, sm_dp = d, sm_started = False, sm_wire = []\<rparr>)\<rparr>)
      else None)"
| "step sy (First c) =
     (case sy_streams sy c of
        None \<Rightarrow> None
      | Some s \<Rightarrow>
          if sm_started s then None
          else Some (sy\<lparr>sy_streams := (sy_streams sy)(c \<mapsto> streamFirst s (sv_last (sy_server sy) (sm_group s)))\<rparr>))"
| "step sy (Deliver c) =
     (case sy_streams sy c of
        None \<Rightarrow> None
      | Some s \<Rightarrow>
          if \<not> sm_started s then None
          else (case streamRecv (sm_group s) c (sy_server sy) of
                  None \<Rightarrow> None
                | Some (m, sv) \<Rightarrow> Some (sy\<lparr>sy_server := sv,
                      sy_streams := (sy_streams sy)(c \<mapsto> s\<lparr>sm_wire := sm_wire s @ [m]\<rparr>)\<rparr>)))"
| "step sy (Receive now c) =
     (case sy_streams sy c of
        None \<Rightarrow> None
      | Some s \<Rightarrow>
          (case sm_wire s of
             [] \<Rightarrow> None
           | m # ms \<Rightarrow>
               (let k = (sm_dp s, sm_group s)
                in Some (sy\<lparr>sy_streams := (sy_streams sy)(c \<mapsto> s\<lparr>sm_wire := ms\<rparr>),
                            sy_dps := (sy_dps sy)(k := bl_Update now m (sy_dps sy k))\<rparr>))))"
| "step sy (Close c) =
     (case sy_streams sy c of
        None \<Rightarrow> None
      | Some s \<Rightarrow> Some (sy\<lparr>sy_server := streamClose c (sm_req s) (sy_server sy), sy_streams := (sy_streams sy)(c := None)\<rparr>))"
| "step sy (Local now k op) = Some (sy\<lparr>sy_dps := (sy_dps sy)(k := localDo now op (sy_dps sy k))\<rparr>)"
| "step sy (Health now report) = Some (sy\<lparr>sy_server := ReportHealth now report (sy_server sy)\<rparr>)"
| "step sy (Traffic t1 t2 t3 report) = Some (sy\<lparr>sy_server := ReportMetrics t1 t2 t3 report (sy_server sy)\<rparr>)"

fun run :: "('st, 'l) sys \<Rightarrow> 'l event list \<Rightarrow> ('st, 'l) sys option" where
  "run sy [] = Some sy"
| "run sy (e # es) = (case step sy e of None \<Rightarrow> None | Some sy1 \<Rightarrow> run sy1 es)"

definition startSys :: "'st Server \<Rightarrow> (nat \<times> string \<Rightarrow> 'l BackendList) \<Rightarrow> ('st, 'l) sys" where
  "startSys sv dps = \<lparr>sy_server = sv, sy_jobs = [], sy_streams = Map.empty, sy_dps = dps, sy_log = (\<lambda>_. [])\<rparr>"

inductive sys_reach :: "('st, 'l) sys \<Rightarrow> bool" where
  init: "\<forall>k. bl_version (dps k) = 0 \<Longrightarrow> sys_reach (startSys (NewServer ov al ro st rl) dps)"
| next_step: "sys_reach sy \<Longrightarrow> step sy e = Some sy1 \<Longrightarrow> sys_reach sy1"

section \<open>The invariant\<close>

definition log_ok :: "BackendSet option \<Rightarrow> BackendSet list \<Rightarrow> bool" where
  "log_ok cur lg \<longleftrightarrow> cur = (if lg = [] then None else Some (last lg)) \<and>
     (\<forall>i < length lg. BS_Version (lg ! i) = int i + 1)"

definition knows :: "BackendSet list \<Rightarrow> 'l BackendList \<Rightarrow> bool" where
  "knows lg b \<longleftrightarrow> bl_version b = 0 \<or> (\<exists>m \<in> set lg. bl_version b = BS_Version m \<and> bl_view b = bs_view m)"

definition chan_ok :: "BackendSet list \<Rightarrow> int \<Rightarrow> (nat \<times> BackendSet subChan) list \<Rightarrow> nat \<Rightarrow> subStream \<Rightarrow> bool" where
  "chan_ok lg v subs c s \<longleftrightarrow>
     (\<exists>ch. map_of subs c = Some ch \<and> length (ch_queue ch) \<le> 4 \<and> set (sm_wire s @ ch_queue ch) \<subseteq> set lg \<and>
        (sm_started s \<and> \<not> ch_dropped ch \<and> lg \<noteq> [] \<longrightarrow>
           last lg \<in> set (sm_wire s @ ch_queue ch) \<or> v = int (length lg)))"

definition stream_ok :: "('st, 'l) sys \<Rightarrow> nat \<Rightarrow> subStream \<Rightarrow> bool" where
  "stream_ok sy c s \<longleftrightarrow>
     (\<exists>subs. sv_subs (sy_server sy) (sm_group s) = Some subs \<and>
        chan_ok (sy_log sy (sm_group s)) (bl_version (sy_dps sy (sm_dp s, sm_group s))) subs c s)"

definition sys_inv :: "('st, 'l) sys \<Rightarrow> bool" where
  "sys_inv sy \<longleftrightarrow>
     (\<forall>g. log_ok (sv_last (sy_server sy) g) (sy_log sy g)) \<and>
     (\<forall>d g. knows (sy_log sy g) (sy_dps sy (d, g))) \<and>
     (\<forall>c s. sy_streams sy c = Some s \<longrightarrow> stream_ok sy c s)"

subsection \<open>The log and what a data plane knows of it\<close>

lemma log_bound: "log_ok cur lg \<Longrightarrow> m \<in> set lg \<Longrightarrow> 1 \<le> BS_Version m \<and> BS_Version m \<le> int (length lg)"
  by (auto simp: log_ok_def in_set_conv_nth)

lemma log_last: "log_ok cur lg \<Longrightarrow> lg \<noteq> [] \<Longrightarrow> BS_Version (last lg) = int (length lg)"
  by (cases lg rule: rev_cases) (auto simp: log_ok_def nth_append)

lemma log_unique:
  assumes "log_ok cur lg" "m \<in> set lg" "BS_Version m = int (length lg)"
  shows "m = last lg"
proof -
  obtain i where i: "i < length lg" "m = lg ! i" using assms(2) by (auto simp: in_set_conv_nth)
  then have "int i + 1 = int (length lg)" using assms(1,3) by (simp add: log_ok_def)
  then have "i = length lg - 1" by linarith
  moreover have "lg \<noteq> []" using i by auto
  ultimately show ?thesis using i by (simp add: last_conv_nth)
qed

lemma log_append: "log_ok cur lg \<Longrightarrow> BS_Version m = int (length lg) + 1 \<Longrightarrow> log_ok (Some m) (lg @ [m])"
  by (auto simp: log_ok_def nth_append)

lemma knows_bound: "log_ok cur lg \<Longrightarrow> knows lg b \<Longrightarrow> 0 \<le> bl_version b \<and> bl_version b \<le> int (length lg)"
  using log_bound by (fastforce simp: knows_def)

lemma knows_append: "knows lg b \<Longrightarrow> knows (lg @ [m]) b"
  by (auto simp: knows_def)

lemma receive_knows:
  assumes "log_ok cur lg" "knows lg b" "m \<in> set lg"
  shows "knows lg (bl_Update now m b)" "bl_version b \<le> bl_version (bl_Update now m b)"
    "bl_version b = int (length lg) \<Longrightarrow> bl_version (bl_Update now m b) = int (length lg)"
    "m = last lg \<Longrightarrow> bl_version (bl_Update now m b) = int (length lg)"
proof -
  have l: "BS_Version (last lg) = int (length lg)" using assms(1,3) by (intro log_last) auto
  have "knows lg (bl_Update now m b) \<and> bl_version b \<le> bl_version (bl_Update now m b) \<and>
    (bl_version b = int (length lg) \<longrightarrow> bl_version (bl_Update now m b) = int (length lg)) \<and>
    (m = last lg \<longrightarrow> bl_version (bl_Update now m b) = int (length lg))"
  proof (cases rule: bl_recv.recv_cases [of "(now, m)" b])
    case stale
    then show ?thesis using assms l knows_bound [of cur lg b] by (auto simp: bl_receive_def)
  next
    case fresh
    then show ?thesis using assms l log_bound [of cur lg m] knows_bound [of cur lg b]
      by (auto simp: knows_def bl_receive_def)
  qed
  then show "knows lg (bl_Update now m b)" "bl_version b \<le> bl_version (bl_Update now m b)"
    "bl_version b = int (length lg) \<Longrightarrow> bl_version (bl_Update now m b) = int (length lg)"
    "m = last lg \<Longrightarrow> bl_version (bl_Update now m b) = int (length lg)" by blast+
qed

text \<open>The operations of a data plane between updates keep what its list shows.\<close>

lemma view_upd_entry:
  "(\<And>e. be_address (f e) = be_address e \<and> be_weight (f e) = be_weight e) \<Longrightarrow> bl_view (upd_entry a f b) = bl_view b"
  by (simp add: bl_view_def upd_entry_map)

lemma view_rebuild [simp]: "bl_view (rebuildSlotsLocked now b) = bl_view b"
  by (simp add: bl_view_def)

lemma NextForKey_view:
  "bl_view (snd (bl_NextForKey now key b)) = bl_view b \<and> bl_version (snd (bl_NextForKey now key b)) = bl_version b"
proof (cases "bl_slots (bl_refresh now b) = []")
  case True
  then show ?thesis by (simp add: NextForKey_empty bl_view_def)
next
  case False
  then obtain i where t: "takes (bl_refresh now b) (bl_NextForKey now key b) i" by (rule NextForKey_takes)
  show ?thesis using takes_frame [OF t] takes_result(2) [OF t] by (simp add: bl_view_def map_bump)
qed

lemma RecordResult_view: "bl_view (bl_RecordResult now a ok b) = bl_view b \<and> bl_version (bl_RecordResult now a ok b) = bl_version b"
  by (cases rule: RecordResult_cases [of now a ok b]) (simp_all add: view_upd_entry)

lemma local_view: "bl_view (localDo now op b) = bl_view b \<and> bl_version (localDo now op b) = bl_version b"
proof (cases op)
  case (LHealth a h)
  then show ?thesis by (auto simp: bl_SetHealth_def Let_def bl_view_def map_update_first split: option.split)
next
  case (LLimit nl al key)
  then show ?thesis
    by (auto simp: bl_RateLimitAllow_def allow_def sweepLocked_def bl_view_def Let_def split: prod.splits option.splits)
qed (auto simp: NextForKey_view RecordResult_view bl_PinTo_def bl_Release_def view_upd_entry split: option.split)

lemma local_knows: "knows lg (localDo now op b) = knows lg b"
  by (simp add: knows_def local_view)

subsection \<open>Channels\<close>

lemma map_of_sendAll: "map_of (sendAll m subs) c = map_option (trySend m) (map_of subs c)"
  by (induction subs) (auto simp: sendAll_def)

lemma chan_ok_send: "chan_ok lg v subs c s \<Longrightarrow> chan_ok (lg @ [m]) v' (sendAll m subs) c s"
proof -
  assume "chan_ok lg v subs c s"
  then obtain ch where "map_of subs c = Some ch" "length (ch_queue ch) \<le> 4" "set (sm_wire s @ ch_queue ch) \<subseteq> set lg"
    by (auto simp: chan_ok_def)
  then show ?thesis by (auto simp: chan_ok_def map_of_sendAll trySend_def)
qed

lemma chan_ok_version: "chan_ok lg v subs c s \<Longrightarrow> (v = int (length lg) \<Longrightarrow> v' = int (length lg)) \<Longrightarrow> chan_ok lg v' subs c s"
  by (auto simp: chan_ok_def)

lemma chan_ok_first: "chan_ok lg v subs c s \<Longrightarrow> log_ok cur lg \<Longrightarrow> chan_ok lg v subs c (streamFirst s cur)"
  by (auto simp: chan_ok_def streamFirst_def log_ok_def)

lemma chan_ok_new: "chan_ok lg v (AList.update c newChan subs) c \<lparr>sm_req = req, sm_dp = d, sm_started = False, sm_wire = []\<rparr>"
  by (simp add: chan_ok_def newChan_def update_conv')

lemma chan_ok_other: "c \<noteq> c' \<Longrightarrow> chan_ok lg v (AList.update c' ch subs) c s = chan_ok lg v subs c s"
  "c \<noteq> c' \<Longrightarrow> chan_ok lg v (AList.delete c' subs) c s = chan_ok lg v subs c s"
  by (simp_all add: chan_ok_def update_conv' delete_conv')

lemma chan_ok_deliver:
  assumes "chan_ok lg v subs c s" "chanRecv c subs = Some (m, subs1)"
  shows "chan_ok lg v subs1 c (s\<lparr>sm_wire := sm_wire s @ [m]\<rparr>)"
  using assms by (auto simp: chan_ok_def chanRecv_def update_conv' split: option.splits list.splits)

lemma chan_ok_deliver_other:
  "chanRecv c' subs = Some (m, subs1) \<Longrightarrow> c \<noteq> c' \<Longrightarrow> chan_ok lg v subs1 c s = chan_ok lg v subs c s"
  by (auto simp: chanRecv_def chan_ok_other split: option.splits list.splits)

lemma chan_ok_receive:
  "chan_ok lg v subs c s \<Longrightarrow> sm_wire s = m # ms \<Longrightarrow> (v = int (length lg) \<Longrightarrow> v' = int (length lg)) \<Longrightarrow>
     (m = last lg \<Longrightarrow> v' = int (length lg)) \<Longrightarrow> chan_ok lg v' subs c (s\<lparr>sm_wire := ms\<rparr>)"
  by (auto simp: chan_ok_def)

lemma chan_ok_wire: "chan_ok lg v subs c s \<Longrightarrow> set (sm_wire s) \<subseteq> set lg"
  by (auto simp: chan_ok_def)

subsection \<open>Every step keeps the invariant\<close>

lemma server_frames [simp]:
  "sv_last (streamOpen now c req sv) = sv_last sv" "sv_last (streamClose c req sv) = sv_last sv"
  "sv_last (ReportHealth now report sv) = sv_last sv" "sv_last (ReportMetrics t1 t2 t3 mreport sv) = sv_last sv"
  "sv_subs (ReportHealth now report sv) = sv_subs sv" "sv_subs (ReportMetrics t1 t2 t3 mreport sv) = sv_subs sv"
  by (simp_all add: streamOpen_def streamClose_def sv_subscribe_def sv_unsubscribe_def markInstanceConnected_def
      markInstanceDisconnected_def ReportHealth_def recordInstanceHealthReport_def ReportMetrics_def Let_def split: option.split)

lemma subs_open: "sv_subs (streamOpen now c req sv) = (sv_subs sv)(sbr_Group req \<mapsto>
    AList.update c newChan (case sv_subs sv (sbr_Group req) of None \<Rightarrow> [] | Some subs \<Rightarrow> subs))"
  by (simp add: streamOpen_def sv_subscribe_def markInstanceConnected_def Let_def)

lemma subs_close: "sv_subs (streamClose c req sv) = (case sv_subs sv (sbr_Group req) of None \<Rightarrow> sv_subs sv
    | Some subs \<Rightarrow> (sv_subs sv)(sbr_Group req \<mapsto> AList.delete c subs))"
  by (simp add: streamClose_def sv_unsubscribe_def markInstanceDisconnected_def split: option.split)

lemma commitJob_cases:
  obtains (same) "sy_server (commitJob j sy) = sy_server sy" "sy_log (commitJob j sy) = sy_log sy"
  | (publish) m where "sy_server (commitJob j sy) = commitSet (jb_group j) (jb_set j) (sy_server sy)"
      "sv_last (sy_server (commitJob j sy)) = (sv_last (sy_server sy))(jb_group j \<mapsto> m)"
      "sv_subs (sy_server (commitJob j sy)) = (case sv_subs (sy_server sy) (jb_group j) of
          None \<Rightarrow> sv_subs (sy_server sy) | Some subs \<Rightarrow> (sv_subs (sy_server sy))(jb_group j \<mapsto> sendAll m subs))"
      "sy_log (commitJob j sy) = (sy_log sy)(jb_group j := sy_log sy (jb_group j) @ [m])"
      "BS_Version m = (case sv_last (sy_server sy) (jb_group j) of None \<Rightarrow> 1 | Some prev \<Rightarrow> BS_Version prev + 1)"
proof (cases "\<not> jb_force j \<and> backendSetsEqual (sv_last (sy_server sy) (jb_group j)) (Some (jb_set j))")
  case True
  then show ?thesis by (intro same) (auto simp: commitJob_def commitIfChanged_def Let_def)
next
  case False
  then have e: "sy_server (commitJob j sy) = commitSet (jb_group j) (jb_set j) (sy_server sy)"
    by (auto simp: commitJob_def commitIfChanged_def Let_def)
  define m where "m = (jb_set j)\<lparr>BS_Version := (case sv_last (sy_server sy) (jb_group j) of None \<Rightarrow> 1 | Some prev \<Rightarrow> BS_Version prev + 1)\<rparr>"
  show ?thesis using False
    by (intro publish [of m] e) (auto simp: e commitJob_def commitIfChanged_def commitSet_def m_def Let_def split: option.split)
qed

lemma commitJob_frame [simp]: "sy_dps (commitJob j sy) = sy_dps sy" "sy_streams (commitJob j sy) = sy_streams sy"
  by (simp_all add: commitJob_def Let_def)

lemma inv_commit:
  assumes "sys_inv sy" shows "sys_inv (commitJob j sy)"
proof (rule commitJob_cases [of j sy])
  assume "sy_server (commitJob j sy) = sy_server sy" "sy_log (commitJob j sy) = sy_log sy"
  with assms show ?thesis by (simp add: sys_inv_def stream_ok_def)
next
  let ?g = "jb_group j"
  fix m assume c: "sv_last (sy_server (commitJob j sy)) = (sv_last (sy_server sy))(?g \<mapsto> m)"
      "sv_subs (sy_server (commitJob j sy)) = (case sv_subs (sy_server sy) ?g of
          None \<Rightarrow> sv_subs (sy_server sy) | Some subs \<Rightarrow> (sv_subs (sy_server sy))(?g \<mapsto> sendAll m subs))"
      "sy_log (commitJob j sy) = (sy_log sy)(?g := sy_log sy ?g @ [m])"
      "BS_Version m = (case sv_last (sy_server sy) ?g of None \<Rightarrow> 1 | Some prev \<Rightarrow> BS_Version prev + 1)"
  have l: "log_ok (sv_last (sy_server sy) g) (sy_log sy g)" for g using assms by (simp add: sys_inv_def)
  have "BS_Version m = int (length (sy_log sy ?g)) + 1"
    using l [of ?g] log_last [OF l, of ?g] by (auto simp: c(4) log_ok_def)
  then have "log_ok (sv_last (sy_server (commitJob j sy)) g) (sy_log (commitJob j sy) g)" for g
    using l by (auto simp: c(1,3) intro: log_append)
  moreover have "knows (sy_log (commitJob j sy) g) (sy_dps (commitJob j sy) (d, g))" for d g
    using assms by (auto simp: c sys_inv_def intro: knows_append)
  moreover have "stream_ok (commitJob j sy) c s" if "sy_streams sy c = Some s" for c s
  proof -
    have "stream_ok sy c s" using assms that by (simp add: sys_inv_def)
    then show ?thesis by (auto simp: stream_ok_def c(2,3) intro: chan_ok_send split: option.split)
  qed
  ultimately show ?thesis by (simp add: sys_inv_def)
qed

lemma inv_open:
  assumes "sys_inv sy" "step sy (Open now c d req) = Some sy1" shows "sys_inv sy1"
proof -
  let ?s = "\<lparr>sm_req = req, sm_dp = d, sm_started = False, sm_wire = []\<rparr>"
  have c: "sy_streams sy c = None"
    and sy1: "sy1 = sy\<lparr>sy_server := streamOpen now c req (sy_server sy), sy_streams := (sy_streams sy)(c \<mapsto> ?s)\<rparr>"
    using assms(2) by (auto split: if_splits)
  have "stream_ok sy1 c' s" if "sy_streams sy1 c' = Some s" for c' s
  proof (cases "c' = c")
    case True
    with that have "s = ?s" by (simp add: sy1)
    then show ?thesis by (simp add: sy1 True stream_ok_def subs_open chan_ok_new)
  next
    case False
    then have "stream_ok sy c' s" using that assms(1) by (simp add: sy1 sys_inv_def)
    with False show ?thesis by (auto simp: stream_ok_def sy1 subs_open chan_ok_other)
  qed
  then show ?thesis using assms(1) by (simp add: sys_inv_def sy1)
qed

lemma inv_close:
  assumes "sys_inv sy" "step sy (Close c) = Some sy1" shows "sys_inv sy1"
proof -
  obtain s where "sy_streams sy c = Some s"
    and sy1: "sy1 = sy\<lparr>sy_server := streamClose c (sm_req s) (sy_server sy), sy_streams := (sy_streams sy)(c := None)\<rparr>"
    using assms(2) by (auto split: option.splits)
  have "stream_ok sy1 c' s'" if "sy_streams sy1 c' = Some s'" for c' s'
  proof -
    have "c' \<noteq> c" "stream_ok sy c' s'" using that assms(1) by (auto simp: sy1 sys_inv_def split: if_splits)
    then show ?thesis by (auto simp: stream_ok_def sy1 subs_close chan_ok_other split: option.split)
  qed
  then show ?thesis using assms(1) by (simp add: sys_inv_def sy1)
qed

lemma inv_first:
  assumes "sys_inv sy" "step sy (First c) = Some sy1" shows "sys_inv sy1"
proof -
  obtain s where s: "sy_streams sy c = Some s"
    and sy1: "sy1 = sy\<lparr>sy_streams := (sy_streams sy)(c \<mapsto> streamFirst s (sv_last (sy_server sy) (sm_group s)))\<rparr>"
    using assms(2) by (auto split: option.splits if_splits)
  have g: "sm_req (streamFirst s x) = sm_req s" "sm_dp (streamFirst s x) = sm_dp s" for x by (simp_all add: streamFirst_def)
  have "stream_ok sy c s" "log_ok (sv_last (sy_server sy) (sm_group s)) (sy_log sy (sm_group s))"
    using assms(1) s by (simp_all add: sys_inv_def)
  then have "stream_ok sy1 c (streamFirst s (sv_last (sy_server sy) (sm_group s)))"
    by (auto simp: stream_ok_def sy1 g intro: chan_ok_first)
  then show ?thesis using assms(1) by (auto simp: sys_inv_def sy1 stream_ok_def)
qed

lemma inv_deliver:
  assumes "sys_inv sy" "step sy (Deliver c) = Some sy1" shows "sys_inv sy1"
proof -
  obtain s m sv where s: "sy_streams sy c = Some s" and r: "streamRecv (sm_group s) c (sy_server sy) = Some (m, sv)"
    and sy1: "sy1 = sy\<lparr>sy_server := sv, sy_streams := (sy_streams sy)(c \<mapsto> s\<lparr>sm_wire := sm_wire s @ [m]\<rparr>)\<rparr>"
    using assms(2) by (auto split: option.splits if_splits)
  from r obtain subs subs1 where subs: "sv_subs (sy_server sy) (sm_group s) = Some subs" "chanRecv c subs = Some (m, subs1)"
    and sv: "sv = (sy_server sy)\<lparr>sv_subs := (sv_subs (sy_server sy))(sm_group s \<mapsto> subs1)\<rparr>"
    by (auto simp: streamRecv_def split: option.splits)
  have "stream_ok sy1 c' s'" if "sy_streams sy1 c' = Some s'" for c' s'
  proof (cases "c' = c")
    case True
    have "chan_ok (sy_log sy (sm_group s)) (bl_version (sy_dps sy (sm_dp s, sm_group s))) subs c s"
      using assms(1) s subs(1) by (fastforce simp: sys_inv_def stream_ok_def)
    from chan_ok_deliver [OF this subs(2)] that True show ?thesis by (auto simp: sy1 sv stream_ok_def)
  next
    case False
    then have "stream_ok sy c' s'" using that assms(1) by (simp add: sy1 sys_inv_def)
    then show ?thesis using chan_ok_deliver_other [OF subs(2) False] subs(1) by (auto simp: stream_ok_def sy1 sv)
  qed
  then show ?thesis using assms(1) by (simp add: sys_inv_def sy1 sv)
qed

lemma inv_receive:
  assumes "sys_inv sy" "step sy (Receive now c) = Some sy1" shows "sys_inv sy1"
proof -
  obtain s m ms where s: "sy_streams sy c = Some s" "sm_wire s = m # ms"
    and sy1: "sy1 = sy\<lparr>sy_streams := (sy_streams sy)(c \<mapsto> s\<lparr>sm_wire := ms\<rparr>),
        sy_dps := (sy_dps sy)((sm_dp s, sm_group s) := bl_Update now m (sy_dps sy (sm_dp s, sm_group s)))\<rparr>"
    using assms(2) by (auto simp: Let_def split: option.splits list.splits)
  let ?k = "(sm_dp s, sm_group s)" let ?lg = "sy_log sy (sm_group s)"
  have "stream_ok sy c s" using assms(1) s(1) by (simp add: sys_inv_def)
  then have m: "m \<in> set ?lg" using chan_ok_wire s(2) by (fastforce simp: stream_ok_def)
  have l: "log_ok (sv_last (sy_server sy) (sm_group s)) ?lg" and k: "knows ?lg (sy_dps sy ?k)" using assms(1) by (simp_all add: sys_inv_def)
  note rk = receive_knows [OF l k m, of now]
  have "stream_ok sy1 c' s'" if "sy_streams sy1 c' = Some s'" for c' s'
  proof (cases "c' = c")
    case True
    then show ?thesis using \<open>stream_ok sy c s\<close> that rk s(2)
      by (auto simp: sy1 stream_ok_def intro!: chan_ok_receive)
  next
    case False
    then have "stream_ok sy c' s'" using that assms(1) by (simp add: sy1 sys_inv_def)
    with rk show ?thesis by (auto simp: sy1 stream_ok_def elim!: chan_ok_version)
  qed
  then show ?thesis using assms(1) rk(1) by (simp add: sys_inv_def sy1)
qed

lemma inv_frame:
  assumes "sys_inv sy" "sv_last (sy_server sy1) = sv_last (sy_server sy)" "sv_subs (sy_server sy1) = sv_subs (sy_server sy)"
    and "sy_log sy1 = sy_log sy" "sy_streams sy1 = sy_streams sy"
    and "\<And>k lg. knows lg (sy_dps sy1 k) = knows lg (sy_dps sy k) \<and> bl_version (sy_dps sy1 k) = bl_version (sy_dps sy k)"
  shows "sys_inv sy1"
  using assms by (simp add: sys_inv_def stream_ok_def)

lemma inv_step:
  assumes "sys_inv sy" "step sy e = Some sy1" shows "sys_inv sy1"
proof (cases e)
  case (Commit i)
  have "sys_inv (sy\<lparr>sy_jobs := js\<rparr>)" for js using assms(1) by (rule inv_frame) simp_all
  from inv_commit [OF this] show ?thesis using Commit assms(2) by (auto split: if_splits)
next
  case (Open now c d req)
  then show ?thesis using assms inv_open by blast
next
  case (First c)
  then show ?thesis using assms inv_first by blast
next
  case (Deliver c)
  then show ?thesis using assms inv_deliver by blast
next
  case (Receive now c)
  then show ?thesis using assms inv_receive by blast
next
  case (Close c)
  then show ?thesis using assms inv_close by blast
qed (use assms in \<open>auto intro!: inv_frame [OF assms(1)] simp: local_knows local_view split: if_splits\<close>)

lemma reach_sys_inv: "sys_reach sy \<Longrightarrow> sys_inv sy"
proof (induction rule: sys_reach.induct)
  case (init dps)
  then show ?case by (simp add: sys_inv_def startSys_def NewServer_def log_ok_def knows_def)
qed (rule inv_step)

section \<open>What a data plane shows\<close>

text \<open>A data plane that connects while a set is being published.\<close>

definition demo_start :: "nat stream \<Rightarrow> (unit, unit) sys" where
  "demo_start rng = startSys demo_server (\<lambda>_. NewBackendList rng 0)"

definition demo_published :: BackendSet where
  "demo_published = (prepareSet ''g'' demo_snap demo_server)\<lparr>BS_Version := 1\<rparr>"

definition demo_req :: StreamBackendsRequest where
  "demo_req = \<lparr>sbr_Group = ''g'', sbr_InstanceId = ''dp''\<rparr>"

definition demo_events :: "unit event list" where
  "demo_events = [Prepare ''g'' demo_snap False, Open 1 5 0 demo_req, First 5, Commit 0]"

lemma demo_start_reach: "sys_reach (demo_start rng)"
  unfolding demo_start_def demo_server_def by (rule sys_reach.init) (simp add: NewBackendList_def)

text \<open>
  C3. Over every interleaving of the control plane's steps, streams that come and go and the data planes'
  own work, the sets of a group are published with versions 1, 2, 3 and so on, the server's current set is
  the last of them, and every data plane shows, as a whole, one of the published sets (or has none yet):
  never a mixture, never something that was computed and not published. No step takes a data plane back to
  an older set.
\<close>

theorem data_planes_follow:
  assumes "sys_reach sy"
  shows "(\<forall>i < length (sy_log sy g). BS_Version (sy_log sy g ! i) = int i + 1) \<and>
    sv_last (sy_server sy) g = (if sy_log sy g = [] then None else Some (last (sy_log sy g))) \<and>
    (bl_version (sy_dps sy (d, g)) = 0 \<or>
     (\<exists>m \<in> set (sy_log sy g). bl_version (sy_dps sy (d, g)) = BS_Version m \<and> bl_view (sy_dps sy (d, g)) = bs_view m)) \<and>
    (\<forall>e sy1. step sy e = Some sy1 \<longrightarrow> bl_version (sy_dps sy (d, g)) \<le> bl_version (sy_dps sy1 (d, g)))"
proof -
  have i: "log_ok (sv_last (sy_server sy) g) (sy_log sy g)" "knows (sy_log sy g) (sy_dps sy (d, g))" for d g
    using reach_sys_inv [OF assms] by (simp_all add: sys_inv_def)
  have "bl_version (sy_dps sy (d, g)) \<le> bl_version (sy_dps sy1 (d, g))" if "step sy e = Some sy1" for e sy1
  proof (cases e)
    case (Receive now c)
    with that obtain s m ms where s: "sy_streams sy c = Some s" "sm_wire s = m # ms"
      and sy1: "sy_dps sy1 = (sy_dps sy)((sm_dp s, sm_group s) := bl_Update now m (sy_dps sy (sm_dp s, sm_group s)))"
      by (auto simp: Let_def split: option.splits list.splits)
    have "stream_ok sy c s" using reach_sys_inv [OF assms] s(1) by (simp add: sys_inv_def)
    then have "m \<in> set (sy_log sy (sm_group s))" using chan_ok_wire s(2) by (fastforce simp: stream_ok_def)
    then show ?thesis using receive_knows(2) [OF i(1) i(2) [where d = "sm_dp s" and g = "sm_group s"]] by (auto simp: sy1)
  qed (use that in \<open>auto simp: local_view split: option.splits if_splits\<close>)
  then show ?thesis using i(1) [of g] i(2) [where d = d and g = g] by (auto simp: log_ok_def knows_def)
qed

lemma run_append: "run sy (es @ es') = (case run sy es of None \<Rightarrow> None | Some sy1 \<Rightarrow> run sy1 es')"
  by (induction es arbitrary: sy) (auto split: option.split)

lemma run_reach: "sys_reach sy \<Longrightarrow> run sy es = Some sy1 \<Longrightarrow> sys_reach sy1"
  by (induction es arbitrary: sy) (auto split: option.splits intro: next_step)

lemma demo_run:
  "\<exists>sy. run (demo_start rng) demo_events = Some sy \<and> sy_log sy ''g'' = [demo_published] \<and> sv_last (sy_server sy) ''g'' = Some demo_published \<and>
     sy_dps sy = (\<lambda>_. NewBackendList rng 0) \<and>
     sy_streams sy 5 = Some \<lparr>sm_req = demo_req, sm_dp = 0, sm_started = True, sm_wire = []\<rparr> \<and>
     sv_subs (sy_server sy) ''g'' = Some [(5, \<lparr>ch_queue = [demo_published], ch_dropped = False\<rparr>)]"
proof -
  have d: "sv_last demo_server = Map.empty" "sv_subs demo_server = Map.empty" by (simp_all add: demo_server_def NewServer_def)
  show ?thesis
    by (simp add: demo_events_def demo_start_def startSys_def demo_req_def streamFirst_def commitJob_def commitIfChanged_def
        commitSet_def streamOpen_def sv_subscribe_def markInstanceConnected_def backendSetsEqual_def newChan_def sendAll_def
        trySend_def demo_published_def d Let_def)
qed

theorem data_planes_follow_witness:
  "\<forall>rng. \<exists>sy sy1. run (demo_start rng) demo_events = Some sy \<and> step sy (Local 2 (0, ''g'') (LSelect ''k'')) = Some sy1 \<and>
     map BS_Version (sy_log sy ''g'') = [1] \<and> bl_version (sy_dps sy (0, ''g'')) \<le> bl_version (sy_dps sy1 (0, ''g''))"
proof
  fix rng
  obtain sy where sy: "run (demo_start rng) demo_events = Some sy" "sy_log sy ''g'' = [demo_published]" using demo_run by blast
  obtain sy1 where e: "step sy (Local 2 (0, ''g'') (LSelect ''k'')) = Some sy1" by simp
  have "sys_reach sy" using demo_start_reach sy(1) by (rule run_reach)
  note f = data_planes_follow [OF this, of "''g''" 0]
  have "bl_version (sy_dps sy (0, ''g'')) \<le> bl_version (sy_dps sy1 (0, ''g''))" using f e by blast
  moreover have "map BS_Version (sy_log sy ''g'') = [1]" using f sy(2) by simp
  ultimately show "\<exists>sy sy1. run (demo_start rng) demo_events = Some sy \<and> step sy (Local 2 (0, ''g'') (LSelect ''k'')) = Some sy1 \<and>
     map BS_Version (sy_log sy ''g'') = [1] \<and> bl_version (sy_dps sy (0, ''g'')) \<le> bl_version (sy_dps sy1 (0, ''g''))"
    using sy(1) e by (intro exI conjI)
qed

definition stream_at :: "('st, 'l) sys \<Rightarrow> nat \<Rightarrow> subStream \<Rightarrow> BackendSet subChan \<Rightarrow> bool" where
  "stream_at sy c s ch \<longleftrightarrow> sy_streams sy c = Some s \<and>
     (\<exists>subs. sv_subs (sy_server sy) (sm_group s) = Some subs \<and> map_of subs c = Some ch)"

lemma deliver_all:
  "stream_at sy c s ch \<Longrightarrow> sm_started s \<Longrightarrow>
     \<exists>sy1. run sy (replicate (length (ch_queue ch)) (Deliver c)) = Some sy1 \<and>
       stream_at sy1 c (s\<lparr>sm_wire := sm_wire s @ ch_queue ch\<rparr>) (ch\<lparr>ch_queue := []\<rparr>) \<and>
       sv_last (sy_server sy1) = sv_last (sy_server sy)"
proof (induction "ch_queue ch" arbitrary: sy s ch)
  case Nil
  then obtain dropped where "ch = \<lparr>ch_queue = [], ch_dropped = dropped\<rparr>" by (cases ch) auto
  then show ?case using Nil by simp
next
  case (Cons m q)
  obtain subs where subs: "sy_streams sy c = Some s" "sv_subs (sy_server sy) (sm_group s) = Some subs" "map_of subs c = Some ch"
    using Cons.prems(1) by (auto simp: stream_at_def)
  let ?s = "s\<lparr>sm_wire := sm_wire s @ [m]\<rparr>" and ?ch = "ch\<lparr>ch_queue := q\<rparr>"
  let ?sy = "sy\<lparr>sy_server := (sy_server sy)\<lparr>sv_subs := (sv_subs (sy_server sy))(sm_group s \<mapsto> AList.update c ?ch subs)\<rparr>,
      sy_streams := (sy_streams sy)(c \<mapsto> ?s)\<rparr>"
  have "step sy (Deliver c) = Some ?sy"
    using subs Cons.prems(2) Cons.hyps(2) [symmetric] by (simp add: streamRecv_def chanRecv_def)
  moreover have "stream_at ?sy c ?s ?ch" by (simp add: stream_at_def update_conv')
  from Cons.hyps(1) [OF _ this] Cons.prems(2) obtain sy1 where
    "run ?sy (replicate (length q) (Deliver c)) = Some sy1" "sv_last (sy_server sy1) = sv_last (sy_server ?sy)"
    "stream_at sy1 c (?s\<lparr>sm_wire := sm_wire ?s @ q\<rparr>) (?ch\<lparr>ch_queue := []\<rparr>)" by auto
  ultimately show ?case using Cons.hyps(2) [symmetric] by (intro exI [of _ sy1]) simp
qed

lemma receive_all:
  "stream_at sy c s ch \<Longrightarrow>
     \<exists>sy1. run sy (replicate (length (sm_wire s)) (Receive now c)) = Some sy1 \<and>
       stream_at sy1 c (s\<lparr>sm_wire := []\<rparr>) ch \<and> sv_last (sy_server sy1) = sv_last (sy_server sy)"
proof (induction "sm_wire s" arbitrary: sy s)
  case Nil
  then obtain req d started where "s = \<lparr>sm_req = req, sm_dp = d, sm_started = started, sm_wire = []\<rparr>" by (cases s) auto
  then show ?case using Nil by simp
next
  case (Cons m ms)
  let ?s = "s\<lparr>sm_wire := ms\<rparr>" and ?k = "(sm_dp s, sm_group s)"
  let ?sy = "sy\<lparr>sy_streams := (sy_streams sy)(c \<mapsto> ?s), sy_dps := (sy_dps sy)(?k := bl_Update now m (sy_dps sy ?k))\<rparr>"
  have "step sy (Receive now c) = Some ?sy"
    using Cons.prems Cons.hyps(2) [symmetric] by (simp add: stream_at_def Let_def)
  moreover have "stream_at ?sy c ?s ch" using Cons.prems by (simp add: stream_at_def)
  from Cons.hyps(1) [OF _ this] obtain sy1 where
    "run ?sy (replicate (length ms) (Receive now c)) = Some sy1" "sv_last (sy_server sy1) = sv_last (sy_server ?sy)"
    "stream_at sy1 c (?s\<lparr>sm_wire := []\<rparr>) ch" by auto
  ultimately show ?case using Cons.hyps(2) [symmetric] by (intro exI [of _ sy1]) simp
qed

text \<open>
  C7. A connected data plane catches up: as long as no update to a stream was dropped, in every reachable
  state the channel holds at most four updates, and sending those and receiving what was sent, with no help
  from any other part of the system, leaves the data plane showing exactly the server's current set with its
  version. The current set is read after the subscription, so no update falls between the two.
\<close>

theorem stream_catches_up:
  assumes "sys_reach sy" "stream_at sy c s ch" "sm_started s" "\<not> ch_dropped ch"
    and "sv_last (sy_server sy) (sm_group s) = Some m"
  shows "length (ch_queue ch) \<le> 4 \<and>
    (\<exists>sy1. run sy (replicate (length (ch_queue ch)) (Deliver c) @
                   replicate (length (sm_wire s) + length (ch_queue ch)) (Receive now c)) = Some sy1 \<and>
       sv_last (sy_server sy1) (sm_group s) = Some m \<and>
       bl_view (sy_dps sy1 (sm_dp s, sm_group s)) = bs_view m \<and>
       bl_version (sy_dps sy1 (sm_dp s, sm_group s)) = BS_Version m)"
proof -
  let ?s = "s\<lparr>sm_wire := []\<rparr>" and ?ch = "ch\<lparr>ch_queue := []\<rparr>" and ?k = "(sm_dp s, sm_group s)"
  obtain sy0 where sy0: "run sy (replicate (length (ch_queue ch)) (Deliver c)) = Some sy0"
    "stream_at sy0 c (s\<lparr>sm_wire := sm_wire s @ ch_queue ch\<rparr>) ?ch" "sv_last (sy_server sy0) = sv_last (sy_server sy)"
    using deliver_all [OF assms(2,3)] by blast
  obtain sy1 where sy1: "run sy0 (replicate (length (sm_wire s) + length (ch_queue ch)) (Receive now c)) = Some sy1"
    "stream_at sy1 c ?s ?ch" "sv_last (sy_server sy1) = sv_last (sy_server sy0)"
    using receive_all [OF sy0(2), of now] by auto
  have i: "sys_inv sy1" using assms(1) sy0(1) sy1(1) by (blast intro: run_reach reach_sys_inv)
  let ?lg = "sy_log sy1 (sm_group s)"
  have l: "log_ok (Some m) ?lg" "knows ?lg (sy_dps sy1 ?k)"
    using i sy0(3) sy1(3) assms(5) by (auto simp: sys_inv_def dest: spec [of _ "sm_group s"])
  then have m: "?lg \<noteq> []" "m = last ?lg" by (auto simp: log_ok_def split: if_splits)
  have "stream_ok sy1 c ?s" using i sy1(2) by (simp add: sys_inv_def stream_at_def)
  then have v: "bl_version (sy_dps sy1 ?k) = int (length ?lg)"
    using sy1(2) assms(3,4) m(1) by (auto simp: stream_ok_def stream_at_def chan_ok_def)
  then obtain m' where "m' \<in> set ?lg" "bl_version (sy_dps sy1 ?k) = BS_Version m'" "bl_view (sy_dps sy1 ?k) = bs_view m'"
    using l(2) m(1) by (auto simp: knows_def)
  moreover from this have "m' = m" using log_unique [OF l(1)] v m(2) by metis
  moreover have "length (ch_queue ch) \<le> 4"
  proof -
    have "stream_ok sy c s" using reach_sys_inv [OF assms(1)] assms(2) by (simp add: sys_inv_def stream_at_def)
    then show ?thesis using assms(2) by (auto simp: stream_at_def stream_ok_def chan_ok_def)
  qed
  ultimately show ?thesis using sy0 sy1 assms(5) by (simp add: run_append)
qed

theorem stream_catches_up_witness:
  "\<forall>rng. \<exists>sy. run (demo_start rng) (demo_events @ [Deliver 5, Receive 2 5]) = Some sy \<and>
     bl_Addresses (sy_dps sy (0, ''g'')) = [''a'', ''b'']"
proof
  fix rng
  obtain sy where sy: "run (demo_start rng) demo_events = Some sy" "sv_last (sy_server sy) ''g'' = Some demo_published"
    "sy_streams sy 5 = Some \<lparr>sm_req = demo_req, sm_dp = 0, sm_started = True, sm_wire = []\<rparr>"
    "sv_subs (sy_server sy) ''g'' = Some [(5, \<lparr>ch_queue = [demo_published], ch_dropped = False\<rparr>)]" using demo_run by blast
  let ?s = "\<lparr>sm_req = demo_req, sm_dp = 0, sm_started = True, sm_wire = []\<rparr>"
  let ?ch = "\<lparr>ch_queue = [demo_published], ch_dropped = False\<rparr>"
  have reach: "sys_reach sy" using demo_start_reach sy(1) by (rule run_reach)
  have at: "stream_at sy 5 ?s ?ch" using sy by (simp add: stream_at_def demo_req_def)
  have cur: "sv_last (sy_server sy) (sm_group ?s) = Some demo_published" using sy by (simp add: demo_req_def)
  obtain sy1 where sy1: "run sy [Deliver 5, Receive 2 5] = Some sy1" "bl_view (sy_dps sy1 (0, ''g'')) = bs_view demo_published"
    using stream_catches_up [OF reach at _ _ cur, of 2] by (auto simp: demo_req_def simp del: run.simps)
  have "fst (bs_view demo_published) = [(''a'', 1), (''b'', 2)]"
    by (simp add: bs_view_def demo_published_def prepareSet_def snapshotToBackendSet_def demo_overrides os_GroupOverrides_def
        mapGet_def innerMap_def demo_snap_def)
  then have "map fst (fst (bl_view (sy_dps sy1 (0, ''g'')))) = [''a'', ''b'']" using sy1(2) by simp
  then have "bl_Addresses (sy_dps sy1 (0, ''g'')) = [''a'', ''b'']" by (simp add: bl_view_def bl_Addresses_def comp_def)
  then show "\<exists>sy. run (demo_start rng) (demo_events @ [Deliver 5, Receive 2 5]) = Some sy \<and>
     bl_Addresses (sy_dps sy (0, ''g'')) = [''a'', ''b'']"
    using sy(1) sy1(1) by (auto simp: run_append simp del: run.simps)
qed

section \<open>Drained backends\<close>

text \<open>
  \<open>publishIfChanged\<close> and \<open>forceRepublish\<close> build their set before they take the lock, so a set built from the
  settings before a drain can be published after it. \<open>staleJobs\<close> are the sets of a group that were built, list
  a backend and are not published yet; \<open>keepsDrain\<close> is an event that leaves the backend drained.
\<close>

definition lists :: "string \<Rightarrow> BackendSet \<Rightarrow> bool" where
  "lists a m \<longleftrightarrow> a \<in> Backend_Address ` set (BS_Backends m)"

definition staleJobs :: "string \<Rightarrow> string \<Rightarrow> job list \<Rightarrow> job list" where
  "staleJobs g a js = filter (\<lambda>j. jb_group j = g \<and> lists a (jb_set j)) js"

fun keepsDrain :: "string \<Rightarrow> string \<Rightarrow> 'l event \<Rightarrow> bool" where
  "keepsDrain g a (Settings ov al st rl) = (case os_get ov (g, a) of Some o' \<Rightarrow> ov_Drained o' | None \<Rightarrow> False)"
| "keepsDrain g a _ = True"

lemma prepared_without: "isDrained sv g a \<Longrightarrow> \<not> lists a (prepareSet g snap sv)"
  using prepareSet_addresses [of g snap sv] unfolding lists_def by (metis (mono_tags, lifting) list.set_map mem_Collect_eq set_filter)

lemma commitJob_log:
  "\<exists>new. sy_log (commitJob j sy) g = sy_log sy g @ new \<and>
     length (filter (lists a) new) \<le> (if jb_group j = g \<and> lists a (jb_set j) then 1 else 0)"
  by (auto simp: commitJob_def commitIfChanged_def Let_def lists_def)

lemma commitJob_overrides [simp]: "sv_overrides (sy_server (commitJob j sy)) = sv_overrides (sy_server sy)"
  "sy_jobs (commitJob j sy) = sy_jobs sy"
  by (simp_all add: commitJob_def Let_def)

lemma server_overrides [simp]:
  "sv_overrides (streamOpen now c req sv) = sv_overrides sv" "sv_overrides (streamClose c req sv) = sv_overrides sv"
  "sv_overrides (ReportHealth now report sv) = sv_overrides sv" "sv_overrides (ReportMetrics t1 t2 t3 mreport sv) = sv_overrides sv"
  "streamRecv g c sv = Some (m, sv') \<Longrightarrow> sv_overrides sv' = sv_overrides sv"
  by (auto simp: streamOpen_def streamClose_def sv_subscribe_def sv_unsubscribe_def markInstanceConnected_def streamRecv_def
      markInstanceDisconnected_def ReportHealth_def recordInstanceHealthReport_def ReportMetrics_def Let_def split: option.splits)

lemma drained_step:
  assumes "isDrained (sy_server sy) g a" "keepsDrain g a e" "step sy e = Some sy1"
  shows "isDrained (sy_server sy1) g a \<and> (\<exists>new. sy_log sy1 g = sy_log sy g @ new \<and>
    length (filter (lists a) new) + length (staleJobs g a (sy_jobs sy1)) \<le> length (staleJobs g a (sy_jobs sy)))"
proof (cases e)
  case (Prepare h snap force)
  then show ?thesis using assms prepared_without [OF assms(1), of snap] by (auto simp: staleJobs_def)
next
  case (Commit i)
  let ?j = "sy_jobs sy ! i" and ?js = "take i (sy_jobs sy) @ drop (Suc i) (sy_jobs sy)"
  from Commit assms(3) have i: "i < length (sy_jobs sy)" and sy1: "sy1 = commitJob ?j (sy\<lparr>sy_jobs := ?js\<rparr>)"
    by (auto split: if_splits)
  have "length (staleJobs g a (sy_jobs sy)) = length (staleJobs g a ?js) + (if jb_group ?j = g \<and> lists a (jb_set ?j) then 1 else 0)"
    using arg_cong [OF id_take_nth_drop [OF i], of "\<lambda>js. length (staleJobs g a js)"] by (simp add: staleJobs_def)
  then show ?thesis using assms(1) commitJob_log [of ?j "sy\<lparr>sy_jobs := ?js\<rparr>" g a] by (auto simp: sy1 isDrained_def)
qed (use assms in \<open>auto simp: isDrained_def Let_def split: option.splits if_splits list.splits\<close>)

lemma drained_run:
  "isDrained (sy_server sy) g a \<Longrightarrow> list_all (keepsDrain g a) es \<Longrightarrow> run sy es = Some sy1 \<Longrightarrow>
     isDrained (sy_server sy1) g a \<and> (\<exists>new. sy_log sy1 g = sy_log sy g @ new \<and>
       length (filter (lists a) new) + length (staleJobs g a (sy_jobs sy1)) \<le> length (staleJobs g a (sy_jobs sy)))"
proof (induction es arbitrary: sy)
  case (Cons e es)
  then obtain sy2 where s: "step sy e = Some sy2" "run sy2 es = Some sy1" by (auto split: option.splits)
  obtain new where n: "isDrained (sy_server sy2) g a" "sy_log sy2 g = sy_log sy g @ new"
    "length (filter (lists a) new) + length (staleJobs g a (sy_jobs sy2)) \<le> length (staleJobs g a (sy_jobs sy))"
    using drained_step [OF Cons.prems(1) _ s(1)] Cons.prems(2) by auto
  obtain new2 where "isDrained (sy_server sy1) g a" "sy_log sy1 g = sy_log sy2 g @ new2"
    "length (filter (lists a) new2) + length (staleJobs g a (sy_jobs sy1)) \<le> length (staleJobs g a (sy_jobs sy2))"
    using Cons.IH [OF n(1) _ s(2)] Cons.prems(2) by auto
  then show ?case using n by (intro conjI exI [of _ "new @ new2"]) auto
qed simp

text \<open>What a data plane with a set of the later part of the log shows.\<close>

lemma shown_without:
  assumes "sys_reach sy" "sy_log sy g = old @ new" "filter (lists a) new = []" "int (length old) < bl_version (sy_dps sy (d, g))"
  shows "a \<notin> set (bl_Addresses (sy_dps sy (d, g)))"
proof -
  let ?b = "sy_dps sy (d, g)"
  have l: "log_ok (sv_last (sy_server sy) g) (old @ new)" and k: "knows (old @ new) ?b"
    using reach_sys_inv [OF assms(1)] assms(2) unfolding sys_inv_def by metis+
  obtain m where m: "m \<in> set (old @ new)" "bl_version ?b = BS_Version m" "bl_view ?b = bs_view m"
    using k assms(4) by (auto simp: knows_def)
  have "m \<notin> set old"
  proof
    assume "m \<in> set old"
    then obtain i where "i < length old" "m = (old @ new) ! i" by (metis in_set_conv_nth nth_append)
    moreover from this have "BS_Version m = int i + 1" using l by (simp add: log_ok_def)
    ultimately show False using m(2) assms(4) by simp
  qed
  then have "\<not> lists a m" using m(1) assms(3) by (auto simp: filter_empty_conv)
  moreover have "bl_Addresses ?b = map Backend_Address (BS_Backends m)"
    using arg_cong [OF m(3), of "map fst \<circ> fst"] by (simp add: bl_view_def bs_view_def bl_Addresses_def comp_def)
  ultimately show ?thesis by (auto simp: lists_def)
qed

text \<open>A forced publication from the present settings.\<close>

lemma republished:
  "\<exists>sy1 m. run sy [Prepare g snap True, Commit (length (sy_jobs sy))] = Some sy1 \<and> sy_log sy1 g = sy_log sy g @ [m] \<and>
     map Backend_Address (BS_Backends m) = filter (\<lambda>x. \<not> isDrained (sy_server sy) g x) (map pb_Address (sn_Backends snap))"
  by (simp add: commitJob_def Let_def prepareSet_addresses)

text \<open>
  C12. A drain lasts, over every interleaving of the control plane's steps: once it is stored, and as long as
  no later change of the settings takes it back, of the sets published for the group afterwards at most those
  list the backend that had been built before the drain was stored and were waiting for the lock. If none
  was waiting, no later set lists it, and no data plane that has taken up a later set has it in its list. A
  publication for the group, which \<open>SetOverride\<close> forces when it has stored the drain, is the provider's list
  without the drained backends.
\<close>

theorem drain_effective:
  assumes "sys_reach sy" "goodOverrides (sv_overrides (sy_server sy))" "validOverride \<lparr>ov_Weight = w, ov_Drained = True\<rparr>"
    and "os_Set env g a w True (sv_overrides (sy_server sy), fs) = (StoreOk, ov, fs1)"
    and "run sy (Settings ov al st rl # es) = Some sy1" "list_all (keepsDrain g a) es"
  shows "(\<exists>new. sy_log sy1 g = sy_log sy g @ new \<and>
      length (filter (lists a) new) \<le> length (staleJobs g a (sy_jobs sy)) \<and>
      (staleJobs g a (sy_jobs sy) = [] \<longrightarrow>
        (\<forall>d. bl_version (sy_dps sy1 (d, g)) \<le> int (length (sy_log sy g)) \<or> a \<notin> set (bl_Addresses (sy_dps sy1 (d, g)))))) \<and>
    (\<exists>sy2 m. run sy1 [Prepare g snap True, Commit (length (sy_jobs sy1))] = Some sy2 \<and> sy_log sy2 g = sy_log sy1 g @ [m] \<and>
      map Backend_Address (BS_Backends m) = filter (\<lambda>x. \<not> isDrained (sy_server sy1) g x) (map pb_Address (sn_Backends snap)) \<and>
      \<not> lists a m)"
proof -
  let ?ov = "\<lparr>ov_Weight = w, ov_Drained = True\<rparr>"
  obtain sy0 where sy0: "step sy (Settings ov al st rl) = Some sy0" "run sy0 es = Some sy1" using assms(5) by auto
  have "os_put env (g, a) (Some ?ov) (sv_overrides (sy_server sy), fs) = (StoreOk, ov, fs1)" using assms(4) by (simp add: os_put_def)
  from override_store.put_get [OF assms(2) _ this] assms(3) have "os_get ov (g, a) = Some ?ov" by simp
  then have d: "isDrained (sy_server sy0) g a" "sy_log sy0 = sy_log sy" "sy_jobs sy0 = sy_jobs sy" using sy0(1) by (auto simp: isDrained_def)
  from drained_run [OF d(1) assms(6) sy0(2)] d(2,3) obtain new where n: "isDrained (sy_server sy1) g a"
    "sy_log sy1 g = sy_log sy g @ new" "length (filter (lists a) new) \<le> length (staleJobs g a (sy_jobs sy))" by fastforce
  have r: "sys_reach sy1" using assms(1,5) by (rule run_reach)
  have "bl_version (sy_dps sy1 (d, g)) \<le> int (length (sy_log sy g)) \<or> a \<notin> set (bl_Addresses (sy_dps sy1 (d, g)))"
    if "staleJobs g a (sy_jobs sy) = []" for d
    using shown_without [OF r n(2), of a d] n(3) that by fastforce
  moreover obtain sy2 m where m: "run sy1 [Prepare g snap True, Commit (length (sy_jobs sy1))] = Some sy2" "sy_log sy2 g = sy_log sy1 g @ [m]"
    "map Backend_Address (BS_Backends m) = filter (\<lambda>x. \<not> isDrained (sy_server sy1) g x) (map pb_Address (sn_Backends snap))"
    using republished [of sy1 g snap] by auto
  moreover have "\<not> lists a m" using arg_cong [OF m(3), of set] n(1) by (auto simp: lists_def)
  ultimately show ?thesis using n by blast
qed

theorem drain_effective_witness:
  "\<forall>rng. \<exists>ov fs sy. os_Set (quiet_env ''t'') ''g'' ''a'' None True (sv_overrides demo_server, Map.empty) = (StoreOk, ov, fs) \<and>
     run (demo_start rng) [Settings ov (sv_algorithms demo_server) (sv_sticky demo_server) (sv_rateLimits demo_server),
       Prepare ''g'' demo_snap True, Commit 0] = Some sy \<and>
     map (map Backend_Address \<circ> BS_Backends) (sy_log sy ''g'') = [[''b'']]"
proof
  fix rng
  let ?S = "os_Set (quiet_env ''t'') ''g'' ''a'' None True (sv_overrides demo_server, Map.empty)"
  have "fst ?S = StoreOk" using quiet_set(1) by (simp add: demo_overrides)
  then obtain ov fs where S: "?S = (StoreOk, ov, fs)" by (cases ?S) auto
  let ?e = "Settings ov (sv_algorithms demo_server) (sv_sticky demo_server) (sv_rateLimits demo_server) :: unit event"
  have sv: "sy_server (demo_start rng) = demo_server" "sy_jobs (demo_start rng) = []" "sy_log (demo_start rng) ''g'' = []"
    by (simp_all add: demo_start_def startSys_def)
  have g: "goodOverrides (sv_overrides (sy_server (demo_start rng)))" by (simp add: sv demo_overrides goodOverrides_def goodMap_def)
  obtain sy0 where sy0: "run (demo_start rng) [?e] = Some sy0" "sy_jobs sy0 = []" "sv_overrides (sy_server sy0) = ov" by (simp add: sv)
  have v: "validOverride \<lparr>ov_Weight = None, ov_Drained = True\<rparr>" by (simp add: validOverride_def)
  from drain_effective [OF demo_start_reach g v _ sy0(1), of "quiet_env ''t''" "''g''" "''a''" Map.empty fs demo_snap] S sv sy0(2)
  obtain sy m where sy: "run sy0 [Prepare ''g'' demo_snap True, Commit 0] = Some sy" "sy_log sy ''g'' = sy_log sy0 ''g'' @ [m]"
    "map Backend_Address (BS_Backends m) = filter (\<lambda>x. \<not> isDrained (sy_server sy0) ''g'' x) [''a'', ''b'']" "\<not> lists ''a'' m"
    by (auto simp: demo_snap_def simp del: run.simps)
  have "\<not> isDrained demo_server ''g'' ''b''"
    by (simp add: isDrained_def demo_overrides os_get_def os_GroupOverrides_def mapGet_def innerMap_def)
  moreover have "os_put (quiet_env ''t'') (''g'', ''a'') (Some \<lparr>ov_Weight = None, ov_Drained = True\<rparr>) (sv_overrides demo_server, Map.empty) = (StoreOk, ov, fs)"
    using S by (simp add: os_put_def)
  note o = override_store.put_get [OF g [unfolded sv] _ this]
  have "os_get ov (''g'', ''b'') = os_get (sv_overrides demo_server) (''g'', ''b'')" using o [of "(''g'', ''b'')"] v by simp
  ultimately have "\<not> isDrained (sy_server sy0) ''g'' ''b''" by (simp add: isDrained_def sy0(3))
  moreover have "isDrained (sy_server sy0) ''g'' ''a''" using o [of "(''g'', ''a'')"] v by (simp add: isDrained_def sy0(3))
  moreover have "sy_log sy0 ''g'' = []" using sy0(1) sv(3) by auto
  moreover have "run (demo_start rng) [?e, Prepare ''g'' demo_snap True, Commit 0] = Some sy"
    using run_append [of "demo_start rng" "[?e]" "[Prepare ''g'' demo_snap True, Commit 0]"] sy0(1) sy(1) by simp
  ultimately show "\<exists>ov fs sy. ?S = (StoreOk, ov, fs) \<and>
     run (demo_start rng) [Settings ov (sv_algorithms demo_server) (sv_sticky demo_server) (sv_rateLimits demo_server),
       Prepare ''g'' demo_snap True, Commit 0] = Some sy \<and> map (map Backend_Address \<circ> BS_Backends) (sy_log sy ''g'') = [[''b'']]"
    using S sy(2,3) by (intro exI [of _ ov] exI [of _ fs] exI [of _ sy]) (simp del: run.simps)
qed

section \<open>Races\<close>

text \<open>
  A set built before a drain and published after it brings the drained backend back: a reconcile reads the
  settings, the drain is stored and published, and then the reconcile takes the lock, finds its set different
  from the current one and publishes it, with the backend that every store says is drained.
\<close>

lemma lists_differ: "lists a m \<Longrightarrow> \<not> lists a m' \<Longrightarrow> \<not> backendSetsEqual (Some m') (Some m)"
  by (auto simp: backendSetsEqual_exact lists_def dest: mset_eq_setD)

theorem drain_overtaken:
  assumes "sy_jobs sy = []" "\<not> isDrained (sy_server sy) g a" "keepsDrain g a (Settings ov al st rl)"
    and "a \<in> pb_Address ` set (sn_Backends snap)"
  shows "\<exists>sy1. run sy [Prepare g snap False, Settings ov al st rl, Prepare g snap True, Commit 1, Commit 0] = Some sy1 \<and>
    isDrained (sy_server sy1) g a \<and> lists a (last (sy_log sy1 g))"
proof -
  let ?sv = "(sy_server sy)\<lparr>sv_overrides := ov, sv_algorithms := al, sv_sticky := st, sv_rateLimits := rl\<rparr>"
  have d: "isDrained ?sv g a" using assms(3) by (simp add: isDrained_def)
  have m0: "lists a (prepareSet g snap (sy_server sy))"
    using assms(2,4) arg_cong [OF prepareSet_addresses [of g snap "sy_server sy"], of set] by (auto simp: lists_def)
  have v: "lists a (m\<lparr>BS_Version := n\<rparr>) = lists a m" for m n by (simp add: lists_def)
  have n: "\<not> backendSetsEqual (Some ((prepareSet g snap ?sv)\<lparr>BS_Version := n\<rparr>)) (Some (prepareSet g snap (sy_server sy)))" for n
    using m0 prepared_without [OF d, of snap] by (intro lists_differ [of a]) (simp_all add: v)
  show ?thesis using assms(1) d m0 n by (simp add: commitJob_def commitIfChanged_def Let_def v isDrained_def)
qed

theorem drain_overtaken_witness:
  "\<forall>rng. \<exists>ov sy. run (demo_start rng) [Prepare ''g'' demo_snap False, Settings ov (sv_algorithms demo_server) (sv_sticky demo_server)
       (sv_rateLimits demo_server), Prepare ''g'' demo_snap True, Commit 1, Commit 0] = Some sy \<and>
     isDrained (sy_server sy) ''g'' ''a'' \<and> lists ''a'' (last (sy_log sy ''g''))"
proof
  fix rng
  let ?ov = "\<lparr>os_path = [], os_data = Some [(''g'', Some [(''a'', \<lparr>ov_Weight = None, ov_Drained = True\<rparr>)])]\<rparr>"
  have s: "sy_jobs (demo_start rng) = []" "sy_server (demo_start rng) = demo_server" by (simp_all add: demo_start_def startSys_def)
  have "\<not> isDrained demo_server ''g'' ''a''"
    by (simp add: isDrained_def demo_overrides os_get_def os_GroupOverrides_def mapGet_def innerMap_def)
  moreover have "keepsDrain ''g'' ''a'' (Settings ?ov al st rl)" for al st rl
    by (simp add: os_get_def os_GroupOverrides_def mapGet_def innerMap_def)
  moreover have "''a'' \<in> pb_Address ` set (sn_Backends demo_snap)" by (simp add: demo_snap_def)
  ultimately show "\<exists>ov sy. run (demo_start rng) [Prepare ''g'' demo_snap False, Settings ov (sv_algorithms demo_server) (sv_sticky demo_server)
       (sv_rateLimits demo_server), Prepare ''g'' demo_snap True, Commit 1, Commit 0] = Some sy \<and>
     isDrained (sy_server sy) ''g'' ''a'' \<and> lists ''a'' (last (sy_log sy ''g''))"
    using drain_overtaken [of "demo_start rng" "''g''" "''a''" ?ov] s by metis
qed

text \<open>
  Two concurrent calls of \<open>SetRoutes\<close> can leave the control plane with the older table as its current
  one: when the first call has built its table and the second one stores and publishes before the first
  publishes, both calls return without error, the store holds the second table, and a data plane that
  connects afterwards is sent the first table and applies it.
\<close>

theorem routes_publish_race:
  assumes "rts_Set save e1 routes1 (sv_routes sv) = (True, st1)" "rts_Set save e2 routes2 st1 = (True, st2)"
    and "sv1 = publishRoutes (sv\<lparr>sv_routes := st2\<rparr>)" "sv2 = commitRoutes (buildTable (rts_version st1) (rts_routes st1)) sv1"
    and "rt_version t = 0"
  shows "sv_Routes sv2 = routes2 \<and>
    (\<exists>table. fst (routesOpen c sv2) = Some table \<and> rt_routes (rt_Update table t) = map (\<lambda>r. routeFromProto (routeToProto r)) routes1)"
proof -
  have st: "rts_routes st1 = routes1" "rts_routes st2 = routes2"
    using assms(1,2) by (auto simp: rts_Set_def rts_persist_def Let_def split: option.splits prod.splits)
  then have "sv_Routes sv2 = routes2" by (simp add: sv_Routes_def assms(3,4) publishRoutes_def commitRoutes_def)
  moreover have "fst (routesOpen c sv2) = Some (buildTable (rts_version st1) routes1)"
    by (simp add: routesOpen_def assms(4) commitRoutes_def st)
  moreover have "rt_routes (rt_Update (buildTable (rts_version st1) routes1) t) = map (\<lambda>r. routeFromProto (routeToProto r)) routes1"
    using assms(5) by (simp add: rt_Update_def buildTable_def)
  ultimately show ?thesis by blast
qed

theorem routes_publish_race_witness:
  "\<exists>sv :: PostgresBlobStore Server. sv_Routes sv = [] \<and>
     (\<forall>rng. rt_Len (rt_Update (the (fst (routesOpen 0 sv))) (NewRouteTable rng ''web'')) = 1)"
proof -
  define sv where "sv = (NewServer None None None None None :: PostgresBlobStore Server)"
  have r: "sv_routes sv = \<lparr>rts_store = None, rts_key = [], rts_routes = [], rts_version = 0\<rparr>"
    by (simp add: sv_def NewServer_def NewRouteStoreWithBackend_def)
  define st1 st2 where "st1 = snd (rts_Set pg_Save False [demo_cpRoute] (sv_routes sv))" and "st2 = snd (rts_Set pg_Save False [] st1)"
  have s: "rts_Set pg_Save False [demo_cpRoute] (sv_routes sv) = (True, st1)" "rts_Set pg_Save False [] st1 = (True, st2)"
    by (simp_all add: st1_def st2_def r rts_Set_def rts_persist_def Let_def)
  note race = routes_publish_race [OF s refl refl]
  show ?thesis
  proof (intro exI conjI allI)
    show "sv_Routes (commitRoutes (buildTable (rts_version st1) (rts_routes st1)) (publishRoutes (sv\<lparr>sv_routes := st2\<rparr>))) = []"
      using race [of "NewRouteTable undefined ''web''"] by (simp add: NewRouteTable_def)
    fix rng
    show "rt_Len (rt_Update (the (fst (routesOpen 0 (commitRoutes (buildTable (rts_version st1) (rts_routes st1))
        (publishRoutes (sv\<lparr>sv_routes := st2\<rparr>)))))) (NewRouteTable rng ''web'')) = 1"
      using race [of "NewRouteTable rng ''web''" 0] by (auto simp: NewRouteTable_def rt_Len_def)
  qed
qed

text \<open>
  A data plane subscribes each of its groups under one instance name, and the state of an instance is kept
  per name: the end of any of its streams shows the whole instance as disconnected.
\<close>

lemma other_stream_shown_disconnected:
  assumes "sbr_InstanceId req = i" "sbr_InstanceId req' = i" "i \<noteq> []" "distinct (map fst (sv_instances sv))"
    and "sv1 = streamClose c req (streamOpen now' c' req' (streamOpen now c req sv))" "c \<noteq> c'" "sbr_Group req \<noteq> sbr_Group req'"
  shows "\<exists>st subs. map_of (sv_instances sv1) i = Some st \<and> \<not> is_connected st \<and>
    sv_subs sv1 (sbr_Group req') = Some subs \<and> map_of subs c' = Some newChan"
  using assms by (auto simp: streamClose_def streamOpen_def sv_subscribe_def sv_unsubscribe_def markInstanceConnected_def
      markInstanceDisconnected_def update_conv' Let_def split: option.split)

end
