(* ===== verification/NetAddr.thy ===== *)
theory NetAddr
  imports Prelude
begin

text \<open>
  What several components use of Go's \<open>net\<close>, \<open>strings\<close> and \<open>strconv\<close>: splitting a network address into host
  and port, trimming white space (ASCII), decimal numbers of 64 bits.
\<close>

section \<open>Addresses\<close>

definition lastIndex :: "char \<Rightarrow> string \<Rightarrow> nat option" where
  "lastIndex c s = (if c \<in> set s then Some (length s - 1 - length (takeWhile (\<lambda>x. x \<noteq> c) (rev s))) else None)"

definition indexOf :: "char \<Rightarrow> string \<Rightarrow> nat option" where
  "indexOf c s = (if c \<in> set s then Some (length (takeWhile (\<lambda>x. x \<noteq> c) s)) else None)"

definition SplitHostPort :: "string \<Rightarrow> (string \<times> string) option" where
  "SplitHostPort hp =
     (case lastIndex (CHR '':'') hp of
        None \<Rightarrow> None
      | Some i \<Rightarrow>
          (let hostEnd =
             (if hp ! 0 = CHR ''['' then
                (case indexOf (CHR '']'') hp of
                   None \<Rightarrow> None
                 | Some e \<Rightarrow> if e + 1 = i then Some (drop 1 (take e hp), 1, e + 1) else None)
              else if CHR '':'' \<in> set (take i hp) then None
              else Some (take i hp, 0, 0))
           in case hostEnd of
                None \<Rightarrow> None
              | Some (host, j, k) \<Rightarrow>
                  if CHR ''['' \<in> set (drop j hp) \<or> CHR '']'' \<in> set (drop k hp) then None
                  else Some (host, drop (i + 1) hp)))"

section \<open>White space and numbers\<close>

definition asciiSpace :: "char \<Rightarrow> bool" where
  "asciiSpace c \<longleftrightarrow> c = CHR '' '' \<or> (9 \<le> (of_char c :: nat) \<and> (of_char c :: nat) \<le> 13)"

definition TrimSpace :: "string \<Rightarrow> string" where
  "TrimSpace s = rev (dropWhile asciiSpace (rev (dropWhile asciiSpace s)))"

definition digits_value :: "string \<Rightarrow> nat" where
  "digits_value s = foldl (\<lambda>n c. 10 * n + (of_char c - 48)) 0 s"

definition ParseInt64 :: "string \<Rightarrow> int option" where
  "ParseInt64 s =
     (let (neg, ds) = (case s of [] \<Rightarrow> (False, []) | c # cs \<Rightarrow>
            if c = CHR ''-'' then (True, cs) else if c = CHR ''+'' then (False, cs) else (False, s))
      in if ds = [] \<or> \<not> list_all is_digit ds then None
         else (let n = (if neg then - int (digits_value ds) else int (digits_value ds))
               in if is_int64 n then Some n else None))"

definition FormatInt :: "int \<Rightarrow> string" where
  "FormatInt n = (if n < 0 then CHR ''-'' # itoa (nat (- n)) else itoa (nat n))"

lemma digit_char:
  assumes "k < 10"
  shows "is_digit (char_of (48 + k :: nat))" "of_char (char_of (48 + k :: nat) :: char) = (48 + k :: nat)"
  using assms by (simp_all add: is_digit_def of_char_of)

lemma itoa_ne [simp]: "itoa n \<noteq> []"
  by (subst itoa.simps) simp

lemma itoa_digits [simp]: "list_all is_digit (itoa n)"
proof (induction n rule: itoa.induct)
  case (1 n)
  then show ?case by (subst itoa.simps) (auto simp: digit_char)
qed

lemma digits_value_itoa [simp]: "digits_value (itoa n) = n"
proof (induction n rule: itoa.induct)
  case (1 n)
  show ?case
  proof (cases "n < 10")
    case True
    then show ?thesis by (subst itoa.simps) (simp add: digits_value_def digit_char)
  next
    case False
    then have "digits_value (itoa n) = 10 * digits_value (itoa (n div 10)) + n mod 10"
      by (subst itoa.simps) (simp add: digits_value_def digit_char)
    with 1 False show ?thesis by simp
  qed
qed

lemma itoa_no_sign: "itoa n = c # cs \<Longrightarrow> c \<noteq> CHR ''-'' \<and> c \<noteq> CHR ''+''"
  using itoa_digits [of n] by (auto simp: is_digit_def)

lemma FormatInt_chars: "list_all (\<lambda>c. is_digit c \<or> c = CHR ''-'') (FormatInt n)"
  using itoa_digits by (auto simp: FormatInt_def list_all_iff)

lemma ParseInt64_FormatInt [simp]:
  assumes "is_int64 n" shows "ParseInt64 (FormatInt n) = Some n"
proof (cases "n < 0")
  case True
  then show ?thesis using assms by (simp add: ParseInt64_def FormatInt_def)
next
  case False
  obtain c cs where "itoa (nat n) = c # cs" by (cases "itoa (nat n)") auto
  with itoa_no_sign [OF this] itoa_digits [of "nat n"] digits_value_itoa [of "nat n"] False assms show ?thesis
    by (simp add: ParseInt64_def FormatInt_def)
qed

lemma ParseInt64_range: "ParseInt64 s = Some n \<Longrightarrow> is_int64 n"
  by (auto simp: ParseInt64_def Let_def split: prod.splits if_splits)

end
