(* ===== verification/Admin.thy ===== *)
theory Admin
  imports NetAddr Http RouteStore
begin

text \<open>
  Signing in to the admin interface: the login limiter (\<open>internal/admin/ratelimit.go\<close>), session cookies
  (\<open>session.go\<close>), the store of the password and the session secret (\<open>store.go\<close>), the audit log
  (\<open>audit.go\<close>) and the handlers that use them (\<open>handlers.go\<close>).

  Cryptography is a parameter: \<open>sign secret expiry\<close> is the base64 HMAC of \<open>signSession\<close>, \<open>verify hash password\<close>
  is bcrypt's comparison; the hash, secret and token that a call draws, or that drawing them failed, are in its
  \<open>cryptoEnv\<close>. How \<open>time.Time\<close> prints in JSON is the pair \<open>fmtTime\<close>, \<open>parseTime\<close>. Pages are the name of the template
  with the message it shows; the templates themselves are markup.
\<close>

section \<open>The login limiter\<close>

record loginAttempts =
  la_failures :: int
  la_firstFailAt :: gotime
  la_lockedUntil :: gotime

record loginLimiter =
  ll_maxFailures :: int
  ll_lockout :: duration
  ll_window :: duration
  ll_byIP :: "string \<rightharpoonup> loginAttempts"

definition newLoginLimiter :: "int \<Rightarrow> duration \<Rightarrow> duration \<Rightarrow> loginLimiter" where
  "newLoginLimiter maxFailures window lockout =
     \<lparr>ll_maxFailures = maxFailures, ll_lockout = lockout, ll_window = window, ll_byIP = Map.empty\<rparr>"

definition ll_Allowed :: "gotime \<Rightarrow> string \<Rightarrow> loginLimiter \<Rightarrow> bool" where
  "ll_Allowed now ip l = (case ll_byIP l ip of None \<Rightarrow> True | Some a \<Rightarrow> la_lockedUntil a < now)"

definition ll_RecordFailure :: "gotime \<Rightarrow> string \<Rightarrow> loginLimiter \<Rightarrow> loginLimiter" where
  "ll_RecordFailure now ip l =
     (let new = \<lparr>la_failures = 0, la_firstFailAt = now, la_lockedUntil = zero_time\<rparr>;
          a = (case ll_byIP l ip of
                 None \<Rightarrow> new
               | Some a \<Rightarrow> if time_sub now (la_firstFailAt a) > ll_window l then new else a);
          a1 = a\<lparr>la_failures := la_failures a + 1\<rparr>;
          a2 = (if la_failures a1 \<ge> ll_maxFailures l then a1\<lparr>la_lockedUntil := now + ll_lockout l\<rparr> else a1)
      in l\<lparr>ll_byIP := (ll_byIP l)(ip \<mapsto> a2)\<rparr>)"

definition ll_RecordSuccess :: "string \<Rightarrow> loginLimiter \<Rightarrow> loginLimiter" where
  "ll_RecordSuccess ip l = l\<lparr>ll_byIP := (ll_byIP l)(ip := None)\<rparr>"

section \<open>Sessions\<close>

record adminCookie =
  ck_name :: string
  ck_value :: string
  ck_maxAge :: int
  ck_secure :: bool

abbreviation "sessionCookieName \<equiv> ''lb_admin_session''"

definition sessionDuration :: duration where "sessionDuration = 12 * 60 * minute"

definition unixSeconds :: "gotime \<Rightarrow> int" where
  "unixSeconds t = t div second - 62135596800"

definition issueSession :: "(string \<Rightarrow> int \<Rightarrow> string) \<Rightarrow> gotime \<Rightarrow> string \<Rightarrow> bool \<Rightarrow> adminCookie" where
  "issueSession sign now secret secure =
     (let expiry = unixSeconds (now + sessionDuration)
      in \<lparr>ck_name = sessionCookieName, ck_value = FormatInt expiry @ ''.'' @ sign secret expiry,
          ck_maxAge = 43200, ck_secure = secure\<rparr>)"

definition clearSession :: "bool \<Rightarrow> adminCookie" where
  "clearSession secure = \<lparr>ck_name = sessionCookieName, ck_value = [], ck_maxAge = -1, ck_secure = secure\<rparr>"

text \<open>\<open>strings.SplitN(s, ".", 2)\<close>, when it has two parts.\<close>

definition splitDot :: "string \<Rightarrow> (string \<times> string) option" where
  "splitDot s =
     (if CHR ''.'' \<in> set s then Some (takeWhile (\<lambda>c. c \<noteq> CHR ''.'') s, tl (dropWhile (\<lambda>c. c \<noteq> CHR ''.'') s)) else None)"

definition validSession :: "(string \<Rightarrow> int \<Rightarrow> string) \<Rightarrow> gotime \<Rightarrow> Request \<Rightarrow> string \<Rightarrow> bool" where
  "validSession sign now r secret =
     (case rq_Cookie r sessionCookieName of
        None \<Rightarrow> False
      | Some v \<Rightarrow>
          if v = [] then False
          else (case splitDot v of
                  None \<Rightarrow> False
                | Some (p0, p1) \<Rightarrow>
                    (case ParseInt64 p0 of
                       None \<Rightarrow> False
                     | Some expiry \<Rightarrow> if unixSeconds now > expiry then False else p1 = sign secret expiry)))"

section \<open>The password store\<close>

record adminSecrets =
  am_PasswordHash :: string
  am_SessionSecret :: string

record AdminStore =
  ad_path :: string
  ad_s :: adminSecrets

record cryptoEnv =
  ce_password :: "string option"
  ce_secret :: "string option"
  ce_hash :: "string \<Rightarrow> string option"
  ce_token :: string

datatype adminError = ReadFailed | RandomFailed | HashFailed | SaveFailed sysCall

definition jSecrets :: "adminSecrets \<Rightarrow> json" where
  "jSecrets s = JObj (jField ''passwordHash'' (JStr (am_PasswordHash s)) @ jField ''sessionSecret'' (JStr (am_SessionSecret s)))"

definition dSecretsField :: "string \<Rightarrow> json \<Rightarrow> adminSecrets \<Rightarrow> adminSecrets option" where
  "dSecretsField k v s =
     (if foldName k = ''passwordhash'' then map_option (\<lambda>x. s\<lparr>am_PasswordHash := x\<rparr>) (dStr v (am_PasswordHash s))
      else if foldName k = ''sessionsecret'' then map_option (\<lambda>x. s\<lparr>am_SessionSecret := x\<rparr>) (dStr v (am_SessionSecret s))
      else Some s)"

definition dSecrets :: "json \<Rightarrow> adminSecrets option" where
  "dSecrets doc = dStruct dSecretsField doc \<lparr>am_PasswordHash = [], am_SessionSecret = []\<rparr>"

text \<open>\<open>persist\<close>; renaming to an empty path fails.\<close>

definition ad_persist :: "persistEnv \<Rightarrow> AdminStore \<Rightarrow> filesystem \<Rightarrow> sysCall option \<times> filesystem" where
  "ad_persist env st fs =
     (if ad_path st = [] then (Some RenameTemp, fs) else persistFile env (ad_path st) (jSecrets (ad_s st)) fs)"

text \<open>The part of \<open>Open\<close> that makes a new password.\<close>

definition ad_generate :: "cryptoEnv \<Rightarrow> persistEnv \<Rightarrow> string \<Rightarrow> filesystem
    \<Rightarrow> (adminError + AdminStore \<times> string option) \<times> filesystem" where
  "ad_generate ce env path fs =
     (case ce_password ce of
        None \<Rightarrow> (Inl RandomFailed, fs)
      | Some password \<Rightarrow>
          (case ce_secret ce of
             None \<Rightarrow> (Inl RandomFailed, fs)
           | Some secret \<Rightarrow>
               (case ce_hash ce password of
                  None \<Rightarrow> (Inl HashFailed, fs)
                | Some hash \<Rightarrow>
                    (let st = \<lparr>ad_path = path, ad_s = \<lparr>am_PasswordHash = hash, am_SessionSecret = secret\<rparr>\<rparr>
                     in case ad_persist env st fs of
                          (Some c, fs1) \<Rightarrow> (Inl (SaveFailed c), fs1)
                        | (None, fs1) \<Rightarrow> (Inr (st, Some password), fs1)))))"

text \<open>\<open>unreadable\<close>: reading the file failed for another reason than that there is none.\<close>

definition ad_Open :: "cryptoEnv \<Rightarrow> persistEnv \<Rightarrow> bool \<Rightarrow> string \<Rightarrow> filesystem
    \<Rightarrow> (adminError + AdminStore \<times> string option) \<times> filesystem" where
  "ad_Open ce env unreadable path fs =
     (if unreadable then (Inl ReadFailed, fs)
      else (case (case fs path of Some (Doc doc) \<Rightarrow> dSecrets doc | _ \<Rightarrow> None) of
         Some s \<Rightarrow>
           if am_PasswordHash s \<noteq> [] \<and> am_SessionSecret s \<noteq> []
           then (Inr (\<lparr>ad_path = path, ad_s = s\<rparr>, None), fs)
           else ad_generate ce env path fs
       | None \<Rightarrow> ad_generate ce env path fs))"

definition VerifyPassword :: "(string \<Rightarrow> string \<Rightarrow> bool) \<Rightarrow> AdminStore \<Rightarrow> string \<Rightarrow> bool" where
  "VerifyPassword verify st password = verify (am_PasswordHash (ad_s st)) password"

definition SetPassword :: "cryptoEnv \<Rightarrow> persistEnv \<Rightarrow> string \<Rightarrow> AdminStore \<times> filesystem
    \<Rightarrow> adminError option \<times> AdminStore \<times> filesystem" where
  "SetPassword ce env newPassword = (\<lambda>(st, fs).
     (case ce_hash ce newPassword of
        None \<Rightarrow> (Some HashFailed, st, fs)
      | Some hash \<Rightarrow>
          (case ce_secret ce of
             None \<Rightarrow> (Some RandomFailed, st, fs)
           | Some secret \<Rightarrow>
               (let st1 = st\<lparr>ad_s := \<lparr>am_PasswordHash = hash, am_SessionSecret = secret\<rparr>\<rparr>;
                    (err, fs1) = ad_persist env st1 fs
                in (map_option SaveFailed err, st1, fs1)))))"

definition ResetToRandomPassword :: "cryptoEnv \<Rightarrow> persistEnv \<Rightarrow> AdminStore \<times> filesystem
    \<Rightarrow> (adminError + string) \<times> AdminStore \<times> filesystem" where
  "ResetToRandomPassword ce env = (\<lambda>(st, fs).
     (case ce_password ce of
        None \<Rightarrow> (Inl RandomFailed, st, fs)
      | Some password \<Rightarrow>
          (case SetPassword ce env password (st, fs) of
             (Some e, st1, fs1) \<Rightarrow> (Inl e, st1, fs1)
           | (None, st1, fs1) \<Rightarrow> (Inr password, st1, fs1))))"

section \<open>The audit log\<close>

type_synonym AuditEventType = string

abbreviation "AuditLoginSuccess \<equiv> ''login_success''"
abbreviation "AuditLoginFailure \<equiv> ''login_failure''"
abbreviation "AuditLoginRateLimited \<equiv> ''login_rate_limited''"
abbreviation "AuditPasswordChanged \<equiv> ''password_changed''"
abbreviation "AuditLogout \<equiv> ''logout''"

record AuditEntry =
  au_Time :: gotime
  au_Type :: AuditEventType
  au_IP :: string
  au_Message :: string

definition maxAuditEntries :: nat where "maxAuditEntries = 500"

record AuditLog =
  al_path :: string
  al_entries :: "AuditEntry list"

definition jAuditEntry :: "(gotime \<Rightarrow> string) \<Rightarrow> AuditEntry \<Rightarrow> json" where
  "jAuditEntry fmtTime e = JObj (jField ''time'' (JStr (fmtTime (au_Time e))) @ jField ''type'' (JStr (au_Type e)) @
     jField ''ip'' (JStr (au_IP e)) @ jField ''message'' (JStr (au_Message e)))"

fun dTime :: "(string \<Rightarrow> gotime option) \<Rightarrow> json \<Rightarrow> gotime \<Rightarrow> gotime option" where
  "dTime parseTime JNull t = Some t"
| "dTime parseTime (JStr s) t = parseTime s"
| "dTime parseTime _ t = None"

definition dAuditField :: "(string \<Rightarrow> gotime option) \<Rightarrow> string \<Rightarrow> json \<Rightarrow> AuditEntry \<Rightarrow> AuditEntry option" where
  "dAuditField parseTime k v e =
     (if foldName k = ''time'' then map_option (\<lambda>x. e\<lparr>au_Time := x\<rparr>) (dTime parseTime v (au_Time e))
      else if foldName k = ''type'' then map_option (\<lambda>x. e\<lparr>au_Type := x\<rparr>) (dStr v (au_Type e))
      else if foldName k = ''ip'' then map_option (\<lambda>x. e\<lparr>au_IP := x\<rparr>) (dStr v (au_IP e))
      else if foldName k = ''message'' then map_option (\<lambda>x. e\<lparr>au_Message := x\<rparr>) (dStr v (au_Message e))
      else Some e)"

definition dAuditEntry :: "(string \<Rightarrow> gotime option) \<Rightarrow> json \<Rightarrow> AuditEntry option" where
  "dAuditEntry parseTime doc =
     dStruct (dAuditField parseTime) doc \<lparr>au_Time = zero_time, au_Type = [], au_IP = [], au_Message = []\<rparr>"

definition OpenAuditLog :: "(string \<Rightarrow> gotime option) \<Rightarrow> string \<Rightarrow> filesystem \<Rightarrow> AuditLog" where
  "OpenAuditLog parseTime path fs =
     \<lparr>al_path = path,
      al_entries = (case fs path of
         Some (Doc doc) \<Rightarrow> (case dArr (dAuditEntry parseTime) doc of Some es \<Rightarrow> es | None \<Rightarrow> [])
       | _ \<Rightarrow> [])\<rparr>"

definition al_persist :: "(gotime \<Rightarrow> string) \<Rightarrow> persistEnv \<Rightarrow> AuditLog \<Rightarrow> AuditEntry list \<Rightarrow> filesystem \<Rightarrow> sysCall option \<times> filesystem" where
  "al_persist fmtTime env a entries fs = persistFile env (al_path a) (JArr (map (jAuditEntry fmtTime) entries)) fs"

definition al_Record :: "(gotime \<Rightarrow> string) \<Rightarrow> persistEnv \<Rightarrow> gotime \<Rightarrow> AuditEventType \<Rightarrow> string \<Rightarrow> string
    \<Rightarrow> AuditLog \<times> filesystem \<Rightarrow> AuditLog \<times> filesystem" where
  "al_Record fmtTime env now eventType ip message = (\<lambda>(a, fs).
     (let es = al_entries a @ [\<lparr>au_Time = now, au_Type = eventType, au_IP = ip, au_Message = message\<rparr>];
          es1 = (if length es > maxAuditEntries then drop (length es - maxAuditEntries) es else es);
          a1 = a\<lparr>al_entries := es1\<rparr>
      in (a1, snd (al_persist fmtTime env a1 es1 fs))))"

definition al_Recent :: "int \<Rightarrow> AuditLog \<Rightarrow> AuditEntry list" where
  "al_Recent limit a =
     (let n = (if limit > 0 \<and> limit < int (length (al_entries a)) then nat limit else length (al_entries a))
      in map (\<lambda>i. al_entries a ! (length (al_entries a) - 1 - i)) [0..<n])"

section \<open>Handlers\<close>

record AdminServer =
  sr_store :: AdminStore
  sr_audit :: AuditLog
  sr_limiter :: loginLimiter
  sr_secureCookies :: bool
  sr_trustForwardedFor :: bool

datatype adminPage = Redirect string | Page string string

record adminReply =
  ar_page :: adminPage
  ar_cookies :: "adminCookie list"

text \<open>A request with its form; \<open>FormValue\<close> of a field that is not there is empty.\<close>

record adminRequest =
  aq_http :: Request
  aq_form :: "string \<Rightarrow> string"

text \<open>What the handlers call: signatures, password check, time format; and the world of one call.\<close>

record adminLib =
  lib_sign :: "string \<Rightarrow> int \<Rightarrow> string"
  lib_verify :: "string \<Rightarrow> string \<Rightarrow> bool"
  lib_fmtTime :: "gotime \<Rightarrow> string"

record adminWorld =
  aw_now :: gotime
  aw_crypto :: cryptoEnv
  aw_persist :: persistEnv
  aw_auditPersist :: persistEnv

definition newAdminServer :: "AdminStore \<Rightarrow> AuditLog \<Rightarrow> bool \<Rightarrow> bool \<Rightarrow> AdminServer" where
  "newAdminServer store auditLog secureCookies trustForwardedFor =
     \<lparr>sr_store = store, sr_audit = auditLog, sr_limiter = newLoginLimiter 5 (5 * minute) (15 * minute),
      sr_secureCookies = secureCookies, sr_trustForwardedFor = trustForwardedFor\<rparr>"

definition admin_clientIP :: "Request \<Rightarrow> AdminServer \<Rightarrow> string" where
  "admin_clientIP r s =
     (let fwd = header_Get (rq_Header r) ''X-Forwarded-For'';
          ip = TrimSpace (hd (split_on (CHR '','') fwd))
      in if sr_trustForwardedFor s \<and> fwd \<noteq> [] \<and> ip \<noteq> [] then ip
         else (case SplitHostPort (rq_RemoteAddr r) of None \<Rightarrow> rq_RemoteAddr r | Some (host, _) \<Rightarrow> host))"

abbreviation "csrfCookieName \<equiv> ''lb_admin_csrf''"

definition newCSRFToken :: "adminWorld \<Rightarrow> AdminServer \<Rightarrow> adminCookie list" where
  "newCSRFToken w s =
     [\<lparr>ck_name = csrfCookieName, ck_value = ce_token (aw_crypto w), ck_maxAge = 600, ck_secure = sr_secureCookies s\<rparr>]"

text \<open>The cookies that \<open>csrfToken\<close> sets: none when the request carries a token.\<close>

definition csrfToken :: "adminWorld \<Rightarrow> adminRequest \<Rightarrow> AdminServer \<Rightarrow> adminCookie list" where
  "csrfToken w rq s =
     (case rq_Cookie (aq_http rq) csrfCookieName of
        Some v \<Rightarrow> if v \<noteq> [] then [] else newCSRFToken w s
      | None \<Rightarrow> newCSRFToken w s)"

definition checkCSRF :: "adminRequest \<Rightarrow> bool" where
  "checkCSRF rq =
     (case rq_Cookie (aq_http rq) csrfCookieName of
        None \<Rightarrow> False
      | Some v \<Rightarrow> v \<noteq> [] \<and> aq_form rq ''csrf_token'' \<noteq> [] \<and> aq_form rq ''csrf_token'' = v)"

definition sr_record :: "adminLib \<Rightarrow> adminWorld \<Rightarrow> AuditEventType \<Rightarrow> string \<Rightarrow> string
    \<Rightarrow> AdminServer \<times> filesystem \<Rightarrow> AdminServer \<times> filesystem" where
  "sr_record lib w eventType ip message = (\<lambda>(s, fs).
     (let (a, fs1) = al_Record (lib_fmtTime lib) (aw_auditPersist w) (aw_now w) eventType ip message (sr_audit s, fs)
      in (s\<lparr>sr_audit := a\<rparr>, fs1)))"

definition handleLoginSubmit :: "adminLib \<Rightarrow> adminWorld \<Rightarrow> adminRequest \<Rightarrow> AdminServer \<times> filesystem
    \<Rightarrow> adminReply \<times> AdminServer \<times> filesystem" where
  "handleLoginSubmit lib w rq = (\<lambda>(s, fs).
     (let ip = admin_clientIP (aq_http rq) s
      in if \<not> ll_Allowed (aw_now w) ip (sr_limiter s) then
           (\<lparr>ar_page = Page ''login'' ''Too many failed attempts. Try again in a few minutes.'', ar_cookies = csrfToken w rq s\<rparr>,
            sr_record lib w AuditLoginRateLimited ip ''login attempt blocked by rate limiting'' (s, fs))
         else if \<not> checkCSRF rq then
           (\<lparr>ar_page = Page ''login'' ''Session expired, please try again.'', ar_cookies = newCSRFToken w s\<rparr>, s, fs)
         else if \<not> VerifyPassword (lib_verify lib) (sr_store s) (aq_form rq ''password'') then
           (\<lparr>ar_page = Page ''login'' ''Incorrect password.'', ar_cookies = csrfToken w rq s\<rparr>,
            sr_record lib w AuditLoginFailure ip ''incorrect password''
              (s\<lparr>sr_limiter := ll_RecordFailure (aw_now w) ip (sr_limiter s)\<rparr>, fs))
         else
           (\<lparr>ar_page = Redirect ''/'',
             ar_cookies = [issueSession (lib_sign lib) (aw_now w) (am_SessionSecret (ad_s (sr_store s))) (sr_secureCookies s)]\<rparr>,
            sr_record lib w AuditLoginSuccess ip ''signed in''
              (s\<lparr>sr_limiter := ll_RecordSuccess ip (sr_limiter s)\<rparr>, fs))))"

definition handleLogout :: "adminLib \<Rightarrow> adminWorld \<Rightarrow> adminRequest \<Rightarrow> AdminServer \<times> filesystem
    \<Rightarrow> adminReply \<times> AdminServer \<times> filesystem" where
  "handleLogout lib w rq = (\<lambda>(s, fs).
     (\<lparr>ar_page = Redirect ''/login'', ar_cookies = [clearSession (sr_secureCookies s)]\<rparr>,
      sr_record lib w AuditLogout (admin_clientIP (aq_http rq) s) ''signed out'' (s, fs)))"

definition handlePasswordSubmit :: "adminLib \<Rightarrow> adminWorld \<Rightarrow> adminRequest \<Rightarrow> AdminServer \<times> filesystem
    \<Rightarrow> adminReply \<times> AdminServer \<times> filesystem" where
  "handlePasswordSubmit lib w rq = (\<lambda>(s, fs).
     (let current = aq_form rq ''current_password''; newPassword = aq_form rq ''new_password'';
          confirm = aq_form rq ''confirm_password'';
          refuse = (\<lambda>msg. (\<lparr>ar_page = Page ''password'' msg, ar_cookies = csrfToken w rq s\<rparr>, s, fs))
      in if \<not> checkCSRF rq then
           (\<lparr>ar_page = Page ''password'' ''Session expired, please try again.'', ar_cookies = newCSRFToken w s\<rparr>, s, fs)
         else if \<not> VerifyPassword (lib_verify lib) (sr_store s) current then refuse ''Current password is incorrect.''
         else if length newPassword < 12 then refuse ''New password must be at least 12 characters.''
         else if newPassword \<noteq> confirm then refuse ''New password and confirmation do not match.''
         else
           (case SetPassword (aw_crypto w) (aw_persist w) newPassword (sr_store s, fs) of
              (Some e, st, fs1) \<Rightarrow>
                (\<lparr>ar_page = Page ''password'' ''Failed to save new password. Check container logs.'', ar_cookies = csrfToken w rq s\<rparr>,
                 s\<lparr>sr_store := st\<rparr>, fs1)
            | (None, st, fs1) \<Rightarrow>
                (\<lparr>ar_page = Page ''password'' ''Success'',
                  ar_cookies = [clearSession (sr_secureCookies s),
                    issueSession (lib_sign lib) (aw_now w) (am_SessionSecret (ad_s st)) (sr_secureCookies s)] @ newCSRFToken w s\<rparr>,
                 sr_record lib w AuditPasswordChanged (admin_clientIP (aq_http rq) s) ''password changed via web UI''
                   (s\<lparr>sr_store := st\<rparr>, fs1)))))"

end
