(* ===== verification/AdminProps.thy ===== *)
theory AdminProps
  imports Admin
begin

text \<open>
  Properties of signing in to the admin interface: the lockout after failed logins, what a session cookie
  proves, what a change of the password does, and the audit log.
\<close>

section \<open>The lockout\<close>

datatype limEvent = LoginFail gotime string | LoginOk string

fun limApply :: "loginLimiter \<Rightarrow> limEvent \<Rightarrow> loginLimiter" where
  "limApply l (LoginFail now ip) = ll_RecordFailure now ip l"
| "limApply l (LoginOk ip) = ll_RecordSuccess ip l"

fun failTime :: "string \<Rightarrow> limEvent \<Rightarrow> gotime list" where
  "failTime ip (LoginFail now x) = (if x = ip then [now] else [])"
| "failTime ip (LoginOk x) = []"

definition failTimes :: "string \<Rightarrow> limEvent list \<Rightarrow> gotime list" where
  "failTimes ip es = concat (map (failTime ip) es)"

lemma failTimes_snoc [simp]: "failTimes ip (es @ [e]) = failTimes ip es @ failTime ip e"
  by (simp add: failTimes_def)

lemma limApply_config [simp]:
  "ll_maxFailures (limApply l e) = ll_maxFailures l" "ll_lockout (limApply l e) = ll_lockout l" "ll_window (limApply l e) = ll_window l"
  by (cases e; simp add: ll_RecordFailure_def ll_RecordSuccess_def Let_def)+

lemma limRun_config [simp]:
  "ll_maxFailures (foldl limApply l es) = ll_maxFailures l" "ll_lockout (foldl limApply l es) = ll_lockout l"
  "ll_window (foldl limApply l es) = ll_window l"
  by (induction es arbitrary: l) simp_all

lemma limRun_state:
  assumes "ll_byIP l ip = None" "LoginOk ip \<notin> set es" "\<forall>t \<in> set (failTimes ip es). time_sub t (hd (failTimes ip es)) \<le> ll_window l"
    and "0 < ll_maxFailures l"
  shows "ll_byIP (foldl limApply l es) ip =
    (let ts = failTimes ip es
     in if ts = [] then None
        else Some \<lparr>la_failures = int (length ts), la_firstFailAt = hd ts,
               la_lockedUntil = (if int (length ts) \<ge> ll_maxFailures l then last ts + ll_lockout l else 0)\<rparr>)"
  using assms
proof (induction es rule: rev_induct)
  case (snoc e es)
  have IH: "ll_byIP (foldl limApply l es) ip =
    (let ts = failTimes ip es
     in if ts = [] then None
        else Some \<lparr>la_failures = int (length ts), la_firstFailAt = hd ts,
               la_lockedUntil = (if int (length ts) \<ge> ll_maxFailures l then last ts + ll_lockout l else 0)\<rparr>)"
  proof (rule snoc.IH)
    show "\<forall>t \<in> set (failTimes ip es). time_sub t (hd (failTimes ip es)) \<le> ll_window l"
      using snoc.prems(3) by (cases "failTimes ip es") auto
  qed (use snoc.prems in auto)
  show ?case
  proof (cases e)
    case (LoginFail now x)
    show ?thesis
    proof (cases "x = ip \<and> failTimes ip es \<noteq> []")
      case True
      then have "\<not> time_sub now (hd (failTimes ip es)) > ll_window l" using snoc.prems(3) LoginFail by auto
      then show ?thesis using True IH LoginFail by (simp add: ll_RecordFailure_def Let_def)
    next
      case False
      then show ?thesis using IH LoginFail snoc.prems(4) by (auto simp: ll_RecordFailure_def Let_def)
    qed
  next
    case (LoginOk x)
    then have "x \<noteq> ip" using snoc.prems(2) by auto
    then show ?thesis using IH LoginOk by (simp add: ll_RecordSuccess_def)
  qed
qed (simp add: failTimes_def)

lemma record_frame [simp]:
  "sr_store (fst (sr_record lib w t ip m (s, fs))) = sr_store s" "sr_limiter (fst (sr_record lib w t ip m (s, fs))) = sr_limiter s"
  by (simp_all add: sr_record_def case_prod_beta)

text \<open>
  C30. Failed logins lock an address out, and nothing else does: whatever other addresses do meanwhile, an
  address with failures inside one window (5 minutes) and no success may try again exactly while it has
  fewer of them than the limit (5), or when the lockout (15 minutes) since the last one is over. While it
  is locked out, a login from it gets no session, whatever password it carries, and is recorded in the
  audit log.
\<close>

theorem login_lockout:
  assumes "ll_byIP l ip = None" "LoginOk ip \<notin> set es" "0 < ll_maxFailures l" "0 < now"
    and "\<forall>t \<in> set (failTimes ip es). time_sub t (hd (failTimes ip es)) \<le> ll_window l"
    and "sr_limiter s = foldl limApply l es" "aw_now w = now" "admin_clientIP (aq_http rq) s = ip"
  shows "(ll_Allowed now ip (sr_limiter s) \<longleftrightarrow>
      int (length (failTimes ip es)) < ll_maxFailures l \<or> last (failTimes ip es) + ll_lockout l < now) \<and>
    (\<not> ll_Allowed now ip (sr_limiter s) \<longrightarrow>
      (\<forall>c \<in> set (ar_cookies (fst (handleLoginSubmit lib w rq (s, fs)))). ck_name c \<noteq> sessionCookieName) \<and>
      sr_store (fst (snd (handleLoginSubmit lib w rq (s, fs)))) = sr_store s \<and>
      sr_limiter (fst (snd (handleLoginSubmit lib w rq (s, fs)))) = sr_limiter s \<and>
      last (al_entries (sr_audit (fst (snd (handleLoginSubmit lib w rq (s, fs)))))) =
        \<lparr>au_Time = now, au_Type = AuditLoginRateLimited, au_IP = ip, au_Message = ''login attempt blocked by rate limiting''\<rparr>)"
proof -
  have "ll_Allowed now ip (sr_limiter s) \<longleftrightarrow>
      int (length (failTimes ip es)) < ll_maxFailures l \<or> last (failTimes ip es) + ll_lockout l < now"
    using limRun_state [OF assms(1,2,5,3)] assms(3,4) by (auto simp: ll_Allowed_def assms(6) Let_def)
  moreover have "\<forall>c \<in> set (csrfToken w rq s). ck_name c \<noteq> sessionCookieName"
    by (auto simp: csrfToken_def newCSRFToken_def split: option.splits)
  moreover have "last (al_entries (sr_audit (fst (sr_record lib w ty i m (s, fs))))) =
      \<lparr>au_Time = aw_now w, au_Type = ty, au_IP = i, au_Message = m\<rparr>" for ty i m
    by (simp add: sr_record_def al_Record_def Let_def maxAuditEntries_def last_drop)
  ultimately show ?thesis using assms(7,8) by (auto simp: handleLoginSubmit_def Let_def)
qed

definition demo_admin :: AdminServer where
  "demo_admin = newAdminServer \<lparr>ad_path = ''/s'', ad_s = \<lparr>am_PasswordHash = ''hold'', am_SessionSecret = ''k''\<rparr>\<rparr>
     \<lparr>al_path = ''/a'', al_entries = []\<rparr> True False"

definition demo_request_from :: "string \<Rightarrow> Request" where
  "demo_request_from addr = \<lparr>rq_Method = ''POST'', rq_Host = [], rq_Path = ''/login'', rq_Header = Map.empty, rq_Query = Map.empty,
     rq_Cookies = [(''lb_admin_csrf'', ''c'')], rq_RemoteAddr = addr, rq_HasBody = True, rq_ContentLength = 0,
     rq_Proto = ''HTTP/1.1'', rq_MaxBytes = None\<rparr>"

definition demo_lib :: adminLib where
  "demo_lib = \<lparr>lib_sign = (\<lambda>secret expiry. secret @ FormatInt expiry), lib_verify = (\<lambda>h q. h = CHR ''h'' # q), lib_fmtTime = FormatInt\<rparr>"

definition demo_crypto :: cryptoEnv where
  "demo_crypto = \<lparr>ce_password = Some ''p'', ce_secret = Some ''fresh'', ce_hash = (\<lambda>p. Some (CHR ''h'' # p)), ce_token = ''c''\<rparr>"

definition demo_world :: "gotime \<Rightarrow> adminWorld" where
  "demo_world now = \<lparr>aw_now = now, aw_crypto = demo_crypto, aw_persist = quiet_env ''/s.tmp'', aw_auditPersist = quiet_env ''/a.tmp''\<rparr>"

theorem login_lockout_witness:
  "let s = demo_admin\<lparr>sr_limiter := foldl limApply (sr_limiter demo_admin) (map (\<lambda>t. LoginFail t ''10.0.0.1'') [1, 2, 3, 4, 5])\<rparr>;
       rq = \<lparr>aq_http = demo_request_from ''10.0.0.1:999'', aq_form = (\<lambda>_. ''old'')\<rparr>
   in \<not> ll_Allowed 6 ''10.0.0.1'' (sr_limiter s) \<and>
      (\<forall>c \<in> set (ar_cookies (fst (handleLoginSubmit demo_lib (demo_world 6) rq (s, Map.empty)))). ck_name c \<noteq> sessionCookieName)"
proof -
  define es where "es = map (\<lambda>t. LoginFail t ''10.0.0.1'') [1, 2, 3, 4, 5]"
  define s where "s = demo_admin\<lparr>sr_limiter := foldl limApply (sr_limiter demo_admin) es\<rparr>"
  define rq where "rq = \<lparr>aq_http = demo_request_from ''10.0.0.1:999'', aq_form = (\<lambda>_ :: string. ''old'')\<rparr>"
  have l: "sr_limiter demo_admin = newLoginLimiter 5 (5 * minute) (15 * minute)" by (simp add: demo_admin_def newAdminServer_def)
  have ts: "failTimes ''10.0.0.1'' es = [1, 2, 3, 4, 5]" by (simp add: failTimes_def es_def)
  have h: "SplitHostPort ''10.0.0.1:999'' = Some (''10.0.0.1'', ''999'')" by code_simp
  have ip: "admin_clientIP (aq_http rq) s = ''10.0.0.1''"
    by (simp add: admin_clientIP_def rq_def demo_request_from_def s_def demo_admin_def newAdminServer_def h)
  have "\<forall>t \<in> set (failTimes ''10.0.0.1'' es). time_sub t (hd (failTimes ''10.0.0.1'' es)) \<le> ll_window (sr_limiter demo_admin)"
    by (simp add: ts l newLoginLimiter_def time_sub_def int64_defs)
  note w = this
  have c: "ll_byIP (sr_limiter demo_admin) ''10.0.0.1'' = None" "LoginOk ''10.0.0.1'' \<notin> set es" "0 < ll_maxFailures (sr_limiter demo_admin)"
    "ll_maxFailures (sr_limiter demo_admin) = 5" "ll_lockout (sr_limiter demo_admin) = 15 * minute"
    by (simp_all add: l newLoginLimiter_def es_def)
  have s: "sr_limiter s = foldl limApply (sr_limiter demo_admin) es" "aw_now (demo_world 6) = 6" by (simp_all add: s_def demo_world_def)
  from login_lockout [OF c(1-3) _ w s ip, of demo_lib Map.empty]
  have "\<not> ll_Allowed 6 ''10.0.0.1'' (sr_limiter s) \<and>
      (\<forall>c \<in> set (ar_cookies (fst (handleLoginSubmit demo_lib (demo_world 6) rq (s, Map.empty)))). ck_name c \<noteq> sessionCookieName)"
    unfolding ts c(4,5) by simp
  then show ?thesis unfolding Let_def s_def es_def rq_def by simp
qed

section \<open>Sessions\<close>

lemma splitDot_append [simp]:
  assumes "CHR ''.'' \<notin> set p" shows "splitDot (p @ CHR ''.'' # q) = Some (p, q)"
proof -
  have "c \<noteq> CHR ''.''" if "c \<in> set p" for c using that assms by auto
  then show ?thesis by (simp add: splitDot_def takeWhile_append2 dropWhile_append2)
qed

lemma splitDot_SomeD:
  assumes "splitDot v = Some (p, q)" shows "CHR ''.'' \<notin> set p" "v = p @ CHR ''.'' # q"
proof -
  have d: "CHR ''.'' \<in> set v" and pq: "p = takeWhile (\<lambda>c. c \<noteq> CHR ''.'') v" "q = tl (dropWhile (\<lambda>c. c \<noteq> CHR ''.'') v)"
    using assms by (auto simp: splitDot_def split: if_splits)
  then have n: "dropWhile (\<lambda>c. c \<noteq> CHR ''.'') v \<noteq> []" by (auto simp: dropWhile_eq_Nil_conv)
  then have "dropWhile (\<lambda>c. c \<noteq> CHR ''.'') v = CHR ''.'' # q" using hd_dropWhile [OF n] pq(2) by (metis list.collapse)
  then show "v = p @ CHR ''.'' # q" unfolding pq(1) by (metis takeWhile_dropWhile_id)
  show "CHR ''.'' \<notin> set p" unfolding pq(1) by (auto dest: set_takeWhileD)
qed

lemma FormatInt_no_dot: "CHR ''.'' \<notin> set (FormatInt n)"
  using FormatInt_chars [of n] by (auto simp: list_all_iff is_digit_def)

lemma unix_after_session: "unixSeconds (t + sessionDuration) = unixSeconds t + 43200"
  by (simp add: unixSeconds_def sessionDuration_def)

lemma validSession_iff:
  "validSession sign now r secret \<longleftrightarrow>
     (\<exists>p e. rq_Cookie r sessionCookieName = Some (p @ CHR ''.'' # sign secret e) \<and> CHR ''.'' \<notin> set p \<and>
        ParseInt64 p = Some e \<and> unixSeconds now \<le> e)" (is "?v \<longleftrightarrow> ?e")
proof
  assume ?v
  then obtain v p e where "rq_Cookie r sessionCookieName = Some v" "splitDot v = Some (p, sign secret e)" "ParseInt64 p = Some e"
    "unixSeconds now \<le> e" by (auto simp: validSession_def split: option.splits if_splits)
  then show ?e using splitDot_SomeD by metis
qed (auto simp: validSession_def)

text \<open>
  C31. A session cookie proves what it should: a request is let through exactly when its cookie is a time that
  has not passed with that time's signature under the current secret; so the cookie of a login is accepted
  for 12 hours and no longer, and after the secret changed it is refused unless the two secrets happen to
  sign that one time alike.
\<close>

theorem session_authentic:
  "(validSession sign now r secret \<longleftrightarrow>
     (\<exists>p e. rq_Cookie r sessionCookieName = Some (p @ ''.'' @ sign secret e) \<and> CHR ''.'' \<notin> set p \<and>
        ParseInt64 p = Some e \<and> unixSeconds now \<le> e)) \<and>
   (is_int64 (unixSeconds t + 43200) \<longrightarrow> rq_Cookie r sessionCookieName = Some (ck_value (issueSession sign t secret0 secure)) \<longrightarrow>
     (validSession sign now r secret \<longleftrightarrow>
        unixSeconds now \<le> unixSeconds t + 43200 \<and> sign secret (unixSeconds t + 43200) = sign secret0 (unixSeconds t + 43200)))"
proof (intro conjI impI)
  show "validSession sign now r secret \<longleftrightarrow>
     (\<exists>p e. rq_Cookie r sessionCookieName = Some (p @ ''.'' @ sign secret e) \<and> CHR ''.'' \<notin> set p \<and>
        ParseInt64 p = Some e \<and> unixSeconds now \<le> e)" by (simp add: validSession_iff)
  let ?e = "unixSeconds t + 43200"
  assume "is_int64 ?e" "rq_Cookie r sessionCookieName = Some (ck_value (issueSession sign t secret0 secure))"
  then show "validSession sign now r secret \<longleftrightarrow> unixSeconds now \<le> ?e \<and> sign secret ?e = sign secret0 ?e"
    by (auto simp: validSession_def issueSession_def unix_after_session FormatInt_no_dot Let_def)
qed

theorem session_authentic_witness:
  "let t = 63900000000 * second; r = (demo_request_from [])\<lparr>rq_Cookies := [(sessionCookieName, ck_value (issueSession (lib_sign demo_lib) t ''k'' True))]\<rparr>
   in validSession (lib_sign demo_lib) (t + 9 * second) r ''k'' \<and> \<not> validSession (lib_sign demo_lib) (t + 43201 * second) r ''k'' \<and>
      \<not> validSession (lib_sign demo_lib) t r ''fresh''"
proof -
  define t :: gotime where "t = 63900000000 * second"
  define r where "r = (demo_request_from [])\<lparr>rq_Cookies := [(sessionCookieName, ck_value (issueSession (lib_sign demo_lib) t ''k'' True))]\<rparr>"
  have e: "unixSeconds t = 1764403200" "unixSeconds (t + 9 * second) = 1764403209" "unixSeconds (t + 43201 * second) = 1764446401"
    by (simp_all add: unixSeconds_def t_def)
  have i: "is_int64 (unixSeconds t + 43200)" by (simp add: e int64_defs)
  have c: "rq_Cookie r sessionCookieName = Some (ck_value (issueSession (lib_sign demo_lib) t ''k'' True))"
    by (simp add: rq_Cookie_def r_def)
  have v: "validSession (lib_sign demo_lib) now r secret \<longleftrightarrow> unixSeconds now \<le> unixSeconds t + 43200 \<and>
      lib_sign demo_lib secret (unixSeconds t + 43200) = lib_sign demo_lib ''k'' (unixSeconds t + 43200)" for now secret
    using session_authentic [of "lib_sign demo_lib" now r secret t "''k''" True] i c by blast
  show ?thesis unfolding Let_def t_def [symmetric] r_def [symmetric] v e by (simp add: demo_lib_def)
qed

section \<open>The password\<close>

lemma adminFoldNames [simp]:
  "foldName ''passwordHash'' = ''passwordhash''" "foldName ''sessionSecret'' = ''sessionsecret''"
  "foldName ''time'' = ''time''" "foldName ''type'' = ''type''" "foldName ''ip'' = ''ip''" "foldName ''message'' = ''message''"
  by code_simp+

lemma secrets_roundtrip [simp]: "dSecrets (jSecrets s) = Some s"
  by (simp add: dSecrets_def jSecrets_def dSecretsField_def dObj_append)

lemma SetPassword_ok:
  assumes "SetPassword ce env p (st, fs) = (None, st1, fs1)" "pe_tmp env \<noteq> ad_path st"
  obtains hash secret where "ce_hash ce p = Some hash" "ce_secret ce = Some secret"
    "st1 = st\<lparr>ad_s := \<lparr>am_PasswordHash = hash, am_SessionSecret = secret\<rparr>\<rparr>" "fs1 (ad_path st) = Some (Doc (jSecrets (ad_s st1)))"
proof -
  obtain hash secret where h: "ce_hash ce p = Some hash" "ce_secret ce = Some secret"
    using assms(1) by (auto simp: SetPassword_def split: option.splits)
  let ?st = "st\<lparr>ad_s := \<lparr>am_PasswordHash = hash, am_SessionSecret = secret\<rparr>\<rparr>"
  have "st1 = ?st" and p: "ad_persist env ?st fs = (None, fs1)"
    using assms(1) h by (auto simp: SetPassword_def Let_def split: prod.splits)
  moreover have "ad_path st \<noteq> []" "persistFile env (ad_path st) (jSecrets (ad_s ?st)) fs = (None, fs1)"
    using p by (auto simp: ad_persist_def split: if_splits)
  ultimately show thesis using that h persistFile_ok [OF _ assms(2)] by blast
qed

lemma record_file:
  assumes "al_path (sr_audit s) \<noteq> path" "pe_tmp (aw_auditPersist w) \<noteq> path"
  shows "snd (sr_record lib w ty ip m (s, fs)) path = fs path"
proof -
  let ?a = "fst (al_Record (lib_fmtTime lib) (aw_auditPersist w) (aw_now w) ty ip m (sr_audit s, fs))"
  have "snd (sr_record lib w ty ip m (s, fs)) =
      snd (persistFile (aw_auditPersist w) (al_path (sr_audit s)) (JArr (map (jAuditEntry (lib_fmtTime lib)) (al_entries ?a))) fs)"
    by (simp add: sr_record_def al_Record_def al_persist_def Let_def)
  then show ?thesis using persistFile_other [of path "al_path (sr_audit s)" "aw_auditPersist w"] assms by (metis prod.collapse)
qed



text \<open>
  When saving fails, the page says so, but the new password and secret are in force until the process
  restarts, which brings the old ones back.
\<close>

lemma password_failure_in_force:
  assumes "SetPassword ce env p (st, fs) = (Some (SaveFailed c), st1, fs1)" "pe_tmp env \<noteq> ad_path st" "ce_hash ce p = Some h"
  shows "am_PasswordHash (ad_s st1) = h \<and> fs1 (ad_path st) = fs (ad_path st)"
  using assms persistFile_err [OF assms(2)]
  by (auto simp: SetPassword_def ad_persist_def Let_def split: option.splits prod.splits if_splits)

section \<open>The audit log\<close>

lemma auditEntry_roundtrip: "parseTime (fmtTime (au_Time e)) = Some (au_Time e) \<Longrightarrow> dAuditEntry parseTime (jAuditEntry fmtTime e) = Some e"
  by (simp add: dAuditEntry_def jAuditEntry_def dAuditField_def dObj_append)

lemma Recent_rev:
  "al_Recent limit a = take (if 0 < limit then nat limit else length (al_entries a)) (rev (al_entries a))"
  by (rule nth_equalityI) (auto simp: al_Recent_def rev_nth Let_def split: if_splits)

text \<open>
  The audit log keeps the last 500 events: an event is always recorded in memory, as the newest one, with
  at most 500 kept; \<open>Recent\<close> shows the newest first and as many as asked for; and when writing the file did not
  fail, a process that starts on the file has exactly the log that was in memory. Times are assumed to
  print and parse back.
\<close>

theorem audit_log:
  assumes "length (al_entries a) \<le> 500" "al_Record fmtTime env now ty ip msg (a, fs) = (a1, fs1)"
  shows "al_entries a1 = drop (length (al_entries a) - 499) (al_entries a) @ [\<lparr>au_Time = now, au_Type = ty, au_IP = ip, au_Message = msg\<rparr>] \<and>
    length (al_entries a1) \<le> 500 \<and>
    al_Recent limit a1 = take (if 0 < limit then nat limit else 500) (rev (al_entries a1)) \<and>
    ((\<forall>e \<in> set (al_entries a1). parseTime (fmtTime (au_Time e)) = Some (au_Time e)) \<longrightarrow> al_path a \<noteq> [] \<longrightarrow> pe_tmp env \<noteq> al_path a \<longrightarrow>
     fst (al_persist fmtTime env a1 (al_entries a1) fs) = None \<longrightarrow> OpenAuditLog parseTime (al_path a) fs1 = a1)"
proof -
  let ?es = "al_entries a @ [\<lparr>au_Time = now, au_Type = ty, au_IP = ip, au_Message = msg\<rparr>]"
  have a1: "a1 = a\<lparr>al_entries := if length ?es > 500 then drop (length ?es - 500) ?es else ?es\<rparr>"
    and fs1: "fs1 = snd (al_persist fmtTime env a1 (al_entries a1) fs)"
    using assms(2) by (auto simp: al_Record_def maxAuditEntries_def Let_def)
  have e: "al_entries a1 = drop (length (al_entries a) - 499) (al_entries a) @ [\<lparr>au_Time = now, au_Type = ty, au_IP = ip, au_Message = msg\<rparr>]"
    using assms(1) by (auto simp: a1)
  then have l: "length (al_entries a1) \<le> 500" using assms(1) by simp
  have "OpenAuditLog parseTime (al_path a) fs1 = a1" if "\<forall>e \<in> set (al_entries a1). parseTime (fmtTime (au_Time e)) = Some (au_Time e)" "al_path a \<noteq> []" "pe_tmp env \<noteq> al_path a"
    "fst (al_persist fmtTime env a1 (al_entries a1) fs) = None"
  proof -
    have p: "al_path a1 = al_path a" by (simp add: a1)
    then have "persistFile env (al_path a) (JArr (map (jAuditEntry fmtTime) (al_entries a1))) fs = (None, fs1)"
      using that(4) fs1 by (simp add: al_persist_def prod_eq_iff)
    from persistFile_ok [OF that(2,3) this] have "fs1 (al_path a) = Some (Doc (JArr (map (jAuditEntry fmtTime) (al_entries a1))))" .
    moreover have "dArr (dAuditEntry parseTime) (JArr (map (jAuditEntry fmtTime) (al_entries a1))) = Some (al_entries a1)"
      using that(1) by (intro dArr_roundtrip auditEntry_roundtrip) simp
    ultimately show ?thesis using p by (cases a1) (simp add: OpenAuditLog_def)
  qed
  moreover have "al_Recent limit a1 = take (if 0 < limit then nat limit else 500) (rev (al_entries a1))" using l by (simp add: Recent_rev)
  ultimately show ?thesis using e l by blast
qed

theorem audit_log_witness:
  "let (a1, fs1) = al_Record FormatInt (quiet_env ''/t'') 7 AuditLogout ''ip'' ''signed out'' (\<lparr>al_path = ''/a'', al_entries = []\<rparr>, Map.empty)
   in map au_Message (al_Recent 1 a1) = [''signed out''] \<and> OpenAuditLog ParseInt64 ''/a'' fs1 = a1"
proof -
  let ?a = "\<lparr>al_path = ''/a'', al_entries = []\<rparr>"
  obtain a1 fs1 where R: "al_Record FormatInt (quiet_env ''/t'') 7 AuditLogout ''ip'' ''signed out'' (?a, Map.empty) = (a1, fs1)"
    by (metis prod.collapse)
  have l: "length (al_entries ?a) \<le> 500" by simp
  note c = audit_log [OF l R, of 1 ParseInt64]
  have e: "al_entries a1 = [\<lparr>au_Time = 7, au_Type = AuditLogout, au_IP = ''ip'', au_Message = ''signed out''\<rparr>]" using c by simp
  have "fst (al_persist FormatInt (quiet_env ''/t'') a1 (al_entries a1) Map.empty) = None"
    by (simp add: al_persist_def persistFile_def persistTrace_def quiet_env_def Let_def)
  then have "OpenAuditLog ParseInt64 ''/a'' fs1 = a1" using c by (simp add: e quiet_env_def int64_defs)
  then show ?thesis using c e by (simp add: R)
qed

end
