(* ===== verification/Text.thy ===== *)
theory Text
  imports NetAddr
begin

text \<open>
  Text fields that hold lists: joining and splitting at a separator, trimming, and how the two undo each
  other. The routes editor, the certificate list and the group lists of the providers are read this way.
\<close>

section \<open>Pieces of a text field\<close>

text \<open>\<open>strings.Join\<close>, and the trimmed, non-empty pieces between separators.\<close>

fun Join :: "string list \<Rightarrow> string \<Rightarrow> string" where
  "Join [] sep = []"
| "Join [x] sep = x"
| "Join (x # y # xs) sep = x @ sep @ Join (y # xs) sep"

definition pieces :: "char \<Rightarrow> string \<Rightarrow> string list" where
  "pieces c s = filter (\<lambda>w. w \<noteq> []) (map TrimSpace (split_on c s))"

abbreviation "blank s \<equiv> list_all asciiSpace s"

text \<open>\<open>tight s\<close>: trimming leaves \<open>s\<close> as it is.\<close>

definition tight :: "string \<Rightarrow> bool" where
  "tight s \<longleftrightarrow> s = [] \<or> (\<not> asciiSpace (hd s) \<and> \<not> asciiSpace (last s))"

lemma TrimSpace_Nil [simp]: "TrimSpace [] = []"
  by (simp add: TrimSpace_def)

lemma TrimSpace_Cons [simp]: "asciiSpace x \<Longrightarrow> TrimSpace (x # s) = TrimSpace s"
  by (simp add: TrimSpace_def)

lemma dropWhile_all: "dropWhile p s = [] \<longleftrightarrow> list_all p s"
  by (simp add: dropWhile_eq_Nil_conv list_all_iff)

lemma TrimSpace_snoc [simp]: "asciiSpace x \<Longrightarrow> TrimSpace (s @ [x]) = TrimSpace s"
  by (cases "dropWhile asciiSpace s = []") (auto simp: TrimSpace_def dropWhile_append dest: set_dropWhileD)

lemma TrimSpace_blank_l [simp]: "blank b \<Longrightarrow> TrimSpace (b @ s) = TrimSpace s"
  by (induction b) simp_all

lemma TrimSpace_blank_r [simp]: "blank b \<Longrightarrow> TrimSpace (s @ b) = TrimSpace s"
proof (induction b rule: rev_induct)
  case (snoc x b)
  then show ?case using TrimSpace_snoc [of x "s @ b"] by (simp del: TrimSpace_snoc)
qed simp

lemma TrimSpace_blank [simp]: "blank s \<Longrightarrow> TrimSpace s = []"
  using TrimSpace_blank_l [of s "[]"] by simp

lemma TrimSpace_tight [simp]: "tight s \<Longrightarrow> TrimSpace s = s"
proof -
  assume t: "tight s"
  then have "dropWhile asciiSpace s = s" by (cases s) (auto simp: tight_def)
  moreover have "dropWhile asciiSpace (rev s) = rev s" using t by (cases s rule: rev_cases) (auto simp: tight_def)
  ultimately show ?thesis by (simp add: TrimSpace_def)
qed

lemma trim_split: "\<exists>a b. s = a @ TrimSpace s @ b \<and> blank a \<and> blank b"
proof (intro exI conjI)
  let ?t = "dropWhile asciiSpace s"
  show "s = takeWhile asciiSpace s @ TrimSpace s @ rev (takeWhile asciiSpace (rev ?t))"
    using takeWhile_dropWhile_id [of asciiSpace s] takeWhile_dropWhile_id [of asciiSpace "rev ?t"]
    by (metis TrimSpace_def rev_append rev_rev_ident)
  show "blank (takeWhile asciiSpace s)" "blank (rev (takeWhile asciiSpace (rev ?t)))"
    by (auto simp: list_all_iff dest: set_takeWhileD)
qed

lemma tight_TrimSpace [simp]: "tight (TrimSpace s)"
proof (cases "TrimSpace s = []")
  case False
  have r: "\<not> asciiSpace (hd (dropWhile asciiSpace u))" if "dropWhile asciiSpace u \<noteq> []" for u
    using that by (simp add: hd_dropWhile)
  let ?t = "dropWhile asciiSpace s"
  have t: "TrimSpace s = rev (dropWhile asciiSpace (rev ?t))" by (simp add: TrimSpace_def)
  have n: "dropWhile asciiSpace (rev ?t) \<noteq> []" using False t by simp
  then have n2: "?t \<noteq> []" by (metis dropWhile.simps(1) rev.simps(1))
  have "\<not> asciiSpace (last (TrimSpace s))" using r [OF n] n by (simp add: t last_rev)
  moreover obtain b where "?t = TrimSpace s @ b"
    using takeWhile_dropWhile_id [of asciiSpace "rev ?t"] t by (metis rev_append rev_rev_ident)
  then have "hd (TrimSpace s) = hd ?t" using False by (metis hd_append)
  ultimately show ?thesis using r [OF n2] by (simp add: tight_def)
qed (simp add: tight_def)

lemma set_TrimSpace: "set (TrimSpace s) \<subseteq> set s"
  using trim_split [of s] by (metis Un_upper1 Un_upper2 order_trans set_append)

lemma in_TrimSpace [dest]: "c \<in> set (TrimSpace s) \<Longrightarrow> c \<in> set s"
  using set_TrimSpace by blast

subsection \<open>Splitting\<close>

lemma split_on_append: "split_on c (a @ c # b) = split_on c a @ split_on c b"
  by (induction a) (auto split: list.split)

lemma split_on_single: "c \<notin> set s \<Longrightarrow> split_on c s = [s]"
  by (induction s) auto

lemma split_on_no: "w \<in> set (split_on c s) \<Longrightarrow> c \<notin> set w \<and> set w \<subseteq> set s"
proof (induction s arbitrary: w)
  case (Cons x s)
  obtain u us where u: "split_on c s = u # us" using split_on_ne by (metis list.exhaust)
  with Cons.IH [of u] Cons.IH [of w] Cons.prems show ?case by (auto split: if_splits)
qed simp

lemma pieces_append: "pieces c (a @ c # b) = pieces c a @ pieces c b"
  by (simp add: pieces_def split_on_append)

lemma pieces_single: "c \<notin> set s \<Longrightarrow> pieces c s = (if TrimSpace s = [] then [] else [TrimSpace s])"
  by (simp add: pieces_def split_on_single)

lemma pieces_Nil [simp]: "pieces c [] = []"
  by (simp add: pieces_def)

lemma pieces_Cons: "asciiSpace x \<Longrightarrow> pieces c (x # s) = pieces c s"
proof (cases "x = c")
  case False
  assume "asciiSpace x"
  moreover obtain u us where "split_on c s = u # us" using split_on_ne by (metis list.exhaust)
  ultimately show ?thesis using False by (simp add: pieces_def)
qed (simp add: pieces_def)

lemma pieces_blank_l: "blank a \<Longrightarrow> pieces c (a @ s) = pieces c s"
  by (induction a) (simp_all add: pieces_Cons)

lemma split_on_snoc: "x \<noteq> c \<Longrightarrow> split_on c (s @ [x]) = butlast (split_on c s) @ [last (split_on c s) @ [x]]"
proof (induction s)
  case (Cons y s)
  obtain u us where "split_on c s = u # us" using split_on_ne by (metis list.exhaust)
  then show ?case using Cons by (cases us) auto
qed simp

lemma pieces_snoc: "asciiSpace x \<Longrightarrow> pieces c (s @ [x]) = pieces c s"
proof (cases "x = c")
  case True
  then show ?thesis using pieces_append [of c s "[]"] by simp
next
  case False
  assume "asciiSpace x"
  moreover obtain us u where "split_on c s = us @ [u]" using split_on_ne by (metis rev_exhaust)
  ultimately show ?thesis using False by (simp add: pieces_def split_on_snoc)
qed

lemma pieces_blank_r: "blank b \<Longrightarrow> pieces c (s @ b) = pieces c s"
proof (induction b rule: rev_induct)
  case (snoc x b)
  then show ?case using pieces_snoc [of x c "s @ b"] by simp
qed simp

lemma pieces_TrimSpace [simp]: "pieces c (TrimSpace s) = pieces c s"
proof -
  obtain a b where s: "s = a @ TrimSpace s @ b" "blank a" "blank b" using trim_split by blast
  then have "pieces c s = pieces c (a @ TrimSpace s @ b)" by simp
  then show ?thesis using s(2,3) by (simp add: pieces_blank_l pieces_blank_r)
qed

text \<open>Joining pieces with a separator that is \<open>c\<close> between blanks, and taking them apart again.\<close>

lemma pieces_Join:
  assumes "blank a" "blank b" "list_all (\<lambda>x. c \<notin> set x) xs"
  shows "pieces c (Join xs (a @ c # b)) = filter (\<lambda>w. w \<noteq> []) (map TrimSpace xs)"
  using assms(3)
proof (induction xs "a @ c # b" rule: Join.induct)
  case (3 x y xs)
  have "pieces c (Join (x # y # xs) (a @ c # b)) = pieces c ((x @ a) @ c # (b @ Join (y # xs) (a @ c # b)))" by simp
  also have "\<dots> = pieces c x @ pieces c (Join (y # xs) (a @ c # b))"
    by (simp only: pieces_append pieces_blank_l [OF assms(2)] pieces_blank_r [OF assms(1)])
  finally show ?case using 3 by (simp add: pieces_single)
qed (simp_all add: pieces_single)

lemma pieces_in: "w \<in> set (pieces c s) \<Longrightarrow> w \<noteq> [] \<and> tight w \<and> c \<notin> set w \<and> set w \<subseteq> set s"
  using split_on_no set_TrimSpace by (fastforce simp: pieces_def)

section \<open>Lists of entries\<close>

text \<open>
  The loop the list-valued settings share: the value is split at commas, empty entries are skipped, and
  the first entry that cannot be read ends it with an error.
\<close>

fun parseEntries :: "(string \<Rightarrow> 'e + 'a) \<Rightarrow> string list \<Rightarrow> 'a list \<Rightarrow> 'e + 'a list" where
  "parseEntries f [] acc = Inr acc"
| "parseEntries f (e # es) acc =
     (let entry = TrimSpace e
      in if entry = [] then parseEntries f es acc
         else case f entry of Inl err \<Rightarrow> Inl err | Inr x \<Rightarrow> parseEntries f es (acc @ [x]))"

definition parseSpec :: "(string \<Rightarrow> 'e + 'a) \<Rightarrow> string \<Rightarrow> 'e + 'a list" where
  "parseSpec f spec =
     (let spec = TrimSpace spec in if spec = [] then Inr [] else parseEntries f (split_on (CHR '','') spec) [])"

fun all_Inr :: "('a \<Rightarrow> 'e + 'b) \<Rightarrow> 'a list \<Rightarrow> 'e + 'b list" where
  "all_Inr f [] = Inr []"
| "all_Inr f (x # xs) =
     (case f x of Inl e \<Rightarrow> Inl e | Inr y \<Rightarrow> (case all_Inr f xs of Inl e \<Rightarrow> Inl e | Inr ys \<Rightarrow> Inr (y # ys)))"

lemma parseEntries_acc:
  "parseEntries f es acc =
     (case all_Inr f (filter (\<lambda>w. w \<noteq> []) (map TrimSpace es)) of Inl e \<Rightarrow> Inl e | Inr xs \<Rightarrow> Inr (acc @ xs))"
  by (induction es arbitrary: acc) (auto simp: Let_def split: sum.splits)

lemma parseSpec_pieces: "parseSpec f spec = all_Inr f (pieces (CHR '','') spec)"
proof -
  have "parseSpec f spec = all_Inr f (pieces (CHR '','') (TrimSpace spec))"
    by (cases "TrimSpace spec = []")
       (simp_all del: pieces_TrimSpace add: parseSpec_def Let_def parseEntries_acc pieces_def [symmetric] split: sum.split)
  then show ?thesis by simp
qed

lemma all_Inr_map: "list_all (\<lambda>x. f (g x) = Inr x) xs \<Longrightarrow> all_Inr f (map g xs) = Inr xs"
  by (induction xs) auto

lemma parseSpec_Join:
  assumes "list_all (\<lambda>x. f (g x) = Inr x \<and> g x \<noteq> [] \<and> tight (g x) \<and> CHR '','' \<notin> set (g x)) xs"
  shows "parseSpec f (Join (map g xs) '','') = Inr xs"
proof -
  have "pieces (CHR '','') (Join (map g xs) ([] @ CHR '','' # [])) = filter (\<lambda>w. w \<noteq> []) (map TrimSpace (map g xs))"
    using assms by (intro pieces_Join) (auto simp: list_all_iff)
  also have "\<dots> = map g xs" using assms by (induction xs) auto
  finally show ?thesis using assms by (simp add: parseSpec_pieces all_Inr_map list_all_iff)
qed

section \<open>Searching\<close>

lemma takeWhile_no: "c \<notin> set (takeWhile (\<lambda>x. x \<noteq> c) s)"
  by (auto dest: set_takeWhileD)

lemma takeWhile_stop: "c \<notin> set a \<Longrightarrow> takeWhile (\<lambda>x. x \<noteq> c) (a @ c # b) = a"
  by (induction a) auto

lemma indexOf_append: "c \<notin> set a \<Longrightarrow> indexOf c (a @ c # b) = Some (length a)"
  by (simp add: indexOf_def takeWhile_stop)

lemma indexOf_None: "c \<notin> set s \<Longrightarrow> indexOf c s = None"
  by (simp add: indexOf_def)

lemma lastIndex_append: "c \<notin> set b \<Longrightarrow> lastIndex c (a @ c # b) = Some (length a)"
  by (simp add: lastIndex_def takeWhile_stop)

lemma indexOf_no: "indexOf c s = Some i \<Longrightarrow> c \<notin> set (take i s) \<and> i < length s"
proof -
  assume "indexOf c s = Some i"
  then obtain a b where "s = a @ c # b" "c \<notin> set a" "i = length a"
    by (metis indexOf_None indexOf_append option.distinct(1) option.inject split_list_first)
  then show ?thesis by simp
qed

lemmas search = indexOf_append indexOf_None lastIndex_append

end
