(* ===== verification/RouteForm.thy ===== *)
theory RouteForm
  imports Text RouteStore
begin

text \<open>
  The routes editor of the admin interface (\<open>internal/admin/handlers.go\<close>): how a rule is written into the
  text fields of a row (\<open>formatSplit\<close>, \<open>formatRewrite\<close>, \<open>formatAuth\<close>, \<open>formatMatch\<close>, \<open>routesToRows\<close>), how the submitted
  fields are read (\<open>parseSplit\<close>, \<open>parseRewrite\<close>, \<open>parseAuth\<close>, \<open>parseMatch\<close>, the loop of \<open>handleRoutesSubmit\<close>), and
  which rules survive the way there and back.

  Strings are bytes and white space is ASCII, as in \<open>NetAddr\<close>. A Go map of headers is its association list
  sorted by name. An absent slice and an empty one are both the empty list.

  \<open>post\<close> writes the rows as the fields the handler reads: one value per row and field under the names of the
  template, the line ends of a text area as CR LF, and the target group as a select, whose value is the empty
  first option when the group is not one of those the provider lists. The columns \<open>redirect\<close> and \<open>ip_acl\<close> of the
  template name fields that \<open>routeRow\<close> does not have and the handler does not read; they are left out. Because of
  them the template fails on every table with a rule (\<open>pages_render\<close> in \<open>AdminPages\<close>), so no browser posts these
  fields today: the theorems are about the notation of \<open>handlers.go\<close>, the writing functions against the reading
  ones, and say what a repaired template would keep.
\<close>

section \<open>The fields of a rule\<close>

abbreviation "nl \<equiv> CHR 0x0A"

definition valueAt :: "string list \<Rightarrow> nat \<Rightarrow> string" where
  "valueAt s i = (if i \<ge> length s then [] else TrimSpace (s ! i))"

definition splitMethods :: "string \<Rightarrow> string list" where
  "splitMethods s =
     (if s = [] then []
      else filter (\<lambda>p. p \<noteq> []) (map (\<lambda>p. map to_upper (TrimSpace p)) (split_on (CHR '','') s)))"

definition splitPart :: "string \<Rightarrow> cpRouteTarget list" where
  "splitPart part =
     (if part = [] then []
      else
        (case lastIndex (CHR '':'') part of
           None \<Rightarrow> [\<lparr>crt_Group = part, crt_Weight = 1\<rparr>]
         | Some i \<Rightarrow>
             (let group = TrimSpace (take i part)
              in case ParseInt64 (TrimSpace (drop (i + 1) part)) of
                   None \<Rightarrow> []
                 | Some w \<Rightarrow>
                     if w > 0 \<and> group \<noteq> [] then [\<lparr>crt_Group = group, crt_Weight = min w max_int32\<rparr>] else [])))"

definition parseSplit :: "string \<Rightarrow> cpRouteTarget list" where
  "parseSplit s =
     (let s = TrimSpace s
      in if s = [] then [] else concat (map (\<lambda>part. splitPart (TrimSpace part)) (split_on (CHR '','') s)))"

definition formatSplit :: "cpRouteTarget list \<Rightarrow> string" where
  "formatSplit targets =
     Join (map (\<lambda>t. crt_Group t @ '':'' @ itoa (nat (if crt_Weight t \<le> 0 then 1 else crt_Weight t))) targets) '', ''"

fun rewriteLine :: "string \<Rightarrow> (string \<times> string) list \<times> string list \<Rightarrow> (string \<times> string) list \<times> string list" where
  "rewriteLine line (st, remove) =
     (if line = [] then (st, remove)
      else if HasPrefix line ''-'' then
        (let name = TrimSpace (drop 1 line) in if name \<noteq> [] then (st, remove @ [name]) else (st, remove))
      else
        (case indexOf (CHR '':'') line of
           None \<Rightarrow> (st, remove)
         | Some i \<Rightarrow>
             if i > 0 then
               (let name = TrimSpace (take i line); val = TrimSpace (drop (i + 1) line)
                in if name \<noteq> [] then (AList.update name val st, remove) else (st, remove))
             else (st, remove)))"

definition parseRewrite :: "string \<Rightarrow> string \<Rightarrow> cpRouteRewrite option" where
  "parseRewrite stripPrefix reqHeaders =
     (let stripPrefix = TrimSpace stripPrefix;
          (st, remove) = fold rewriteLine (map TrimSpace (split_on nl reqHeaders)) ([], [])
      in if stripPrefix = [] \<and> st = [] \<and> remove = [] then None
         else Some (zeroCpRewrite\<lparr>crw_StripPathPrefix := stripPrefix, crw_SetRequestHeaders := sort_key fst st,
                      crw_RemoveRequestHeaders := remove\<rparr>))"

definition formatRewrite :: "cpRouteRewrite option \<Rightarrow> string \<times> string" where
  "formatRewrite rw =
     (case rw of
        None \<Rightarrow> ([], [])
      | Some rw \<Rightarrow>
          (crw_StripPathPrefix rw,
           Join (map (\<lambda>(name, v). name @ '': '' @ v) (sort_key fst (crw_SetRequestHeaders rw)) @
                 map (\<lambda>name. ''-'' @ name) (crw_RemoveRequestHeaders rw)) [nl]))"

definition parseAuth :: "string \<Rightarrow> cpRouteAuth option" where
  "parseAuth s =
     (let s = TrimSpace s
      in if s = [] then None
         else if HasPrefix s ''apikey:'' then
           (let keys = filter (\<lambda>k. k \<noteq> []) (map TrimSpace (split_on (CHR '','') (drop 7 s)))
            in if keys = [] then None else Some (zeroCpAuth\<lparr>cra_Mode := ''api_key'', cra_APIKeys := keys\<rparr>))
         else if HasPrefix s ''jwt:hmac:'' then
           (let parts = split_on (CHR '':'') (drop 9 s)
            in if TrimSpace (hd parts) = [] then None
               else Some (zeroCpAuth\<lparr>cra_Mode := ''jwt'', cra_HMACSecret := TrimSpace (hd parts),
                      cra_ExpectedIssuer := (if length parts \<ge> 2 then TrimSpace (parts ! 1) else []),
                      cra_ExpectedAudience := (if length parts \<ge> 3 then TrimSpace (parts ! 2) else [])\<rparr>))
         else None)"

definition formatAuth :: "cpRouteAuth option \<Rightarrow> string" where
  "formatAuth a =
     (case a of
        None \<Rightarrow> []
      | Some a \<Rightarrow>
          if cra_Mode a = [] \<or> cra_Mode a = ''none'' then []
          else if cra_Mode a = ''api_key'' then ''apikey:'' @ Join (cra_APIKeys a) '',''
          else if cra_Mode a = ''jwt'' then
            if cra_RSAPublicKeyPEM a \<noteq> [] then ''jwt:rsa(configured)''
            else ''jwt:hmac:'' @ cra_HMACSecret a @
              (if cra_ExpectedIssuer a \<noteq> [] \<or> cra_ExpectedAudience a \<noteq> []
               then '':'' @ cra_ExpectedIssuer a @ '':'' @ cra_ExpectedAudience a else [])
          else [])"

definition splitNameValue :: "string \<Rightarrow> char \<Rightarrow> string \<times> string" where
  "splitNameValue s sep =
     (case indexOf sep s of
        Some i \<Rightarrow> (TrimSpace (take i s), TrimSpace (drop (i + 1) s))
      | None \<Rightarrow> (TrimSpace s, []))"

fun matchLine :: "string \<Rightarrow> cpHeaderMatch list \<times> cpQueryMatch list \<Rightarrow> cpHeaderMatch list \<times> cpQueryMatch list" where
  "matchLine line (hs, qs) =
     (if line = [] then (hs, qs)
      else if HasPrefix line ''query:'' then
        (let (name, val) = splitNameValue (drop 6 line) (CHR ''='')
         in if name \<noteq> [] then (hs, qs @ [\<lparr>cqm_Name = name, cqm_Value = val\<rparr>]) else (hs, qs))
      else
        (let (name, val) = splitNameValue (if HasPrefix line ''header:'' then drop 7 line else line) (CHR '':'')
         in if name \<noteq> [] then (hs @ [\<lparr>chm_Name = name, chm_Value = val\<rparr>], qs) else (hs, qs)))"

definition parseMatch :: "string \<Rightarrow> cpHeaderMatch list \<times> cpQueryMatch list" where
  "parseMatch s = fold matchLine (map TrimSpace (split_on nl s)) ([], [])"

definition formatMatch :: "cpHeaderMatch list \<Rightarrow> cpQueryMatch list \<Rightarrow> string" where
  "formatMatch headers queries =
     Join (map (\<lambda>h. ''header:'' @ chm_Name h @ (if chm_Value h = [] then [] else '': '' @ chm_Value h)) headers @
           map (\<lambda>q. ''query:'' @ cqm_Name q @ (if cqm_Value q = [] then [] else ''='' @ cqm_Value q)) queries) [nl]"

section \<open>The form\<close>

record routeRow =
  row_Order :: nat
  row_Host :: string
  row_PathPrefix :: string
  row_Methods :: string
  row_TargetGroup :: string
  row_Split :: string
  row_Name :: string
  row_StripPrefix :: string
  row_ReqHeaders :: string
  row_Auth :: string
  row_Match :: string

definition routeToRow :: "nat \<Rightarrow> cpRoute \<Rightarrow> routeRow" where
  "routeToRow i r =
     (let (strip, reqHdrs) = formatRewrite (cr_Rewrite r)
      in \<lparr>row_Order = i, row_Host = cr_Host r, row_PathPrefix = cr_PathPrefix r, row_Methods = Join (cr_Methods r) '', '',
          row_TargetGroup = cr_TargetGroup r, row_Split = formatSplit (cr_Split r), row_Name = cr_Name r,
          row_StripPrefix = strip, row_ReqHeaders = reqHdrs, row_Auth = formatAuth (cr_Auth r),
          row_Match = formatMatch (cr_HeaderMatches r) (cr_QueryMatches r)\<rparr>)"

definition routesToRows :: "cpRoute list \<Rightarrow> routeRow list" where
  "routesToRows routes = map (\<lambda>(i, r). routeToRow i r) (enumerate 0 routes)"

text \<open>\<open>strconv.Atoi\<close> with its error ignored: 0 for what is not a number, the nearest end of the range for what does not fit.\<close>

definition AtoiValue :: "string \<Rightarrow> int" where
  "AtoiValue s =
     (let (neg, ds) = (case s of [] \<Rightarrow> (False, []) | c # cs \<Rightarrow>
            if c = CHR ''-'' then (True, cs) else if c = CHR ''+'' then (False, cs) else (False, s));
          v = int (digits_value (takeWhile is_digit ds)); n = (if neg then - v else v)
      in if v < 2 ^ 64 \<and> (ds = [] \<or> \<not> list_all is_digit ds) then 0
         else max min_int64 (min max_int64 n))"

text \<open>One turn of the loop of \<open>handleRoutesSubmit\<close>, and the table it builds.\<close>

definition formRow :: "(string \<Rightarrow> string list) \<Rightarrow> nat \<Rightarrow> (int \<times> cpRoute) option" where
  "formRow form i =
     (if i < length (form ''action'') \<and> form ''action'' ! i = ''delete'' then None
      else
        (let targetGroup = valueAt (form ''target_group'') i
         in if targetGroup = [] then None
            else
              (let (headerMatches, queryMatches) = parseMatch (valueAt (form ''match'') i)
               in Some (AtoiValue (valueAt (form ''order'') i),
                    \<lparr>cr_Host = valueAt (form ''host'') i, cr_PathPrefix = valueAt (form ''path_prefix'') i,
                     cr_Methods = splitMethods (valueAt (form ''methods'') i), cr_TargetGroup = targetGroup,
                     cr_Split = parseSplit (valueAt (form ''split'') i), cr_Name = valueAt (form ''name'') i,
                     cr_Rewrite = parseRewrite (valueAt (form ''strip_prefix'') i) (valueAt (form ''req_headers'') i),
                     cr_Auth = parseAuth (valueAt (form ''auth'') i),
                     cr_HeaderMatches = headerMatches, cr_QueryMatches = queryMatches\<rparr>))))"

definition formRoutes :: "(string \<Rightarrow> string list) \<Rightarrow> cpRoute list" where
  "formRoutes form = map snd (sort_key fst (List.map_filter (formRow form) [0..<length (form ''host'')]))"

definition crlf :: "string \<Rightarrow> string" where
  "crlf s = concat (map (\<lambda>c. if c = nl then [CHR 0x0D, nl] else [c]) s)"

definition rowField :: "routeRow \<Rightarrow> string \<Rightarrow> string" where
  "rowField r name =
     (if name = ''order'' then itoa (row_Order r) else if name = ''host'' then row_Host r
      else if name = ''path_prefix'' then row_PathPrefix r else if name = ''methods'' then row_Methods r
      else if name = ''target_group'' then row_TargetGroup r else if name = ''split'' then row_Split r
      else if name = ''name'' then row_Name r else if name = ''strip_prefix'' then row_StripPrefix r
      else if name = ''req_headers'' then crlf (row_ReqHeaders r) else if name = ''auth'' then row_Auth r
      else if name = ''match'' then crlf (row_Match r) else if name = ''action'' then ''keep'' else [])"

definition selectValue :: "string list \<Rightarrow> string \<Rightarrow> string" where
  "selectValue options current = (if current \<in> set options then current else [])"

definition post :: "string list \<Rightarrow> routeRow list \<Rightarrow> string \<Rightarrow> string list" where
  "post groups rows name =
     map (\<lambda>r. if name = ''target_group'' then selectValue groups (row_TargetGroup r) else rowField r name) rows"

definition listed :: "string list \<Rightarrow> cpRoute \<Rightarrow> bool" where
  "listed groups r \<longleftrightarrow> cr_TargetGroup r \<in> set groups"

section \<open>Rules that fit the form\<close>

definition word :: "string \<Rightarrow> string \<Rightarrow> bool" where
  "word cs s \<longleftrightarrow> s \<noteq> [] \<and> tight s \<and> list_all (\<lambda>c. c \<notin> set s) cs"

definition fitMethod :: "string \<Rightarrow> bool" where
  "fitMethod m \<longleftrightarrow> word '','' m \<and> map to_upper m = m"

definition fitTarget :: "cpRouteTarget \<Rightarrow> bool" where
  "fitTarget t \<longleftrightarrow> word '','' (crt_Group t) \<and> 1 \<le> crt_Weight t \<and> crt_Weight t \<le> max_int32"

definition fitSet :: "string \<times> string \<Rightarrow> bool" where
  "fitSet = (\<lambda>(n, v). word [CHR '':'', nl] n \<and> hd n \<noteq> CHR ''-'' \<and> tight v \<and> nl \<notin> set v)"

definition fitRewrite :: "cpRouteRewrite \<Rightarrow> bool" where
  "fitRewrite rw \<longleftrightarrow>
     crw_SetResponseHeaders rw = [] \<and> crw_RemoveResponseHeaders rw = [] \<and> crw_AddPathPrefix rw = [] \<and>
     tight (crw_StripPathPrefix rw) \<and> rw \<noteq> zeroCpRewrite \<and>
     canonMap (crw_SetRequestHeaders rw) \<and> list_all fitSet (crw_SetRequestHeaders rw) \<and> list_all (word [nl]) (crw_RemoveRequestHeaders rw)"

definition fitAuth :: "cpRouteAuth \<Rightarrow> bool" where
  "fitAuth a \<longleftrightarrow>
     cra_APIKeyHeader a = [] \<and> cra_RSAPublicKeyPEM a = [] \<and>
     (cra_Mode a = ''api_key'' \<and> cra_APIKeys a \<noteq> [] \<and> list_all (word '','') (cra_APIKeys a) \<and>
        cra_HMACSecret a = [] \<and> cra_ExpectedIssuer a = [] \<and> cra_ExpectedAudience a = []
      \<or> cra_Mode a = ''jwt'' \<and> cra_APIKeys a = [] \<and> word '':'' (cra_HMACSecret a) \<and>
        tight (cra_ExpectedIssuer a) \<and> CHR '':'' \<notin> set (cra_ExpectedIssuer a) \<and>
        tight (cra_ExpectedAudience a) \<and> CHR '':'' \<notin> set (cra_ExpectedAudience a))"

definition fitHeader :: "cpHeaderMatch \<Rightarrow> bool" where
  "fitHeader h \<longleftrightarrow> word [CHR '':'', nl] (chm_Name h) \<and> tight (chm_Value h) \<and> nl \<notin> set (chm_Value h)"

definition fitQuery :: "cpQueryMatch \<Rightarrow> bool" where
  "fitQuery q \<longleftrightarrow> word [CHR ''='', nl] (cqm_Name q) \<and> tight (cqm_Value q) \<and> nl \<notin> set (cqm_Value q)"

definition fits :: "cpRoute \<Rightarrow> bool" where
  "fits r \<longleftrightarrow>
     tight (cr_Host r) \<and> tight (cr_PathPrefix r) \<and> tight (cr_Name r) \<and> tight (cr_TargetGroup r) \<and> cr_TargetGroup r \<noteq> [] \<and>
     list_all fitMethod (cr_Methods r) \<and> list_all fitTarget (cr_Split r) \<and> pred_option fitRewrite (cr_Rewrite r) \<and>
     pred_option fitAuth (cr_Auth r) \<and> list_all fitHeader (cr_HeaderMatches r) \<and> list_all fitQuery (cr_QueryMatches r)"

lemma to_upper_code: "of_char (to_upper c) = (if is_lower c then of_char c - 32 else of_char c :: nat)"
  by (auto simp: to_upper_def is_lower_def)

lemma to_upper_chars [simp]:
  "to_upper (to_upper c) = to_upper c" "asciiSpace (to_upper c) = asciiSpace c" "CHR '','' = to_upper c \<longleftrightarrow> c = CHR '',''"
  "to_upper (CHR '','') = CHR '',''"
proof -
  have e: "c = d \<longleftrightarrow> of_char c = (of_char d :: nat)" for c d :: char by simp
  show "to_upper (to_upper c) = to_upper c" by (auto simp: to_upper_def [of "to_upper c"] to_upper_code is_lower_def)
  show "asciiSpace (to_upper c) = asciiSpace c" by (auto simp: asciiSpace_def e to_upper_code is_lower_def simp del: of_char_eq_iff)
  show "CHR '','' = to_upper c \<longleftrightarrow> c = CHR '',''" by (auto simp: e to_upper_code is_lower_def simp del: of_char_eq_iff)
  show "to_upper (CHR '','') = CHR '',''" by (simp add: to_upper_def is_lower_def)
qed

lemma tight_append: "tight a \<Longrightarrow> tight b \<Longrightarrow> a \<noteq> [] \<Longrightarrow> b \<noteq> [] \<Longrightarrow> tight (a @ m @ b)"
  by (simp add: tight_def)

lemma HasPrefix_append [simp]: "HasPrefix (p @ s) p"
  by (simp add: HasPrefix_def)

lemma HasPrefix_nil [simp]: "HasPrefix s []"
  by (simp add: HasPrefix_def)

lemma HasPrefix_Cons [simp]: "HasPrefix (x # s) (y # p) \<longleftrightarrow> x = y \<and> HasPrefix s p"
  by (auto simp: HasPrefix_def)

lemma HasPrefix_empty [simp]: "HasPrefix [] (y # p) \<longleftrightarrow> False"
  by (simp add: HasPrefix_def)

lemma asciiSpace_simps [simp]:
  "asciiSpace (CHR '' '')" "asciiSpace nl" "asciiSpace (CHR 0x0D)"
  "\<not> asciiSpace (CHR '':'')" "\<not> asciiSpace (CHR ''-'')" "\<not> asciiSpace (CHR ''='')" "\<not> asciiSpace (CHR '','')"
  "\<not> asciiSpace (CHR ''a'')" "\<not> asciiSpace (CHR ''j'')" "\<not> asciiSpace (CHR ''h'')" "\<not> asciiSpace (CHR ''q'')"
  by (simp_all add: asciiSpace_def)

subsection \<open>There and back, field by field\<close>

lemma map_filter_upper:
  "filter (\<lambda>p. p \<noteq> []) (map (\<lambda>p. map to_upper (TrimSpace p)) ws) = map (map to_upper) (filter (\<lambda>w. w \<noteq> []) (map TrimSpace ws))"
  by (induction ws) simp_all

lemma splitMethods_pieces: "splitMethods s = map (map to_upper) (pieces (CHR '','') s)"
  by (simp add: splitMethods_def pieces_def map_filter_upper)

lemma concat_pieces:
  "f [] = [] \<Longrightarrow> concat (map (\<lambda>w. f (TrimSpace w)) ws) = concat (map f (filter (\<lambda>w. w \<noteq> []) (map TrimSpace ws)))"
  by (induction ws) simp_all

lemma parseSplit_pieces: "parseSplit s = concat (map splitPart (pieces (CHR '','') s))"
proof -
  have "splitPart [] = []" by (simp add: splitPart_def)
  then have "parseSplit s = concat (map splitPart (pieces (CHR '','') (TrimSpace s)))"
    by (simp add: parseSplit_def Let_def concat_pieces [of splitPart] pieces_def del: pieces_TrimSpace)
  then show ?thesis by simp
qed

lemma fold_pieces:
  "(\<And>acc. f [] acc = acc) \<Longrightarrow> fold f (map TrimSpace (split_on c s)) acc = fold f (pieces c s) acc"
proof -
  assume f: "\<And>acc. f [] acc = acc"
  have "fold f ws acc = fold f (filter (\<lambda>w. w \<noteq> []) ws) acc" for ws by (induction ws arbitrary: acc) (simp_all add: f)
  then show ?thesis by (simp add: pieces_def)
qed

lemma filter_words: "list_all (word cs) ws \<Longrightarrow> filter (\<lambda>w. w \<noteq> []) (map TrimSpace ws) = ws"
  by (induction ws) (simp_all add: word_def)

lemma pieces_words: "blank a \<Longrightarrow> blank b \<Longrightarrow> list_all (word [c]) xs \<Longrightarrow> pieces c (Join xs (a @ c # b)) = xs"
proof -
  assume a: "blank a" "blank b" "list_all (word [c]) xs"
  then have "list_all (\<lambda>x. c \<notin> set x) xs" by (simp add: list_all_iff word_def)
  with a show ?thesis by (simp add: pieces_Join filter_words)
qed

lemma methods_back: "list_all fitMethod ms \<Longrightarrow> splitMethods (Join ms '', '') = ms"
proof -
  assume a: "list_all fitMethod ms"
  then have w: "list_all (word '','') ms" by (auto simp: list_all_iff fitMethod_def)
  have u: "map (map to_upper) ms = ms" using a unfolding list_all_iff fitMethod_def by - (rule map_idI, blast)
  show ?thesis using pieces_words [of "[]" "'' ''" "CHR '',''" ms] w u by (simp add: splitMethods_pieces)
qed

lemma methods_fit: "list_all fitMethod (splitMethods s)"
proof -
  show ?thesis
    by (auto simp: list_all_iff splitMethods_pieces fitMethod_def word_def tight_def hd_map last_map dest!: pieces_in)
qed

lemma itoa_tight: "tight (itoa n)" "CHR '':'' \<notin> set (itoa n)" "CHR '','' \<notin> set (itoa n)"
proof -
  have d: "list_all is_digit (itoa n)" by simp
  have "\<not> asciiSpace c" "c \<noteq> CHR '':''" "c \<noteq> CHR '',''" if "is_digit c" for c
    using that by (auto simp: is_digit_def asciiSpace_def)
  with d show "tight (itoa n)" "CHR '':'' \<notin> set (itoa n)" "CHR '','' \<notin> set (itoa n)"
    by (auto simp: tight_def list_all_iff)
qed

lemma ParseInt64_itoa: "int n \<le> max_int64 \<Longrightarrow> ParseInt64 (itoa n) = Some (int n)"
  using ParseInt64_FormatInt [of "int n"] by (simp add: FormatInt_def int64_defs)

lemma target_back:
  assumes "fitTarget t"
  shows "splitPart (crt_Group t @ '':'' @ itoa (nat (crt_Weight t))) = [t]"
  using assms
  by (simp add: fitTarget_def word_def splitPart_def search itoa_tight ParseInt64_itoa int64_defs Let_def)

lemma split_back: "list_all fitTarget ts \<Longrightarrow> parseSplit (formatSplit ts) = ts"
proof -
  let ?f = "\<lambda>t. crt_Group t @ '':'' @ itoa (nat (if crt_Weight t \<le> 0 then 1 else crt_Weight t))"
  assume a: "list_all fitTarget ts"
  have e: "?f t = crt_Group t @ '':'' @ itoa (nat (crt_Weight t))" and w: "word '','' (?f t)" if "t \<in> set ts" for t
    using a that itoa_tight tight_append [of "crt_Group t" "itoa (nat (crt_Weight t))" "'':''"]
    by (auto simp: list_all_iff fitTarget_def word_def)
  have "parseSplit (formatSplit ts) = concat (map splitPart (map ?f ts))"
    using pieces_words [of "[]" "'' ''" "CHR '',''" "map ?f ts"] w by (simp add: parseSplit_pieces formatSplit_def list_all_iff)
  also have "map splitPart (map ?f ts) = map (\<lambda>t. [t]) ts" using a e target_back by (auto simp: list_all_iff)
  finally show ?thesis by (simp add: concat_map_singleton)
qed

lemma split_fit: "list_all fitTarget (parseSplit s)"
proof -
  have "fitTarget t" if m: "p \<in> set (pieces (CHR '','') s)" and t: "t \<in> set (splitPart p)" for p t
  proof -
    have p: "word '','' p" using pieces_in [OF m] by (simp add: word_def)
    show ?thesis
    proof (cases "lastIndex (CHR '':'') p")
      case None
      then show ?thesis using t p by (simp add: splitPart_def fitTarget_def word_def max_int32_def)
    next
      case (Some i)
      then obtain w where "t = \<lparr>crt_Group = TrimSpace (take i p), crt_Weight = min w max_int32\<rparr>" "w > 0" "TrimSpace (take i p) \<noteq> []"
        using t p by (auto simp: splitPart_def word_def Let_def split: option.splits if_splits)
      moreover have "CHR '','' \<notin> set (take i p)" using p by (auto simp: word_def dest: in_set_takeD)
      ultimately show ?thesis by (auto simp: fitTarget_def word_def max_int32_def)
    qed
  qed
  then show ?thesis by (auto simp: parseSplit_pieces list_all_iff)
qed

text \<open>Text areas: lines joined by line ends, which the browser sends as CR LF.\<close>

lemma crlf_append: "crlf (a @ b) = crlf a @ crlf b"
  by (simp add: crlf_def)

lemma crlf_line: "nl \<notin> set s \<Longrightarrow> crlf s = s"
  by (induction s) (auto simp: crlf_def)

lemma crlf_Join: "list_all (\<lambda>x. nl \<notin> set x) xs \<Longrightarrow> crlf (Join xs [nl]) = Join xs [CHR 0x0D, nl]"
proof (induction xs "[nl]" rule: Join.induct)
  case (3 x y xs)
  have "crlf (nl # s) = CHR 0x0D # nl # crlf s" for s by (simp add: crlf_def)
  with 3 show ?case by (simp add: crlf_append crlf_line)
qed (simp_all add: crlf_line)

lemma lines_back:
  "list_all (\<lambda>x. nl \<notin> set x \<and> TrimSpace x \<noteq> []) xs \<Longrightarrow> pieces nl (crlf (Join xs [nl])) = map TrimSpace xs"
proof -
  assume a: "list_all (\<lambda>x. nl \<notin> set x \<and> TrimSpace x \<noteq> []) xs"
  then have n: "list_all (\<lambda>x. nl \<notin> set x) xs" and f: "filter (\<lambda>w. w \<noteq> []) (map TrimSpace xs) = map TrimSpace xs"
    by (auto simp: list_all_iff filter_id_conv)
  show ?thesis using pieces_Join [of "[CHR 0x0D]" "[]" nl xs] n f by (simp add: crlf_Join)
qed

lemma words_back: "list_all (word [nl]) xs \<Longrightarrow> pieces nl (crlf (Join xs [nl])) = xs"
proof -
  assume "list_all (word [nl]) xs"
  moreover from this have "map TrimSpace xs = xs" by (induction xs) (simp_all add: word_def)
  ultimately show ?thesis by (simp add: lines_back list_all_iff word_def)
qed

lemma set_line: "fitSet (n, v) \<Longrightarrow> TrimSpace (n @ '': '' @ v) = n @ '':'' @ (if v = [] then [] else '' '' @ v)"
proof (cases "v = []")
  case True
  assume "fitSet (n, v)"
  then have "tight (n @ '':'')" by (auto simp: fitSet_def word_def tight_def)
  then show ?thesis using True TrimSpace_snoc [of "CHR '' ''" "n @ '':''"] by simp
next
  case False
  assume "fitSet (n, v)"
  then have "tight (n @ '': '' @ v)" using False tight_append [of n v "'': ''"] by (simp add: fitSet_def word_def)
  then show ?thesis using False by simp
qed

lemma rewriteLine_set: "fitSet (n, v) \<Longrightarrow> rewriteLine (TrimSpace (n @ '': '' @ v)) (st, rm) = (AList.update n v st, rm)"
proof -
  assume f: "fitSet (n, v)"
  then obtain x xs where n: "n = x # xs" "x \<noteq> CHR ''-''" by (cases n) (auto simp: fitSet_def word_def)
  let ?l = "n @ '':'' @ (if v = [] then [] else '' '' @ v)"
  have i: "indexOf (CHR '':'') ?l = Some (length n)" using f by (simp add: fitSet_def word_def search)
  have "\<not> HasPrefix ?l ''-''" "?l \<noteq> []" using n by simp_all
  moreover have "TrimSpace n = n" "n \<noteq> []" "TrimSpace v = v" using f by (simp_all add: fitSet_def word_def)
  ultimately show ?thesis using i unfolding set_line [OF f] by simp
qed

lemma rewriteLine_remove: "word [nl] n \<Longrightarrow> rewriteLine (''-'' @ n) (st, rm) = (st, rm @ [n])"
  by (simp add: word_def Let_def)

lemma rewriteLines_set:
  "distinct (map fst (st @ kvs)) \<Longrightarrow> list_all fitSet kvs \<Longrightarrow>
     fold rewriteLine (map (\<lambda>(n, v). TrimSpace (n @ '': '' @ v)) kvs) (st, rm) = (st @ kvs, rm)"
proof (induction kvs arbitrary: st)
  case (Cons kv kvs)
  obtain n v where kv: "kv = (n, v)" by (cases kv)
  with Cons.prems have "AList.update n v st = st @ [(n, v)]" by (intro AList_update_new) auto
  then show ?case using Cons kv rewriteLine_set [of n v st rm] by (simp del: rewriteLine.simps)
qed simp

lemma rewriteLines_remove:
  "list_all (word [nl]) ns \<Longrightarrow> fold rewriteLine (map (\<lambda>n. ''-'' @ n) ns) (st, rm) = (st, rm @ ns)"
proof (induction ns arbitrary: rm)
  case (Cons n ns)
  then show ?case using rewriteLine_remove [of n st rm] by (simp del: rewriteLine.simps)
qed simp

lemma rewrite_back:
  assumes "pred_option fitRewrite rw" "formatRewrite rw = (strip, hdrs)"
  shows "parseRewrite (TrimSpace strip) (TrimSpace (crlf hdrs)) = rw"
proof (cases rw)
  case None
  then show ?thesis using assms(2) by (simp add: formatRewrite_def parseRewrite_def crlf_def)
next
  case (Some w)
  with assms have f: "fitRewrite w" by simp
  let ?kvs = "crw_SetRequestHeaders w" and ?rm = "crw_RemoveRequestHeaders w"
  let ?lines = "map (\<lambda>(n, v). n @ '': '' @ v) ?kvs @ map (\<lambda>n. ''-'' @ n) ?rm"
  have c: "sort_key fst ?kvs = ?kvs" "distinct (map fst ?kvs)" "list_all fitSet ?kvs" "list_all (word [nl]) ?rm"
    using f by (auto simp: fitRewrite_def canonMap_def intro: sort_key_id_if_sorted)
  have o: "strip = crw_StripPathPrefix w" "hdrs = Join ?lines [nl]" 
    using assms(2) unfolding formatRewrite_def Some option.case c(1) prod.inject by blast+
  have t: "tight (''-'' @ n)" if "word [nl] n" for n using that by (auto simp: word_def tight_def)
  have s: "list_all (\<lambda>x. nl \<notin> set x \<and> TrimSpace x \<noteq> []) ?lines"
    using c(3,4) t by (auto simp: list_all_iff set_line [simplified] fitSet_def word_def)
  have "map TrimSpace ?lines = map (\<lambda>(n, v). TrimSpace (n @ '': '' @ v)) ?kvs @ map (\<lambda>n. ''-'' @ n) ?rm"
    using c(4) t by (auto simp: list_all_iff)
  then have "fold rewriteLine (pieces nl (crlf hdrs)) ([], []) = (?kvs, ?rm)"
    using rewriteLines_set [of "[]" ?kvs] rewriteLines_remove c by (simp only: o lines_back [OF s] fold_append comp_def append_Nil)
  moreover have "fold rewriteLine (map TrimSpace (split_on nl (TrimSpace (crlf hdrs)))) ([], []) = fold rewriteLine (pieces nl (crlf hdrs)) ([], [])"
    by (subst fold_pieces) (auto simp: pieces_TrimSpace)
  moreover have "w = zeroCpRewrite\<lparr>crw_StripPathPrefix := strip, crw_SetRequestHeaders := ?kvs, crw_RemoveRequestHeaders := ?rm\<rparr>"
    "w \<noteq> zeroCpRewrite" "tight strip" using f o(1) by (simp_all add: fitRewrite_def zeroCpRewrite_def)
  ultimately show ?thesis using c(1) Some by (auto simp: parseRewrite_def zeroCpRewrite_def)
qed

text \<open>What the parsers yield fits: an invariant of the loops over the lines of a text area.\<close>

lemma fold_pieces_inv:
  assumes "\<And>acc. f [] acc = acc" "P acc" "\<And>w acc. word [c] w \<Longrightarrow> P acc \<Longrightarrow> P (f w acc)"
  shows "P (fold f (map TrimSpace (split_on c s)) acc)"
proof -
  have "P (fold f ws acc)" if "list_all (word [c]) ws" for ws
    using that assms(2) by (induction ws arbitrary: acc) (simp_all add: assms(3))
  moreover have "list_all (word [c]) (pieces c s)" using pieces_in by (auto simp: list_all_iff word_def)
  ultimately show ?thesis using fold_pieces [of f, OF assms(1)] by simp
qed

lemma list_all_update: "list_all P al \<Longrightarrow> P (k, v) \<Longrightarrow> list_all P (AList.update k v al)"
  by (induction al) auto

definition fitLines :: "(string \<times> string) list \<times> string list \<Rightarrow> bool" where
  "fitLines = (\<lambda>(st, rm). distinct (map fst st) \<and> list_all fitSet st \<and> list_all (word [nl]) rm)"

lemma rewriteLine_fit:
  assumes w: "word [nl] w" and f: "fitLines (st, rm)"
  shows "fitLines (rewriteLine w (st, rm))"
proof (cases "HasPrefix w ''-''")
  case True
  have "nl \<notin> set (TrimSpace (drop 1 w))" using w by (auto simp: word_def dest!: in_set_dropD)
  then show ?thesis using True w f by (auto simp: fitLines_def word_def Let_def)
next
  case False
  obtain x xs where x: "w = x # xs" "x \<noteq> CHR ''-''" "\<not> asciiSpace x" using w False by (cases w) (auto simp: word_def tight_def)
  show ?thesis
  proof (cases "indexOf (CHR '':'') w")
    case None
    then show ?thesis using False f by simp
  next
    case (Some i)
    let ?n = "TrimSpace (take i w)" and ?v = "TrimSpace (drop (i + 1) w)"
    have "fitSet (?n, ?v)" if i: "i > 0"
    proof -
      obtain ys where ys: "take i w = x # ys" using i x(1) by (cases i) auto
      obtain a b where ab: "take i w = a @ ?n @ b" "blank a" "blank b" using trim_split by blast
      have a: "a = []" using ab(1,2) ys x(3) by (cases a) auto
      have n: "?n \<noteq> []" using ab(1,3) a ys x(3) by (cases b) auto
      then have "hd ?n = x" using ab(1) a ys by (metis append_Nil hd_append list.sel(1))
      moreover have "CHR '':'' \<notin> set ?n" using indexOf_no [OF Some] by auto
      moreover have "nl \<notin> set ?n" "nl \<notin> set ?v" using w by (auto simp: word_def dest!: in_set_takeD in_set_dropD)
      ultimately show ?thesis using n x(2) by (simp add: fitSet_def word_def)
    qed
    then show ?thesis using Some False f w
      by (auto simp: fitLines_def Let_def distinct_update list_all_update)
  qed
qed

lemma rewrite_fit: "pred_option fitRewrite (parseRewrite strip hdrs)"
proof -
  obtain st rm where r: "fold rewriteLine (map TrimSpace (split_on nl hdrs)) ([], []) = (st, rm)" by fastforce
  have "fitLines (st, rm)" unfolding r [symmetric]
  proof (rule fold_pieces_inv)
    fix acc show "rewriteLine [] acc = acc" by (cases acc) simp
  next
    fix w acc assume "word [nl] w" "fitLines acc"
    then show "fitLines (rewriteLine w acc)" by (cases acc) (simp add: rewriteLine_fit del: rewriteLine.simps)
  qed (simp add: fitLines_def)
  then have "distinct (map fst (sort_key fst st))" "list_all fitSet (sort_key fst st)" "list_all (word [nl]) rm"
    by (simp_all add: fitLines_def list_all_iff distinct_map)
  moreover have "sort_key fst st = [] \<longleftrightarrow> st = []" by (metis length_0_conv length_sort)
  ultimately show ?thesis
    by (auto simp: parseRewrite_def r Let_def fitRewrite_def zeroCpRewrite_def canonMap_def)
qed

lemma Join_ends:
  "list_all (word cs) xs \<Longrightarrow> xs \<noteq> [] \<Longrightarrow> Join xs sep \<noteq> [] \<and> last (Join xs sep) = last (last xs)"
  by (induction xs sep rule: Join.induct) (auto simp: word_def)

lemma auth_back: "pred_option fitAuth a \<Longrightarrow> parseAuth (TrimSpace (formatAuth a)) = a"
proof (cases a)
  case None
  then show ?thesis by (simp add: formatAuth_def parseAuth_def)
next
  case (Some x)
  assume "pred_option fitAuth a"
  with Some have f: "fitAuth x" by simp
  show ?thesis
  proof (cases "cra_Mode x = ''api_key''")
    case True
    let ?ks = "cra_APIKeys x"
    have k: "list_all (word '','') ?ks" "?ks \<noteq> []" and x: "x = zeroCpAuth\<lparr>cra_Mode := ''api_key'', cra_APIKeys := ?ks\<rparr>"
      using f True by (auto simp: fitAuth_def zeroCpAuth_def)
    have "word '','' (last ?ks)" using k by (simp add: list_all_iff)
    then have "tight (''apikey:'' @ Join ?ks '','')" using Join_ends [OF k, of "'',''"] by (auto simp: tight_def word_def)
    moreover have "pieces (CHR '','') (Join ?ks '','') = ?ks" using pieces_words [of "[]" "[]" "CHR '',''" ?ks] k(1) by simp
    ultimately have "parseAuth (TrimSpace (formatAuth a)) = Some (zeroCpAuth\<lparr>cra_Mode := ''api_key'', cra_APIKeys := ?ks\<rparr>)"
      using k(2) Some True by (simp add: formatAuth_def parseAuth_def Let_def flip: pieces_def)
    then show ?thesis by (simp only: Some flip: x)
  next
    case False
    let ?s = "cra_HMACSecret x" and ?i = "cra_ExpectedIssuer x" and ?d = "cra_ExpectedAudience x"
    have j: "cra_Mode x = ''jwt''" "cra_RSAPublicKeyPEM x = []" "word '':'' ?s" "tight ?i" "CHR '':'' \<notin> set ?i" "tight ?d" "CHR '':'' \<notin> set ?d"
      and x: "x = zeroCpAuth\<lparr>cra_Mode := ''jwt'', cra_HMACSecret := ?s, cra_ExpectedIssuer := ?i, cra_ExpectedAudience := ?d\<rparr>"
      using f False by (auto simp: fitAuth_def zeroCpAuth_def)
    let ?r = "?s @ (if ?i \<noteq> [] \<or> ?d \<noteq> [] then '':'' @ ?i @ '':'' @ ?d else [])"
    have o: "formatAuth a = ''jwt:hmac:'' @ ?r" using Some j by (simp add: formatAuth_def)
    have "tight (''jwt:hmac:'' @ ?r)" using j(3,4,6) by (auto simp: tight_def word_def)
    moreover have "split_on (CHR '':'') ?r = (if ?i \<noteq> [] \<or> ?d \<noteq> [] then [?s, ?i, ?d] else [?s])"
      using j by (auto simp: word_def split_on_append split_on_single)
    moreover have "TrimSpace ?s = ?s" "?s \<noteq> []" using j(3) by (simp_all add: word_def)
    ultimately have "parseAuth (TrimSpace (formatAuth a)) =
        Some (zeroCpAuth\<lparr>cra_Mode := ''jwt'', cra_HMACSecret := ?s, cra_ExpectedIssuer := ?i, cra_ExpectedAudience := ?d\<rparr>)"
      using j by (simp add: parseAuth_def o Let_def)
    then show ?thesis by (simp only: Some flip: x)
  qed
qed

lemma auth_fit: "pred_option fitAuth (parseAuth s)"
proof -
  let ?s = "TrimSpace s"
  have k: "list_all (word '','') (filter (\<lambda>k. k \<noteq> []) (map TrimSpace (split_on (CHR '','') u)))" for u
    unfolding pieces_def [symmetric] by (auto simp: list_all_iff word_def dest: pieces_in)
  have p: "CHR '':'' \<notin> set (TrimSpace w)" if "w \<in> set (split_on (CHR '':'') u)" for u w using split_on_no [OF that] by auto
  have "hd (split_on (CHR '':'') u) \<in> set (split_on (CHR '':'') u)" for u by simp
  then have "CHR '':'' \<notin> set (TrimSpace (hd (split_on (CHR '':'') u)))" for u using p by blast
  moreover have "CHR '':'' \<notin> set (TrimSpace (split_on (CHR '':'') u ! i))" if "i < length (split_on (CHR '':'') u)" for u i
    by (rule p [OF nth_mem [OF that]])
  ultimately show ?thesis using k
    by (auto simp: parseAuth_def Let_def fitAuth_def zeroCpAuth_def word_def tight_def [of "[]"])
qed

lemma matchLine_header:
  assumes "fitHeader h"
  shows "matchLine (''header:'' @ chm_Name h @ (if chm_Value h = [] then [] else '': '' @ chm_Value h)) (hs, qs) = (hs @ [h], qs)"
proof -
  let ?r = "chm_Name h @ (if chm_Value h = [] then [] else '': '' @ chm_Value h)"
  have "splitNameValue ?r (CHR '':'') = (chm_Name h, chm_Value h)"
    using assms by (auto simp: fitHeader_def word_def splitNameValue_def search)
  then show ?thesis using assms by (auto simp: fitHeader_def word_def)
qed

lemma matchLine_query:
  assumes "fitQuery q"
  shows "matchLine (''query:'' @ cqm_Name q @ (if cqm_Value q = [] then [] else ''='' @ cqm_Value q)) (hs, qs) = (hs, qs @ [q])"
proof -
  let ?r = "cqm_Name q @ (if cqm_Value q = [] then [] else ''='' @ cqm_Value q)"
  have "splitNameValue ?r (CHR ''='') = (cqm_Name q, cqm_Value q)"
    using assms by (auto simp: fitQuery_def word_def splitNameValue_def search)
  then show ?thesis using assms by (auto simp: fitQuery_def word_def)
qed

lemma matchLines:
  "list_all fitHeader hs \<Longrightarrow> fold matchLine (map (\<lambda>h. ''header:'' @ chm_Name h @ (if chm_Value h = [] then [] else '': '' @ chm_Value h)) hs) (hs0, qs0) = (hs0 @ hs, qs0)"
  "list_all fitQuery qs \<Longrightarrow> fold matchLine (map (\<lambda>q. ''query:'' @ cqm_Name q @ (if cqm_Value q = [] then [] else ''='' @ cqm_Value q)) qs) (hs0, qs0) = (hs0, qs0 @ qs)"
proof -
  show "list_all fitHeader hs \<Longrightarrow> fold matchLine (map (\<lambda>h. ''header:'' @ chm_Name h @ (if chm_Value h = [] then [] else '': '' @ chm_Value h)) hs) (hs0, qs0) = (hs0 @ hs, qs0)"
  proof (induction hs arbitrary: hs0)
    case (Cons h hs)
    then show ?case using matchLine_header [of h hs0 qs0] by (simp del: matchLine.simps)
  qed simp
  show "list_all fitQuery qs \<Longrightarrow> fold matchLine (map (\<lambda>q. ''query:'' @ cqm_Name q @ (if cqm_Value q = [] then [] else ''='' @ cqm_Value q)) qs) (hs0, qs0) = (hs0, qs0 @ qs)"
  proof (induction qs arbitrary: qs0)
    case (Cons q qs)
    then show ?case using matchLine_query [of q hs0 qs0] by (simp del: matchLine.simps)
  qed simp
qed

lemma matchLine_Nil: "matchLine [] acc = acc"
  by (cases acc) simp

lemma match_back:
  assumes "list_all fitHeader hs" "list_all fitQuery qs"
  shows "parseMatch (TrimSpace (crlf (formatMatch hs qs))) = (hs, qs)"
proof -
  let ?h = "\<lambda>h. ''header:'' @ chm_Name h @ (if chm_Value h = [] then [] else '': '' @ chm_Value h)"
  let ?q = "\<lambda>q. ''query:'' @ cqm_Name q @ (if cqm_Value q = [] then [] else ''='' @ cqm_Value q)"
  let ?lines = "map ?h hs @ map ?q qs"
  have h: "word [nl] (?h h)" if "fitHeader h" for h using that by (auto simp: fitHeader_def word_def tight_def)
  have q: "word [nl] (?q q)" if "fitQuery q" for q using that by (auto simp: fitQuery_def word_def tight_def)
  have "list_all (word [nl]) (map ?h hs)" using assms(1) unfolding list_all_iff set_map by (blast intro: h)
  moreover have "list_all (word [nl]) (map ?q qs)" using assms(2) unfolding list_all_iff set_map by (blast intro: q)
  ultimately have "list_all (word [nl]) ?lines" by (simp only: list_all_append)
  then have "pieces nl (TrimSpace (crlf (formatMatch hs qs))) = ?lines"
    by (simp only: formatMatch_def pieces_TrimSpace words_back)
  then show ?thesis
    using matchLines(1) [OF assms(1), of "[]" "[]"] matchLines(2) [OF assms(2), of hs "[]"]
    by (simp only: parseMatch_def fold_pieces [of matchLine, OF matchLine_Nil] fold_append comp_def append_Nil)
qed

definition fitMatches :: "cpHeaderMatch list \<times> cpQueryMatch list \<Rightarrow> bool" where
  "fitMatches = (\<lambda>(hs, qs). list_all fitHeader hs \<and> list_all fitQuery qs)"

lemma splitNameValue_parts:
  assumes "splitNameValue s sep = (n, v)"
  shows "tight n" "tight v" "sep \<notin> set n" "set n \<subseteq> set s" "set v \<subseteq> set s"
proof -
  have "tight n \<and> tight v \<and> sep \<notin> set n \<and> set n \<subseteq> set s \<and> set v \<subseteq> set s"
  proof (cases "indexOf sep s")
    case None
    then have "sep \<notin> set s" by (simp add: indexOf_def split: if_splits)
    then show ?thesis using assms None by (auto simp: splitNameValue_def tight_def [of "[]"])
  next
    case (Some i)
    then show ?thesis using assms indexOf_no [OF Some]
      by (auto simp: splitNameValue_def dest!: in_TrimSpace in_set_dropD) (auto dest: in_set_takeD)
  qed
  then show "tight n" "tight v" "sep \<notin> set n" "set n \<subseteq> set s" "set v \<subseteq> set s" by blast+
qed

lemma matchLine_fit: "word [nl] w \<Longrightarrow> fitMatches (hs, qs) \<Longrightarrow> fitMatches (matchLine w (hs, qs))"
proof -
  assume w: "word [nl] w" and f: "fitMatches (hs, qs)"
  then have n: "nl \<notin> set w" "nl \<notin> set (drop k w)" for k by (auto simp: word_def dest: in_set_dropD)
  show ?thesis
  proof (cases "HasPrefix w ''query:''")
    case True
    obtain a v where s: "splitNameValue (drop 6 w) (CHR ''='') = (a, v)" by fastforce
    show ?thesis using True f w n splitNameValue_parts [OF s] by (auto simp: s fitMatches_def fitQuery_def word_def)
  next
    case False
    let ?r = "if HasPrefix w ''header:'' then drop 7 w else w"
    obtain a v where s: "splitNameValue ?r (CHR '':'') = (a, v)" by fastforce
    have "nl \<notin> set ?r" using n by simp
    then show ?thesis using False f w splitNameValue_parts [OF s] by (auto simp: s fitMatches_def fitHeader_def word_def)
  qed
qed

lemma match_fit: "fitMatches (parseMatch s)"
  unfolding parseMatch_def
proof (rule fold_pieces_inv)
  fix acc show "matchLine [] acc = acc" by (rule matchLine_Nil)
next
  fix w acc assume "word [nl] w" "fitMatches acc"
  then show "fitMatches (matchLine w acc)" by (cases acc) (simp add: matchLine_fit del: matchLine.simps)
qed (simp add: fitMatches_def)

subsection \<open>The whole form\<close>

lemma AtoiValue_itoa: "AtoiValue (itoa n) = min max_int64 (int n)"
proof -
  obtain c cs where i: "itoa n = c # cs" by (meson itoa_ne list.exhaust)
  have "takeWhile is_digit (itoa n) = itoa n" using itoa_digits [of n] by (simp add: takeWhile_eq_all_conv list_all_iff)
  then have "takeWhile is_digit (c # cs) = c # cs" "int (digits_value (c # cs)) = int n" "list_all is_digit (c # cs)"
    using itoa_digits [of n] digits_value_itoa [of n] by (simp_all only: i)
  moreover from this(3) have tw: "takeWhile is_digit cs = cs" by (simp add: takeWhile_eq_all_conv list_all_iff)
  ultimately show ?thesis using itoa_no_sign [OF i] unfolding i AtoiValue_def by (simp add: int64_defs tw)
qed

lemma valueAt_post:
  "i < length rs \<Longrightarrow> valueAt (post groups (routesToRows rs) name) i =
     TrimSpace (if name = ''target_group'' then selectValue groups (cr_TargetGroup (rs ! i)) else rowField (routeToRow i (rs ! i)) name)"
  by (simp add: valueAt_def post_def routesToRows_def nth_enumerate_eq) (simp add: routeToRow_def split: prod.split)

lemma post_length [simp]: "length (post groups (routesToRows rs) name) = length rs"
  by (simp add: post_def routesToRows_def)

text \<open>
  A rule whose fields fit, its policy apart, comes back with what its policy's text is parsed to if its target
  group is listed, and not at all otherwise.
\<close>

lemma formRow_unlisted: "i < length rs \<Longrightarrow> \<not> listed groups (rs ! i) \<Longrightarrow> formRow (post groups (routesToRows rs)) i = None"
  by (simp add: formRow_def valueAt_post listed_def selectValue_def TrimSpace_def)

lemma formRow_post:
  assumes "i < length rs" "fits ((rs ! i)\<lparr>cr_Auth := None\<rparr>)" "listed groups (rs ! i)"
  shows "formRow (post groups (routesToRows rs)) i =
    Some (min max_int64 (int i), (rs ! i)\<lparr>cr_Auth := parseAuth (TrimSpace (formatAuth (cr_Auth (rs ! i))))\<rparr>)"
proof -
  let ?r = "rs ! i"
  obtain strip hdrs where rw: "formatRewrite (cr_Rewrite ?r) = (strip, hdrs)" by fastforce
  note v = valueAt_post [OF assms(1)] routeToRow_def [of i ?r, unfolded rw]
  have "post groups (routesToRows rs) ''action'' ! i = ''keep''" using assms(1) by (simp add: post_def routesToRows_def rowField_def)
  moreover have "parseMatch (TrimSpace (crlf (formatMatch (cr_HeaderMatches ?r) (cr_QueryMatches ?r)))) = (cr_HeaderMatches ?r, cr_QueryMatches ?r)"
    using assms(2) by (intro match_back) (simp_all add: fits_def)
  moreover have "parseRewrite (TrimSpace strip) (TrimSpace (crlf hdrs)) = cr_Rewrite ?r"
    using assms(2) rw by (intro rewrite_back) (simp_all add: fits_def)
  moreover have "splitMethods (TrimSpace (Join (cr_Methods ?r) '', '')) = cr_Methods ?r"
    using assms(2) methods_back by (simp add: splitMethods_pieces fits_def)
  moreover have "parseSplit (TrimSpace (formatSplit (cr_Split ?r))) = cr_Split ?r"
    using assms(2) split_back by (simp add: parseSplit_pieces fits_def)
  moreover have "selectValue groups (cr_TargetGroup ?r) = cr_TargetGroup ?r" using assms(3) by (simp add: listed_def selectValue_def)
  ultimately show ?thesis
    using assms(2) by (simp add: formRow_def v Let_def rowField_def fits_def itoa_tight AtoiValue_itoa)
qed

lemma formRoutes_post:
  assumes "\<And>i. i < length rs \<Longrightarrow> listed groups (rs ! i) \<Longrightarrow> formRow (post groups (routesToRows rs)) i = Some (min max_int64 (int i), f (rs ! i))"
  shows "formRoutes (post groups (routesToRows rs)) = map f (filter (listed groups) rs)"
proof -
  let ?is = "filter (\<lambda>i. listed groups (rs ! i)) [0..<length rs]" and ?k = "\<lambda>i. (min max_int64 (int i), f (rs ! i))"
  have "List.map_filter (formRow (post groups (routesToRows rs))) is = map ?k (filter (\<lambda>i. listed groups (rs ! i)) is)"
    if "\<forall>i \<in> set is. i < length rs" for "is"
    using that by (induction "is") (auto simp: List.map_filter_simps assms formRow_unlisted)
  then have m: "List.map_filter (formRow (post groups (routesToRows rs))) [0..<length rs] = map ?k ?is" by simp
  have "sorted ?is" by (simp add: sorted_wrt_filter)
  then have "sorted (map fst (map ?k ?is))" by (simp add: sorted_map) (erule sorted_wrt_mono_rel [rotated], simp)
  note sk = sort_key_id_if_sorted [OF this]
  have "formRoutes (post groups (routesToRows rs)) = map (\<lambda>i. f (rs ! i)) ?is"
    unfolding formRoutes_def post_length m sk by simp
  also have "\<dots> = map f (map ((!) rs) ?is)" by simp
  also have "map ((!) rs) ?is = filter (listed groups) (map ((!) rs) [0..<length rs])" by (simp add: filter_map comp_def)
  finally show ?thesis by (simp add: map_nth)
qed

lemma fits_back: "list_all fits rs \<Longrightarrow> formRoutes (post groups (routesToRows rs)) = filter (listed groups) rs"
proof -
  assume a: "list_all fits rs"
  have "formRow (post groups (routesToRows rs)) i = Some (min max_int64 (int i), id (rs ! i))"
    if i: "i < length rs" and l: "listed groups (rs ! i)" for i
  proof -
    have f: "fits (rs ! i)" using a i by (simp add: list_all_length)
    then have "fits ((rs ! i)\<lparr>cr_Auth := None\<rparr>)" "parseAuth (TrimSpace (formatAuth (cr_Auth (rs ! i)))) = cr_Auth (rs ! i)"
      by (simp_all add: fits_def auth_back)
    then show ?thesis using formRow_post [OF i _ l] by simp
  qed
  from formRoutes_post [OF this] show ?thesis by simp
qed

lemma form_fits: "list_all fits (formRoutes form)"
proof -
  have "fits r" if "formRow form i = Some (n, r)" for i n r
  proof -
    obtain hs qs where m: "parseMatch (valueAt (form ''match'') i) = (hs, qs)" by fastforce
    have t: "tight (valueAt xs i)" for xs by (simp add: valueAt_def) (simp add: tight_def)
    show ?thesis using that match_fit [of "valueAt (form ''match'') i"] t
      by (auto simp: formRow_def m Let_def fits_def fitMatches_def methods_fit split_fit rewrite_fit auth_fit split: if_splits)
  qed
  then show ?thesis by (auto simp: formRoutes_def list_all_iff List.map_filter_def)
qed

section \<open>Properties\<close>

text \<open>
  C13. The text fields of the routes editor are a faithful notation for a rule exactly when its parts fit them
  and its target group is listed. The rows of a table, submitted as the fields they are written into, are read
  back as the same table if and only if every rule fits and every target group is one of those offered; of a
  table whose rules fit, exactly the rules with an offered target group are read back, in their order. Whatever
  fields are submitted, the table read from them fits, so a table that came from the form keeps, when it is
  written and read again, every rule whose group is still offered: the order of the rules, methods, splits
  with their weights, header rewrites, policies and conditions. This compares the functions of
  \<open>handlers.go\<close> that write the fields with those that read them; the template between them fails on every
  table with a rule (\<open>AdminPages.pages_render\<close>), so today no browser goes this way.
\<close>

theorem editor_exact:
  "(formRoutes (post groups (routesToRows rs)) = rs \<longleftrightarrow> list_all fits rs \<and> list_all (listed groups) rs) \<and>
   (list_all fits rs \<longrightarrow> formRoutes (post groups (routesToRows rs)) = filter (listed groups) rs) \<and>
   list_all fits (formRoutes form) \<and>
   formRoutes (post groups (routesToRows (formRoutes form))) = filter (listed groups) (formRoutes form)"
proof -
  have "filter (listed groups) rs = rs \<longleftrightarrow> list_all (listed groups) rs" by (simp add: filter_id_conv list_all_iff)
  then show ?thesis using fits_back [of rs groups] fits_back [OF form_fits, of groups form] form_fits by metis
qed

definition demo_rules :: "cpRoute list" where
  "demo_rules = [zeroRoute\<lparr>cr_PathPrefix := ''/a'', cr_TargetGroup := ''g'', cr_Methods := [''GET'']\<rparr>, zeroRoute\<lparr>cr_TargetGroup := ''gone''\<rparr>]"

theorem editor_exact_witness:
  "formRoutes (post [''g'', ''gone''] (routesToRows demo_rules)) = demo_rules \<and>
   formRoutes (post [''g''] (routesToRows demo_rules)) = [hd demo_rules] \<and> length demo_rules = 2"
proof -
  have "list_all fits demo_rules"
    by (simp add: demo_rules_def fits_def fitMethod_def word_def zeroRoute_def tight_def asciiSpace_def to_upper_def is_lower_def)
  then show ?thesis using editor_exact [of "[''g'']" demo_rules] editor_exact [of "[''g'', ''gone'']" demo_rules]
    by (simp add: listed_def demo_rules_def)
qed

text \<open>
  A policy that validates JWTs with an RSA key does not fit: it is written as a marker, and the marker is read
  as no policy. The fields as they were written leave every other part of the table and open that route.
\<close>

theorem rsa_rule_opened:
  assumes "cr_Auth r = Some a" "cra_Mode a = ''jwt''" "cra_RSAPublicKeyPEM a \<noteq> []" "fits (r\<lparr>cr_Auth := None\<rparr>)"
    and "list_all fits xs" "list_all fits ys" "list_all (listed groups) (xs @ r # ys)"
  shows "formRoutes (post groups (routesToRows (xs @ r # ys))) = xs @ r\<lparr>cr_Auth := None\<rparr> # ys"
proof -
  let ?rs = "xs @ r # ys" and ?f = "\<lambda>r. r\<lparr>cr_Auth := parseAuth (TrimSpace (formatAuth (cr_Auth r)))\<rparr>"
  have "TrimSpace ''jwt:rsa(configured)'' = ''jwt:rsa(configured)''" by (simp add: TrimSpace_def asciiSpace_def)
  then have none: "parseAuth (TrimSpace (formatAuth (cr_Auth r))) = None"
    using assms(1-3) by (simp add: formatAuth_def parseAuth_def)
  have "fits (x\<lparr>cr_Auth := None\<rparr>) \<and> ?f x = x" if "fits x" for x using that by (simp add: fits_def auth_back)
  then have f: "map ?f xs = xs" "map ?f ys = ys" "\<forall>x \<in> set ?rs. fits (x\<lparr>cr_Auth := None\<rparr>)"
    using assms(4-6) by (auto simp: list_all_iff intro: map_idI)
  have l: "filter (listed groups) ?rs = ?rs" using assms(7) by (simp only: filter_id_conv list_all_iff)
  have "formRow (post groups (routesToRows ?rs)) i = Some (min max_int64 (int i), ?f (?rs ! i))"
    if "i < length ?rs" "listed groups (?rs ! i)" for i
    using that f(3) by (intro formRow_post) (metis nth_mem)+
  from formRoutes_post [OF this] show ?thesis unfolding l using f none by simp
qed

definition demo_rsa :: cpRoute where
  "demo_rsa = zeroRoute\<lparr>cr_PathPrefix := ''/api'', cr_TargetGroup := ''g'',
     cr_Auth := Some (zeroCpAuth\<lparr>cra_Mode := ''jwt'', cra_RSAPublicKeyPEM := ''PEM''\<rparr>)\<rparr>"

theorem rsa_rule_opened_witness:
  "formRoutes (post [''g'', ''h''] (routesToRows [zeroRoute\<lparr>cr_TargetGroup := ''h''\<rparr>, demo_rsa])) =
     [zeroRoute\<lparr>cr_TargetGroup := ''h''\<rparr>, demo_rsa\<lparr>cr_Auth := None\<rparr>] \<and> cr_Auth demo_rsa \<noteq> None"
proof -
  let ?a = "zeroCpAuth\<lparr>cra_Mode := ''jwt'', cra_RSAPublicKeyPEM := ''PEM''\<rparr>"
  have a: "cr_Auth demo_rsa = Some ?a" "cra_Mode ?a = ''jwt''" "cra_RSAPublicKeyPEM ?a \<noteq> []" by (simp_all add: demo_rsa_def)
  have f: "fits (demo_rsa\<lparr>cr_Auth := None\<rparr>)" "list_all fits [zeroRoute\<lparr>cr_TargetGroup := ''h''\<rparr>]" "list_all fits []"
    by (simp_all add: demo_rsa_def fits_def zeroRoute_def tight_def asciiSpace_def)
  have l: "list_all (listed [''g'', ''h'']) ([zeroRoute\<lparr>cr_TargetGroup := ''h''\<rparr>] @ demo_rsa # [])"
    by (simp add: listed_def demo_rsa_def)
  show ?thesis using rsa_rule_opened [OF a f l] a(1) by simp
qed

end
