(* ===== verification/AdminHandlers.thy ===== *)
theory AdminHandlers
  imports AdminProps RouteForm ServerProps
begin

text \<open>
  The admin interface as a whole (\<open>internal/admin/handlers.go\<close>): the forms that change the control plane, and
  \<open>Handler\<close>, which dispatches a request to its handler, behind \<open>requireAuth\<close> for all pages but the login.

  \<open>adminSys\<close> is what a request can change: the admin server, the control plane behind it, and the file system
  that both write to. A handler answers, or panics (no answer: \<open>net/http\<close> closes the connection). The inputs of
  a call to the control plane are in \<open>cpWorld\<close>. \<open>parseFloat\<close> is \<open>strconv.ParseFloat\<close> on texts that do not denote
  an infinity or a NaN, \<open>errText\<close> the text of an error. Paths are clean. The pages themselves are markup.
\<close>

section \<open>Forms\<close>

record 'st adminSys =
  ay_admin :: AdminServer
  ay_server :: "'st Server"
  ay_fs :: filesystem

record ('e, 'st) cpWorld =
  cw_persist :: persistEnv
  cw_snapshot :: "string \<Rightarrow> Snapshot option"
  cw_save :: "'e \<Rightarrow> string \<Rightarrow> content \<Rightarrow> 'st \<Rightarrow> bool \<times> 'st"
  cw_saveEnv :: 'e
  cw_errText :: "storeError \<Rightarrow> string"
  cw_saveErr :: string
  cw_parseFloat :: "string \<Rightarrow> rat option"

abbreviation "AuditOverrideChanged \<equiv> ''override_changed''"
abbreviation "AuditAlgorithmChanged \<equiv> ''algorithm_changed''"
abbreviation "AuditRoutesChanged \<equiv> ''routes_changed''"
abbreviation "AuditStickyChanged \<equiv> ''sticky_changed''"
abbreviation "AuditRateLimitChanged \<equiv> ''ratelimit_changed''"

definition seeOther :: "string \<Rightarrow> adminReply option" where
  "seeOther url = Some \<lparr>ar_page = Redirect url, ar_cookies = []\<rparr>"

definition audited :: "adminLib \<Rightarrow> adminWorld \<Rightarrow> adminRequest \<Rightarrow> AuditEventType \<Rightarrow> string \<Rightarrow> 'st adminSys \<Rightarrow> 'st adminSys" where
  "audited lib w rq eventType message sy =
     (let (s, fs) = sr_record lib w eventType (admin_clientIP (aq_http rq) (ay_admin sy)) message (ay_admin sy, ay_fs sy)
      in sy\<lparr>ay_admin := s, ay_fs := fs\<rparr>)"

text \<open>After a call to the control plane: record what was done or why it failed, and go back to the dashboard.\<close>

definition changed :: "adminLib \<Rightarrow> adminWorld \<Rightarrow> ('e, 'st) cpWorld \<Rightarrow> adminRequest \<Rightarrow> AuditEventType \<Rightarrow> string \<Rightarrow> string
    \<Rightarrow> storeResult \<times> 'st Server \<times> filesystem \<Rightarrow> 'st adminSys \<Rightarrow> adminReply option \<times> 'st adminSys" where
  "changed lib w cw rq eventType done failed r sy =
     (let (res, sv, fs) = r; sy1 = sy\<lparr>ay_server := sv, ay_fs := fs\<rparr>
      in case res of
           StoreOk \<Rightarrow> (seeOther ''/'', audited lib w rq eventType done sy1)
         | StoreErr e \<Rightarrow> (seeOther ''/'', audited lib w rq eventType (failed @ cw_errText cw e) sy1)
         | StorePanic \<Rightarrow> (None, sy1))"

definition handleOverrideSubmit :: "adminLib \<Rightarrow> adminWorld \<Rightarrow> ('e, 'st) cpWorld \<Rightarrow> adminRequest \<Rightarrow> 'st adminSys \<Rightarrow> adminReply option \<times> 'st adminSys" where
  "handleOverrideSubmit lib w cw rq sy =
     (let group = aq_form rq ''group''; address = aq_form rq ''address''; action = aq_form rq ''action'';
          ch = changed lib w cw rq AuditOverrideChanged; sf = (ay_server sy, ay_fs sy)
      in if \<not> checkCSRF rq \<or> group = [] \<or> address = [] then (seeOther ''/'', sy)
         else if action = ''drain'' then
           ch (''drained backend '' @ address @ '' in group '' @ group) ''override change failed: ''
             (SetOverride (cw_persist cw) (cw_snapshot cw) group address None True sf) sy
         else if action = ''set_weight'' then
           (let weightStr = aq_form rq ''weight''
            in case ParseInt64 weightStr of
                 None \<Rightarrow> (seeOther ''/'', sy)
               | Some n \<Rightarrow>
                   if n < 0 \<or> n > max_int32 then (seeOther ''/'', sy)
                   else ch (''set weight override for '' @ address @ '' in group '' @ group @ '' to '' @ weightStr) ''override change failed: ''
                     (SetOverride (cw_persist cw) (cw_snapshot cw) group address (Some n) False sf) sy)
         else if action = ''clear'' then
           ch (''cleared override for '' @ address @ '' in group '' @ group) ''override change failed: ''
             (ClearOverride (cw_persist cw) (cw_snapshot cw) group address sf) sy
         else (seeOther ''/'', sy))"

definition handleAlgorithmSubmit :: "adminLib \<Rightarrow> adminWorld \<Rightarrow> ('e, 'st) cpWorld \<Rightarrow> adminRequest \<Rightarrow> 'st adminSys \<Rightarrow> adminReply option \<times> 'st adminSys" where
  "handleAlgorithmSubmit lib w cw rq sy =
     (let group = aq_form rq ''group''; algorithm = aq_form rq ''algorithm''
      in if \<not> checkCSRF rq \<or> group = [] \<or> \<not> IsValidAlgorithm algorithm then (seeOther ''/'', sy)
         else changed lib w cw rq AuditAlgorithmChanged (''changed algorithm for group '' @ group @ '' to '' @ algorithm)
           (''algorithm change failed for group '' @ group @ '': '')
           (SetAlgorithm (cw_persist cw) (cw_snapshot cw) group algorithm (ay_server sy, ay_fs sy)) sy)"

definition onOff :: "bool \<Rightarrow> string" where
  "onOff b = (if b then ''enabled'' else ''disabled'')"

definition formSticky :: "adminRequest \<Rightarrow> cpStickyConfig" where
  "formSticky rq =
     \<lparr>cs_Enabled = (aq_form rq ''enabled'' = ''on''), cs_CookieName = TrimSpace (aq_form rq ''cookie_name''),
      cs_TTL = (case ParseInt64 (TrimSpace (aq_form rq ''ttl_minutes'')) of
         Some n \<Rightarrow> if n > 0 then wrap64 (n * minute) else 0 | None \<Rightarrow> 0)\<rparr>"

definition handleStickySubmit :: "adminLib \<Rightarrow> adminWorld \<Rightarrow> ('e, 'st) cpWorld \<Rightarrow> adminRequest \<Rightarrow> 'st adminSys \<Rightarrow> adminReply option \<times> 'st adminSys" where
  "handleStickySubmit lib w cw rq sy =
     (let group = aq_form rq ''group''; cfg = formSticky rq
      in if \<not> checkCSRF rq \<or> group = [] then (seeOther ''/'', sy)
         else changed lib w cw rq AuditStickyChanged (''sticky sessions '' @ onOff (cs_Enabled cfg) @ '' for group '' @ group)
           (''sticky session change failed for group '' @ group @ '': '')
           (SetSticky (cw_persist cw) (cw_snapshot cw) group cfg (ay_server sy, ay_fs sy)) sy)"

definition formRateLimit :: "(string \<Rightarrow> rat option) \<Rightarrow> adminRequest \<Rightarrow> cpRateLimitConfig" where
  "formRateLimit parseFloat rq =
     \<lparr>cr_Enabled = (aq_form rq ''enabled'' = ''on''),
      cr_RPS = (case parseFloat (TrimSpace (aq_form rq ''rps'')) of Some r \<Rightarrow> if r > 0 then r else 0 | None \<Rightarrow> 0),
      cr_Burst = (case ParseInt64 (TrimSpace (aq_form rq ''burst'')) of Some n \<Rightarrow> if n > 0 then n else 0 | None \<Rightarrow> 0)\<rparr>"

definition handleRateLimitSubmit :: "adminLib \<Rightarrow> adminWorld \<Rightarrow> ('e, 'st) cpWorld \<Rightarrow> adminRequest \<Rightarrow> 'st adminSys \<Rightarrow> adminReply option \<times> 'st adminSys" where
  "handleRateLimitSubmit lib w cw rq sy =
     (let group = aq_form rq ''group''; cfg = formRateLimit (cw_parseFloat cw) rq
      in if \<not> checkCSRF rq \<or> group = [] then (seeOther ''/'', sy)
         else changed lib w cw rq AuditRateLimitChanged (''rate limiting '' @ onOff (cr_Enabled cfg) @ '' for group '' @ group)
           (''rate-limit change failed for group '' @ group @ '': '')
           (SetRateLimit (cw_persist cw) (cw_snapshot cw) group cfg (ay_server sy, ay_fs sy)) sy)"

definition handleRoutesSubmit :: "adminLib \<Rightarrow> adminWorld \<Rightarrow> ('e, 'st) cpWorld \<Rightarrow> adminRequest \<Rightarrow> (string \<Rightarrow> string list) \<Rightarrow> 'st adminSys
    \<Rightarrow> adminReply option \<times> 'st adminSys" where
  "handleRoutesSubmit lib w cw rq form sy =
     (if \<not> checkCSRF rq then (seeOther ''/routes'', sy)
      else
        (let routes = formRoutes form; (ok, sv) = SetRoutes (cw_save cw) (cw_saveEnv cw) routes (ay_server sy);
             msg = (if ok then ''route table updated ('' @ itoa (length routes) @ '' rule(s))'' else ''route table update failed: '' @ cw_saveErr cw)
         in (seeOther ''/routes'', audited lib w rq AuditRoutesChanged msg (sy\<lparr>ay_server := sv\<rparr>))))"

section \<open>Dispatch\<close>

text \<open>\<open>FormValue\<close> is the first value of a field. The pages only show state and may set the CSRF cookie.\<close>

definition FormValue :: "(string \<Rightarrow> string list) \<Rightarrow> string \<Rightarrow> string" where
  "FormValue form name = (case form name of [] \<Rightarrow> [] | v # _ \<Rightarrow> v)"

definition handleLoginPage :: "adminLib \<Rightarrow> adminWorld \<Rightarrow> adminRequest \<Rightarrow> AdminServer \<times> filesystem \<Rightarrow> adminReply \<times> AdminServer \<times> filesystem" where
  "handleLoginPage lib w rq = (\<lambda>(s, fs).
     (if validSession (lib_sign lib) (aw_now w) (aq_http rq) (am_SessionSecret (ad_s (sr_store s)))
      then \<lparr>ar_page = Redirect ''/'', ar_cookies = []\<rparr>
      else \<lparr>ar_page = Page ''login'' [], ar_cookies = csrfToken w rq s\<rparr>, s, fs))"

definition handlePage :: "string \<Rightarrow> bool \<Rightarrow> adminWorld \<Rightarrow> adminRequest \<Rightarrow> 'st adminSys \<Rightarrow> adminReply option \<times> 'st adminSys" where
  "handlePage name csrf w rq sy =
     (Some \<lparr>ar_page = Page name [], ar_cookies = (if csrf then csrfToken w rq (ay_admin sy) else [])\<rparr>, sy)"

definition onAdmin :: "(adminRequest \<Rightarrow> AdminServer \<times> filesystem \<Rightarrow> adminReply \<times> AdminServer \<times> filesystem)
    \<Rightarrow> adminRequest \<Rightarrow> 'st adminSys \<Rightarrow> adminReply option \<times> 'st adminSys" where
  "onAdmin h rq sy = (let (rep, s, fs) = h rq (ay_admin sy, ay_fs sy) in (Some rep, sy\<lparr>ay_admin := s, ay_fs := fs\<rparr>))"

definition requireAuth :: "adminLib \<Rightarrow> adminWorld \<Rightarrow> (adminRequest \<Rightarrow> 'st adminSys \<Rightarrow> adminReply option \<times> 'st adminSys)
    \<Rightarrow> adminRequest \<Rightarrow> 'st adminSys \<Rightarrow> adminReply option \<times> 'st adminSys" where
  "requireAuth lib w h rq sy =
     (if \<not> validSession (lib_sign lib) (aw_now w) (aq_http rq) (am_SessionSecret (ad_s (sr_store (ay_admin sy))))
      then (seeOther ''/login'', sy) else h rq sy)"

definition admin_Handler :: "adminLib \<Rightarrow> adminWorld \<Rightarrow> ('e, 'st) cpWorld \<Rightarrow> Request \<Rightarrow> (string \<Rightarrow> string list) \<Rightarrow> 'st adminSys
    \<Rightarrow> adminReply option \<times> 'st adminSys" where
  "admin_Handler lib w cw r form sy =
     (let rq = \<lparr>aq_http = r, aq_form = FormValue form\<rparr>; path = rq_Path r;
          auth = (\<lambda>h. requireAuth lib w h rq sy)
      in if rq_Method r = ''POST'' then
           (if path = ''/login'' then onAdmin (handleLoginSubmit lib w) rq sy
            else if path = ''/logout'' then auth (onAdmin (handleLogout lib w))
            else if path = ''/override'' then auth (handleOverrideSubmit lib w cw)
            else if path = ''/algorithm'' then auth (handleAlgorithmSubmit lib w cw)
            else if path = ''/sticky'' then auth (handleStickySubmit lib w cw)
            else if path = ''/ratelimit'' then auth (handleRateLimitSubmit lib w cw)
            else if path = ''/password'' then auth (onAdmin (handlePasswordSubmit lib w))
            else if path = ''/routes'' then auth (\<lambda>rq. handleRoutesSubmit lib w cw rq form)
            else (Some \<lparr>ar_page = Page ''405'' [], ar_cookies = []\<rparr>, sy))
         else if rq_Method r = ''GET'' \<or> rq_Method r = ''HEAD'' then
           (if path = ''/login'' then onAdmin (handleLoginPage lib w) rq sy
            else if path = ''/password'' then auth (handlePage ''password'' True w)
            else if path = ''/audit'' then auth (handlePage ''audit'' False w)
            else if path = ''/fleet'' then auth (handlePage ''fleet'' False w)
            else if path = ''/routes'' then auth (handlePage ''routes'' True w)
            else if path = ''/metrics.json'' then auth (handlePage ''metrics.json'' False w)
            else auth (handlePage ''dashboard'' True w))
         else (Some \<lparr>ar_page = Page ''405'' [], ar_cookies = []\<rparr>, sy))"

section \<open>What a request may change\<close>

definition auditMark :: "adminWorld \<Rightarrow> adminRequest \<Rightarrow> 'st adminSys \<Rightarrow> 'st adminSys \<Rightarrow> bool" where
  "auditMark w rq sy sy' \<longleftrightarrow>
     (let e = last (al_entries (sr_audit (ay_admin sy')))
      in au_Time e = aw_now w \<and> au_IP e = admin_clientIP (aq_http rq) (ay_admin sy))"

text \<open>A form handler: the password store stays, and the control plane changes only for a request with its token, which is recorded.\<close>

definition form_ok :: "adminWorld \<Rightarrow> adminRequest \<Rightarrow> 'st adminSys \<Rightarrow> 'st adminSys \<Rightarrow> bool" where
  "form_ok w rq sy sy' \<longleftrightarrow>
     sr_store (ay_admin sy') = sr_store (ay_admin sy) \<and>
     (ay_server sy' = ay_server sy \<or> checkCSRF rq \<and> auditMark w rq sy sy')"

lemma form_ok_refl [simp]: "form_ok w rq sy sy"
  by (simp add: form_ok_def)

lemma audited_mark:
  "auditMark w rq sy (audited lib w rq ty msg (sy\<lparr>ay_server := sv, ay_fs := fs\<rparr>))"
  "auditMark w rq sy (audited lib w rq ty msg (sy\<lparr>ay_server := sv\<rparr>))"
  by (simp_all add: auditMark_def audited_def sr_record_def al_Record_def Let_def maxAuditEntries_def last_drop case_prod_beta)

lemma audited_frame [simp]:
  "ay_server (audited lib w rq ty msg sy) = ay_server sy"
  "sr_store (ay_admin (audited lib w rq ty msg sy)) = sr_store (ay_admin sy)"
  by (simp_all add: audited_def case_prod_beta)

lemma changed_form_ok:
  assumes "checkCSRF rq" "fst r = StorePanic \<Longrightarrow> fst (snd r) = ay_server sy"
  shows "form_ok w rq sy (snd (changed lib w cw rq ty msg failed r sy))"
  using assms by (cases r) (auto simp: changed_def form_ok_def Let_def audited_mark split: storeResult.split)

lemma persist_no_panic: "fst (persistMap enc env path m fs) \<noteq> StorePanic"
  by (simp add: persistMap_def persistResult_def case_prod_beta split: option.split)

lemma panic_keeps:
  "fst (SetOverride env sn g a wt d (sv, fs)) = StorePanic \<Longrightarrow> fst (snd (SetOverride env sn g a wt d (sv, fs))) = sv"
  "fst (ClearOverride env sn g a (sv, fs)) = StorePanic \<Longrightarrow> fst (snd (ClearOverride env sn g a (sv, fs))) = sv"
  "fst (SetAlgorithm env sn g al (sv, fs)) = StorePanic \<Longrightarrow> fst (snd (SetAlgorithm env sn g al (sv, fs))) = sv"
  "fst (SetSticky env sn g st (sv, fs)) = StorePanic \<Longrightarrow> fst (snd (SetSticky env sn g st (sv, fs))) = sv"
  "fst (SetRateLimit env sn g rl (sv, fs)) = StorePanic \<Longrightarrow> fst (snd (SetRateLimit env sn g rl (sv, fs))) = sv"
  by (auto simp: SetOverride_def os_Set_def ClearOverride_def os_Clear_def SetAlgorithm_def as_Set_def SetSticky_def ss_Set_def
      SetRateLimit_def rs_Set_def os_persist_def as_persist_def ss_persist_def rs_persist_def afterStore_def persist_no_panic case_prod_beta Let_def
      split: option.splits if_splits)

lemma override_ok: "form_ok w rq sy (snd (handleOverrideSubmit lib w cw rq sy))"
  by (auto simp: handleOverrideSubmit_def Let_def intro!: changed_form_ok panic_keeps split: option.split)

lemma algorithm_ok: "form_ok w rq sy (snd (handleAlgorithmSubmit lib w cw rq sy))"
  by (auto simp: handleAlgorithmSubmit_def Let_def intro!: changed_form_ok panic_keeps)

lemma sticky_ok: "form_ok w rq sy (snd (handleStickySubmit lib w cw rq sy))"
  by (auto simp: handleStickySubmit_def Let_def intro!: changed_form_ok panic_keeps)

lemma rateLimit_ok: "form_ok w rq sy (snd (handleRateLimitSubmit lib w cw rq sy))"
  by (auto simp: handleRateLimitSubmit_def Let_def intro!: changed_form_ok panic_keeps)

lemma routes_ok: "form_ok w rq sy (snd (handleRoutesSubmit lib w cw rq form sy))"
  by (auto simp: handleRoutesSubmit_def Let_def form_ok_def audited_mark(2) case_prod_beta)

lemmas forms_ok = override_ok algorithm_ok sticky_ok rateLimit_ok routes_ok

lemma login_keeps: "sr_store (fst (snd (handleLoginSubmit lib w rq (s, fs)))) = sr_store s"
  by (simp add: handleLoginSubmit_def Let_def)

lemma password_keeps:
  "sr_store (fst (snd (handlePasswordSubmit lib w rq (s, fs)))) \<noteq> sr_store s \<Longrightarrow>
     checkCSRF rq \<and> VerifyPassword (lib_verify lib) (sr_store s) (aq_form rq ''current_password'')"
  by (auto simp: handlePasswordSubmit_def Let_def split: prod.splits option.splits if_splits)

definition signedIn :: "adminLib \<Rightarrow> adminWorld \<Rightarrow> Request \<Rightarrow> 'st adminSys \<Rightarrow> bool" where
  "signedIn lib w r sy \<longleftrightarrow> validSession (lib_sign lib) (aw_now w) r (am_SessionSecret (ad_s (sr_store (ay_admin sy))))"

lemma requireAuth_cases:
  "snd (requireAuth lib w h rq sy) = (if signedIn lib w (aq_http rq) sy then snd (h rq sy) else sy)"
  by (simp add: requireAuth_def signedIn_def)

lemma onAdmin_simps [simp]:
  "ay_server (snd (onAdmin h rq sy)) = ay_server sy"
  "ay_admin (snd (onAdmin h rq sy)) = fst (snd (h rq (ay_admin sy, ay_fs sy)))"
  by (simp_all add: onAdmin_def case_prod_beta)

definition guarded_ok :: "adminLib \<Rightarrow> adminWorld \<Rightarrow> adminRequest \<Rightarrow> 'st adminSys \<Rightarrow> 'st adminSys \<Rightarrow> bool" where
  "guarded_ok lib w rq sy sy' \<longleftrightarrow>
     (ay_server sy' \<noteq> ay_server sy \<or> sr_store (ay_admin sy') \<noteq> sr_store (ay_admin sy) \<longrightarrow>
        rq_Method (aq_http rq) = ''POST'' \<and> signedIn lib w (aq_http rq) sy \<and> checkCSRF rq) \<and>
     (sr_store (ay_admin sy') \<noteq> sr_store (ay_admin sy) \<longrightarrow>
        VerifyPassword (lib_verify lib) (sr_store (ay_admin sy)) (aq_form rq ''current_password'')) \<and>
     (ay_server sy' \<noteq> ay_server sy \<longrightarrow> auditMark w rq sy sy')"

lemma guarded_refl: "guarded_ok lib w rq sy sy"
  by (simp add: guarded_ok_def)

lemma guarded_form:
  "rq_Method (aq_http rq) = ''POST'' \<Longrightarrow> form_ok w rq sy (snd (h rq sy)) \<Longrightarrow> guarded_ok lib w rq sy (snd (requireAuth lib w h rq sy))"
  by (auto simp: guarded_ok_def form_ok_def requireAuth_cases)

lemma guarded_page: "guarded_ok lib w rq sy (snd (requireAuth lib w (handlePage name csrf w') rq sy))"
  by (simp add: requireAuth_cases handlePage_def guarded_refl)

lemma guarded_admin:
  assumes "sr_store (fst (snd (h rq (ay_admin sy, ay_fs sy)))) = sr_store (ay_admin sy)"
  shows "guarded_ok lib w rq sy (snd (onAdmin h rq sy))" "guarded_ok lib w rq sy (snd (requireAuth lib w (onAdmin h) rq sy))"
  using assms by (simp_all add: guarded_ok_def requireAuth_cases)

lemma guarded_password:
  "rq_Method (aq_http rq) = ''POST'' \<Longrightarrow> guarded_ok lib w rq sy (snd (requireAuth lib w (onAdmin (handlePasswordSubmit lib w)) rq sy))"
  using password_keeps [of lib w rq "ay_admin sy" "ay_fs sy"] by (auto simp: guarded_ok_def requireAuth_cases)

lemma logout_keeps: "sr_store (fst (snd (handleLogout lib w rq (s, fs)))) = sr_store s"
  by (simp add: handleLogout_def)

lemma loginPage_keeps: "sr_store (fst (snd (handleLoginPage lib w rq (s, fs)))) = sr_store s"
  by (simp add: handleLoginPage_def)

lemma Handler_guarded:
  "guarded_ok lib w \<lparr>aq_http = r, aq_form = FormValue form\<rparr> sy (snd (admin_Handler lib w cw r form sy))"
  by (simp add: admin_Handler_def Let_def guarded_refl guarded_form guarded_page guarded_admin guarded_password forms_ok
      login_keeps logout_keeps loginPage_keeps)

text \<open>
  C6. Nothing is changed through the admin interface but by a signed-in administrator. Whatever request comes in,
  if the control plane (overrides, algorithms, affinity, rate limits, routes, what is published) or the stored
  password and session secret differ afterwards, it was a POST with a valid session cookie whose form carried
  the token of its CSRF cookie; a change of the password also carried the current one, and a change of the
  control plane is the newest entry of the audit log, with the time and the address of the client. Without a
  session every page but the login leaves everything as it is.
\<close>

theorem admin_changes_guarded:
  assumes "admin_Handler lib w cw r form sy = (rep, sy')"
  shows "(ay_server sy' \<noteq> ay_server sy \<or> sr_store (ay_admin sy') \<noteq> sr_store (ay_admin sy) \<longrightarrow>
      rq_Method r = ''POST'' \<and> signedIn lib w r sy \<and>
      (\<exists>v. v \<noteq> [] \<and> rq_Cookie r csrfCookieName = Some v \<and> FormValue form ''csrf_token'' = v)) \<and>
    (sr_store (ay_admin sy') \<noteq> sr_store (ay_admin sy) \<longrightarrow>
      VerifyPassword (lib_verify lib) (sr_store (ay_admin sy)) (FormValue form ''current_password'')) \<and>
    (ay_server sy' \<noteq> ay_server sy \<longrightarrow>
      (let e = last (al_entries (sr_audit (ay_admin sy'))) in au_Time e = aw_now w \<and> au_IP e = admin_clientIP r (ay_admin sy))) \<and>
    (\<not> signedIn lib w r sy \<and> rq_Path r \<noteq> ''/login'' \<longrightarrow> sy' = sy)"
proof -
  let ?rq = "\<lparr>aq_http = r, aq_form = FormValue form\<rparr>"
  have csrf: "checkCSRF ?rq \<Longrightarrow> \<exists>v. v \<noteq> [] \<and> rq_Cookie r csrfCookieName = Some v \<and> FormValue form ''csrf_token'' = v"
    by (auto simp: checkCSRF_def split: option.splits)
  have sy': "sy' = snd (admin_Handler lib w cw r form sy)" using assms by simp
  have keeps: "sy' = sy" if "\<not> signedIn lib w r sy" "rq_Path r \<noteq> ''/login''"
    unfolding sy' using that by (simp add: admin_Handler_def Let_def requireAuth_cases)
  have "guarded_ok lib w ?rq sy sy'" unfolding sy' by (rule Handler_guarded)
  note g = this [unfolded guarded_ok_def auditMark_def adminRequest.simps]
  show ?thesis using g csrf keeps by blast
qed

definition demo_cp :: "(unit, unit) cpWorld" where
  "demo_cp = \<lparr>cw_persist = quiet_env ''/t'', cw_snapshot = (\<lambda>_. None), cw_save = (\<lambda>_ _ _ s. (True, s)), cw_saveEnv = (),
     cw_errText = (\<lambda>_. []), cw_saveErr = [], cw_parseFloat = (\<lambda>_. None)\<rparr>"

definition demo_form :: "string \<Rightarrow> string list" where
  "demo_form n = (if n = ''group'' then [''g''] else if n = ''algorithm'' then [''random''] else if n = ''csrf_token'' then [''c''] else [])"

definition demo_submit :: Request where
  "demo_submit = (demo_request_from ''10.0.0.1:4'')\<lparr>rq_Path := ''/algorithm'',
     rq_Cookies := [(''lb_admin_csrf'', ''c''), (''lb_admin_session'', ''60.k60'')]\<rparr>"

definition demo_sys :: "unit adminSys" where
  "demo_sys = \<lparr>ay_admin = demo_admin, ay_server = NewServer None None None None None, ay_fs = Map.empty\<rparr>"

lemma demo_submit_signed: "signedIn demo_lib (demo_world 6) demo_submit demo_sys"
proof -
  have "rq_Cookie demo_submit ''lb_admin_session'' = Some ''60.k60''"
    by (simp add: rq_Cookie_def demo_submit_def)
  moreover have "lib_sign demo_lib ''k'' 60 = ''k60''" by (simp add: demo_lib_def FormatInt_def) code_simp
  moreover have "splitDot ''60.k60'' = Some (''60'', ''k60'')" by (simp add: splitDot_def)
  moreover have "ParseInt64 ''60'' = Some 60" by code_simp
  moreover have "unixSeconds 6 \<le> 60" by (simp add: unixSeconds_def)
  ultimately show ?thesis
    by (simp add: signedIn_def validSession_def demo_sys_def demo_admin_def newAdminServer_def demo_world_def)
qed

theorem admin_changes_guarded_witness:
  "let sy' = snd (admin_Handler demo_lib (demo_world 6) demo_cp demo_submit demo_form demo_sys)
   in as_Get (sv_algorithms (ay_server sy')) ''g'' = ''random'' \<and> au_Time (last (al_entries (sr_audit (ay_admin sy')))) = 6"
proof -
  let ?H = "admin_Handler demo_lib (demo_world 6) demo_cp demo_submit demo_form demo_sys"
  let ?rq = "\<lparr>aq_http = demo_submit, aq_form = FormValue demo_form\<rparr>"
  have c: "checkCSRF ?rq" by (simp add: checkCSRF_def rq_Cookie_def demo_submit_def FormValue_def demo_form_def)
  have m: "rq_Method demo_submit = ''POST''" "rq_Path demo_submit = ''/algorithm''" by (simp_all add: demo_submit_def demo_request_from_def)
  have f: "FormValue demo_form ''group'' = ''g''" "FormValue demo_form ''algorithm'' = ''random''" "IsValidAlgorithm ''random''"
    by (simp_all add: FormValue_def demo_form_def IsValidAlgorithm_def ValidAlgorithms_def)
  have h: "snd ?H = snd (handleAlgorithmSubmit demo_lib (demo_world 6) demo_cp ?rq demo_sys)"
    using demo_submit_signed m by (simp add: admin_Handler_def Let_def requireAuth_cases)
  have s: "as_Get (sv_algorithms (ay_server (snd ?H))) ''g'' = ''random''"
    unfolding h using c f by (simp add: handleAlgorithmSubmit_def changed_def SetAlgorithm_def as_Set_def as_persist_def persistMap_def
        persistFile_def persistTrace_def persistResult_def demo_sys_def NewServer_def NewAlgorithmStore_def loadFile_def afterStore_def
        forceRepublish_def demo_cp_def as_Get_def mapGet_def Let_def)
  moreover have "as_Get (sv_algorithms (ay_server demo_sys)) ''g'' \<noteq> ''random''"
    by (simp add: demo_sys_def NewServer_def NewAlgorithmStore_def loadFile_def as_Get_def mapGet_def)
  ultimately have "ay_server (snd ?H) \<noteq> ay_server demo_sys" by metis
  then have "au_Time (last (al_entries (sr_audit (ay_admin (snd ?H))))) = aw_now (demo_world 6)"
    using admin_changes_guarded [of demo_lib "demo_world 6" demo_cp demo_submit demo_form demo_sys "fst ?H" "snd ?H"] by (simp add: Let_def)
  then show ?thesis using s by (simp add: demo_world_def)
qed

end
