(* ===== verification/AdminPages.thy ===== *)
theory AdminPages
  imports AdminHandlers
begin

text \<open>
  What the admin pages show (\<open>internal/admin/handlers.go\<close>, with the templates of \<open>internal/admin/templates.go\<close>): the
  data each page is rendered from, whether its template can be executed on it, and the forms of the dashboard with
  the fields a browser submits when nothing was edited. Markup, style and scripts are left out. HTML escaping is
  undone by the browser, so a field has the value that was put into it; the values have no line breaks.
\<close>

section \<open>Ages\<close>

abbreviation (input) hour :: duration where "hour \<equiv> 3600000000000"

text \<open>\<open>Seconds\<close>, \<open>Minutes\<close> and \<open>Hours\<close> of a duration: quotient and remainder are truncated, then added in \<open>float64\<close>.\<close>

definition durFloat :: "duration \<Rightarrow> duration \<Rightarrow> rat" where
  "durFloat u d = f64 (of_int (sgn d * (\<bar>d\<bar> div u)) + f64 (of_int (sgn d * (\<bar>d\<bar> mod u)) / of_int u))"

definition truncate_rat :: "rat \<Rightarrow> int" where
  "truncate_rat x = (if x < 0 then - \<lfloor>- x\<rfloor> else \<lfloor>x\<rfloor>)"

definition formatDuration :: "duration \<Rightarrow> string" where
  "formatDuration d =
     (if d < minute then FormatInt (truncate_rat (durFloat second d)) @ ''s''
      else if d < hour then FormatInt (truncate_rat (durFloat minute d)) @ ''m''
      else if d < 24 * hour then FormatInt (truncate_rat (durFloat hour d)) @ ''h''
      else FormatInt (truncate_rat (f64 (durFloat hour d / 24))) @ ''d'')"

lemma div_bounds: "0 < u \<Longrightarrow> d div u * u \<le> d \<and> d < (d div u + 1) * u" for d u :: int
proof -
  assume "0 < u"
  then have "0 \<le> d mod u" "d mod u < u" by simp_all
  moreover have "(d div u + 1) * u = d div u * u + u" by (simp add: distrib_right)
  ultimately show ?thesis using div_mult_mod_eq [of d u] by linarith
qed

lemma f64_le: "0 \<le> x \<Longrightarrow> f64 x \<le> x + x / 2 ^ 53"
proof (cases "x = 0")
  case False
  moreover assume "0 \<le> x"
  ultimately have "\<bar>f64_pos x - x\<bar> \<le> x / 2 ^ 53" "f64 x = f64_pos x" using f64_pos_error [of x] by (simp_all add: f64_def)
  then show ?thesis by linarith
qed simp

lemma f64_ge_int: "0 \<le> n \<Longrightarrow> n \<le> 2 ^ 53 \<Longrightarrow> of_int n \<le> x \<Longrightarrow> of_int n \<le> f64 x"
  using f64_mono [of "of_int n" x] f64_exact [of n] by simp

lemma durFloat_nonneg: "0 \<le> d \<Longrightarrow> durFloat u d = f64 (of_int (d div u) + f64 (of_int (d mod u) / of_int u))"
  by (cases "d = 0") (simp_all add: durFloat_def)

lemma durFloat_ge:
  assumes "0 \<le> d" "0 < u" "0 \<le> n" "n \<le> 2 ^ 53" "n * u \<le> d"
  shows "of_int n \<le> durFloat u d"
proof -
  have "n \<le> d div u" using zdiv_mono1 [OF assms(5,2)] assms(2) by simp
  moreover have "0 \<le> f64 (of_int (d mod u) / of_int u)" using assms(2) by (intro f64_nonneg) simp
  ultimately have "of_int n \<le> of_int (d div u) + f64 (of_int (d mod u) / of_int u)"
    by (metis add_increasing2 of_int_le_iff)
  then show ?thesis using assms(1,3,4) by (simp add: durFloat_nonneg f64_ge_int)
qed

lemma durFloat_le:
  assumes "0 \<le> d" "0 < u"
  shows "durFloat u d * of_int u \<le> (of_int d + of_int (d mod u) / 2 ^ 53) * (1 + 1 / 2 ^ 53)"
proof -
  define y where "y = f64 (of_int (d mod u) / of_int u)"
  have y: "0 \<le> y" "y \<le> of_int (d mod u) / of_int u + of_int (d mod u) / of_int u / 2 ^ 53"
    using assms f64_le [of "of_int (d mod u) / of_int u"] by (simp_all add: y_def f64_nonneg del: div_by_1)
  then have yu: "y * of_int u \<le> of_int (d mod u) + of_int (d mod u) / 2 ^ 53"
    using mult_right_mono [OF y(2), of "of_int u"] assms(2) by (simp add: field_simps)
  have q: "0 \<le> (of_int (d div u) :: rat)" using assms by (simp add: pos_imp_zdiv_nonneg_iff)
  have "of_int (d div u) * of_int u + of_int (d mod u) = (of_int d :: rat)"
    by (metis div_mult_mod_eq of_int_add of_int_mult)
  then have s: "(of_int (d div u) + y) * of_int u \<le> of_int d + of_int (d mod u) / 2 ^ 53"
    using yu by (simp add: distrib_right)
  have "durFloat u d \<le> (of_int (d div u) + y) * (1 + 1 / 2 ^ 53)"
  proof -
    have "durFloat u d = f64 (of_int (d div u) + y)" using assms(1) by (simp add: durFloat_nonneg y_def)
    also have "\<dots> \<le> of_int (d div u) + y + (of_int (d div u) + y) / 2 ^ 53" using q y(1) by (intro f64_le) simp
    also have "\<dots> = (of_int (d div u) + y) * (1 + 1 / 2 ^ 53)" by (simp only: distrib_left mult_1_right times_divide_eq_right)
    finally show ?thesis .
  qed
  then have "durFloat u d * of_int u \<le> (of_int (d div u) + y) * of_int u * (1 + 1 / 2 ^ 53)"
    using mult_right_mono [of "durFloat u d" _ "of_int u"] assms(2) by (simp add: mult.assoc mult.commute mult.left_commute)
  also have "\<dots> \<le> (of_int d + of_int (d mod u) / 2 ^ 53) * (1 + 1 / 2 ^ 53)"
    using s by (intro mult_right_mono) simp_all
  finally show ?thesis .
qed


text \<open>Below \<open>2 ^ 53\<close> nanoseconds (104 days) the whole part is that of the exact quotient.\<close>

lemma durFloat_floor:
  assumes "0 \<le> d" "0 < u" "d + 2 * u < 2 ^ 53"
  shows "\<lfloor>durFloat u d\<rfloor> = d div u"
proof (rule floor_unique)
  have q: "0 \<le> d div u" "d div u * u \<le> d" using assms div_bounds [OF assms(2)] by (simp_all add: pos_imp_zdiv_nonneg_iff)
  moreover have "d div u \<le> d" using q mult_left_mono [of 1 u "d div u"] assms(2) by linarith
  ultimately show "of_int (d div u) \<le> durFloat u d" using assms by (intro durFloat_ge) auto
  have "d mod u \<le> u - 1" "0 \<le> d mod u" using assms(2) by (simp_all add: zle_diff1_eq)
  then have m: "(of_int (d mod u) :: rat) \<le> of_int u - 1" "0 \<le> (of_int (d mod u) :: rat)"
    by (metis of_int_1 of_int_diff of_int_le_iff, simp)
  have split: "of_int (d div u) * of_int u + of_int (d mod u) = (of_int d :: rat)"
    by (metis div_mult_mod_eq of_int_add of_int_mult)
  have "of_int d + 2 * of_int u < (2 ^ 53 :: rat)" using assms(3) of_int_less_iff [of "d + 2 * u" "2 ^ 53", where 'a = rat] by simp
  moreover have "durFloat u d * of_int u \<le> (of_int d + of_int (d mod u) / 2 ^ 53) * (1 + 1 / 2 ^ 53)"
    using assms by (intro durFloat_le)
  moreover have "(of_int d + of_int (d mod u) / 2 ^ 53) * (1 + 1 / 2 ^ 53) \<le> of_int d + (of_int d + 2 * of_int (d mod u)) / (2 ^ 53 :: rat)"
    using m(2) by (simp add: field_simps)
  ultimately have "durFloat u d * of_int u < (of_int (d div u) + 1) * of_int u"
    using m split assms(1) by (simp add: field_simps)
  then show "durFloat u d < of_int (d div u) + 1" using assms(2) by (simp add: mult_less_cancel_right)
qed


text \<open>
  The label of an age is its whole number of the unit shown. For ages in days, where rounding can reach the next
  day too early, it is early by less than four microseconds.
\<close>

definition ageUnit :: "duration \<Rightarrow> duration \<times> string" where
  "ageUnit d = (if d < minute then (second, ''s'') else if d < hour then (minute, ''m'') else if d < 24 * hour then (hour, ''h'')
     else (24 * hour, ''d''))"

lemma days_early:
  assumes "24 * hour \<le> d" "d \<le> max_int64" "k = \<lfloor>f64 (durFloat hour d / 24)\<rfloor>"
  shows "k * (24 * hour) < d + 4000 \<and> d < (k + 1) * (24 * hour)"
proof
  have d: "0 \<le> d" "d \<le> 2 ^ 63" using assms(1,2) by (simp_all add: int64_defs)
  have h0: "0 \<le> durFloat hour d" using durFloat_ge [of d hour 0] d by simp
  have "of_int k \<le> f64 (durFloat hour d / 24)" using assms(3) by simp
  also have "\<dots> \<le> durFloat hour d / 24 * (1 + 1 / 2 ^ 53)"
    using f64_le [of "durFloat hour d / 24"] h0 by (simp only: distrib_left mult_1_right times_divide_eq_right)
  finally have "of_int k * (24 * of_int hour) \<le> durFloat hour d * of_int hour * (1 + 1 / 2 ^ 53)" by simp
  also have "\<dots> \<le> (of_int d + of_int (d mod hour) / 2 ^ 53) * (1 + 1 / 2 ^ 53) * (1 + 1 / 2 ^ 53)"
    using durFloat_le [of d hour] d by (intro mult_right_mono) simp_all
  also have "\<dots> < of_int d + 4000"
  proof -
    have "(of_int (d mod hour) :: rat) \<le> 3600000000000" "(of_int d :: rat) \<le> 2 ^ 63"
      using d(2) of_int_le_iff [of "d mod hour" 3600000000000, where 'a = rat] of_int_le_iff [of d "2 ^ 63", where 'a = rat]
      by (simp_all add: order_less_imp_le)
    then show ?thesis by simp
  qed
  finally have "of_int (k * (24 * hour)) < (of_int (d + 4000) :: rat)" by simp
  then show "k * (24 * hour) < d + 4000" by (simp only: of_int_less_iff)
  show "d < (k + 1) * (24 * hour)"
  proof (rule ccontr)
    assume "\<not> d < (k + 1) * (24 * hour)"
    then have le: "24 * (k + 1) * hour \<le> d" by simp
    then have "24 * (k + 1) \<le> 2 ^ 53" using d(2) by simp
    moreover have k0: "0 \<le> k" using assms(3) h0 by (simp add: f64_nonneg)
    ultimately have "of_int (24 * (k + 1)) \<le> durFloat hour d" using le d(1) by (intro durFloat_ge) auto
    then have "of_int (k + 1) \<le> durFloat hour d / 24" by simp
    then have "of_int (k + 1) \<le> f64 (durFloat hour d / 24)"
      using k0 \<open>24 * (k + 1) \<le> 2 ^ 53\<close> by (intro f64_ge_int) auto
    then have "k + 1 \<le> k" using assms(3) by (simp add: le_floor_iff)
    then show False by simp
  qed
qed

theorem age_label:
  assumes "0 \<le> d" "d \<le> max_int64" "ageUnit d = (u, suffix)"
  shows "\<exists>k. formatDuration d = FormatInt k @ suffix \<and> d < (k + 1) * u \<and> k * u < d + 4000 \<and> (d < 24 * hour \<longrightarrow> k = d div u)"
proof (cases "d < 24 * hour")
  case True
  then have u: "0 < u" "d + 2 * u < 2 ^ 53" "u = second \<or> u = minute \<or> u = hour"
    using assms(3) by (auto simp: ageUnit_def split: if_splits)
  have f: "\<lfloor>durFloat u d\<rfloor> = d div u" "0 \<le> durFloat u d" using durFloat_floor [OF assms(1) u(1,2)] durFloat_ge [OF assms(1) u(1), of 0] assms(1) by simp_all
  then have "formatDuration d = FormatInt (d div u) @ suffix" using True assms(3)
    by (auto simp: formatDuration_def ageUnit_def truncate_rat_def split: if_splits)
  moreover have "d < (d div u + 1) * u" "d div u * u \<le> d"
    using div_bounds [OF u(1)] by blast+
  ultimately show ?thesis by (intro exI [of _ "d div u"]) auto
next
  case False
  then have "u = 24 * hour" "suffix = ''d''" using assms(3) by (auto simp: ageUnit_def)
  moreover have "0 \<le> durFloat hour d" using durFloat_ge [of d hour 0] assms(1) by simp
  then have "0 \<le> f64 (durFloat hour d / 24)" by (simp add: f64_nonneg)
  ultimately show ?thesis using days_early [OF _ assms(2) refl] False
    by (intro exI [of _ "\<lfloor>f64 (durFloat hour d / 24)\<rfloor>"]) (auto simp: formatDuration_def truncate_rat_def)
qed


section \<open>What the pages are rendered from\<close>

record fleetRow =
  fr_InstanceID :: string
  fr_Group :: string
  fr_Connected :: bool
  fr_ConnectedFor :: string
  fr_LastHealthReport :: string
  fr_ReportedBackends :: int
  fr_HasHealthReport :: bool

definition fleetRowOf :: "gotime \<Rightarrow> InstanceState \<Rightarrow> fleetRow" where
  "fleetRowOf now inst =
     (let age = formatDuration (time_sub now (ist_ConnectedSince inst)) @ '' ago''; reported = (ist_LastHealthReport inst \<noteq> zero_time)
      in \<lparr>fr_InstanceID = ist_InstanceID inst, fr_Group = ist_Group inst, fr_Connected = ist_Connected inst,
          fr_ConnectedFor = (if ist_Connected inst then age else ''disconnected '' @ age),
          fr_LastHealthReport = (if reported then formatDuration (time_sub now (ist_LastHealthReport inst)) @ '' ago'' else []),
          fr_ReportedBackends = ist_ReportedBackends inst, fr_HasHealthReport = reported\<rparr>)"

record metricsChartPoint =
  cp_T :: int
  cp_Req :: int
  cp_Err :: int
  cp_Active :: int
  cp_AvgMs :: rat

text \<open>\<open>UnixMilli\<close>: the zero time is 62135596800 seconds before the epoch.\<close>

definition UnixMilli :: "gotime \<Rightarrow> int" where
  "UnixMilli t = (t - 62135596800 * second) div millisecond"

definition chartPoint :: "HistoryPoint \<Rightarrow> metricsChartPoint" where
  "chartPoint p = \<lparr>cp_T = UnixMilli (hs_Time p), cp_Req = hs_RequestsDelta p, cp_Err = hs_Errors5xxDelta p,
     cp_Active = hs_ActiveConns p, cp_AvgMs = hs_AvgDurationMs p\<rparr>"

definition jChartPoint :: "metricsChartPoint \<Rightarrow> json" where
  "jChartPoint p = JObj [(''t'', JInt (cp_T p)), (''req'', JInt (cp_Req p)), (''err'', JInt (cp_Err p)),
     (''active'', JInt (cp_Active p)), (''avgMs'', jFloat (cp_AvgMs p))]"

text \<open>The data of a page, and the token its forms carry; \<open>None\<close> for a page without a form.\<close>

datatype pageData =
    DashboardPage "GroupState list" "string list" "GroupMetricsSnapshot list"
  | FleetPage "fleetRow list"
  | RoutesPage "routeRow list" "string list" json nat
  | AuditPage "AuditEntry list"
  | PasswordPage
  | MetricsJSON json

text \<open>What a page reads from outside: the clock and the provider.\<close>

record pageWorld =
  pv_now :: gotime
  pv_groups :: "string list option"
  pv_snapshot :: "string \<Rightarrow> Snapshot option"

definition handleDashboard :: "pageWorld \<Rightarrow> 'st adminSys \<Rightarrow> pageData" where
  "handleDashboard pv sy =
     DashboardPage (sv_Snapshot (pv_now pv) (pv_groups pv) (pv_snapshot pv) (ay_server sy)) ValidAlgorithms
       (MetricsSnapshot (pv_now pv) (ay_server sy))"

definition handleFleetPage :: "pageWorld \<Rightarrow> 'st adminSys \<Rightarrow> pageData" where
  "handleFleetPage pv sy = FleetPage (map (fleetRowOf (pv_now pv)) (FleetSnapshot (ay_server sy)))"

definition handleRoutesPage :: "pageWorld \<Rightarrow> 'st adminSys \<Rightarrow> pageData" where
  "handleRoutesPage pv sy =
     (let groupNames = map grs_Group (sv_Snapshot (pv_now pv) (pv_groups pv) (pv_snapshot pv) (ay_server sy));
          routes = sv_Routes (ay_server sy)
      in RoutesPage (routesToRows routes) groupNames (JArr (map JStr groupNames)) (length routes))"

definition handleAuditPage :: "'st adminSys \<Rightarrow> pageData" where
  "handleAuditPage sy = AuditPage (al_Recent 200 (sr_audit (ay_admin sy)))"

definition handleMetricsJSON :: "'st adminSys \<Rightarrow> pageData" where
  "handleMetricsJSON sy = MetricsJSON (JArr (map (jChartPoint \<circ> chartPoint) (sv_MetricsHistory 120 (ay_server sy))))"

section \<open>Templates\<close>

text \<open>
  The fields of the structs a template ranges over, and the fields it uses. A key that the data map does not have is
  empty; a field that a struct does not have is an error, which ends the execution in the middle of the page.
\<close>

definition structFields :: "string \<Rightarrow> string list" where
  "structFields t =
     (if t = ''GroupState'' then [''Group'', ''Version'', ''Backends'', ''SubscriberCount'', ''Algorithm'', ''Sticky'', ''RateLimit'']
      else if t = ''BackendState'' then [''Address'', ''Weight'', ''Healthy'', ''HealthKnown'', ''Drained'', ''WeightOverridden'']
      else if t = ''GroupMetricsSnapshot'' then
        [''Group'', ''RequestsTotal'', ''Errors5xxTotal'', ''ActiveConnections'', ''AvgDurationMs'', ''ReportingInstances'']
      else if t = ''fleetRow'' then
        [''InstanceID'', ''Group'', ''Connected'', ''ConnectedFor'', ''LastHealthReport'', ''ReportedBackends'', ''HasHealthReport'']
      else if t = ''routeRow'' then
        [''Order'', ''Host'', ''PathPrefix'', ''Methods'', ''TargetGroup'', ''Split'', ''Name'', ''StripPrefix'', ''ReqHeaders'', ''Auth'', ''Match'']
      else if t = ''AuditEntry'' then [''Time'', ''Type'', ''IP'', ''Message'']
      else [])"

definition dashboardMetricsUses :: "string list" where
  "dashboardMetricsUses = [''Group'', ''RequestsTotal'', ''Errors5xxTotal'', ''ActiveConnections'', ''AvgDurationMs'', ''ReportingInstances'']"

definition dashboardGroupUses :: "string list" where
  "dashboardGroupUses = [''Group'', ''Algorithm'', ''Version'', ''Backends'', ''SubscriberCount'', ''Sticky'', ''RateLimit'']"

definition dashboardBackendUses :: "string list" where
  "dashboardBackendUses = [''Drained'', ''Address'', ''Weight'', ''WeightOverridden'', ''HealthKnown'', ''Healthy'']"

definition fleetUses :: "string list" where
  "fleetUses = [''InstanceID'', ''Group'', ''Connected'', ''ConnectedFor'', ''HasHealthReport'', ''LastHealthReport'', ''ReportedBackends'']"

definition routesUses :: "string list" where
  "routesUses = [''Order'', ''Name'', ''Host'', ''PathPrefix'', ''Methods'', ''TargetGroup'', ''Split'', ''StripPrefix'', ''ReqHeaders'',
     ''Match'', ''Auth'', ''Redirect'', ''IPACL'', ''Order'']"

definition auditUses :: "string list" where
  "auditUses = [''Time'', ''Type'', ''IP'', ''Message'']"

definition ranges_ok :: "string \<Rightarrow> string list \<Rightarrow> 'a list \<Rightarrow> bool" where
  "ranges_ok t uses xs \<longleftrightarrow> xs = [] \<or> list_all (\<lambda>f. f \<in> set (structFields t)) uses"

text \<open>Whether \<open>render\<close> completes the page, or writes an error into it.\<close>

fun render_ok :: "pageData \<Rightarrow> bool" where
  "render_ok (DashboardPage groups algorithms metrics) \<longleftrightarrow>
     ranges_ok ''GroupMetricsSnapshot'' dashboardMetricsUses metrics \<and> ranges_ok ''GroupState'' dashboardGroupUses groups \<and>
     list_all (\<lambda>g. ranges_ok ''BackendState'' dashboardBackendUses (grs_Backends g)) groups"
| "render_ok (FleetPage rows) \<longleftrightarrow> ranges_ok ''fleetRow'' fleetUses rows"
| "render_ok (RoutesPage rows groups groupsJSON nextOrder) \<longleftrightarrow> ranges_ok ''routeRow'' routesUses rows"
| "render_ok (AuditPage entries) \<longleftrightarrow> ranges_ok ''AuditEntry'' auditUses entries"
| "render_ok PasswordPage \<longleftrightarrow> True"
| "render_ok (MetricsJSON doc) \<longleftrightarrow> True"


definition pageName :: "pageData \<Rightarrow> string" where
  "pageName p = (case p of DashboardPage _ _ _ \<Rightarrow> ''dashboard'' | FleetPage _ \<Rightarrow> ''fleet'' | RoutesPage _ _ _ _ \<Rightarrow> ''routes''
     | AuditPage _ \<Rightarrow> ''audit'' | PasswordPage \<Rightarrow> ''password'' | MetricsJSON _ \<Rightarrow> ''metrics.json'')"

text \<open>The page that a GET is answered with.\<close>

definition admin_view :: "adminLib \<Rightarrow> adminWorld \<Rightarrow> pageWorld \<Rightarrow> Request \<Rightarrow> 'st adminSys \<Rightarrow> pageData option" where
  "admin_view lib w pv r sy =
     (let path = rq_Path r
      in if \<not> (rq_Method r = ''GET'' \<or> rq_Method r = ''HEAD'') \<or> path = ''/login'' \<or>
            \<not> validSession (lib_sign lib) (aw_now w) r (am_SessionSecret (ad_s (sr_store (ay_admin sy))))
         then None
         else Some (if path = ''/password'' then PasswordPage
                    else if path = ''/audit'' then handleAuditPage sy
                    else if path = ''/fleet'' then handleFleetPage pv sy
                    else if path = ''/routes'' then handleRoutesPage pv sy
                    else if path = ''/metrics.json'' then handleMetricsJSON sy
                    else handleDashboard pv sy))"

lemma template_fields:
  "list_all (\<lambda>f. f \<in> set (structFields ''GroupMetricsSnapshot'')) dashboardMetricsUses"
  "list_all (\<lambda>f. f \<in> set (structFields ''GroupState'')) dashboardGroupUses"
  "list_all (\<lambda>f. f \<in> set (structFields ''BackendState'')) dashboardBackendUses"
  "list_all (\<lambda>f. f \<in> set (structFields ''fleetRow'')) fleetUses"
  "list_all (\<lambda>f. f \<in> set (structFields ''AuditEntry'')) auditUses"
  "\<not> list_all (\<lambda>f. f \<in> set (structFields ''routeRow'')) routesUses"
  by code_simp+

lemma ranges_complete [simp]:
  "ranges_ok ''GroupMetricsSnapshot'' dashboardMetricsUses ms" "ranges_ok ''GroupState'' dashboardGroupUses gs"
  "ranges_ok ''BackendState'' dashboardBackendUses bs" "ranges_ok ''fleetRow'' fleetUses fs"
  "ranges_ok ''AuditEntry'' auditUses es" "ranges_ok ''routeRow'' routesUses rs \<longleftrightarrow> rs = []"
  by (simp_all add: ranges_ok_def template_fields)

lemma routesToRows_Nil [simp]: "routesToRows rs = [] \<longleftrightarrow> rs = []"
  by (cases rs) (simp_all add: routesToRows_def)

text \<open>
  What a signed-in administrator gets to see: a GET changes nothing and is answered with the page of its path,
  and every page can be rendered, with one exception: the page of the routes editor breaks off as soon as
  there is a rule, because its template uses two fields that a row does not have.
\<close>

theorem pages_render:
  assumes "admin_view lib w pv r sy = Some page"
  shows "(\<exists>rep. admin_Handler lib w cw r form sy = (Some rep, sy) \<and> ar_page rep = Page (pageName page) []) \<and>
    (render_ok page \<longleftrightarrow> \<not> (rq_Path r = ''/routes'' \<and> sv_Routes (ay_server sy) \<noteq> []))"
proof
  let ?p = "rq_Path r"
  have a: "rq_Method r = ''GET'' \<or> rq_Method r = ''HEAD''" "?p \<noteq> ''/login''"
    "validSession (lib_sign lib) (aw_now w) r (am_SessionSecret (ad_s (sr_store (ay_admin sy))))"
    and page: "page = (if ?p = ''/password'' then PasswordPage else if ?p = ''/audit'' then handleAuditPage sy
      else if ?p = ''/fleet'' then handleFleetPage pv sy else if ?p = ''/routes'' then handleRoutesPage pv sy
      else if ?p = ''/metrics.json'' then handleMetricsJSON sy else handleDashboard pv sy)"
    using assms by (auto simp: admin_view_def Let_def split: if_splits)
  show "\<exists>rep. admin_Handler lib w cw r form sy = (Some rep, sy) \<and> ar_page rep = Page (pageName page) []"
    using a by (auto simp: admin_Handler_def requireAuth_def handlePage_def page pageName_def handleAuditPage_def handleFleetPage_def
        handleRoutesPage_def handleMetricsJSON_def handleDashboard_def Let_def)
  show "render_ok page \<longleftrightarrow> \<not> (?p = ''/routes'' \<and> sv_Routes (ay_server sy) \<noteq> [])"
    unfolding page handleAuditPage_def handleFleetPage_def handleRoutesPage_def handleMetricsJSON_def handleDashboard_def Let_def
    by (simp add: list.pred_True)
qed


section \<open>The forms of the dashboard\<close>

text \<open>
  A form with the fields a browser sends when nothing is edited: a checkbox only when it is checked, and of a selection
  the selected option, or the first one when none is. \<open>showFloat\<close> is how a template prints a \<open>float64\<close>.
\<close>

record pageForm =
  fm_action :: string
  fm_fields :: "(string \<times> string) list"

definition submit :: "pageForm \<Rightarrow> string \<Rightarrow> string list" where
  "submit f name = map snd (filter (\<lambda>(n, v). n = name) (fm_fields f))"

definition selectedOption :: "string list \<Rightarrow> string \<Rightarrow> string" where
  "selectedOption options current = (if current \<in> set options then current else hd options)"

definition algorithmForm :: "string \<Rightarrow> GroupState \<Rightarrow> pageForm" where
  "algorithmForm token g = \<lparr>fm_action = ''/algorithm'',
     fm_fields = [(''csrf_token'', token), (''group'', grs_Group g), (''algorithm'', selectedOption ValidAlgorithms (grs_Algorithm g))]\<rparr>"

definition stickyForm :: "string \<Rightarrow> GroupState \<Rightarrow> pageForm" where
  "stickyForm token g = \<lparr>fm_action = ''/sticky'',
     fm_fields = [(''csrf_token'', token), (''group'', grs_Group g)] @ (if cs_Enabled (grs_Sticky g) then [(''enabled'', ''on'')] else []) @
       [(''cookie_name'', CookieDisplayName (grs_Sticky g)), (''ttl_minutes'', FormatInt (TTLMinutes (grs_Sticky g)))]\<rparr>"

definition rateLimitForm :: "(rat \<Rightarrow> string) \<Rightarrow> string \<Rightarrow> GroupState \<Rightarrow> pageForm" where
  "rateLimitForm showFloat token g = \<lparr>fm_action = ''/ratelimit'',
     fm_fields = [(''csrf_token'', token), (''group'', grs_Group g)] @ (if cr_Enabled (grs_RateLimit g) then [(''enabled'', ''on'')] else []) @
       [(''rps'', showFloat (RPSDisplay (grs_RateLimit g))), (''burst'', FormatInt (BurstDisplay (grs_RateLimit g)))]\<rparr>"

definition weightForm :: "string \<Rightarrow> GroupState \<Rightarrow> BackendState \<Rightarrow> pageForm" where
  "weightForm token g b = \<lparr>fm_action = ''/override'',
     fm_fields = [(''csrf_token'', token), (''group'', grs_Group g), (''address'', bst_Address b), (''action'', ''set_weight''),
       (''weight'', FormatInt (bst_Weight b))]\<rparr>"

definition drainForm :: "string \<Rightarrow> GroupState \<Rightarrow> BackendState \<Rightarrow> pageForm" where
  "drainForm token g b = \<lparr>fm_action = ''/override'',
     fm_fields = [(''csrf_token'', token), (''group'', grs_Group g), (''address'', bst_Address b),
       (''action'', if bst_Drained b then ''clear'' else ''drain'')]\<rparr>"

definition dashboardForms :: "(rat \<Rightarrow> string) \<Rightarrow> string \<Rightarrow> GroupState list \<Rightarrow> pageForm list" where
  "dashboardForms showFloat token groups =
     concat (map (\<lambda>g. [algorithmForm token g, stickyForm token g, rateLimitForm showFloat token g] @
       concat (map (\<lambda>b. [weightForm token g b, drainForm token g b]) (grs_Backends g))) groups)"

text \<open>Reading a submitted field.\<close>

lemma form_fields:
  "FormValue (submit (algorithmForm token g)) ''algorithm'' = selectedOption ValidAlgorithms (grs_Algorithm g)"
  "FormValue (submit (stickyForm token g)) ''enabled'' = (if cs_Enabled (grs_Sticky g) then ''on'' else [])"
  "FormValue (submit (stickyForm token g)) ''cookie_name'' = CookieDisplayName (grs_Sticky g)"
  "FormValue (submit (stickyForm token g)) ''ttl_minutes'' = FormatInt (TTLMinutes (grs_Sticky g))"
  "FormValue (submit (rateLimitForm sf token g)) ''enabled'' = (if cr_Enabled (grs_RateLimit g) then ''on'' else [])"
  "FormValue (submit (rateLimitForm sf token g)) ''rps'' = sf (RPSDisplay (grs_RateLimit g))"
  "FormValue (submit (rateLimitForm sf token g)) ''burst'' = FormatInt (BurstDisplay (grs_RateLimit g))"
  by (simp_all add: FormValue_def submit_def algorithmForm_def stickyForm_def rateLimitForm_def)

lemma form_common:
  assumes "f \<in> {algorithmForm token g, stickyForm token g, rateLimitForm sf token g}"
  shows "FormValue (submit f) ''csrf_token'' = token" "FormValue (submit f) ''group'' = grs_Group g"
  using assms by (auto simp: FormValue_def submit_def algorithmForm_def stickyForm_def rateLimitForm_def)

section \<open>Saving a form unchanged\<close>

lemma TTLMinutes_floor: "TTLMinutes c = \<lfloor>durFloat minute (effectiveTTL c)\<rfloor>"
proof -
  have "0 \<le> effectiveTTL c" by (simp add: effectiveTTL_def)
  then show ?thesis by (simp add: TTLMinutes_def durFloat_nonneg Let_def)
qed

lemma tight_FormatInt: "tight (FormatInt n)"
  using itoa_tight(1) [of "nat n"] itoa_tight(1) [of "nat (- n)"] by (auto simp: FormatInt_def tight_def asciiSpace_def)

text \<open>The time to live is shown in whole minutes and read back as such; below a minute it becomes the default.\<close>

lemma sticky_back:
  assumes "tight (cs_CookieName c)" "effectiveTTL c \<le> 100 * 24 * hour" "grs_Sticky g = c"
    and c': "c' = formSticky \<lparr>aq_http = r, aq_form = FormValue (submit (stickyForm token g))\<rparr>"
  shows "cs_Enabled c' = cs_Enabled c" "effectiveCookieName c' = effectiveCookieName c"
    "effectiveTTL c' = (if effectiveTTL c < minute then 30 * minute else effectiveTTL c div minute * minute)"
proof -
  let ?t = "effectiveTTL c"
  have name: "tight ''jb_affinity''" by (simp add: tight_def asciiSpace_def)
  have t: "0 < ?t" by (simp add: effectiveTTL_def)
  have n: "TTLMinutes c = ?t div minute" unfolding TTLMinutes_floor using t assms(2) by (intro durFloat_floor) auto
  have b: "0 \<le> ?t div minute" "?t div minute * minute \<le> ?t" using t div_bounds [of minute ?t] by (simp_all add: pos_imp_zdiv_nonneg_iff)
  have i: "is_int64 (?t div minute)" "is_int64 (?t div minute * minute)" using b assms(2) by (simp_all add: int64_defs)
  show "cs_Enabled c' = cs_Enabled c" "effectiveCookieName c' = effectiveCookieName c"
    using assms(1) name by (simp_all add: c' formSticky_def form_fields assms(3) CookieDisplayName_def effectiveCookieName_def)
  have "cs_TTL c' = (if 0 < ?t div minute then ?t div minute * minute else 0)"
    using i tight_FormatInt by (simp add: c' formSticky_def form_fields assms(3) n)
  moreover have "0 < ?t div minute \<longleftrightarrow> \<not> ?t < minute" using t by (simp add: pos_imp_zdiv_pos_iff not_less)
  ultimately show "effectiveTTL c' = (if ?t < minute then 30 * minute else ?t div minute * minute)"
    by (auto simp: effectiveTTL_def)
qed

lemma rateLimit_back:
  assumes "parseFloat (TrimSpace (sf (effectiveRPS c))) = Some (effectiveRPS c)" "is_int64 (cr_Burst c)" "grs_RateLimit g = c"
    and c': "c' = formRateLimit parseFloat \<lparr>aq_http = r, aq_form = FormValue (submit (rateLimitForm sf token g))\<rparr>"
  shows "cr_Enabled c' = cr_Enabled c" "effectiveRPS c' = effectiveRPS c" "effectiveBurst c' = effectiveBurst c"
proof -
  have r: "0 < effectiveRPS c" by (simp add: effectiveRPS_def)
  have b: "0 < effectiveBurst c" "is_int64 (effectiveBurst c)"
    using assms(2) by (auto simp: effectiveBurst_def int_of_float_def int64_defs Let_def)
  show "cr_Enabled c' = cr_Enabled c" by (simp add: c' formRateLimit_def form_fields assms(3))
  have "cr_RPS c' = effectiveRPS c" "cr_Burst c' = effectiveBurst c"
    using r b tight_FormatInt by (simp_all add: c' formRateLimit_def form_fields assms(1,3) RPSDisplay_def BurstDisplay_def)
  then show "effectiveRPS c' = effectiveRPS c" "effectiveBurst c' = effectiveBurst c"
    using r b by (simp_all add: effectiveRPS_def [of c'] effectiveBurst_def [of c'])
qed


lemma prepareSet_afterStore [simp]: "prepareSet m s (afterStore res (forceRepublish f g) sv) = prepareSet m s sv"
  by (simp add: prepareSet_def afterStore_def forceRepublish_def commitSet_def Let_def split: option.split)

lemma requireAuth_signed: "signedIn lib w (aq_http rq) sy \<Longrightarrow> requireAuth lib w h rq sy = h rq sy"
  by (simp add: requireAuth_def signedIn_def)

lemma changed_server: "ay_server (snd (changed lib w cw rq ty ok failed (res, sv, fs) sy)) = sv"
  by (simp add: changed_def Let_def split: storeResult.split)

text \<open>A setting that is replaced by one of the same effect leaves what is published as it was.\<close>

lemma as_Get_valid: "IsValidAlgorithm (as_Get st n)"
  by (simp add: as_Get_def IsValidAlgorithm_def ValidAlgorithms_def split: option.split)

lemma as_Set_Get:
  "as_Set env n a (st, fs) = (res, st', fs') \<Longrightarrow> as_Get st' m = as_Get st m \<or> m = n \<and> as_Get st' m = a"
  by (cases "as_data st")
    (auto simp: as_Set_def as_Get_def mapGet_def update_conv' Let_def split: prod.splits if_splits)

lemma ss_Set_Get:
  "ss_Set env n c (st, fs) = (res, st', fs') \<Longrightarrow> ss_Get st' m = ss_Get st m \<or> m = n \<and> ss_Get st' m = c"
  by (cases "ss_data st")
    (auto simp: ss_Set_def ss_Get_def mapGet_def update_conv' Let_def split: prod.splits if_splits)

lemma rs_Set_Get:
  "rs_Set env n c (st, fs) = (res, st', fs') \<Longrightarrow> rs_Get st' m = rs_Get st m \<or> m = n \<and> rs_Get st' m = c"
  by (cases "rs_data st")
    (auto simp: rs_Set_def rs_Get_def mapGet_def update_conv' Let_def split: prod.splits if_splits)

lemma prepareSet_SetAlgorithm:
  assumes "SetAlgorithm env f n (as_Get (sv_algorithms sv) n) (sv, fs) = (res, sv', fs')"
  shows "prepareSet m s sv' = prepareSet m s sv"
proof -
  obtain st where st: "as_Set env n (as_Get (sv_algorithms sv) n) (sv_algorithms sv, fs) = (res, st, fs')"
    "sv' = afterStore res (forceRepublish f n) (sv\<lparr>sv_algorithms := st\<rparr>)"
    using assms by (auto simp: SetAlgorithm_def split: prod.splits)
  then show ?thesis using as_Set_Get [OF st(1), of m] by (auto simp: prepareSet_def [of m s "sv\<lparr>sv_algorithms := st\<rparr>"] prepareSet_def [of m s sv])
qed

lemma prepareSet_SetSticky:
  assumes "SetSticky env f n c (sv, fs) = (res, sv', fs')" "c0 = ss_Get (sv_sticky sv) n"
    and "cs_Enabled c = cs_Enabled c0" "effectiveCookieName c = effectiveCookieName c0" "effectiveTTL c = effectiveTTL c0"
  shows "prepareSet m s sv' = prepareSet m s sv"
proof -
  obtain st where st: "ss_Set env n c (sv_sticky sv, fs) = (res, st, fs')"
    "sv' = afterStore res (forceRepublish f n) (sv\<lparr>sv_sticky := st\<rparr>)"
    using assms(1) by (auto simp: SetSticky_def split: prod.splits)
  have "snapshotToBackendSet g s os a c r = snapshotToBackendSet g s os a c0 r" for g os a r
    using assms(3-5) by (simp add: snapshotToBackendSet_def)
  then show ?thesis using ss_Set_Get [OF st(1), of m] st(2) assms(2)
    by (auto simp: prepareSet_def [of m s "sv\<lparr>sv_sticky := st\<rparr>"] prepareSet_def [of m s sv])
qed

lemma prepareSet_SetRateLimit:
  assumes "SetRateLimit env f n c (sv, fs) = (res, sv', fs')" "c0 = rs_Get (sv_rateLimits sv) n"
    and "cr_Enabled c = cr_Enabled c0" "effectiveRPS c = effectiveRPS c0" "effectiveBurst c = effectiveBurst c0"
  shows "prepareSet m s sv' = prepareSet m s sv"
proof -
  obtain st where st: "rs_Set env n c (sv_rateLimits sv, fs) = (res, st, fs')"
    "sv' = afterStore res (forceRepublish f n) (sv\<lparr>sv_rateLimits := st\<rparr>)"
    using assms(1) by (auto simp: SetRateLimit_def split: prod.splits)
  have "snapshotToBackendSet g s os a k c = snapshotToBackendSet g s os a k c0" for g os a k
    using assms(3-5) by (simp add: snapshotToBackendSet_def)
  then show ?thesis using rs_Set_Get [OF st(1), of m] st(2) assms(2)
    by (auto simp: prepareSet_def [of m s "sv\<lparr>sv_rateLimits := st\<rparr>"] prepareSet_def [of m s sv])
qed


text \<open>
  C40. The dashboard's settings forms are safe to save: when a signed-in administrator submits the algorithm, the
  affinity or the rate-limit form of a group as the page showed it, nothing that is published for any group changes,
  whether the store can be written or not. For this the time to live has to be a whole number of minutes up to 100
  days, and the rate shown has to be read back as it was printed.
\<close>

theorem unchanged_save:
  assumes "signedIn lib w r sy" "rq_Method r = ''POST''" "rq_Cookie r csrfCookieName = Some token" "token \<noteq> []"
    and "g = groupState now (ay_server sy) n snap" "n \<noteq> []"
    and "f \<in> {algorithmForm token g, stickyForm token g, rateLimitForm sf token g}" "rq_Path r = fm_action f"
    and "x = effectiveRPS (rs_Get (sv_rateLimits (ay_server sy)) n)" "cw_parseFloat cw (TrimSpace (sf x)) = Some x"
    and "tight (cs_CookieName (ss_Get (sv_sticky (ay_server sy)) n))"
    and "effectiveTTL (ss_Get (sv_sticky (ay_server sy)) n) \<le> 100 * 24 * hour" "minute dvd effectiveTTL (ss_Get (sv_sticky (ay_server sy)) n)"
    and "is_int64 (cr_Burst (rs_Get (sv_rateLimits (ay_server sy)) n))"
  shows "prepareSet m s (ay_server (snd (admin_Handler lib w cw r (submit f) sy))) = prepareSet m s (ay_server sy)"
proof -
  let ?sv = "ay_server sy" and ?rq = "\<lparr>aq_http = r, aq_form = FormValue (submit f)\<rparr>"
  have g: "grs_Group g = n" "grs_Algorithm g = as_Get (sv_algorithms ?sv) n" "grs_Sticky g = ss_Get (sv_sticky ?sv) n"
    "grs_RateLimit g = rs_Get (sv_rateLimits ?sv) n" using assms(5) by (simp_all add: groupState_def)
  have ok: "checkCSRF ?rq" "aq_form ?rq ''group'' = n"
    using assms(3,4) form_common [OF assms(7)] g(1) by (simp_all add: checkCSRF_def)
  consider (alg) "f = algorithmForm token g" | (sticky) "f = stickyForm token g" | (rate) "f = rateLimitForm sf token g" using assms(7) by auto
  then show ?thesis
  proof cases
    case alg
    then have h: "admin_Handler lib w cw r (submit f) sy = handleAlgorithmSubmit lib w cw ?rq sy"
      using assms(1,2,8) by (simp add: admin_Handler_def requireAuth_signed algorithmForm_def)
    have a: "aq_form ?rq ''algorithm'' = as_Get (sv_algorithms ?sv) n"
      using as_Get_valid by (simp add: alg form_fields selectedOption_def g(2) IsValidAlgorithm_mem)
    obtain res sv' fs' where r: "SetAlgorithm (cw_persist cw) (cw_snapshot cw) n (as_Get (sv_algorithms ?sv) n) (?sv, ay_fs sy) = (res, sv', fs')"
      by (metis prod_cases3)
    show ?thesis using prepareSet_SetAlgorithm [OF r] ok a assms(6) by (simp add: as_Get_valid h handleAlgorithmSubmit_def r changed_server)
  next
    case sticky
    then have h: "admin_Handler lib w cw r (submit f) sy = handleStickySubmit lib w cw ?rq sy"
      using assms(1,2,8) by (simp add: admin_Handler_def requireAuth_signed stickyForm_def)
    note b = sticky_back [OF assms(11,12) g(3), where r = r and token = token, OF refl]
    have "effectiveTTL (ss_Get (sv_sticky ?sv) n) div minute * minute = effectiveTTL (ss_Get (sv_sticky ?sv) n)"
      "\<not> effectiveTTL (ss_Get (sv_sticky ?sv) n) < minute"
      using assms(13) zdvd_imp_le [OF assms(13)] by (auto simp: effectiveTTL_def)
    then have t: "effectiveTTL (formSticky ?rq) = effectiveTTL (ss_Get (sv_sticky ?sv) n)" using b(3) sticky by simp
    obtain res sv' fs' where r: "SetSticky (cw_persist cw) (cw_snapshot cw) n (formSticky ?rq) (?sv, ay_fs sy) = (res, sv', fs')"
      by (metis prod_cases3)
    have "prepareSet m s sv' = prepareSet m s ?sv" using prepareSet_SetSticky [OF r refl] b(1,2) t sticky by simp
    then show ?thesis unfolding h using ok assms(6) by (simp add: handleStickySubmit_def r changed_server Let_def)
  next
    case rate
    then have h: "admin_Handler lib w cw r (submit f) sy = handleRateLimitSubmit lib w cw ?rq sy"
      using assms(1,2,8) by (simp add: admin_Handler_def requireAuth_signed rateLimitForm_def)
    note b = rateLimit_back [where sf = sf and parseFloat = "cw_parseFloat cw", OF assms(10) [unfolded assms(9)] assms(14) g(4), where r = r and token = token, OF refl]
    obtain res sv' fs' where r: "SetRateLimit (cw_persist cw) (cw_snapshot cw) n (formRateLimit (cw_parseFloat cw) ?rq) (?sv, ay_fs sy) = (res, sv', fs')"
      by (metis prod_cases3)
    have "prepareSet m s sv' = prepareSet m s ?sv" using prepareSet_SetRateLimit [OF r refl] b rate by simp
    then show ?thesis unfolding h using ok assms(6) by (simp add: handleRateLimitSubmit_def r changed_server Let_def)
  qed
qed


definition demo_get :: Request where
  "demo_get = demo_submit\<lparr>rq_Method := ''GET'', rq_Path := ''/fleet''\<rparr>"

theorem pages_render_witness:
  "\<exists>page. admin_view demo_lib (demo_world 6) \<lparr>pv_now = 6, pv_groups = None, pv_snapshot = \<lambda>_. None\<rparr> demo_get demo_sys = Some page \<and>
     render_ok page"
proof -
  let ?pv = "\<lparr>pv_now = 6, pv_groups = None, pv_snapshot = \<lambda>_. None\<rparr>"
  have "signedIn demo_lib (demo_world 6) demo_get demo_sys"
    using demo_submit_signed by (simp add: demo_get_def signedIn_def validSession_def rq_Cookie_def)
  then obtain page where v: "admin_view demo_lib (demo_world 6) ?pv demo_get demo_sys = Some page"
    by (simp add: admin_view_def signedIn_def demo_get_def)
  have "rq_Path demo_get = ''/fleet''" by (simp add: demo_get_def)
  then have "render_ok page" using pages_render [OF v, of demo_cp "\<lambda>_. []"] by simp
  then show ?thesis using v by blast
qed

theorem unchanged_save_witness:
  "let g = groupState 6 (ay_server demo_sys) ''g'' \<lparr>sn_Group = ''g'', sn_Backends = []\<rparr>
   in \<forall>s. prepareSet ''g'' s (ay_server (snd (admin_Handler demo_lib (demo_world 6) (demo_cp\<lparr>cw_parseFloat := \<lambda>_. Some 10\<rparr>) demo_submit
       (submit (algorithmForm ''c'' g)) demo_sys))) =
       prepareSet ''g'' s (ay_server demo_sys)"
  unfolding Let_def
proof
  fix s
  let ?g = "groupState 6 (ay_server demo_sys) ''g'' \<lparr>sn_Group = ''g'', sn_Backends = []\<rparr>"
  have r: "rq_Path demo_submit = ''/algorithm''" "rq_Method demo_submit = ''POST''" "rq_Cookie demo_submit csrfCookieName = Some ''c''"
    by (simp_all add: demo_submit_def demo_request_from_def rq_Cookie_def)
  have t: "ss_Get (sv_sticky (ay_server demo_sys)) ''g'' = zeroSticky" "rs_Get (sv_rateLimits (ay_server demo_sys)) ''g'' = zeroRateLimit"
    by (simp_all add: demo_sys_def NewServer_def NewStickyStore_def NewRateLimitStore_def loadFile_def ss_Get_def rs_Get_def mapGet_def)
  have z: "tight (cs_CookieName zeroSticky)" "effectiveTTL zeroSticky = 30 * minute" "effectiveRPS zeroRateLimit = 10" "is_int64 (cr_Burst zeroRateLimit)"
    by (simp_all add: zeroSticky_def zeroRateLimit_def tight_def effectiveTTL_def effectiveRPS_def int64_defs)
  show "prepareSet ''g'' s (ay_server (snd (admin_Handler demo_lib (demo_world 6) (demo_cp\<lparr>cw_parseFloat := \<lambda>_. Some 10\<rparr>) demo_submit
      (submit (algorithmForm ''c'' ?g)) demo_sys))) = prepareSet ''g'' s (ay_server demo_sys)"
    by (rule unchanged_save [OF demo_submit_signed r(2,3) _ refl, where x = 10 and sf = "\<lambda>_. []" and now = 6 and n = "''g''" and
          snap = "\<lparr>sn_Group = ''g'', sn_Backends = []\<rparr>"])
      (simp_all add: r(1) t z algorithmForm_def)
qed

section \<open>The fleet page\<close>

text \<open>
  The age of a disconnected instance is counted from the start of its last stream, not from its end: an instance
  that was connected for hours and disconnected a moment ago is shown as disconnected hours ago.
\<close>

theorem disconnected_age:
  assumes "inst \<noteq> []" "sv' = markInstanceDisconnected inst (markInstanceConnected t0 inst g sv)"
  shows "\<exists>row \<in> set (map (fleetRowOf now) (FleetSnapshot sv')). fr_InstanceID row = inst \<and> \<not> fr_Connected row \<and>
    fr_ConnectedFor row = ''disconnected '' @ formatDuration (time_sub now t0) @ '' ago''"
proof -
  let ?st = "\<lparr>is_group = g, is_connectedAt = t0, is_connected = False, is_lastHealthReportAt = zero_time, is_reportedBackends = 0\<rparr>"
  have "map_of (sv_instances sv') inst = Some ?st"
    using assms by (simp add: markInstanceDisconnected_def markInstanceConnected_def update_conv')
  then have m: "(inst, ?st) \<in> set (sv_instances sv')" by (rule map_of_SomeD)
  let ?i = "\<lparr>ist_InstanceID = inst, ist_Group = g, ist_Connected = False, ist_ConnectedSince = t0, ist_LastHealthReport = zero_time,
      ist_ReportedBackends = 0\<rparr>"
  have "?i \<in> set (FleetSnapshot sv')" using m by (force simp: FleetSnapshot_def)
  then show ?thesis by (auto simp: fleetRowOf_def Let_def intro!: bexI [of _ ?i])
qed

text \<open>
  The weight form of a drained backend puts it back into rotation: saved as it is shown, it replaces the
  override by one that is not drained.
\<close>

theorem weight_form_undrains:
  assumes "signedIn lib w r sy" "rq_Method r = ''POST''" "rq_Cookie r csrfCookieName = Some token" "token \<noteq> []" "rq_Path r = ''/override''"
    and "g = groupState now (ay_server sy) n snap" "n \<noteq> []" "b \<in> set (grs_Backends g)" "bst_Drained b" "bst_Address b \<noteq> []"
    and "0 \<le> bst_Weight b" "bst_Weight b \<le> max_int32" "os_data (sv_overrides (ay_server sy)) \<noteq> None"
  shows "map_of (os_GroupOverrides (sv_overrides (ay_server (snd (admin_Handler lib w cw r (submit (weightForm token g b)) sy)))) n)
      (bst_Address b) = Some \<lparr>ov_Weight = Some (bst_Weight b), ov_Drained = False\<rparr>"
proof -
  let ?rq = "\<lparr>aq_http = r, aq_form = FormValue (submit (weightForm token g b))\<rparr>"
  have f: "aq_form ?rq ''group'' = n" "aq_form ?rq ''address'' = bst_Address b" "aq_form ?rq ''action'' = ''set_weight''"
    "aq_form ?rq ''weight'' = FormatInt (bst_Weight b)" "aq_form ?rq ''csrf_token'' = token"
    using assms(6) by (simp_all add: FormValue_def submit_def weightForm_def groupState_def)
  have c: "checkCSRF ?rq" using assms(3,4) f(5) by (simp add: checkCSRF_def)
  have h: "admin_Handler lib w cw r (submit (weightForm token g b)) sy = handleOverrideSubmit lib w cw ?rq sy"
    using assms(1,2,5) by (simp add: admin_Handler_def requireAuth_signed)
  have i: "is_int64 (bst_Weight b)" using assms(11,12) by (simp add: int64_defs)
  obtain res sv' fs' where r: "SetOverride (cw_persist cw) (cw_snapshot cw) n (bst_Address b) (Some (bst_Weight b)) False (ay_server sy, ay_fs sy) =
      (res, sv', fs')" by (metis prod_cases3)
  have "sv_overrides (afterStore res' (forceRepublish k n) sv) = sv_overrides sv" for res' k and sv :: "'a Server"
    by (simp add: afterStore_def forceRepublish_def commitSet_def Let_def split: option.split)
  then have "map_of (os_GroupOverrides (sv_overrides sv') n) (bst_Address b) = Some \<lparr>ov_Weight = Some (bst_Weight b), ov_Drained = False\<rparr>"
    using r assms(13) by (auto simp: SetOverride_def os_Set_def os_GroupOverrides_def mapGet_def innerMap_def update_conv' Let_def split: prod.splits)
  then show ?thesis using c f assms(7,10-12) i by (simp add: h handleOverrideSubmit_def r changed_server Let_def)
qed

end
