(* ===== verification/GroupMgr.thy ===== *)
theory GroupMgr
  imports Selection HealthCheck "HOL-Library.AList"
begin

text \<open>
  The group manager (\<open>internal/dataplane/groups.go\<close>): one backend list per group, created on first use
  with the process-wide outlier configuration. The manager's map is the store of the lists; code that
  holds a pointer to a list works on the manager's copy under its group name. Starting a group's
  goroutines is recorded in \<open>gm_started\<close>: the group and the health checker made for it.
\<close>

section \<open>Definitions\<close>

record HealthCheckConfig =
  hcc_Interval :: duration
  hcc_Timeout :: duration
  hcc_FailureThreshold :: int
  hcc_SuccessThreshold :: int
  hcc_Mode :: string
  hcc_HTTPPath :: string
  hcc_HTTPExpectStatus :: int
  hcc_HTTPScheme :: string
  hcc_HTTPHost :: string

record 'l GroupManager =
  gm_healthCfg :: HealthCheckConfig
  gm_groups :: "(string \<times> 'l BackendList) list"
  gm_outlierCfg :: OutlierConfig
  gm_started :: "(string \<times> HealthChecker) list"

definition NewGroupManager :: "HealthCheckConfig \<Rightarrow> 'l GroupManager" where
  "NewGroupManager healthCfg =
     \<lparr>gm_healthCfg = healthCfg, gm_groups = [],
      gm_outlierCfg = \<lparr>oc_Enabled = False, oc_ConsecutiveErrors = 0, oc_BaseEjectDuration = 0,
                       oc_MaxEjectDuration = 0, oc_MaxEjectPercent = 0\<rparr>,
      gm_started = []\<rparr>"

definition gm_SetOutlierConfig :: "OutlierConfig \<Rightarrow> 'l GroupManager \<Rightarrow> 'l GroupManager" where
  "gm_SetOutlierConfig cfg m =
     m\<lparr>gm_outlierCfg := cfg, gm_groups := map (\<lambda>(g, bl). (g, bl_SetOutlierConfig cfg bl)) (gm_groups m)\<rparr>"

definition checkerFor :: "HealthCheckConfig \<Rightarrow> HealthChecker" where
  "checkerFor c =
     NewHealthChecker\<lparr>hc_Interval := hcc_Interval c, hc_Timeout := hcc_Timeout c,
       hc_FailureThreshold := hcc_FailureThreshold c, hc_SuccessThreshold := hcc_SuccessThreshold c,
       hc_Mode := hcc_Mode c, hc_HTTPPath := hcc_HTTPPath c, hc_HTTPExpectStatus := hcc_HTTPExpectStatus c,
       hc_HTTPScheme := hcc_HTTPScheme c, hc_HTTPHost := hcc_HTTPHost c\<rparr>"

definition gm_Ensure ::
    "nat stream \<Rightarrow> gotime \<Rightarrow> string \<Rightarrow> 'l GroupManager \<Rightarrow> 'l BackendList \<times> 'l GroupManager" where
  "gm_Ensure rng now g m =
     (case map_of (gm_groups m) g of
        Some bl \<Rightarrow> (bl, m)
      | None \<Rightarrow>
          (let bl = bl_SetOutlierConfig (gm_outlierCfg m) (NewBackendList rng now)
           in (bl, m\<lparr>gm_groups := AList.update g bl (gm_groups m),
                     gm_started := gm_started m @ [(g, checkerFor (gm_healthCfg m))]\<rparr>)))"

text \<open>Writing back the list a holder of the group's pointer has changed.\<close>

definition gm_put :: "string \<Rightarrow> 'l BackendList \<Rightarrow> 'l GroupManager \<Rightarrow> 'l GroupManager" where
  "gm_put g bl m = m\<lparr>gm_groups := AList.update g bl (gm_groups m)\<rparr>"

definition gm_Groups :: "'l GroupManager \<Rightarrow> string list" where
  "gm_Groups m = map fst (gm_groups m)"

definition gm_HealthyLen :: "'l GroupManager \<Rightarrow> int" where
  "gm_HealthyLen m = foldl (\<lambda>total (g, bl). total + bl_HealthyLen bl) 0 (gm_groups m)"

section \<open>Lemmas\<close>

text \<open>Every tracked group has exactly one list and was started exactly once.\<close>

definition gm_inv :: "'l GroupManager \<Rightarrow> bool" where
  "gm_inv m \<longleftrightarrow> distinct (gm_Groups m) \<and> map fst (gm_started m) = gm_Groups m"

lemma update_keys_new: "g \<notin> set (map fst xs) \<Longrightarrow> map fst (AList.update g v xs) = map fst xs @ [g]"
  by (induction xs) auto

lemma update_keys_old: "g \<in> set (map fst xs) \<Longrightarrow> map fst (AList.update g v xs) = map fst xs"
  by (induction xs) (auto simp: image_iff)

lemma gm_inv_init: "gm_inv (NewGroupManager cfg)"
  by (simp add: gm_inv_def NewGroupManager_def gm_Groups_def)

lemma gm_inv_Ensure: "gm_inv m \<Longrightarrow> gm_inv (snd (gm_Ensure rng now g m))"
  by (auto simp: gm_inv_def gm_Ensure_def gm_Groups_def Let_def map_of_eq_None_iff update_keys_new
      split: option.splits)

lemma gm_inv_put: "gm_inv m \<Longrightarrow> map_of (gm_groups m) g \<noteq> None \<Longrightarrow> gm_inv (gm_put g bl m)"
  by (auto simp: gm_inv_def gm_put_def gm_Groups_def map_of_eq_None_iff update_keys_old)

lemma gm_inv_SetOutlierConfig: "gm_inv m \<Longrightarrow> gm_inv (gm_SetOutlierConfig cfg m)"
  by (auto simp: gm_inv_def gm_SetOutlierConfig_def gm_Groups_def comp_def split_beta)

lemma Ensure_get: "map_of (gm_groups (snd (gm_Ensure rng now g m))) g = Some (fst (gm_Ensure rng now g m))"
  by (auto simp: gm_Ensure_def Let_def update_conv' split: option.splits)

lemma Ensure_other:
  "k \<noteq> g \<Longrightarrow> map_of (gm_groups (snd (gm_Ensure rng now g m))) k = map_of (gm_groups m) k"
  by (auto simp: gm_Ensure_def Let_def update_conv' split: option.splits)

text \<open>
  \<open>Ensure\<close> is idempotent and starts a group at most once, however often and in whatever order
  groups are asked for: every tracked group has one list and one set of goroutines, asking again
  returns the list already there, and no other group's list changes.
\<close>

theorem ensure_once:
  assumes "gm_inv m"
  shows "gm_inv (snd (gm_Ensure rng now g m)) \<and>
    gm_Ensure rng' now' g (snd (gm_Ensure rng now g m)) =
      (fst (gm_Ensure rng now g m), snd (gm_Ensure rng now g m)) \<and>
    (k = g \<or> map_of (gm_groups (snd (gm_Ensure rng now g m))) k = map_of (gm_groups m) k)"
  using gm_inv_Ensure [OF assms] Ensure_get [of rng now g m] Ensure_other [of k g rng now m]
  by (cases "k = g") (auto simp: gm_Ensure_def [of rng' now'])

definition demo_healthCfg :: HealthCheckConfig where
  "demo_healthCfg = \<lparr>hcc_Interval = 5, hcc_Timeout = 2, hcc_FailureThreshold = 3, hcc_SuccessThreshold = 2,
     hcc_Mode = [], hcc_HTTPPath = [], hcc_HTTPExpectStatus = 0, hcc_HTTPScheme = [], hcc_HTTPHost = []\<rparr>"

theorem ensure_once_witness:
  "\<forall>rng. length (gm_started (snd (gm_Ensure rng 2 ''web''
     (snd (gm_Ensure rng 1 ''web'' (NewGroupManager demo_healthCfg :: unit GroupManager)))))) = 1"
proof
  fix rng
  have "gm_started (snd (gm_Ensure rng 1 ''web'' (NewGroupManager demo_healthCfg :: unit GroupManager))) =
      [(''web'', checkerFor demo_healthCfg)]"
    by (simp add: gm_Ensure_def NewGroupManager_def Let_def)
  then show "length (gm_started (snd (gm_Ensure rng 2 ''web''
      (snd (gm_Ensure rng 1 ''web'' (NewGroupManager demo_healthCfg :: unit GroupManager)))))) = 1"
    by (simp add: ensure_once [OF gm_inv_init, THEN conjunct2, THEN conjunct1])
qed

end
