(* ===== verification/Proxy.thy ===== *)
theory Proxy
  imports GroupMgr Router Metrics
begin

text \<open>
  The L7 proxy (\<open>internal/dataplane/proxy.go\<close> and \<open>retrywriter.go\<close>): selecting a backend with or without
  session affinity, one proxied attempt, the bounded retries and the request handler.

  What happens upstream is an argument: \<open>outReq\<close> is the outbound request \<open>httputil.ReverseProxy\<close> prepares
  for a backend (hop-by-hop headers removed, URL and forwarding headers set) and \<open>roundTrip\<close> the answer of
  the backend to it, which is a connection-level error, a response, or a response whose body breaks off,
  on which the reverse proxy panics with \<open>ErrAbortHandler\<close> after forwarding what it has, or a switch to
  the protocol the request asked for, which needs the writer's connection. \<open>interim\<close> are the informational
  responses (1xx) that come before it, which the reverse proxy passes on to the writer as they arrive. A
  response is written as a whole: when its parts reach the client, the trailers and the bytes that flow
  after a switch are not modelled. Clock readings and the choice of a cancelled request context during a
  backoff are arguments as well. Logging is left out.
\<close>

section \<open>Configuration and writers\<close>

record ProxyConfig =
  pc_ConnectTimeout :: duration
  pc_ResponseTimeout :: duration
  pc_MaxRetries :: int
  pc_RetryBackoff :: duration
  pc_BackendProtocol :: string

definition proxy_withDefaults :: "ProxyConfig \<Rightarrow> ProxyConfig" where
  "proxy_withDefaults c =
     (let c1 = (if pc_ConnectTimeout c \<le> 0 then c\<lparr>pc_ConnectTimeout := 5 * second\<rparr> else c);
          c2 = (if pc_ResponseTimeout c1 < 0 then c1\<lparr>pc_ResponseTimeout := 0\<rparr>
                else if pc_ResponseTimeout c1 = 0 then c1\<lparr>pc_ResponseTimeout := 30 * second\<rparr> else c1);
          c3 = (if pc_MaxRetries c2 < 0 then c2\<lparr>pc_MaxRetries := 0\<rparr> else c2)
      in if pc_RetryBackoff c3 \<le> 0 then c3\<lparr>pc_RetryBackoff := 50 * millisecond\<rparr> else c3)"

record retryResponseWriter =
  rrw_header :: header
  rrw_body :: string
  rrw_statusCode :: int
  rrw_wroteHeader :: bool

definition newRetryResponseWriter :: retryResponseWriter where
  "newRetryResponseWriter =
     \<lparr>rrw_header = Map.empty, rrw_body = [], rrw_statusCode = 200, rrw_wroteHeader = False\<rparr>"

definition rrw_mapHeader :: "(header \<Rightarrow> header) \<Rightarrow> retryResponseWriter \<Rightarrow> retryResponseWriter" where
  "rrw_mapHeader f rw = rw\<lparr>rrw_header := f (rrw_header rw)\<rparr>"

definition rrw_WriteHeader :: "int \<Rightarrow> retryResponseWriter \<Rightarrow> retryResponseWriter" where
  "rrw_WriteHeader code rw =
     (if rrw_wroteHeader rw then rw else rw\<lparr>rrw_statusCode := code, rrw_wroteHeader := True\<rparr>)"

definition rrw_Write :: "string \<Rightarrow> retryResponseWriter \<Rightarrow> retryResponseWriter" where
  "rrw_Write b rw = rw\<lparr>rrw_wroteHeader := True, rrw_body := rrw_body rw @ b\<rparr>"

definition flushTo :: "retryResponseWriter \<Rightarrow> ResponseWriter \<Rightarrow> ResponseWriter" where
  "flushTo rw w =
     w_Write (rrw_body rw) (w_WriteHeader (rrw_statusCode rw) (w_mapHeader (header_AddAll (rrw_header rw)) w))"

section \<open>The reverse proxy\<close>

datatype upstream =
    UpError
  | UpResponse int header string
  | UpAborted int header string
  | UpSwitching header

text \<open>What \<open>ServeHTTP\<close> leaves behind: the status and error cells of the context, or a panic.\<close>

datatype attempt = Attempt int bool | Panicked

definition rp_interim ::
    "((header \<Rightarrow> header) \<Rightarrow> 'w \<Rightarrow> 'w) \<Rightarrow> (int \<Rightarrow> 'w \<Rightarrow> 'w) \<Rightarrow> (int \<times> header) list \<Rightarrow> 'w \<Rightarrow> 'w" where
  "rp_interim mapHeader writeHeader interim w =
     foldl (\<lambda>w (code, h). mapHeader (\<lambda>_. Map.empty) (writeHeader code (mapHeader (header_AddAll h) w))) w interim"

definition rp_ServeHTTP ::
    "((header \<Rightarrow> header) \<Rightarrow> 'w \<Rightarrow> 'w) \<Rightarrow> (int \<Rightarrow> 'w \<Rightarrow> 'w) \<Rightarrow> (string \<Rightarrow> 'w \<Rightarrow> 'w) \<Rightarrow> ('w \<Rightarrow> 'w option)
       \<Rightarrow> routeRewrite \<Rightarrow> (int \<times> header) list \<Rightarrow> upstream \<Rightarrow> 'w \<Rightarrow> attempt \<times> 'w" where
  "rp_ServeHTTP mapHeader writeHeader wr hijack rw interim up w0 =
     (let w = rp_interim mapHeader writeHeader interim w0
      in case up of
        UpError \<Rightarrow> (Attempt 502 True, http_Error_on mapHeader writeHeader wr ''upstream request failed'' 502 w)
      | UpResponse code h body \<Rightarrow>
          (Attempt code False, wr body (writeHeader code (mapHeader (header_AddAll (applyResponse rw h)) w)))
      | UpAborted code h part \<Rightarrow>
          (Panicked, wr part (writeHeader code (mapHeader (header_AddAll (applyResponse rw h)) w)))
      | UpSwitching h \<Rightarrow>
          (case hijack (mapHeader (header_AddAll (applyResponse rw h)) w) of
             None \<Rightarrow> (Attempt 502 True, http_Error_on mapHeader writeHeader wr ''upstream request failed'' 502 w)
           | Some w1 \<Rightarrow> (Attempt 101 False, w1)))"

section \<open>Selecting a backend\<close>

definition setAffinityCookie :: "string \<Rightarrow> string \<Rightarrow> duration \<Rightarrow> ResponseWriter \<Rightarrow> ResponseWriter" where
  "setAffinityCookie cookieName addr ttl w =
     (let ttl = (if ttl \<le> 0 then 30 * minute else ttl) in SetCookie cookieName addr (int_Seconds ttl) w)"

definition selectBackend ::
    "gotime \<Rightarrow> Request \<Rightarrow> ResponseWriter \<times> 'l BackendList \<Rightarrow> string option \<times> ResponseWriter \<times> 'l BackendList" where
  "selectBackend now r wb =
     (let (w, b) = wb; sticky = bl_sticky b
      in if \<not> sc_Enabled sticky then (let (a, b1) = bl_NextForKey now (clientIP r) b in (a, w, b1))
         else
           (let cookieName = (if sc_CookieName sticky = [] then ''jb_affinity'' else sc_CookieName sticky);
                pinned = (case rq_Cookie r cookieName of
                            None \<Rightarrow> None | Some v \<Rightarrow> if v = [] then None else Some v);
                (hit, b1) = (case pinned of None \<Rightarrow> (False, b) | Some v \<Rightarrow> bl_PinTo now v b)
            in if hit then (pinned, setAffinityCookie cookieName (the pinned) (sc_TTL sticky) w, b1)
               else
                 (case bl_NextForKey now (clientIP r) b1 of
                    (None, b2) \<Rightarrow> (None, w, b2)
                  | (Some a, b2) \<Rightarrow> (Some a, setAffinityCookie cookieName a (sc_TTL sticky) w, b2))))"

section \<open>One attempt\<close>

record attemptEnv =
  ae_select :: gotime
  ae_done :: gotime
  ae_interim :: "string \<Rightarrow> Request \<Rightarrow> (int \<times> header) list"
  ae_roundTrip :: "string \<Rightarrow> Request \<Rightarrow> upstream"
  ae_ctxDone :: bool

definition serveOnce ::
    "(string \<Rightarrow> Request \<Rightarrow> Request) \<Rightarrow> routeRewrite \<Rightarrow> attemptEnv \<Rightarrow> Request \<Rightarrow> string \<Rightarrow> bool
       \<Rightarrow> ResponseWriter \<times> 'l BackendList \<Rightarrow> attempt \<times> ResponseWriter \<times> 'l BackendList" where
  "serveOnce outReq rw env r addr buffered wb =
     (let (w, b) = wb;
          out = applyRequest rw (outReq addr r);
          interim = ae_interim env addr out;
          up = ae_roundTrip env addr out;
          result = (\<lambda>code failed. bl_Release addr (bl_RecordResult (ae_done env) addr (\<not> failed \<and> code < 500) b))
      in if buffered then
           (case rp_ServeHTTP rrw_mapHeader rrw_WriteHeader rrw_Write (\<lambda>_. None) rw interim up newRetryResponseWriter of
              (Panicked, _) \<Rightarrow> (Panicked, w, bl_Release addr b)
            | (Attempt code failed, rrw) \<Rightarrow>
                if failed then (Attempt code True, w, result code failed)
                else (Attempt code False, flushTo rrw w, result code failed))
         else
           (case rp_ServeHTTP w_mapHeader w_WriteHeader w_Write w_Hijack rw interim up w of
              (Panicked, w1) \<Rightarrow> (Panicked, w1, bl_Release addr b)
            | (Attempt code failed, w1) \<Rightarrow> (Attempt code failed, w1, result code failed)))"

section \<open>Retries\<close>

definition requestIsUpgrade :: "Request \<Rightarrow> bool" where
  "requestIsUpgrade r =
     (if list_ex (\<lambda>v. list_ex (\<lambda>tok. EqualFold (trimSpace tok) ''upgrade'') (split_on (CHR '','') v))
           (header_Values (rq_Header r) ''Connection'')
      then header_Get (rq_Header r) ''Upgrade'' \<noteq> [] else False)"

definition requestRetryable :: "Request \<Rightarrow> bool" where
  "requestRetryable r =
     (if requestIsUpgrade r then False
      else if rq_HasBody r \<and> rq_ContentLength r \<noteq> 0 then False
      else rq_Method r \<in> {''GET'', ''HEAD'', ''OPTIONS'', ''TRACE''})"

record requestInfo =
  ri_backend :: string
  ri_retries :: int
  ri_group :: string

record 'l proxyState =
  ps_w :: ResponseWriter
  ps_b :: "'l BackendList"
  ps_metrics :: "Metrics option"
  ps_info :: "requestInfo option"

datatype served = Served int | NoBackend | Aborted

definition recordBackend :: "string \<Rightarrow> string \<Rightarrow> nat \<Rightarrow> requestInfo option \<Rightarrow> requestInfo option" where
  "recordBackend g addr retries info =
     map_option (\<lambda>ri. ri\<lparr>ri_group := g, ri_backend := addr, ri_retries := int retries\<rparr>) info"

text \<open>
  The loop of \<open>serveWithRetries\<close>: \<open>left\<close> attempts remain, \<open>i\<close> were made, and \<open>envs i\<close> is what the
  world does in attempt \<open>i\<close>.
\<close>

fun retryLoop ::
    "(string \<Rightarrow> Request \<Rightarrow> Request) \<Rightarrow> routeRewrite \<Rightarrow> (nat \<Rightarrow> attemptEnv) \<Rightarrow> ProxyConfig \<Rightarrow> Request \<Rightarrow> string \<Rightarrow> bool
       \<Rightarrow> nat \<Rightarrow> nat \<Rightarrow> 'l proxyState \<Rightarrow> served \<times> 'l proxyState" where
  "retryLoop outReq rw envs cfg r g retryable 0 i s = (Served 502, s)"
| "retryLoop outReq rw envs cfg r g retryable (Suc left) i s =
     (case selectBackend (ae_select (envs i)) r (ps_w s, ps_b s) of
        (None, w1, b1) \<Rightarrow> (NoBackend, s\<lparr>ps_w := w1, ps_b := b1\<rparr>)
      | (Some addr, w1, b1) \<Rightarrow>
          (let lastAttempt = (left = 0);
               (res, w2, b2) = serveOnce outReq rw (envs i) r addr (retryable \<and> \<not> lastAttempt) (w1, b1);
               s1 = s\<lparr>ps_w := w2, ps_b := b2, ps_info := recordBackend g addr i (ps_info s)\<rparr>
           in case res of
                Panicked \<Rightarrow> (Aborted, s1)
              | Attempt code failed \<Rightarrow>
                  if \<not> failed \<or> lastAttempt then (Served code, s1)
                  else
                    (let s2 = s1\<lparr>ps_metrics := map_option (ObserveRetry g) (ps_metrics s1)\<rparr>
                     in if pc_RetryBackoff cfg > 0 \<and> ae_ctxDone (envs i) then (Served 502, s2)
                        else retryLoop outReq rw envs cfg r g retryable left (Suc i) s2)))"

definition serveWithRetries ::
    "(string \<Rightarrow> Request \<Rightarrow> Request) \<Rightarrow> routeRewrite \<Rightarrow> (nat \<Rightarrow> attemptEnv) \<Rightarrow> ProxyConfig \<Rightarrow> Request \<Rightarrow> string
       \<Rightarrow> 'l proxyState \<Rightarrow> served \<times> 'l proxyState" where
  "serveWithRetries outReq rw envs cfg r g s =
     (let retryable = requestRetryable r;
          attempts = (if retryable then 1 + pc_MaxRetries cfg else 1)
      in retryLoop outReq rw envs cfg r g retryable (nat attempts) 0 s)"

section \<open>The handler\<close>

text \<open>
  The transport of the reverse proxy. \<open>dialLimit\<close> and \<open>responseLimit\<close> are how long a round trip may dial, and how
  long it waits for the header of the response; \<open>None\<close> is for ever. The HTTP/2 transport has no setting for the
  second.
\<close>

record httpTransport =
  ht_DialTimeout :: duration
  ht_KeepAlive :: duration
  ht_ForceAttemptHTTP2 :: bool
  ht_MaxIdleConns :: int
  ht_IdleConnTimeout :: duration
  ht_TLSHandshakeTimeout :: duration
  ht_ExpectContinueTimeout :: duration
  ht_ResponseHeaderTimeout :: duration

record http2Transport =
  h2_DialTimeout :: duration
  h2_KeepAlive :: duration
  h2_AllowHTTP :: bool

datatype roundTripper = HTTP1Transport httpTransport | H2CTransport http2Transport

definition newTransport :: "ProxyConfig \<Rightarrow> roundTripper" where
  "newTransport cfg =
     (if pc_BackendProtocol cfg = ''h2c''
      then H2CTransport \<lparr>h2_DialTimeout = pc_ConnectTimeout cfg, h2_KeepAlive = 30 * second, h2_AllowHTTP = True\<rparr>
      else HTTP1Transport \<lparr>ht_DialTimeout = pc_ConnectTimeout cfg, ht_KeepAlive = 30 * second, ht_ForceAttemptHTTP2 = True,
             ht_MaxIdleConns = 100, ht_IdleConnTimeout = 90 * second, ht_TLSHandshakeTimeout = pc_ConnectTimeout cfg,
             ht_ExpectContinueTimeout = second, ht_ResponseHeaderTimeout = pc_ResponseTimeout cfg\<rparr>)"

fun dialLimit :: "roundTripper \<Rightarrow> duration" where
  "dialLimit (HTTP1Transport t) = ht_DialTimeout t"
| "dialLimit (H2CTransport t) = h2_DialTimeout t"

fun responseLimit :: "roundTripper \<Rightarrow> duration option" where
  "responseLimit (HTTP1Transport t) = (if 0 < ht_ResponseHeaderTimeout t then Some (ht_ResponseHeaderTimeout t) else None)"
| "responseLimit (H2CTransport t) = None"

record 'l Proxy =
  px_routes :: RouteTable
  px_groups :: "'l GroupManager"
  px_metrics :: "Metrics option"
  px_cfg :: ProxyConfig
  px_transport :: roundTripper

definition NewProxy :: "RouteTable \<Rightarrow> 'l GroupManager \<Rightarrow> Metrics option \<Rightarrow> ProxyConfig \<Rightarrow> 'l Proxy" where
  "NewProxy routes groups metrics cfg =
     (let cfg = proxy_withDefaults cfg
      in \<lparr>px_routes = routes, px_groups = groups, px_metrics = metrics, px_cfg = cfg, px_transport = newTransport cfg\<rparr>)"

text \<open>
  The world of one request: the generator of a list created for it, the clock readings (start,
  rate-limit check, end), the attempts, and the library functions the request meets.
\<close>

record ('l, 'k) handlerEnv =
  he_rng :: "nat stream"
  he_start :: gotime
  he_limit :: gotime
  he_end :: gotime
  he_attempts :: "nat \<Rightarrow> attemptEnv"
  he_outReq :: "string \<Rightarrow> Request \<Rightarrow> Request"
  he_newLimiter :: "rat \<Rightarrow> int \<Rightarrow> 'l"
  he_limAllow :: "'l \<Rightarrow> gotime \<Rightarrow> bool \<times> 'l"
  he_jwtParse :: "'k jwtParser"
  he_parseKey :: "string \<Rightarrow> string + 'k"

definition observe :: "gotime \<Rightarrow> gotime \<Rightarrow> string \<Rightarrow> int \<Rightarrow> Metrics option \<Rightarrow> Metrics option" where
  "observe start now g code m = map_option (ObserveHTTPRequest now g code (time_sub now start)) m"

definition gauge :: "gotime \<Rightarrow> string \<Rightarrow> int \<Rightarrow> Metrics option \<Rightarrow> Metrics option" where
  "gauge now g delta m = map_option (SetActiveConnections now g delta) m"

definition Handler ::
    "('l, 'k) handlerEnv \<Rightarrow> Request \<Rightarrow> 'l Proxy \<Rightarrow> ResponseWriter \<Rightarrow> requestInfo option
       \<Rightarrow> bool \<times> 'l Proxy \<times> ResponseWriter \<times> requestInfo option" where
  "Handler env r p w info =
     (let ((g, rw, auth), routes) =
            resolveMatch (rq_Host r) (rq_Path r) (rq_Method r) (Some (rq_Header r)) (Some (rq_Query r)) (px_routes p);
          p1 = p\<lparr>px_routes := routes\<rparr>
      in if auth_enabled auth \<and> authenticate (he_jwtParse env) (he_parseKey env) auth r \<noteq> None
         then (False, p1,
               http_Error ''unauthorized'' 401 (w_mapHeader (header_Set ''WWW-Authenticate'' (authChallenge auth)) w), info)
         else
           (let (b0, groups) = gm_Ensure (he_rng env) (he_start env) g (px_groups p1);
                m1 = gauge (he_start env) g 1 (px_metrics p1);
                (ok, b1) = bl_RateLimitAllow (he_newLimiter env) (he_limAllow env) (he_limit env) (clientIP r) b0
            in if \<not> ok then
                 (False, p1\<lparr>px_groups := gm_put g b1 groups,
                            px_metrics := gauge (he_end env) g (- 1)
                              (observe (he_start env) (he_end env) g 429 m1)\<rparr>,
                  http_Error ''rate limit exceeded'' 429 w, info)
               else
                 (let (res, s) = serveWithRetries (he_outReq env) rw (he_attempts env) (px_cfg p1) r g
                        \<lparr>ps_w = w, ps_b = b1, ps_metrics = m1, ps_info = info\<rparr>;
                      finish = (\<lambda>m. p1\<lparr>px_groups := gm_put g (ps_b s) groups, px_metrics := gauge (he_end env) g (- 1) m\<rparr>)
                  in case res of
                       Aborted \<Rightarrow> (True, finish (ps_metrics s), ps_w s, ps_info s)
                     | NoBackend \<Rightarrow>
                         (False, finish (observe (he_start env) (he_end env) g 503 (ps_metrics s)),
                          http_Error ''no healthy backends available'' 503 (ps_w s), ps_info s)
                     | Served code \<Rightarrow>
                         (False, finish (observe (he_start env) (he_end env) g code (ps_metrics s)), ps_w s, ps_info s))))"

end
