(* ===== verification/ProxyProps.thy ===== *)
theory ProxyProps
  imports Proxy BackendProps
begin

text \<open>
  The properties of the L7 proxy: a buffered attempt ends as an unbuffered one, no connection count leaks
  on any path, the number of attempts is bounded, the status that is sent is the one that is counted, and
  the authentication and rate-limit gates come before any backend is touched.
\<close>

section \<open>The two writers of an attempt\<close>

interpretation retry_writer: response_writer rrw_mapHeader rrw_WriteHeader rrw_Write
  "\<lambda>w. if rrw_wroteHeader w then Some (rrw_statusCode w) else None" rrw_header rrw_body
  "\<lambda>w. rrw_wroteHeader w \<or> rrw_statusCode w = 200"
  by unfold_locales (auto simp: rrw_mapHeader_def rrw_WriteHeader_def rrw_Write_def)

lemma AddAll_twice: "header_AddAll (header_AddAll h Map.empty) = header_AddAll h"
  by (auto simp: header_AddAll_def fun_eq_iff split: option.splits)

lemma rp_interim_Nil [simp]: "rp_interim mh wh [] w = w"
  by (simp add: rp_interim_def)

lemma flush_response:
  "rp_ServeHTTP rrw_mapHeader rrw_WriteHeader rrw_Write hj rw [] (UpResponse code h body) newRetryResponseWriter = (a, rrw) \<Longrightarrow>
     flushTo rrw w = snd (rp_ServeHTTP w_mapHeader w_WriteHeader w_Write hj' rw [] (UpResponse code h body) w)"
  by (auto simp: rp_ServeHTTP_def newRetryResponseWriter_def rrw_mapHeader_def rrw_WriteHeader_def rrw_Write_def
      flushTo_def AddAll_twice)

text \<open>
  A buffered attempt ends as an unbuffered one: when the backend answers, and sent no interim response, the
  two leave writer and backend list in the same state; when it fails at the connection level or breaks off,
  or asks for a switch of protocols, which a buffer cannot do, the client's writer is untouched, so a retry
  starts from a clean response. This is about the end of the attempt: nothing of a buffered response reaches
  the client before it is complete.
\<close>

lemma buffering_same_end:
  assumes "ae_interim env addr (applyRequest rw (outReq addr r)) = []"
  shows "case ae_roundTrip env addr (applyRequest rw (outReq addr r)) of
     UpResponse code h body \<Rightarrow>
       serveOnce outReq rw env r addr True (w, b) = serveOnce outReq rw env r addr False (w, b)
   | UpError \<Rightarrow> fst (snd (serveOnce outReq rw env r addr True (w, b))) = w \<and>
       fst (serveOnce outReq rw env r addr True (w, b)) = Attempt 502 True
   | UpAborted code h part \<Rightarrow> fst (snd (serveOnce outReq rw env r addr True (w, b))) = w \<and>
       fst (serveOnce outReq rw env r addr True (w, b)) = Panicked
   | UpSwitching h \<Rightarrow> fst (snd (serveOnce outReq rw env r addr True (w, b))) = w \<and>
       fst (serveOnce outReq rw env r addr True (w, b)) = Attempt 502 True"
proof (cases "ae_roundTrip env addr (applyRequest rw (outReq addr r))")
  case (UpResponse code h body)
  obtain rrw where s: "rp_ServeHTTP rrw_mapHeader rrw_WriteHeader rrw_Write (\<lambda>_. None) rw [] (UpResponse code h body)
      newRetryResponseWriter = (Attempt code False, rrw)"
    by (simp add: rp_ServeHTTP_def)
  show ?thesis
    using UpResponse flush_response [OF s, of w w_Hijack] s assms by (simp add: serveOnce_def rp_ServeHTTP_def Let_def)
qed (simp_all add: serveOnce_def rp_ServeHTTP_def Let_def)

section \<open>Connection counts\<close>

definition conns :: "'l BackendList \<Rightarrow> (string \<times> int) list" where
  "conns b = map (\<lambda>e. (be_address e, be_activeConns e)) (bl_entries b)"

lemma conns_upd: "(\<And>e. be_address (f e) = be_address e \<and> be_activeConns (f e) = be_activeConns e) \<Longrightarrow>
    conns (upd_entry a f b) = conns b"
  by (simp add: conns_def upd_entry_map)

lemma conns_RecordResult: "conns (bl_RecordResult now a ok b) = conns b"
proof (cases rule: RecordResult_cases [of now a ok b])
  case (eject e)
  have "conns (rebuildSlotsLocked now c) = conns c" for c :: "'a BackendList" by (simp add: conns_def)
  then show ?thesis unfolding eject(7) by (simp add: conns_upd)
qed (simp_all add: conns_upd)

lemma map_update_first_via:
  "(\<And>x. p x = q (g x)) \<Longrightarrow> (\<And>x. g (f x) = k (g x)) \<Longrightarrow> map g (update_first p f xs) = update_first q k (map g xs)"
  by (induction xs) auto

lemma conns_Release:
  "conns (bl_Release a b) = update_first (\<lambda>x. fst x = a) (\<lambda>x. if snd x \<le> 0 then x else (fst x, snd x - 1)) (conns b)"
  unfolding conns_def bl_Release_def upd_entry_def
  by (simp add: map_update_first_via [where g = "\<lambda>e. (be_address e, be_activeConns e)"
        and q = "\<lambda>x. fst x = a" and k = "\<lambda>x. if snd x \<le> 0 then x else (fst x, snd x - 1)"])

lemma conns_entries: "bl_entries b = bl_entries b' \<Longrightarrow> conns b = conns b'"
  by (simp add: conns_def)

text \<open>What a selection guarantees to the code that serves and releases.\<close>

lemma cookie_sent: "rw_sent (setAffinityCookie n v ttl w) = rw_sent w"
  by (simp add: setAffinityCookie_def SetCookie_def Let_def)

lemma PinTo_miss: "\<not> fst (bl_PinTo now v b) \<Longrightarrow> snd (bl_PinTo now v b) = b"
  by (auto simp: bl_PinTo_def split: option.splits if_splits)

text \<open>A selection is a normal one or a pin to the cookie's value.\<close>

lemma selectBackend_cases:
  obtains (normal) w1 where
      "selectBackend now r (w, b) =
         (fst (bl_NextForKey now (clientIP r) b), w1, snd (bl_NextForKey now (clientIP r) b))"
      "rw_sent w1 = rw_sent w"
  | (pin) v w1 where "fst (bl_PinTo now v b)"
      "selectBackend now r (w, b) = (Some v, w1, snd (bl_PinTo now v b))" "rw_sent w1 = rw_sent w"
proof (cases "sc_Enabled (bl_sticky b)")
  case False
  then show thesis by (intro normal [of w]) (simp_all add: selectBackend_def Let_def split_beta)
next
  case True
  define name where "name = (if sc_CookieName (bl_sticky b) = [] then ''jb_affinity'' else sc_CookieName (bl_sticky b))"
  define pinned where "pinned = (case rq_Cookie r name of None \<Rightarrow> None | Some v \<Rightarrow> if v = [] then None else Some v)"
  define ttl where "ttl = sc_TTL (bl_sticky b)"
  have sel: "selectBackend now r (w, b) =
      (let (hit, b1) = (case pinned of None \<Rightarrow> (False, b) | Some v \<Rightarrow> bl_PinTo now v b)
       in if hit then (pinned, setAffinityCookie name (the pinned) ttl w, b1)
          else (case bl_NextForKey now (clientIP r) b1 of
                  (None, b2) \<Rightarrow> (None, w, b2)
                | (Some a, b2) \<Rightarrow> (Some a, setAffinityCookie name a ttl w, b2)))"
    using True unfolding selectBackend_def name_def pinned_def ttl_def Let_def
    by (simp only: prod.case not_True_eq_False if_False)
  have next_: "\<exists>w1. (case bl_NextForKey now (clientIP r) b of
                  (None, b2) \<Rightarrow> (None, w, b2)
                | (Some a, b2) \<Rightarrow> (Some a, setAffinityCookie name a ttl w, b2)) =
      (fst (bl_NextForKey now (clientIP r) b), w1, snd (bl_NextForKey now (clientIP r) b)) \<and> rw_sent w1 = rw_sent w"
    by (cases "bl_NextForKey now (clientIP r) b"; cases "fst (bl_NextForKey now (clientIP r) b)") (auto simp: cookie_sent)
  show thesis
  proof (cases "\<exists>v. pinned = Some v \<and> fst (bl_PinTo now v b)")
    case True
    then obtain v where v: "pinned = Some v" "fst (bl_PinTo now v b)" by blast
    then show thesis using sel by (intro pin [of v "setAffinityCookie name v ttl w"]) (auto simp: split_beta cookie_sent)
  next
    case False
    then have "(case pinned of None \<Rightarrow> (False, b) | Some v \<Rightarrow> bl_PinTo now v b) = (False, b)"
      using PinTo_miss by (cases pinned) (auto simp: prod_eq_iff)
    then show thesis using sel next_ normal by auto
  qed
qed

lemma selectBackend_some:
  assumes "bl_inv t b" "t \<le> now" "distinct (bl_Addresses b)" "selectBackend now r (w, b) = (Some a, w1, b1)"
  shows "conns (bl_Release a b1) = conns b \<and> bl_inv now b1 \<and> bl_Addresses b1 = bl_Addresses b \<and>
    rw_sent w1 = rw_sent w \<and> (\<exists>e \<in> set (bl_entries b). be_address e = a \<and> selectable now e)"
proof (cases rule: selectBackend_cases [of now r w b])
  case (normal w2)
  then show ?thesis
    using assms(4) NextForKey_release [OF assms(1-3), of "clientIP r" a] NextForKey_member [OF assms(1,2), of "clientIP r" a]
      bl_inv_NextForKey [OF assms(1,2), of "clientIP r"] NextForKey_addresses [of now "clientIP r" b]
    by (auto intro: conns_entries)
next
  case (pin v w2)
  have "entries_ok b" using assms(1) by (simp add: bl_inv_def)
  then show ?thesis
    using pin assms(4) PinTo_release [of b now v] PinTo_member [of now v b]
      bl_inv_PinTo [OF bl_inv_later [OF assms(1,2)], of now v] PinTo_addresses [of now v b]
    by (auto intro: conns_entries)
qed

lemma selectBackend_none:
  assumes "bl_inv t b" "t \<le> now" "selectBackend now r (w, b) = (None, w1, b1)"
  shows "conns b1 = conns b \<and> bl_inv now b1 \<and> bl_Addresses b1 = bl_Addresses b \<and> rw_sent w1 = rw_sent w"
proof (cases rule: selectBackend_cases [of now r w b])
  case (normal w2)
  then show ?thesis
    using assms(3) NextForKey_none [of now "clientIP r" b] bl_inv_NextForKey [OF assms(1,2), of "clientIP r"]
      NextForKey_addresses [of now "clientIP r" b]
    by (auto intro: conns_entries)
qed (use assms(3) in auto)

text \<open>One attempt gives the connection back, whatever happens upstream.\<close>

lemma RecordResult_addresses: "bl_Addresses (bl_RecordResult now a ok b) = bl_Addresses b"
proof (cases rule: RecordResult_cases [of now a ok b])
  case (eject e)
  have "bl_Addresses (rebuildSlotsLocked now c) = bl_Addresses c" for c :: "'a BackendList"
    by (simp add: bl_Addresses_def)
  then show ?thesis unfolding eject(7) by (simp add: upd_entry_addresses)
qed (simp_all add: upd_entry_addresses)

lemma serveOnce_backends:
  obtains "snd (snd (serveOnce outReq rw env r addr buffered (w, b))) = bl_Release addr b"
  | ok where "snd (snd (serveOnce outReq rw env r addr buffered (w, b))) =
      bl_Release addr (bl_RecordResult (ae_done env) addr ok b)"
proof (cases buffered)
  case True
  obtain a rrw where "rp_ServeHTTP rrw_mapHeader rrw_WriteHeader rrw_Write (\<lambda>_. None) rw
      (ae_interim env addr (applyRequest rw (outReq addr r))) (ae_roundTrip env addr (applyRequest rw (outReq addr r))) newRetryResponseWriter = (a, rrw)" by fastforce
  then show ?thesis
  proof (cases a)
    case (Attempt code failed)
    then have "snd (snd (serveOnce outReq rw env r addr buffered (w, b))) =
        bl_Release addr (bl_RecordResult (ae_done env) addr (\<not> failed \<and> code < 500) b)"
      using \<open>rp_ServeHTTP _ _ _ _ _ _ _ _ = _\<close> True by (simp add: serveOnce_def Let_def)
    then show ?thesis by (rule that(2))
  qed (use that True in \<open>auto simp: serveOnce_def Let_def\<close>)
next
  case False
  obtain a w1 where "rp_ServeHTTP w_mapHeader w_WriteHeader w_Write w_Hijack rw
      (ae_interim env addr (applyRequest rw (outReq addr r))) (ae_roundTrip env addr (applyRequest rw (outReq addr r))) w = (a, w1)" by fastforce
  then show ?thesis using that False by (cases a) (auto simp: serveOnce_def Let_def)
qed

lemma serveOnce_conns:
  assumes "bl_inv t b" "t \<le> ae_done env"
  shows "conns (snd (snd (serveOnce outReq rw env r addr buffered (w, b)))) = conns (bl_Release addr b) \<and>
    bl_inv (ae_done env) (snd (snd (serveOnce outReq rw env r addr buffered (w, b)))) \<and>
    bl_Addresses (snd (snd (serveOnce outReq rw env r addr buffered (w, b)))) = bl_Addresses b"
  by (rule serveOnce_backends [of outReq rw env r addr buffered w b])
     (use bl_inv_later [OF assms] bl_inv_RecordResult [OF assms] in
       \<open>simp_all add: conns_Release conns_RecordResult bl_inv_Release Release_addresses RecordResult_addresses\<close>)


section \<open>The retry loop\<close>

text \<open>The clock does not run backwards over the attempts.\<close>

definition clocks :: "gotime \<Rightarrow> (nat \<Rightarrow> attemptEnv) \<Rightarrow> bool" where
  "clocks t envs \<longleftrightarrow> t \<le> ae_select (envs 0) \<and>
     (\<forall>i. ae_select (envs i) \<le> ae_done (envs i) \<and> ae_done (envs i) \<le> ae_select (envs (Suc i)))"

lemma retryLoop_Suc:
  assumes "selectBackend (ae_select (envs i)) r (ps_w s, ps_b s) = (Some addr, w1, b1)"
    and "serveOnce outReq rw (envs i) r addr (retryable \<and> left \<noteq> 0) (w1, b1) = (res, w2, b2)"
  shows "retryLoop outReq rw envs cfg r g retryable (Suc left) i s =
    (let s1 = s\<lparr>ps_w := w2, ps_b := b2, ps_info := recordBackend g addr i (ps_info s)\<rparr>;
         s2 = s1\<lparr>ps_metrics := map_option (ObserveRetry g) (ps_metrics s1)\<rparr>
     in case res of
          Panicked \<Rightarrow> (Aborted, s1)
        | Attempt code failed \<Rightarrow>
            if \<not> failed \<or> left = 0 then (Served code, s1)
            else if pc_RetryBackoff cfg > 0 \<and> ae_ctxDone (envs i) then (Served 502, s2)
            else retryLoop outReq rw envs cfg r g retryable left (Suc i) s2)"
  using assms by (cases res) (simp_all add: Let_def)

lemma retryLoop_conns:
  assumes "bl_inv t (ps_b s)" "distinct (bl_Addresses (ps_b s))" "t \<le> ae_select (envs i)"
    and "\<forall>i. ae_select (envs i) \<le> ae_done (envs i) \<and> ae_done (envs i) \<le> ae_select (envs (Suc i))"
  shows "conns (ps_b (snd (retryLoop outReq rw envs cfg r g retryable left i s))) = conns (ps_b s)"
  using assms
proof (induction left arbitrary: i s t)
  case (Suc left)
  let ?now = "ae_select (envs i)"
  obtain sel w1 b1 where sel: "selectBackend ?now r (ps_w s, ps_b s) = (sel, w1, b1)" by (metis prod_cases3)
  show ?case
  proof (cases sel)
    case None
    with sel selectBackend_none [OF Suc.prems(1,3)] show ?thesis by simp
  next
    case (Some addr)
    obtain res w2 b2 where once: "serveOnce outReq rw (envs i) r addr (retryable \<and> left \<noteq> 0) (w1, b1) = (res, w2, b2)"
      by (metis prod_cases3)
    note s1 = selectBackend_some [OF Suc.prems(1,3,2), of r "ps_w s" addr w1 b1]
    have inv1: "bl_inv ?now b1" "conns (bl_Release addr b1) = conns (ps_b s)" "bl_Addresses b1 = bl_Addresses (ps_b s)"
      using s1 sel Some by auto
    have b2: "conns b2 = conns (ps_b s)" "bl_inv (ae_done (envs i)) b2" "bl_Addresses b2 = bl_Addresses (ps_b s)"
      using serveOnce_conns [OF inv1(1), of "envs i" outReq rw r addr "retryable \<and> left \<noteq> 0" w1] once inv1 Suc.prems(4)
      by auto
    have rec: "conns (ps_b (snd (retryLoop outReq rw envs cfg r g retryable left (Suc i) s'))) = conns (ps_b s)"
      if "ps_b s' = b2" for s'
      using Suc.IH [of "ae_done (envs i)" s' "Suc i"] that b2 Suc.prems(2,4) by simp
    show ?thesis
      unfolding retryLoop_Suc [where envs = envs and i = i and s = s, OF sel [unfolded Some] once] using b2 rec
      by (cases res) (auto simp: Let_def)
  qed
qed simp

definition demo_env :: "upstream \<Rightarrow> attemptEnv" where
  "demo_env up = \<lparr>ae_select = 2, ae_done = 2, ae_interim = (\<lambda>_ _. []), ae_roundTrip = (\<lambda>_ _. up), ae_ctxDone = False\<rparr>"

definition demo_state :: "nat stream \<Rightarrow> unit proxyState" where
  "demo_state rng = \<lparr>ps_w = new_writer, ps_b = demo_list [] rng, ps_metrics = Some NewMetrics, ps_info = None\<rparr>"

definition demo_cfg :: ProxyConfig where
  "demo_cfg = \<lparr>pc_ConnectTimeout = 1, pc_ResponseTimeout = 1, pc_MaxRetries = 2, pc_RetryBackoff = 1, pc_BackendProtocol = []\<rparr>"

text \<open>
  C5. No connection count leaks: after a request with all its retries, however each attempt ended
  (answered, failed, broken off with a panic, cancelled while backing off, or no backend found),
  every backend has as many open connections on its account as before.
\<close>

theorem no_connection_leak:
  assumes "bl_inv t (ps_b s)" "distinct (bl_Addresses (ps_b s))" "t \<le> ae_select (envs 0)"
    and "\<forall>i. ae_select (envs i) \<le> ae_done (envs i) \<and> ae_done (envs i) \<le> ae_select (envs (Suc i))"
  shows "map (\<lambda>e. (be_address e, be_activeConns e)) (bl_entries (ps_b (snd (serveWithRetries outReq rw envs cfg r g s)))) =
    map (\<lambda>e. (be_address e, be_activeConns e)) (bl_entries (ps_b s))"
  using retryLoop_conns [OF assms, unfolded conns_def] by (simp add: serveWithRetries_def Let_def)

theorem no_connection_leak_witness:
  "\<forall>rng. map (\<lambda>e. (be_address e, be_activeConns e)) (bl_entries (ps_b (snd
     (serveWithRetries (\<lambda>_ r. r) zeroRewrite (\<lambda>_. demo_env UpError) demo_cfg (demo_request []) ''g'' (demo_state rng))))) =
     [(''a'', 0), (''b'', 0)]"
  by (subst no_connection_leak [where t = 1])
     (simp_all add: demo_state_def demo_inv demo_env_def demo_entries bl_Addresses_def)

lemma retryLoop_cong:
  fixes s :: "'l proxyState"
  shows "(\<forall>j < left. envs (i + j) = envs' (i + j)) \<Longrightarrow>
     retryLoop outReq rw envs cfg r g retryable left i s = retryLoop outReq rw envs' cfg r g retryable left i s"
proof (induction left arbitrary: i s)
  case (Suc left)
  have e: "envs i = envs' i" using Suc.prems [rule_format, of 0] by simp
  have "\<forall>j < left. envs (Suc i + j) = envs' (Suc i + j)"
    using Suc.prems by (metis Suc_less_eq add_Suc_shift)
  then have IH: "retryLoop outReq rw envs cfg r g retryable left (Suc i) s' =
      retryLoop outReq rw envs' cfg r g retryable left (Suc i) s'" for s' :: "'l proxyState"
    by (rule Suc.IH)
  show ?case by (simp only: retryLoop.simps e IH)
qed simp

text \<open>
  C25. Attempts are bounded: the outcome depends on the world's behaviour in the first \<open>1 + MaxRetries\<close>
  attempts only, and in the first one only for a request that must not be repeated (one with a body,
  a method that is not idempotent by convention, or an upgrade).
\<close>

theorem attempts_bounded:
  assumes "\<forall>i. int i \<le> (if requestRetryable r then pc_MaxRetries cfg else 0) \<longrightarrow> envs i = envs' i"
  shows "serveWithRetries outReq rw envs cfg r g s = serveWithRetries outReq rw envs' cfg r g s"
  unfolding serveWithRetries_def Let_def
  by (rule retryLoop_cong) (use assms in \<open>auto split: if_splits\<close>)

theorem attempts_bounded_witness:
  "\<forall>rng. serveWithRetries (\<lambda>_ r. r) zeroRewrite (\<lambda>_. demo_env UpError) demo_cfg (demo_request []) ''g'' (demo_state rng) =
     serveWithRetries (\<lambda>_ r. r) zeroRewrite
       (\<lambda>i. demo_env (if i < 3 then UpError else UpResponse 200 Map.empty ''x'')) demo_cfg (demo_request []) ''g'' (demo_state rng)"
  by (intro allI attempts_bounded) (auto simp: demo_cfg_def)

section \<open>One response\<close>

text \<open>
  What the transport promises of a round trip: a response it returns is final, and what it reports before
  it is informational.
\<close>

definition final_status :: "upstream \<Rightarrow> bool" where
  "final_status up \<longleftrightarrow> (case up of UpResponse code _ _ \<Rightarrow> 200 \<le> code | UpAborted code _ _ \<Rightarrow> 200 \<le> code | _ \<Rightarrow> True)"

definition final_answers :: "(nat \<Rightarrow> attemptEnv) \<Rightarrow> bool" where
  "final_answers envs \<longleftrightarrow>
     (\<forall>i a r. final_status (ae_roundTrip (envs i) a r) \<and> list_all (\<lambda>(code, h). informational code) (ae_interim (envs i) a r))"

definition no_interim :: "(nat \<Rightarrow> attemptEnv) \<Rightarrow> bool" where
  "no_interim envs \<longleftrightarrow> (\<forall>i a r. ae_interim (envs i) a r = [])"

lemma final_answersD:
  "final_answers envs \<Longrightarrow> final_status (ae_roundTrip (envs i) a r)"
  "final_answers envs \<Longrightarrow> list_all (\<lambda>(code, h). informational code) (ae_interim (envs i) a r)"
  by (simp_all add: final_answers_def)

lemma interim_sent:
  "rw_sent w = None \<Longrightarrow> list_all (\<lambda>(code, h). informational code) interim \<Longrightarrow>
     rw_sent (rp_interim w_mapHeader w_WriteHeader interim w) = None"
  unfolding rp_interim_def by (induction interim arbitrary: w) auto

lemma serveOnce_sent:
  assumes "rw_sent w = None" "serveOnce outReq rw env r addr buffered (w, b) = (Attempt code failed, w1, b1)"
    and "final_status (ae_roundTrip env addr (applyRequest rw (outReq addr r)))"
    and "list_all (\<lambda>(code, h). informational code) (ae_interim env addr (applyRequest rw (outReq addr r)))"
    and "buffered \<Longrightarrow> ae_interim env addr (applyRequest rw (outReq addr r)) = []"
  shows "if buffered \<and> failed then w1 = w else map_option fst (rw_sent w1) = Some code"
proof -
  let ?in = "ae_interim env addr (applyRequest rw (outReq addr r))"
  let ?w = "rp_interim w_mapHeader w_WriteHeader ?in w"
  have w: "rw_sent ?w = None" using assms(1,4) by (rule interim_sent)
  note error = net_writer.error_answer(1) [where w = ?w and msg = "''upstream request failed''" and code = 502]
  show ?thesis
  proof (cases "ae_roundTrip env addr (applyRequest rw (outReq addr r))")
    case UpError
    then show ?thesis using assms(2) error w by (cases buffered) (auto simp: serveOnce_def rp_ServeHTTP_def Let_def)
  next
    case (UpResponse c h body)
    then have "serveOnce outReq rw env r addr buffered (w, b) = serveOnce outReq rw env r addr False (w, b)"
      using buffering_same_end [of env addr rw outReq r w b] assms(5) by (cases buffered) simp_all
    then show ?thesis
      using assms(2,3) w UpResponse
        net_writer.full_answer(1) [where w = ?w and b = body and code = c and f = "header_AddAll (applyResponse rw h)"]
      by (auto simp: serveOnce_def rp_ServeHTTP_def final_status_def Let_def)
  next
    case (UpSwitching h)
    then show ?thesis
      using assms(2) error w Hijack_sent [of "w_mapHeader (header_AddAll (applyResponse rw h)) ?w"]
      by (cases buffered) (auto simp: serveOnce_def rp_ServeHTTP_def Let_def split: option.splits)
  qed (use assms(2) in \<open>auto simp: serveOnce_def rp_ServeHTTP_def Let_def split: if_splits\<close>)
qed

lemma selectBackend_sent: "selectBackend now r (w, b) = (sel, w1, b1) \<Longrightarrow> rw_sent w1 = rw_sent w"
  by (cases rule: selectBackend_cases [of now r w b]) auto

definition left_early :: "(nat \<Rightarrow> attemptEnv) \<Rightarrow> bool" where
  "left_early envs \<longleftrightarrow> (\<exists>i. ae_ctxDone (envs i))"

lemma retryLoop_sent:
  assumes "rw_sent (ps_w s) = None" "0 < left" "final_answers envs" "retryable \<or> left = 1" "left = 1 \<or> no_interim envs"
    and "retryLoop outReq rw envs cfg r g retryable left i s = (res, s')"
  shows "(case res of
            Served code \<Rightarrow> map_option fst (rw_sent (ps_w s')) = Some code \<or> code = 502 \<and> rw_sent (ps_w s') = None \<and> left_early envs
          | NoBackend \<Rightarrow> rw_sent (ps_w s') = None | Aborted \<Rightarrow> True)"
  using assms
proof (induction left arbitrary: i s)
  case (Suc left)
  obtain sel w1 b1 where sel: "selectBackend (ae_select (envs i)) r (ps_w s, ps_b s) = (sel, w1, b1)"
    by (metis prod_cases3)
  have w1: "rw_sent w1 = None" using selectBackend_sent [OF sel] Suc.prems(1) by simp
  show ?case
  proof (cases sel)
    case None
    with sel Suc.prems(6) w1 show ?thesis by auto
  next
    case (Some addr)
    obtain res1 w2 b2 where once: "serveOnce outReq rw (envs i) r addr (retryable \<and> left \<noteq> 0) (w1, b1) = (res1, w2, b2)"
      by (metis prod_cases3)
    note loop = retryLoop_Suc [where envs = envs and i = i and s = s and cfg = cfg and g = g,
        OF sel [unfolded Some] once, unfolded Suc.prems(6)]
    show ?thesis
    proof (cases res1)
      case Panicked
      then show ?thesis using loop by (simp add: Let_def)
    next
      case (Attempt code failed)
      have "if (retryable \<and> left \<noteq> 0) \<and> failed then w2 = w1 else map_option fst (rw_sent w2) = Some code"
        using final_answersD [OF Suc.prems(3)] Suc.prems(5)
        by (intro serveOnce_sent [OF w1 once [unfolded Attempt]]) (auto simp: no_interim_def)
      then have sent: "if retryable \<and> left \<noteq> 0 \<and> failed then w2 = w1 else map_option fst (rw_sent w2) = Some code" by simp
      show ?thesis
      proof (cases "\<not> failed \<or> left = 0")
        case True
        then show ?thesis using loop Attempt sent by (auto simp: Let_def)
      next
        case False
        let ?s2 = "s\<lparr>ps_w := w2, ps_b := b2, ps_info := recordBackend g addr i (ps_info s),
            ps_metrics := map_option (ObserveRetry g) (ps_metrics s)\<rparr>"
        have r: "rw_sent (ps_w ?s2) = None" using sent w1 False Suc.prems(4) by auto
        show ?thesis
        proof (cases "pc_RetryBackoff cfg > 0 \<and> ae_ctxDone (envs i)")
          case True
          then have "res = Served 502" "s' = ?s2" using loop Attempt False by (auto simp: Let_def)
          then show ?thesis using r True by (auto simp: left_early_def)
        next
          case go: False
          have "retryLoop outReq rw envs cfg r g retryable left (Suc i) ?s2 = (res, s')"
            using loop Attempt False go by (auto simp: Let_def)
          then show ?thesis using Suc.IH [OF r, of "Suc i"] Suc.prems(3,4,5) False by auto
        qed
      qed
    qed
  qed
qed simp


section \<open>The handler\<close>

text \<open>
  A forged affinity cookie reaches nothing new: whatever cookie a request carries, the selected
  address belongs to a backend of the group that is healthy and not ejected at that moment.
\<close>

theorem affinity_cookie_safe:
  assumes "bl_inv t b" "t \<le> now" "fst (selectBackend now r (w, b)) = Some a"
  shows "\<exists>e \<in> set (bl_entries b). be_address e = a \<and> selectable now e"
proof (cases rule: selectBackend_cases [of now r w b])
  case (normal w1)
  then show ?thesis using assms(3) NextForKey_member [OF assms(1,2)] by simp
next
  case (pin v w1)
  then show ?thesis using assms(3) PinTo_member [OF pin(1)] by simp
qed

theorem affinity_cookie_safe_witness:
  "\<forall>rng. \<exists>e \<in> set (bl_entries (demo_list [] rng)). be_address e = ''a'' \<and> selectable 2 e"
proof
  fix rng
  have "fst (selectBackend 2 (demo_request []) (new_writer, demo_list [] rng)) = Some ''a''"
    by (simp add: selectBackend_def demo_fields split_beta Let_def)
       (simp add: bl_NextForKey_def bl_refresh_def demo_fields normalizeAlgorithm_def demo_slots
        nextRoundRobin_def demo_entries take_entry_def Let_def)
  then show "\<exists>e \<in> set (bl_entries (demo_list [] rng)). be_address e = ''a'' \<and> selectable 2 e"
    using affinity_cookie_safe [OF demo_inv] by simp
qed

lemma Handler_split:
  assumes "resolveMatch (rq_Host r) (rq_Path r) (rq_Method r) (Some (rq_Header r)) (Some (rq_Query r)) (px_routes p) =
      ((g, rw, auth), routes)"
    and "\<not> (auth_enabled auth \<and> authenticate (he_jwtParse env) (he_parseKey env) auth r \<noteq> None)"
    and "gm_Ensure (he_rng env) (he_start env) g (px_groups p) = (b0, groups)"
    and "bl_RateLimitAllow (he_newLimiter env) (he_limAllow env) (he_limit env) (clientIP r) b0 = (ok, b1)"
    and "serveWithRetries (he_outReq env) rw (he_attempts env) (px_cfg p) r g
      \<lparr>ps_w = w, ps_b = b1, ps_metrics = gauge (he_start env) g 1 (px_metrics p), ps_info = info\<rparr> = (res, s)"
  shows "Handler env r p w info =
    (let p1 = p\<lparr>px_routes := routes\<rparr>;
         finish = (\<lambda>m. p1\<lparr>px_groups := gm_put g (ps_b s) groups, px_metrics := gauge (he_end env) g (- 1) m\<rparr>)
     in if \<not> ok then
       (False, p1\<lparr>px_groups := gm_put g b1 groups,
          px_metrics := gauge (he_end env) g (- 1)
            (observe (he_start env) (he_end env) g 429 (gauge (he_start env) g 1 (px_metrics p)))\<rparr>,
        http_Error ''rate limit exceeded'' 429 w, info)
     else case res of
         Aborted \<Rightarrow> (True, finish (ps_metrics s), ps_w s, ps_info s)
       | NoBackend \<Rightarrow> (False, finish (observe (he_start env) (he_end env) g 503 (ps_metrics s)),
           http_Error ''no healthy backends available'' 503 (ps_w s), ps_info s)
       | Served code \<Rightarrow> (False, finish (observe (he_start env) (he_end env) g code (ps_metrics s)), ps_w s, ps_info s))"
  using assms unfolding Handler_def Let_def by (auto simp: Let_def)

definition demo_henv :: "upstream \<Rightarrow> nat stream \<Rightarrow> (unit, unit) handlerEnv" where
  "demo_henv up rng = \<lparr>he_rng = rng, he_start = 2, he_limit = 2, he_end = 2, he_attempts = (\<lambda>_. demo_env up),
     he_outReq = (\<lambda>_ r. r), he_newLimiter = (\<lambda>_ _. ()), he_limAllow = (\<lambda>_ _. (True, ())),
     he_jwtParse = (\<lambda>_ _ _ _. Inr False), he_parseKey = (\<lambda>_. Inl [])\<rparr>"

definition demo_proxy :: "string \<Rightarrow> nat stream \<Rightarrow> unit Proxy" where
  "demo_proxy mode rng = \<lparr>
     px_routes = (NewRouteTable rng ''web'')\<lparr>rt_routes :=
       [(routeFromProto (demo_route ''/'' ''g''))\<lparr>r_auth := zeroAuth\<lparr>ra_mode := mode, ra_apiKeys := [''k'']\<rparr>\<rparr>]\<rparr>,
     px_groups = (NewGroupManager demo_healthCfg)\<lparr>gm_groups := [(''g'', demo_list [] rng)]\<rparr>,
     px_metrics = Some NewMetrics, px_cfg = demo_cfg, px_transport = newTransport demo_cfg\<rparr>"

lemma demo_resolve:
  "resolveMatch (rq_Host (demo_request [])) (rq_Path (demo_request [])) (rq_Method (demo_request []))
     (Some (rq_Header (demo_request []))) (Some (rq_Query (demo_request []))) (px_routes (demo_proxy mode rng)) =
   ((''g'', zeroRewrite, zeroAuth\<lparr>ra_mode := mode, ra_apiKeys := [''k'']\<rparr>), px_routes (demo_proxy mode rng))"
proof -
  have "EqualFold ''get'' ''GET''" by code_simp
  then show ?thesis
    by (simp add: resolveMatch_def demo_proxy_def demo_request_def route_matches_def routeFromProto_def demo_route_def
        rewriteFromProto_def NewRouteTable_def)
qed

text \<open>
  C21. Authentication comes first: when the matched rule's policy is enabled and rejects the request, the
  client gets 401 with a challenge, and no group is created, no rate-limit token spent, no backend
  selected and nothing counted.
\<close>

theorem auth_gate_first:
  assumes "rw_sent w = None"
    and "resolveMatch (rq_Host r) (rq_Path r) (rq_Method r) (Some (rq_Header r)) (Some (rq_Query r)) (px_routes p) =
      ((g, rw, auth), routes)"
    and "auth_enabled auth" "authenticate (he_jwtParse env) (he_parseKey env) auth r = Some err"
  shows "\<exists>w'. Handler env r p w info = (False, p\<lparr>px_routes := routes\<rparr>, w', info) \<and>
    map_option fst (rw_sent w') = Some 401 \<and> header_Get (rw_header w') ''WWW-Authenticate'' = authChallenge auth"
proof -
  let ?w = "w_mapHeader (header_Set ''WWW-Authenticate'' (authChallenge auth)) w"
  have "Handler env r p w info = (False, p\<lparr>px_routes := routes\<rparr>, http_Error ''unauthorized'' 401 ?w, info)"
    using assms(2-4) by (simp add: Handler_def)
  moreover have "map_option fst (rw_sent (http_Error ''unauthorized'' 401 ?w)) = Some 401"
    using assms(1) by (intro http_Error_status) simp_all
  moreover have "rw_header (http_Error ''unauthorized'' 401 ?w) ''Www-Authenticate'' = Some [authChallenge auth]"
  proof -
    have k: "CanonicalHeaderKey ''WWW-Authenticate'' = ''Www-Authenticate''"
      "CanonicalHeaderKey ''X-Content-Type-Options'' = ''X-Content-Type-Options''"
      "CanonicalHeaderKey ''Content-Type'' = ''Content-Type''" "CanonicalHeaderKey ''Content-Length'' = ''Content-Length''"
      by code_simp+
    show ?thesis
      by (simp add: http_Error_def http_Error_on_def header_Set_def
          header_Del_def k split: option.splits)
  qed
  moreover have "CanonicalHeaderKey ''WWW-Authenticate'' = ''Www-Authenticate''" by code_simp
  ultimately show ?thesis by (auto simp: header_Get_def header_Values_def)
qed

theorem auth_gate_first_witness:
  "\<forall>rng. \<exists>w'. Handler (demo_henv UpError rng) (demo_request []) (demo_proxy ''api_key'' rng) new_writer None =
       (False, demo_proxy ''api_key'' rng, w', None) \<and> map_option fst (rw_sent w') = Some 401"
proof
  fix rng
  let ?a = "zeroAuth\<lparr>ra_mode := ''api_key'', ra_apiKeys := [''k'']\<rparr>"
  have 1: "rw_sent new_writer = None" by simp
  have 2: "auth_enabled ?a" by (simp add: auth_enabled_def zeroAuth_def)
  have 3: "authenticate (he_jwtParse (demo_henv UpError rng)) (he_parseKey (demo_henv UpError rng)) ?a (demo_request []) =
      Some ''missing API key''"
    by (simp add: authenticate_def checkAPIKey_def zeroAuth_def demo_request_def header_Get_def header_Values_def)
  show "\<exists>w'. Handler (demo_henv UpError rng) (demo_request []) (demo_proxy ''api_key'' rng) new_writer None =
       (False, demo_proxy ''api_key'' rng, w', None) \<and> map_option fst (rw_sent w') = Some 401"
    using auth_gate_first [OF 1 demo_resolve [of "''api_key''" rng] 2 3, where info = None] by auto
qed

text \<open>The requests counted so far, and what the end of a request adds to them.\<close>

definition requestEvents :: "promEvent list \<Rightarrow> promEvent list" where
  "requestEvents es = filter (\<lambda>e. \<exists>g c. e = RequestsInc g c) es"

definition counted :: "int \<Rightarrow> Metrics option \<Rightarrow> Metrics option \<Rightarrow> bool" where
  "counted code before after \<longleftrightarrow>
     (case (before, after) of
        (None, None) \<Rightarrow> True
      | (Some m, Some m') \<Rightarrow> (\<exists>g. requestEvents (m_prom m') = RequestsInc g (statusClass code) # requestEvents (m_prom m))
      | _ \<Rightarrow> False)"

definition same_requests :: "Metrics option \<Rightarrow> Metrics option \<Rightarrow> bool" where
  "same_requests a b \<longleftrightarrow> map_option (\<lambda>m. requestEvents (m_prom m)) a = map_option (\<lambda>m. requestEvents (m_prom m)) b"

lemma retryLoop_requests:
  "same_requests (ps_metrics (snd (retryLoop outReq rw envs cfg r g retryable left i s))) (ps_metrics s)"
proof (induction left arbitrary: i s)
  case (Suc left)
  have "same_requests (map_option (ObserveRetry g) m) m" for m
    by (cases m) (simp_all add: same_requests_def ObserveRetry_def requestEvents_def)
  then show ?case using Suc
    by (auto simp: same_requests_def Let_def split: option.splits prod.splits attempt.splits)
qed (simp add: same_requests_def)

lemma counted_once:
  "same_requests m (gauge t g 1 m0) \<Longrightarrow> counted code m0 (gauge now g (- 1) (observe start now g code m))"
  by (cases m0; cases m)
     (auto simp: same_requests_def counted_def gauge_def observe_def SetActiveConnections_def ObserveHTTPRequest_def requestEvents_def Let_def)

text \<open>
  C4. The answer is what is counted. When the handler returns (no upstream broke off in the middle of a
  response), a final status has been sent, or the client went away while the proxy waited to try the next
  backend and nothing has been sent; and unless the request was stopped by authentication, which counts
  nothing, exactly one request is added to the metrics, in the class of the status sent, or of 502 when
  nothing was. The transport's answers are final ones, and for a request that may be repeated the backends
  send no interim responses (otherwise see \<open>Middleware.interim_hides_status\<close>).
\<close>

theorem one_answer_counted:
  assumes "rw_sent w = None" "0 \<le> pc_MaxRetries (px_cfg p)" "final_answers (he_attempts env)"
    and "requestRetryable r \<and> 0 < pc_MaxRetries (px_cfg p) \<Longrightarrow> no_interim (he_attempts env)"
    and "Handler env r p w info = (False, p', w', info')"
  shows "\<exists>code. (map_option fst (rw_sent w') = Some code \<or>
       rw_sent w' = None \<and> code = 502 \<and> left_early (he_attempts env)) \<and>
    (code = 401 \<and> px_metrics p' = px_metrics p \<or> counted code (px_metrics p) (px_metrics p'))"
proof -
  obtain g rw auth routes where rm: "resolveMatch (rq_Host r) (rq_Path r) (rq_Method r) (Some (rq_Header r))
      (Some (rq_Query r)) (px_routes p) = ((g, rw, auth), routes)"
    by (metis prod.collapse)
  show ?thesis
  proof (cases "auth_enabled auth \<and> authenticate (he_jwtParse env) (he_parseKey env) auth r \<noteq> None")
    case True
    then have "w' = http_Error ''unauthorized'' 401 (w_mapHeader (header_Set ''WWW-Authenticate'' (authChallenge auth)) w)"
      "px_metrics p' = px_metrics p"
      using assms(5) rm by (auto simp: Handler_def)
    then show ?thesis using assms(1) by (intro exI [of _ 401]) (auto simp: http_Error_status)
  next
    case False
    obtain b0 groups where en: "gm_Ensure (he_rng env) (he_start env) g (px_groups p) = (b0, groups)" by fastforce
    obtain ok b1 where al: "bl_RateLimitAllow (he_newLimiter env) (he_limAllow env) (he_limit env) (clientIP r) b0 = (ok, b1)"
      by fastforce
    let ?s0 = "\<lparr>ps_w = w, ps_b = b1, ps_metrics = gauge (he_start env) g 1 (px_metrics p), ps_info = info\<rparr>"
    obtain res s where sv: "serveWithRetries (he_outReq env) rw (he_attempts env) (px_cfg p) r g ?s0 = (res, s)"
      by fastforce
    note H = Handler_split [OF rm False en al sv, unfolded assms(5) Let_def]
    note loop = sv [unfolded serveWithRetries_def Let_def]
    have sent: "case res of
        Served code \<Rightarrow> map_option fst (rw_sent (ps_w s)) = Some code \<or>
          code = 502 \<and> rw_sent (ps_w s) = None \<and> left_early (he_attempts env)
      | NoBackend \<Rightarrow> rw_sent (ps_w s) = None | Aborted \<Rightarrow> True"
    proof (rule retryLoop_sent [OF _ _ assms(3) _ _ loop])
      have "pc_MaxRetries (px_cfg p) = 0 \<or> 0 < pc_MaxRetries (px_cfg p)" using assms(2) by linarith
      then show "nat (if requestRetryable r then 1 + pc_MaxRetries (px_cfg p) else 1) = 1 \<or> no_interim (he_attempts env)"
        using assms(4) by auto
    qed (use assms(1,2) in auto)
    have "same_requests (ps_metrics s) (ps_metrics ?s0)" using retryLoop_requests loop by (metis snd_conv)
    then have c: "counted code (px_metrics p) (gauge (he_end env) g (- 1) (observe (he_start env) (he_end env) g code (ps_metrics s)))"
      for code using counted_once by simp
    have c0: "counted 429 (px_metrics p) (gauge (he_end env) g (- 1)
        (observe (he_start env) (he_end env) g 429 (gauge (he_start env) g 1 (px_metrics p))))"
      by (rule counted_once) (simp add: same_requests_def)
    consider "\<not> ok" | code where "ok" "res = Served code" | "ok" "res = NoBackend" using H by (cases ok; cases res) auto
    then show ?thesis
    proof cases
      case 1
      then show ?thesis using H c0 assms(1) by (intro exI [of _ 429]) (simp add: http_Error_status)
    next
      case 2
      then show ?thesis using H c sent by (intro exI [of _ code]) auto
    next
      case 3
      then show ?thesis using H c sent by (intro exI [of _ 503]) (simp add: http_Error_status)
    qed
  qed
qed

theorem one_answer_counted_witness:
  "\<forall>rng. \<exists>w'. fst (Handler (demo_henv UpError rng) (demo_request []) (demo_proxy [] rng) new_writer None) = False \<and>
     rw_sent w' \<noteq> None \<and> w' = fst (snd (snd (Handler (demo_henv UpError rng) (demo_request []) (demo_proxy [] rng) new_writer None)))"
proof
  fix rng
  let ?H = "Handler (demo_henv UpError rng) (demo_request []) (demo_proxy [] rng) new_writer None"
  obtain pan p' w' info' where H: "?H = (pan, p', w', info')" by (metis prod.collapse)
  have np: "fst (retryLoop outReq rw (\<lambda>_. demo_env UpError) cfg r g retryable left i s) \<noteq> Aborted"
    for outReq rw cfg r g retryable left i and s :: "unit proxyState"
    by (induction left arbitrary: i s)
       (auto simp: serveOnce_def rp_ServeHTTP_def demo_env_def Let_def split: prod.splits option.splits)
  have na: "serveWithRetries outReq rw (\<lambda>_. demo_env UpError) cfg r g s \<noteq> (Aborted, s')"
    for outReq rw cfg r g and s s' :: "unit proxyState"
    using np by (metis fst_conv serveWithRetries_def)
  have "\<not> pan"
    using H by (auto simp: Handler_def demo_resolve auth_enabled_def zeroAuth_def Let_def demo_henv_def na
        split: prod.splits served.splits if_splits)
  then have "?H = (False, p', w', info')" using H by simp
  moreover have "final_answers (he_attempts (demo_henv UpError rng))" "no_interim (he_attempts (demo_henv UpError rng))"
    "\<not> left_early (he_attempts (demo_henv UpError rng))"
    by (simp_all add: final_answers_def final_status_def no_interim_def left_early_def demo_henv_def demo_env_def)
  ultimately have "rw_sent w' \<noteq> None"
    using one_answer_counted [of new_writer "demo_proxy [] rng" "demo_henv UpError rng" "demo_request []" None p' w' info']
    by (auto simp: demo_proxy_def demo_cfg_def)
  with H \<open>\<not> pan\<close> show "\<exists>w'. fst ?H = False \<and> rw_sent w' \<noteq> None \<and> w' = fst (snd (snd ?H))" by auto
qed

text \<open>
  The key of the rate limit and of consistent hashing is taken from the request's own
  \<open>X-Forwarded-For\<close> header when there is one: for every non-empty text without commas and blanks, a
  request that carries it has that text as its client key, whatever address it comes from.
\<close>

theorem client_key_from_header:
  assumes "k \<noteq> []" "CHR '','' \<notin> set k" "CHR '' '' \<notin> set k" "CHR 0x09 \<notin> set k"
  shows "clientIP (r\<lparr>rq_Header := header_Set ''X-Forwarded-For'' k (rq_Header r)\<rparr>) = k"
proof -
  have t: "takeWhile (\<lambda>c. c \<noteq> CHR '','') k = k" using assms(2) by (auto simp: takeWhile_eq_all_conv)
  have d: "dropWhile (\<lambda>c. c = CHR '' '' \<or> c = CHR 0x09) xs = xs" if "set xs = set k" for xs
    using that assms(3,4) by (cases xs) auto
  show ?thesis using assms(1) by (simp add: clientIP_def trimSpace_def Let_def t d)
qed

theorem client_key_from_header_witness:
  "clientIP ((demo_request [])\<lparr>rq_Header := header_Set ''X-Forwarded-For'' ''any'' (rq_Header (demo_request []))\<rparr>) = ''any''"
  by (rule client_key_from_header) simp_all

text \<open>
  A route whose authentication mode is neither empty, \<open>none\<close>, \<open>api_key\<close> nor \<open>jwt\<close> is open: the check
  itself would reject every request, but the handler asks it only when the policy is enabled, which
  an unknown mode is not. The request is handled as if the rule had no authentication.
\<close>

theorem unknown_auth_mode_open:
  assumes "ra_mode a \<notin> {[], ''none'', ''api_key'', ''jwt''}"
    and "resolveMatch (rq_Host r) (rq_Path r) (rq_Method r) (Some (rq_Header r)) (Some (rq_Query r)) (px_routes p) =
      ((g, rw, a), px_routes p)"
    and "resolveMatch (rq_Host r) (rq_Path r) (rq_Method r) (Some (rq_Header r)) (Some (rq_Query r)) routes' =
      ((g, rw, zeroAuth), routes')"
  shows "authenticate (he_jwtParse env) (he_parseKey env) a r \<noteq> None \<and>
    snd (snd (Handler env r p w info)) = snd (snd (Handler env r (p\<lparr>px_routes := routes'\<rparr>) w info))"
proof -
  have "\<not> auth_enabled a" "authenticate (he_jwtParse env) (he_parseKey env) a r \<noteq> None"
    using assms(1) by (auto simp: auth_enabled_def authenticate_def)
  moreover have "\<not> auth_enabled zeroAuth" by (simp add: auth_enabled_def zeroAuth_def)
  ultimately show ?thesis
    using assms(2,3) by (simp add: Handler_def Let_def split: prod.splits served.splits)
qed

theorem unknown_auth_mode_open_witness:
  "\<forall>rng. snd (snd (Handler (demo_henv UpError rng) (demo_request []) (demo_proxy ''basic'' rng) new_writer None)) =
     snd (snd (Handler (demo_henv UpError rng) (demo_request [])
       ((demo_proxy ''basic'' rng)\<lparr>px_routes := (px_routes (demo_proxy ''basic'' rng))\<lparr>rt_routes :=
          [routeFromProto (demo_route ''/'' ''g'')]\<rparr>\<rparr>) new_writer None))"
proof
  fix rng
  have "EqualFold ''get'' ''GET''" by code_simp
  then have z: "resolveMatch (rq_Host (demo_request [])) (rq_Path (demo_request [])) (rq_Method (demo_request []))
     (Some (rq_Header (demo_request []))) (Some (rq_Query (demo_request [])))
     ((px_routes (demo_proxy ''basic'' rng))\<lparr>rt_routes := [routeFromProto (demo_route ''/'' ''g'')]\<rparr>) =
   ((''g'', zeroRewrite, zeroAuth), (px_routes (demo_proxy ''basic'' rng))\<lparr>rt_routes := [routeFromProto (demo_route ''/'' ''g'')]\<rparr>)"
    by (simp add: resolveMatch_def demo_request_def route_matches_def routeFromProto_def demo_route_def
        rewriteFromProto_def authFromProto_def)
  show "snd (snd (Handler (demo_henv UpError rng) (demo_request []) (demo_proxy ''basic'' rng) new_writer None)) =
     snd (snd (Handler (demo_henv UpError rng) (demo_request [])
       ((demo_proxy ''basic'' rng)\<lparr>px_routes := (px_routes (demo_proxy ''basic'' rng))\<lparr>rt_routes :=
          [routeFromProto (demo_route ''/'' ''g'')]\<rparr>\<rparr>) new_writer None))"
    by (rule unknown_auth_mode_open [OF _ demo_resolve z, THEN conjunct2]) (simp add: zeroAuth_def)
qed

end
