(* ===== verification/Middleware.thy ===== *)
theory Middleware
  imports ProxyProps
begin

text \<open>
  The middlewares around the L7 proxy (\<open>internal/dataplane/recovery.go\<close> and the middleware of
  \<open>accesslog.go\<close>) and the chain that \<open>cmd/dataplane/main.go\<close> builds of them: access log, panic recovery,
  connection limit, body limit, proxy.

  An \<open>http.Handler\<close> is a function from the request and the state it can reach to the way it ends (it
  returns, it panics with \<open>http.ErrAbortHandler\<close>, or it panics with another value) and the new state:
  the request information cell of the context, the server (proxy with its metrics, tokens taken from
  the semaphore, access-log lines) and the response writer. The random bytes of a request id, the
  formatted time used when there are none, and the clock are arguments. A log line is kept as its entry
  with the chosen format; the text of the line, the application log and the tracing span are left out.
\<close>

section \<open>Handlers\<close>

datatype outcome = Returned | PanicAbort | Panic string

datatype AccessLogFormat = AccessLogJSON | AccessLogText

record AccessLogConfig =
  alc_Enabled :: bool
  alc_Format :: string

record accessLogEntry =
  le_Time :: gotime
  le_RequestID :: string
  le_Method :: string
  le_Host :: string
  le_Path :: string
  le_Status :: int
  le_Bytes :: int
  le_DurationMs :: rat
  le_ClientIP :: string
  le_Group :: string
  le_Backend :: string
  le_Retries :: int
  le_Proto :: string
  le_UserAgent :: string

record 'l httpServer =
  hs_proxy :: "'l Proxy"
  hs_sem :: nat
  hs_log :: "(AccessLogFormat \<times> accessLogEntry) list"

type_synonym 'l http_handler =
  "Request \<Rightarrow> requestInfo option \<times> 'l httpServer \<times> ResponseWriter \<Rightarrow> outcome \<times> requestInfo option \<times> 'l httpServer \<times> ResponseWriter"

definition proxyHandler :: "('l, 'k) handlerEnv \<Rightarrow> 'l http_handler" where
  "proxyHandler env r st =
     (let (info, s, w) = st; (aborted, p, w1, info1) = Handler env r (hs_proxy s) w info
      in (if aborted then PanicAbort else Returned, info1, s\<lparr>hs_proxy := p\<rparr>, w1))"

section \<open>Recovery and limits\<close>

definition RecoveryMiddleware :: "'l http_handler \<Rightarrow> string \<Rightarrow> 'l http_handler" where
  "RecoveryMiddleware next g r st =
     (case next r st of
        (Panic v, info, s, w) \<Rightarrow>
          (Returned, info,
           s\<lparr>hs_proxy := (hs_proxy s)\<lparr>px_metrics := map_option (ObservePanic g) (px_metrics (hs_proxy s))\<rparr>\<rparr>,
           http_Error ''internal server error'' 500 w)
      | ended \<Rightarrow> ended)"

text \<open>The semaphore: a send that would block is the default case, a receive takes a token back.\<close>

definition sem_send :: "int \<Rightarrow> nat \<Rightarrow> nat option" where
  "sem_send maxConns n = (if int n < maxConns then Some (Suc n) else None)"

definition sem_receive :: "nat \<Rightarrow> nat" where
  "sem_receive n = n - 1"

definition MaxConnsMiddleware :: "'l http_handler \<Rightarrow> int \<Rightarrow> 'l http_handler" where
  "MaxConnsMiddleware next maxConns =
     (if maxConns \<le> 0 then next
      else (\<lambda>r (info, s, w).
        case sem_send maxConns (hs_sem s) of
          Some n \<Rightarrow>
            (let (out, info1, s1, w1) = next r (info, s\<lparr>hs_sem := n\<rparr>, w)
             in (out, info1, s1\<lparr>hs_sem := sem_receive (hs_sem s1)\<rparr>, w1))
        | None \<Rightarrow>
            (Returned, info, s,
             http_Error ''server at connection limit, try again shortly'' 503
               (w_mapHeader (header_Set ''Retry-After'' ''1'') w))))"

text \<open>The body of a server request is never nil; a reader around \<open>http.NoBody\<close> is a body of its own.\<close>

definition MaxBodyMiddleware :: "'l http_handler \<Rightarrow> int \<Rightarrow> 'l http_handler" where
  "MaxBodyMiddleware next maxBytes =
     (if maxBytes \<le> 0 then next
      else (\<lambda>r. next (r\<lparr>rq_HasBody := True,
                        rq_MaxBytes := Some (case rq_MaxBytes r of None \<Rightarrow> maxBytes | Some m \<Rightarrow> min m maxBytes)\<rparr>)))"

section \<open>The access log\<close>

record accessEnv =
  al_start :: gotime
  al_end :: gotime
  al_rand :: "string option"
  al_stamp :: string

definition hexDigits :: string where
  "hexDigits = ''0123456789abcdef''"

definition hex_EncodeToString :: "string \<Rightarrow> string" where
  "hex_EncodeToString bs =
     concat (map (\<lambda>c. [hexDigits ! (of_char c div 16), hexDigits ! (of_char c mod 16)]) bs)"

definition newRequestID :: "accessEnv \<Rightarrow> string" where
  "newRequestID env =
     (case al_rand env of None \<Rightarrow> ''ts-'' @ al_stamp env | Some b \<Rightarrow> hex_EncodeToString b)"

definition RequestIDHeader :: string where
  "RequestIDHeader = ''X-Request-Id''"

definition requestID :: "accessEnv \<Rightarrow> Request \<Rightarrow> string" where
  "requestID env r =
     (let reqID = header_Get (rq_Header r) RequestIDHeader in if reqID = [] then newRequestID env else reqID)"

fun alw_parts :: "ResponseWriter \<Rightarrow> ResponseWriter \<times> int \<times> int" where
  "alw_parts (AccessLogWriter w status bytes) = (w, status, bytes)"
| "alw_parts (NetWriter w) = (NetWriter w, 0, 0)"

definition accessEntry :: "accessEnv \<Rightarrow> string \<Rightarrow> Request \<Rightarrow> int \<Rightarrow> int \<Rightarrow> requestInfo \<Rightarrow> accessLogEntry" where
  "accessEntry env reqID r status bytes ri =
     \<lparr>le_Time = al_start env, le_RequestID = reqID, le_Method = rq_Method r, le_Host = rq_Host r,
      le_Path = rq_Path r, le_Status = (if status = 0 then 200 else status), le_Bytes = bytes,
      le_DurationMs = f64 (f64 (of_int (time_sub (al_end env) (al_start env) div 1000)) / 1000),
      le_ClientIP = clientIP r, le_Group = ri_group ri, le_Backend = ri_backend ri,
      le_Retries = ri_retries ri, le_Proto = rq_Proto r, le_UserAgent = header_Get (rq_Header r) ''User-Agent''\<rparr>"

definition AccessLogMiddleware :: "'l http_handler \<Rightarrow> AccessLogConfig \<Rightarrow> accessEnv \<Rightarrow> 'l http_handler" where
  "AccessLogMiddleware next cfg env r st =
     (let format = (if alc_Format cfg \<noteq> ''text'' then AccessLogJSON else AccessLogText);
          (info, s, w) = st;
          reqID = requestID env r;
          r1 = r\<lparr>rq_Header := header_Set RequestIDHeader reqID (rq_Header r)\<rparr>;
          w1 = w_mapHeader (header_Set RequestIDHeader reqID) w;
          ri = \<lparr>ri_backend = [], ri_retries = 0, ri_group = []\<rparr>;
          (out, info1, s1, alw) = next r1 (Some ri, s, AccessLogWriter w1 0 0);
          (w2, status, bytes) = alw_parts alw
      in (out, info,
          (if out = Returned \<and> alc_Enabled cfg
           then s1\<lparr>hs_log := (format, accessEntry env reqID r1 status bytes (case info1 of None \<Rightarrow> ri | Some i \<Rightarrow> i)) # hs_log s1\<rparr>
           else s1),
          w2))"

section \<open>The chain\<close>

record chainConfig =
  cc_group :: string
  cc_maxConns :: int
  cc_maxBodyBytes :: int
  cc_accessLog :: AccessLogConfig

definition dp_chain :: "chainConfig \<Rightarrow> accessEnv \<Rightarrow> 'l http_handler \<Rightarrow> 'l http_handler" where
  "dp_chain cfg env proxy =
     (let h1 = MaxBodyMiddleware proxy (cc_maxBodyBytes cfg);
          h2 = MaxConnsMiddleware h1 (cc_maxConns cfg);
          h3 = RecoveryMiddleware h2 (cc_group cfg)
      in AccessLogMiddleware h3 (cc_accessLog cfg) env)"

section \<open>What the access-log writer knows\<close>

text \<open>
  \<open>carries\<close>: the request id is the first value of its header. \<open>alw_inv\<close>: the writer is the access-log
  writer, the id is in its header map and in the headers sent, and status and byte count are those of
  the answer on the connection (status 0 as long as there is none).
\<close>

definition carries :: "string \<Rightarrow> header \<Rightarrow> bool" where
  "carries reqID h \<longleftrightarrow> (\<exists>vs. h RequestIDHeader = Some (reqID # vs))"

definition sent_ok :: "string \<Rightarrow> int \<Rightarrow> (int \<times> header) option \<Rightarrow> bool" where
  "sent_ok reqID status sent \<longleftrightarrow>
     (case sent of None \<Rightarrow> status = 0 | Some (c, h) \<Rightarrow> status = c \<and> c \<noteq> 0 \<and> carries reqID h)"

fun alw_inv :: "string \<Rightarrow> ResponseWriter \<Rightarrow> bool" where
  "alw_inv reqID (NetWriter w) \<longleftrightarrow> False"
| "alw_inv reqID (AccessLogWriter w status bytes) \<longleftrightarrow>
     carries reqID (rw_header w) \<and> bytes = int (length (rw_body w)) \<and> sent_ok reqID status (rw_sent w)"

lemma canon_names:
  "CanonicalHeaderKey RequestIDHeader = RequestIDHeader"
  "CanonicalHeaderKey ''X-Content-Type-Options'' = ''X-Content-Type-Options''"
  "CanonicalHeaderKey ''Content-Type'' = ''Content-Type''"
  "CanonicalHeaderKey ''Content-Length'' = ''Content-Length''"
  "CanonicalHeaderKey ''Set-Cookie'' = ''Set-Cookie''"
  "CanonicalHeaderKey ''Retry-After'' = ''Retry-After''"
  "CanonicalHeaderKey ''WWW-Authenticate'' = ''Www-Authenticate''"
  by code_simp+

lemma carries_Set:
  "carries reqID (header_Set RequestIDHeader reqID h)"
  "CanonicalHeaderKey n \<noteq> RequestIDHeader \<Longrightarrow> carries reqID (header_Set n v h) = carries reqID h"
  "CanonicalHeaderKey n \<noteq> RequestIDHeader \<Longrightarrow> carries reqID (header_Add n v h) = carries reqID h"
  "CanonicalHeaderKey n \<noteq> RequestIDHeader \<Longrightarrow> carries reqID (header_Del n h) = carries reqID h"
  by (auto simp: carries_def header_Set_def header_Add_def header_Del_def canon_names)

lemma carries_AddAll: "carries reqID h \<Longrightarrow> carries reqID (header_AddAll src h)"
  by (auto simp: carries_def header_AddAll_def split: option.splits)

lemma carries_Get: "carries reqID h \<Longrightarrow> header_Get h RequestIDHeader = reqID"
  by (auto simp: carries_def header_Get_def header_Values_def canon_names)

lemma alw_new: "rw_sent w = None \<Longrightarrow> rw_body w = [] \<Longrightarrow>
    alw_inv reqID (AccessLogWriter (w_mapHeader (header_Set RequestIDHeader reqID) w) 0 0)"
  by (simp add: sent_ok_def carries_Set)

lemma alw_sent: "rw_sent (AccessLogWriter w st n) = rw_sent w" "rw_header (AccessLogWriter w st n) = rw_header w"
  "rw_body (AccessLogWriter w st n) = rw_body w"
  by (simp_all add: rw_sent_def rw_header_def rw_body_def)

lemma alw_mapHeader:
  "alw_inv reqID w \<Longrightarrow> (\<And>h. carries reqID h \<Longrightarrow> carries reqID (f h)) \<Longrightarrow> alw_inv reqID (w_mapHeader f w)"
  by (cases w) auto

lemma alw_WriteHeader:
  "alw_inv reqID w \<Longrightarrow> rw_sent w = None \<Longrightarrow> code \<noteq> 0 \<Longrightarrow> \<not> informational code \<Longrightarrow> alw_inv reqID (w_WriteHeader code w)"
  by (cases w) (auto simp: sent_ok_def alw_sent)

lemma alw_Write: "alw_inv reqID w \<Longrightarrow> alw_inv reqID (w_Write b w)"
  by (cases w) (auto simp: sent_ok_def split: option.splits)

lemma alw_answer:
  assumes "alw_inv reqID w" "rw_sent w = None" "code \<noteq> 0" "\<not> informational code" "\<And>h. carries reqID h \<Longrightarrow> carries reqID (f h)"
  shows "alw_inv reqID (w_Write b (w_WriteHeader code (w_mapHeader f w)))"
  by (intro alw_Write alw_WriteHeader alw_mapHeader assms) (use assms(2) in auto)

lemma alw_http_Error:
  "alw_inv reqID w \<Longrightarrow> rw_sent w = None \<Longrightarrow> code \<noteq> 0 \<Longrightarrow> \<not> informational code \<Longrightarrow> alw_inv reqID (http_Error msg code w)"
  unfolding http_Error_def http_Error_on_def
  by (erule (3) alw_answer) (simp add: carries_Set canon_names RequestIDHeader_def)

lemma alw_SetCookie: "alw_inv reqID w \<Longrightarrow> alw_inv reqID (SetCookie n v age w)"
  unfolding SetCookie_def Let_def
  by (auto intro!: alw_mapHeader simp: carries_Set canon_names RequestIDHeader_def)

section \<open>The proxy behind the access log\<close>

lemma rp_alw:
  assumes "alw_inv reqID w" "rw_sent w = None" "final_status up"
    and "rp_ServeHTTP w_mapHeader w_WriteHeader w_Write w_Hijack rw [] up w = (a, w1)"
  shows "alw_inv reqID w1"
proof (cases up)
  case UpError
  then show ?thesis using assms alw_http_Error [OF assms(1,2), of 502]
    by (auto simp: rp_ServeHTTP_def http_Error_def)
next
  case (UpSwitching h)
  have "w_Hijack (w_mapHeader f w) = None" for f using assms(1) by (cases w) auto
  then show ?thesis using UpSwitching assms alw_http_Error [OF assms(1,2), of 502]
    by (auto simp: rp_ServeHTTP_def http_Error_def)
qed (use assms in \<open>auto simp: rp_ServeHTTP_def final_status_def intro!: alw_answer carries_AddAll\<close>)

lemma serveOnce_alw:
  assumes "alw_inv reqID w" "rw_sent w = None"
    and fs: "\<And>r. final_status (ae_roundTrip env addr r) \<and> ae_interim env addr r = []"
    and s: "serveOnce outReq rw env r addr buffered (w, b) = (a, w1, b1)"
  shows "alw_inv reqID w1"
proof -
  let ?up = "ae_roundTrip env addr (applyRequest rw (outReq addr r))"
  obtain a' w' where rp: "rp_ServeHTTP w_mapHeader w_WriteHeader w_Write w_Hijack rw [] ?up w = (a', w')" by fastforce
  obtain a'' rrw where rr: "rp_ServeHTTP rrw_mapHeader rrw_WriteHeader rrw_Write (\<lambda>_. None) rw [] ?up newRetryResponseWriter = (a'', rrw)"
    by fastforce
  have "w1 = w \<or> w1 = w'"
  proof (cases ?up)
    case (UpResponse code h body)
    then show ?thesis
      using s rp rr fs flush_response [of "\<lambda>_. None" rw code h body a'' rrw w w_Hijack]
      by (cases buffered) (auto simp: serveOnce_def Let_def split: attempt.splits if_splits)
  qed (use s rp fs in \<open>cases buffered; auto simp: serveOnce_def rp_ServeHTTP_def Let_def split: attempt.splits if_splits option.splits\<close>)+
  then show ?thesis using assms(1) rp_alw [OF assms(1,2) conjunct1 [OF fs] rp] by auto
qed

lemma selectBackend_alw:
  assumes "alw_inv reqID w" "selectBackend now r (w, b) = (sel, w1, b1)"
  shows "alw_inv reqID w1"
proof -
  have "alw_inv reqID (setAffinityCookie n v ttl w)" for n v ttl
    unfolding setAffinityCookie_def Let_def by (rule alw_SetCookie [OF assms(1)])
  then show ?thesis
    using assms by (auto simp: selectBackend_def Let_def split: if_splits option.splits prod.splits)
qed

lemma retryLoop_alw:
  assumes "alw_inv reqID (ps_w s)" "rw_sent (ps_w s) = None" "final_answers envs \<and> no_interim envs" "retryable \<or> left \<le> 1"
    and "retryLoop outReq rw envs cfg r g retryable left i s = (res, s')"
  shows "alw_inv reqID (ps_w s') \<and> (res = NoBackend \<longrightarrow> rw_sent (ps_w s') = None)"
  using assms
proof (induction left arbitrary: i s)
  case (Suc left)
  obtain sel w1 b1 where sel: "selectBackend (ae_select (envs i)) r (ps_w s, ps_b s) = (sel, w1, b1)" by (metis prod.collapse)
  have w1: "rw_sent w1 = None" "alw_inv reqID w1"
    using selectBackend_sent [OF sel] selectBackend_alw [OF Suc.prems(1) sel] Suc.prems(2) by simp_all
  show ?case
  proof (cases sel)
    case None
    then show ?thesis using Suc.prems(5) sel w1 by auto
  next
    case (Some addr)
    obtain a w2 b2 where so: "serveOnce outReq rw (envs i) r addr (retryable \<and> left \<noteq> 0) (w1, b1) = (a, w2, b2)"
      by (metis prod.collapse)
    have w2: "alw_inv reqID w2"
      using serveOnce_alw [OF w1(2,1) _ so] Suc.prems(3) by (simp add: final_answers_def no_interim_def)
    show ?thesis
    proof (cases "\<exists>code. a = Attempt code True \<and> left \<noteq> 0")
      case False
      then show ?thesis using Suc.prems(5) sel Some so w2 by (auto simp: Let_def split: attempt.splits if_splits)
    next
      case True
      then obtain code where a: "a = Attempt code True" "left \<noteq> 0" by blast
      have "if (retryable \<and> left \<noteq> 0) \<and> True then w2 = w1 else map_option fst (rw_sent w2) = Some code"
        using Suc.prems(3) by (intro serveOnce_sent [OF w1(1) so [unfolded a(1)]]) (auto simp: final_answers_def no_interim_def)
      then have "w2 = w1" using Suc.prems(4) a(2) by auto
      moreover have "retryable \<or> left \<le> 1" using Suc.prems(4) by auto
      ultimately show ?thesis
        using Suc.prems(5) sel Some so w1 a Suc.IH [OF _ _ Suc.prems(3), rotated 2]
        by (auto simp: Let_def split: if_splits)
    qed
  qed
qed auto

lemma Handler_alw:
  assumes "alw_inv reqID w" "rw_sent w = None" "final_answers (he_attempts env) \<and> no_interim (he_attempts env)"
    and H: "Handler env r p w info = (aborted, p', w', info')"
  shows "alw_inv reqID w'"
proof -
  obtain g rw auth routes where rm: "resolveMatch (rq_Host r) (rq_Path r) (rq_Method r) (Some (rq_Header r))
      (Some (rq_Query r)) (px_routes p) = ((g, rw, auth), routes)"
    by (metis prod.collapse)
  show ?thesis
  proof (cases "auth_enabled auth \<and> authenticate (he_jwtParse env) (he_parseKey env) auth r \<noteq> None")
    case True
    then have "w' = http_Error ''unauthorized'' 401 (w_mapHeader (header_Set ''WWW-Authenticate'' (authChallenge auth)) w)"
      using H rm by (auto simp: Handler_def)
    then show ?thesis
      using assms(1,2) by (auto intro!: alw_http_Error alw_mapHeader simp: carries_Set canon_names RequestIDHeader_def)
  next
    case False
    obtain b0 groups where en: "gm_Ensure (he_rng env) (he_start env) g (px_groups p) = (b0, groups)" by fastforce
    obtain ok b1 where al: "bl_RateLimitAllow (he_newLimiter env) (he_limAllow env) (he_limit env) (clientIP r) b0 = (ok, b1)"
      by fastforce
    let ?s0 = "\<lparr>ps_w = w, ps_b = b1, ps_metrics = gauge (he_start env) g 1 (px_metrics p), ps_info = info\<rparr>"
    obtain res s where sv: "serveWithRetries (he_outReq env) rw (he_attempts env) (px_cfg p) r g ?s0 = (res, s)"
      by fastforce
    have "alw_inv reqID (ps_w s) \<and> (res = NoBackend \<longrightarrow> rw_sent (ps_w s) = None)"
      by (rule retryLoop_alw [OF _ _ assms(3) _ sv [unfolded serveWithRetries_def Let_def]]) (use assms(1,2) in auto)
    then show ?thesis
      using Handler_split [OF rm False en al sv, unfolded H Let_def] assms(1,2)
      by (cases ok; cases res) (auto intro!: alw_http_Error)
  qed
qed

section \<open>Handlers that answer once\<close>

text \<open>
  The contract between the middlewares and the handler they wrap: it does not panic by accident, it
  returns the tokens it took, and it leaves the access-log writer in step with the connection.
\<close>

definition answers_once :: "'l http_handler \<Rightarrow> bool" where
  "answers_once h \<longleftrightarrow> (\<forall>reqID r info s w out info' s' w'.
     alw_inv reqID w \<longrightarrow> rw_sent w = None \<longrightarrow> h r (info, s, w) = (out, info', s', w') \<longrightarrow>
       out \<in> {Returned, PanicAbort} \<and> hs_sem s' = hs_sem s \<and> hs_log s' = hs_log s \<and> alw_inv reqID w')"

lemma answers_onceD:
  assumes "answers_once h" "alw_inv reqID w" "rw_sent w = None" "h r (info, s, w) = (out, info', s', w')"
  shows "out \<in> {Returned, PanicAbort}" "hs_sem s' = hs_sem s" "hs_log s' = hs_log s" "alw_inv reqID w'"
  using assms unfolding answers_once_def by blast+

lemma proxy_once: "final_answers (he_attempts env) \<Longrightarrow> no_interim (he_attempts env) \<Longrightarrow> answers_once (proxyHandler env)"
  unfolding answers_once_def proxyHandler_def
  by (auto simp: Let_def split: prod.splits dest: Handler_alw)

lemma MaxBody_once: "answers_once h \<Longrightarrow> answers_once (MaxBodyMiddleware h n)"
  by (auto simp: answers_once_def MaxBodyMiddleware_def)

lemma MaxConns_once:
  assumes "answers_once h"
  shows "answers_once (MaxConnsMiddleware h n)"
  unfolding answers_once_def
proof (intro allI impI)
  fix reqID r info s w out info' s' w'
  assume w: "alw_inv reqID w" "rw_sent w = None" and m: "MaxConnsMiddleware h n r (info, s, w) = (out, info', s', w')"
  show "out \<in> {Returned, PanicAbort} \<and> hs_sem s' = hs_sem s \<and> hs_log s' = hs_log s \<and> alw_inv reqID w'"
  proof (cases "n \<le> 0 \<or> int (hs_sem s) < n")
    case True
    then show ?thesis
      using m answers_onceD [OF assms w]
      by (fastforce simp: MaxConnsMiddleware_def sem_send_def sem_receive_def split: if_splits prod.splits)
  next
    case False
    then show ?thesis
      using m w by (auto simp: MaxConnsMiddleware_def sem_send_def carries_Set canon_names RequestIDHeader_def
          intro!: alw_http_Error alw_mapHeader)
  qed
qed

lemma Recovery_once: "answers_once h \<Longrightarrow> answers_once (RecoveryMiddleware h g)"
  unfolding answers_once_def RecoveryMiddleware_def
  by (fastforce split: prod.splits outcome.splits)


definition demo_chain :: chainConfig where
  "demo_chain = \<lparr>cc_group = ''g'', cc_maxConns = 2, cc_maxBodyBytes = 10,
     cc_accessLog = \<lparr>alc_Enabled = True, alc_Format = ''json''\<rparr>\<rparr>"

definition demo_access :: accessEnv where
  "demo_access = \<lparr>al_start = 1, al_end = 2, al_rand = Some ''0123456789abcdef'', al_stamp = []\<rparr>"

definition demo_http :: "nat stream \<Rightarrow> unit httpServer" where
  "demo_http rng = \<lparr>hs_proxy = demo_proxy [] rng, hs_sem = 1, hs_log = []\<rparr>"


section \<open>The connection limit under concurrency\<close>

text \<open>
  Requests arrive and end in any order; the wrapped handler runs between the two steps of a request,
  and a request leaves in the same way whether the handler returned or panicked, since the token is
  given back in a deferred call.
\<close>

record limiter =
  lm_sem :: nat
  lm_inside :: "nat list"

datatype limiterEvent = Admitted nat | Rejected nat | Ended nat outcome

inductive lm_step :: "int \<Rightarrow> limiter \<Rightarrow> limiterEvent \<Rightarrow> limiter \<Rightarrow> bool" for maxConns where
  admit: "sem_send maxConns (lm_sem l) = Some n \<Longrightarrow> i \<notin> set (lm_inside l) \<Longrightarrow>
    lm_step maxConns l (Admitted i) (l\<lparr>lm_sem := n, lm_inside := i # lm_inside l\<rparr>)"
| reject: "sem_send maxConns (lm_sem l) = None \<Longrightarrow> i \<notin> set (lm_inside l) \<Longrightarrow> lm_step maxConns l (Rejected i) l"
| ended: "i \<in> set (lm_inside l) \<Longrightarrow>
    lm_step maxConns l (Ended i out) (l\<lparr>lm_sem := sem_receive (lm_sem l), lm_inside := remove1 i (lm_inside l)\<rparr>)"

inductive lm_run :: "int \<Rightarrow> limiter \<Rightarrow> limiterEvent list \<Rightarrow> limiter \<Rightarrow> bool" for maxConns where
  start: "lm_run maxConns \<lparr>lm_sem = 0, lm_inside = []\<rparr> [] \<lparr>lm_sem = 0, lm_inside = []\<rparr>"
| more: "lm_run maxConns l0 es l \<Longrightarrow> lm_step maxConns l e l' \<Longrightarrow> lm_run maxConns l0 (es @ [e]) l'"

inductive_simps Rejected_step: "lm_step maxConns l (Rejected i) l'"
inductive_simps Admitted_step: "lm_step maxConns l (Admitted i) l'"

definition lm_inv :: "int \<Rightarrow> limiter \<Rightarrow> bool" where
  "lm_inv maxConns l \<longleftrightarrow> lm_sem l = length (lm_inside l) \<and> int (lm_sem l) \<le> maxConns \<and> distinct (lm_inside l)"

lemma lm_inv_step: "lm_step maxConns l e l' \<Longrightarrow> lm_inv maxConns l \<Longrightarrow> lm_inv maxConns l'"
  by (induction rule: lm_step.induct)
     (auto simp: lm_inv_def sem_send_def sem_receive_def length_remove1 split: if_splits)

lemma lm_run_inv: "lm_run maxConns l0 es l \<Longrightarrow> 0 < maxConns \<Longrightarrow> lm_inv maxConns l"
  by (induction rule: lm_run.induct) (auto simp: lm_inv_def [where l = "\<lparr>lm_sem = _, lm_inside = _\<rparr>"] intro: lm_inv_step)

text \<open>
  C10. Under every interleaving of arriving and ending requests, at most \<open>maxConns\<close> are inside the wrapped
  handler; a request is turned away exactly when \<open>maxConns\<close> are inside, with 503, \<open>Retry-After: 1\<close> and
  no call of the handler; and the tokens taken are always those of the requests inside, so none is lost
  by a panic, the receive never blocks, and an idle server admits \<open>maxConns\<close> requests again.
\<close>

theorem conn_limit:
  assumes "0 < maxConns" "lm_run maxConns l0 es l" "i \<notin> set (lm_inside l)"
  shows "int (length (lm_inside l)) \<le> maxConns \<and> lm_sem l = length (lm_inside l) \<and>
    ((\<exists>l'. lm_step maxConns l (Rejected i) l') \<longleftrightarrow> int (length (lm_inside l)) = maxConns) \<and>
    ((\<exists>l'. lm_step maxConns l (Admitted i) l') \<longleftrightarrow> int (length (lm_inside l)) < maxConns) \<and>
    (int (length (lm_inside l)) = maxConns \<longrightarrow> hs_sem s = lm_sem l \<longrightarrow> rw_sent w = None \<longrightarrow>
      (\<exists>w'. MaxConnsMiddleware h maxConns r (info, s, w) = (Returned, info, s, w') \<and>
        map_option fst (rw_sent w') = Some 503 \<and> header_Get (rw_header w') ''Retry-After'' = ''1''))"
proof -
  have inv: "lm_inv maxConns l" using lm_run_inv assms by blast
  let ?w = "http_Error ''server at connection limit, try again shortly'' 503 (w_mapHeader (header_Set ''Retry-After'' ''1'') w)"
  have "header_Get (rw_header ?w) ''Retry-After'' = ''1''"
    by (simp add: http_Error_def http_Error_on_def header_Get_def header_Values_def header_Set_def header_Del_def canon_names)
  then show ?thesis
    using inv assms(1,3) http_Error_status [of "w_mapHeader (header_Set ''Retry-After'' ''1'') w"]
    by (auto simp: lm_inv_def sem_send_def MaxConnsMiddleware_def Rejected_step Admitted_step)
qed

theorem conn_limit_witness:
  "\<exists>w'. MaxConnsMiddleware (proxyHandler (demo_henv UpError (sconst 0))) 1 (demo_request [])
       (None, demo_http (sconst 0), new_writer) = (Returned, None, demo_http (sconst 0), w') \<and>
     map_option fst (rw_sent w') = Some 503"
proof -
  have "lm_run 1 \<lparr>lm_sem = 0, lm_inside = []\<rparr> ([] @ [Admitted 7]) (\<lparr>lm_sem = 0, lm_inside = []\<rparr>\<lparr>lm_sem := 1, lm_inside := 7 # []\<rparr>)"
    by (rule lm_run.more [OF lm_run.start]) (auto simp: Admitted_step sem_send_def)
  from conn_limit [OF _ this, of 8 "demo_http (sconst 0)" new_writer "proxyHandler (demo_henv UpError (sconst 0))" "demo_request []" None]
  show ?thesis by (auto simp: demo_http_def)
qed

section \<open>Panics\<close>

text \<open>
  A panic of the wrapped handler other than a stream abort ends at the recovery: it is counted once,
  the token of the request is back, and the client gets a 500 unless its response had already begun,
  in which case nothing of it changes. Aborts go through to the server.
\<close>

theorem panic_contained:
  assumes "maxConns \<le> 0 \<or> int (hs_sem s) < maxConns"
    and "\<And>n. h r (info, s\<lparr>hs_sem := n\<rparr>, w) = (Panic v, info1, s1\<lparr>hs_sem := n\<rparr>, w1)"
  shows "\<exists>s' w'. RecoveryMiddleware (MaxConnsMiddleware h maxConns) g r (info, s, w) = (Returned, info1, s', w') \<and>
    hs_sem s' = hs_sem s \<and>
    px_metrics (hs_proxy s') = map_option (ObservePanic g) (px_metrics (hs_proxy s1)) \<and>
    (case rw_sent w1 of None \<Rightarrow> map_option fst (rw_sent w') = Some 500 | Some sent \<Rightarrow> rw_sent w' = Some sent)"
proof -
  have "h r (info, s, w) = (Panic v, info1, s1\<lparr>hs_sem := hs_sem s\<rparr>, w1)" using assms(2) [of "hs_sem s"] by simp
  then show ?thesis
    using assms http_Error_status [of w1] http_Error_keeps [of w1]
    by (auto simp: RecoveryMiddleware_def MaxConnsMiddleware_def sem_send_def sem_receive_def split: option.splits)
qed

text \<open>
  The access-log writer takes every status it is told, the connection only the first: after a panic
  in the middle of a response the line says 500 while the client got the first status.
\<close>

lemma committed_panic_logged:
  "alw_parts (http_Error ''internal server error'' 500
     (w_Write body (w_WriteHeader 200 (AccessLogWriter new_writer 0 0)))) = (w2, st, n) \<Longrightarrow>
   st = 500 \<and> map_option fst (rw_sent w2) = Some 200"
  by (auto simp: http_Error_def http_Error_on_def)

section \<open>Protocol upgrades\<close>

text \<open>
  Behind the access-log middleware no connection can be taken over: a backend that agrees to switch
  protocols is treated as one that could not be reached, in the answer to the client (502) and in the
  backend's error count alike. Without the middleware the switch succeeds.
\<close>

lemma interim_writer:
  "\<exists>v st' n'. rp_interim w_mapHeader w_WriteHeader interim (AccessLogWriter w st n) = AccessLogWriter v st' n'"
  "\<exists>c'. rp_interim w_mapHeader w_WriteHeader interim (NetWriter c) = NetWriter c'"
  unfolding rp_interim_def by (induction interim arbitrary: w st c) auto

theorem upgrade_refused:
  "serveOnce outReq rw (env\<lparr>ae_roundTrip := \<lambda>_ _. UpSwitching h\<rparr>) r addr False (AccessLogWriter w st n, b) =
     serveOnce outReq rw (env\<lparr>ae_roundTrip := \<lambda>_ _. UpError\<rparr>) r addr False (AccessLogWriter w st n, b) \<and>
   fst (serveOnce outReq rw (env\<lparr>ae_roundTrip := \<lambda>_ _. UpSwitching h\<rparr>) r addr False (NetWriter c, b)) = Attempt 101 False"
proof -
  let ?in = "ae_interim env addr (applyRequest rw (outReq addr r))"
  obtain v st' n' c' where "rp_interim w_mapHeader w_WriteHeader ?in (AccessLogWriter w st n) = AccessLogWriter v st' n'"
    "rp_interim w_mapHeader w_WriteHeader ?in (NetWriter c) = NetWriter c'" using interim_writer by blast
  then show ?thesis by (simp add: serveOnce_def rp_ServeHTTP_def Let_def)
qed

section \<open>Interim responses\<close>

text \<open>The buffer takes an interim status for the final one; a writer of the connection does not.\<close>

lemma rrw_interim:
  "rp_interim rrw_mapHeader rrw_WriteHeader ((c, h) # rest) newRetryResponseWriter =
     \<lparr>rrw_header = Map.empty, rrw_body = [], rrw_statusCode = c, rrw_wroteHeader = True\<rparr>"
proof -
  have "foldl (\<lambda>w (code, h). rrw_mapHeader (\<lambda>_. Map.empty) (rrw_WriteHeader code (rrw_mapHeader (header_AddAll h) w)))
      \<lparr>rrw_header = Map.empty, rrw_body = [], rrw_statusCode = c, rrw_wroteHeader = True\<rparr> rest =
      \<lparr>rrw_header = Map.empty, rrw_body = [], rrw_statusCode = c, rrw_wroteHeader = True\<rparr>"
    by (induction rest) (auto simp: rrw_mapHeader_def rrw_WriteHeader_def)
  then show ?thesis by (simp add: rp_interim_def newRetryResponseWriter_def rrw_mapHeader_def rrw_WriteHeader_def)
qed

lemma interim_header: "interim \<noteq> [] \<Longrightarrow> rw_header (rp_interim w_mapHeader w_WriteHeader interim w) = Map.empty"
  unfolding rp_interim_def by (induction interim arbitrary: w rule: rev_induct) (auto simp: case_prod_beta)

text \<open>
  C26. A backend that sends an interim response (103 Early Hints, say) before its answer confuses the proxy. On
  a buffered attempt, which every first attempt at a request that may be repeated is, the buffer keeps the
  interim status: the client gets that one and then 200, whatever the backend answered, while the metrics
  count what it answered and the access log writes the interim status. On an unbuffered attempt the client
  gets the right status, but the headers that were set before the attempt (the request id, the affinity
  cookie) are not in the answer, because they were cleared after the interim response.
\<close>

theorem interim_hides_status:
  assumes "ae_interim env addr (applyRequest rw (outReq addr r)) = (c, h0) # rest"
    and "list_all (\<lambda>(code, h). informational code) ((c, h0) # rest)"
    and "ae_roundTrip env addr (applyRequest rw (outReq addr r)) = UpResponse code h body" "200 \<le> code"
    and "rw_sent w = None"
  shows "(\<exists>w1 n b1. serveOnce outReq rw env r addr True (AccessLogWriter w 0 0, b) = (Attempt code False, AccessLogWriter w1 c n, b1) \<and>
      map_option fst (rw_sent w1) = Some 200) \<and>
    (\<exists>w2 n b2. serveOnce outReq rw env r addr False (AccessLogWriter w 0 0, b) = (Attempt code False, AccessLogWriter w2 code n, b2) \<and>
      rw_sent w2 = Some (code, header_AddAll (applyResponse rw h) Map.empty))"
proof
  have c: "informational c" using assms(2) by simp
  then have "c \<noteq> 0" by simp
  then show "\<exists>w1 n b1. serveOnce outReq rw env r addr True (AccessLogWriter w 0 0, b) = (Attempt code False, AccessLogWriter w1 c n, b1) \<and>
      map_option fst (rw_sent w1) = Some 200"
    using assms(5) c by (simp add: serveOnce_def rp_ServeHTTP_def assms(1,3) rrw_interim rrw_mapHeader_def rrw_WriteHeader_def rrw_Write_def
        flushTo_def Let_def del: informational_def)
  let ?w = "rp_interim w_mapHeader w_WriteHeader ((c, h0) # rest) (AccessLogWriter w 0 0)"
  obtain v st n where v: "?w = AccessLogWriter v st n" using interim_writer(1) by blast
  have "rw_sent ?w = None" "rw_header ?w = Map.empty"
    using assms(2,5) by (auto intro!: interim_sent interim_header simp: alw_sent simp del: informational_def)
  then show "\<exists>w2 n b2. serveOnce outReq rw env r addr False (AccessLogWriter w 0 0, b) = (Attempt code False, AccessLogWriter w2 code n, b2) \<and>
      rw_sent w2 = Some (code, header_AddAll (applyResponse rw h) Map.empty)"
    using assms(4) by (simp add: serveOnce_def rp_ServeHTTP_def assms(1,3) Let_def v alw_sent)
qed

definition demo_hints :: attemptEnv where
  "demo_hints = \<lparr>ae_select = 2, ae_done = 2, ae_interim = (\<lambda>_ _. [(103, Map.empty)]),
     ae_roundTrip = (\<lambda>_ _. UpResponse 404 Map.empty ''no''), ae_ctxDone = False\<rparr>"

theorem interim_hides_status_witness:
  "\<forall>rng. \<exists>w1 n b1. serveOnce (\<lambda>_ r. r) zeroRewrite demo_hints (demo_request []) ''a'' True (AccessLogWriter new_writer 0 0, demo_list [] rng) =
     (Attempt 404 False, AccessLogWriter w1 103 n, b1) \<and> map_option fst (rw_sent w1) = Some 200"
  by (intro allI interim_hides_status [where c = 103 and h0 = Map.empty and rest = "[]" and h = Map.empty and body = "''no''", THEN conjunct1])
     (simp_all add: demo_hints_def)

end
