(* ===== verification/Certs.thy ===== *)
theory Certs
  imports Text "HOL-Library.AList"
begin

text \<open>
  TLS certificates (\<open>internal/tlsutil\<close>): the list of certificate pairs, loading and hot reload of the pairs,
  the choice of a certificate by server name, the mtime poll, and the static server and client
  configurations.

  The file system is an argument: what a path holds (modification time and contents) at the moment it is
  looked at, so that files may change between any two accesses. Parsing a pair, a leaf or a CA bundle and
  \<open>VerifyHostname\<close> belong to \<open>crypto/tls\<close> and \<open>crypto/x509\<close> and are arguments too. Log lines are left out, and
  of a \<open>tls.Config\<close> only the certificates and the client-certificate policy are kept.
\<close>

section \<open>Data\<close>

record CertPair =
  cp_CertFile :: string
  cp_KeyFile :: string

datatype certError =
    BadPair string
  | EmptyPath string
  | NoPairs
  | LoadFailed CertPair
  | NoCertificates
  | CAUnreadable string
  | CAUnparsed string

record leaf =
  lf_DNSNames :: "string list"
  lf_CommonName :: string

text \<open>What is used of the library: \<open>'c\<close> is a parsed pair, \<open>'p\<close> a pool of CA certificates.\<close>

record ('c, 'p) tlslib =
  tl_X509KeyPair :: "string \<Rightarrow> string \<Rightarrow> 'c option"
  tl_leaf :: "'c \<Rightarrow> leaf option"
  tl_VerifyHostname :: "leaf \<Rightarrow> string \<Rightarrow> bool"
  tl_AppendCertsFromPEM :: "string \<Rightarrow> 'p option"

type_synonym fs = "string \<Rightarrow> (gotime \<times> string) option"

record 'c CertReloader =
  cr_pairs :: "CertPair list"
  cr_certs :: "'c list"
  cr_mtimes :: "(string \<times> gotime) list"

record ('c, 'p) tlsConfig =
  tc_Certificates :: "'c list"
  tc_ClientCAs :: "'p option"
  tc_RequireClientCert :: bool
  tc_RootCAs :: "'p option"

section \<open>The list of pairs\<close>

definition parseCertPair :: "string \<Rightarrow> certError + CertPair" where
  "parseCertPair entry =
     (case indexOf (CHR '':'') entry of
        None \<Rightarrow> Inl (BadPair entry)
      | Some i \<Rightarrow>
          (let cert = TrimSpace (take i entry); key = TrimSpace (drop (i + 1) entry)
           in if cert = [] \<or> key = [] then Inl (EmptyPath entry)
              else Inr \<lparr>cp_CertFile = cert, cp_KeyFile = key\<rparr>))"

definition ParseCertPairs :: "string \<Rightarrow> certError + CertPair list" where
  "ParseCertPairs spec = parseSpec parseCertPair spec"

section \<open>Loading and reloading\<close>

definition fileMtime :: "fs \<Rightarrow> string \<Rightarrow> gotime" where
  "fileMtime fs path = (case fs path of None \<Rightarrow> zero_time | Some (t, _) \<Rightarrow> t)"

definition ReadFile :: "fs \<Rightarrow> string \<Rightarrow> string option" where
  "ReadFile fs path = map_option snd (fs path)"

definition LoadX509KeyPair :: "('c, 'p) tlslib \<Rightarrow> fs \<Rightarrow> fs \<Rightarrow> CertPair \<Rightarrow> 'c option" where
  "LoadX509KeyPair lib fs1 fs2 p =
     Option.bind (ReadFile fs1 (cp_CertFile p)) (\<lambda>cert.
       Option.bind (ReadFile fs2 (cp_KeyFile p)) (\<lambda>key. tl_X509KeyPair lib cert key))"

text \<open>The loop of \<open>load\<close>: access \<open>i\<close> sees the file system \<open>fs i\<close>, and each pair takes four accesses.\<close>

fun loadLoop ::
    "('c, 'p) tlslib \<Rightarrow> (nat \<Rightarrow> fs) \<Rightarrow> nat \<Rightarrow> CertPair list \<Rightarrow> 'c list \<Rightarrow> (string \<times> gotime) list
       \<Rightarrow> certError + 'c list \<times> (string \<times> gotime) list" where
  "loadLoop lib fs i [] loaded newMtimes = Inr (loaded, newMtimes)"
| "loadLoop lib fs i (p # ps) loaded newMtimes =
     (case LoadX509KeyPair lib (fs i) (fs (i + 1)) p of
        None \<Rightarrow> Inl (LoadFailed p)
      | Some cert \<Rightarrow>
          loadLoop lib fs (i + 4) ps (loaded @ [cert])
            (AList.update (cp_KeyFile p) (fileMtime (fs (i + 3)) (cp_KeyFile p))
              (AList.update (cp_CertFile p) (fileMtime (fs (i + 2)) (cp_CertFile p)) newMtimes)))"

definition cr_load :: "('c, 'p) tlslib \<Rightarrow> (nat \<Rightarrow> fs) \<Rightarrow> 'c CertReloader \<Rightarrow> certError option \<times> 'c CertReloader" where
  "cr_load lib fs r =
     (case loadLoop lib fs 0 (cr_pairs r) [] [] of
        Inl e \<Rightarrow> (Some e, r)
      | Inr (loaded, newMtimes) \<Rightarrow> (None, r\<lparr>cr_certs := loaded, cr_mtimes := newMtimes\<rparr>))"

definition Reload :: "('c, 'p) tlslib \<Rightarrow> (nat \<Rightarrow> fs) \<Rightarrow> 'c CertReloader \<Rightarrow> certError option \<times> 'c CertReloader" where
  "Reload lib fs r = cr_load lib fs r"

definition NewCertReloader :: "('c, 'p) tlslib \<Rightarrow> (nat \<Rightarrow> fs) \<Rightarrow> CertPair list \<Rightarrow> certError + 'c CertReloader" where
  "NewCertReloader lib fs pairs =
     (if pairs = [] then Inl NoPairs
      else case cr_load lib fs \<lparr>cr_pairs = pairs, cr_certs = [], cr_mtimes = []\<rparr> of
             (Some e, _) \<Rightarrow> Inl e
           | (None, r) \<Rightarrow> Inr r)"

definition changedOnDisk :: "fs \<Rightarrow> 'c CertReloader \<Rightarrow> bool" where
  "changedOnDisk fs r = list_ex (\<lambda>(path, seen). fileMtime fs path \<noteq> seen) (cr_mtimes r)"

text \<open>One tick of \<open>Watch\<close> and the other way to a reload, the signal \<open>SIGHUP\<close>.\<close>

definition watch_tick :: "('c, 'p) tlslib \<Rightarrow> fs \<Rightarrow> (nat \<Rightarrow> fs) \<Rightarrow> 'c CertReloader \<Rightarrow> 'c CertReloader" where
  "watch_tick lib seen fs r = (if changedOnDisk seen r then snd (Reload lib fs r) else r)"

section \<open>Serving\<close>

definition certMatchesName :: "('c, 'p) tlslib \<Rightarrow> 'c \<Rightarrow> string \<Rightarrow> bool" where
  "certMatchesName lib cert serverName =
     (case tl_leaf lib cert of None \<Rightarrow> False | Some lf \<Rightarrow> tl_VerifyHostname lib lf serverName)"

definition GetCertificate :: "('c, 'p) tlslib \<Rightarrow> string option \<Rightarrow> 'c CertReloader \<Rightarrow> certError + 'c" where
  "GetCertificate lib hello r =
     (if cr_certs r = [] then Inl NoCertificates
      else
        (let first = cr_certs r ! 0
         in case hello of
              None \<Rightarrow> Inr first
            | Some serverName \<Rightarrow>
                if serverName \<noteq> [] then
                  (case find (\<lambda>c. certMatchesName lib c serverName) (cr_certs r) of
                     Some c \<Rightarrow> Inr c | None \<Rightarrow> Inr first)
                else Inr first))"

definition CertNames :: "('c, 'p) tlslib \<Rightarrow> 'c CertReloader \<Rightarrow> string list" where
  "CertNames lib r =
     map (\<lambda>c. case tl_leaf lib c of
                None \<Rightarrow> ''(unparsed)''
              | Some lf \<Rightarrow> if lf_DNSNames lf \<noteq> [] then Join (lf_DNSNames lf) '','' else lf_CommonName lf)
       (cr_certs r)"

section \<open>Configurations\<close>

definition loadCertPool :: "('c, 'p) tlslib \<Rightarrow> fs \<Rightarrow> string \<Rightarrow> certError + 'p" where
  "loadCertPool lib fs caCertFile =
     (case ReadFile fs caCertFile of
        None \<Rightarrow> Inl (CAUnreadable caCertFile)
      | Some pem \<Rightarrow>
          (case tl_AppendCertsFromPEM lib pem of None \<Rightarrow> Inl (CAUnparsed caCertFile) | Some pool \<Rightarrow> Inr pool))"

definition emptyTLSConfig :: "('c, 'p) tlsConfig" where
  "emptyTLSConfig = \<lparr>tc_Certificates = [], tc_ClientCAs = None, tc_RequireClientCert = False, tc_RootCAs = None\<rparr>"

definition requireClients :: "('c, 'p) tlslib \<Rightarrow> fs \<Rightarrow> string \<Rightarrow> ('c, 'p) tlsConfig \<Rightarrow> certError + ('c, 'p) tlsConfig" where
  "requireClients lib fs caCertFile cfg =
     (if caCertFile \<noteq> [] then
        (case loadCertPool lib fs caCertFile of
           Inl e \<Rightarrow> Inl e
         | Inr pool \<Rightarrow> Inr (cfg\<lparr>tc_ClientCAs := Some pool, tc_RequireClientCert := True\<rparr>))
      else Inr cfg)"

definition TLSConfig :: "('c, 'p) tlslib \<Rightarrow> fs \<Rightarrow> string \<Rightarrow> certError + ('c, 'p) tlsConfig" where
  "TLSConfig lib fs caCertFile = requireClients lib fs caCertFile emptyTLSConfig"

definition LoadServerConfig :: "('c, 'p) tlslib \<Rightarrow> fs \<Rightarrow> string \<Rightarrow> string \<Rightarrow> string \<Rightarrow> certError + ('c, 'p) tlsConfig" where
  "LoadServerConfig lib fs certFile keyFile caCertFile =
     (let p = \<lparr>cp_CertFile = certFile, cp_KeyFile = keyFile\<rparr>
      in case LoadX509KeyPair lib fs fs p of
           None \<Rightarrow> Inl (LoadFailed p)
         | Some cert \<Rightarrow> requireClients lib fs caCertFile (emptyTLSConfig\<lparr>tc_Certificates := [cert]\<rparr>))"

definition LoadClientConfig :: "('c, 'p) tlslib \<Rightarrow> fs \<Rightarrow> string \<Rightarrow> string \<Rightarrow> string \<Rightarrow> certError + ('c, 'p) tlsConfig" where
  "LoadClientConfig lib fs certFile keyFile caCertFile =
     (let addCert = (\<lambda>cfg.
            if certFile \<noteq> [] \<and> keyFile \<noteq> [] then
              (let p = \<lparr>cp_CertFile = certFile, cp_KeyFile = keyFile\<rparr>
               in case LoadX509KeyPair lib fs fs p of
                    None \<Rightarrow> Inl (LoadFailed p)
                  | Some cert \<Rightarrow> Inr (cfg\<lparr>tc_Certificates := [cert]\<rparr>))
            else Inr cfg)
      in if caCertFile \<noteq> [] then
           (case loadCertPool lib fs caCertFile of
              Inl e \<Rightarrow> Inl e
            | Inr pool \<Rightarrow> addCert (emptyTLSConfig\<lparr>tc_RootCAs := Some pool\<rparr>))
         else addCert emptyTLSConfig)"

section \<open>The list of pairs, printed and read\<close>

definition showPair :: "CertPair \<Rightarrow> string" where
  "showPair p = cp_CertFile p @ CHR '':'' # cp_KeyFile p"

definition pair_ok :: "CertPair \<Rightarrow> bool" where
  "pair_ok p \<longleftrightarrow> cp_CertFile p \<noteq> [] \<and> cp_KeyFile p \<noteq> [] \<and> tight (cp_CertFile p) \<and> tight (cp_KeyFile p) \<and>
     CHR '':'' \<notin> set (cp_CertFile p) \<and> CHR '','' \<notin> set (cp_CertFile p) \<union> set (cp_KeyFile p)"

lemma parse_showPair:
  assumes "pair_ok p"
  shows "parseCertPair (showPair p) = Inr p" "showPair p \<noteq> []" "tight (showPair p)" "CHR '','' \<notin> set (showPair p)"
  using assms by (auto simp: pair_ok_def parseCertPair_def showPair_def indexOf_append Let_def tight_def)

text \<open>
  A list of certificate pairs written as \<open>certfile:keyfile\<close> entries between commas is read back as it
  was, for paths without commas, surrounding blanks and, in the certificate, colons.
\<close>

theorem cert_pairs_roundtrip:
  assumes "list_all pair_ok pairs"
  shows "ParseCertPairs (Join (map showPair pairs) '','') = Inr pairs"
  unfolding ParseCertPairs_def
  by (rule parseSpec_Join) (use assms parse_showPair in \<open>auto simp: list_all_iff\<close>)

theorem cert_pairs_roundtrip_witness:
  "ParseCertPairs ''a.crt:a.key,b.crt:b.key'' =
     Inr [\<lparr>cp_CertFile = ''a.crt'', cp_KeyFile = ''a.key''\<rparr>, \<lparr>cp_CertFile = ''b.crt'', cp_KeyFile = ''b.key''\<rparr>]"
  using cert_pairs_roundtrip
    [of "[\<lparr>cp_CertFile = ''a.crt'', cp_KeyFile = ''a.key''\<rparr>, \<lparr>cp_CertFile = ''b.crt'', cp_KeyFile = ''b.key''\<rparr>]"]
  by (simp add: pair_ok_def tight_def asciiSpace_def showPair_def)

section \<open>Certificates are always there\<close>

datatype reloadEvent = Tick fs "nat \<Rightarrow> fs" | Hangup "nat \<Rightarrow> fs"

fun cr_event :: "('c, 'p) tlslib \<Rightarrow> reloadEvent \<Rightarrow> 'c CertReloader \<Rightarrow> 'c CertReloader" where
  "cr_event lib (Tick seen fs) r = watch_tick lib seen fs r"
| "cr_event lib (Hangup fs) r = snd (Reload lib fs r)"

definition loaded_from :: "('c, 'p) tlslib \<Rightarrow> CertPair \<Rightarrow> 'c \<Rightarrow> bool" where
  "loaded_from lib p c \<longleftrightarrow> (\<exists>fs1 fs2. LoadX509KeyPair lib fs1 fs2 p = Some c)"

definition cr_inv :: "('c, 'p) tlslib \<Rightarrow> CertPair list \<Rightarrow> 'c CertReloader \<Rightarrow> bool" where
  "cr_inv lib pairs r \<longleftrightarrow> cr_pairs r = pairs \<and> list_all2 (loaded_from lib) pairs (cr_certs r)"

lemma loadLoop_from:
  "loadLoop lib fs i ps loaded m = Inr (certs, m') \<Longrightarrow>
     \<exists>new. certs = loaded @ new \<and> list_all2 (loaded_from lib) ps new"
proof (induction ps arbitrary: i loaded m)
  case (Cons p ps)
  then obtain c where c: "LoadX509KeyPair lib (fs i) (fs (i + 1)) p = Some c" by (auto split: option.splits)
  then have l: "loaded_from lib p c" unfolding loaded_from_def by blast
  obtain new where "certs = (loaded @ [c]) @ new" "list_all2 (loaded_from lib) ps new"
    using Cons.IH Cons.prems c by (metis (no_types, lifting) loadLoop.simps(2) option.simps(5))
  then show ?case using l by (intro exI [of _ "c # new"]) simp
qed simp

lemma load_inv:
  assumes "cr_pairs r = pairs" "cr_load lib fs r = (e, r')"
  shows "if e = None then cr_inv lib pairs r' else r' = r"
  using assms loadLoop_from [of lib fs 0 pairs "[]" "[]"]
  by (fastforce simp: cr_load_def cr_inv_def split: sum.splits)

lemma event_inv: "cr_inv lib pairs r \<Longrightarrow> cr_inv lib pairs (cr_event lib e r)"
proof -
  assume r: "cr_inv lib pairs r"
  then have "cr_pairs r = pairs" by (simp add: cr_inv_def)
  then have "cr_inv lib pairs (snd (cr_load lib fs r))" for fs
    using load_inv [of r pairs lib fs] r by (metis (no_types, lifting) prod.collapse)
  then show ?thesis using r by (cases e) (simp_all add: watch_tick_def Reload_def)
qed

lemma events_inv: "cr_inv lib pairs r \<Longrightarrow> cr_inv lib pairs (fold (cr_event lib) es r)"
  by (induction es arbitrary: r) (simp_all add: event_inv)

lemma new_inv: "NewCertReloader lib fs pairs = Inr r \<Longrightarrow> pairs \<noteq> [] \<and> cr_inv lib pairs r"
  using load_inv [of "\<lparr>cr_pairs = pairs, cr_certs = [], cr_mtimes = []\<rparr>" pairs lib fs]
  by (auto simp: NewCertReloader_def split: if_splits prod.splits option.splits)

text \<open>
  C16. Once a reloader exists, every handshake gets a certificate, after any sequence of polls and
  hangup signals and whatever the files hold in each of them: a reload replaces the whole set or
  nothing, so there is always one certificate per configured pair, loaded from that pair, and the one
  served is the first that matches the server name, or the first of all when none does.
\<close>

theorem certificate_served:
  assumes "NewCertReloader lib fs0 pairs = Inr r0" "r = fold (cr_event lib) es r0"
  shows "\<exists>k < length pairs. length (cr_certs r) = length pairs \<and> GetCertificate lib hello r = Inr (cr_certs r ! k) \<and>
    loaded_from lib (pairs ! k) (cr_certs r ! k) \<and>
    (case hello of
       Some name \<Rightarrow> name \<noteq> [] \<and> certMatchesName lib (cr_certs r ! k) name \<and>
           (\<forall>j < k. \<not> certMatchesName lib (cr_certs r ! j) name) \<or>
         k = 0 \<and> (name = [] \<or> (\<forall>c \<in> set (cr_certs r). \<not> certMatchesName lib c name))
     | None \<Rightarrow> k = 0)"
proof -
  have ne: "pairs \<noteq> []" and "cr_inv lib pairs r"
    using new_inv [OF assms(1)] events_inv [of lib pairs r0 es] assms(2) by auto
  then have l: "length (cr_certs r) = length pairs" "\<And>k. k < length pairs \<Longrightarrow> loaded_from lib (pairs ! k) (cr_certs r ! k)"
    by (auto simp: cr_inv_def list_all2_conv_all_nth)
  have cs: "cr_certs r \<noteq> []" using l(1) ne by auto
  show ?thesis
  proof (cases "\<exists>name c. hello = Some name \<and> name \<noteq> [] \<and> find (\<lambda>c. certMatchesName lib c name) (cr_certs r) = Some c")
    case True
    then obtain name c where h: "hello = Some name" "name \<noteq> []" "find (\<lambda>c. certMatchesName lib c name) (cr_certs r) = Some c"
      by blast
    then obtain k where "k < length pairs" "certMatchesName lib (cr_certs r ! k) name" "c = cr_certs r ! k"
      "\<forall>j < k. \<not> certMatchesName lib (cr_certs r ! j) name"
      by (auto simp: find_Some_iff l(1))
    then show ?thesis using l h cs by (intro exI [of _ k]) (simp add: GetCertificate_def)
  next
    case False
    then show ?thesis
      using l cs ne by (intro exI [of _ 0]) (auto simp: GetCertificate_def Let_def find_None_iff find_Some_iff split: option.splits)
  qed
qed

definition demo_tls :: "(string, unit) tlslib" where
  "demo_tls = \<lparr>tl_X509KeyPair = \<lambda>c k. if c = k then Some c else None,
     tl_leaf = \<lambda>c. Some \<lparr>lf_DNSNames = [c], lf_CommonName = []\<rparr>,
     tl_VerifyHostname = \<lambda>lf name. name \<in> set (lf_DNSNames lf), tl_AppendCertsFromPEM = \<lambda>_. Some ()\<rparr>"

definition demo_pair :: CertPair where
  "demo_pair = \<lparr>cp_CertFile = ''c'', cp_KeyFile = ''k''\<rparr>"

definition demo_fs :: "gotime \<Rightarrow> string \<Rightarrow> string \<Rightarrow> fs" where
  "demo_fs t cert key path = (if path = ''c'' then Some (t, cert) else if path = ''k'' then Some (t, key) else None)"

lemma demo_load: "LoadX509KeyPair demo_tls (demo_fs t c k) (demo_fs t' c' k') demo_pair = (if c = k' then Some c else None)"
  by (simp add: LoadX509KeyPair_def ReadFile_def demo_fs_def demo_pair_def demo_tls_def)

lemma demo_new: "\<exists>r. NewCertReloader demo_tls (\<lambda>_. demo_fs 1 ''a'' ''a'') [demo_pair] = Inr r"
  by (simp add: NewCertReloader_def cr_load_def demo_load)

theorem certificate_served_witness:
  "\<exists>r0 c. NewCertReloader demo_tls (\<lambda>_. demo_fs 1 ''a'' ''a'') [demo_pair] = Inr r0 \<and>
     GetCertificate demo_tls (Some ''b'')
       (fold (cr_event demo_tls) [Hangup (\<lambda>_. demo_fs 2 ''a'' ''b''), Tick (demo_fs 3 ''b'' ''b'') (\<lambda>_. \<lambda>_. None)] r0) = Inr c"
  using demo_new certificate_served by (metis (no_types, lifting))

section \<open>Rotated files are picked up\<close>

definition watched :: "CertPair list \<Rightarrow> string set" where
  "watched pairs = set (map cp_CertFile pairs) \<union> set (map cp_KeyFile pairs)"

text \<open>A load during which no file changes.\<close>

lemma quiet_load:
  assumes "loadLoop lib (\<lambda>_. fs) i ps loaded m = Inr (certs, m')"
  shows "certs = loaded @ map (\<lambda>p. the (LoadX509KeyPair lib fs fs p)) ps \<and>
    (list_all (\<lambda>p. LoadX509KeyPair lib fs fs p \<noteq> None) ps) \<and>
    map_of m' = (\<lambda>path. if path \<in> watched ps then Some (fileMtime fs path) else map_of m path)"
  using assms
proof (induction ps arbitrary: i loaded m)
  case (Cons p ps)
  then obtain c where c: "LoadX509KeyPair lib fs fs p = Some c" by (auto split: option.splits)
  show ?case using Cons.IH [of "i + 4" "loaded @ [c]"] Cons.prems c
    by (auto simp: watched_def fun_eq_iff update_conv)
qed (simp add: watched_def)

lemma quiet_loads:
  "list_all (\<lambda>p. LoadX509KeyPair lib fs fs p \<noteq> None) ps \<Longrightarrow> \<exists>certs m'. loadLoop lib (\<lambda>_. fs) i ps loaded m = Inr (certs, m')"
  by (induction ps arbitrary: i loaded m) auto

definition in_step :: "('c, 'p) tlslib \<Rightarrow> CertPair list \<Rightarrow> fs \<Rightarrow> 'c CertReloader \<Rightarrow> bool" where
  "in_step lib pairs fs r \<longleftrightarrow> cr_pairs r = pairs \<and> loadLoop lib (\<lambda>_. fs) 0 pairs [] [] = Inr (cr_certs r, cr_mtimes r)"

lemma load_in_step:
  assumes "cr_pairs r = pairs" "cr_load lib (\<lambda>_. fs) r = (e, r')"
  shows "if e = None then in_step lib pairs fs r' else r' = r"
  using assms by (auto simp: cr_load_def in_step_def split: sum.splits prod.splits)

text \<open>Two file systems in which equal modification times mean equal files, for the watched paths.\<close>

definition stamped :: "CertPair list \<Rightarrow> fs set \<Rightarrow> bool" where
  "stamped pairs seen \<longleftrightarrow> (\<forall>a \<in> seen. \<forall>b \<in> seen. \<forall>path \<in> watched pairs. fileMtime a path = fileMtime b path \<longrightarrow> a path = b path)"

lemma unchanged_same:
  assumes "in_step lib pairs fs0 r" "\<not> changedOnDisk fs r" "path \<in> watched pairs"
  shows "fileMtime fs path = fileMtime fs0 path"
proof -
  have "map_of (cr_mtimes r) path = Some (fileMtime fs0 path)"
    using quiet_load [of lib fs0 0 pairs "[]" "[]"] assms(1,3) by (auto simp: in_step_def)
  then have "(path, fileMtime fs0 path) \<in> set (cr_mtimes r)" by (rule map_of_SomeD)
  then show ?thesis using assms(2) by (auto simp: changedOnDisk_def list_ex_iff)
qed

lemma ticks_in_step:
  assumes "in_step lib pairs fs0 r"
  shows "\<exists>fs \<in> insert fs0 (set past). in_step lib pairs fs (fold (\<lambda>fs. watch_tick lib fs (\<lambda>_. fs)) past r)"
  using assms
proof (induction past arbitrary: fs0 r)
  case (Cons fs past)
  have p: "cr_pairs r = pairs" using Cons.prems by (simp add: in_step_def)
  obtain e r' where l: "cr_load lib (\<lambda>_. fs) r = (e, r')" by fastforce
  have "in_step lib pairs fs (watch_tick lib fs (\<lambda>_. fs) r) \<or> watch_tick lib fs (\<lambda>_. fs) r = r"
    using load_in_step [OF p l] l by (auto simp: watch_tick_def Reload_def split: if_splits)
  then show ?case using Cons.IH Cons.prems by fastforce
qed simp

text \<open>
  C15. A rotated certificate is picked up by the next poll: from a start on readable files, after any
  number of polls that each saw some state of the disk, a poll at a moment when every pair can be
  loaded leaves exactly the certificates on disk in service, provided that modification times tell
  the states of a file apart and no file changes while a load is running. Polls in between that found
  broken or half-written files do not prevent it.
\<close>

theorem rotation_served:
  assumes "NewCertReloader lib (\<lambda>_. fs0) pairs = Inr r0"
    and "stamped pairs (insert now (insert fs0 (set past)))"
    and "list_all (\<lambda>p. LoadX509KeyPair lib now now p \<noteq> None) pairs"
  shows "cr_certs (watch_tick lib now (\<lambda>_. now) (fold (\<lambda>fs. watch_tick lib fs (\<lambda>_. fs)) past r0)) =
    map (\<lambda>p. the (LoadX509KeyPair lib now now p)) pairs"
proof -
  let ?r = "fold (\<lambda>fs. watch_tick lib fs (\<lambda>_. fs)) past r0"
  have "in_step lib pairs fs0 r0"
    using assms(1) load_in_step [of "\<lparr>cr_pairs = pairs, cr_certs = [], cr_mtimes = []\<rparr>" pairs lib fs0]
    by (auto simp: NewCertReloader_def split: if_splits prod.splits option.splits)
  then obtain fs where fs: "fs \<in> insert fs0 (set past)" "in_step lib pairs fs ?r" using ticks_in_step by blast
  show ?thesis
  proof (cases "changedOnDisk now ?r")
    case True
    have p: "cr_pairs ?r = pairs" using fs(2) by (simp add: in_step_def)
    obtain certs m' where "loadLoop lib (\<lambda>_. now) 0 pairs [] [] = Inr (certs, m')" using quiet_loads [OF assms(3)] by blast
    then show ?thesis using quiet_load [of lib now 0 pairs "[]" "[]"] True p
      by (simp add: watch_tick_def Reload_def cr_load_def)
  next
    case False
    have same: "now path = fs path" if "path \<in> watched pairs" for path
      using unchanged_same [OF fs(2) False that] assms(2) fs(1) that by (auto simp: stamped_def)
    have "LoadX509KeyPair lib now now p = LoadX509KeyPair lib fs fs p" if "p \<in> set pairs" for p
      using same that by (simp add: LoadX509KeyPair_def ReadFile_def watched_def)
    then show ?thesis using False quiet_load [of lib fs 0 pairs "[]" "[]"] fs(2)
      by (simp add: watch_tick_def in_step_def)
  qed
qed

theorem rotation_served_witness:
  "\<exists>r0. NewCertReloader demo_tls (\<lambda>_. demo_fs 1 ''a'' ''a'') [demo_pair] = Inr r0 \<and>
     cr_certs (watch_tick demo_tls (demo_fs 3 ''b'' ''b'') (\<lambda>_. demo_fs 3 ''b'' ''b'')
       (fold (\<lambda>fs. watch_tick demo_tls fs (\<lambda>_. fs)) [demo_fs 2 ''b'' ''a''] r0)) = [''b'']"
proof -
  obtain r0 where r0: "NewCertReloader demo_tls (\<lambda>_. demo_fs 1 ''a'' ''a'') [demo_pair] = Inr r0" using demo_new by blast
  have st: "stamped [demo_pair] (insert (demo_fs 3 ''b'' ''b'') (insert (demo_fs 1 ''a'' ''a'') (set [demo_fs 2 ''b'' ''a''])))"
    by (auto simp: stamped_def watched_def fileMtime_def demo_fs_def demo_pair_def split: if_splits)
  have ld: "list_all (\<lambda>p. LoadX509KeyPair demo_tls (demo_fs 3 ''b'' ''b'') (demo_fs 3 ''b'' ''b'') p \<noteq> None) [demo_pair]"
    by (simp add: demo_load)
  show ?thesis using rotation_served [OF r0 st ld] r0 by (simp add: demo_load)
qed

text \<open>
  The modification times are read after the contents: a file replaced in between is recorded as seen,
  and the poll does not reload it.
\<close>

theorem rotation_lost:
  assumes "cr_pairs r = [p]" "cr_load lib (\<lambda>i. if i < 2 then old else new) r = (None, r')"
  shows "LoadX509KeyPair lib old old p = Some (cr_certs r' ! 0) \<and> watch_tick lib new fs r' = r'"
  using assms by (auto simp: cr_load_def watch_tick_def changedOnDisk_def numeral_eq_Suc
      split: sum.splits option.splits if_splits)

end
