(* ===== verification/Config.thy ===== *)
theory Config
  imports Certs Float64
begin

text \<open>
  Validation of the configuration at startup (\<open>internal/config/validate.go\<close>). Each check is the list of
  problems it adds, in order; a problem keeps the flag it names, the offending value and the reason, and
  the wording of the message is left out. A validator returns \<open>None\<close>, or every problem found.

  The world is an argument: what \<open>os.Stat\<close> says of a path, the files, the certificate library and the
  names of services that \<open>net.LookupPort\<close> knows. A float is a finite number, an infinity or not a number.
\<close>

datatype gofloat = Fin rat | PosInf | NegInf | NaN

fun float_less_0 :: "gofloat \<Rightarrow> bool" where
  "float_less_0 (Fin x) = (x < 0)"
| "float_less_0 f = (f = NegInf)"

fun float_greater_1 :: "gofloat \<Rightarrow> bool" where
  "float_greater_1 (Fin x) = (x > 1)"
| "float_greater_1 f = (f = PosInf)"

datatype reason =
    Empty
  | NotHostPort
  | MissingPort
  | MissingHost
  | InvalidPort
  | PortZero
  | NotPositive
  | Negative
  | NotOneOf "string list"
  | Inaccessible
  | IsDirectory
  | OutOfRange
  | NotTogether
  | NoEffect
  | Required
  | FailsToLoad certError
  | Malformed certError
  | NeedsServerCert

record problem =
  pr_flag :: string
  pr_value :: string
  pr_reason :: reason

abbreviation problem_of :: "string \<Rightarrow> string \<Rightarrow> reason \<Rightarrow> problem" where
  "problem_of flag val why \<equiv> \<lparr>pr_flag = flag, pr_value = val, pr_reason = why\<rparr>"

definition problems_err :: "problem list \<Rightarrow> problem list option" where
  "problems_err errs = (if errs = [] then None else Some errs)"

record ('c, 'p) world =
  wd_isDir :: "string \<Rightarrow> bool option"
  wd_fs :: fs
  wd_lib :: "('c, 'p) tlslib"
  wd_services :: "string \<Rightarrow> nat option"

section \<open>Ports\<close>

definition parsePort :: "string \<Rightarrow> int option" where
  "parsePort s =
     (let (neg, ds) = (case s of [] \<Rightarrow> (False, []) | c # cs \<Rightarrow>
            if c = CHR ''-'' then (True, cs) else if c = CHR ''+'' then (False, cs) else (False, s))
      in if list_all is_digit ds
         then Some (if neg then - int (digits_value ds) else int (digits_value ds)) else None)"

definition LookupPort :: "(string \<Rightarrow> nat option) \<Rightarrow> string \<Rightarrow> int option" where
  "LookupPort services s =
     (case parsePort s of
        None \<Rightarrow> map_option int (services s)
      | Some n \<Rightarrow> if 0 \<le> n \<and> n \<le> 65535 then Some n else None)"

section \<open>The checks\<close>

definition checkListenAddr :: "('c, 'p) world \<Rightarrow> string \<Rightarrow> string \<Rightarrow> bool \<Rightarrow> problem list" where
  "checkListenAddr wd name addr allowEmpty =
     (if addr = [] then (if \<not> allowEmpty then [problem_of name addr Empty] else [])
      else case SplitHostPort addr of
             None \<Rightarrow> [problem_of name addr NotHostPort]
           | Some (host, port) \<Rightarrow>
               if port = [] then [problem_of name addr MissingPort]
               else case LookupPort (wd_services wd) port of
                      None \<Rightarrow> [problem_of name addr InvalidPort]
                    | Some pnum \<Rightarrow> if pnum = 0 then [problem_of name addr PortZero] else [])"

definition checkDialAddr :: "('c, 'p) world \<Rightarrow> string \<Rightarrow> string \<Rightarrow> problem list" where
  "checkDialAddr wd name addr =
     (if addr = [] then [problem_of name addr Empty]
      else case SplitHostPort addr of
             None \<Rightarrow> [problem_of name addr NotHostPort]
           | Some (host, port) \<Rightarrow>
               (if host = [] then [problem_of name addr MissingHost] else []) @
               (if port = [] then [problem_of name addr MissingPort]
                else if LookupPort (wd_services wd) port = None then [problem_of name addr InvalidPort] else []))"

definition checkPositive :: "string \<Rightarrow> duration \<Rightarrow> problem list" where
  "checkPositive name d = (if d \<le> 0 then [problem_of name (FormatInt d) NotPositive] else [])"

definition checkNonNegative :: "string \<Rightarrow> duration \<Rightarrow> problem list" where
  "checkNonNegative name d = (if d < 0 then [problem_of name (FormatInt d) Negative] else [])"

definition checkNonNegativeInt :: "string \<Rightarrow> int \<Rightarrow> problem list" where
  "checkNonNegativeInt name v = (if v < 0 then [problem_of name (FormatInt v) Negative] else [])"

definition checkPositiveInt :: "string \<Rightarrow> int \<Rightarrow> problem list" where
  "checkPositiveInt name v = (if v \<le> 0 then [problem_of name (FormatInt v) NotPositive] else [])"

definition checkOneOf :: "string \<Rightarrow> string \<Rightarrow> string list \<Rightarrow> problem list" where
  "checkOneOf name val allowed =
     (if list_ex (\<lambda>a. val = a) allowed then [] else [problem_of name val (NotOneOf allowed)])"

definition checkFileExists :: "('c, 'p) world \<Rightarrow> string \<Rightarrow> string \<Rightarrow> problem list" where
  "checkFileExists wd name path =
     (if path = [] then []
      else case wd_isDir wd path of
             None \<Rightarrow> [problem_of name path Inaccessible]
           | Some dir \<Rightarrow> if dir then [problem_of name path IsDirectory] else [])"

text \<open>A problem that is added when a condition holds.\<close>

definition addIf :: "bool \<Rightarrow> string \<Rightarrow> string \<Rightarrow> reason \<Rightarrow> problem list" where
  "addIf b flag val why = (if b then [problem_of flag val why] else [])"

section \<open>The data plane\<close>

record DataPlaneConfig =
  dc_Protocol :: string
  dc_ListenAddr :: string
  dc_ControlPlaneAddr :: string
  dc_Group :: string
  dc_MetricsAddr :: string
  dc_MetricsEnabled :: bool
  dc_MetricsDisable :: bool
  dc_OpsAddr :: string
  dc_HealthCheckMode :: string
  dc_HealthCheckScheme :: string
  dc_HealthCheckInterval :: duration
  dc_HealthCheckTimeout :: duration
  dc_HealthCheckExpectStatus :: int
  dc_UnhealthyThreshold :: int
  dc_HealthyThreshold :: int
  dc_BackendProtocol :: string
  dc_AccessLog :: bool
  dc_AccessLogFormat :: string
  dc_TracingEnabled :: bool
  dc_TracingProtocol :: string
  dc_TracingSampleRatio :: gofloat
  dc_ProxyConnectTimeout :: duration
  dc_ProxyResponseTimeout :: duration
  dc_ProxyMaxRetries :: int
  dc_ProxyRetryBackoff :: duration
  dc_TCPDialTimeout :: duration
  dc_ShutdownGrace :: duration
  dc_MaxConns :: int
  dc_MaxHeaderBytes :: int
  dc_MaxBodyBytes :: int
  dc_ReadHeaderTimeout :: duration
  dc_OutlierDetection :: bool
  dc_OutlierConsecutiveError :: int
  dc_OutlierEjectDuration :: duration
  dc_OutlierMaxEjectDuration :: duration
  dc_OutlierMaxEjectPercent :: int
  dc_CPTLSEnable :: bool
  dc_CPTLSCACert :: string
  dc_CPTLSClientCert :: string
  dc_CPTLSClientKey :: string
  dc_HTTPTLSCert :: string
  dc_HTTPTLSKey :: string
  dc_HTTPTLSCerts :: string
  dc_HTTPTLSClientCA :: string
  dc_HTTPTLSReloadInterval :: duration
  dc_LogLevel :: string
  dc_LogFormat :: string

definition httpPairs :: "string \<Rightarrow> string \<Rightarrow> CertPair list \<Rightarrow> CertPair list" where
  "httpPairs cert key pairs =
     (if cert \<noteq> [] \<and> key \<noteq> [] then [\<lparr>cp_CertFile = cert, cp_KeyFile = key\<rparr>] else []) @ pairs"

definition checkHTTPCerts :: "('c, 'p) world \<Rightarrow> 'x DataPlaneConfig_scheme \<Rightarrow> problem list" where
  "checkHTTPCerts wd c =
     (case ParseCertPairs (dc_HTTPTLSCerts c) of
        Inl e \<Rightarrow> [problem_of ''-http-tls-certs'' (dc_HTTPTLSCerts c) (Malformed e)]
      | Inr pairs \<Rightarrow>
          (let all = httpPairs (dc_HTTPTLSCert c) (dc_HTTPTLSKey c) pairs
           in if length all > 0 then
                (case NewCertReloader (wd_lib wd) (\<lambda>_. wd_fs wd) all of
                   Inl e \<Rightarrow> [problem_of ''-http-tls-certs'' (dc_HTTPTLSCerts c) (FailsToLoad e)] | Inr _ \<Rightarrow> []) @
                addIf (dc_HTTPTLSClientCA c \<noteq> [] \<and> length all = 0) ''-http-tls-client-ca'' (dc_HTTPTLSClientCA c) NeedsServerCert
              else addIf (dc_HTTPTLSClientCA c \<noteq> []) ''-http-tls-client-ca'' (dc_HTTPTLSClientCA c) NeedsServerCert))"

definition checkClientTLS :: "('c, 'p) world \<Rightarrow> 'x DataPlaneConfig_scheme \<Rightarrow> problem list" where
  "checkClientTLS wd c =
     addIf ((dc_CPTLSClientCert c = []) \<noteq> (dc_CPTLSClientKey c = [])) ''-control-plane-tls-client-cert'' [] NotTogether @
     addIf (\<not> dc_CPTLSEnable c \<and> (dc_CPTLSCACert c \<noteq> [] \<or> dc_CPTLSClientCert c \<noteq> [] \<or> dc_CPTLSClientKey c \<noteq> []))
       ''-control-plane-tls-ca'' [] NoEffect @
     checkFileExists wd ''-control-plane-tls-ca'' (dc_CPTLSCACert c) @
     checkFileExists wd ''-control-plane-tls-client-cert'' (dc_CPTLSClientCert c) @
     checkFileExists wd ''-control-plane-tls-client-key'' (dc_CPTLSClientKey c) @
     (if dc_CPTLSEnable c \<and> dc_CPTLSClientCert c \<noteq> [] \<and> dc_CPTLSClientKey c \<noteq> [] then
        (case LoadClientConfig (wd_lib wd) (wd_fs wd) (dc_CPTLSClientCert c) (dc_CPTLSClientKey c) (dc_CPTLSCACert c) of
           Inl e \<Rightarrow> [problem_of ''control-plane client TLS'' [] (FailsToLoad e)] | Inr _ \<Rightarrow> [])
      else [])"

definition checkOutlier :: "'x DataPlaneConfig_scheme \<Rightarrow> problem list" where
  "checkOutlier c =
     (if dc_OutlierDetection c then
        checkPositiveInt ''-outlier-consecutive-errors'' (dc_OutlierConsecutiveError c) @
        checkPositive ''-outlier-eject-duration'' (dc_OutlierEjectDuration c) @
        checkPositive ''-outlier-max-eject-duration'' (dc_OutlierMaxEjectDuration c) @
        addIf (dc_OutlierMaxEjectDuration c > 0 \<and> dc_OutlierEjectDuration c > 0 \<and>
            dc_OutlierMaxEjectDuration c < dc_OutlierEjectDuration c)
          ''-outlier-max-eject-duration'' (FormatInt (dc_OutlierMaxEjectDuration c)) OutOfRange @
        addIf (dc_OutlierMaxEjectPercent c < 0 \<or> dc_OutlierMaxEjectPercent c > 100)
          ''-outlier-max-eject-percent'' (FormatInt (dc_OutlierMaxEjectPercent c)) OutOfRange
      else [])"

definition ValidateDataPlane :: "('c, 'p) world \<Rightarrow> 'x DataPlaneConfig_scheme \<Rightarrow> problem list option" where
  "ValidateDataPlane wd c = problems_err (
     checkOneOf ''-protocol'' (dc_Protocol c) [''http'', ''tcp''] @
     checkOneOf ''-health-check-mode'' (dc_HealthCheckMode c) [''tcp'', ''http''] @
     checkOneOf ''-health-check-scheme'' (dc_HealthCheckScheme c) [''http'', ''https''] @
     checkOneOf ''-backend-protocol'' (dc_BackendProtocol c) [''http1'', ''h2c''] @
     checkOneOf ''-access-log-format'' (dc_AccessLogFormat c) [''json'', ''text''] @
     (if dc_TracingEnabled c then
        checkOneOf ''-tracing-protocol'' (dc_TracingProtocol c) [''grpc'', ''http''] @
        addIf (float_less_0 (dc_TracingSampleRatio c) \<or> float_greater_1 (dc_TracingSampleRatio c))
          ''-tracing-sample-ratio'' [] OutOfRange
      else []) @
     checkOneOf ''-log-level'' (dc_LogLevel c) [''debug'', ''info'', ''warn'', ''error''] @
     checkOneOf ''-log-format'' (dc_LogFormat c) [''json'', ''text''] @
     addIf (TrimSpace (dc_Group c) = []) ''-group'' (dc_Group c) Empty @
     checkListenAddr wd ''-listen-addr'' (dc_ListenAddr c) False @
     checkDialAddr wd ''-control-plane-addr'' (dc_ControlPlaneAddr c) @
     checkListenAddr wd ''-metrics-addr'' (dc_MetricsAddr c) False @
     checkListenAddr wd ''-ops-addr'' (dc_OpsAddr c) True @
     checkPositive ''-health-check-interval'' (dc_HealthCheckInterval c) @
     checkPositive ''-health-check-timeout'' (dc_HealthCheckTimeout c) @
     checkPositiveInt ''-unhealthy-threshold'' (dc_UnhealthyThreshold c) @
     checkPositiveInt ''-healthy-threshold'' (dc_HealthyThreshold c) @
     addIf (dc_HealthCheckExpectStatus c \<noteq> 0 \<and> (dc_HealthCheckExpectStatus c < 100 \<or> dc_HealthCheckExpectStatus c > 599))
       ''-health-check-expect-status'' (FormatInt (dc_HealthCheckExpectStatus c)) OutOfRange @
     checkPositive ''-proxy-connect-timeout'' (dc_ProxyConnectTimeout c) @
     checkNonNegative ''-proxy-response-timeout'' (dc_ProxyResponseTimeout c) @
     checkNonNegativeInt ''-proxy-max-retries'' (dc_ProxyMaxRetries c) @
     checkNonNegative ''-proxy-retry-backoff'' (dc_ProxyRetryBackoff c) @
     checkPositive ''-tcp-dial-timeout'' (dc_TCPDialTimeout c) @
     checkNonNegative ''-shutdown-grace'' (dc_ShutdownGrace c) @
     checkNonNegativeInt ''-max-conns'' (dc_MaxConns c) @
     checkPositiveInt ''-max-header-bytes'' (dc_MaxHeaderBytes c) @
     addIf (dc_MaxBodyBytes c < 0) ''-max-body-bytes'' (FormatInt (dc_MaxBodyBytes c)) Negative @
     checkPositive ''-read-header-timeout'' (dc_ReadHeaderTimeout c) @
     checkOutlier c @
     checkNonNegative ''-http-tls-reload-interval'' (dc_HTTPTLSReloadInterval c) @
     checkClientTLS wd c @
     addIf ((dc_HTTPTLSCert c = []) \<noteq> (dc_HTTPTLSKey c = [])) ''-http-tls-cert'' [] NotTogether @
     checkFileExists wd ''-http-tls-cert'' (dc_HTTPTLSCert c) @
     checkFileExists wd ''-http-tls-key'' (dc_HTTPTLSKey c) @
     checkFileExists wd ''-http-tls-client-ca'' (dc_HTTPTLSClientCA c) @
     checkHTTPCerts wd c)"

section \<open>The control plane\<close>

record ControlPlaneConfig =
  kc_GRPCAddr :: string
  kc_AdminAddr :: string
  kc_AdminDisable :: bool
  kc_ReconcileInterval :: duration
  kc_TLSCert :: string
  kc_TLSKey :: string
  kc_TLSClientCA :: string
  kc_Provider :: string
  kc_FakeBasePort :: int
  kc_ScalingInterval :: duration
  kc_SimulateScaling :: bool
  kc_AzureSubscriptionID :: string
  kc_AzureResourceGroup :: string
  kc_AzureVMSSGroups :: string
  kc_K8sGroups :: string
  kc_K8sKubeconfig :: string
  kc_FileProviderPath :: string
  kc_StoreBackend :: string
  kc_StoreDSN :: string
  kc_AdminTLSCert :: string
  kc_AdminTLSKey :: string
  kc_LogLevel :: string
  kc_LogFormat :: string

definition checkProvider :: "'x ControlPlaneConfig_scheme \<Rightarrow> problem list" where
  "checkProvider c =
     (if kc_Provider c = ''fake'' then
        addIf (kc_FakeBasePort c < 1 \<or> kc_FakeBasePort c > 65535) ''-fake-base-port'' (FormatInt (kc_FakeBasePort c)) OutOfRange @
        (if kc_SimulateScaling c then checkPositive ''-scaling-interval'' (kc_ScalingInterval c) else [])
      else if kc_Provider c = ''azure-vmss'' then
        addIf (TrimSpace (kc_AzureSubscriptionID c) = []) ''-azure-subscription-id'' [] Required @
        addIf (TrimSpace (kc_AzureResourceGroup c) = []) ''-azure-resource-group'' [] Required @
        addIf (TrimSpace (kc_AzureVMSSGroups c) = []) ''-azure-vmss-groups'' [] Required
      else if kc_Provider c = ''kubernetes'' then
        addIf (TrimSpace (kc_K8sGroups c) = []) ''-k8s-groups'' [] Required
      else if kc_Provider c = ''file'' then
        addIf (TrimSpace (kc_FileProviderPath c) = []) ''-file-provider-path'' [] Required
      else [])"

definition ValidateControlPlane :: "('c, 'p) world \<Rightarrow> 'x ControlPlaneConfig_scheme \<Rightarrow> problem list option" where
  "ValidateControlPlane wd c = problems_err (
     checkOneOf ''-provider'' (kc_Provider c) [''fake'', ''file'', ''azure-vmss'', ''kubernetes''] @
     (if kc_StoreBackend c \<noteq> [] then checkOneOf ''-store-backend'' (kc_StoreBackend c) [''file'', ''postgres''] else []) @
     addIf (kc_StoreBackend c = ''postgres'' \<and> TrimSpace (kc_StoreDSN c) = []) ''-store-dsn'' [] Required @
     checkOneOf ''-log-level'' (kc_LogLevel c) [''debug'', ''info'', ''warn'', ''error''] @
     checkOneOf ''-log-format'' (kc_LogFormat c) [''json'', ''text''] @
     checkListenAddr wd ''-grpc-addr'' (kc_GRPCAddr c) False @
     (if \<not> kc_AdminDisable c then checkListenAddr wd ''-admin-addr'' (kc_AdminAddr c) False else []) @
     checkPositive ''-reconcile-interval'' (kc_ReconcileInterval c) @
     addIf ((kc_TLSCert c = []) \<noteq> (kc_TLSKey c = [])) ''-tls-cert'' [] NotTogether @
     addIf (kc_TLSClientCA c \<noteq> [] \<and> kc_TLSCert c = []) ''-tls-client-ca'' [] NeedsServerCert @
     checkFileExists wd ''-tls-cert'' (kc_TLSCert c) @
     checkFileExists wd ''-tls-key'' (kc_TLSKey c) @
     checkFileExists wd ''-tls-client-ca'' (kc_TLSClientCA c) @
     (if kc_TLSCert c \<noteq> [] \<and> kc_TLSKey c \<noteq> [] then
        (case LoadServerConfig (wd_lib wd) (wd_fs wd) (kc_TLSCert c) (kc_TLSKey c) (kc_TLSClientCA c) of
           Inl e \<Rightarrow> [problem_of ''gRPC server TLS'' [] (FailsToLoad e)] | Inr _ \<Rightarrow> [])
      else []) @
     addIf ((kc_AdminTLSCert c = []) \<noteq> (kc_AdminTLSKey c = [])) ''-admin-tls-cert'' [] NotTogether @
     checkFileExists wd ''-admin-tls-cert'' (kc_AdminTLSCert c) @
     checkFileExists wd ''-admin-tls-key'' (kc_AdminTLSKey c) @
     checkProvider c)"

section \<open>What a check without problems says\<close>

lemma check_iffs:
  "checkOneOf n v allowed = [] \<longleftrightarrow> v \<in> set allowed"
  "checkPositive n d = [] \<longleftrightarrow> 0 < d" "checkNonNegative n d = [] \<longleftrightarrow> 0 \<le> d"
  "checkPositiveInt n k = [] \<longleftrightarrow> 0 < k" "checkNonNegativeInt n k = [] \<longleftrightarrow> 0 \<le> k"
  "addIf b n v why = [] \<longleftrightarrow> \<not> b"
  by (auto simp: checkOneOf_def checkPositive_def checkNonNegative_def checkPositiveInt_def checkNonNegativeInt_def
      addIf_def list_ex_iff)

end
