(* ===== verification/GrpcAuth.thy ===== *)
theory GrpcAuth
  imports Prelude
begin

text \<open>
  The bearer token of the control API (\<open>internal/grpcauth/grpcauth.go\<close>) and how the data planes attach it
  (\<open>internal/dataplane/grpcdial.go\<close>).

  The context of a call is its incoming metadata, if there is any: lower-case keys with their values. A
  handler is a function of the metadata, the request and the server's state. gRPC itself is third-party:
  how the metadata a client attaches arrives at the server is the argument \<open>deliver\<close>.
\<close>

type_synonym metadata = "string \<Rightarrow> string list"

definition metadataKey :: string where
  "metadataKey = ''authorization''"

definition bearerPrefix :: string where
  "bearerPrefix = ''Bearer ''"

datatype authError = MissingToken | InvalidToken

section \<open>The client\<close>

record TokenCredentials =
  tc_token :: string

definition NewTokenCredentials :: "string \<Rightarrow> TokenCredentials" where
  "NewTokenCredentials token = \<lparr>tc_token = token\<rparr>"

definition GetRequestMetadata :: "TokenCredentials \<Rightarrow> (string \<times> string) list" where
  "GetRequestMetadata c = [(metadataKey, bearerPrefix @ tc_token c)]"

definition RequireTransportSecurity :: "TokenCredentials \<Rightarrow> bool" where
  "RequireTransportSecurity c = False"

datatype 't transportCreds = TLSCreds 't | Insecure

record 't dialOption =
  do_transport :: "'t transportCreds"
  do_perRPC :: "TokenCredentials option"

definition dialOptions :: "'t option \<Rightarrow> string \<Rightarrow> 't dialOption" where
  "dialOptions tlsConfig authToken =
     \<lparr>do_transport = (case tlsConfig of Some cfg \<Rightarrow> TLSCreds cfg | None \<Rightarrow> Insecure),
      do_perRPC = (if authToken \<noteq> [] then Some (NewTokenCredentials authToken) else None)\<rparr>"

section \<open>The server\<close>

definition tokenFromContext :: "metadata option \<Rightarrow> string" where
  "tokenFromContext ctx =
     (case ctx of
        None \<Rightarrow> []
      | Some md \<Rightarrow>
          (case md metadataKey of
             [] \<Rightarrow> []
           | v # _ \<Rightarrow>
               if length v < length bearerPrefix \<or> \<not> EqualFold (take (length bearerPrefix) v) bearerPrefix then []
               else drop (length bearerPrefix) v))"

definition authorize :: "metadata option \<Rightarrow> string \<Rightarrow> authError option" where
  "authorize ctx expected =
     (if expected = [] then None
      else
        (let presented = tokenFromContext ctx
         in if presented = [] then Some MissingToken
            else if presented \<noteq> expected then Some InvalidToken
            else None))"

definition UnaryInterceptor ::
    "string \<Rightarrow> (metadata option \<Rightarrow> 'req \<Rightarrow> 's \<Rightarrow> 'res \<times> 's) \<Rightarrow> metadata option \<Rightarrow> 'req \<Rightarrow> 's \<Rightarrow> (authError + 'res) \<times> 's" where
  "UnaryInterceptor expected handler ctx req s =
     (case authorize ctx expected of
        Some e \<Rightarrow> (Inl e, s)
      | None \<Rightarrow> (let (res, s1) = handler ctx req s in (Inr res, s1)))"

definition StreamInterceptor ::
    "string \<Rightarrow> (metadata option \<Rightarrow> 's \<Rightarrow> 's) \<Rightarrow> metadata option \<Rightarrow> 's \<Rightarrow> authError option \<times> 's" where
  "StreamInterceptor expected handler ctx s =
     (case authorize ctx expected of Some e \<Rightarrow> (Some e, s) | None \<Rightarrow> (None, handler ctx s))"

section \<open>Only the token opens the API\<close>

text \<open>
  What gRPC does with the metadata of a call: the per-call credentials' pairs for the token's key arrive under
  it. Other keys, which gRPC adds to, are left open.
\<close>

definition delivers :: "((string \<times> string) list \<Rightarrow> metadata) \<Rightarrow> bool" where
  "delivers deliver \<longleftrightarrow> (\<forall>kvs. deliver kvs metadataKey = map snd (filter (\<lambda>kv. fst kv = metadataKey) kvs))"

definition call_metadata :: "((string \<times> string) list \<Rightarrow> metadata) \<Rightarrow> 't dialOption \<Rightarrow> metadata option" where
  "call_metadata deliver opts =
     Some (deliver (case do_perRPC opts of None \<Rightarrow> [] | Some c \<Rightarrow> GetRequestMetadata c))"

lemma presented_token:
  assumes "delivers deliver"
  shows "tokenFromContext (call_metadata deliver (dialOptions tls token)) = token"
  using assms
  by (auto simp: call_metadata_def dialOptions_def delivers_def tokenFromContext_def GetRequestMetadata_def
      NewTokenCredentials_def EqualFold_def)

text \<open>
  C14. With a token configured, exactly the calls that present it are served: any other call, unary or
  stream, ends with an authentication error and leaves the server's state as it was; and a data plane
  is admitted exactly when it was given the same token, whatever transport it uses. Without a token on
  the server every call is served.
\<close>

theorem control_api_guarded:
  assumes "delivers deliver"
  shows "(if expected = [] \<or> tokenFromContext ctx = expected
     then UnaryInterceptor expected handler ctx req s = (Inr (fst (handler ctx req s)), snd (handler ctx req s)) \<and>
       StreamInterceptor expected stream ctx s = (None, stream ctx s)
     else (\<exists>e. UnaryInterceptor expected handler ctx req s = (Inl e, s)) \<and>
       (\<exists>e. StreamInterceptor expected stream ctx s = (Some e, s))) \<and>
    (authorize (call_metadata deliver (dialOptions tls token)) expected = None \<longleftrightarrow> expected = [] \<or> token = expected)"
  using presented_token [OF assms, of tls token]
  by (auto simp: UnaryInterceptor_def StreamInterceptor_def authorize_def Let_def split: prod.splits)

definition demo_deliver :: "(string \<times> string) list \<Rightarrow> metadata" where
  "demo_deliver kvs k = (if k = ''user-agent'' then [''grpc-go''] else map snd (filter (\<lambda>kv. fst kv = k) kvs))"

theorem control_api_guarded_witness:
  "authorize (call_metadata demo_deliver (dialOptions (None :: unit option) ''s3cret'')) ''s3cret'' = None \<and>
   authorize (call_metadata demo_deliver (dialOptions (None :: unit option) ''guess'')) ''s3cret'' \<noteq> None \<and>
   (\<exists>e. UnaryInterceptor ''s3cret'' (\<lambda>_ _ s. ((), Suc s)) None () 0 = (Inl e, 0))"
proof -
  have d: "delivers demo_deliver" by (simp add: delivers_def demo_deliver_def metadataKey_def)
  note g = control_api_guarded [OF d, where expected = "''s3cret''" and ctx = None and handler = "\<lambda>_ _ s. ((), Suc s)" and req = "()" and s = 0
      and tls = "None :: unit option"]
  show ?thesis using g [where token = "''s3cret''"] g [where token = "''guess''"] by (simp add: tokenFromContext_def)
qed

end
