(* ===== verification/TcpProxy.thy ===== *)
theory TcpProxy
  imports ProxyProps NetAddr
begin

text \<open>
  The raw TCP proxy (\<open>internal/dataplane/tcpproxy.go\<close>).

  \<open>TCPProxy\<close> has the fields of the struct; a channel is a number, and \<open>tp_closed\<close> the channels that have been
  closed. The goroutines of \<open>handleConn\<close> run interleaved: a live connection is in a phase, and a step takes
  one of them to its next phase the way the code between two blocking calls does. Whether the dial
  succeeded and how many bytes each direction copied are inputs. The wait in \<open>Drain\<close> is what it returns in a
  given state. The accept loop of \<open>Serve\<close> takes two steps per connection: \<open>Accept\<close> returns it, then \<open>connStarted\<close>
  counts it and its goroutine starts; in between it is \<open>ts_pending\<close>. The half-close and the sockets themselves
  are left out, and so are updates of the backend list by the control plane.
\<close>

section \<open>The proxy\<close>

record 'l TCPProxy =
  tp_group :: string
  tp_backends :: "'l BackendList"
  tp_metrics :: "Metrics option"
  tp_DialTimeout :: duration
  tp_inflight :: int
  tp_idle :: nat
  tp_closed :: "nat list"

definition NewTCPProxy :: "string \<Rightarrow> 'l BackendList \<Rightarrow> Metrics option \<Rightarrow> 'l TCPProxy" where
  "NewTCPProxy g b m =
     \<lparr>tp_group = g, tp_backends = b, tp_metrics = m, tp_DialTimeout = 0, tp_inflight = 0, tp_idle = 0, tp_closed = []\<rparr>"

definition connStarted :: "'l TCPProxy \<Rightarrow> 'l TCPProxy" where
  "connStarted p = p\<lparr>tp_inflight := tp_inflight p + 1\<rparr>"

definition connFinished :: "'l TCPProxy \<Rightarrow> 'l TCPProxy" where
  "connFinished p =
     (let p1 = p\<lparr>tp_inflight := tp_inflight p - 1\<rparr>
      in if tp_inflight p1 = 0 then p1\<lparr>tp_closed := tp_idle p1 # tp_closed p1, tp_idle := Suc (tp_idle p1)\<rparr> else p1)"

definition dialTimeout :: "'l TCPProxy \<Rightarrow> duration" where
  "dialTimeout p = (if tp_DialTimeout p \<le> 0 then 5 * second else tp_DialTimeout p)"

text \<open>
  \<open>Drain\<close>: the part before the wait either returns or yields the channel to wait on; then it returns when
  that channel is closed, or when the timer fired. When both are ready either may be taken.
\<close>

definition drainBegin :: "duration \<Rightarrow> 'l TCPProxy \<Rightarrow> bool + nat" where
  "drainBegin grace p = (if tp_inflight p = 0 then Inl True else if grace \<le> 0 then Inl False else Inr (tp_idle p))"

definition drainResult :: "nat \<Rightarrow> bool \<Rightarrow> bool \<Rightarrow> 'l TCPProxy \<Rightarrow> bool option" where
  "drainResult idle timerFired takeTimer p =
     (if idle \<in> set (tp_closed p) \<and> \<not> (timerFired \<and> takeTimer) then Some True
      else if timerFired then Some (tp_inflight p = 0) else None)"

section \<open>Connections\<close>

datatype connPhase =
    Accepted string
  | Chosen string
  | Piping string bool bool

record 'l tcpSys =
  ts_proxy :: "'l TCPProxy"
  ts_listening :: bool
  ts_now :: gotime
  ts_pending :: "string option"
  ts_conns :: "connPhase list"

datatype tcpEvent =
    TAccept string
  | TStarted
  | TCloseListener
  | TSelect gotime nat
  | TDial gotime nat bool
  | TCopied gotime nat bool int
  | TEnd nat
  | THealth gotime string bool

text \<open>\<open>handleConn\<close> up to the dial, after it, one direction of the copying done, and the deferred calls.\<close>

definition tcpClientIP :: "string \<Rightarrow> string" where
  "tcpClientIP addr = (case SplitHostPort addr of Some (host, _) \<Rightarrow> host | None \<Rightarrow> addr)"

definition hcSelect :: "gotime \<Rightarrow> string \<Rightarrow> 'l TCPProxy \<Rightarrow> string option \<times> 'l TCPProxy" where
  "hcSelect now client p = (let (sel, b) = bl_NextForKey now (tcpClientIP client) (tp_backends p) in (sel, p\<lparr>tp_backends := b\<rparr>))"

definition hcDialed :: "gotime \<Rightarrow> string \<Rightarrow> bool \<Rightarrow> 'l TCPProxy \<Rightarrow> 'l TCPProxy" where
  "hcDialed now addr ok p =
     (let p1 = p\<lparr>tp_backends := bl_RecordResult now addr ok (tp_backends p)\<rparr>
      in if ok then p1\<lparr>tp_metrics := map_option
             (\<lambda>m. SetTCPActiveConnections (tp_group p) 1 (ObserveTCPConnection now (tp_group p) m)) (tp_metrics p1)\<rparr>
         else p1)"

definition hcCopied :: "gotime \<Rightarrow> bool \<Rightarrow> int \<Rightarrow> 'l TCPProxy \<Rightarrow> 'l TCPProxy" where
  "hcCopied now inbound n p =
     p\<lparr>tp_metrics := map_option (ObserveTCPBytes now (tp_group p) (if inbound then ''in'' else ''out'') n) (tp_metrics p)\<rparr>"

definition hcClose :: "bool \<Rightarrow> string option \<Rightarrow> 'l TCPProxy \<Rightarrow> 'l TCPProxy" where
  "hcClose piped addr p =
     (let p1 = (if piped then p\<lparr>tp_metrics := map_option (SetTCPActiveConnections (tp_group p) (-1)) (tp_metrics p)\<rparr> else p);
          p2 = (case addr of None \<Rightarrow> p1 | Some a \<Rightarrow> p1\<lparr>tp_backends := bl_Release a (tp_backends p1)\<rparr>)
      in connFinished p2)"

definition dropAt :: "nat \<Rightarrow> 'a list \<Rightarrow> 'a list" where
  "dropAt i xs = take i xs @ drop (Suc i) xs"

fun tcpStep :: "'l tcpSys \<Rightarrow> tcpEvent \<Rightarrow> 'l tcpSys option" where
  "tcpStep s (TAccept client) =
     (if ts_listening s \<and> ts_pending s = None then Some (s\<lparr>ts_pending := Some client\<rparr>) else None)"
| "tcpStep s TStarted =
     (case ts_pending s of
        None \<Rightarrow> None
      | Some client \<Rightarrow>
          Some (s\<lparr>ts_pending := None, ts_proxy := connStarted (ts_proxy s), ts_conns := ts_conns s @ [Accepted client]\<rparr>))"
| "tcpStep s TCloseListener = Some (s\<lparr>ts_listening := False\<rparr>)"
| "tcpStep s (TSelect now i) =
     (if i < length (ts_conns s) \<and> ts_now s \<le> now then
        (case ts_conns s ! i of
           Accepted client \<Rightarrow>
             (case hcSelect now client (ts_proxy s) of
                (None, p) \<Rightarrow> Some (s\<lparr>ts_now := now, ts_proxy := hcClose False None p, ts_conns := dropAt i (ts_conns s)\<rparr>)
              | (Some a, p) \<Rightarrow> Some (s\<lparr>ts_now := now, ts_proxy := p, ts_conns := (ts_conns s)[i := Chosen a]\<rparr>))
         | _ \<Rightarrow> None)
      else None)"
| "tcpStep s (TDial now i ok) =
     (if i < length (ts_conns s) \<and> ts_now s \<le> now then
        (case ts_conns s ! i of
           Chosen a \<Rightarrow>
             (let p = hcDialed now a ok (ts_proxy s)
              in if ok then Some (s\<lparr>ts_now := now, ts_proxy := p, ts_conns := (ts_conns s)[i := Piping a False False]\<rparr>)
                 else Some (s\<lparr>ts_now := now, ts_proxy := hcClose False (Some a) p, ts_conns := dropAt i (ts_conns s)\<rparr>))
         | _ \<Rightarrow> None)
      else None)"
| "tcpStep s (TCopied now i inbound n) =
     (if i < length (ts_conns s) \<and> ts_now s \<le> now then
        (case ts_conns s ! i of
           Piping a inDone outDone \<Rightarrow>
             if (if inbound then inDone else outDone) then None
             else Some (s\<lparr>ts_now := now, ts_proxy := hcCopied now inbound n (ts_proxy s),
                  ts_conns := (ts_conns s)[i := (if inbound then Piping a True outDone else Piping a inDone True)]\<rparr>)
         | _ \<Rightarrow> None)
      else None)"
| "tcpStep s (TEnd i) =
     (if i < length (ts_conns s) then
        (case ts_conns s ! i of
           Piping a True True \<Rightarrow> Some (s\<lparr>ts_proxy := hcClose True (Some a) (ts_proxy s), ts_conns := dropAt i (ts_conns s)\<rparr>)
         | _ \<Rightarrow> None)
      else None)"
| "tcpStep s (THealth now a h) =
     (if ts_now s \<le> now
      then Some (s\<lparr>ts_now := now, ts_proxy := (ts_proxy s)\<lparr>tp_backends := bl_SetHealth now a h (tp_backends (ts_proxy s))\<rparr>\<rparr>)
      else None)"

fun tcpRun :: "'l tcpSys \<Rightarrow> tcpEvent list \<Rightarrow> 'l tcpSys option" where
  "tcpRun s [] = Some s"
| "tcpRun s (e # es) = (case tcpStep s e of None \<Rightarrow> None | Some s1 \<Rightarrow> tcpRun s1 es)"

inductive tcp_reach :: "'l tcpSys \<Rightarrow> bool" where
  init: "bl_inv t b \<Longrightarrow> distinct (bl_Addresses b) \<Longrightarrow> \<forall>e \<in> set (bl_entries b). be_activeConns e = 0 \<Longrightarrow>
    m = None \<or> m = Some NewMetrics \<Longrightarrow>
    tcp_reach \<lparr>ts_proxy = NewTCPProxy g b m, ts_listening = True, ts_now = t, ts_pending = None, ts_conns = []\<rparr>"
| next_tcp: "tcp_reach s \<Longrightarrow> tcpStep s e = Some s1 \<Longrightarrow> tcp_reach s1"

section \<open>The invariant\<close>

fun holds :: "string \<Rightarrow> connPhase \<Rightarrow> bool" where
  "holds a (Accepted _) = False"
| "holds a (Chosen x) = (x = a)"
| "holds a (Piping x _ _) = (x = a)"

fun piping :: "connPhase \<Rightarrow> bool" where
  "piping (Piping _ _ _) = True"
| "piping _ = False"

definition tcpGauge :: "string \<Rightarrow> Metrics \<Rightarrow> int" where
  "tcpGauge g m = sum_list (map (\<lambda>e. case e of TcpActiveAdd k d \<Rightarrow> if k = g then d else 0 | _ \<Rightarrow> 0) (m_prom m))"

definition backends_ok :: "gotime \<Rightarrow> connPhase list \<Rightarrow> 'l BackendList \<Rightarrow> bool" where
  "backends_ok t cs b \<longleftrightarrow> bl_inv t b \<and> distinct (map fst (conns b)) \<and>
     (\<forall>(a, n) \<in> set (conns b). n = count_if (holds a) cs) \<and>
     (\<forall>a. count_if (holds a) cs \<noteq> 0 \<longrightarrow> a \<in> fst ` set (conns b))"

definition idle_ok :: "connPhase list \<Rightarrow> 'l TCPProxy \<Rightarrow> bool" where
  "idle_ok cs p \<longleftrightarrow> tp_inflight p = int (length cs) \<and> set (tp_closed p) = {..<tp_idle p}"

definition gauge_ok :: "connPhase list \<Rightarrow> 'l TCPProxy \<Rightarrow> bool" where
  "gauge_ok cs p \<longleftrightarrow> (\<forall>m. tp_metrics p = Some m \<longrightarrow> tcpGauge (tp_group p) m = count_if piping cs)"

definition tcp_inv :: "'l tcpSys \<Rightarrow> bool" where
  "tcp_inv s \<longleftrightarrow> backends_ok (ts_now s) (ts_conns s) (tp_backends (ts_proxy s)) \<and> idle_ok (ts_conns s) (ts_proxy s) \<and>
     gauge_ok (ts_conns s) (ts_proxy s)"

subsection \<open>Counting\<close>

lemma count_if_append: "count_if p (xs @ ys) = count_if p xs + count_if p ys"
  by (simp add: count_if_def)

lemma count_if_dropAt:
  assumes "i < length xs"
  shows "count_if p (dropAt i xs) = count_if p xs - (if p (xs ! i) then 1 else 0)"
  using arg_cong [OF id_take_nth_drop [OF assms], of "count_if p"] by (simp add: dropAt_def count_if_append)

lemma count_if_set_nth:
  assumes "i < length xs"
  shows "count_if p (xs[i := v]) = count_if p xs - (if p (xs ! i) then 1 else 0) + (if p v then 1 else 0)"
  using arg_cong [OF id_take_nth_drop [OF assms], of "count_if p"] assms
  by (simp add: upd_conv_take_nth_drop count_if_append)

lemma length_dropAt: "i < length xs \<Longrightarrow> int (length (dropAt i xs)) = int (length xs) - 1"
  by (simp add: dropAt_def)

subsection \<open>Connection counts of the backends\<close>

lemma update_first_distinct:
  "distinct (map g xs) \<Longrightarrow> update_first (\<lambda>x. g x = a) f xs = map (\<lambda>x. if g x = a then f x else x) xs"
proof (induction xs)
  case (Cons x xs)
  have "map (\<lambda>x. if g x = a then f x else x) xs = xs" if "g x = a" 
    using that Cons.prems by (intro map_idI) (auto simp: image_iff)
  then show ?case using Cons by (cases "g x = a") auto
qed simp

lemma fst_pairwise [simp]: "fst \<circ> (\<lambda>(x, n). (x, f x n)) = fst"
  by auto

lemma conns_NextForKey:
  assumes "bl_inv t b" "t \<le> now" "distinct (map fst (conns b))" "fst (bl_NextForKey now key b) = Some a"
  shows "conns (snd (bl_NextForKey now key b)) = map (\<lambda>(x, n). (x, if x = a then n + 1 else n)) (conns b)"
    "a \<in> fst ` set (conns b)"
proof -
  let ?es = "bl_entries b" and ?r = "bl_NextForKey now key b"
  have "bl_slots (bl_refresh now b) \<noteq> []" using assms(4) by (auto simp: NextForKey_empty)
  then obtain i where t: "takes (bl_refresh now b) ?r i" by (rule NextForKey_takes)
  have "i \<in> set (slots_from now 0 ?es)" using t refresh_slots [OF assms(1,2)] by (simp add: takes_def)
  then have i: "i < length ?es" by (rule slots_from_bound)
  have e: "bl_entries (snd ?r) = ?es[i := bump (?es ! i)]" "a = be_address (?es ! i)"
    using takes_result [OF t] assms(4) by simp_all
  have d: "distinct (map be_address ?es)" using assms(3) by (simp add: conns_def comp_def)
  show "conns (snd ?r) = map (\<lambda>(x, n). (x, if x = a then n + 1 else n)) (conns b)"
  proof (rule nth_equalityI)
    fix j assume "j < length (conns (snd ?r))"
    then have j: "j < length ?es" by (simp add: conns_def e)
    moreover have "be_address (?es ! j) = a \<longleftrightarrow> j = i"
      using nth_eq_iff_index_eq [OF d, of j i] i j e(2) by simp
    ultimately show "conns (snd ?r) ! j = map (\<lambda>(x, n). (x, if x = a then n + 1 else n)) (conns b) ! j"
      by (auto simp: conns_def e(1) nth_list_update)
  qed (simp add: conns_def e(1))
  show "a \<in> fst ` set (conns b)" using i by (auto simp: conns_def e(2) image_image)
qed

lemma conns_Release_distinct:
  "distinct (map fst (conns b)) \<Longrightarrow>
     conns (bl_Release a b) = map (\<lambda>(x, n). (x, if x = a \<and> 0 < n then n - 1 else n)) (conns b)"
  by (auto simp: conns_Release update_first_distinct)

lemma conns_SetHealth: "conns (bl_SetHealth now a h b) = conns b"
  by (auto simp: bl_SetHealth_def Let_def conns_def map_update_first split: option.split)

lemma backends_frame: "backends_ok t cs b \<Longrightarrow> conns b' = conns b \<Longrightarrow> bl_inv t' b' \<Longrightarrow> backends_ok t' cs b'"
  by (simp add: backends_ok_def)

lemma backends_count: "backends_ok t cs b \<Longrightarrow> (\<And>a. count_if (holds a) cs' = count_if (holds a) cs) \<Longrightarrow> backends_ok t cs' b"
  by (simp add: backends_ok_def)

lemma backends_select:
  assumes "backends_ok t cs b" "t \<le> now" "fst (bl_NextForKey now key b) = Some a"
    and "\<And>x. count_if (holds x) cs' = count_if (holds x) cs + (if x = a then 1 else 0)"
  shows "backends_ok now cs' (snd (bl_NextForKey now key b))"
proof -
  have i: "bl_inv t b" "distinct (map fst (conns b))" using assms(1) by (simp_all add: backends_ok_def)
  note c = conns_NextForKey [OF i(1) assms(2) i(2) assms(3)]
  have "bl_inv now (snd (bl_NextForKey now key b))" using i(1) assms(2) by (rule bl_inv_NextForKey)
  then show ?thesis using assms(1,4) c(2) by (auto simp: backends_ok_def c(1) image_comp split: if_splits)
qed

lemma backends_release:
  assumes "backends_ok t cs b" "count_if (holds a) cs \<noteq> 0"
    and "\<And>x. count_if (holds x) cs' = count_if (holds x) cs - (if x = a then 1 else 0)"
  shows "backends_ok t cs' (bl_Release a b)"
proof -
  have i: "bl_inv t b" "distinct (map fst (conns b))" using assms(1) by (simp_all add: backends_ok_def)
  have p: "0 < count_if (holds a) cs" using assms(2) count_if_nonneg [of "holds a" cs] by linarith
  have "bl_inv t (bl_Release a b)" using i(1) by (rule bl_inv_Release)
  then show ?thesis using assms p by (auto simp: backends_ok_def conns_Release_distinct [OF i(2)] image_comp split: if_splits)
qed

subsection \<open>Every step keeps the invariant\<close>

lemma connFinished_frame [simp]:
  "tp_backends (connFinished p) = tp_backends p" "tp_metrics (connFinished p) = tp_metrics p" "tp_group (connFinished p) = tp_group p"
  by (simp_all add: connFinished_def Let_def)

lemma idle_backends [simp]: "idle_ok cs (p\<lparr>tp_backends := b\<rparr>) = idle_ok cs p"
  by (simp add: idle_ok_def)

lemma idle_finish: "idle_ok cs p \<Longrightarrow> i < length cs \<Longrightarrow> idle_ok (dropAt i cs) (connFinished p)"
  by (simp add: idle_ok_def connFinished_def length_dropAt lessThan_Suc Let_def)

lemma hcClose_simps:
  "tp_backends (hcClose piped addr p) = (case addr of None \<Rightarrow> tp_backends p | Some a \<Rightarrow> bl_Release a (tp_backends p))"
  "tp_metrics (hcClose piped addr p) =
     (if piped then map_option (SetTCPActiveConnections (tp_group p) (-1)) (tp_metrics p) else tp_metrics p)"
  "tp_group (hcClose piped addr p) = tp_group p"
  by (simp_all add: hcClose_def Let_def split: option.split)

lemma idle_close: "idle_ok cs p \<Longrightarrow> i < length cs \<Longrightarrow> idle_ok (dropAt i cs) (hcClose piped addr p)"
  unfolding hcClose_def Let_def by (rule idle_finish) (auto simp: idle_ok_def split: option.split)

lemma gauge_Set [simp]: "tcpGauge g (SetTCPActiveConnections g d m) = tcpGauge g m + d"
  by (simp add: tcpGauge_def SetTCPActiveConnections_def)

lemma gauge_other [simp]: "tcpGauge g (ObserveTCPConnection now g' m) = tcpGauge g m"
  "tcpGauge g (ObserveTCPBytes now g' dir n m) = tcpGauge g m"
  by (simp_all add: tcpGauge_def ObserveTCPConnection_def ObserveTCPBytes_def)

lemma hcSelect_simps: "hcSelect now client p = (fst (bl_NextForKey now (tcpClientIP client) (tp_backends p)),
    p\<lparr>tp_backends := snd (bl_NextForKey now (tcpClientIP client) (tp_backends p))\<rparr>)"
  by (simp add: hcSelect_def case_prod_beta)

lemma inv_TSelect:
  assumes "tcp_inv s" "tcpStep s (TSelect now i) = Some s1" shows "tcp_inv s1"
proof -
  let ?b = "tp_backends (ts_proxy s)" and ?cs = "ts_conns s"
  from assms(2) obtain client where c: "i < length ?cs" "ts_now s \<le> now" "?cs ! i = Accepted client"
    by (auto split: if_splits connPhase.splits)
  have b: "backends_ok (ts_now s) ?cs ?b" and o: "idle_ok ?cs (ts_proxy s)" "gauge_ok ?cs (ts_proxy s)"
    using assms(1) by (simp_all add: tcp_inv_def)
  then have inv: "bl_inv (ts_now s) ?b" by (simp add: backends_ok_def)
  show ?thesis
  proof (cases "fst (bl_NextForKey now (tcpClientIP client) ?b)")
    case None
    then have s1: "s1 = s\<lparr>ts_now := now, ts_conns := dropAt i ?cs,
        ts_proxy := hcClose False None ((ts_proxy s)\<lparr>tp_backends := snd (bl_NextForKey now (tcpClientIP client) ?b)\<rparr>)\<rparr>"
      using assms(2) c by (auto simp: hcSelect_simps)
    have "conns (snd (bl_NextForKey now (tcpClientIP client) ?b)) = conns ?b" using NextForKey_none [OF None] by (rule conns_entries)
    then have "backends_ok now ?cs (snd (bl_NextForKey now (tcpClientIP client) ?b))"
      using b bl_inv_NextForKey [OF inv c(2)] by (blast intro: backends_frame)
    then have "backends_ok now (dropAt i ?cs) (snd (bl_NextForKey now (tcpClientIP client) ?b))"
      by (rule backends_count) (simp add: count_if_dropAt c)
    moreover have "idle_ok (dropAt i ?cs) (ts_proxy s1)"
      using o(1) c(1) by (simp add: s1 idle_close)
    ultimately show ?thesis using o(2) c
      by (simp add: tcp_inv_def s1 hcClose_simps gauge_ok_def count_if_dropAt)
  next
    case (Some a)
    then have s1: "s1 = s\<lparr>ts_now := now, ts_conns := ?cs[i := Chosen a],
        ts_proxy := (ts_proxy s)\<lparr>tp_backends := snd (bl_NextForKey now (tcpClientIP client) ?b)\<rparr>\<rparr>"
      using assms(2) c by (auto simp: hcSelect_simps)
    have "backends_ok now (?cs[i := Chosen a]) (snd (bl_NextForKey now (tcpClientIP client) ?b))"
      using b c(2) Some by (rule backends_select) (simp add: count_if_set_nth c eq_commute)
    then show ?thesis using o c by (simp add: tcp_inv_def s1 idle_ok_def gauge_ok_def count_if_set_nth)
  qed
qed

lemma inv_TDial:
  assumes "tcp_inv s" "tcpStep s (TDial now i ok) = Some s1" shows "tcp_inv s1"
proof -
  let ?b = "tp_backends (ts_proxy s)" and ?cs = "ts_conns s" and ?p = "ts_proxy s"
  from assms(2) obtain a where c: "i < length ?cs" "ts_now s \<le> now" "?cs ! i = Chosen a"
    by (auto split: if_splits connPhase.splits)
  let ?b1 = "bl_RecordResult now a ok ?b"
  have b: "backends_ok (ts_now s) ?cs ?b" and o: "idle_ok ?cs ?p" "gauge_ok ?cs ?p" using assms(1) by (simp_all add: tcp_inv_def)
  then have "bl_inv now ?b1" using c(2) by (auto simp: backends_ok_def intro: bl_inv_RecordResult)
  with b have b1: "backends_ok now ?cs ?b1" by (rule backends_frame [OF _ conns_RecordResult])
  show ?thesis
  proof (cases ok)
    case True
    then have s1: "s1 = s\<lparr>ts_now := now, ts_conns := ?cs[i := Piping a False False], ts_proxy := hcDialed now a True ?p\<rparr>"
      using assms(2) c by auto
    have "backends_ok now (?cs[i := Piping a False False]) ?b1" using b1 by (rule backends_count) (simp add: count_if_set_nth c)
    then show ?thesis using o c True
      by (auto simp: tcp_inv_def s1 hcDialed_def idle_ok_def gauge_ok_def count_if_set_nth Let_def)
  next
    case False
    then have s1: "s1 = s\<lparr>ts_now := now, ts_conns := dropAt i ?cs, ts_proxy := hcClose False (Some a) (hcDialed now a False ?p)\<rparr>"
      using assms(2) c by auto
    have d: "hcDialed now a False ?p = ?p\<lparr>tp_backends := ?b1\<rparr>" using False by (simp add: hcDialed_def)
    have "count_if (holds a) ?cs \<noteq> 0"
      using count_if_dropAt [OF c(1), of "holds a"] count_if_nonneg [of "holds a" "dropAt i ?cs"] c(3) by simp
    with b1 have "backends_ok now (dropAt i ?cs) (bl_Release a ?b1)"
      by (rule backends_release) (simp add: count_if_dropAt c eq_commute)
    moreover have "idle_ok (dropAt i ?cs) (ts_proxy s1)" using o(1) c(1) by (simp add: s1 d idle_close)
    ultimately show ?thesis using o(2) c by (simp add: tcp_inv_def s1 d hcClose_simps gauge_ok_def count_if_dropAt)
  qed
qed

lemma inv_TCopied:
  assumes "tcp_inv s" "tcpStep s (TCopied now i inbound n) = Some s1" shows "tcp_inv s1"
proof -
  let ?cs = "ts_conns s" and ?p = "ts_proxy s"
  from assms(2) obtain a x y where c: "i < length ?cs" "ts_now s \<le> now" "?cs ! i = Piping a x y"
    by (auto split: if_splits connPhase.splits)
  let ?v = "if inbound then Piping a True y else Piping a x True"
  have s1: "s1 = s\<lparr>ts_now := now, ts_conns := ?cs[i := ?v], ts_proxy := hcCopied now inbound n ?p\<rparr>"
    using assms(2) c by (auto split: if_splits)
  have b: "backends_ok (ts_now s) ?cs (tp_backends ?p)" and o: "idle_ok ?cs ?p" "gauge_ok ?cs ?p" using assms(1) by (simp_all add: tcp_inv_def)
  have "bl_inv now (tp_backends ?p)" using b c(2) by (auto simp: backends_ok_def intro: bl_inv_later)
  with b have "backends_ok now ?cs (tp_backends ?p)" by (rule backends_frame [OF _ refl])
  then have "backends_ok now (?cs[i := ?v]) (tp_backends ?p)" by (rule backends_count) (simp add: count_if_set_nth c)
  then show ?thesis using o c by (auto simp: tcp_inv_def s1 hcCopied_def idle_ok_def gauge_ok_def count_if_set_nth)
qed

lemma inv_TEnd:
  assumes "tcp_inv s" "tcpStep s (TEnd i) = Some s1" shows "tcp_inv s1"
proof -
  let ?cs = "ts_conns s" and ?p = "ts_proxy s"
  from assms(2) obtain a where c: "i < length ?cs" "?cs ! i = Piping a True True"
    and s1: "s1 = s\<lparr>ts_conns := dropAt i ?cs, ts_proxy := hcClose True (Some a) ?p\<rparr>"
    by (auto split: if_splits connPhase.splits bool.splits)
  have b: "backends_ok (ts_now s) ?cs (tp_backends ?p)" and o: "idle_ok ?cs ?p" "gauge_ok ?cs ?p" using assms(1) by (simp_all add: tcp_inv_def)
  have "count_if (holds a) ?cs \<noteq> 0"
    using count_if_dropAt [OF c(1), of "holds a"] count_if_nonneg [of "holds a" "dropAt i ?cs"] c(2) by simp
  with b have "backends_ok (ts_now s) (dropAt i ?cs) (bl_Release a (tp_backends ?p))"
    by (rule backends_release) (simp add: count_if_dropAt c eq_commute)
  then show ?thesis using o c by (auto simp: tcp_inv_def s1 hcClose_simps idle_close gauge_ok_def count_if_dropAt)
qed

lemma inv_tcpStep:
  assumes "tcp_inv s" "tcpStep s e = Some s1" shows "tcp_inv s1"
proof (cases e)
  case TStarted
  then obtain client where "s1 = s\<lparr>ts_pending := None, ts_proxy := connStarted (ts_proxy s), ts_conns := ts_conns s @ [Accepted client]\<rparr>"
    using assms(2) by (auto split: option.splits)
  then show ?thesis using assms(1)
    by (auto simp: tcp_inv_def connStarted_def idle_ok_def gauge_ok_def count_if_append intro: backends_count)
next
  case (THealth now a h)
  then have s1: "s1 = s\<lparr>ts_now := now, ts_proxy := (ts_proxy s)\<lparr>tp_backends := bl_SetHealth now a h (tp_backends (ts_proxy s))\<rparr>\<rparr>"
    and "ts_now s \<le> now" using assms(2) by (auto split: if_splits)
  then have "bl_inv now (bl_SetHealth now a h (tp_backends (ts_proxy s)))"
    using assms(1) by (auto simp: tcp_inv_def backends_ok_def intro: bl_inv_SetHealth)
  then show ?thesis using assms(1) by (auto simp: tcp_inv_def s1 gauge_ok_def conns_SetHealth intro: backends_frame)
next
  case TCloseListener
  then show ?thesis using assms by (auto simp: tcp_inv_def)
next
  case (TAccept client)
  then show ?thesis using assms by (auto simp: tcp_inv_def split: if_splits)
qed (use assms in \<open>blast intro: inv_TSelect inv_TDial inv_TCopied inv_TEnd\<close>)+

lemma tcp_reach_inv: "tcp_reach s \<Longrightarrow> tcp_inv s"
proof (induction rule: tcp_reach.induct)
  case (init t b m g)
  then have "\<forall>x \<in> set (conns b). snd x = 0" by (auto simp: conns_def)
  then show ?case using init
    by (auto simp: tcp_inv_def backends_ok_def idle_ok_def gauge_ok_def NewTCPProxy_def NewMetrics_def tcpGauge_def
        conns_def bl_Addresses_def comp_def)
qed (rule inv_tcpStep)

section \<open>Accounting and draining\<close>

text \<open>
  C22. The TCP proxy keeps its books over every interleaving of connections: the in-flight count is the number
  of connections counted by the accept loop that have not ended (all accepted ones but the one it may just be
  about to count), the open connections on every backend's account are exactly
  the connections that hold it, and the gauge of active connections is the number of connections being
  piped. The idle channel is never closed twice. The set of backends does not change meanwhile.
\<close>

theorem tcp_accounting:
  assumes "tcp_reach s"
  shows "tp_inflight (ts_proxy s) = int (length (ts_conns s)) \<and>
    (\<forall>e \<in> set (bl_entries (tp_backends (ts_proxy s))). be_activeConns e = count_if (holds (be_address e)) (ts_conns s)) \<and>
    (\<forall>m. tp_metrics (ts_proxy s) = Some m \<longrightarrow> tcpGauge (tp_group (ts_proxy s)) m = count_if piping (ts_conns s)) \<and>
    tp_idle (ts_proxy s) \<notin> set (tp_closed (ts_proxy s))"
  using tcp_reach_inv [OF assms]
  by (auto simp: tcp_inv_def backends_ok_def idle_ok_def gauge_ok_def conns_def)

definition demo_tcp :: "nat stream \<Rightarrow> unit tcpSys" where
  "demo_tcp rng = \<lparr>ts_proxy = NewTCPProxy ''g'' (demo_list [] rng) (Some NewMetrics), ts_listening = True, ts_now = 1, ts_pending = None, ts_conns = []\<rparr>"

definition demo_connect :: "tcpEvent list" where
  "demo_connect = [TAccept ''10.0.0.1:4711'', TStarted, TCloseListener, TSelect 2 0, TDial 3 0 True]"

lemma demo_tcp_reach: "tcp_reach (demo_tcp rng)"
  unfolding demo_tcp_def
  by (rule tcp_reach.init [OF demo_inv]) (simp_all add: bl_Addresses_def demo_entries)

lemma tcpRun_reach: "tcp_reach s \<Longrightarrow> tcpRun s es = Some s1 \<Longrightarrow> tcp_reach s1"
  by (induction es arbitrary: s) (auto split: option.splits intro: next_tcp)

lemma demo_first: "fst (bl_NextForKey 2 key (demo_list [] rng)) = Some ''a''"
  by (simp add: demo_simps bl_NextForKey_def bl_refresh_def rebuildSlotsLocked_def selectable_def ejected_def
      nextRoundRobin_def take_entry_def normalizeAlgorithm_def nth_append)

lemma demo_tcp_run:
  "\<exists>s. tcpRun (demo_tcp rng) demo_connect = Some s \<and> ts_conns s = [Piping ''a'' False False] \<and> \<not> ts_listening s \<and> ts_pending s = None \<and>
     tp_inflight (ts_proxy s) = 1 \<and> tp_idle (ts_proxy s) = 0 \<and> (\<exists>m. tp_metrics (ts_proxy s) = Some m) \<and> tp_group (ts_proxy s) = ''g''"
  by (simp add: demo_connect_def demo_tcp_def NewTCPProxy_def connStarted_def hcSelect_simps hcDialed_def demo_first Let_def)

theorem tcp_accounting_witness:
  "\<forall>rng. \<exists>s m. tcpRun (demo_tcp rng) demo_connect = Some s \<and> tp_metrics (ts_proxy s) = Some m \<and> tcpGauge ''g'' m = 1"
proof
  fix rng
  obtain s m where s: "tcpRun (demo_tcp rng) demo_connect = Some s" "ts_conns s = [Piping ''a'' False False]"
    "tp_metrics (ts_proxy s) = Some m" "tp_group (ts_proxy s) = ''g''" using demo_tcp_run by blast
  have "tcp_reach s" using demo_tcp_reach s(1) by (rule tcpRun_reach)
  from tcp_accounting [OF this] s show "\<exists>s m. tcpRun (demo_tcp rng) demo_connect = Some s \<and> tp_metrics (ts_proxy s) = Some m \<and> tcpGauge ''g'' m = 1"
    by auto
qed

text \<open>
  While no connection is accepted, the idle channel that was current when connections were live is closed
  exactly when the last of them ends.
\<close>

definition draining :: "nat \<Rightarrow> 'l tcpSys \<Rightarrow> bool" where
  "draining k s \<longleftrightarrow> \<not> ts_listening s \<and> ts_pending s = None \<and>
     (if ts_conns s = [] then tp_idle (ts_proxy s) = Suc k else tp_idle (ts_proxy s) = k)"

lemma finish_idle:
  assumes "idle_ok cs p" "i < length cs"
  shows "tp_idle (hcClose piped addr p) = (if dropAt i cs = [] then Suc (tp_idle p) else tp_idle p)"
proof -
  have "dropAt i cs = [] \<longleftrightarrow> int (length cs) = 1" using length_dropAt [OF assms(2)] by (metis length_0_conv of_nat_eq_0_iff diff_add_cancel add_0 diff_self)
  then show ?thesis using assms(1) by (auto simp: hcClose_def connFinished_def idle_ok_def Let_def split: option.split)
qed

lemma draining_step:
  assumes "tcp_inv s" "draining k s" "tcpStep s e = Some s1" shows "draining k s1"
proof -
  have o: "idle_ok (ts_conns s) (ts_proxy s)" using assms(1) by (simp add: tcp_inv_def)
  have o': "idle_ok (ts_conns s) (hcDialed now a ok (ts_proxy s))" "tp_idle (hcDialed now a ok (ts_proxy s)) = tp_idle (ts_proxy s)"
    for now a ok using o by (simp_all add: hcDialed_def idle_ok_def Let_def)
  show ?thesis
  proof (cases e)
    case (TSelect now i)
    then show ?thesis using assms(2,3) finish_idle [of "ts_conns s" "(ts_proxy s)\<lparr>tp_backends := _\<rparr>" i False None] o
      by (auto simp: draining_def hcSelect_simps split: if_splits connPhase.splits option.splits)
  next
    case (TDial now i ok)
    then show ?thesis using assms(2,3) finish_idle [OF o'(1), of i] o'(2)
      by (auto simp: draining_def Let_def split: if_splits connPhase.splits)
  next
    case (TEnd i)
    then show ?thesis using assms(2,3) finish_idle [OF o, of i]
      by (auto simp: draining_def split: if_splits connPhase.splits bool.splits)
  next
    case TStarted
    then show ?thesis using assms(2,3) by (simp add: draining_def)
  qed (use assms(2,3) in \<open>auto simp: draining_def hcCopied_def split: if_splits connPhase.splits\<close>)
qed

lemma draining_run: "tcp_reach s \<Longrightarrow> draining k s \<Longrightarrow> tcpRun s es = Some s1 \<Longrightarrow> draining k s1"
  by (induction es arbitrary: s) (auto split: option.splits intro: next_tcp draining_step tcp_reach_inv)

text \<open>
  C23. Draining is exact once the accept loop is done: when the listener is closed and the loop holds no
  connection that it has accepted and not counted yet, \<open>Drain\<close> answers true at once when no connection is live;
  otherwise, whatever the connections do meanwhile, it returns true as soon as the last one has ended and
  not before, and at the end of the grace period it returns true exactly when none is left. (Without that
  condition it is not: \<open>drain_misses_accepted\<close>.)
\<close>

theorem drain_exact:
  assumes "tcp_reach s" "\<not> ts_listening s" "ts_pending s = None" "tcpRun s es = Some s1"
  shows "case drainBegin grace (ts_proxy s) of
      Inl drained \<Rightarrow> drained = (ts_conns s = []) \<and> (drained \<or> grace \<le> 0)
    | Inr idle \<Rightarrow> ts_pending s1 = None \<and> drainResult idle timerFired takeTimer (ts_proxy s1) =
        (if ts_conns s1 = [] then Some True else if timerFired then Some False else None)"
proof -
  have o: "idle_ok (ts_conns s) (ts_proxy s)" using tcp_reach_inv [OF assms(1)] by (simp add: tcp_inv_def)
  have "idle_ok (ts_conns s1) (ts_proxy s1)"
    using tcp_reach_inv [OF tcpRun_reach [OF assms(1,4)]] by (simp add: tcp_inv_def)
  moreover have "draining (tp_idle (ts_proxy s)) s1" if "ts_conns s \<noteq> []"
    using assms(1) _ assms(4) by (rule draining_run) (use that assms(2,3) in \<open>simp add: draining_def\<close>)
  ultimately show ?thesis using o
    by (auto simp: drainBegin_def drainResult_def draining_def idle_ok_def split: if_splits)
qed

theorem drain_exact_witness:
  "\<forall>rng. \<exists>s s1. tcpRun (demo_tcp rng) demo_connect = Some s \<and> tcpRun s [TCopied 4 0 True 10, TCopied 5 0 False 20, TEnd 0] = Some s1 \<and>
     drainBegin 9 (ts_proxy s) = Inr 0 \<and> drainResult 0 False False (ts_proxy s) = None \<and> drainResult 0 False False (ts_proxy s1) = Some True"
proof
  fix rng
  obtain s where s: "tcpRun (demo_tcp rng) demo_connect = Some s" "ts_conns s = [Piping ''a'' False False]" "\<not> ts_listening s"
    "ts_pending s = None" "tp_inflight (ts_proxy s) = 1" "tp_idle (ts_proxy s) = 0" using demo_tcp_run by blast
  have "ts_now s \<le> 4" using s(1) by (auto simp: demo_connect_def demo_tcp_def hcSelect_simps split: if_splits option.splits connPhase.splits)
  then obtain s1 where s1: "tcpRun s [TCopied 4 0 True 10, TCopied 5 0 False 20, TEnd 0] = Some s1" "ts_conns s1 = []"
    by (auto simp: s dropAt_def)
  have r: "tcp_reach s" using demo_tcp_reach s(1) by (rule tcpRun_reach)
  have b: "drainBegin 9 (ts_proxy s) = Inr 0" by (simp add: drainBegin_def s)
  have "drainResult 0 False False (ts_proxy s) = None"
    using drain_exact [OF r s(3,4), of "[]" s 9 False False] b s(2) by simp
  moreover have "drainResult 0 False False (ts_proxy s1) = Some True"
    using drain_exact [OF r s(3,4) s1(1), of 9 False False] b s1(2) by simp
  ultimately show "\<exists>s s1. tcpRun (demo_tcp rng) demo_connect = Some s \<and> tcpRun s [TCopied 4 0 True 10, TCopied 5 0 False 20, TEnd 0] = Some s1 \<and>
     drainBegin 9 (ts_proxy s) = Inr 0 \<and> drainResult 0 False False (ts_proxy s) = None \<and> drainResult 0 False False (ts_proxy s1) = Some True"
    using s(1) s1(1) b by blast
qed

text \<open>
  The listener can be closed between \<open>Accept\<close> returning a connection and \<open>connStarted\<close> counting it. \<open>Drain\<close> then sees
  no connection in flight and reports that all are drained, and the connection goes on to be proxied. The
  comment in \<open>Serve\<close> calls this impossible.
\<close>

theorem drain_misses_accepted:
  "\<exists>(s :: unit tcpSys) s1. tcp_reach s \<and> \<not> ts_listening s \<and> drainBegin grace (ts_proxy s) = Inl True \<and>
     tcpRun s [TStarted, TSelect 2 0, TDial 3 0 True] = Some s1 \<and> ts_conns s1 = [Piping ''a'' False False]"
proof -
  fix rng :: "nat stream"
  obtain s where s: "tcpRun (demo_tcp rng) [TAccept ''10.0.0.1:4711'', TCloseListener] = Some s" by (simp add: demo_tcp_def)
  then have "tcp_reach s" by (rule tcpRun_reach [OF demo_tcp_reach])
  moreover have "\<not> ts_listening s" "drainBegin grace (ts_proxy s) = Inl True"
    using s by (auto simp: demo_tcp_def NewTCPProxy_def drainBegin_def)
  moreover have "fst (bl_NextForKey 2 key (demo_list [] rng)) = Some ''a''" for key by (rule demo_first)
  then have "\<exists>s1. tcpRun s [TStarted, TSelect 2 0, TDial 3 0 True] = Some s1 \<and> ts_conns s1 = [Piping ''a'' False False]"
    using s by (auto simp: demo_tcp_def NewTCPProxy_def connStarted_def hcSelect_simps)
  ultimately show ?thesis by blast
qed

end
