(* ===== verification/Tracing.thy ===== *)
theory Tracing
  imports Config
begin

text \<open>
  The set-up of the tracer (\<open>internal/tracing/tracing.go\<close>): the exporter for the protocol that is named, the
  resource, the sampling ratio. The OpenTelemetry SDK is a parameter. The spans themselves are left out.
\<close>

record tracingConfig =
  tg_Enabled :: bool
  tg_Endpoint :: string
  tg_Protocol :: string
  tg_Insecure :: bool
  tg_ServiceName :: string
  tg_SampleRatio :: gofloat

datatype otlpTransport = OtlpGRPC | OtlpHTTP

datatype otlpOption = WithEndpoint string | WithInsecure

text \<open>The SDK: an exporter, a resource, and the decision of \<open>TraceIDRatioBased\<close> on a trace id.\<close>

record ('e, 's) otlpLib =
  ol_New :: "otlpTransport \<Rightarrow> otlpOption list \<Rightarrow> 'e option"
  ol_resource :: "string \<Rightarrow> 's option"
  ol_ratioBased :: "gofloat \<Rightarrow> int \<Rightarrow> bool"

datatype tracingError = UnknownProtocol string | ExporterFailed | ResourceFailed

record ('e, 's) tracerProvider =
  tr_exporter :: 'e
  tr_resource :: 's
  tr_ratio :: gofloat

definition newExporter :: "('e, 's) otlpLib \<Rightarrow> tracingConfig \<Rightarrow> tracingError + 'e" where
  "newExporter lib cfg =
     (let opts = (if tg_Endpoint cfg \<noteq> [] then [WithEndpoint (tg_Endpoint cfg)] else []) @ (if tg_Insecure cfg then [WithInsecure] else []);
          made = (\<lambda>t. case ol_New lib t opts of None \<Rightarrow> Inl ExporterFailed | Some e \<Rightarrow> Inr e)
      in if tg_Protocol cfg = [] \<or> tg_Protocol cfg = ''grpc'' then made OtlpGRPC
         else if tg_Protocol cfg = ''http'' then made OtlpHTTP
         else Inl (UnknownProtocol (tg_Protocol cfg)))"

definition serviceName :: "string \<Rightarrow> string" where
  "serviceName n = (if n = [] then ''jbalance-dataplane'' else n)"

fun float_le_0 :: "gofloat \<Rightarrow> bool" where
  "float_le_0 (Fin x) = (x \<le> 0)"
| "float_le_0 f = (f = NegInf)"

text \<open>The provider that \<open>Setup\<close> installs; \<open>None\<close> when the no-op provider stays.\<close>

definition tracing_Setup :: "('e, 's) otlpLib \<Rightarrow> tracingConfig \<Rightarrow> tracingError + ('e, 's) tracerProvider option" where
  "tracing_Setup lib cfg =
     (if \<not> tg_Enabled cfg then Inr None
      else (case newExporter lib cfg of
              Inl e \<Rightarrow> Inl e
            | Inr exporter \<Rightarrow>
               (case ol_resource lib (serviceName (tg_ServiceName cfg)) of
                  None \<Rightarrow> Inl ResourceFailed
                | Some res \<Rightarrow>
                    Inr (Some \<lparr>tr_exporter = exporter, tr_resource = res,
                      tr_ratio = (if float_le_0 (tg_SampleRatio cfg) then Fin 1 else tg_SampleRatio cfg)\<rparr>))))"

text \<open>The decision for a request: that of the caller's span when it has one.\<close>

definition sampled :: "('e, 's) otlpLib \<Rightarrow> ('e, 's) tracerProvider option \<Rightarrow> bool option \<Rightarrow> int \<Rightarrow> bool" where
  "sampled lib tp parent traceID =
     (case tp of None \<Rightarrow> False
      | Some p \<Rightarrow> (case parent of Some d \<Rightarrow> d | None \<Rightarrow> ol_ratioBased lib (tr_ratio p) traceID))"

section \<open>A tracer that is set up\<close>

text \<open>What is left to fail once the protocol is known: the SDK.\<close>

definition sdk_ok :: "('e, 's) otlpLib \<Rightarrow> bool" where
  "sdk_ok lib \<longleftrightarrow> (\<forall>t opts. ol_New lib t opts \<noteq> None) \<and> (\<forall>n. ol_resource lib n \<noteq> None)"

lemma tracing_Setup_ok:
  assumes "tg_Enabled cfg \<Longrightarrow> sdk_ok lib \<and> tg_Protocol cfg \<in> {''grpc'', ''http''}"
  shows "\<exists>tp. tracing_Setup lib cfg = Inr tp \<and> (tp = None \<longleftrightarrow> \<not> tg_Enabled cfg)"
proof (cases "tg_Enabled cfg")
  case True
  let ?t = "if tg_Protocol cfg = ''http'' then OtlpHTTP else OtlpGRPC"
  let ?o = "(if tg_Endpoint cfg \<noteq> [] then [WithEndpoint (tg_Endpoint cfg)] else []) @ (if tg_Insecure cfg then [WithInsecure] else [])"
  obtain e s where "ol_New lib ?t ?o = Some e" "ol_resource lib (serviceName (tg_ServiceName cfg)) = Some s"
    using assms [OF True] unfolding sdk_ok_def by blast
  then show ?thesis using assms [OF True] True by (auto simp: tracing_Setup_def newExporter_def Let_def)
qed (simp add: tracing_Setup_def)

end
