(* ===== verification/Startup.thy ===== *)
theory Startup
  imports Middleware Config GrpcAuth TcpProxy Tracing
begin

text \<open>
  How the data plane's command puts the parts together (\<open>cmd/dataplane/main.go\<close>, with \<open>internal/envflag\<close> and the
  level of \<open>internal/logging\<close>): settings from the environment, validation, TLS material, the objects that are
  built, the handlers for probes, and what ends a TCP data plane.

  A start either fails with a reason or yields the instance. A goroutine that panics ends the process, so
  \<open>time.NewTicker\<close> with an interval that is not positive is one of the failures. Whether an address can be bound
  and the tracing SDK are arguments; of the listeners for metrics and probes only the address is kept, since
  they do not stop the start when they fail. Signals are left out, the logger is in \<open>Wiring\<close>; the files do not
  change during a start.
\<close>

section \<open>Settings from the environment\<close>

type_synonym environment = "string \<Rightarrow> string"

definition ef_String :: "environment \<Rightarrow> string \<Rightarrow> string \<Rightarrow> string" where
  "ef_String env key fallback = (let v = env key in if v \<noteq> [] then v else fallback)"

definition ParseBool :: "string \<Rightarrow> bool option" where
  "ParseBool s =
     (if s \<in> set [''1'', ''t'', ''T'', ''TRUE'', ''true'', ''True''] then Some True
      else if s \<in> set [''0'', ''f'', ''F'', ''FALSE'', ''false'', ''False''] then Some False
      else None)"

definition ef_Bool :: "environment \<Rightarrow> string \<Rightarrow> bool \<Rightarrow> bool" where
  "ef_Bool env key fallback =
     (let v = env key
      in if v = [] then fallback else case ParseBool v of None \<Rightarrow> fallback | Some b \<Rightarrow> b)"

definition ef_Int :: "environment \<Rightarrow> string \<Rightarrow> int \<Rightarrow> int" where
  "ef_Int env key fallback =
     (let v = env key
      in if v = [] then fallback else case ParseInt64 v of None \<Rightarrow> fallback | Some n \<Rightarrow> n)"

definition ef_Int64 :: "environment \<Rightarrow> string \<Rightarrow> int \<Rightarrow> int" where
  "ef_Int64 env key fallback =
     (let v = env key
      in if v = [] then fallback else case ParseInt64 v of None \<Rightarrow> fallback | Some n \<Rightarrow> n)"

datatype logLevel = LevelDebug | LevelInfo | LevelWarn | LevelError

definition ParseLevel :: "string \<Rightarrow> logLevel \<times> bool" where
  "ParseLevel s =
     (let l = map to_lower (TrimSpace s)
      in if l \<in> set [[], ''info''] then (LevelInfo, True)
         else if l = ''debug'' then (LevelDebug, True)
         else if l \<in> set [''warn'', ''warning''] then (LevelWarn, True)
         else if l = ''error'' then (LevelError, True)
         else (LevelInfo, False))"

section \<open>The data plane\<close>

record dpFlags = DataPlaneConfig +
  fl_InstanceID :: string
  fl_HealthCheckPath :: string
  fl_HealthCheckHost :: string
  fl_HealthReportInterval :: duration
  fl_MetricsReportInterval :: duration
  fl_CPAuthToken :: string
  fl_TracingEndpoint :: string
  fl_TracingInsecure :: bool
  fl_TracingServiceName :: string

datatype dpFailure =
    ConfigInvalid "problem list"
  | TracingFailed tracingError
  | ClientTLSFailed certError
  | UnknownSetting string
  | CertsFailed certError
  | ServerTLSFailed certError
  | TickerPanic string
  | ListenFailed string

datatype 'l listener =
    HTTPListener "'l Proxy" chainConfig
  | TCPListener "'l TCPProxy"

record trafficServer =
  hv_Addr :: string
  hv_ReadHeaderTimeout :: duration
  hv_MaxHeaderBytes :: int
  hv_UnencryptedHTTP2 :: bool

record ('c, 'p, 'e, 's, 'l) dpInstance =
  di_id :: string
  di_tracer :: "('e, 's) tracerProvider option"
  di_controlPlane :: string
  di_dial :: "('c, 'p) tlsConfig dialOption"
  di_reloader :: "'c CertReloader option"
  di_reloadInterval :: duration
  di_serverTLS :: "('c, 'p) tlsConfig option"
  di_groups :: "'l GroupManager"
  di_healthReport :: duration
  di_metrics :: "Metrics option"
  di_metricsPush :: "(string \<times> duration) option"
  di_ops :: "string option"
  di_listener :: "'l listener"
  di_server :: "trafficServer option"
  di_grace :: duration

definition instanceID :: "string option \<Rightarrow> string \<Rightarrow> string" where
  "instanceID hostname flag =
     (if flag = [] then (case hostname of None \<Rightarrow> ''dataplane'' | Some h \<Rightarrow> h) else flag)"

definition clientTLS :: "('c, 'p) world \<Rightarrow> 'x DataPlaneConfig_scheme \<Rightarrow> certError + ('c, 'p) tlsConfig option" where
  "clientTLS wd f =
     (if dc_CPTLSEnable f then
        (case LoadClientConfig (wd_lib wd) (wd_fs wd) (dc_CPTLSClientCert f) (dc_CPTLSClientKey f) (dc_CPTLSCACert f) of
           Inl e \<Rightarrow> Inl e | Inr cfg \<Rightarrow> Inr (Some cfg))
      else Inr None)"

definition certReloader :: "('c, 'p) world \<Rightarrow> 'x DataPlaneConfig_scheme \<Rightarrow> certError + 'c CertReloader option" where
  "certReloader wd f =
     (case ParseCertPairs (dc_HTTPTLSCerts f) of
        Inl e \<Rightarrow> Inl e
      | Inr extra \<Rightarrow>
          (let pairs = httpPairs (dc_HTTPTLSCert f) (dc_HTTPTLSKey f) extra
           in if length pairs > 0 then
                (case NewCertReloader (wd_lib wd) (\<lambda>_. wd_fs wd) pairs of Inl e \<Rightarrow> Inl e | Inr r \<Rightarrow> Inr (Some r))
              else Inr None))"

definition healthConfig :: "dpFlags \<Rightarrow> HealthCheckConfig" where
  "healthConfig f =
     \<lparr>hcc_Interval = dc_HealthCheckInterval f, hcc_Timeout = dc_HealthCheckTimeout f,
      hcc_FailureThreshold = dc_UnhealthyThreshold f, hcc_SuccessThreshold = dc_HealthyThreshold f,
      hcc_Mode = dc_HealthCheckMode f, hcc_HTTPPath = fl_HealthCheckPath f,
      hcc_HTTPExpectStatus = dc_HealthCheckExpectStatus f, hcc_HTTPScheme = dc_HealthCheckScheme f,
      hcc_HTTPHost = fl_HealthCheckHost f\<rparr>"

definition outlierConfig :: "'x DataPlaneConfig_scheme \<Rightarrow> OutlierConfig" where
  "outlierConfig f =
     \<lparr>oc_Enabled = dc_OutlierDetection f, oc_ConsecutiveErrors = dc_OutlierConsecutiveError f,
      oc_BaseEjectDuration = dc_OutlierEjectDuration f, oc_MaxEjectDuration = dc_OutlierMaxEjectDuration f,
      oc_MaxEjectPercent = dc_OutlierMaxEjectPercent f\<rparr>"

definition proxyConfig :: "'x DataPlaneConfig_scheme \<Rightarrow> ProxyConfig" where
  "proxyConfig f =
     \<lparr>pc_ConnectTimeout = dc_ProxyConnectTimeout f, pc_ResponseTimeout = dc_ProxyResponseTimeout f,
      pc_MaxRetries = dc_ProxyMaxRetries f, pc_RetryBackoff = dc_ProxyRetryBackoff f,
      pc_BackendProtocol = dc_BackendProtocol f\<rparr>"

definition tracingFlags :: "dpFlags \<Rightarrow> tracingConfig" where
  "tracingFlags f =
     \<lparr>tg_Enabled = dc_TracingEnabled f, tg_Endpoint = fl_TracingEndpoint f, tg_Protocol = dc_TracingProtocol f,
      tg_Insecure = fl_TracingInsecure f, tg_ServiceName = fl_TracingServiceName f, tg_SampleRatio = dc_TracingSampleRatio f\<rparr>"

definition dp_server :: "'x DataPlaneConfig_scheme \<Rightarrow> trafficServer" where
  "dp_server f =
     \<lparr>hv_Addr = dc_ListenAddr f, hv_ReadHeaderTimeout = dc_ReadHeaderTimeout f, hv_MaxHeaderBytes = dc_MaxHeaderBytes f,
      hv_UnencryptedHTTP2 = (dc_BackendProtocol f = ''h2c'')\<rparr>"

definition chainOf :: "'x DataPlaneConfig_scheme \<Rightarrow> chainConfig" where
  "chainOf f =
     \<lparr>cc_group = dc_Group f, cc_maxConns = dc_MaxConns f, cc_maxBodyBytes = dc_MaxBodyBytes f,
      cc_accessLog = \<lparr>alc_Enabled = dc_AccessLog f, alc_Format = dc_AccessLogFormat f\<rparr>\<rparr>"

definition dp_groups :: "nat stream \<Rightarrow> gotime \<Rightarrow> dpFlags \<Rightarrow> 'l BackendList \<times> 'l GroupManager" where
  "dp_groups rng now f =
     gm_Ensure rng now (dc_Group f) (gm_SetOutlierConfig (outlierConfig f) (NewGroupManager (healthConfig f)))"

definition dp_listener :: "nat stream \<Rightarrow> dpFlags \<Rightarrow> 'l BackendList \<Rightarrow> 'l GroupManager \<Rightarrow> Metrics option \<Rightarrow> 'l listener" where
  "dp_listener rng f b groups metrics =
     (if dc_Protocol f = ''tcp''
      then TCPListener ((NewTCPProxy (dc_Group f) b metrics)\<lparr>tp_DialTimeout := dc_TCPDialTimeout f\<rparr>)
      else HTTPListener (NewProxy (NewRouteTable rng (dc_Group f)) groups metrics (proxyConfig f)) (chainOf f))"

text \<open>
  \<open>main\<close> from the validation to the point where it serves. Of the goroutines it starts, only what ends the
  process is here; reloads of the certificates are in \<open>Certs\<close>.
\<close>

definition dp_instance ::
    "string option \<Rightarrow> dpFlags \<Rightarrow> ('e, 's) tracerProvider option \<Rightarrow> ('c, 'p) tlsConfig option \<Rightarrow> 'c CertReloader option
       \<Rightarrow> ('c, 'p) tlsConfig option \<Rightarrow> 'l GroupManager \<Rightarrow> Metrics option \<Rightarrow> 'l listener \<Rightarrow> ('c, 'p, 'e, 's, 'l) dpInstance" where
  "dp_instance hostname f tracer cpTLS reloader serverTLS groups metrics l =
     \<lparr>di_id = instanceID hostname (fl_InstanceID f), di_tracer = tracer, di_controlPlane = dc_ControlPlaneAddr f,
      di_dial = dialOptions cpTLS (fl_CPAuthToken f), di_reloader = reloader, di_reloadInterval = dc_HTTPTLSReloadInterval f,
      di_serverTLS = serverTLS, di_groups = groups, di_healthReport = fl_HealthReportInterval f, di_metrics = metrics,
      di_metricsPush = (case metrics of None \<Rightarrow> None | Some _ \<Rightarrow> Some (dc_MetricsAddr f, fl_MetricsReportInterval f)),
      di_ops = (if dc_OpsAddr f = [] then None else Some (dc_OpsAddr f)), di_listener = l,
      di_server = (if dc_Protocol f = ''tcp'' then None else Some (dp_server f)), di_grace = dc_ShutdownGrace f\<rparr>"

definition dp_main ::
    "('c, 'p) world \<Rightarrow> ('e, 's) otlpLib \<Rightarrow> (string \<Rightarrow> bool) \<Rightarrow> string option \<Rightarrow> nat stream \<Rightarrow> nat stream \<Rightarrow> gotime \<Rightarrow> dpFlags
       \<Rightarrow> dpFailure + ('c, 'p, 'e, 's, 'l) dpInstance" where
  "dp_main wd otlp canListen hostname rng1 rng2 now f =
     (case ValidateDataPlane wd f of
        Some problems \<Rightarrow> Inl (ConfigInvalid problems)
      | None \<Rightarrow>
     (case tracing_Setup otlp (tracingFlags f) of
        Inl e \<Rightarrow> Inl (TracingFailed e)
      | Inr tracer \<Rightarrow>
     (case clientTLS wd f of
        Inl e \<Rightarrow> Inl (ClientTLSFailed e)
      | Inr cpTLS \<Rightarrow>
        if dc_Protocol f \<noteq> ''http'' \<and> dc_Protocol f \<noteq> ''tcp'' then Inl (UnknownSetting ''-protocol'')
        else if dc_HealthCheckMode f \<noteq> ''tcp'' \<and> dc_HealthCheckMode f \<noteq> ''http'' then Inl (UnknownSetting ''-health-check-mode'')
        else if dc_BackendProtocol f \<noteq> ''http1'' \<and> dc_BackendProtocol f \<noteq> ''h2c'' then Inl (UnknownSetting ''-backend-protocol'')
        else
     (case certReloader wd f of
        Inl e \<Rightarrow> Inl (CertsFailed e)
      | Inr reloader \<Rightarrow>
        (let (b, groups) = dp_groups rng1 now f;
             metricsOn = dc_MetricsEnabled f \<and> \<not> dc_MetricsDisable f;
             metrics = (if metricsOn then Some NewMetrics else None)
         in if fl_HealthReportInterval f \<le> 0 then Inl (TickerPanic ''-health-report-interval'')
            else if metricsOn \<and> fl_MetricsReportInterval f \<le> 0 then Inl (TickerPanic ''-metrics-report-interval'')
            else
              (case (case reloader of None \<Rightarrow> Inr None
                     | Some r \<Rightarrow> (case TLSConfig (wd_lib wd) (wd_fs wd) (dc_HTTPTLSClientCA f) of
                                   Inl e \<Rightarrow> Inl e | Inr cfg \<Rightarrow> Inr (Some cfg))) of
                 Inl e \<Rightarrow> Inl (ServerTLSFailed e)
               | Inr serverTLS \<Rightarrow>
                   if \<not> canListen (dc_ListenAddr f) then Inl (ListenFailed (dc_ListenAddr f))
                   else Inr (dp_instance hostname f tracer cpTLS reloader serverTLS groups metrics
                          (dp_listener rng2 f b groups metrics))))))))"

section \<open>What validation guarantees\<close>

lemma dp_accepted_all:
  assumes "ValidateDataPlane wd f = None"
  shows "dc_Protocol f \<in> {''http'', ''tcp''} \<and>
    dc_HealthCheckMode f \<in> {''tcp'', ''http''} \<and>
    dc_BackendProtocol f \<in> {''http1'', ''h2c''} \<and>
    dc_LogLevel f \<in> {''debug'', ''info'', ''warn'', ''error''} \<and>
    0 < dc_HealthCheckInterval f \<and>
    0 < dc_HealthCheckTimeout f \<and>
    0 < dc_UnhealthyThreshold f \<and>
    0 < dc_HealthyThreshold f \<and>
    0 < dc_ProxyConnectTimeout f \<and>
    0 \<le> dc_ProxyResponseTimeout f \<and>
    0 \<le> dc_ProxyMaxRetries f \<and>
    0 \<le> dc_ProxyRetryBackoff f \<and>
    0 < dc_TCPDialTimeout f \<and>
    checkOutlier f = [] \<and>
    checkClientTLS wd f = [] \<and>
    checkHTTPCerts wd f = [] \<and>
    (dc_TracingEnabled f \<longrightarrow> dc_TracingProtocol f \<in> {''grpc'', ''http''})"
  using assms by (simp add: ValidateDataPlane_def problems_err_def check_iffs split: if_splits)

lemma dp_accepted:
  assumes "ValidateDataPlane wd f = None"
  shows "dc_Protocol f \<in> {''http'', ''tcp''}" "dc_HealthCheckMode f \<in> {''tcp'', ''http''}"
    "dc_BackendProtocol f \<in> {''http1'', ''h2c''}" "dc_LogLevel f \<in> {''debug'', ''info'', ''warn'', ''error''}"
    "0 < dc_HealthCheckInterval f" "0 < dc_HealthCheckTimeout f" "0 < dc_UnhealthyThreshold f" "0 < dc_HealthyThreshold f"
    "0 < dc_ProxyConnectTimeout f" "0 \<le> dc_ProxyResponseTimeout f" "0 \<le> dc_ProxyMaxRetries f"
    "0 \<le> dc_ProxyRetryBackoff f" "0 < dc_TCPDialTimeout f"
    "checkOutlier f = []" "checkClientTLS wd f = []" "checkHTTPCerts wd f = []"
    "dc_TracingEnabled f \<longrightarrow> dc_TracingProtocol f \<in> {''grpc'', ''http''}"
  by (insert dp_accepted_all [OF assms]) (elim conjE, assumption)+

lemma outlier_accepted:
  "checkOutlier f = [] \<Longrightarrow> dc_OutlierDetection f \<Longrightarrow>
     0 < dc_OutlierConsecutiveError f \<and> 0 < dc_OutlierEjectDuration f \<and>
     dc_OutlierEjectDuration f \<le> dc_OutlierMaxEjectDuration f \<and>
     0 \<le> dc_OutlierMaxEjectPercent f \<and> dc_OutlierMaxEjectPercent f \<le> 100"
  by (auto simp: checkOutlier_def check_iffs)

definition ca_readable :: "('c, 'p) world \<Rightarrow> string \<Rightarrow> bool" where
  "ca_readable wd ca \<longleftrightarrow> ca = [] \<or> (case loadCertPool (wd_lib wd) (wd_fs wd) ca of Inl _ \<Rightarrow> False | Inr _ \<Rightarrow> True)"

lemma clientTLS_accepted:
  assumes "checkClientTLS wd f = []" "ca_readable wd (dc_CPTLSCACert f)"
  shows "\<exists>cfg. clientTLS wd f = Inr cfg \<and> (cfg = None \<longleftrightarrow> \<not> dc_CPTLSEnable f)"
proof (cases "dc_CPTLSClientCert f = [] \<or> dc_CPTLSClientKey f = []")
  case True
  then show ?thesis using assms
    by (auto simp: clientTLS_def LoadClientConfig_def ca_readable_def Let_def split: sum.splits)
next
  case False
  then show ?thesis using assms
    by (auto simp: clientTLS_def checkClientTLS_def split: sum.splits if_splits)
qed

lemma certReloader_accepted:
  assumes "checkHTTPCerts wd f = []"
  shows "\<exists>r. certReloader wd f = Inr r \<and> (dc_HTTPTLSClientCA f \<noteq> [] \<longrightarrow> r \<noteq> None)"
  using assms by (auto simp: certReloader_def checkHTTPCerts_def check_iffs Let_def split: sum.splits if_splits)

lemma serverTLS_accepted:
  assumes "ca_readable wd ca"
  shows "\<exists>cfg. TLSConfig (wd_lib wd) (wd_fs wd) ca = Inr cfg \<and> (ca \<noteq> [] \<longrightarrow> tc_RequireClientCert cfg)"
  using assms by (cases "ca = []") (auto simp: TLSConfig_def requireClients_def ca_readable_def split: sum.splits)

text \<open>What a listener does with its settings.\<close>

definition serves :: "dpFlags \<Rightarrow> 'l listener \<Rightarrow> bool" where
  "serves f l \<longleftrightarrow>
     (case l of
        TCPListener tp \<Rightarrow> dc_Protocol f = ''tcp'' \<and> tp_group tp = dc_Group f \<and> dialTimeout tp = dc_TCPDialTimeout f
      | HTTPListener px cc \<Rightarrow> dc_Protocol f = ''http'' \<and> rt_defaultGroup (px_routes px) = dc_Group f \<and>
          cc_group cc = dc_Group f \<and> cc_maxConns cc = dc_MaxConns f \<and> cc_maxBodyBytes cc = dc_MaxBodyBytes f \<and>
          alc_Enabled (cc_accessLog cc) = dc_AccessLog f \<and> alc_Format (cc_accessLog cc) = dc_AccessLogFormat f \<and>
          pc_MaxRetries (px_cfg px) = dc_ProxyMaxRetries f \<and>
          pc_RetryBackoff (px_cfg px) = (if dc_ProxyRetryBackoff f = 0 then 50 * millisecond else dc_ProxyRetryBackoff f) \<and>
          dialLimit (px_transport px) = dc_ProxyConnectTimeout f \<and>
          responseLimit (px_transport px) =
            (if dc_BackendProtocol f = ''h2c'' then None
             else Some (if dc_ProxyResponseTimeout f = 0 then 30 * second else dc_ProxyResponseTimeout f)))"

lemma listener_serves:
  assumes "ValidateDataPlane wd f = None"
  shows "serves f (dp_listener rng f b groups m)"
  using dp_accepted [OF assms]
  by (auto simp: serves_def dp_listener_def NewProxy_def NewTCPProxy_def NewRouteTable_def chainOf_def proxy_withDefaults_def
      proxyConfig_def dialTimeout_def newTransport_def Let_def)

text \<open>What a running instance does with its settings.\<close>

definition in_force :: "dpFlags \<Rightarrow> string option \<Rightarrow> ('c, 'p, 'e, 's, 'l) dpInstance \<Rightarrow> bool" where
  "in_force f hostname inst \<longleftrightarrow>
     serves f (di_listener inst) \<and>
     (dc_Protocol f = ''http'' \<longrightarrow> di_server inst = Some
        \<lparr>hv_Addr = dc_ListenAddr f, hv_ReadHeaderTimeout = dc_ReadHeaderTimeout f, hv_MaxHeaderBytes = dc_MaxHeaderBytes f,
         hv_UnencryptedHTTP2 = (dc_BackendProtocol f = ''h2c'')\<rparr>) \<and>
     (\<exists>b. map_of (gm_groups (di_groups inst)) (dc_Group f) = Some b \<and>
        (dc_OutlierDetection f \<longrightarrow> bl_outlier b =
          \<lparr>oc_Enabled = True, oc_ConsecutiveErrors = dc_OutlierConsecutiveError f,
           oc_BaseEjectDuration = dc_OutlierEjectDuration f, oc_MaxEjectDuration = dc_OutlierMaxEjectDuration f,
           oc_MaxEjectPercent = if dc_OutlierMaxEjectPercent f = 0 then 50 else dc_OutlierMaxEjectPercent f\<rparr>)) \<and>
     gm_started (di_groups inst) = [(dc_Group f,
       \<lparr>hc_Interval = dc_HealthCheckInterval f, hc_Timeout = dc_HealthCheckTimeout f,
        hc_FailureThreshold = dc_UnhealthyThreshold f, hc_SuccessThreshold = dc_HealthyThreshold f,
        hc_Mode = dc_HealthCheckMode f, hc_HTTPPath = fl_HealthCheckPath f, hc_HTTPExpectStatus = dc_HealthCheckExpectStatus f,
        hc_HTTPScheme = dc_HealthCheckScheme f, hc_HTTPHost = fl_HealthCheckHost f, hc_streak = Map.empty\<rparr>)] \<and>
     di_id inst = (if fl_InstanceID f \<noteq> [] then fl_InstanceID f else case hostname of None \<Rightarrow> ''dataplane'' | Some h \<Rightarrow> h) \<and>
     di_controlPlane inst = dc_ControlPlaneAddr f \<and>
     (do_transport (di_dial inst) = Insecure \<longleftrightarrow> \<not> dc_CPTLSEnable f) \<and>
     do_perRPC (di_dial inst) = (if fl_CPAuthToken f = [] then None else Some \<lparr>tc_token = fl_CPAuthToken f\<rparr>) \<and>
     (dc_HTTPTLSClientCA f \<noteq> [] \<longrightarrow> (\<exists>cfg. di_serverTLS inst = Some cfg \<and> tc_RequireClientCert cfg)) \<and>
     (di_serverTLS inst = None \<longleftrightarrow> di_reloader inst = None) \<and> di_reloadInterval inst = dc_HTTPTLSReloadInterval f \<and>
     (di_tracer inst = None \<longleftrightarrow> \<not> dc_TracingEnabled f) \<and>
     (di_metrics inst = None \<longleftrightarrow> \<not> dc_MetricsEnabled f \<or> dc_MetricsDisable f) \<and>
     di_metricsPush inst = (if dc_MetricsEnabled f \<and> \<not> dc_MetricsDisable f then Some (dc_MetricsAddr f, fl_MetricsReportInterval f) else None) \<and>
     di_healthReport inst = fl_HealthReportInterval f \<and> di_ops inst = (if dc_OpsAddr f = [] then None else Some (dc_OpsAddr f)) \<and>
     di_grace inst = dc_ShutdownGrace f"

lemma groups_in_force:
  assumes "ValidateDataPlane wd f = None" "dp_groups rng now f = (b, groups)"
  shows "gm_started groups = [(dc_Group f, checkerFor (healthConfig f))]" "map_of (gm_groups groups) (dc_Group f) = Some b"
    "dc_OutlierDetection f \<Longrightarrow> bl_outlier b =
       (outlierConfig f)\<lparr>oc_MaxEjectPercent := if dc_OutlierMaxEjectPercent f = 0 then 50 else dc_OutlierMaxEjectPercent f\<rparr>"
proof -
  show "gm_started groups = [(dc_Group f, checkerFor (healthConfig f))]" "map_of (gm_groups groups) (dc_Group f) = Some b"
    using assms(2) by (auto simp: dp_groups_def gm_Ensure_def gm_SetOutlierConfig_def NewGroupManager_def Let_def)
  assume on: "dc_OutlierDetection f"
  have "b = bl_SetOutlierConfig (outlierConfig f) (NewBackendList rng now)"
    using assms(2) by (auto simp: dp_groups_def gm_Ensure_def gm_SetOutlierConfig_def NewGroupManager_def Let_def)
  then show "bl_outlier b =
      (outlierConfig f)\<lparr>oc_MaxEjectPercent := if dc_OutlierMaxEjectPercent f = 0 then 50 else dc_OutlierMaxEjectPercent f\<rparr>"
    using outlier_accepted [OF dp_accepted(14) [OF assms(1)] on] on
    by (auto simp: bl_SetOutlierConfig_def outlier_withDefaults_def outlierConfig_def Let_def)
qed

text \<open>What a start with an accepted configuration gives.\<close>

lemma dp_main_accepted:
  assumes "ValidateDataPlane wd f = None"
    and "ca_readable wd (dc_CPTLSCACert f)" "ca_readable wd (dc_HTTPTLSClientCA f)"
    and "0 < fl_HealthReportInterval f" "0 < fl_MetricsReportInterval f"
    and "dc_TracingEnabled f \<Longrightarrow> sdk_ok otlp" "canListen (dc_ListenAddr f)"
  obtains b groups tracer tls m cpTLS r where "dp_groups rng1 now f = (b, groups)"
    and "tracer = None \<longleftrightarrow> \<not> dc_TracingEnabled f" "cpTLS = None \<longleftrightarrow> \<not> dc_CPTLSEnable f"
    and "dc_HTTPTLSClientCA f \<noteq> [] \<longrightarrow> (\<exists>cfg. tls = Some cfg \<and> tc_RequireClientCert cfg)"
    and "m = (if dc_MetricsEnabled f \<and> \<not> dc_MetricsDisable f then Some NewMetrics else None)"
    and "certReloader wd f = Inr r" "tls = None \<longleftrightarrow> r = None"
    and "dp_main wd otlp canListen hostname rng1 rng2 now f =
      Inr (dp_instance hostname f tracer cpTLS r tls groups m (dp_listener rng2 f b groups m))"
proof -
  note ok = dp_accepted [OF assms(1)]
  have "\<exists>tp. tracing_Setup otlp (tracingFlags f) = Inr tp \<and> (tp = None \<longleftrightarrow> \<not> tg_Enabled (tracingFlags f))"
    by (rule tracing_Setup_ok) (use assms(6) ok(17) in \<open>simp add: tracingFlags_def\<close>)
  then obtain tracer where tr: "tracing_Setup otlp (tracingFlags f) = Inr tracer" "tracer = None \<longleftrightarrow> \<not> dc_TracingEnabled f"
    by (auto simp: tracingFlags_def)
  obtain cpTLS where c: "clientTLS wd f = Inr cpTLS" "cpTLS = None \<longleftrightarrow> \<not> dc_CPTLSEnable f"
    using clientTLS_accepted [OF ok(15) assms(2)] by blast
  obtain r where r: "certReloader wd f = Inr r" "dc_HTTPTLSClientCA f \<noteq> [] \<Longrightarrow> r \<noteq> None"
    using certReloader_accepted [OF ok(16)] by blast
  obtain cfg where t: "TLSConfig (wd_lib wd) (wd_fs wd) (dc_HTTPTLSClientCA f) = Inr cfg"
    "dc_HTTPTLSClientCA f \<noteq> [] \<Longrightarrow> tc_RequireClientCert cfg" using serverTLS_accepted [OF assms(3)] by blast
  obtain b :: "'e BackendList" and groups where g: "dp_groups rng1 now f = (b, groups)" by fastforce
  define m where "m = (if dc_MetricsEnabled f \<and> \<not> dc_MetricsDisable f then Some NewMetrics else None)"
  define tls where "tls = (case r of None \<Rightarrow> None | Some _ \<Rightarrow> Some cfg)"
  have "dp_main wd otlp canListen hostname rng1 rng2 now f =
      Inr (dp_instance hostname f tracer cpTLS r tls groups m (dp_listener rng2 f b groups m))"
    using assms(1,4,5,7) tr(1) c(1) r(1) t(1) g ok(1,2,3)
    by (auto simp: dp_main_def m_def tls_def Let_def split: option.splits)
  moreover have "\<exists>cfg. tls = Some cfg \<and> tc_RequireClientCert cfg" if "dc_HTTPTLSClientCA f \<noteq> []"
    using r(2) [OF that] t(2) [OF that] by (auto simp: tls_def)
  moreover have "tls = None \<longleftrightarrow> r = None" by (simp add: tls_def split: option.split)
  ultimately show ?thesis using that g m_def r(1) tr(2) c(2) by blast
qed


definition demo_dp_world :: "(string, unit) world" where
  "demo_dp_world = \<lparr>wd_isDir = \<lambda>_. Some False, wd_fs = \<lambda>_. Some (1, ''pem''), wd_lib = demo_tls, wd_services = \<lambda>_. None\<rparr>"

definition demo_flags :: dpFlags where
  "demo_flags = \<lparr>dc_Protocol = ''http'', dc_ListenAddr = '':8080'', dc_ControlPlaneAddr = ''cp:9090'', dc_Group = ''web'',
     dc_MetricsAddr = '':9100'', dc_MetricsEnabled = True, dc_MetricsDisable = False, dc_OpsAddr = [],
     dc_HealthCheckMode = ''tcp'', dc_HealthCheckScheme = ''http'', dc_HealthCheckInterval = 5, dc_HealthCheckTimeout = 2,
     dc_HealthCheckExpectStatus = 0, dc_UnhealthyThreshold = 3, dc_HealthyThreshold = 2, dc_BackendProtocol = ''http1'',
     dc_AccessLog = False, dc_AccessLogFormat = ''json'', dc_TracingEnabled = False, dc_TracingProtocol = ''grpc'',
     dc_TracingSampleRatio = Fin 1, dc_ProxyConnectTimeout = 5, dc_ProxyResponseTimeout = 0, dc_ProxyMaxRetries = 1,
     dc_ProxyRetryBackoff = 5, dc_TCPDialTimeout = 5, dc_ShutdownGrace = 5, dc_MaxConns = 0, dc_MaxHeaderBytes = 4096,
     dc_MaxBodyBytes = 0, dc_ReadHeaderTimeout = 10, dc_OutlierDetection = True, dc_OutlierConsecutiveError = 5,
     dc_OutlierEjectDuration = 30, dc_OutlierMaxEjectDuration = 300, dc_OutlierMaxEjectPercent = 50,
     dc_CPTLSEnable = False, dc_CPTLSCACert = [], dc_CPTLSClientCert = [], dc_CPTLSClientKey = [],
     dc_HTTPTLSCert = ''c'', dc_HTTPTLSKey = ''k'', dc_HTTPTLSCerts = [], dc_HTTPTLSClientCA = ''ca'',
     dc_HTTPTLSReloadInterval = 0, dc_LogLevel = ''info'', dc_LogFormat = ''text'',
     fl_InstanceID = [], fl_HealthCheckPath = ''/'', fl_HealthCheckHost = [], fl_HealthReportInterval = 10,
     fl_MetricsReportInterval = 10, fl_CPAuthToken = [],
     fl_TracingEndpoint = [], fl_TracingInsecure = False, fl_TracingServiceName = []\<rparr>"

lemma demo_accepted: "ValidateDataPlane demo_dp_world demo_flags = None"
  by code_simp

definition demo_otlp :: "(otlpTransport, string) otlpLib" where
  "demo_otlp = \<lparr>ol_New = \<lambda>t opts. Some t, ol_resource = Some, ol_ratioBased = \<lambda>q t. q = Fin 1\<rparr>"

type_synonym demo_instance = "(string, unit, otlpTransport, string, unit) dpInstance"


text \<open>
  The report intervals are not validated: a configuration that passes ends in a panic of the ticker.
\<close>

theorem unchecked_interval:
  assumes "ValidateDataPlane wd f = None" "ca_readable wd (dc_CPTLSCACert f)" "fl_HealthReportInterval f \<le> 0"
    and "\<not> dc_TracingEnabled f"
  shows "dp_main wd otlp canListen hostname rng1 rng2 now f = Inl (TickerPanic ''-health-report-interval'')"
proof -
  note ok = dp_accepted [OF assms(1)]
  obtain cpTLS r where "clientTLS wd f = Inr cpTLS" "certReloader wd f = Inr r"
    using clientTLS_accepted [OF ok(15) assms(2)] certReloader_accepted [OF ok(16)] by blast
  moreover have "tracing_Setup otlp (tracingFlags f) = Inr None" using assms(4) by (simp add: tracing_Setup_def tracingFlags_def)
  ultimately show ?thesis using assms(1,3) ok(1,2,3) by (auto simp: dp_main_def Let_def split: prod.splits)
qed

text \<open>A level that passes validation is one the logger knows.\<close>

lemma level_known: "ValidateDataPlane wd f = None \<Longrightarrow> snd (ParseLevel (dc_LogLevel f))"
  using dp_accepted(4) [of wd f] by auto (code_simp)+

section \<open>Probes and the traffic listener\<close>

text \<open>
  \<open>http.ServeMux\<close> answers a path that is not clean with a redirect to the clean one before it looks for a
  handler. Paths are taken without percent escapes; the body of a redirect is left out.
\<close>

definition cleanSegments :: "string \<Rightarrow> string list" where
  "cleanSegments p = foldl (\<lambda>out seg. if seg = [] \<or> seg = ''.'' then out else if seg = ''..'' then butlast out else out @ [seg])
     [] (split_on (CHR ''/'') p)"

definition path_Clean :: "string \<Rightarrow> string" where
  "path_Clean p = CHR ''/'' # Join (cleanSegments p) ''/''"

definition cleanPath :: "string \<Rightarrow> string" where
  "cleanPath p =
     (if p = [] then ''/''
      else
        (let p = (if hd p \<noteq> CHR ''/'' then CHR ''/'' # p else p); np = path_Clean p
         in if last p = CHR ''/'' \<and> np \<noteq> ''/'' then np @ ''/'' else np))"

definition redirectTo :: "string \<Rightarrow> ResponseWriter \<Rightarrow> ResponseWriter" where
  "redirectTo path w = w_WriteHeader 301 (w_mapHeader (header_Set ''Location'' path) w)"

definition http_NotFound :: "ResponseWriter \<Rightarrow> ResponseWriter" where
  "http_NotFound w = http_Error ''404 page not found'' 404 w"

definition plainText :: "int \<Rightarrow> string \<Rightarrow> ResponseWriter \<Rightarrow> ResponseWriter" where
  "plainText code body w =
     w_Write body (w_WriteHeader code (w_mapHeader (header_Set ''Content-Type'' ''text/plain; charset=utf-8'') w))"

definition opsMux :: "(unit \<Rightarrow> bool) option \<Rightarrow> Request \<Rightarrow> ResponseWriter \<Rightarrow> ResponseWriter" where
  "opsMux ready r w =
     (let p = rq_Path r
      in if cleanPath p \<noteq> p then redirectTo (cleanPath p) w
         else if p = ''/healthz'' then plainText 200 ''ok'' w
         else if p = ''/readyz'' then
           (if (case ready of None \<Rightarrow> False | Some f \<Rightarrow> f ()) then plainText 200 ''ready'' w
            else plainText 503 ''not ready: no healthy backends'' w)
         else http_NotFound w)"

definition ready :: "'l GroupManager \<Rightarrow> unit \<Rightarrow> bool" where
  "ready groups _ = (gm_HealthyLen groups > 0)"

definition debugBackends :: "string \<Rightarrow> 'l BackendList \<Rightarrow> RouteTable \<Rightarrow> 'l GroupManager \<Rightarrow> string" where
  "debugBackends g b routes groups =
     ''default group: '' @ g @ [CHR 0x0A] @
     ''backend count: '' @ FormatInt (bl_Len b) @ [CHR 0x0A] @
     ''healthy count: '' @ FormatInt (bl_HealthyLen b) @ [CHR 0x0A] @
     ''version: '' @ FormatInt (bl_version b) @ [CHR 0x0A] @
     ''routes configured: '' @ FormatInt (rt_Len routes) @ [CHR 0x0A] @
     ''tracked groups: '' @ Join (gm_Groups groups) '', '' @ [CHR 0x0A]"

text \<open>The handler of the traffic listener: the chain, with two paths answered before it.\<close>

definition trafficMux :: "string \<Rightarrow> 'l http_handler \<Rightarrow> 'l http_handler" where
  "trafficMux g chain r st =
     (let (info, s, w) = st; p = rq_Path r;
          groups = px_groups (hs_proxy s)
      in if cleanPath p \<noteq> p then (Returned, info, s, redirectTo (cleanPath p) w)
         else if p = ''/healthz'' then (Returned, info, s, w_Write ''ok'' (w_WriteHeader 200 w))
         else if p = ''/debug/backends'' then
           (case map_of (gm_groups groups) g of
              None \<Rightarrow> (Returned, info, s, w)
            | Some b \<Rightarrow>
                (Returned, info, s, w_Write (debugBackends g b (px_routes (hs_proxy s)) groups)
                  (w_mapHeader (header_Set ''Content-Type'' ''text/plain'') w)))
         else chain r st)"

lemma count_if_pos: "0 < count_if P xs \<longleftrightarrow> (\<exists>x \<in> set xs. P x)"
  by (induction xs) (auto simp: count_if_def)

lemma foldl_sum: "foldl (\<lambda>t x. t + f x) (a :: int) xs = a + (\<Sum>x \<leftarrow> xs. f x)"
  by (induction xs arbitrary: a) simp_all

lemma healthy_iff: "0 < gm_HealthyLen m \<longleftrightarrow> (\<exists>(g, b) \<in> set (gm_groups m). \<exists>e \<in> set (bl_entries b). be_healthy e)"
proof -
  have n: "0 \<le> bl_HealthyLen b" for b :: "'a BackendList" by (simp add: bl_HealthyLen_def count_if_def)
  have "gm_HealthyLen m = (\<Sum>x \<leftarrow> gm_groups m. bl_HealthyLen (snd x))"
    using foldl_sum [of "\<lambda>x. bl_HealthyLen (snd x)" 0] by (simp add: gm_HealthyLen_def case_prod_unfold)
  moreover have "0 < (\<Sum>x \<leftarrow> xs. bl_HealthyLen (snd x)) \<longleftrightarrow> (\<exists>x \<in> set xs. 0 < bl_HealthyLen (snd x))"
    for xs :: "(string \<times> 'a BackendList) list"
  proof (induction xs)
    case (Cons x xs)
    have "0 \<le> (\<Sum>x \<leftarrow> xs. bl_HealthyLen (snd x))" by (rule sum_list_nonneg) (auto simp: n)
    then show ?case using Cons n [of "snd x"] by auto
  qed simp
  ultimately show ?thesis by (auto simp: bl_HealthyLen_def count_if_pos split_beta)
qed

text \<open>
  The probes tell the truth: liveness is always 200, and readiness is 200 exactly when some backend
  of some tracked group is healthy and 503 otherwise, so an instance without a usable backend is taken
  out of the service; other paths of the ops listener are not found.
\<close>

theorem probes_exact:
  assumes "rw_sent w = None" "rq_Path r \<in> {''/healthz'', ''/readyz''}"
  shows "map_option fst (rw_sent (opsMux (Some (ready groups)) r w)) =
    Some (if rq_Path r = ''/healthz'' \<or> (\<exists>(g, b) \<in> set (gm_groups groups). \<exists>e \<in> set (bl_entries b). be_healthy e)
          then 200 else 503)"
proof -
  have "cleanPath ''/healthz'' = ''/healthz''" "cleanPath ''/readyz'' = ''/readyz''" by code_simp+
  then show ?thesis using assms healthy_iff [of groups] by (auto simp: opsMux_def Let_def plainText_def ready_def)
qed

section \<open>The end of a TCP data plane\<close>

text \<open>
  \<open>runTCP\<close>: one goroutine waits for the signal, closes the listener and drains; \<open>main\<close> is in \<open>Serve\<close>, which
  returns once the listener is closed, and with \<open>main\<close> the process ends.
\<close>

datatype drainPhase = NotDraining | Draining "bool + nat"

record 'l tcpProcess =
  tpr_sys :: "'l tcpSys"
  tpr_signalled :: bool
  tpr_drain :: drainPhase
  tpr_exited :: bool

inductive tpr_step :: "duration \<Rightarrow> 'l tcpProcess \<Rightarrow> 'l tcpProcess \<Rightarrow> bool" for grace where
  conn: "\<not> tpr_exited p \<Longrightarrow> tcpStep (tpr_sys p) e = Some s \<Longrightarrow> e \<noteq> TCloseListener \<Longrightarrow> tpr_step grace p (p\<lparr>tpr_sys := s\<rparr>)"
| signal: "\<not> tpr_exited p \<Longrightarrow> tpr_step grace p (p\<lparr>tpr_signalled := True\<rparr>)"
| close: "\<not> tpr_exited p \<Longrightarrow> tpr_signalled p \<Longrightarrow> tpr_step grace p (p\<lparr>tpr_sys := (tpr_sys p)\<lparr>ts_listening := False\<rparr>\<rparr>)"
| drain: "\<not> tpr_exited p \<Longrightarrow> \<not> ts_listening (tpr_sys p) \<Longrightarrow>
    tpr_step grace p (p\<lparr>tpr_drain := Draining (drainBegin grace (ts_proxy (tpr_sys p)))\<rparr>)"
| serve_returns: "\<not> tpr_exited p \<Longrightarrow> tpr_signalled p \<Longrightarrow> \<not> ts_listening (tpr_sys p) \<Longrightarrow> ts_pending (tpr_sys p) = None \<Longrightarrow>
    tpr_step grace p (p\<lparr>tpr_exited := True\<rparr>)"

text \<open>
  The drain is not waited for: from every state with connections, a signal can end the process with
  all of them still open, whatever the grace period.
\<close>

lemma exit_at_once:
  assumes "\<not> tpr_exited p" "ts_pending (tpr_sys p) = None"
  shows "\<exists>p'. (tpr_step grace)\<^sup>*\<^sup>* p p' \<and> tpr_exited p' \<and> ts_conns (tpr_sys p') = ts_conns (tpr_sys p) \<and>
    tpr_drain p' = tpr_drain p"
proof -
  let ?p1 = "p\<lparr>tpr_signalled := True\<rparr>"
  let ?p2 = "?p1\<lparr>tpr_sys := (tpr_sys ?p1)\<lparr>ts_listening := False\<rparr>\<rparr>"
  let ?p3 = "?p2\<lparr>tpr_exited := True\<rparr>"
  have "tpr_step grace p ?p1" using assms(1) by (rule tpr_step.signal)
  moreover have "tpr_step grace ?p1 ?p2" using assms by (intro tpr_step.close) simp_all
  moreover have "tpr_step grace ?p2 ?p3" using assms by (intro tpr_step.serve_returns) simp_all
  ultimately have "(tpr_step grace)\<^sup>*\<^sup>* p ?p3" by (meson converse_rtranclp_into_rtranclp r_into_rtranclp)
  then show ?thesis by (intro exI [of _ ?p3]) simp
qed

theorem drain_not_awaited:
  assumes "\<not> tpr_exited p"
  shows "\<exists>p' cs. (tpr_step grace)\<^sup>*\<^sup>* p p' \<and> tpr_exited p' \<and> ts_conns (tpr_sys p') = ts_conns (tpr_sys p) @ cs \<and>
    tpr_drain p' = tpr_drain p"
proof (cases "ts_pending (tpr_sys p)")
  case None
  then show ?thesis using exit_at_once [OF assms, of grace] by (metis append_Nil2)
next
  case (Some client)
  then obtain s where s: "tcpStep (tpr_sys p) TStarted = Some s" "ts_pending s = None" "ts_conns s = ts_conns (tpr_sys p) @ [Accepted client]"
    by simp
  have "tpr_step grace p (p\<lparr>tpr_sys := s\<rparr>)" using assms s(1) by (rule tpr_step.conn) simp
  moreover obtain p' where "(tpr_step grace)\<^sup>*\<^sup>* (p\<lparr>tpr_sys := s\<rparr>) p'" "tpr_exited p'" "ts_conns (tpr_sys p') = ts_conns s"
    "tpr_drain p' = tpr_drain p"
    using exit_at_once [of "p\<lparr>tpr_sys := s\<rparr>" grace] assms s(2) by auto
  ultimately show ?thesis using s(3) by (metis converse_rtranclp_into_rtranclp)
qed

theorem probes_exact_witness:
  "\<forall>rng. map_option fst (rw_sent (opsMux (Some (ready (NewGroupManager demo_healthCfg :: unit GroupManager)))
     ((demo_request [])\<lparr>rq_Path := ''/readyz''\<rparr>) new_writer)) = Some 503"
  using probes_exact [of new_writer "(demo_request [])\<lparr>rq_Path := ''/readyz''\<rparr>" "NewGroupManager demo_healthCfg :: unit GroupManager"]
  by (simp add: NewGroupManager_def)

text \<open>The traffic listener answers a path that is not clean itself: no backend sees it.\<close>

lemma unclean_redirected:
  "trafficMux g chain (r\<lparr>rq_Path := ''/a//b''\<rparr>) (info, s, w) = (Returned, info, s, redirectTo ''/a/b'' w)"
proof -
  have "cleanPath ''/a//b'' = ''/a/b''" by code_simp
  then show ?thesis by (simp add: trafficMux_def Let_def)
qed

end
