(* ===== verification/CloudPools.thy ===== *)
theory CloudPools
  imports Pool Text "HOL-Library.AList"
begin

text \<open>
  The providers that ask a cluster or a cloud: Kubernetes (\<open>internal/pool/kubernetes.go\<close>) and Azure scale
  sets (\<open>internal/pool/azurevmss.go\<close>), with the parsers of their group lists (the second one is in
  \<open>cmd/controlplane/main.go\<close>).

  The API clients are third-party code: what a call returns is an argument, \<open>None\<close> being an error. Pointers
  that may be nil are options. A Go map is an association list in its iteration order. Building the
  clients (credentials, kubeconfig) is left out.
\<close>

section \<open>Kubernetes\<close>

record KubernetesGroup =
  kg_Group :: string
  kg_Namespace :: string
  kg_Service :: string
  kg_Port :: int
  kg_Weight :: int

record k8sEndpoint =
  ep_Addresses :: "string list"
  ep_Ready :: "bool option"
  ep_Terminating :: "bool option"

type_synonym endpointSlice = "k8sEndpoint list"

type_synonym KubernetesProvider = "(string \<times> KubernetesGroup) list"

definition newKubernetesProviderWithClient :: "KubernetesGroup list \<Rightarrow> KubernetesProvider" where
  "newKubernetesProviderWithClient groups =
     foldl (\<lambda>m g. AList.update (kg_Group g) (if kg_Weight g \<le> 0 then g\<lparr>kg_Weight := 1\<rparr> else g) m) [] groups"

definition kp_Groups :: "KubernetesProvider \<Rightarrow> string list option" where
  "kp_Groups p = Some (map fst p)"

definition endpointReady :: "k8sEndpoint \<Rightarrow> bool" where
  "endpointReady ep =
     (if ep_Ready ep = Some False then False
      else if ep_Terminating ep = Some True then False
      else True)"

definition hostPort :: "string \<Rightarrow> int \<Rightarrow> string" where
  "hostPort ip port = ip @ CHR '':'' # FormatInt port"

definition addAddress ::
    "KubernetesGroup \<Rightarrow> string list \<times> PoolBackend list \<Rightarrow> string \<Rightarrow> string list \<times> PoolBackend list" where
  "addAddress cfg st ip =
     (let (seen, backends) = st; addr = hostPort ip (kg_Port cfg)
      in if ip = [] then st
         else if addr \<in> set seen then st
         else (addr # seen, backends @ [\<lparr>pb_Address = addr, pb_Weight = kg_Weight cfg\<rparr>]))"

definition addEndpoint ::
    "KubernetesGroup \<Rightarrow> string list \<times> PoolBackend list \<Rightarrow> k8sEndpoint \<Rightarrow> string list \<times> PoolBackend list" where
  "addEndpoint cfg st ep = (if \<not> endpointReady ep then st else foldl (addAddress cfg) st (ep_Addresses ep))"

definition kp_Snapshot ::
    "(string \<Rightarrow> string \<Rightarrow> endpointSlice list option) \<Rightarrow> KubernetesProvider \<Rightarrow> string \<Rightarrow> Snapshot option" where
  "kp_Snapshot listSlices p g =
     (case map_of p g of
        None \<Rightarrow> None
      | Some cfg \<Rightarrow>
          (case listSlices (kg_Namespace cfg) (kg_Service cfg) of
             None \<Rightarrow> None
           | Some slices \<Rightarrow>
               Some \<lparr>sn_Group = g,
                     sn_Backends = snd (foldl (\<lambda>st eps. foldl (addEndpoint cfg) st eps) ([], []) slices)\<rparr>))"

section \<open>Azure scale sets\<close>

record AzureVMSSGroup =
  ag_Group :: string
  ag_ScaleSetName :: string
  ag_Port :: int
  ag_Weight :: int

record vmProperties =
  vp_ProvisioningState :: "string option"
  vp_InstanceView :: "string option option list option"

record vmssVM =
  vm_InstanceID :: "string option"
  vm_Properties :: "vmProperties option"

record ipConfigProps =
  ic_PrivateIPAddress :: "string option"
  ic_Primary :: "bool option"

record nicProperties =
  np_VirtualMachine :: "string option option"
  np_IPConfigurations :: "ipConfigProps option option list"

type_synonym AzureVMSSProvider = "(string \<times> AzureVMSSGroup) list"

definition NewAzureVMSSProvider :: "AzureVMSSGroup list \<Rightarrow> AzureVMSSProvider" where
  "NewAzureVMSSProvider groups =
     foldl (\<lambda>m g. AList.update (ag_Group g) (if ag_Weight g \<le> 0 then g\<lparr>ag_Weight := 1\<rparr> else g) m) [] groups"

definition az_Groups :: "AzureVMSSProvider \<Rightarrow> string list option" where
  "az_Groups p = Some (map fst p)"

definition isRunning :: "vmssVM \<Rightarrow> bool" where
  "isRunning vm =
     (case vm_Properties vm of
        None \<Rightarrow> False
      | Some props \<Rightarrow>
          if vp_ProvisioningState props \<noteq> Some ''Succeeded'' then False
          else case vp_InstanceView props of
                 None \<Rightarrow> False
               | Some statuses \<Rightarrow>
                   list_ex (\<lambda>status. case status of
                       Some (Some code) \<Rightarrow> EqualFold code ''PowerState/running'' | _ \<Rightarrow> False) statuses)"

text \<open>A pager is its pages in order; a page that cannot be fetched ends the listing with an error.\<close>

fun listRunningInstanceIDs :: "vmssVM option list option list \<Rightarrow> string list \<Rightarrow> string list option" where
  "listRunningInstanceIDs [] ids = Some ids"
| "listRunningInstanceIDs (None # pages) ids = None"
| "listRunningInstanceIDs (Some page # pages) ids =
     listRunningInstanceIDs pages
       (foldl (\<lambda>ids vm. case vm of
            None \<Rightarrow> ids
          | Some v \<Rightarrow> (case vm_InstanceID v of None \<Rightarrow> ids | Some i \<Rightarrow> if isRunning v then ids @ [i] else ids)) ids page)"

definition instanceIDFromVMResourceID :: "string option option \<Rightarrow> string" where
  "instanceIDFromVMResourceID vm = (case vm of Some (Some i) \<Rightarrow> last (split_on (CHR ''/'') i) | _ \<Rightarrow> [])"

fun primaryIPLoop :: "ipConfigProps option option list \<Rightarrow> string \<Rightarrow> string" where
  "primaryIPLoop [] fallback = fallback"
| "primaryIPLoop (c # cs) fallback =
     (case c of
        Some (Some props) \<Rightarrow>
          (case ic_PrivateIPAddress props of
             None \<Rightarrow> primaryIPLoop cs fallback
           | Some ip \<Rightarrow>
               if ic_Primary props = Some True then ip
               else primaryIPLoop cs (if fallback = [] then ip else fallback))
      | _ \<Rightarrow> primaryIPLoop cs fallback)"

definition primaryPrivateIP :: "ipConfigProps option option list \<Rightarrow> string" where
  "primaryPrivateIP configs = primaryIPLoop configs []"

definition addNIC :: "(string \<times> string) list \<Rightarrow> nicProperties option option \<Rightarrow> (string \<times> string) list" where
  "addNIC m nic =
     (case nic of
        Some (Some props) \<Rightarrow>
          (let instanceID = instanceIDFromVMResourceID (np_VirtualMachine props);
               ip = primaryPrivateIP (np_IPConfigurations props)
           in if instanceID = [] then m else if ip \<noteq> [] then AList.update instanceID ip m else m)
      | _ \<Rightarrow> m)"

fun listPrivateIPs :: "nicProperties option option list option list \<Rightarrow> (string \<times> string) list \<Rightarrow> (string \<times> string) list option" where
  "listPrivateIPs [] m = Some m"
| "listPrivateIPs (None # pages) m = None"
| "listPrivateIPs (Some page # pages) m = listPrivateIPs pages (foldl addNIC m page)"

record azureAPI =
  az_vms :: "string \<Rightarrow> vmssVM option list option list"
  az_nics :: "string \<Rightarrow> nicProperties option option list option list"

definition az_Snapshot :: "azureAPI \<Rightarrow> AzureVMSSProvider \<Rightarrow> string \<Rightarrow> Snapshot option" where
  "az_Snapshot api p g =
     (case map_of p g of
        None \<Rightarrow> None
      | Some cfg \<Rightarrow>
          (case listRunningInstanceIDs (az_vms api (ag_ScaleSetName cfg)) [] of
             None \<Rightarrow> None
           | Some ids \<Rightarrow>
               (case listPrivateIPs (az_nics api (ag_ScaleSetName cfg)) [] of
                  None \<Rightarrow> None
                | Some ips \<Rightarrow>
                    Some \<lparr>sn_Group = g,
                          sn_Backends = foldl (\<lambda>bs i. case map_of ips i of
                              None \<Rightarrow> bs
                            | Some ip \<Rightarrow> if ip = [] then bs
                                else bs @ [\<lparr>pb_Address = hostPort ip (ag_Port cfg), pb_Weight = ag_Weight cfg\<rparr>]) [] ids\<rparr>)))"

section \<open>The lists of groups\<close>

datatype groupError = WrongFields string | BadPort string | BadWeight string

definition ParseInt32 :: "string \<Rightarrow> int option" where
  "ParseInt32 s = (case ParseInt64 s of None \<Rightarrow> None | Some n \<Rightarrow> if - (2 ^ 31) \<le> n \<and> n < 2 ^ 31 then Some n else None)"

definition parseKubernetesGroup :: "string \<Rightarrow> groupError + KubernetesGroup" where
  "parseKubernetesGroup entry =
     (let parts = split_on (CHR '':'') entry
      in if length parts < 4 \<or> length parts > 5 then Inl (WrongFields entry)
         else case ParseInt32 (parts ! 3) of
                None \<Rightarrow> Inl (BadPort entry)
              | Some port \<Rightarrow>
                  (let made = (\<lambda>weight. Inr \<lparr>kg_Group = parts ! 0, kg_Namespace = parts ! 1, kg_Service = parts ! 2,
                                             kg_Port = port, kg_Weight = weight\<rparr>)
                   in if length parts = 5
                      then (case ParseInt32 (parts ! 4) of None \<Rightarrow> Inl (BadWeight entry) | Some w \<Rightarrow> made w)
                      else made 1))"

definition ParseKubernetesGroups :: "string \<Rightarrow> groupError + KubernetesGroup list" where
  "ParseKubernetesGroups spec = parseSpec parseKubernetesGroup spec"

definition parseAzureVMSSGroup :: "string \<Rightarrow> groupError + AzureVMSSGroup" where
  "parseAzureVMSSGroup entry =
     (let parts = split_on (CHR '':'') entry
      in if length parts < 3 \<or> length parts > 4 then Inl (WrongFields entry)
         else case ParseInt32 (parts ! 2) of
                None \<Rightarrow> Inl (BadPort entry)
              | Some port \<Rightarrow>
                  (let made = (\<lambda>weight. Inr \<lparr>ag_Group = parts ! 0, ag_ScaleSetName = parts ! 1,
                                             ag_Port = port, ag_Weight = weight\<rparr>)
                   in if length parts = 4
                      then (case ParseInt32 (parts ! 3) of None \<Rightarrow> Inl (BadWeight entry) | Some w \<Rightarrow> made w)
                      else made 1))"

definition parseAzureVMSSGroups :: "string \<Rightarrow> groupError + AzureVMSSGroup list" where
  "parseAzureVMSSGroups spec = parseSpec parseAzureVMSSGroup spec"

section \<open>The contract of a provider\<close>

lemma map_of_listed: "map_of p g = Some x \<Longrightarrow> g \<in> fst ` set p"
  by (metis map_of_eq_None_iff option.distinct(1))

interpretation kubernetes_provider: pool_provider "\<lambda>(listSlices, p). kp_Groups p" "\<lambda>(listSlices, p). kp_Snapshot listSlices p"
  by unfold_locales
     (auto simp: kp_Groups_def kp_Snapshot_def dest: map_of_listed split: option.splits)

interpretation azure_provider: pool_provider "\<lambda>(api, p). az_Groups p" "\<lambda>(api, p). az_Snapshot api p"
  by unfold_locales
     (auto simp: az_Groups_def az_Snapshot_def dest: map_of_listed split: option.splits)

section \<open>What Kubernetes reports\<close>

definition ready_ips :: "endpointSlice list \<Rightarrow> string list" where
  "ready_ips slices = [ip. eps \<leftarrow> slices, ep \<leftarrow> eps, endpointReady ep, ip \<leftarrow> ep_Addresses ep, ip \<noteq> []]"

lemma addAddress_ips:
  assumes "set seen = set (map pb_Address bs)" "distinct (map pb_Address bs)" "\<forall>b \<in> set bs. pb_Weight b = kg_Weight cfg"
    and "foldl (addAddress cfg) (seen, bs) ips = (seen', bs')"
  shows "set seen' = set (map pb_Address bs') \<and> distinct (map pb_Address bs') \<and> (\<forall>b \<in> set bs'. pb_Weight b = kg_Weight cfg) \<and>
    set (map pb_Address bs') = set (map pb_Address bs) \<union> (\<lambda>ip. hostPort ip (kg_Port cfg)) ` {ip \<in> set ips. ip \<noteq> []}"
  using assms
proof (induction ips arbitrary: seen bs)
  case (Cons ip ips)
  let ?a = "hostPort ip (kg_Port cfg)"
  have old: ?case if "addAddress cfg (seen, bs) ip = (seen, bs)" "ip = [] \<or> ?a \<in> set seen"
    using Cons.IH [of seen bs] Cons.prems that by auto
  show ?case
  proof (cases "ip = [] \<or> ?a \<in> set seen")
    case True
    then show ?thesis by (intro old) (auto simp: addAddress_def Let_def)
  next
    case False
    let ?bs = "bs @ [\<lparr>pb_Address = ?a, pb_Weight = kg_Weight cfg\<rparr>]"
    have "foldl (addAddress cfg) (?a # seen, ?bs) ips = (seen', bs')"
      using Cons.prems(4) False by (simp add: addAddress_def [of cfg "(seen, bs)"] Let_def)
    from Cons.IH [OF _ _ _ this] show ?thesis using Cons.prems(1-3) False by auto
  qed
qed auto

lemma addEndpoint_ips:
  "addEndpoint cfg st ep = foldl (addAddress cfg) st (if endpointReady ep then ep_Addresses ep else [])"
  by (simp add: addEndpoint_def)

lemma foldl_concat_map: "foldl (\<lambda>st x. foldl f st (g x)) st xs = foldl f st (concat (map g xs))"
  by (induction xs arbitrary: st) simp_all

lemma weights_positive:
  assumes "\<forall>n c. map_of m n = Some c \<longrightarrow> 1 \<le> kg_Weight c"
  shows "\<forall>n c. map_of (foldl (\<lambda>m g. AList.update (kg_Group g) (if kg_Weight g \<le> 0 then g\<lparr>kg_Weight := 1\<rparr> else g) m) m groups) n = Some c
    \<longrightarrow> 1 \<le> kg_Weight c"
  using assms
proof (induction groups arbitrary: m)
  case (Cons g groups)
  show ?case unfolding foldl_Cons by (rule Cons.IH) (use Cons.prems in \<open>auto simp: update_conv'\<close>)
qed simp

text \<open>
  C36. The Kubernetes provider reports exactly the non-empty addresses of the endpoints that are ready
  and not terminating, each once however many slices and endpoints list it, at the group's port and
  with the group's weight, which is at least 1 whatever was configured; without an answer of the API
  there is no snapshot, and another group never gets one.
\<close>

theorem kubernetes_snapshot_exact:
  assumes "kp_Snapshot listSlices (newKubernetesProviderWithClient groups) g = Some sn"
  shows "\<exists>cfg slices. map_of (newKubernetesProviderWithClient groups) g = Some cfg \<and>
    listSlices (kg_Namespace cfg) (kg_Service cfg) = Some slices \<and> 1 \<le> kg_Weight cfg \<and>
    distinct (map pb_Address (sn_Backends sn)) \<and> (\<forall>b \<in> set (sn_Backends sn). pb_Weight b = kg_Weight cfg) \<and>
    set (map pb_Address (sn_Backends sn)) = (\<lambda>ip. hostPort ip (kg_Port cfg)) ` set (ready_ips slices)"
proof -
  let ?p = "newKubernetesProviderWithClient groups"
  obtain cfg slices where c: "map_of ?p g = Some cfg" "listSlices (kg_Namespace cfg) (kg_Service cfg) = Some slices"
    "sn = \<lparr>sn_Group = g, sn_Backends = snd (foldl (\<lambda>st eps. foldl (addEndpoint cfg) st eps) ([], []) slices)\<rparr>"
    using assms by (auto simp: kp_Snapshot_def split: option.splits)
  let ?ips = "concat (map (\<lambda>eps. concat (map (\<lambda>ep. if endpointReady ep then ep_Addresses ep else []) eps)) slices)"
  have bs: "sn_Backends sn = snd (foldl (addAddress cfg) ([], []) ?ips)"
    by (simp add: c(3) addEndpoint_ips foldl_concat_map cong: foldl_cong)
  have ips: "{ip \<in> set ?ips. ip \<noteq> []} = set (ready_ips slices)"
    by (auto simp: ready_ips_def split: if_splits)
  obtain seen' bs' where f: "foldl (addAddress cfg) ([], []) ?ips = (seen', bs')" by fastforce
  have "1 \<le> kg_Weight cfg" using weights_positive [where m = "[]" and groups = groups] c(1) by (simp add: newKubernetesProviderWithClient_def)
  then show ?thesis
    using c(1,2) addAddress_ips [of "[]" "[]" cfg ?ips seen' bs'] f ips bs
    by (intro exI [of _ cfg] exI [of _ slices]) simp
qed

definition demo_k8s :: "KubernetesGroup list" where
  "demo_k8s = [\<lparr>kg_Group = ''web'', kg_Namespace = ''ns'', kg_Service = ''svc'', kg_Port = 80, kg_Weight = 0\<rparr>]"

definition demo_slices :: "endpointSlice list" where
  "demo_slices = [[\<lparr>ep_Addresses = [''10.0.0.1'', ''10.0.0.2''], ep_Ready = None, ep_Terminating = None\<rparr>],
     [\<lparr>ep_Addresses = [''10.0.0.2''], ep_Ready = Some True, ep_Terminating = None\<rparr>,
      \<lparr>ep_Addresses = [''10.0.0.3''], ep_Ready = Some False, ep_Terminating = None\<rparr>]]"

theorem kubernetes_snapshot_exact_witness:
  "\<exists>sn. kp_Snapshot (\<lambda>_ _. Some demo_slices) (newKubernetesProviderWithClient demo_k8s) ''web'' = Some sn \<and>
     set (map pb_Address (sn_Backends sn)) = {''10.0.0.1:80'', ''10.0.0.2:80''} \<and> distinct (map pb_Address (sn_Backends sn))"
proof -
  let ?p = "newKubernetesProviderWithClient demo_k8s"
  obtain sn where sn: "kp_Snapshot (\<lambda>_ _. Some demo_slices) ?p ''web'' = Some sn"
    by (simp add: kp_Snapshot_def newKubernetesProviderWithClient_def demo_k8s_def)
  from kubernetes_snapshot_exact [OF this] obtain cfg where
    "map_of ?p ''web'' = Some cfg" "distinct (map pb_Address (sn_Backends sn))"
    "set (map pb_Address (sn_Backends sn)) = (\<lambda>ip. hostPort ip (kg_Port cfg)) ` set (ready_ips demo_slices)" by auto
  moreover have "set (ready_ips demo_slices) = {''10.0.0.1'', ''10.0.0.2''}"
    by (auto simp: ready_ips_def demo_slices_def endpointReady_def)
  moreover have "map_of ?p ''web'' = Some (hd demo_k8s\<lparr>kg_Weight := 1\<rparr>)"
    by (simp add: newKubernetesProviderWithClient_def demo_k8s_def)
  moreover have "FormatInt 80 = ''80''" by code_simp
  ultimately show ?thesis using sn by (auto simp: hostPort_def demo_k8s_def)
qed

text \<open>
  An IPv6 address is not put into brackets: what is reported for it cannot be split into host and port
  again, so no data plane can connect to it.
\<close>

theorem ipv6_unreachable:
  assumes "CHR '':'' \<in> set ip" "hd ip \<noteq> CHR ''[''"
  shows "SplitHostPort (hostPort ip port) = None"
proof -
  have "CHR '':'' \<notin> set (FormatInt port)" using FormatInt_chars [of port] by (auto simp: list_all_iff is_digit_def)
  then have "lastIndex (CHR '':'') (hostPort ip port) = Some (length ip)" by (simp add: hostPort_def lastIndex_append)
  moreover have "hostPort ip port ! 0 = hd ip" using assms(1) by (cases ip) (auto simp: hostPort_def)
  ultimately show ?thesis using assms by (simp add: SplitHostPort_def hostPort_def)
qed

section \<open>What Azure reports\<close>

definition listed :: "'a option list option list \<Rightarrow> 'a list" where
  "listed pages = List.map_filter id (concat (map the pages))"

definition running_ids :: "vmssVM list \<Rightarrow> string list" where
  "running_ids vms = List.map_filter (\<lambda>v. if isRunning v then vm_InstanceID v else None) vms"

text \<open>The addresses of an instance, in the order in which its interfaces are listed.\<close>

definition nic_ips :: "nicProperties option list \<Rightarrow> string \<Rightarrow> string list" where
  "nic_ips nics i = filter (\<lambda>ip. ip \<noteq> []) (map (\<lambda>np. primaryPrivateIP (np_IPConfigurations np))
     (filter (\<lambda>np. instanceIDFromVMResourceID (np_VirtualMachine np) = i) (List.map_filter id nics)))"

lemma map_filter_append: "List.map_filter f (xs @ ys) = List.map_filter f xs @ List.map_filter f ys"
  by (simp add: List.map_filter_def)

lemma running_fold:
  "foldl (\<lambda>ids vm. case vm of
       None \<Rightarrow> ids
     | Some v \<Rightarrow> (case vm_InstanceID v of None \<Rightarrow> ids | Some i \<Rightarrow> if isRunning v then ids @ [i] else ids)) ids page =
   ids @ running_ids (List.map_filter id page)"
  by (induction page arbitrary: ids)
     (auto simp: running_ids_def List.map_filter_simps map_filter_append split: option.splits)

lemma running_list:
  "listRunningInstanceIDs pages ids = Some ids' \<Longrightarrow> ids' = ids @ running_ids (listed pages)"
  by (induction pages ids rule: listRunningInstanceIDs.induct)
     (auto simp: listed_def running_fold running_ids_def List.map_filter_simps map_filter_append)

lemma addNIC_ips:
  "map_of (addNIC m nic) i =
     (case nic_ips (List.map_filter id [nic]) i of [] \<Rightarrow> map_of m i | ip # _ \<Rightarrow> if i = [] then map_of m i else Some ip)"
  by (auto simp: addNIC_def nic_ips_def List.map_filter_simps update_conv Let_def split: option.splits)

lemma nic_ips_append: "nic_ips (xs @ ys) i = nic_ips xs i @ nic_ips ys i"
  by (simp add: nic_ips_def map_filter_append)

lemma addNICs_ips:
  "map_of (foldl addNIC m page) i =
     (if i = [] \<or> nic_ips (List.map_filter id page) i = [] then map_of m i
      else Some (last (nic_ips (List.map_filter id page) i)))"
proof (induction page arbitrary: m)
  case (Cons nic page)
  have split: "nic_ips (List.map_filter id (nic # page)) i =
      nic_ips (List.map_filter id [nic]) i @ nic_ips (List.map_filter id page) i"
    using map_filter_append [of id "[nic]" page] nic_ips_append by (metis append_Cons append_Nil)
  have "length (nic_ips (List.map_filter id [nic]) i) \<le> 1"
    by (auto simp: nic_ips_def List.map_filter_simps split: option.splits)
  then consider "nic_ips (List.map_filter id [nic]) i = []" | ip where "nic_ips (List.map_filter id [nic]) i = [ip]"
    by (cases "nic_ips (List.map_filter id [nic]) i") auto
  then show ?case
  proof cases
    case 1
    then show ?thesis unfolding split foldl_Cons Cons.IH by (simp add: addNIC_ips)
  next
    case 2
    then show ?thesis unfolding split foldl_Cons Cons.IH by (simp add: addNIC_ips split: list.split)
  qed
qed (simp add: nic_ips_def List.map_filter_simps)

lemma private_ips:
  "listPrivateIPs pages m = Some m' \<Longrightarrow>
     map_of m' i = (if i = [] \<or> nic_ips (listed pages) i = [] then map_of m i else Some (last (nic_ips (listed pages) i)))"
proof (induction pages m rule: listPrivateIPs.induct)
  case (3 page pages m)
  have "listed (Some page # pages) = List.map_filter id page @ listed pages" by (simp add: listed_def map_filter_append)
  then show ?case using 3 by (simp add: addNICs_ips nic_ips_append)
qed (simp_all add: listed_def nic_ips_def List.map_filter_simps)

text \<open>
  The Azure provider reports one backend per running, successfully provisioned instance that has a
  private address, in the order of the listing: the address of the last interface listed for the
  instance that has one, at the group's port. Pages that cannot be fetched give no snapshot at all.
\<close>

theorem azure_snapshot_exact:
  assumes "az_Snapshot api p g = Some sn"
  shows "\<exists>cfg. map_of p g = Some cfg \<and> sn_Group sn = g \<and>
    (let vms = listed (az_vms api (ag_ScaleSetName cfg)); nics = listed (az_nics api (ag_ScaleSetName cfg))
     in sn_Backends sn =
       map (\<lambda>i. \<lparr>pb_Address = hostPort (last (nic_ips nics i)) (ag_Port cfg), pb_Weight = ag_Weight cfg\<rparr>)
         (filter (\<lambda>i. i \<noteq> [] \<and> nic_ips nics i \<noteq> []) (running_ids vms)))"
proof -
  obtain cfg ids ips where c: "map_of p g = Some cfg"
    "listRunningInstanceIDs (az_vms api (ag_ScaleSetName cfg)) [] = Some ids"
    "listPrivateIPs (az_nics api (ag_ScaleSetName cfg)) [] = Some ips"
    "sn = \<lparr>sn_Group = g, sn_Backends = foldl (\<lambda>bs i. case map_of ips i of
        None \<Rightarrow> bs
      | Some ip \<Rightarrow> if ip = [] then bs
          else bs @ [\<lparr>pb_Address = hostPort ip (ag_Port cfg), pb_Weight = ag_Weight cfg\<rparr>]) [] ids\<rparr>"
    using assms by (auto simp: az_Snapshot_def split: option.splits)
  let ?nics = "listed (az_nics api (ag_ScaleSetName cfg))"
  have ip: "map_of ips i = (if i = [] \<or> nic_ips ?nics i = [] then None else Some (last (nic_ips ?nics i)))" for i
    using private_ips [OF c(3), of i] by simp
  have ne: "last (nic_ips ?nics i) \<noteq> []" if "nic_ips ?nics i \<noteq> []" for i
    using last_in_set [OF that] by (auto simp: nic_ips_def)
  have "foldl (\<lambda>bs i. case map_of ips i of
        None \<Rightarrow> bs
      | Some ip \<Rightarrow> if ip = [] then bs
          else bs @ [\<lparr>pb_Address = hostPort ip (ag_Port cfg), pb_Weight = ag_Weight cfg\<rparr>]) bs is =
    bs @ map (\<lambda>i. \<lparr>pb_Address = hostPort (last (nic_ips ?nics i)) (ag_Port cfg), pb_Weight = ag_Weight cfg\<rparr>)
      (filter (\<lambda>i. i \<noteq> [] \<and> nic_ips ?nics i \<noteq> []) is)" for bs "is"
    by (induction "is" arbitrary: bs) (auto simp: ip ne)
  then show ?thesis using c(1,4) running_list [OF c(2)] by (auto simp: Let_def)
qed

definition demo_api :: azureAPI where
  "demo_api = \<lparr>az_vms = \<lambda>_. [Some [Some \<lparr>vm_InstanceID = Some ''7'', vm_Properties = Some
        \<lparr>vp_ProvisioningState = Some ''Succeeded'', vp_InstanceView = Some [Some (Some ''PowerState/Running'')]\<rparr>\<rparr>, None]],
     az_nics = \<lambda>_. [Some [Some (Some \<lparr>np_VirtualMachine = Some (Some ''vms/7''),
        np_IPConfigurations = [Some (Some \<lparr>ic_PrivateIPAddress = Some ''10.0.0.7'', ic_Primary = None\<rparr>)]\<rparr>)]]\<rparr>"

theorem azure_snapshot_exact_witness:
  "\<exists>sn. az_Snapshot demo_api [(''web'', \<lparr>ag_Group = ''web'', ag_ScaleSetName = ''s'', ag_Port = 80, ag_Weight = 1\<rparr>)] ''web'' = Some sn \<and>
     sn_Group sn = ''web'' \<and> length (sn_Backends sn) \<le> length (running_ids (listed (az_vms demo_api ''s'')))"
proof -
  let ?p = "[(''web'', \<lparr>ag_Group = ''web'', ag_ScaleSetName = ''s'', ag_Port = 80, ag_Weight = 1\<rparr>)]"
  obtain sn where sn: "az_Snapshot demo_api ?p ''web'' = Some sn"
    by (simp add: az_Snapshot_def demo_api_def)
  show ?thesis using azure_snapshot_exact [OF sn] sn by (auto simp: Let_def)
qed

section \<open>The lists of groups, printed and read\<close>

definition int32 :: "int \<Rightarrow> bool" where
  "int32 n \<longleftrightarrow> - (2 ^ 31) \<le> n \<and> n < 2 ^ 31"

lemma ParseInt32_Format [simp]: "int32 n \<Longrightarrow> ParseInt32 (FormatInt n) = Some n"
proof -
  assume n: "int32 n"
  then have "is_int64 n" by (simp add: int32_def is_int64_def int64_defs)
  then show ?thesis using n by (simp add: ParseInt32_def int32_def)
qed

lemma FormatInt_free: "c \<in> {CHR '':'', CHR '',''} \<Longrightarrow> c \<notin> set (FormatInt n)"
  using FormatInt_chars [of n] by (auto simp: list_all_iff is_digit_def)

lemma FormatInt_tight: "FormatInt n \<noteq> [] \<and> \<not> asciiSpace (last (FormatInt n))"
proof -
  have "FormatInt n \<noteq> []" by (simp add: FormatInt_def)
  moreover have "is_digit (last (FormatInt n)) \<or> last (FormatInt n) = CHR ''-''"
    using FormatInt_chars [of n] last_in_set [OF calculation] by (auto simp: list_all_iff)
  ultimately show ?thesis by (auto simp: is_digit_def asciiSpace_def)
qed

definition field_ok :: "string \<Rightarrow> bool" where
  "field_ok s \<longleftrightarrow> CHR '':'' \<notin> set s \<and> CHR '','' \<notin> set s"

definition showKubernetesGroup :: "KubernetesGroup \<Rightarrow> string" where
  "showKubernetesGroup g = kg_Group g @ CHR '':'' # kg_Namespace g @ CHR '':'' # kg_Service g @ CHR '':'' #
     FormatInt (kg_Port g) @ CHR '':'' # FormatInt (kg_Weight g)"

definition k8s_group_ok :: "KubernetesGroup \<Rightarrow> bool" where
  "k8s_group_ok g \<longleftrightarrow> field_ok (kg_Group g) \<and> field_ok (kg_Namespace g) \<and> field_ok (kg_Service g) \<and>
     (kg_Group g = [] \<or> \<not> asciiSpace (hd (kg_Group g))) \<and> int32 (kg_Port g) \<and> int32 (kg_Weight g)"

lemma parse_showKubernetesGroup:
  assumes "k8s_group_ok g"
  shows "parseKubernetesGroup (showKubernetesGroup g) = Inr g" "showKubernetesGroup g \<noteq> []"
    "tight (showKubernetesGroup g)" "CHR '','' \<notin> set (showKubernetesGroup g)"
proof -
  have "split_on (CHR '':'') (showKubernetesGroup g) =
      [kg_Group g, kg_Namespace g, kg_Service g, FormatInt (kg_Port g), FormatInt (kg_Weight g)]"
    using assms by (simp add: showKubernetesGroup_def k8s_group_ok_def field_ok_def split_on_append split_on_single FormatInt_free)
  then show "parseKubernetesGroup (showKubernetesGroup g) = Inr g"
    using assms by (simp add: parseKubernetesGroup_def k8s_group_ok_def Let_def)
  show "showKubernetesGroup g \<noteq> []" by (simp add: showKubernetesGroup_def)
  show "CHR '','' \<notin> set (showKubernetesGroup g)"
    using assms by (auto simp: showKubernetesGroup_def k8s_group_ok_def field_ok_def FormatInt_free)
  show "tight (showKubernetesGroup g)"
    using assms FormatInt_tight [of "kg_Weight g"]
    by (cases "kg_Group g") (auto simp: tight_def showKubernetesGroup_def k8s_group_ok_def asciiSpace_def)
qed

text \<open>
  A list of Kubernetes groups written as entries \<open>group:namespace:service:port:weight\<close> between commas is
  read back as it was.
\<close>

lemma parse_KubernetesGroups:
  assumes "list_all k8s_group_ok groups"
  shows "ParseKubernetesGroups (Join (map showKubernetesGroup groups) '','') = Inr groups"
  unfolding ParseKubernetesGroups_def
  by (rule parseSpec_Join) (use assms parse_showKubernetesGroup in \<open>auto simp: list_all_iff\<close>)

definition showAzureGroup :: "AzureVMSSGroup \<Rightarrow> string" where
  "showAzureGroup g = ag_Group g @ CHR '':'' # ag_ScaleSetName g @ CHR '':'' #
     FormatInt (ag_Port g) @ CHR '':'' # FormatInt (ag_Weight g)"

definition azure_group_ok :: "AzureVMSSGroup \<Rightarrow> bool" where
  "azure_group_ok g \<longleftrightarrow> field_ok (ag_Group g) \<and> field_ok (ag_ScaleSetName g) \<and>
     (ag_Group g = [] \<or> \<not> asciiSpace (hd (ag_Group g))) \<and> int32 (ag_Port g) \<and> int32 (ag_Weight g)"

lemma parse_showAzureGroup:
  assumes "azure_group_ok g"
  shows "parseAzureVMSSGroup (showAzureGroup g) = Inr g" "showAzureGroup g \<noteq> []"
    "tight (showAzureGroup g)" "CHR '','' \<notin> set (showAzureGroup g)"
proof -
  have "split_on (CHR '':'') (showAzureGroup g) =
      [ag_Group g, ag_ScaleSetName g, FormatInt (ag_Port g), FormatInt (ag_Weight g)]"
    using assms by (simp add: showAzureGroup_def azure_group_ok_def field_ok_def split_on_append split_on_single FormatInt_free)
  then show "parseAzureVMSSGroup (showAzureGroup g) = Inr g"
    using assms by (simp add: parseAzureVMSSGroup_def azure_group_ok_def Let_def)
  show "showAzureGroup g \<noteq> []" by (simp add: showAzureGroup_def)
  show "CHR '','' \<notin> set (showAzureGroup g)"
    using assms by (auto simp: showAzureGroup_def azure_group_ok_def field_ok_def FormatInt_free)
  show "tight (showAzureGroup g)"
    using assms FormatInt_tight [of "ag_Weight g"]
    by (cases "ag_Group g") (auto simp: tight_def showAzureGroup_def azure_group_ok_def asciiSpace_def)
qed

theorem azure_groups_roundtrip:
  assumes "list_all azure_group_ok groups"
  shows "parseAzureVMSSGroups (Join (map showAzureGroup groups) '','') = Inr groups"
  unfolding parseAzureVMSSGroups_def
  by (rule parseSpec_Join) (use assms parse_showAzureGroup in \<open>auto simp: list_all_iff\<close>)

end
