(* ===== verification/ControlMain.thy ===== *)
theory ControlMain
  imports Config CloudPools GrpcAuth AdminProps ServerProps
begin

text \<open>
  How the control plane's command puts the parts together (\<open>cmd/controlplane/main.go\<close>): building the provider,
  opening the admin store with the password that is printed once, and the credentials of the gRPC server.
  Building API clients and credentials and binding listeners are outcomes given by the world.
\<close>

section \<open>The control plane\<close>

datatype poolProvider =
    Fake FakeProvider
  | File FileProvider
  | Azure AzureVMSSProvider
  | Kubernetes KubernetesProvider

datatype providerError =
    RequiredSetting string
  | BadGroups groupError
  | NoGroups string
  | CredentialFailed
  | FileFailed
  | ClientFailed
  | UnknownProvider string

text \<open>What building a client needs of the world: credentials, clients, the YAML file.\<close>

record providerWorld =
  pw_rng :: "nat stream"
  pw_azureCredential :: bool
  pw_azureClients :: bool
  pw_k8sClient :: bool
  pw_file :: fileWorld

definition buildProvider :: "providerWorld \<Rightarrow> 'x ControlPlaneConfig_scheme \<Rightarrow> providerError + poolProvider" where
  "buildProvider pw c =
     (if kc_Provider c = ''fake'' then
        Inr (Fake (NewFakeProvider (pw_rng pw) (nat (kc_FakeBasePort c)) [(''web-tier'', 3), (''api-tier'', 2)]))
      else if kc_Provider c = ''azure-vmss'' then
        (if kc_AzureSubscriptionID c = [] then Inl (RequiredSetting ''-azure-subscription-id'')
         else if kc_AzureResourceGroup c = [] then Inl (RequiredSetting ''-azure-resource-group'')
         else case parseAzureVMSSGroups (kc_AzureVMSSGroups c) of
                Inl e \<Rightarrow> Inl (BadGroups e)
              | Inr groups \<Rightarrow>
                  if length groups = 0 then Inl (NoGroups ''-azure-vmss-groups'')
                  else if \<not> pw_azureCredential pw then Inl CredentialFailed
                  else if \<not> pw_azureClients pw then Inl ClientFailed
                  else Inr (Azure (NewAzureVMSSProvider groups)))
      else if kc_Provider c = ''file'' then
        (case NewFileProvider (kc_FileProviderPath c) (pw_file pw) of None \<Rightarrow> Inl FileFailed | Some p \<Rightarrow> Inr (File p))
      else if kc_Provider c = ''kubernetes'' then
        (case ParseKubernetesGroups (kc_K8sGroups c) of
           Inl e \<Rightarrow> Inl (BadGroups e)
         | Inr groups \<Rightarrow>
             if length groups = 0 then Inl (NoGroups ''-k8s-groups'')
             else if \<not> pw_k8sClient pw then Inl ClientFailed
             else Inr (Kubernetes (newKubernetesProviderWithClient groups)))
      else Inl (UnknownProvider (kc_Provider c)))"

fun provider_groups :: "poolProvider \<Rightarrow> string list" where
  "provider_groups (Fake p) = map fst (fp_groups p)"
| "provider_groups (File p) = map fst (fpv_groups p)"
| "provider_groups (Azure p) = map fst p"
| "provider_groups (Kubernetes p) = map fst p"

lemma cp_accepted:
  assumes "ValidateControlPlane wd c = None"
  shows "kc_Provider c \<in> {''fake'', ''file'', ''azure-vmss'', ''kubernetes''} \<and> 0 < kc_ReconcileInterval c \<and> checkProvider c = []"
  using assms by (simp add: ValidateControlPlane_def problems_err_def check_iffs split: if_splits)

text \<open>Filling a map from a list: the keys, and the value of a key that occurs once.\<close>

lemma fill_keys:
  "fst ` set (foldl (\<lambda>m g. AList.update (k g) (v g) m) m gs) = fst ` set m \<union> k ` set gs"
  by (induction gs arbitrary: m) (auto simp: dom_update)

lemma fill_distinct:
  "distinct (map fst m) \<Longrightarrow> distinct (map fst (foldl (\<lambda>m g. AList.update (k g) (v g) m) m gs))"
  by (induction gs arbitrary: m) (simp_all add: distinct_update)

lemma fill_other: "n \<notin> k ` set gs \<Longrightarrow> map_of (foldl (\<lambda>m g. AList.update (k g) (v g) m) m gs) n = map_of m n"
  by (induction gs arbitrary: m) (auto simp: update_conv')

lemma fill_value:
  "distinct (map k gs) \<Longrightarrow> g \<in> set gs \<Longrightarrow> map_of (foldl (\<lambda>m g. AList.update (k g) (v g) m) m gs) (k g) = Some (v g)"
proof (induction gs arbitrary: m)
  case (Cons a gs)
  then show ?case
  proof (cases "g = a")
    case True
    then have "k g \<notin> k ` set gs" using Cons.prems(1) by simp
    then show ?thesis using fill_other [of "k g" k gs v] True by (simp add: update_conv')
  qed simp
qed simp

text \<open>
  A list of Kubernetes groups given in the documented form becomes the provider that serves exactly
  those groups, each with its namespace, service and port, and weight 1 where the weight was not
  positive; validation does not stand in the way, and nothing else than the client can fail.
\<close>

theorem kubernetes_groups_served:
  assumes "ValidateControlPlane wd c = None" "kc_Provider c = ''kubernetes''"
    and "kc_K8sGroups c = Join (map showKubernetesGroup groups) '',''"
    and "list_all k8s_group_ok groups" "distinct (map kg_Group groups)"
  shows "if pw_k8sClient pw
    then \<exists>p. buildProvider pw c = Inr (Kubernetes p) \<and> set (map fst p) = set (map kg_Group groups) \<and> distinct (map fst p) \<and>
      (\<forall>g \<in> set groups. map_of p (kg_Group g) = Some (g\<lparr>kg_Weight := if kg_Weight g \<le> 0 then 1 else kg_Weight g\<rparr>))
    else buildProvider pw c = Inl ClientFailed"
proof -
  have parsed: "ParseKubernetesGroups (kc_K8sGroups c) = Inr groups"
    unfolding assms(3) by (rule parse_KubernetesGroups [OF assms(4)])
  have "checkProvider c = []" using cp_accepted [OF assms(1)] by simp
  then have "groups \<noteq> []" using assms(2,3) by (auto simp: checkProvider_def check_iffs)
  then have "buildProvider pw c = (if pw_k8sClient pw then Inr (Kubernetes (newKubernetesProviderWithClient groups)) else Inl ClientFailed)"
    using parsed assms(2) by (simp add: buildProvider_def)
  moreover have "map_of (newKubernetesProviderWithClient groups) (kg_Group g) =
      Some (g\<lparr>kg_Weight := if kg_Weight g \<le> 0 then 1 else kg_Weight g\<rparr>)" if "g \<in> set groups" for g
    using fill_value [OF assms(5) that, of "\<lambda>g. if kg_Weight g \<le> 0 then g\<lparr>kg_Weight := 1\<rparr> else g" "[]"]
    by (simp add: newKubernetesProviderWithClient_def)
  moreover have "set (map fst (newKubernetesProviderWithClient groups)) = set (map kg_Group groups)"
    "distinct (map fst (newKubernetesProviderWithClient groups))"
    unfolding newKubernetesProviderWithClient_def list.set_map fill_keys by (simp_all add: fill_distinct)
  ultimately show ?thesis by simp
qed

definition demo_control :: ControlPlaneConfig where
  "demo_control = \<lparr>kc_GRPCAddr = '':9090'', kc_AdminAddr = [], kc_AdminDisable = True, kc_ReconcileInterval = 2,
     kc_TLSCert = [], kc_TLSKey = [], kc_TLSClientCA = [], kc_Provider = ''kubernetes'', kc_FakeBasePort = 0,
     kc_ScalingInterval = 0, kc_SimulateScaling = False, kc_AzureSubscriptionID = [], kc_AzureResourceGroup = [],
     kc_AzureVMSSGroups = [], kc_K8sGroups = ''web:ns:svc:80:0'', kc_K8sKubeconfig = [], kc_FileProviderPath = [],
     kc_StoreBackend = ''file'', kc_StoreDSN = [], kc_AdminTLSCert = [], kc_AdminTLSKey = [], kc_LogLevel = ''info'',
     kc_LogFormat = ''text''\<rparr>"

definition demo_files :: "(string, unit) world" where
  "demo_files = \<lparr>wd_isDir = \<lambda>_. None, wd_fs = \<lambda>_. None, wd_lib = demo_tls, wd_services = \<lambda>_. None\<rparr>"

theorem kubernetes_groups_served_witness:
  "\<forall>rng. \<exists>p. buildProvider \<lparr>pw_rng = rng, pw_azureCredential = False, pw_azureClients = False, pw_k8sClient = True,
       pw_file = \<lparr>fw_stat1 = None, fw_stat2 = None, fw_data = None\<rparr>\<rparr> demo_control = Inr (Kubernetes p) \<and>
     map_of p ''web'' = Some \<lparr>kg_Group = ''web'', kg_Namespace = ''ns'', kg_Service = ''svc'', kg_Port = 80, kg_Weight = 1\<rparr>"
proof
  fix rng
  let ?g = "\<lparr>kg_Group = ''web'', kg_Namespace = ''ns'', kg_Service = ''svc'', kg_Port = 80, kg_Weight = 0\<rparr>"
  let ?pw = "\<lparr>pw_rng = rng, pw_azureCredential = False, pw_azureClients = False, pw_k8sClient = True,
       pw_file = \<lparr>fw_stat1 = None, fw_stat2 = None, fw_data = None\<rparr>\<rparr>"
  have v: "ValidateControlPlane demo_files demo_control = None" by code_simp
  have "showKubernetesGroup ?g = ''web:ns:svc:80:0''" by code_simp
  then have k: "kc_K8sGroups demo_control = Join (map showKubernetesGroup [?g]) '',''" by (simp add: demo_control_def)
  have ok: "list_all k8s_group_ok [?g]" by code_simp
  have kind: "kc_Provider demo_control = ''kubernetes''" by (simp add: demo_control_def)
  show "\<exists>p. buildProvider ?pw demo_control = Inr (Kubernetes p) \<and>
      map_of p ''web'' = Some \<lparr>kg_Group = ''web'', kg_Namespace = ''ns'', kg_Service = ''svc'', kg_Port = 80, kg_Weight = 1\<rparr>"
    using kubernetes_groups_served [OF v kind k ok, of ?pw] by auto
qed

section \<open>The admin server\<close>

record adminConfig =
  ac_addr :: string
  ac_storePath :: string
  ac_auditLogPath :: string
  ac_tlsCert :: string
  ac_tlsKey :: string
  ac_trustForwardedFor :: bool
  ac_forceReset :: bool

text \<open>The result: the server and the password that is printed, if one is.\<close>

definition startAdminServer ::
    "(string \<Rightarrow> gotime option) \<Rightarrow> adminLib \<Rightarrow> adminWorld \<Rightarrow> bool \<Rightarrow> adminConfig \<Rightarrow> filesystem
       \<Rightarrow> (adminError + AdminServer \<times> string option) \<times> filesystem" where
  "startAdminServer parseTime lib w unreadable cfg fs =
     (case ad_Open (aw_crypto w) (aw_persist w) unreadable (ac_storePath cfg) fs of
        (Inl e, fs1) \<Rightarrow> (Inl e, fs1)
      | (Inr (store, generated), fs1) \<Rightarrow>
          (let auditLog = OpenAuditLog parseTime (ac_auditLogPath cfg) fs1;
               served = (\<lambda>store auditLog. newAdminServer store auditLog (ac_tlsCert cfg \<noteq> []) (ac_trustForwardedFor cfg))
           in case generated of
                Some password \<Rightarrow> (Inr (served store auditLog, Some password), fs1)
              | None \<Rightarrow>
                  if ac_forceReset cfg then
                    (case ResetToRandomPassword (aw_crypto w) (aw_persist w) (store, fs1) of
                       (Inl e, _, fs2) \<Rightarrow> (Inl e, fs2)
                     | (Inr password, store1, fs2) \<Rightarrow>
                         (let (auditLog1, fs3) = al_Record (lib_fmtTime lib) (aw_auditPersist w) (aw_now w) ''password_reset'' []
                                ''password force-reset via -admin-force-reset-password'' (auditLog, fs2)
                          in (Inr (served store1 auditLog1, Some password), fs3)))
                  else (Inr (served store auditLog, None), fs1)))"

lemma generated_saved:
  assumes "ad_generate ce env path fs = (Inr (store, pw), fs1)" "pe_tmp env \<noteq> path"
  shows "\<exists>password hash secret. pw = Some password \<and> ce_hash ce password = Some hash \<and> ce_secret ce = Some secret \<and>
    store = \<lparr>ad_path = path, ad_s = \<lparr>am_PasswordHash = hash, am_SessionSecret = secret\<rparr>\<rparr> \<and>
    fs1 path = Some (Doc (jSecrets (ad_s store)))"
proof -
  obtain password hash secret where h: "ce_hash ce password = Some hash" "ce_secret ce = Some secret" "pw = Some password"
    and st: "store = \<lparr>ad_path = path, ad_s = \<lparr>am_PasswordHash = hash, am_SessionSecret = secret\<rparr>\<rparr>"
    and p: "ad_persist env store fs = (None, fs1)"
    using assms(1) by (auto simp: ad_generate_def Let_def split: option.splits prod.splits)
  have "path \<noteq> []" "persistFile env path (jSecrets (ad_s store)) fs = (None, fs1)"
    using p st by (auto simp: ad_persist_def split: if_splits)
  then have "fs1 path = Some (Doc (jSecrets (ad_s store)))" using persistFile_ok [OF _ assms(2)] by blast
  then show ?thesis using h st by blast
qed

lemma reset_saved:
  assumes "ResetToRandomPassword ce env (store, fs) = (Inr pw, st1, fs1)" "pe_tmp env \<noteq> ad_path store"
  shows "\<exists>hash secret. ce_hash ce pw = Some hash \<and> ce_secret ce = Some secret \<and>
    st1 = store\<lparr>ad_s := \<lparr>am_PasswordHash = hash, am_SessionSecret = secret\<rparr>\<rparr> \<and> fs1 (ad_path store) = Some (Doc (jSecrets (ad_s st1)))"
proof -
  have "SetPassword ce env pw (store, fs) = (None, st1, fs1)"
    using assms(1) by (auto simp: ResetToRandomPassword_def split: option.splits prod.splits)
  from SetPassword_ok [OF this assms(2)] show ?thesis by blast
qed

lemma audit_leaves:
  assumes "path \<noteq> al_path a" "path \<noteq> pe_tmp env"
  shows "snd (al_Record fmt env now t ip msg (a, fs)) path = fs path"
proof -
  obtain doc where "snd (al_Record fmt env now t ip msg (a, fs)) = snd (persistFile env (al_path a) doc fs)"
    by (auto simp: al_Record_def al_persist_def Let_def)
  then show ?thesis using persistFile_other [of path "al_path a" env] assms by (metis prod.collapse)
qed

text \<open>
  The password that is printed at the start is the one: whether it was made for a new store or by a
  forced reset, the admin server accepts what bcrypt accepts for a hash of this password, and so the password, and
  a later start on the same files opens the same store and prints nothing. A start on an intact store without a reset changes no file.
\<close>

theorem printed_password:
  assumes "startAdminServer parseTime lib w False cfg fs = (Inr (srv, printed), fs1)"
    and bcrypt: "\<forall>p h. ce_hash (aw_crypto w) p = Some h \<longrightarrow> h \<noteq> [] \<and> lib_verify lib h p"
    and secret: "ce_secret (aw_crypto w) \<noteq> Some []"
    and paths: "pe_tmp (aw_persist w) \<noteq> ac_storePath cfg" "pe_tmp (aw_auditPersist w) \<noteq> ac_storePath cfg"
      "ac_auditLogPath cfg \<noteq> ac_storePath cfg"
  shows "case printed of
      Some pw \<Rightarrow> VerifyPassword (lib_verify lib) (sr_store srv) pw \<and>
        (\<exists>h. ce_hash (aw_crypto w) pw = Some h \<and> (\<forall>q. VerifyPassword (lib_verify lib) (sr_store srv) q \<longleftrightarrow> lib_verify lib h q)) \<and>
        ad_Open ce env False (ac_storePath cfg) fs1 = (Inr (sr_store srv, None), fs1)
    | None \<Rightarrow> fs1 = fs \<and> \<not> ac_forceReset cfg"
proof -
  let ?path = "ac_storePath cfg"
  obtain store gen fs0 where o: "ad_Open (aw_crypto w) (aw_persist w) False ?path fs = (Inr (store, gen), fs0)"
    using assms(1) by (auto simp: startAdminServer_def split: prod.splits sum.splits)
  have pth: "ad_path store = ?path"
    using o by (auto simp: ad_Open_def ad_generate_def Let_def split: option.splits prod.splits if_splits)
  have reopened: "ad_Open ce env False ?path fs' = (Inr (st, None), fs')"
    if "fs' ?path = Some (Doc (jSecrets (ad_s st)))" "ad_path st = ?path" "ad_s st = \<lparr>am_PasswordHash = h, am_SessionSecret = k\<rparr>"
      "h \<noteq> []" "k \<noteq> []" for fs' st h k
    using that by (cases st) (auto simp: ad_Open_def)
  show ?thesis
  proof (cases gen)
    case (Some pw)
    then have "ad_generate (aw_crypto w) (aw_persist w) ?path fs = (Inr (store, Some pw), fs0)"
      using o by (auto simp: ad_Open_def split: option.splits if_splits)
    from generated_saved [OF this paths(1)] obtain hash sec where h: "ce_hash (aw_crypto w) pw = Some hash"
      "ce_secret (aw_crypto w) = Some sec" "store = \<lparr>ad_path = ?path, ad_s = \<lparr>am_PasswordHash = hash, am_SessionSecret = sec\<rparr>\<rparr>"
      "fs0 ?path = Some (Doc (jSecrets (ad_s store)))" by blast
    have "sr_store srv = store" "printed = Some pw" "fs1 = fs0"
      using assms(1) o Some by (auto simp: startAdminServer_def newAdminServer_def Let_def)
    then show ?thesis using reopened [of fs0 store hash sec] h bcrypt secret by (simp add: VerifyPassword_def)
  next
    case None
    then have fs0: "fs0 = fs" using o
      by (auto simp: ad_Open_def ad_generate_def Let_def split: option.splits prod.splits if_splits)
    show ?thesis
    proof (cases "ac_forceReset cfg")
      case False
      then show ?thesis using assms(1) o None fs0 by (auto simp: startAdminServer_def Let_def)
    next
      case True
      let ?a = "OpenAuditLog parseTime (ac_auditLogPath cfg) fs0"
      obtain pw st1 fs2 where r: "ResetToRandomPassword (aw_crypto w) (aw_persist w) (store, fs0) = (Inr pw, st1, fs2)"
        using assms(1) o None True by (auto simp: startAdminServer_def Let_def split: prod.splits sum.splits)
      have "pe_tmp (aw_persist w) \<noteq> ad_path store" using paths(1) pth by simp
      from reset_saved [OF r this] obtain hash sec where h: "ce_hash (aw_crypto w) pw = Some hash"
        "ce_secret (aw_crypto w) = Some sec" "st1 = store\<lparr>ad_s := \<lparr>am_PasswordHash = hash, am_SessionSecret = sec\<rparr>\<rparr>"
        "fs2 ?path = Some (Doc (jSecrets (ad_s st1)))" using pth by auto
      have s: "sr_store srv = st1" "printed = Some pw"
        "fs1 = snd (al_Record (lib_fmtTime lib) (aw_auditPersist w) (aw_now w) ''password_reset'' []
          ''password force-reset via -admin-force-reset-password'' (?a, fs2))"
        using assms(1) o None True r
        by (auto simp: startAdminServer_def newAdminServer_def Let_def split: prod.splits)
      have "fs1 ?path = fs2 ?path"
        unfolding s(3) by (rule audit_leaves) (use paths in \<open>auto simp: OpenAuditLog_def\<close>)
      then show ?thesis using reopened [of fs1 st1 hash sec] h bcrypt secret s pth by (simp add: VerifyPassword_def)
    qed
  qed
qed

theorem printed_password_witness:
  "\<exists>srv pw fs1. startAdminServer (\<lambda>_. None) demo_lib (demo_world 6) False
       \<lparr>ac_addr = '':9091'', ac_storePath = ''/s'', ac_auditLogPath = ''/a'', ac_tlsCert = [], ac_tlsKey = [], ac_trustForwardedFor = False, ac_forceReset = False\<rparr> Map.empty =
     (Inr (srv, Some pw), fs1) \<and> VerifyPassword (lib_verify demo_lib) (sr_store srv) pw"
proof -
  let ?cfg = "\<lparr>ac_addr = '':9091'', ac_storePath = ''/s'', ac_auditLogPath = ''/a'', ac_tlsCert = [], ac_tlsKey = [], ac_trustForwardedFor = False, ac_forceReset = False\<rparr>"
  have w: "aw_crypto (demo_world 6) = demo_crypto" "pe_tmp (aw_persist (demo_world 6)) = ''/s.tmp''"
    "pe_tmp (aw_auditPersist (demo_world 6)) = ''/a.tmp''" by (simp_all add: demo_world_def quiet_env_def)
  obtain srv pw fs1 where s: "startAdminServer (\<lambda>_. None) demo_lib (demo_world 6) False ?cfg Map.empty = (Inr (srv, Some pw), fs1)"
    by (simp add: startAdminServer_def ad_Open_def ad_generate_def demo_world_def demo_crypto_def quiet_env_def
        ad_persist_def persistFile_def persistTrace_def Let_def)
  have b: "\<forall>p h. ce_hash (aw_crypto (demo_world 6)) p = Some h \<longrightarrow> h \<noteq> [] \<and> lib_verify demo_lib h p"
    "ce_secret (aw_crypto (demo_world 6)) \<noteq> Some []" by (auto simp: w(1) demo_lib_def demo_crypto_def)
  from printed_password [OF s b] have "VerifyPassword (lib_verify demo_lib) (sr_store srv) pw" by (simp add: w)
  then show ?thesis using s by blast
qed

section \<open>The start\<close>

record cpFlags = ControlPlaneConfig +
  kf_AuthToken :: string
  kf_Admin :: adminConfig
  kf_OverridesPath :: string
  kf_AlgorithmsPath :: string
  kf_RoutesPath :: string
  kf_StickyPath :: string
  kf_RateLimitPath :: string

datatype cpFailure =
    CPInvalid "problem list"
  | ProviderFailed providerError
  | StoreFailed
  | AdminFailed adminError
  | CPListenFailed string
  | GRPCTLSFailed certError

record ('c, 'p) cpInstance =
  ci_provider :: poolProvider
  ci_server :: "BlobStore Server"
  ci_admin :: "(AdminServer \<times> string option) option"
  ci_tls :: "('c, 'p) tlsConfig option"
  ci_authToken :: string

text \<open>The stores and the server on them: the rules come from the database or from a file, the settings from files.\<close>

definition cp_routes :: "PostgresBlobStore option \<Rightarrow> filesystem \<Rightarrow> cpFlags \<Rightarrow> BlobStore RouteStore option" where
  "cp_routes database fs f =
     (if kc_StoreBackend f = ''postgres'' then
        (case NewBlobStore False fs database (kc_StoreBackend f) [] of
           None \<Rightarrow> None
         | Some blob \<Rightarrow> Some (NewRouteStoreWithBackend blob_Load (Some blob) ''routes''))
      else
        (let (store, key) = fileStoreFromPath (kf_RoutesPath f) fs
         in Some (NewRouteStoreWithBackend blob_Load (map_option FileBlobs store) key)))"

definition cp_server :: "filesystem \<Rightarrow> cpFlags \<Rightarrow> 'st RouteStore \<Rightarrow> 'st Server" where
  "cp_server fs f routes =
     NewServer (Some (NewOverrideStore (kf_OverridesPath f) fs)) (Some (NewAlgorithmStore (kf_AlgorithmsPath f) fs))
       (Some routes) (Some (NewStickyStore (kf_StickyPath f) fs)) (Some (NewRateLimitStore (kf_RateLimitPath f) fs))"

definition cp_admin ::
    "(string \<Rightarrow> gotime option) \<Rightarrow> adminLib \<Rightarrow> adminWorld \<Rightarrow> bool \<Rightarrow> cpFlags \<Rightarrow> filesystem
       \<Rightarrow> (adminError + (AdminServer \<times> string option) option) \<times> filesystem" where
  "cp_admin parseTime lib w unreadable f fs =
     (if \<not> kc_AdminDisable f then
        (case startAdminServer parseTime lib w unreadable (kf_Admin f) fs of
           (Inl e, fs1) \<Rightarrow> (Inl e, fs1) | (Inr a, fs1) \<Rightarrow> (Inr (Some a), fs1))
      else (Inr None, fs))"

definition cp_tls :: "('c, 'p) world \<Rightarrow> cpFlags \<Rightarrow> certError + ('c, 'p) tlsConfig option" where
  "cp_tls wd f =
     (if kc_TLSCert f \<noteq> [] then
        (case LoadServerConfig (wd_lib wd) (wd_fs wd) (kc_TLSCert f) (kc_TLSKey f) (kc_TLSClientCA f) of
           Inl e \<Rightarrow> Inl e | Inr cfg \<Rightarrow> Inr (Some cfg))
      else Inr None)"

text \<open>
  \<open>main\<close> up to the point where it serves. The start of the admin server may write its files; \<open>canListen\<close> tells
  whether the address of the gRPC server can be bound.
\<close>

definition cp_main ::
    "('c, 'p) world \<Rightarrow> (string \<Rightarrow> bool) \<Rightarrow> providerWorld \<Rightarrow> PostgresBlobStore option \<Rightarrow> (string \<Rightarrow> gotime option) \<Rightarrow> adminLib \<Rightarrow> adminWorld \<Rightarrow> bool
       \<Rightarrow> cpFlags \<Rightarrow> filesystem \<Rightarrow> (cpFailure + ('c, 'p) cpInstance) \<times> filesystem" where
  "cp_main wd canListen pw database parseTime lib w unreadable f fs =
     (case ValidateControlPlane wd f of
        Some problems \<Rightarrow> (Inl (CPInvalid problems), fs)
      | None \<Rightarrow>
     (case buildProvider pw f of
        Inl e \<Rightarrow> (Inl (ProviderFailed e), fs)
      | Inr pool \<Rightarrow>
     (case cp_routes database fs f of
        None \<Rightarrow> (Inl StoreFailed, fs)
      | Some routes \<Rightarrow>
        (let srv = cp_server fs f routes
         in case cp_admin parseTime lib w unreadable f fs of
              (Inl e, fs1) \<Rightarrow> (Inl (AdminFailed e), fs1)
            | (Inr adm, fs1) \<Rightarrow>
                if \<not> canListen (kc_GRPCAddr f) then (Inl (CPListenFailed (kc_GRPCAddr f)), fs1)
                else
                (case cp_tls wd f of
                   Inl e \<Rightarrow> (Inl (GRPCTLSFailed e), fs1)
                 | Inr tls \<Rightarrow>
                     (Inr \<lparr>ci_provider = pool, ci_server = srv, ci_admin = adm, ci_tls = tls, ci_authToken = kf_AuthToken f\<rparr>, fs1))))))"

text \<open>After validation the TLS material of the gRPC server loads, and a CA makes client certificates required.\<close>

lemma grpc_tls_accepted:
  assumes "ValidateControlPlane wd f = None"
  shows "\<exists>tls. cp_tls wd f = Inr tls \<and> (tls = None \<longleftrightarrow> kc_TLSCert f = []) \<and>
    (kc_TLSClientCA f \<noteq> [] \<longrightarrow> pred_option tc_RequireClientCert tls)"
proof (cases "kc_TLSCert f = []")
  case False
  have "kc_TLSKey f \<noteq> []" "\<exists>cfg. LoadServerConfig (wd_lib wd) (wd_fs wd) (kc_TLSCert f) (kc_TLSKey f) (kc_TLSClientCA f) = Inr cfg"
    using assms False by (auto simp: ValidateControlPlane_def problems_err_def check_iffs split: if_splits sum.splits)
  then show ?thesis using False
    by (auto simp: cp_tls_def LoadServerConfig_def requireClients_def Let_def split: option.splits if_splits sum.splits)
qed (simp add: cp_tls_def)

section \<open>Settings and restarts\<close>

text \<open>The changes an administrator makes through the server.\<close>

datatype setting =
    SetsOverride string string "Override option"
  | SetsAlgorithm string string
  | SetsSticky string cpStickyConfig
  | SetsRateLimit string cpRateLimitConfig

fun set_setting :: "persistEnv \<Rightarrow> (string \<Rightarrow> Snapshot option) \<Rightarrow> setting \<Rightarrow> 'st Server \<times> filesystem \<Rightarrow> storeResult \<times> 'st Server \<times> filesystem" where
  "set_setting env snap (SetsOverride g a (Some ov)) sf = SetOverride env snap g a (ov_Weight ov) (ov_Drained ov) sf"
| "set_setting env snap (SetsOverride g a None) sf = ClearOverride env snap g a sf"
| "set_setting env snap (SetsAlgorithm g a) sf = SetAlgorithm env snap g a sf"
| "set_setting env snap (SetsSticky g c) sf = SetSticky env snap g c sf"
| "set_setting env snap (SetsRateLimit g r) sf = SetRateLimit env snap g r sf"

fun valid_setting :: "setting \<Rightarrow> bool" where
  "valid_setting (SetsOverride g a ov) = pred_option validOverride ov"
| "valid_setting (SetsAlgorithm g a) = IsValidAlgorithm a"
| "valid_setting (SetsSticky g c) = validSticky c"
| "valid_setting (SetsRateLimit g r) = validRateLimit r"

text \<open>
  A history without overlapping changes: each is stored without error before the next one begins; other parts may
  write other files, and sets may be published, in between.
\<close>

abbreviation settings_paths :: "cpFlags \<Rightarrow> string list" where
  "settings_paths f \<equiv> [kf_OverridesPath f, kf_AlgorithmsPath f, kf_StickyPath f, kf_RateLimitPath f]"

inductive settings_run :: "cpFlags \<Rightarrow> 'st Server \<times> filesystem \<Rightarrow> 'st Server \<times> filesystem \<Rightarrow> bool" for f where
  start: "settings_run f sf sf"
| change: "settings_run f sf (sv, fs) \<Longrightarrow> valid_setting s \<Longrightarrow> pe_tmp env \<notin> set (settings_paths f) \<Longrightarrow>
    set_setting env snap s (sv, fs) = (StoreOk, sv', fs') \<Longrightarrow> settings_run f sf (sv', fs')"
| other: "settings_run f sf (sv, fs) \<Longrightarrow> (\<forall>p \<in> set (settings_paths f). fs' p = fs p) \<Longrightarrow> settings_run f sf (sv, fs')"
| publish: "settings_run f sf (sv, fs) \<Longrightarrow> settings_run f sf (reconcile groups snap sv, fs)"

text \<open>The settings of a server and the settings that a start on the files reads.\<close>

definition same_settings :: "'st Server \<Rightarrow> 'u Server \<Rightarrow> bool" where
  "same_settings sv sv' \<longleftrightarrow>
     (\<forall>k. os_get (sv_overrides sv) k = os_get (sv_overrides sv') k) \<and> (\<forall>g. as_Get (sv_algorithms sv) g = as_Get (sv_algorithms sv') g) \<and>
     (\<forall>g. ss_Get (sv_sticky sv) g = ss_Get (sv_sticky sv') g) \<and> (\<forall>g. rs_Get (sv_rateLimits sv) g = rs_Get (sv_rateLimits sv') g)"

text \<open>A store whose file holds what it holds itself, for every store of the contract.\<close>

definition kept :: "('s \<Rightarrow> 'k \<Rightarrow> 'v) \<Rightarrow> (string \<Rightarrow> filesystem \<Rightarrow> 's) \<Rightarrow> ('s \<Rightarrow> string) \<Rightarrow> ('s \<Rightarrow> bool) \<Rightarrow> string \<Rightarrow> 's \<Rightarrow> filesystem \<Rightarrow> bool" where
  "kept get reload path ok p s fs \<longleftrightarrow> ok s \<and> path s = p \<and> (\<forall>k. get (reload p fs) k = get s k)"

context settings_store
begin

lemma kept_put:
  assumes "kept get reload path ok p s fs" "valid v" "put env k v (s, fs) = (StoreOk, s', fs')" "p \<noteq> []" "pe_tmp env \<noteq> p"
  shows "kept get reload path ok p s' fs'"
  using assms put_saved [of s v env k fs s' fs'] put_ok [of s v env k fs StoreOk s' fs'] by (auto simp: kept_def)

lemma kept_elsewhere: "kept get reload path ok p s fs \<Longrightarrow> fs' p = fs p \<Longrightarrow> kept get reload path ok p s fs'"
  using reload_cong [of fs' p fs] by (simp add: kept_def)

lemma kept_step:
  assumes "kept get reload path ok p s fs" "valid v" "put env k v (s, fs) = (StoreOk, s', fs')"
    and "pe_tmp env \<notin> set ps" "[] \<notin> set ps" "p \<in> set ps"
  shows "kept get reload path ok p s' fs' \<and> (\<forall>q \<in> set ps - {p}. fs' q = fs q)"
proof -
  have "p \<noteq> []" "pe_tmp env \<noteq> p" using assms(4-6) by auto
  moreover have "fs' q = fs q" if "q \<in> set ps - {p}" for q
    using put_other [OF _ assms(2,3), of q] assms(1,4) that by (auto simp: kept_def)
  ultimately show ?thesis using kept_put [OF assms(1-3)] by blast
qed

end

abbreviation "overrides_kept \<equiv> kept os_get NewOverrideStore os_path goodOverrides"
abbreviation "algorithms_kept \<equiv> kept as_Get NewAlgorithmStore as_path (\<lambda>s. goodMap (\<lambda>_. True) (as_data s))"
abbreviation "sticky_kept \<equiv> kept ss_Get NewStickyStore ss_path (\<lambda>s. goodMap validSticky (ss_data s))"
abbreviation "rates_kept \<equiv> kept rs_Get NewRateLimitStore rs_path (\<lambda>s. goodMap validRateLimit (rs_data s))"

definition settings_kept :: "cpFlags \<Rightarrow> 'st Server \<Rightarrow> filesystem \<Rightarrow> bool" where
  "settings_kept f sv fs \<longleftrightarrow>
     overrides_kept (kf_OverridesPath f) (sv_overrides sv) fs \<and> algorithms_kept (kf_AlgorithmsPath f) (sv_algorithms sv) fs \<and>
     sticky_kept (kf_StickyPath f) (sv_sticky sv) fs \<and> rates_kept (kf_RateLimitPath f) (sv_rateLimits sv) fs"

definition sound_files :: "cpFlags \<Rightarrow> filesystem \<Rightarrow> bool" where
  "sound_files f fs \<longleftrightarrow>
     goodOverrides (NewOverrideStore (kf_OverridesPath f) fs) \<and> goodMap (\<lambda>_. True) (as_data (NewAlgorithmStore (kf_AlgorithmsPath f) fs)) \<and>
     goodMap validSticky (ss_data (NewStickyStore (kf_StickyPath f) fs)) \<and>
     goodMap validRateLimit (rs_data (NewRateLimitStore (kf_RateLimitPath f) fs))"

lemma cp_server_settings [simp]:
  "sv_overrides (cp_server fs f routes) = NewOverrideStore (kf_OverridesPath f) fs"
  "sv_algorithms (cp_server fs f routes) = NewAlgorithmStore (kf_AlgorithmsPath f) fs"
  "sv_sticky (cp_server fs f routes) = NewStickyStore (kf_StickyPath f) fs"
  "sv_rateLimits (cp_server fs f routes) = NewRateLimitStore (kf_RateLimitPath f) fs"
  by (simp_all add: cp_server_def NewServer_def)

lemma republish_settings [simp]:
  "sv_overrides (afterStore res (forceRepublish snap g) sv) = sv_overrides sv"
  "sv_algorithms (afterStore res (forceRepublish snap g) sv) = sv_algorithms sv"
  "sv_sticky (afterStore res (forceRepublish snap g) sv) = sv_sticky sv"
  "sv_rateLimits (afterStore res (forceRepublish snap g) sv) = sv_rateLimits sv"
  by (simp_all add: afterStore_def forceRepublish_def commitSet_def Let_def split: option.split)

lemma settings_elsewhere:
  "settings_kept f sv fs \<Longrightarrow> \<forall>p \<in> set (settings_paths f). fs' p = fs p \<Longrightarrow> settings_kept f sv fs'"
  unfolding settings_kept_def
  by (simp add: override_store.kept_elsewhere [of _ _ fs] alg_store.kept_elsewhere [of _ _ fs]
      sticky_store.kept_elsewhere [of _ _ fs] rate_store.kept_elsewhere [of _ _ fs])

lemma settings_start: "sound_files f fs \<Longrightarrow> settings_kept f (cp_server fs f routes) fs"
  by (simp add: settings_kept_def sound_files_def kept_def)
    (simp add: NewOverrideStore_def NewAlgorithmStore_def NewStickyStore_def NewRateLimitStore_def)

lemma settings_read: "settings_kept f sv fs \<Longrightarrow> same_settings (cp_server fs f routes) sv"
  by (simp add: settings_kept_def kept_def same_settings_def)

text \<open>One change that is stored reaches its own file and no other.\<close>

lemmas kept_elsewhere = override_store.kept_elsewhere alg_store.kept_elsewhere sticky_store.kept_elsewhere rate_store.kept_elsewhere

lemma settings_change:
  assumes k: "settings_kept f sv fs" and v: "valid_setting s"
    and t: "pe_tmp env \<notin> set (settings_paths f)" "[] \<notin> set (settings_paths f)" "distinct (settings_paths f)"
    and c: "set_setting env snap s (sv, fs) = (StoreOk, sv', fs')"
  shows "settings_kept f sv' fs'"
proof (cases s)
  case (SetsOverride g a ov)
  obtain st where p: "os_put env (g, a) ov (sv_overrides sv, fs) = (StoreOk, st, fs')"
    and sv': "sv_overrides sv' = st" "sv_algorithms sv' = sv_algorithms sv" "sv_sticky sv' = sv_sticky sv" "sv_rateLimits sv' = sv_rateLimits sv"
    using c SetsOverride by (cases ov) (auto simp: SetOverride_def ClearOverride_def os_put_def Let_def split: prod.splits)
  from override_store.kept_step [OF _ _ p t(1,2), of "kf_OverridesPath f"] show ?thesis
    using k v t(3) SetsOverride sv' by (auto simp: settings_kept_def intro: kept_elsewhere)
next
  case (SetsAlgorithm g a)
  obtain st where p: "as_Set env g a (sv_algorithms sv, fs) = (StoreOk, st, fs')"
    and sv': "sv_overrides sv' = sv_overrides sv" "sv_algorithms sv' = st" "sv_sticky sv' = sv_sticky sv" "sv_rateLimits sv' = sv_rateLimits sv"
    using c SetsAlgorithm by (auto simp: SetAlgorithm_def Let_def split: prod.splits)
  from alg_store.kept_step [OF _ _ p t(1,2), of "kf_AlgorithmsPath f"] show ?thesis
    using k v t(3) SetsAlgorithm sv' by (auto simp: settings_kept_def intro: kept_elsewhere)
next
  case (SetsSticky g a)
  obtain st where p: "ss_Set env g a (sv_sticky sv, fs) = (StoreOk, st, fs')"
    and sv': "sv_overrides sv' = sv_overrides sv" "sv_algorithms sv' = sv_algorithms sv" "sv_sticky sv' = st" "sv_rateLimits sv' = sv_rateLimits sv"
    using c SetsSticky by (auto simp: SetSticky_def Let_def split: prod.splits)
  from sticky_store.kept_step [OF _ _ p t(1,2), of "kf_StickyPath f"] show ?thesis
    using k v t(3) SetsSticky sv' by (auto simp: settings_kept_def intro: kept_elsewhere)
next
  case (SetsRateLimit g a)
  obtain st where p: "rs_Set env g a (sv_rateLimits sv, fs) = (StoreOk, st, fs')"
    and sv': "sv_overrides sv' = sv_overrides sv" "sv_algorithms sv' = sv_algorithms sv" "sv_sticky sv' = sv_sticky sv" "sv_rateLimits sv' = st"
    using c SetsRateLimit by (auto simp: SetRateLimit_def Let_def split: prod.splits)
  from rate_store.kept_step [OF _ _ p t(1,2), of "kf_RateLimitPath f"] show ?thesis
    using k v t(3) SetsRateLimit sv' by (auto simp: settings_kept_def intro: kept_elsewhere)
qed

lemma settings_run_kept:
  assumes "settings_run f sf sf'" "settings_kept f (fst sf) (snd sf)" "[] \<notin> set (settings_paths f)" "distinct (settings_paths f)"
  shows "settings_kept f (fst sf') (snd sf')"
  using assms
proof (induction rule: settings_run.induct)
  case (change sf sv fs s env snap sv' fs')
  then show ?case using settings_change [of f sv fs s env snap sv' fs'] by simp
next
  case (other sf sv fs fs')
  then show ?case using settings_elsewhere [of f sv fs fs'] by simp
next
  case (publish sf sv fs groups snap)
  then show ?case using reconcile_settings [of groups snap sv] by (simp add: settings_kept_def)
qed simp

text \<open>The start of the admin server writes its own files only.\<close>

definition admin_files :: "cpFlags \<Rightarrow> adminWorld \<Rightarrow> string set" where
  "admin_files f w = {ac_storePath (kf_Admin f), ac_auditLogPath (kf_Admin f), pe_tmp (aw_persist w), pe_tmp (aw_auditPersist w)}"

lemma ad_persist_leaves: "p \<noteq> ad_path st \<Longrightarrow> p \<noteq> pe_tmp env \<Longrightarrow> snd (ad_persist env st fs) p = fs p"
  using persistFile_other [of p "ad_path st" env "jSecrets (ad_s st)" fs] by (auto simp: ad_persist_def) (metis prod.collapse)

lemma ad_Open_leaves:
  assumes "ad_Open ce env unreadable path fs = (res, fs1)" "p \<noteq> path" "p \<noteq> pe_tmp env"
  shows "fs1 p = fs p \<and> (\<forall>st g. res = Inr (st, g) \<longrightarrow> ad_path st = path)"
  using assms ad_persist_leaves [of p "\<lparr>ad_path = path, ad_s = x\<rparr>" env fs for x]
  by (auto simp: ad_Open_def ad_generate_def Let_def split: if_splits option.splits content.splits prod.splits)
    (metis snd_conv)+

lemma reset_leaves:
  assumes "p \<noteq> ad_path st" "p \<noteq> pe_tmp env"
  shows "snd (snd (ResetToRandomPassword ce env (st, fs))) p = fs p"
  using assms ad_persist_leaves [of p "st\<lparr>ad_s := x\<rparr>" env fs for x]
  by (auto simp: ResetToRandomPassword_def SetPassword_def Let_def split: option.splits prod.splits) (metis snd_conv)+

lemma admin_leaves:
  assumes "p \<notin> admin_files f w"
  shows "snd (cp_admin parseTime lib w unreadable f fs) p = fs p"
proof (cases "ad_Open (aw_crypto w) (aw_persist w) unreadable (ac_storePath (kf_Admin f)) fs")
  case (Pair res fs0)
  let ?a = "OpenAuditLog parseTime (ac_auditLogPath (kf_Admin f)) fs0"
  have p: "p \<noteq> ac_storePath (kf_Admin f)" "p \<noteq> ac_auditLogPath (kf_Admin f)" "p \<noteq> pe_tmp (aw_persist w)" "p \<noteq> pe_tmp (aw_auditPersist w)"
    using assms by (auto simp: admin_files_def)
  note o = ad_Open_leaves [OF Pair p(1,3)]
  have a: "snd (al_Record (lib_fmtTime lib) (aw_auditPersist w) (aw_now w) t ip msg (?a, fs')) p = fs' p" for t ip msg fs'
    by (rule audit_leaves) (use p in \<open>auto simp: OpenAuditLog_def\<close>)
  have r: "snd (snd (ResetToRandomPassword (aw_crypto w) (aw_persist w) (st, fs0))) p = fs0 p" if "res = Inr (st, g)" for st g
    using reset_leaves [of p st "aw_persist w" "aw_crypto w" fs0] o p that by simp
  show ?thesis using o a r Pair
    by (auto simp: cp_admin_def startAdminServer_def Let_def split: sum.splits option.splits prod.splits) (metis snd_conv)+
qed

text \<open>
  C9. Settings that were stored one after another survive a restart: after any sequence of changes of
  overrides, algorithms, affinity and rate limits, each stored without error before the next one begins, a
  start on the files that are left, with whatever provider, database and admin store then, serves exactly the
  settings the first one had at its end. Publications in between, the admin server's own files and other
  writers do not disturb them. Changes of one store that overlap are not covered: the code writes its file
  after releasing the lock, and one of them can be lost (\<open>concurrent_sets_lose\<close>).
\<close>

theorem settings_survive_start:
  assumes "cp_main wd canListen pw database parseTime lib w unreadable f fs = (Inr inst, fs1)" "sound_files f fs"
    and "set (settings_paths f) \<inter> admin_files f w = {}" "distinct (settings_paths f)" "[] \<notin> set (settings_paths f)"
    and "settings_run f (ci_server inst, fs1) (sv, fs2)"
    and "cp_main wd' canListen' pw' database' parseTime lib w' unreadable' f fs2 = (Inr inst', fs3)"
  shows "same_settings (ci_server inst') sv"
proof -
  obtain routes where s: "ci_server inst = cp_server fs f routes" and a: "fs1 = snd (cp_admin parseTime lib w unreadable f fs)"
    using assms(1) by (auto simp: cp_main_def Let_def split: option.splits sum.splits prod.splits if_splits)
  have "fs1 p = fs p" if "p \<in> set (settings_paths f)" for p
    unfolding a by (rule admin_leaves) (use assms(3) that in blast)
  then have "settings_kept f (ci_server inst) fs1"
    unfolding s by (intro settings_elsewhere [OF settings_start [OF assms(2)]]) blast
  then have k: "settings_kept f sv fs2" using settings_run_kept [OF assms(6) _ assms(5,4)] by simp
  obtain routes' where "ci_server inst' = cp_server fs2 f routes'"
    using assms(7) by (auto simp: cp_main_def Let_def split: option.splits sum.splits prod.splits if_splits)
  then show ?thesis using settings_read [OF k] by simp
qed


definition demo_cpFlags :: cpFlags where
  "demo_cpFlags = \<lparr>kc_GRPCAddr = '':9090'', kc_AdminAddr = [], kc_AdminDisable = True, kc_ReconcileInterval = 2,
     kc_TLSCert = [], kc_TLSKey = [], kc_TLSClientCA = [], kc_Provider = ''kubernetes'', kc_FakeBasePort = 0,
     kc_ScalingInterval = 0, kc_SimulateScaling = False, kc_AzureSubscriptionID = [], kc_AzureResourceGroup = [],
     kc_AzureVMSSGroups = [], kc_K8sGroups = ''web:ns:svc:80:0'', kc_K8sKubeconfig = [], kc_FileProviderPath = [],
     kc_StoreBackend = ''file'', kc_StoreDSN = [], kc_AdminTLSCert = [], kc_AdminTLSKey = [], kc_LogLevel = ''info'',
     kc_LogFormat = ''text'', kf_AuthToken = [],
     kf_Admin = \<lparr>ac_addr = '':9091'', ac_storePath = ''/s'', ac_auditLogPath = ''/a'', ac_tlsCert = [], ac_tlsKey = [], ac_trustForwardedFor = False, ac_forceReset = False\<rparr>,
     kf_OverridesPath = ''/o'', kf_AlgorithmsPath = ''/g'', kf_RoutesPath = [], kf_StickyPath = ''/t'', kf_RateLimitPath = ''/r''\<rparr>"

abbreviation demo_pw :: "nat stream \<Rightarrow> providerWorld" where
  "demo_pw rng \<equiv> \<lparr>pw_rng = rng, pw_azureCredential = False, pw_azureClients = False, pw_k8sClient = True,
     pw_file = \<lparr>fw_stat1 = None, fw_stat2 = None, fw_data = None\<rparr>\<rparr>"

abbreviation demo_start :: "nat stream \<Rightarrow> filesystem \<Rightarrow> (cpFailure + (string, unit) cpInstance) \<times> filesystem" where
  "demo_start rng fs \<equiv> cp_main demo_files (\<lambda>_. True) (demo_pw rng) None (\<lambda>_. None) demo_lib (demo_world 6) False demo_cpFlags fs"

lemma demo_started:
  "\<exists>inst. demo_start rng fs = (Inr inst, fs) \<and>
     ci_server inst = cp_server fs demo_cpFlags (NewRouteStoreWithBackend blob_Load None [])"
proof -
  have "ValidateControlPlane demo_files demo_cpFlags = None" "ParseKubernetesGroups (kc_K8sGroups demo_cpFlags) =
      Inr [\<lparr>kg_Group = ''web'', kg_Namespace = ''ns'', kg_Service = ''svc'', kg_Port = 80, kg_Weight = 0\<rparr>]" by code_simp+
  then show ?thesis
    by (simp add: cp_main_def buildProvider_def cp_routes_def cp_admin_def cp_tls_def fileStoreFromPath_def Let_def)
      (simp add: demo_cpFlags_def)
qed

theorem settings_survive_start_witness:
  "\<forall>rng. let fs1 = snd (snd (SetAlgorithm (quiet_env ''/tmp'') (\<lambda>_. None) ''web'' ''p2c''
       (cp_server Map.empty demo_cpFlags (NewRouteStoreWithBackend blob_Load None []), Map.empty)))
     in \<exists>inst fs2. demo_start rng fs1 = (Inr inst, fs2) \<and> as_Get (sv_algorithms (ci_server inst)) ''web'' = ''p2c''"
proof
  fix rng
  let ?sv = "cp_server Map.empty demo_cpFlags (NewRouteStoreWithBackend blob_Load None []) :: BlobStore Server"
  obtain inst where i: "demo_start rng Map.empty = (Inr inst, Map.empty)" "ci_server inst = ?sv" using demo_started by blast
  have v: "IsValidAlgorithm ''p2c''" by code_simp
  have d: "as_data (sv_algorithms ?sv) = Some []" "as_path (sv_algorithms ?sv) = ''/g''"
    by (simp_all add: NewAlgorithmStore_def loadFile_def demo_cpFlags_def)
  obtain sv1 fs1 where c: "SetAlgorithm (quiet_env ''/tmp'') (\<lambda>_. None) ''web'' ''p2c'' (?sv, Map.empty) = (StoreOk, sv1, fs1)"
    "as_Get (sv_algorithms sv1) ''web'' = ''p2c''"
    using v d by (auto simp: SetAlgorithm_def as_Set_def as_persist_def as_Get_def Let_def afterStore_def forceRepublish_def
        prod_eq_iff mapGet_def split: prod.splits dest!: arg_cong [where f = fst])
  have r: "settings_run demo_cpFlags (ci_server inst, Map.empty) (sv1, fs1)"
    unfolding i(2) by (rule settings_run.change [OF settings_run.start, where s = "SetsAlgorithm ''web'' ''p2c''"])
      (use c(1) v in \<open>simp_all add: demo_cpFlags_def quiet_env_def\<close>)
  obtain inst' where i': "demo_start rng fs1 = (Inr inst', fs1)" using demo_started by blast
  have "same_settings (ci_server inst') sv1"
    by (rule settings_survive_start [OF i(1) _ _ _ _ r i'])
      (simp_all add: sound_files_def admin_files_def demo_cpFlags_def demo_world_def quiet_env_def NewOverrideStore_def NewAlgorithmStore_def
        NewStickyStore_def NewRateLimitStore_def loadFile_def goodOverrides_def goodMap_def)
  then show "let fs1 = snd (snd (SetAlgorithm (quiet_env ''/tmp'') (\<lambda>_. None) ''web'' ''p2c'' (?sv, Map.empty)))
     in \<exists>inst fs2. demo_start rng fs1 = (Inr inst, fs2) \<and> as_Get (sv_algorithms (ci_server inst)) ''web'' = ''p2c''"
    using i' c by (auto simp: same_settings_def)
qed

end
