(* ===== verification/Flags.thy ===== *)
theory Flags
  imports Startup ControlMain
begin

text \<open>
  The settings of both commands: the flag tables at the top of \<open>cmd/dataplane/main.go\<close> and
  \<open>cmd/controlplane/main.go\<close> with their environment variables and defaults (\<open>internal/envflag\<close>), and the command line.
  Of the standard library, \<open>time.ParseDuration\<close>, \<open>strconv.ParseInt\<close> with base 0 and \<open>flag.Parse\<close> are modelled;
  \<open>strconv.ParseFloat\<close> is the argument \<open>pf\<close>. A command line that cannot be parsed ends the process with status 2,
  \<open>-h\<close> and \<open>-help\<close> with status 0.
\<close>

section \<open>Durations\<close>

text \<open>
  \<open>time.ParseDuration\<close>: an optional sign and numbers with units, summed in 64 bits. The scale of a fraction
  is a power of ten below \<open>10 ^ 19\<close>, exact in \<open>float64\<close>.
\<close>

fun leadingInt :: "int \<Rightarrow> string \<Rightarrow> (int \<times> string) option" where
  "leadingInt x [] = Some (x, [])"
| "leadingInt x (c # s) =
     (if \<not> is_digit c then Some (x, c # s)
      else if x > 2 ^ 63 div 10 then None
      else (let y = x * 10 + (of_char c - 48) in if y > 2 ^ 63 then None else leadingInt y s))"

fun leadingFraction :: "int \<Rightarrow> int \<Rightarrow> bool \<Rightarrow> string \<Rightarrow> int \<times> int \<times> string" where
  "leadingFraction x scale overflow [] = (x, scale, [])"
| "leadingFraction x scale overflow (c # s) =
     (if \<not> is_digit c then (x, scale, c # s)
      else if overflow \<or> x > (2 ^ 63 - 1) div 10 then leadingFraction x scale True s
      else (let y = x * 10 + (of_char c - 48)
            in if y > 2 ^ 63 then leadingFraction x scale True s else leadingFraction y (scale * 10) False s))"

definition unitMap :: "(string \<times> int) list" where
  "unitMap =
     [(''ns'', 1), (''us'', 1000), ([CHR 0xC2, CHR 0xB5] @ ''s'', 1000), ([CHR 0xCE, CHR 0xBC] @ ''s'', 1000),
      (''ms'', 1000000), (''s'', 1000000000), (''m'', 60000000000), (''h'', 3600000000000)]"

definition unitChar :: "char \<Rightarrow> bool" where
  "unitChar c \<longleftrightarrow> c \<noteq> CHR ''.'' \<and> \<not> is_digit c"

definition durItem :: "string \<Rightarrow> (int \<times> string) option" where
  "durItem s =
     (if s = [] \<or> unitChar (hd s) then None
      else case leadingInt 0 s of
        None \<Rightarrow> None
      | Some (v, s1) \<Rightarrow>
          (let pre = (length s1 \<noteq> length s);
               (f, scale, s2, post) =
                 (if s1 \<noteq> [] \<and> hd s1 = CHR ''.''
                  then (let (f, scale, s2) = leadingFraction 0 1 False (tl s1) in (f, scale, s2, length s2 \<noteq> length (tl s1)))
                  else (0, 1, s1, False));
               u = takeWhile unitChar s2
           in if \<not> pre \<and> \<not> post then None
              else if u = [] then None
              else case map_of unitMap u of
                None \<Rightarrow> None
              | Some unit \<Rightarrow>
                  if v > 2 ^ 63 div unit then None
                  else (let w = v * unit + (if f > 0 then \<lfloor>f64 (f64 (of_int f) * f64 (of_int unit / of_int scale))\<rfloor> else 0)
                        in if f > 0 \<and> w > 2 ^ 63 then None else Some (w, dropWhile unitChar s2))))"

lemma leadingInt_length: "leadingInt x s = Some (v, s') \<Longrightarrow> length s' \<le> length s"
  by (induction x s rule: leadingInt.induct) (auto simp: Let_def split: if_splits)

lemma leadingFraction_length: "leadingFraction x scale o' s = (v, sc, s') \<Longrightarrow> length s' \<le> length s"
proof (induction s arbitrary: x scale o')
  case (Cons c s)
  show ?case
  proof (cases "is_digit c")
    case True
    then obtain x1 scale1 o1 where "leadingFraction x1 scale1 o1 s = (v, sc, s')"
      using Cons.prems by (auto simp: Let_def split: if_splits)
    then show ?thesis using Cons.IH by (simp add: le_SucI)
  qed (use Cons.prems in simp)
qed simp

lemma dropWhile_shorter: "takeWhile P s \<noteq> [] \<Longrightarrow> length (dropWhile P s) < length s"
  by (cases s) (auto simp: less_Suc_eq_le length_dropWhile_le split: if_splits)

lemma durItem_shorter: "durItem s = Some (v, s') \<Longrightarrow> length s' < length s"
  by (auto simp: durItem_def Let_def length_tl split: option.splits prod.splits if_splits
      dest!: leadingInt_length leadingFraction_length dropWhile_shorter)

function durLoop :: "int \<Rightarrow> string \<Rightarrow> int option" where
  "durLoop d s =
     (if s = [] then Some d
      else case durItem s of
        None \<Rightarrow> None
      | Some (v, s') \<Rightarrow> (let d' = (d + v) mod 2 ^ 64 in if d' > 2 ^ 63 then None else durLoop d' s'))"
  by pat_completeness auto

termination
  by (relation "measure (\<lambda>(d, s). length s)") (auto dest: durItem_shorter)

declare durLoop.simps [simp del]

definition ParseDuration :: "string \<Rightarrow> duration option" where
  "ParseDuration s =
     (let neg = (s \<noteq> [] \<and> hd s = CHR ''-'');
          s1 = (if s \<noteq> [] \<and> (hd s = CHR ''-'' \<or> hd s = CHR ''+'') then tl s else s)
      in if s1 = ''0'' then Some 0
         else if s1 = [] then None
         else case durLoop 0 s1 of
           None \<Rightarrow> None
         | Some d \<Rightarrow> if neg then Some (- d) else if d > 2 ^ 63 - 1 then None else Some d)"

section \<open>Integers on the command line\<close>

text \<open>\<open>strconv.ParseInt\<close> with base 0: a prefix chooses the base, underscores may separate digits.\<close>

definition digitOf :: "char \<Rightarrow> nat option" where
  "digitOf c =
     (let n = of_char (to_lower c) :: nat
      in if is_digit c then Some (of_char c - 48) else if 97 \<le> n \<and> n \<le> 122 then Some (n - 97 + 10) else None)"

fun uintDigits :: "nat \<Rightarrow> nat \<Rightarrow> string \<Rightarrow> nat option" where
  "uintDigits base n [] = Some n"
| "uintDigits base n (c # s) =
     (if c = CHR ''_'' then uintDigits base n s
      else case digitOf c of None \<Rightarrow> None | Some d \<Rightarrow> if d \<ge> base then None else uintDigits base (n * base + d) s)"

definition basePrefix :: "string \<Rightarrow> nat \<times> string" where
  "basePrefix s =
     (if s = [] \<or> hd s \<noteq> CHR ''0'' then (10, s)
      else if length s \<ge> 3 \<and> to_lower (s ! 1) = CHR ''b'' then (2, drop 2 s)
      else if length s \<ge> 3 \<and> to_lower (s ! 1) = CHR ''o'' then (8, drop 2 s)
      else if length s \<ge> 3 \<and> to_lower (s ! 1) = CHR ''x'' then (16, drop 2 s)
      else (8, tl s))"

text \<open>The scan of \<open>underscoreOK\<close>; its state is \<open>0\<close> after a digit, \<open>_\<close> after an underscore, \<open>!\<close> otherwise.\<close>

fun underscoreScan :: "bool \<Rightarrow> char \<Rightarrow> string \<Rightarrow> bool" where
  "underscoreScan hex i [] \<longleftrightarrow> i \<noteq> CHR ''_''"
| "underscoreScan hex i (c # s) \<longleftrightarrow>
     (if is_digit c \<or> hex \<and> (case digitOf c of None \<Rightarrow> False | Some d \<Rightarrow> 10 \<le> d \<and> d < 16) then underscoreScan hex (CHR ''0'') s
      else if c = CHR ''_'' then i = CHR ''0'' \<and> underscoreScan hex (CHR ''_'') s
      else i \<noteq> CHR ''_'' \<and> underscoreScan hex (CHR ''!'') s)"

definition underscoreOK :: "string \<Rightarrow> bool" where
  "underscoreOK s =
     (if length s \<ge> 2 \<and> hd s = CHR ''0'' \<and> to_lower (s ! 1) \<in> {CHR ''b'', CHR ''o'', CHR ''x''}
      then underscoreScan (to_lower (s ! 1) = CHR ''x'') (CHR ''0'') (drop 2 s)
      else underscoreScan False (CHR ''^'') s)"

definition ParseIntBase0 :: "string \<Rightarrow> int option" where
  "ParseIntBase0 s =
     (let neg = (s \<noteq> [] \<and> hd s = CHR ''-'');
          s1 = (if s \<noteq> [] \<and> (hd s = CHR ''-'' \<or> hd s = CHR ''+'') then tl s else s);
          (base, ds) = basePrefix s1
      in if s1 = [] then None
         else case uintDigits base 0 ds of
           None \<Rightarrow> None
         | Some n \<Rightarrow>
             if CHR ''_'' \<in> set ds \<and> \<not> underscoreOK s1 then None
             else (let v = (if neg then - int n else int n) in if is_int64 v then Some v else None))"

section \<open>Flags\<close>

datatype flagValue = FString string | FBool bool | FInt int | FDuration duration | FFloat gofloat

type_synonym flagDef = "string \<times> string \<times> flagValue"
type_synonym flagValues = "(string \<times> flagValue) list"

text \<open>The reading of an environment variable and of a flag; \<open>None\<close> is a value that cannot be used.\<close>

definition ef_Float64 :: "(string \<Rightarrow> gofloat option) \<Rightarrow> environment \<Rightarrow> string \<Rightarrow> gofloat \<Rightarrow> gofloat" where
  "ef_Float64 pf env key fallback =
     (let v = env key in if v = [] then fallback else case pf v of None \<Rightarrow> fallback | Some x \<Rightarrow> x)"

definition ef_Duration :: "environment \<Rightarrow> string \<Rightarrow> duration \<Rightarrow> duration" where
  "ef_Duration env key fallback =
     (let v = env key in if v = [] then fallback else case ParseDuration v of None \<Rightarrow> fallback | Some d \<Rightarrow> d)"

fun envflag :: "(string \<Rightarrow> gofloat option) \<Rightarrow> environment \<Rightarrow> string \<Rightarrow> flagValue \<Rightarrow> flagValue" where
  "envflag pf env key (FString s) = FString (ef_String env key s)"
| "envflag pf env key (FBool b) = FBool (ef_Bool env key b)"
| "envflag pf env key (FInt n) = FInt (ef_Int env key n)"
| "envflag pf env key (FDuration d) = FDuration (ef_Duration env key d)"
| "envflag pf env key (FFloat x) = FFloat (ef_Float64 pf env key x)"

fun flag_Set :: "(string \<Rightarrow> gofloat option) \<Rightarrow> flagValue \<Rightarrow> string \<Rightarrow> flagValue option" where
  "flag_Set pf (FString _) s = Some (FString s)"
| "flag_Set pf (FBool _) s = map_option FBool (ParseBool s)"
| "flag_Set pf (FInt _) s = map_option FInt (ParseIntBase0 s)"
| "flag_Set pf (FDuration _) s = map_option FDuration (ParseDuration s)"
| "flag_Set pf (FFloat _) s = map_option FFloat (pf s)"

datatype flagExit = ExitUsage | ExitHelp

fun is_FBool :: "flagValue \<Rightarrow> bool" where
  "is_FBool (FBool _) = True"
| "is_FBool _ = False"

text \<open>The name and the value of an argument \<open>-name=value\<close>.\<close>

definition cutValue :: "string \<Rightarrow> string \<times> string option" where
  "cutValue a =
     (let n = takeWhile (\<lambda>c. c \<noteq> CHR ''='') a in (n, if length n = length a then None else Some (drop (length n + 1) a)))"

function flag_Parse :: "(string \<Rightarrow> gofloat option) \<Rightarrow> string list \<Rightarrow> flagValues \<Rightarrow> flagExit + flagValues" where
  "flag_Parse pf [] vals = Inr vals"
| "flag_Parse pf (s # args) vals =
     (if length s < 2 \<or> hd s \<noteq> CHR ''-'' \<or> s = ''--'' then Inr vals
      else let a = (if s ! 1 = CHR ''-'' then drop 2 s else drop 1 s); (name, value) = cutValue a
           in if a = [] \<or> hd a = CHR ''-'' \<or> hd a = CHR ''='' then Inl ExitUsage
              else case map_of vals name of
                None \<Rightarrow> Inl (if name = ''help'' \<or> name = ''h'' then ExitHelp else ExitUsage)
              | Some old \<Rightarrow>
                  (case (if is_FBool old \<and> value = None then Some (''true'', args)
                         else case value of Some v \<Rightarrow> Some (v, args)
                              | None \<Rightarrow> (case args of [] \<Rightarrow> None | v # args' \<Rightarrow> Some (v, args'))) of
                     None \<Rightarrow> Inl ExitUsage
                   | Some (v, rest) \<Rightarrow>
                       (case flag_Set pf old v of
                          None \<Rightarrow> Inl ExitUsage
                        | Some new \<Rightarrow> flag_Parse pf rest (AList.update name new vals))))"
  by pat_completeness auto

termination
  by (relation "measure (\<lambda>(pf, args, vals). length args)") (auto split: if_splits option.splits list.splits)

definition withEnv :: "(string \<Rightarrow> gofloat option) \<Rightarrow> environment \<Rightarrow> flagDef list \<Rightarrow> flagValues" where
  "withEnv pf env defs = map (\<lambda>(name, key, d). (name, envflag pf env key d)) defs"

text \<open>Reading the settings; a name that is not in the table has no value.\<close>

fun vString :: "flagValue option \<Rightarrow> string" where
  "vString (Some (FString s)) = s"
| "vString _ = []"

fun vBool :: "flagValue option \<Rightarrow> bool" where
  "vBool (Some (FBool b)) = b"
| "vBool _ = False"

fun vInt :: "flagValue option \<Rightarrow> int" where
  "vInt (Some (FInt n)) = n"
| "vInt _ = 0"

fun vDuration :: "flagValue option \<Rightarrow> duration" where
  "vDuration (Some (FDuration d)) = d"
| "vDuration _ = 0"

fun vFloat :: "flagValue option \<Rightarrow> gofloat" where
  "vFloat (Some (FFloat x)) = x"
| "vFloat _ = NaN"

section \<open>The settings of the data plane\<close>

definition dpFlagDefs :: "flagDef list" where
  "dpFlagDefs =
     [(''protocol'', ''LB_PROTOCOL'', FString ''http''),
      (''listen-addr'', ''LB_LISTEN_ADDR'', FString '':8080''),
      (''control-plane-addr'', ''LB_CONTROL_PLANE_ADDR'', FString ''localhost:9090''),
      (''group'', ''LB_GROUP'', FString ''web-tier''),
      (''instance-id'', ''LB_INSTANCE_ID'', FString []),
      (''health-check-interval'', ''LB_HEALTH_CHECK_INTERVAL'', FDuration (5 * second)),
      (''health-check-timeout'', ''LB_HEALTH_CHECK_TIMEOUT'', FDuration (2 * second)),
      (''unhealthy-threshold'', ''LB_UNHEALTHY_THRESHOLD'', FInt 3),
      (''healthy-threshold'', ''LB_HEALTHY_THRESHOLD'', FInt 2),
      (''health-check-mode'', ''LB_HEALTH_CHECK_MODE'', FString ''tcp''),
      (''health-check-path'', ''LB_HEALTH_CHECK_PATH'', FString ''/''),
      (''health-check-expect-status'', ''LB_HEALTH_CHECK_EXPECT_STATUS'', FInt 0),
      (''health-check-scheme'', ''LB_HEALTH_CHECK_SCHEME'', FString ''http''),
      (''health-check-host'', ''LB_HEALTH_CHECK_HOST'', FString []),
      (''control-plane-tls'', ''LB_CONTROL_PLANE_TLS'', FBool False),
      (''control-plane-tls-ca'', ''LB_CONTROL_PLANE_TLS_CA'', FString []),
      (''control-plane-tls-client-cert'', ''LB_CONTROL_PLANE_TLS_CLIENT_CERT'', FString []),
      (''control-plane-tls-client-key'', ''LB_CONTROL_PLANE_TLS_CLIENT_KEY'', FString []),
      (''control-plane-auth-token'', ''LB_CONTROL_PLANE_AUTH_TOKEN'', FString []),
      (''http-tls-cert'', ''LB_HTTP_TLS_CERT'', FString []),
      (''http-tls-key'', ''LB_HTTP_TLS_KEY'', FString []),
      (''http-tls-certs'', ''LB_HTTP_TLS_CERTS'', FString []),
      (''http-tls-reload-interval'', ''LB_HTTP_TLS_RELOAD_INTERVAL'', FDuration 0),
      (''http-tls-client-ca'', ''LB_HTTP_TLS_CLIENT_CA'', FString []),
      (''health-report-interval'', ''LB_HEALTH_REPORT_INTERVAL'', FDuration (10 * second)),
      (''proxy-connect-timeout'', ''LB_PROXY_CONNECT_TIMEOUT'', FDuration (5 * second)),
      (''proxy-response-timeout'', ''LB_PROXY_RESPONSE_TIMEOUT'', FDuration (30 * second)),
      (''proxy-max-retries'', ''LB_PROXY_MAX_RETRIES'', FInt 1),
      (''proxy-retry-backoff'', ''LB_PROXY_RETRY_BACKOFF'', FDuration (50 * millisecond)),
      (''tcp-dial-timeout'', ''LB_TCP_DIAL_TIMEOUT'', FDuration (5 * second)),
      (''shutdown-grace'', ''LB_SHUTDOWN_GRACE'', FDuration (5 * second)),
      (''access-log'', ''LB_ACCESS_LOG'', FBool False),
      (''access-log-format'', ''LB_ACCESS_LOG_FORMAT'', FString ''json''),
      (''tracing'', ''LB_TRACING'', FBool False),
      (''tracing-endpoint'', ''LB_TRACING_ENDPOINT'', FString []),
      (''tracing-protocol'', ''LB_TRACING_PROTOCOL'', FString ''grpc''),
      (''tracing-insecure'', ''LB_TRACING_INSECURE'', FBool False),
      (''tracing-sample-ratio'', ''LB_TRACING_SAMPLE_RATIO'', FFloat (Fin 1)),
      (''tracing-service-name'', ''LB_TRACING_SERVICE_NAME'', FString ''jbalance-dataplane''),
      (''outlier-detection'', ''LB_OUTLIER_DETECTION'', FBool False),
      (''outlier-consecutive-errors'', ''LB_OUTLIER_CONSECUTIVE_ERRORS'', FInt 5),
      (''outlier-eject-duration'', ''LB_OUTLIER_EJECT_DURATION'', FDuration (30 * second)),
      (''outlier-max-eject-duration'', ''LB_OUTLIER_MAX_EJECT_DURATION'', FDuration (5 * minute)),
      (''outlier-max-eject-percent'', ''LB_OUTLIER_MAX_EJECT_PERCENT'', FInt 50),
      (''backend-protocol'', ''LB_BACKEND_PROTOCOL'', FString ''http1''),
      (''metrics-addr'', ''LB_METRICS_ADDR'', FString '':9100''),
      (''metrics-enabled'', ''LB_METRICS_ENABLED'', FBool True),
      (''metrics-disable'', ''LB_METRICS_DISABLE'', FBool False),
      (''metrics-report-interval'', ''LB_METRICS_REPORT_INTERVAL'', FDuration (10 * second)),
      (''ops-addr'', ''LB_OPS_ADDR'', FString '':9101''),
      (''log-level'', ''LB_LOG_LEVEL'', FString ''info''),
      (''log-format'', ''LB_LOG_FORMAT'', FString ''text''),
      (''max-conns'', ''LB_MAX_CONNS'', FInt 0),
      (''max-header-bytes'', ''LB_MAX_HEADER_BYTES'', FInt 1048576),
      (''max-body-bytes'', ''LB_MAX_BODY_BYTES'', FInt 0),
      (''read-header-timeout'', ''LB_READ_HEADER_TIMEOUT'', FDuration (10 * second))]"

definition dpSettings :: "flagValues \<Rightarrow> dpFlags" where
  "dpSettings vals =
     (let v = map_of vals in
      \<lparr>dc_Protocol = vString (v ''protocol''),
      dc_ListenAddr = vString (v ''listen-addr''),
      dc_ControlPlaneAddr = vString (v ''control-plane-addr''),
      dc_Group = vString (v ''group''),
      dc_MetricsAddr = vString (v ''metrics-addr''),
      dc_MetricsEnabled = vBool (v ''metrics-enabled''),
      dc_MetricsDisable = vBool (v ''metrics-disable''),
      dc_OpsAddr = vString (v ''ops-addr''),
      dc_HealthCheckMode = vString (v ''health-check-mode''),
      dc_HealthCheckScheme = vString (v ''health-check-scheme''),
      dc_HealthCheckInterval = vDuration (v ''health-check-interval''),
      dc_HealthCheckTimeout = vDuration (v ''health-check-timeout''),
      dc_HealthCheckExpectStatus = vInt (v ''health-check-expect-status''),
      dc_UnhealthyThreshold = vInt (v ''unhealthy-threshold''),
      dc_HealthyThreshold = vInt (v ''healthy-threshold''),
      dc_BackendProtocol = vString (v ''backend-protocol''),
      dc_AccessLog = vBool (v ''access-log''),
      dc_AccessLogFormat = vString (v ''access-log-format''),
      dc_TracingEnabled = vBool (v ''tracing''),
      dc_TracingProtocol = vString (v ''tracing-protocol''),
      dc_TracingSampleRatio = vFloat (v ''tracing-sample-ratio''),
      dc_ProxyConnectTimeout = vDuration (v ''proxy-connect-timeout''),
      dc_ProxyResponseTimeout = vDuration (v ''proxy-response-timeout''),
      dc_ProxyMaxRetries = vInt (v ''proxy-max-retries''),
      dc_ProxyRetryBackoff = vDuration (v ''proxy-retry-backoff''),
      dc_TCPDialTimeout = vDuration (v ''tcp-dial-timeout''),
      dc_ShutdownGrace = vDuration (v ''shutdown-grace''),
      dc_MaxConns = vInt (v ''max-conns''),
      dc_MaxHeaderBytes = vInt (v ''max-header-bytes''),
      dc_MaxBodyBytes = vInt (v ''max-body-bytes''),
      dc_ReadHeaderTimeout = vDuration (v ''read-header-timeout''),
      dc_OutlierDetection = vBool (v ''outlier-detection''),
      dc_OutlierConsecutiveError = vInt (v ''outlier-consecutive-errors''),
      dc_OutlierEjectDuration = vDuration (v ''outlier-eject-duration''),
      dc_OutlierMaxEjectDuration = vDuration (v ''outlier-max-eject-duration''),
      dc_OutlierMaxEjectPercent = vInt (v ''outlier-max-eject-percent''),
      dc_CPTLSEnable = vBool (v ''control-plane-tls''),
      dc_CPTLSCACert = vString (v ''control-plane-tls-ca''),
      dc_CPTLSClientCert = vString (v ''control-plane-tls-client-cert''),
      dc_CPTLSClientKey = vString (v ''control-plane-tls-client-key''),
      dc_HTTPTLSCert = vString (v ''http-tls-cert''),
      dc_HTTPTLSKey = vString (v ''http-tls-key''),
      dc_HTTPTLSCerts = vString (v ''http-tls-certs''),
      dc_HTTPTLSClientCA = vString (v ''http-tls-client-ca''),
      dc_HTTPTLSReloadInterval = vDuration (v ''http-tls-reload-interval''),
      dc_LogLevel = vString (v ''log-level''),
      dc_LogFormat = vString (v ''log-format''),
      fl_InstanceID = vString (v ''instance-id''),
      fl_HealthCheckPath = vString (v ''health-check-path''),
      fl_HealthCheckHost = vString (v ''health-check-host''),
      fl_HealthReportInterval = vDuration (v ''health-report-interval''),
      fl_MetricsReportInterval = vDuration (v ''metrics-report-interval''),
      fl_CPAuthToken = vString (v ''control-plane-auth-token''),
      fl_TracingEndpoint = vString (v ''tracing-endpoint''),
      fl_TracingInsecure = vBool (v ''tracing-insecure''),
      fl_TracingServiceName = vString (v ''tracing-service-name'')\<rparr>)"

section \<open>The settings of the control plane\<close>

definition cpFlagDefs :: "flagDef list" where
  "cpFlagDefs =
     [(''grpc-addr'', ''LB_GRPC_ADDR'', FString '':9090''),
      (''reconcile-interval'', ''LB_RECONCILE_INTERVAL'', FDuration (2 * second)),
      (''tls-cert'', ''LB_TLS_CERT'', FString []),
      (''tls-key'', ''LB_TLS_KEY'', FString []),
      (''tls-client-ca'', ''LB_TLS_CLIENT_CA'', FString []),
      (''control-plane-auth-token'', ''LB_CONTROL_PLANE_AUTH_TOKEN'', FString []),
      (''provider'', ''LB_PROVIDER'', FString ''fake''),
      (''simulate-scaling'', ''LB_SIMULATE_SCALING'', FBool True),
      (''scaling-interval'', ''LB_SCALING_INTERVAL'', FDuration (5 * second)),
      (''fake-base-port'', ''LB_FAKE_BASE_PORT'', FInt 8081),
      (''azure-subscription-id'', ''LB_AZURE_SUBSCRIPTION_ID'', FString []),
      (''azure-resource-group'', ''LB_AZURE_RESOURCE_GROUP'', FString []),
      (''azure-vmss-groups'', ''LB_AZURE_VMSS_GROUPS'', FString []),
      (''k8s-groups'', ''LB_K8S_GROUPS'', FString []),
      (''k8s-kubeconfig'', ''LB_K8S_KUBECONFIG'', FString []),
      (''file-provider-path'', ''LB_FILE_PROVIDER_PATH'', FString []),
      (''admin-addr'', ''LB_ADMIN_ADDR'', FString '':9091''),
      (''admin-disable'', ''LB_ADMIN_DISABLE'', FBool False),
      (''admin-store-path'', ''LB_ADMIN_STORE_PATH'', FString ''/var/lib/go-loadbalancer/admin.json''),
      (''admin-audit-log-path'', ''LB_ADMIN_AUDIT_LOG_PATH'', FString ''/var/lib/go-loadbalancer/audit.json''),
      (''admin-overrides-path'', ''LB_ADMIN_OVERRIDES_PATH'', FString ''/var/lib/go-loadbalancer/overrides.json''),
      (''admin-algorithms-path'', ''LB_ADMIN_ALGORITHMS_PATH'', FString ''/var/lib/go-loadbalancer/algorithms.json''),
      (''admin-routes-path'', ''LB_ADMIN_ROUTES_PATH'', FString ''/var/lib/go-loadbalancer/routes.json''),
      (''store-backend'', ''LB_STORE_BACKEND'', FString ''file''),
      (''store-dsn'', ''LB_STORE_DSN'', FString []),
      (''admin-sticky-path'', ''LB_ADMIN_STICKY_PATH'', FString ''/var/lib/go-loadbalancer/sticky.json''),
      (''admin-ratelimit-path'', ''LB_ADMIN_RATELIMIT_PATH'', FString ''/var/lib/go-loadbalancer/ratelimit.json''),
      (''admin-tls-cert'', ''LB_ADMIN_TLS_CERT'', FString []),
      (''admin-tls-key'', ''LB_ADMIN_TLS_KEY'', FString []),
      (''admin-trust-forwarded-for'', ''LB_ADMIN_TRUST_FORWARDED_FOR'', FBool False),
      (''admin-force-reset-password'', ''LB_ADMIN_FORCE_RESET_PASSWORD'', FBool False),
      (''log-level'', ''LB_LOG_LEVEL'', FString ''info''),
      (''log-format'', ''LB_LOG_FORMAT'', FString ''text'')]"

definition cpSettings :: "flagValues \<Rightarrow> cpFlags" where
  "cpSettings vals =
     (let v = map_of vals in
      \<lparr>kc_GRPCAddr = vString (v ''grpc-addr''),
      kc_AdminAddr = vString (v ''admin-addr''),
      kc_AdminDisable = vBool (v ''admin-disable''),
      kc_ReconcileInterval = vDuration (v ''reconcile-interval''),
      kc_TLSCert = vString (v ''tls-cert''),
      kc_TLSKey = vString (v ''tls-key''),
      kc_TLSClientCA = vString (v ''tls-client-ca''),
      kc_Provider = vString (v ''provider''),
      kc_FakeBasePort = vInt (v ''fake-base-port''),
      kc_ScalingInterval = vDuration (v ''scaling-interval''),
      kc_SimulateScaling = vBool (v ''simulate-scaling''),
      kc_AzureSubscriptionID = vString (v ''azure-subscription-id''),
      kc_AzureResourceGroup = vString (v ''azure-resource-group''),
      kc_AzureVMSSGroups = vString (v ''azure-vmss-groups''),
      kc_K8sGroups = vString (v ''k8s-groups''),
      kc_K8sKubeconfig = vString (v ''k8s-kubeconfig''),
      kc_FileProviderPath = vString (v ''file-provider-path''),
      kc_StoreBackend = vString (v ''store-backend''),
      kc_StoreDSN = vString (v ''store-dsn''),
      kc_AdminTLSCert = vString (v ''admin-tls-cert''),
      kc_AdminTLSKey = vString (v ''admin-tls-key''),
      kc_LogLevel = vString (v ''log-level''),
      kc_LogFormat = vString (v ''log-format''),
      kf_AuthToken = vString (v ''control-plane-auth-token''),
      kf_Admin = \<lparr>ac_addr = vString (v ''admin-addr''), ac_storePath = vString (v ''admin-store-path''),
        ac_auditLogPath = vString (v ''admin-audit-log-path''), ac_tlsCert = vString (v ''admin-tls-cert''),
        ac_tlsKey = vString (v ''admin-tls-key''), ac_trustForwardedFor = vBool (v ''admin-trust-forwarded-for''),
        ac_forceReset = vBool (v ''admin-force-reset-password'')\<rparr>,
      kf_OverridesPath = vString (v ''admin-overrides-path''),
      kf_AlgorithmsPath = vString (v ''admin-algorithms-path''),
      kf_RoutesPath = vString (v ''admin-routes-path''),
      kf_StickyPath = vString (v ''admin-sticky-path''),
      kf_RateLimitPath = vString (v ''admin-ratelimit-path'')\<rparr>)"

section \<open>Kinds and precedence\<close>

fun same_kind :: "flagValue \<Rightarrow> flagValue \<Rightarrow> bool" where
  "same_kind (FString _) (FString _) = True"
| "same_kind (FBool _) (FBool _) = True"
| "same_kind (FInt _) (FInt _) = True"
| "same_kind (FDuration _) (FDuration _) = True"
| "same_kind (FFloat _) (FFloat _) = True"
| "same_kind _ _ = False"

lemma same_kind_iff:
  "same_kind a b \<longleftrightarrow> (case a of FString _ \<Rightarrow> (\<exists>x. b = FString x) | FBool _ \<Rightarrow> (\<exists>x. b = FBool x) | FInt _ \<Rightarrow> (\<exists>x. b = FInt x)
     | FDuration _ \<Rightarrow> (\<exists>x. b = FDuration x) | FFloat _ \<Rightarrow> (\<exists>x. b = FFloat x))"
  by (cases a; cases b) simp_all

lemma same_kind_trans: "same_kind a b \<Longrightarrow> same_kind b c \<Longrightarrow> same_kind a c"
  by (cases a; cases b; cases c) simp_all

lemma flag_Set_kind: "flag_Set pf a s = Some b \<Longrightarrow> same_kind a b"
  by (cases a) auto

lemma flag_Set_same: "same_kind a b \<Longrightarrow> flag_Set pf b s = flag_Set pf a s"
  by (cases a; cases b) simp_all

lemma envflag_kind: "same_kind d (envflag pf env key d)"
  by (cases d) simp_all

definition flags_fit :: "flagDef list \<Rightarrow> flagValues \<Rightarrow> bool" where
  "flags_fit defs vals \<longleftrightarrow> list_all2 (\<lambda>(n, _, d) (n', v). n' = n \<and> same_kind d v) defs vals"

lemma flags_fit_withEnv: "flags_fit defs (withEnv pf env defs)"
  by (auto simp: flags_fit_def withEnv_def list_all2_conv_all_nth envflag_kind split: prod.splits)

lemma flags_fit_keys: "flags_fit defs vals \<Longrightarrow> map fst vals = map fst defs"
  unfolding flags_fit_def by (induction rule: list_all2_induct) auto

lemma flags_fit_lookup:
  assumes "flags_fit defs vals" "distinct (map fst defs)" "(n, k, d) \<in> set defs"
  shows "\<exists>v. map_of vals n = Some v \<and> same_kind d v"
  using assms(1)[unfolded flags_fit_def] assms(2,3)
proof (induction rule: list_all2_induct)
  case (Cons p defs q vals)
  then show ?case by (cases q) (force split: prod.splits)
qed simp

lemma flags_fit_update:
  assumes "flags_fit defs vals" "map_of vals n = Some old" "same_kind old new"
  shows "flags_fit defs (AList.update n new vals)"
  using assms(1)[unfolded flags_fit_def] assms(2) unfolding flags_fit_def
proof (induction rule: list_all2_induct)
  case (Cons p defs q vals)
  then show ?case using assms(3) same_kind_trans by (cases q) (auto split: if_splits)
qed simp

lemma flag_Parse_fits: "flag_Parse pf args vals = Inr vals' \<Longrightarrow> flags_fit defs vals \<Longrightarrow> flags_fit defs vals'"
proof (induction pf args vals rule: flag_Parse.induct)
  case (2 pf s args vals)
  show ?case
  proof (cases "length s < 2 \<or> hd s \<noteq> CHR ''-'' \<or> s = ''--''")
    case False
    obtain name val where c: "cutValue (if s ! 1 = CHR ''-'' then drop 2 s else drop 1 s) = (name, val)" by fastforce
    obtain old v rest new where r: "map_of vals name = Some old" "flag_Set pf old v = Some new"
      "flag_Parse pf rest (AList.update name new vals) = Inr vals'" "flags_fit defs (AList.update name new vals) \<Longrightarrow> flags_fit defs vals'"
      using 2 False c by (auto simp: Let_def split: if_splits option.splits prod.splits list.splits)
    then show ?thesis using flags_fit_update [OF 2(3)] flag_Set_kind by blast
  qed (use 2 in auto)
qed simp

text \<open>What an environment variable holds, read as the kind of the flag: integers are decimal here.\<close>

fun envRead :: "(string \<Rightarrow> gofloat option) \<Rightarrow> flagValue \<Rightarrow> string \<Rightarrow> flagValue option" where
  "envRead pf (FString _) s = (if s = [] then None else Some (FString s))"
| "envRead pf (FBool _) s = map_option FBool (ParseBool s)"
| "envRead pf (FInt _) s = map_option FInt (ParseInt64 s)"
| "envRead pf (FDuration _) s = map_option FDuration (ParseDuration s)"
| "envRead pf (FFloat _) s = (if s = [] then None else map_option FFloat (pf s))"

lemma empty_unreadable [simp]: "ParseBool [] = None" "ParseInt64 [] = None" "ParseDuration [] = None"
  by (simp_all add: ParseBool_def ParseInt64_def ParseDuration_def)

lemma envflag_read: "envflag pf env key d = (case envRead pf d (env key) of None \<Rightarrow> d | Some v \<Rightarrow> v)"
  by (cases d) (auto simp: ef_String_def ef_Bool_def ef_Int_def ef_Duration_def ef_Float64_def Let_def split: option.split)

definition showArg :: "string \<times> string \<Rightarrow> string" where
  "showArg = (\<lambda>(n, x). ''-'' @ n @ ''='' @ x)"

definition flag_name :: "string \<Rightarrow> bool" where
  "flag_name n \<longleftrightarrow> n \<noteq> [] \<and> hd n \<noteq> CHR ''-'' \<and> CHR ''='' \<notin> set n"

lemma table_names:
  "list_all flag_name (map fst dpFlagDefs)" "distinct (map fst dpFlagDefs)"
  "list_all flag_name (map fst cpFlagDefs)" "distinct (map fst cpFlagDefs)"
  by code_simp+

lemma cutValue_show: "flag_name n \<Longrightarrow> cutValue (n @ ''='' @ x) = (n, Some x)"
  by (auto simp: cutValue_def flag_name_def Let_def takeWhile_append)

lemma flag_Parse_show:
  assumes "flag_name n" "map_of vals n = Some old" "flag_Set pf old x = Some new"
  shows "flag_Parse pf (showArg (n, x) # args) vals = flag_Parse pf args (AList.update n new vals)"
proof -
  obtain c cs where n: "n = c # cs" "c \<noteq> CHR ''-''" "c \<noteq> CHR ''=''" using assms(1) by (cases n) (auto simp: flag_name_def)
  then show ?thesis using assms cutValue_show [OF assms(1), of x] by (simp add: showArg_def)
qed

lemma flag_Parse_given:
  assumes "flags_fit defs vals" "list_all flag_name (map fst defs)" "distinct (map fst defs)"
    and "list_all (\<lambda>(n, x). \<exists>k d. (n, k, d) \<in> set defs \<and> flag_Set pf d x \<noteq> None) given"
  shows "\<exists>vals'. flag_Parse pf (map showArg given) vals = Inr vals' \<and> flags_fit defs vals' \<and>
    (\<forall>(n, k, d) \<in> set defs. map_of vals' n = (case map_of (rev given) n of Some x \<Rightarrow> flag_Set pf d x | None \<Rightarrow> map_of vals n))"
  using assms(1,4)
proof (induction given arbitrary: vals)
  case (Cons p given)
  obtain n x where p: "p = (n, x)" by fastforce
  obtain k d new where d: "(n, k, d) \<in> set defs" "flag_Set pf d x = Some new" using Cons.prems(2) p by auto
  obtain old where old: "map_of vals n = Some old" "same_kind d old"
    using flags_fit_lookup [OF Cons.prems(1) assms(3) d(1)] by blast
  have new: "flag_Set pf old x = Some new" using d(2) flag_Set_same [OF old(2)] by simp
  have "flag_name n" using assms(2) d(1) by (force simp: list_all_iff)
  then have step: "flag_Parse pf (map showArg (p # given)) vals = flag_Parse pf (map showArg given) (AList.update n new vals)"
    using flag_Parse_show [OF _ old(1) new] p by simp
  have "flags_fit defs (AList.update n new vals)" using flags_fit_update [OF Cons.prems(1) old(1)] flag_Set_kind [OF new] by blast
  moreover have "list_all (\<lambda>(n, x). \<exists>k d. (n, k, d) \<in> set defs \<and> flag_Set pf d x \<noteq> None) given"
    using Cons.prems(2) by simp
  ultimately obtain vals' where v: "flag_Parse pf (map showArg given) (AList.update n new vals) = Inr vals'" "flags_fit defs vals'"
    "\<forall>(m, k, d) \<in> set defs. map_of vals' m =
      (case map_of (rev given) m of Some x \<Rightarrow> flag_Set pf d x | None \<Rightarrow> map_of (AList.update n new vals) m)"
    using Cons.IH by blast
  have "map_of vals' m = (case map_of (rev (p # given)) m of Some x \<Rightarrow> flag_Set pf d' x | None \<Rightarrow> map_of vals m)"
    if "(m, k', d') \<in> set defs" for m k' d'
  proof -
    have "d' = d" if "m = n" using eq_key_imp_eq_value [OF assms(3)] d(1) \<open>(m, k', d') \<in> set defs\<close> that by fastforce
    then show ?thesis using v(3) that d(2) by (auto simp: p update_conv' map_add_def split: option.split)
  qed
  then show ?case using step v(1,2) by auto
qed (auto split: prod.split)


text \<open>
  C27. Where a setting comes from: for both commands and every command line of settings \<open>-name=value\<close> whose values
  are legal for their flags, parsing succeeds, and each flag has the last value given for it; a
  flag that is not given has the value of its environment variable where that is set and can be read, and
  its default otherwise. Every flag keeps its kind, so each setting is read as what it is.
\<close>

theorem settings_precedence:
  assumes "defs = dpFlagDefs \<or> defs = cpFlagDefs"
    and "list_all (\<lambda>(n, x). \<exists>k d. (n, k, d) \<in> set defs \<and> flag_Set pf d x \<noteq> None) given"
  shows "\<exists>vals. flag_Parse pf (map showArg given) (withEnv pf env defs) = Inr vals \<and> flags_fit defs vals \<and>
    (\<forall>(n, k, d) \<in> set defs. map_of vals n =
      (case map_of (rev given) n of
         Some x \<Rightarrow> flag_Set pf d x
       | None \<Rightarrow> Some (case envRead pf d (env k) of None \<Rightarrow> d | Some v \<Rightarrow> v)))"
proof -
  have t: "list_all flag_name (map fst defs)" "distinct (map fst defs)" using assms(1) table_names by auto
  have "map_of (withEnv pf env defs) n = Some (envflag pf env k d)" if "(n, k, d) \<in> set defs" for n k d
    using t(2) that by (intro map_of_is_SomeI) (auto simp: withEnv_def comp_def case_prod_beta intro!: rev_image_eqI)
  note env = this
  obtain vals where v: "flag_Parse pf (map showArg given) (withEnv pf env defs) = Inr vals" "flags_fit defs vals"
    "\<forall>(n, k, d) \<in> set defs. map_of vals n =
      (case map_of (rev given) n of Some x \<Rightarrow> flag_Set pf d x | None \<Rightarrow> map_of (withEnv pf env defs) n)"
    using flag_Parse_given [OF flags_fit_withEnv t assms(2)] by blast
  have "map_of vals n = (case map_of (rev given) n of Some x \<Rightarrow> flag_Set pf d x
      | None \<Rightarrow> Some (case envRead pf d (env k) of None \<Rightarrow> d | Some v \<Rightarrow> v))" if "(n, k, d) \<in> set defs" for n k d
    using v(3) that env [OF that] by (auto simp: envflag_read split: option.split)
  then show ?thesis using v(1,2) by blast
qed

section \<open>Durations read back\<close>

lemma leadingInt_digits:
  assumes "list_all is_digit ds" "0 \<le> x" "foldl (\<lambda>n c. 10 * n + (of_char c - 48)) x ds \<le> 2 ^ 63" "r = [] \<or> \<not> is_digit (hd r)"
  shows "leadingInt x (ds @ r) = Some (foldl (\<lambda>n c. 10 * n + (of_char c - 48)) x ds, r)"
  using assms(1-3)
proof (induction ds arbitrary: x)
  case Nil
  then show ?case using assms(4) by (cases r) simp_all
next
  case (Cons c ds)
  let ?y = "10 * x + (of_char c - 48) :: int"
  have dig: "(48 :: int) \<le> of_char c'" if "is_digit c'" for c'
    using that of_nat_mono [of 48 "of_char c'"] by (simp add: is_digit_def of_nat_of_char)
  have le: "y \<le> foldl (\<lambda>n c. 10 * n + (of_char c - 48)) y ds" if "0 \<le> y" for y :: int
    using that Cons.prems(1) dig
  proof (induction ds arbitrary: y)
    case (Cons a ds)
    show ?case using Cons.IH [of "10 * y + (of_char a - 48)"] Cons.prems by force
  qed simp
  have y: "0 \<le> ?y" using Cons.prems(1,2) dig [of c] by simp
  then have "?y \<le> 2 ^ 63" using le [of ?y] Cons.prems(3) by simp
  moreover from this have "\<not> x > 2 ^ 63 div 10" using y Cons.prems dig [of c] by simp
  ultimately show ?case using Cons y by (simp add: Let_def mult.commute)
qed

lemma digits_value_int:
  "list_all is_digit ds \<Longrightarrow> foldl (\<lambda>n c. 10 * n + (of_char c - 48)) (int x) ds = int (foldl (\<lambda>n c. 10 * n + (of_char c - 48)) x ds)"
proof (induction ds arbitrary: x)
  case (Cons c ds)
  then have "(of_char c :: int) - 48 = int (of_char c - 48)" by (simp add: is_digit_def of_nat_diff of_nat_of_char)
  then have "10 * int x + (of_char c - 48) = int (10 * x + (of_char c - 48))" by simp
  then show ?case using Cons by (simp only: foldl_Cons list.pred_inject simp_thms)
qed simp

lemma durItem_unit:
  assumes "(u, unit) \<in> set unitMap" "int n * unit \<le> 2 ^ 63"
  shows "durItem (itoa n @ u) = Some (int n * unit, [])"
proof -
  have u: "map_of unitMap u = Some unit" "list_all unitChar u" "u \<noteq> []" "0 < unit"
    using assms(1) by (auto simp: unitMap_def unitChar_def is_digit_def)
  obtain c cs where ds: "itoa n = c # cs" "is_digit c" using itoa_digits [of n] by (cases "itoa n") auto
  have hu: "\<not> is_digit (hd u)" "hd u \<noteq> CHR ''.''" using u(2,3) by (cases u; simp add: unitChar_def)+
  have n: "int n \<le> 2 ^ 63 div unit" using zdiv_mono1 [OF assms(2) u(4)] u(4) by simp
  have "int n * 1 \<le> int n * unit" using u(4) by (intro mult_left_mono) auto
  then have "int n \<le> 2 ^ 63" using assms(2) by linarith
  then have l: "leadingInt 0 (itoa n @ u) = Some (int n, u)"
    using leadingInt_digits [of "itoa n" 0 u] hu(1) digits_value_itoa [of n] digits_value_int [of "itoa n" 0]
    by (simp add: digits_value_def)
  have t: "takeWhile unitChar u = u" "dropWhile unitChar u = []" using u(2) by (simp_all add: list_all_iff)
  have h: "\<not> unitChar (hd (itoa n))" "itoa n \<noteq> []" using ds by (simp_all add: unitChar_def)
  show ?thesis using n by (simp add: durItem_def Let_def l t h u(1,3) hu(2) del: leadingInt.simps)
qed

theorem duration_roundtrip:
  assumes "(u, unit) \<in> set unitMap" "is_int64 (n * unit)"
  shows "ParseDuration (FormatInt n @ u) = Some (n * unit)"
proof -
  have pos: "0 < unit" and u: "u \<noteq> []" using assms(1) by (auto simp: unitMap_def)
  obtain c cs where ds: "itoa (nat \<bar>n\<bar>) = c # cs" "is_digit c" using itoa_digits [of "nat \<bar>n\<bar>"] by (cases "itoa (nat \<bar>n\<bar>)") auto
  have c: "c \<noteq> CHR ''-''" "c \<noteq> CHR ''+''" using ds(2) by (auto simp: is_digit_def)
  have b: "int (nat \<bar>n\<bar>) * unit \<le> 2 ^ 63" "0 \<le> int (nat \<bar>n\<bar>) * unit" using assms(2) pos by (auto simp: int64_defs abs_if)
  note item = durItem_unit [OF assms(1) b(1)]
  then have "durLoop 0 (itoa (nat \<bar>n\<bar>) @ u) = Some (int (nat \<bar>n\<bar>) * unit)"
    using b ds(1) by (simp add: durLoop.simps)
  moreover have "itoa (nat \<bar>n\<bar>) @ u \<noteq> ''0''" using ds(1) u by auto
  ultimately show ?thesis using ds(1) c assms(2)
    by (cases "n < 0") (auto simp: ParseDuration_def FormatInt_def int64_defs Let_def)
qed

definition demo_given :: "(string \<times> string) list" where
  "demo_given = [(''group'', ''a''), (''max-conns'', ''0x10''), (''group'', ''b=c''), (''read-header-timeout'', ''2m5s'')]"

theorem settings_precedence_witness:
  "\<exists>vals. flag_Parse (\<lambda>_. None) (map showArg demo_given) (withEnv (\<lambda>_. None) (\<lambda>k. if k = ''LB_PROTOCOL'' then ''tcp'' else ''x'') dpFlagDefs) =
      Inr vals \<and>
     map_of vals ''group'' = Some (FString ''b=c'') \<and> map_of vals ''max-conns'' = Some (FInt 16) \<and>
     map_of vals ''protocol'' = Some (FString ''tcp'') \<and> map_of vals ''healthy-threshold'' = Some (FInt 2)"
proof -
  let ?env = "\<lambda>k. if k = ''LB_PROTOCOL'' then ''tcp'' else ''x''"
  have m: "(''group'', ''LB_GROUP'', FString ''web-tier'') \<in> set dpFlagDefs" "(''max-conns'', ''LB_MAX_CONNS'', FInt 0) \<in> set dpFlagDefs"
    "(''read-header-timeout'', ''LB_READ_HEADER_TIMEOUT'', FDuration (10 * second)) \<in> set dpFlagDefs"
    "(''protocol'', ''LB_PROTOCOL'', FString ''http'') \<in> set dpFlagDefs"
    "(''healthy-threshold'', ''LB_HEALTHY_THRESHOLD'', FInt 2) \<in> set dpFlagDefs" by (simp_all add: dpFlagDefs_def)
  have p: "ParseIntBase0 ''0x10'' = Some 16" "ParseInt64 ''x'' = None" "ParseDuration ''2m5s'' = Some (125 * second)" by code_simp+
  have "list_all (\<lambda>(n, x). \<exists>k d. (n, k, d) \<in> set dpFlagDefs \<and> flag_Set (\<lambda>_. None) d x \<noteq> None) demo_given"
    unfolding demo_given_def list.pred_inject prod.case
    by (intro conjI TrueI exI; (rule m)?) (simp_all add: p)
  from settings_precedence [OF disjI1 [OF refl] this, of ?env]
  obtain vals where v: "flag_Parse (\<lambda>_. None) (map showArg demo_given) (withEnv (\<lambda>_. None) ?env dpFlagDefs) = Inr vals"
    "\<And>n k d. (n, k, d) \<in> set dpFlagDefs \<Longrightarrow> map_of vals n =
      (case map_of (rev demo_given) n of Some x \<Rightarrow> flag_Set (\<lambda>_. None) d x
       | None \<Rightarrow> Some (case envRead (\<lambda>_. None) d (?env k) of None \<Rightarrow> d | Some v \<Rightarrow> v))" by blast
  show ?thesis using v(1) m [THEN v(2)] by (auto simp: demo_given_def p)
qed

section \<open>Defaults\<close>

abbreviation defaults :: "flagDef list \<Rightarrow> flagValues" where
  "defaults defs \<equiv> map (\<lambda>(n, k, d). (n, d)) defs"

lemma unset_defaults:
  assumes "list_all (\<lambda>(n, k, d). envRead pf d (env k) = None) defs"
  shows "withEnv pf env defs = defaults defs"
  using assms by (auto simp: withEnv_def list_all_iff envflag_read)

lemma dp_default_settings: "dpSettings (defaults dpFlagDefs) =
   \<lparr>dc_Protocol = ''http'', dc_ListenAddr = '':8080'', dc_ControlPlaneAddr = ''localhost:9090'',
    dc_Group = ''web-tier'', dc_MetricsAddr = '':9100'', dc_MetricsEnabled = True, dc_MetricsDisable = False,
    dc_OpsAddr = '':9101'', dc_HealthCheckMode = ''tcp'', dc_HealthCheckScheme = ''http'',
    dc_HealthCheckInterval = (5 * second), dc_HealthCheckTimeout = (2 * second), dc_HealthCheckExpectStatus = 0,
    dc_UnhealthyThreshold = 3, dc_HealthyThreshold = 2, dc_BackendProtocol = ''http1'', dc_AccessLog = False,
    dc_AccessLogFormat = ''json'', dc_TracingEnabled = False, dc_TracingProtocol = ''grpc'',
    dc_TracingSampleRatio = (Fin 1), dc_ProxyConnectTimeout = (5 * second), dc_ProxyResponseTimeout = (30 * second),
    dc_ProxyMaxRetries = 1, dc_ProxyRetryBackoff = (50 * millisecond), dc_TCPDialTimeout = (5 * second),
    dc_ShutdownGrace = (5 * second), dc_MaxConns = 0, dc_MaxHeaderBytes = 1048576, dc_MaxBodyBytes = 0,
    dc_ReadHeaderTimeout = (10 * second), dc_OutlierDetection = False, dc_OutlierConsecutiveError = 5,
    dc_OutlierEjectDuration = (30 * second), dc_OutlierMaxEjectDuration = (5 * minute), dc_OutlierMaxEjectPercent = 50,
    dc_CPTLSEnable = False, dc_CPTLSCACert = [], dc_CPTLSClientCert = [], dc_CPTLSClientKey = [], dc_HTTPTLSCert = [],
    dc_HTTPTLSKey = [], dc_HTTPTLSCerts = [], dc_HTTPTLSClientCA = [], dc_HTTPTLSReloadInterval = 0,
    dc_LogLevel = ''info'', dc_LogFormat = ''text'', fl_InstanceID = [], fl_HealthCheckPath = ''/'',
    fl_HealthCheckHost = [], fl_HealthReportInterval = (10 * second), fl_MetricsReportInterval = (10 * second),
    fl_CPAuthToken = [], fl_TracingEndpoint = [], fl_TracingInsecure = False, fl_TracingServiceName = ''jbalance-dataplane''\<rparr>"
  by code_simp

lemma dp_default_sel:
  fixes f defines "f \<equiv> dpSettings (defaults dpFlagDefs)"
  shows "dc_Group f = ''web-tier''" "dc_Protocol f = ''http''" "dc_HTTPTLSCert f = []" "dc_HTTPTLSKey f = []" "dc_HTTPTLSCerts f = []"
    "dc_HTTPTLSClientCA f = []" "dc_CPTLSCACert f = []" "dc_ProxyMaxRetries f = 1" "dc_OutlierDetection f = False"
    "dc_HealthCheckInterval f = 5 * second" "dc_UnhealthyThreshold f = 3" "dc_HealthyThreshold f = 2"
    "fl_HealthReportInterval f = 10 * second" "fl_MetricsReportInterval f = 10 * second"
    "dc_TracingEnabled f = False" "dc_ListenAddr f = '':8080''"
  by (simp_all add: f_def dp_default_settings)

text \<open>The checks of the default settings that need the world or a loop; the others are comparisons.\<close>

lemma dp_default_checks:
  "checkListenAddr wd f '':8080'' False = []" "checkListenAddr wd f '':9100'' False = []"
  "checkListenAddr wd f '':9101'' True = []" "checkDialAddr wd f ''localhost:9090'' = []" "TrimSpace ''web-tier'' = ''web-tier''"
  "ParseCertPairs [] = Inr []"
  by code_simp+

lemma dp_defaults_valid: "ValidateDataPlane wd (dpSettings (defaults dpFlagDefs)) = None"
  unfolding dp_default_settings
  by (simp add: ValidateDataPlane_def problems_err_def check_iffs checkFileExists_def checkOutlier_def checkClientTLS_def
      checkHTTPCerts_def httpPairs_def dp_default_checks)

lemma cp_default_settings: "cpSettings (defaults cpFlagDefs) =
   \<lparr>kc_GRPCAddr = '':9090'', kc_AdminAddr = '':9091'', kc_AdminDisable = False,
    kc_ReconcileInterval = (2 * second), kc_TLSCert = [], kc_TLSKey = [], kc_TLSClientCA = [], kc_Provider = ''fake'',
    kc_FakeBasePort = 8081, kc_ScalingInterval = (5 * second), kc_SimulateScaling = True, kc_AzureSubscriptionID = [],
    kc_AzureResourceGroup = [], kc_AzureVMSSGroups = [], kc_K8sGroups = [], kc_K8sKubeconfig = [],
    kc_FileProviderPath = [], kc_StoreBackend = ''file'', kc_StoreDSN = [], kc_AdminTLSCert = [], kc_AdminTLSKey = [],
    kc_LogLevel = ''info'', kc_LogFormat = ''text'', kf_AuthToken = [], kf_Admin = \<lparr>ac_addr = '':9091'',
    ac_storePath = ''/var/lib/go-loadbalancer/admin.json'', ac_auditLogPath = ''/var/lib/go-loadbalancer/audit.json'',
    ac_tlsCert = [], ac_tlsKey = [], ac_trustForwardedFor = False, ac_forceReset = False\<rparr>,
    kf_OverridesPath = ''/var/lib/go-loadbalancer/overrides.json'',
    kf_AlgorithmsPath = ''/var/lib/go-loadbalancer/algorithms.json'',
    kf_RoutesPath = ''/var/lib/go-loadbalancer/routes.json'', kf_StickyPath = ''/var/lib/go-loadbalancer/sticky.json'',
    kf_RateLimitPath = ''/var/lib/go-loadbalancer/ratelimit.json''\<rparr>"
  by code_simp

lemma cp_default_sel:
  fixes k defines "k \<equiv> cpSettings (defaults cpFlagDefs)"
  shows "kc_Provider k = ''fake''" "kc_StoreBackend k = ''file''" "kc_LogLevel k = ''info''" "kc_LogFormat k = ''text''"
    "kc_GRPCAddr k = '':9090''" "kc_AdminAddr k = '':9091''" "kc_ReconcileInterval k = 2 * second" "kc_TLSCert k = []"
    "kc_TLSKey k = []" "kc_TLSClientCA k = []" "kc_AdminTLSCert k = []" "kc_AdminTLSKey k = []" "kc_FakeBasePort k = 8081"
    "kc_ScalingInterval k = 5 * second" "kf_AuthToken k = []" "kc_AdminDisable k = False"
  by (simp_all add: k_def cp_default_settings)

lemma cp_defaults_valid: "ValidateControlPlane wd (cpSettings (defaults cpFlagDefs)) = None"
proof -
  have a: "checkListenAddr wd n '':9090'' False = []" "checkListenAddr wd n '':9091'' False = []" for n by code_simp+
  show ?thesis
    by (simp add: ValidateControlPlane_def problems_err_def check_iffs checkProvider_def checkFileExists_def cp_default_sel a)
qed

text \<open>
  C34. Without flags, and with no environment variable that holds a usable value (unset, or not readable as what
  it should be), the configurations of both commands pass validation in every world. The data plane starts if port
  8080 can be bound, as an HTTP proxy for the group \<open>web-tier\<close> with one retry, a health checker every five seconds
  that takes three failures to mark a backend down and two successes to mark it up, no outlier ejection, no
  tracing and no TLS. The control plane starts, with the fake provider, which serves that group, the admin
  interface, an API without a token and no TLS, if its admin store under \<open>/var/lib/go-loadbalancer\<close> can be opened
  and port 9090 can be bound; otherwise it fails for exactly that reason.
\<close>

theorem defaults_start:
  assumes "list_all (\<lambda>(n, k, d). envRead pf d (env k) = None) dpFlagDefs"
    and "list_all (\<lambda>(n, k, d). envRead pf d (env k) = None) cpFlagDefs"
    and "canListen '':8080''"
  shows "(\<exists>vals inst px hc. flag_Parse pf [] (withEnv pf env dpFlagDefs) = Inr vals \<and>
      dp_main wd otlp canListen hostname rng1 rng2 now (dpSettings vals) = Inr inst \<and>
      di_listener inst = HTTPListener px (chainOf (dpSettings vals)) \<and> pc_MaxRetries (px_cfg px) = 1 \<and> di_serverTLS inst = None \<and>
      di_tracer inst = None \<and>
      gm_started (di_groups inst) = [(''web-tier'', hc)] \<and> hc_Interval hc = 5 * second \<and> hc_FailureThreshold hc = 3 \<and>
      hc_SuccessThreshold hc = 2 \<and> \<not> dc_OutlierDetection (dpSettings vals)) \<and>
    (\<exists>vals. flag_Parse pf [] (withEnv pf env cpFlagDefs) = Inr vals \<and>
      (case cp_main wd canListen pw database parseTime lib w unreadable (cpSettings vals) fs of
         (Inr inst, fs1) \<Rightarrow>
           ''web-tier'' \<in> set (provider_groups (ci_provider inst)) \<and> ci_admin inst \<noteq> None \<and> ci_authToken inst = [] \<and> ci_tls inst = None \<and>
           canListen '':9090'' \<and> (\<exists>a. startAdminServer parseTime lib w unreadable (kf_Admin (cpSettings vals)) fs = (Inr a, fs1))
       | (Inl failure, fs1) \<Rightarrow>
           (\<exists>e. failure = AdminFailed e \<and> startAdminServer parseTime lib w unreadable (kf_Admin (cpSettings vals)) fs = (Inl e, fs1)) \<or>
           failure = CPListenFailed '':9090'' \<and> \<not> canListen '':9090''))"
proof -
  let ?f = "dpSettings (defaults dpFlagDefs)" and ?k = "cpSettings (defaults cpFlagDefs)"
  note sel = dp_default_sel
  have rl: "certReloader wd ?f = Inr None" by (simp add: certReloader_def httpPairs_def sel dp_default_checks(6))
  have ok: "ca_readable wd (dc_CPTLSCACert ?f)" "ca_readable wd (dc_HTTPTLSClientCA ?f)"
    "0 < fl_HealthReportInterval ?f" "0 < fl_MetricsReportInterval ?f" "dc_TracingEnabled ?f \<Longrightarrow> sdk_ok otlp" "canListen (dc_ListenAddr ?f)"
    using assms(3) by (simp_all add: sel ca_readable_def)
  obtain b :: "'e BackendList" and groups tracer tls m cpTLS r where d: "dp_groups rng1 now ?f = (b, groups)"
      "tracer = None \<longleftrightarrow> \<not> dc_TracingEnabled ?f" "certReloader wd ?f = Inr r" "tls = None \<longleftrightarrow> r = None"
      "dp_main wd otlp canListen hostname rng1 rng2 now ?f =
        Inr (dp_instance hostname ?f tracer cpTLS r tls groups m (dp_listener rng2 ?f b groups m))"
    by (rule dp_main_accepted [where canListen = canListen and ?rng1.0 = rng1 and ?rng2.0 = rng2 and now = now and hostname = hostname,
          OF dp_defaults_valid ok])
  have tls: "tls = None" "tracer = None" using d(2-4) rl by (simp_all add: sel)
  have hc: "gm_started groups = [(''web-tier'', checkerFor (healthConfig ?f))]"
    using groups_in_force(1) [OF dp_defaults_valid d(1)] by (simp add: sel)
  obtain px where px: "dp_listener rng2 ?f b groups m = HTTPListener px (chainOf ?f)" "pc_MaxRetries (px_cfg px) = 1"
    using listener_serves [OF dp_defaults_valid, of rng2 b groups m] by (auto simp: dp_listener_def sel serves_def)
  have dp: "withEnv pf env dpFlagDefs = defaults dpFlagDefs" and cp: "withEnv pf env cpFlagDefs = defaults cpFlagDefs"
    using assms(1,2) by (simp_all only: unset_defaults)
  have "\<exists>p. buildProvider pw ?k = Inr p \<and> ''web-tier'' \<in> set (provider_groups p)"
    by (simp add: buildProvider_def cp_default_sel NewFakeProvider_def)
  then obtain p where p: "buildProvider pw ?k = Inr p" "''web-tier'' \<in> set (provider_groups p)" by blast
  have "case cp_main wd canListen pw database parseTime lib w unreadable ?k fs of
         (Inr inst, fs1) \<Rightarrow>
           ''web-tier'' \<in> set (provider_groups (ci_provider inst)) \<and> ci_admin inst \<noteq> None \<and> ci_authToken inst = [] \<and> ci_tls inst = None \<and>
           canListen '':9090'' \<and> (\<exists>a. startAdminServer parseTime lib w unreadable (kf_Admin ?k) fs = (Inr a, fs1))
       | (Inl failure, fs1) \<Rightarrow>
           (\<exists>e. failure = AdminFailed e \<and> startAdminServer parseTime lib w unreadable (kf_Admin ?k) fs = (Inl e, fs1)) \<or>
           failure = CPListenFailed '':9090'' \<and> \<not> canListen '':9090''"
    using p by (cases "startAdminServer parseTime lib w unreadable (kf_Admin ?k) fs")
      (auto simp: cp_main_def cp_defaults_valid cp_routes_def cp_admin_def cp_tls_def cp_default_sel Let_def split: sum.splits prod.splits)
  then show ?thesis unfolding dp cp
    using d(5) tls hc px by (auto simp: dp_instance_def checkerFor_def healthConfig_def sel)
qed

theorem defaults_start_witness:
  "\<forall>rng pw. \<exists>vals inst. flag_Parse (\<lambda>_. None) [] (withEnv (\<lambda>_. None) (\<lambda>k. if k = ''LB_MAX_CONNS'' then ''ten'' else []) dpFlagDefs) = Inr vals \<and>
     dp_main demo_dp_world demo_otlp (\<lambda>_. True) None rng rng 1 (dpSettings vals) = Inr (inst :: demo_instance) \<and> di_serverTLS inst = None"
proof (intro allI)
  fix rng pw
  let ?env = "\<lambda>k. if k = ''LB_MAX_CONNS'' then ''ten'' else []"
  have ten: "ParseInt64 ''ten'' = None" by code_simp
  have "list_all (\<lambda>(n, k, d). envRead (\<lambda>_. None) d (?env k) = None) dpFlagDefs"
    "list_all (\<lambda>(n, k, d). envRead (\<lambda>_. None) d (?env k) = None) cpFlagDefs" by (simp_all add: dpFlagDefs_def cpFlagDefs_def ten)
  from defaults_start [OF this, where canListen = "\<lambda>_. True" and wd = demo_dp_world and otlp = demo_otlp and hostname = None
      and ?rng1.0 = rng and ?rng2.0 = rng and now = 1 and pw = pw and database = None and parseTime = "\<lambda>_. None" and lib = demo_lib
      and w = "demo_world 6" and unreadable = False and fs = Map.empty]
  show "\<exists>vals inst. flag_Parse (\<lambda>_. None) [] (withEnv (\<lambda>_. None) ?env dpFlagDefs) = Inr vals \<and>
     dp_main demo_dp_world demo_otlp (\<lambda>_. True) None rng rng 1 (dpSettings vals) = Inr (inst :: demo_instance) \<and> di_serverTLS inst = None"
    by blast
qed

section \<open>Where flags and variables differ\<close>

text \<open>An integer with a leading zero is octal as a flag and decimal as a variable.\<close>

theorem octal_flag:
  "flag_Set pf (FInt d) ''010'' = Some (FInt 8) \<and> envRead pf (FInt d) ''010'' = Some (FInt 10)"
proof -
  have "ParseIntBase0 ''010'' = Some 8" "ParseInt64 ''010'' = Some 10" by code_simp+
  then show ?thesis by simp
qed

text \<open>
  The listener for probes is disabled by an empty address, which the flag can give and the variable cannot.
\<close>

theorem ops_variable_cannot_disable:
  "vString (map_of (withEnv pf env dpFlagDefs) ''ops-addr'') \<noteq> [] \<and>
   (\<exists>vals. flag_Parse pf [''-ops-addr=''] (withEnv pf env dpFlagDefs) = Inr vals \<and> map_of vals ''ops-addr'' = Some (FString []))"
proof
  have m: "map_of (withEnv pf env dpFlagDefs) ''ops-addr'' = Some (FString (ef_String env ''LB_OPS_ADDR'' '':9101''))"
    using table_names(2) by (intro map_of_is_SomeI) (auto simp: withEnv_def comp_def case_prod_beta dpFlagDefs_def)
  then show "vString (map_of (withEnv pf env dpFlagDefs) ''ops-addr'') \<noteq> []" by (simp add: ef_String_def Let_def)
  have "flag_name ''ops-addr''" by code_simp
  from flag_Parse_show [OF this m, of pf "[]" _ "[]"]
  show "\<exists>vals. flag_Parse pf [''-ops-addr=''] (withEnv pf env dpFlagDefs) = Inr vals \<and> map_of vals ''ops-addr'' = Some (FString [])"
    by (simp add: showArg_def update_conv')
qed

end
