(* ===== verification/Wiring.thy ===== *)
theory Wiring
  imports Flags
begin

text \<open>
  What the data plane is wired to: the logger (\<open>internal/logging\<close>), the tracer of a running instance, the
  backends collector of \<open>internal/dataplane/metrics.go\<close> and the lines of the access log. Of \<open>slog\<close> the documented
  meaning of the settings is modelled.
\<close>

section \<open>Logging\<close>

record logConfig =
  lgc_Level :: string
  lgc_Format :: string

record Logger =
  lg_level :: logLevel
  lg_json :: bool
  lg_attrs :: "(string \<times> string) list"

definition NewLogger :: "logConfig \<Rightarrow> Logger" where
  "NewLogger cfg = \<lparr>lg_level = fst (ParseLevel (lgc_Level cfg)), lg_json = (map to_lower (TrimSpace (lgc_Format cfg)) = ''json''), lg_attrs = []\<rparr>"

definition lg_With :: "string \<Rightarrow> string \<Rightarrow> Logger \<Rightarrow> Logger" where
  "lg_With key val l = l\<lparr>lg_attrs := lg_attrs l @ [(key, val)]\<rparr>"

text \<open>\<open>slog\<close>'s levels, and whether a logger writes a record.\<close>

primrec severity :: "logLevel \<Rightarrow> int" where
  "severity LevelDebug = - 4"
| "severity LevelInfo = 0"
| "severity LevelWarn = 4"
| "severity LevelError = 8"

definition lg_writes :: "Logger \<Rightarrow> logLevel \<Rightarrow> bool" where
  "lg_writes l lv \<longleftrightarrow> severity (lg_level l) \<le> severity lv"

definition Component :: "Logger \<Rightarrow> Logger option \<Rightarrow> string \<Rightarrow> Logger" where
  "Component deflt base name = lg_With ''component'' name (case base of None \<Rightarrow> deflt | Some l \<Rightarrow> l)"

text \<open>The part of a context that holds the logger of a request.\<close>

definition WithContext :: "Logger option \<Rightarrow> Logger \<Rightarrow> Logger option" where
  "WithContext ctx logger = Some logger"

definition FromContext :: "Logger \<Rightarrow> Logger option \<Rightarrow> Logger" where
  "FromContext deflt ctx = (case ctx of Some l \<Rightarrow> l | None \<Rightarrow> deflt)"

definition requestLogger :: "Logger \<Rightarrow> accessEnv \<Rightarrow> Request \<Rightarrow> Logger option \<Rightarrow> Logger option" where
  "requestLogger appLog env r ctx = WithContext ctx (lg_With ''request_id'' (requestID env r) appLog)"

section \<open>The backends collector\<close>

record gauge =
  ga_name :: string
  ga_value :: int
  ga_group :: string

definition collectGroup :: "gotime \<Rightarrow> string \<Rightarrow> 'l BackendList \<Rightarrow> gauge list" where
  "collectGroup now g bl =
     [\<lparr>ga_name = ''jbalance_backends_healthy'', ga_value = bl_HealthyLen bl, ga_group = g\<rparr>,
      \<lparr>ga_name = ''jbalance_backends_total'', ga_value = bl_Len bl, ga_group = g\<rparr>,
      \<lparr>ga_name = ''jbalance_backends_ejected'', ga_value = bl_EjectedLen now bl, ga_group = g\<rparr>]"

definition Collect :: "nat stream \<Rightarrow> gotime \<Rightarrow> 'l GroupManager \<Rightarrow> gauge list \<times> 'l GroupManager" where
  "Collect rng now m =
     foldl (\<lambda>(ch, m) g. let (bl, m') = gm_Ensure rng now g m in (ch @ collectGroup now g bl, m')) ([], m) (gm_Groups m)"

section \<open>The lines of the access log\<close>

text \<open>\<open>%q\<close> on ASCII text, and \<open>%.1f\<close>, which rounds halves to even.\<close>

definition quoteChar :: "char \<Rightarrow> string" where
  "quoteChar c =
     (if c = CHR 0x22 \<or> c = CHR 0x5C then [CHR 0x5C, c]
      else if CHR 0x20 \<le> c \<and> c \<le> CHR 0x7E then [c]
      else (case map_of (zip [CHR 0x07, CHR 0x08, CHR 0x0C, CHR 0x0A, CHR 0x0D, CHR 0x09, CHR 0x0B] ''abfnrtv'') c of
              Some l \<Rightarrow> [CHR 0x5C, l]
            | None \<Rightarrow> CHR 0x5C # CHR ''x'' # hex_EncodeToString [c]))"

definition goQuote :: "string \<Rightarrow> string" where
  "goQuote s = [CHR 0x22] @ concat (map quoteChar s) @ [CHR 0x22]"

definition FormatFixed1 :: "rat \<Rightarrow> string" where
  "FormatFixed1 x =
     (let n = round_even (10 * \<bar>x\<bar>) in (if x < 0 then ''-'' else []) @ FormatInt (n div 10) @ ''.'' @ FormatInt (n mod 10))"

definition accessText :: "accessLogEntry \<Rightarrow> string" where
  "accessText e =
     ''access '' @ le_Proto e @ '' '' @ le_Method e @ '' '' @ goQuote (le_Host e @ le_Path e) @ '' '' @ ''->'' @ '' '' @
     FormatInt (le_Status e) @ '' '' @ FormatInt (le_Bytes e) @ ''B '' @ FormatFixed1 (le_DurationMs e) @ ''ms client='' @ le_ClientIP e @
     '' group='' @ le_Group e @ '' backend='' @ le_Backend e @ '' retries='' @ FormatInt (le_Retries e) @ '' id='' @ le_RequestID e"

definition accessJSON :: "(gotime \<Rightarrow> string) \<Rightarrow> accessLogEntry \<Rightarrow> json" where
  "accessJSON fmtTime e = JObj
     [(''time'', JStr (fmtTime (le_Time e))), (''request_id'', JStr (le_RequestID e)), (''method'', JStr (le_Method e)),
      (''host'', JStr (le_Host e)), (''path'', JStr (le_Path e)), (''status'', JInt (le_Status e)), (''bytes'', JInt (le_Bytes e)),
      (''duration_ms'', jFloat (le_DurationMs e)), (''client_ip'', JStr (le_ClientIP e)), (''group'', JStr (le_Group e)),
      (''backend'', JStr (le_Backend e)), (''retries'', JInt (le_Retries e)), (''proto'', JStr (le_Proto e)),
      (''user_agent'', JStr (le_UserAgent e))]"

datatype logLine = TextLine string | JSONLine json

definition writeAccessLog :: "(gotime \<Rightarrow> string) \<Rightarrow> AccessLogFormat \<Rightarrow> accessLogEntry \<Rightarrow> logLine" where
  "writeAccessLog fmtTime format e = (case format of AccessLogText \<Rightarrow> TextLine (accessText e) | AccessLogJSON \<Rightarrow> JSONLine (accessJSON fmtTime e))"

section \<open>Lemmas\<close>

lemma wiring_accepted:
  assumes "ValidateDataPlane wd f = None"
  shows "dc_LogFormat f \<in> {''json'', ''text''}"
    "dc_TracingEnabled f \<Longrightarrow> dc_TracingProtocol f \<in> {''grpc'', ''http''} \<and> \<not> float_less_0 (dc_TracingSampleRatio f) \<and>
       \<not> float_greater_1 (dc_TracingSampleRatio f)"
  using assms by (simp_all add: ValidateDataPlane_def problems_err_def check_iffs split: if_splits)

lemma dp_main_validated: "dp_main wd otlp canListen hostname rng1 rng2 now f = Inr inst \<Longrightarrow> ValidateDataPlane wd f = None"
  by (simp add: dp_main_def split: option.splits)

text \<open>
  Settings that pass validation give the logger they name: it writes exactly the records of that level
  and above, in that format; and the records written for a request carry its id.
\<close>

theorem logger_in_force:
  assumes "ValidateDataPlane wd f = None" "l = Component d (Some (NewLogger \<lparr>lgc_Level = dc_LogLevel f, lgc_Format = dc_LogFormat f\<rparr>)) ''dataplane''"
  shows "lg_writes l LevelError \<and> (lg_writes l LevelWarn \<longleftrightarrow> dc_LogLevel f \<noteq> ''error'') \<and>
    (lg_writes l LevelInfo \<longleftrightarrow> dc_LogLevel f \<in> {''debug'', ''info''}) \<and> (lg_writes l LevelDebug \<longleftrightarrow> dc_LogLevel f = ''debug'') \<and>
    (lg_json l \<longleftrightarrow> dc_LogFormat f = ''json'') \<and>
    lg_attrs (FromContext d (requestLogger l env r ctx)) = [(''component'', ''dataplane''), (''request_id'', requestID env r)]"
proof -
  let ?L = "\<lambda>v fm. NewLogger \<lparr>lgc_Level = v, lgc_Format = fm\<rparr>"
  have lev: "lg_level (?L ''debug'' fm) = LevelDebug" "lg_level (?L ''info'' fm) = LevelInfo" "lg_level (?L ''warn'' fm) = LevelWarn"
    "lg_level (?L ''error'' fm) = LevelError" for fm by (simp_all add: NewLogger_def, code_simp+)
  have fmt: "lg_json (?L v ''json'')" "\<not> lg_json (?L v ''text'')" for v by (simp_all add: NewLogger_def, code_simp+)
  have "lg_attrs (?L v fm) = []" for v fm by (simp add: NewLogger_def)
  then show ?thesis using dp_accepted(4) [OF assms(1)] wiring_accepted(1) [OF assms(1)]
    by (auto simp: assms(2) lg_writes_def Component_def lg_With_def requestLogger_def WithContext_def FromContext_def lev fmt)
qed

definition demo_logs :: logConfig where
  "demo_logs = \<lparr>lgc_Level = ''info'', lgc_Format = ''text''\<rparr>"

theorem logger_in_force_witness:
  "let l = Component (NewLogger demo_logs) (Some (NewLogger demo_logs)) ''dataplane'' in lg_writes l LevelInfo \<and> \<not> lg_writes l LevelDebug"
  using logger_in_force [OF demo_accepted refl, of "NewLogger demo_logs"] by (simp add: demo_logs_def demo_flags_def Let_def)

section \<open>Tracing\<close>

text \<open>
  Settings that pass validation never fail on the protocol: the start of the tracer fails only when the SDK
  does. The tracer is installed exactly when it is asked for, exports over the transport that was named, to the
  endpoint that was given, and decides by the ratio that was given, with one exception: a ratio of 0, which is
  documented to sample nothing, is replaced by 1.
\<close>

theorem tracing_in_force:
  assumes "ValidateDataPlane wd f = None" "cfg = tracingFlags f"
  shows "(case tracing_Setup lib cfg of
       Inl e \<Rightarrow> tg_Enabled cfg \<and> (e = ExporterFailed \<or> e = ResourceFailed)
     | Inr None \<Rightarrow> \<not> tg_Enabled cfg
     | Inr (Some tp) \<Rightarrow> tg_Enabled cfg \<and>
         ol_New lib (if tg_Protocol cfg = ''http'' then OtlpHTTP else OtlpGRPC)
           (map WithEndpoint (filter (\<lambda>a. a \<noteq> []) [tg_Endpoint cfg]) @ (if tg_Insecure cfg then [WithInsecure] else [])) = Some (tr_exporter tp) \<and>
         tr_ratio tp = (if tg_SampleRatio cfg = Fin 0 then Fin 1 else tg_SampleRatio cfg))"
proof (cases "tg_Enabled cfg")
  case False
  then show ?thesis by (simp add: tracing_Setup_def)
next
  case True
  have v: "tg_Protocol cfg = ''grpc'' \<or> tg_Protocol cfg = ''http''" "\<not> float_less_0 (tg_SampleRatio cfg)"
    using wiring_accepted(2) [OF assms(1)] True by (auto simp: assms(2) tracingFlags_def)
  have r: "float_le_0 (tg_SampleRatio cfg) \<longleftrightarrow> tg_SampleRatio cfg = Fin 0" using v(2) by (cases "tg_SampleRatio cfg") auto
  show ?thesis using v(1) True by (auto simp: tracing_Setup_def newExporter_def r split: option.splits)
qed

text \<open>
  So a deployment that sets the ratio to 0 traces every request that does not carry a decision of its own. The
  hypothesis on the SDK is its documented meaning of a ratio of 1.
\<close>

theorem sample_zero_samples_all:
  assumes "tg_Enabled cfg" "tg_SampleRatio cfg = Fin 0" "tracing_Setup lib cfg = Inr tp"
    and "\<forall>t. ol_ratioBased lib (Fin 1) t"
  shows "sampled lib tp None traceID"
  using assms by (auto simp: tracing_Setup_def sampled_def split: sum.splits option.splits)

definition demo_tracing :: tracingConfig where
  "demo_tracing = \<lparr>tg_Enabled = True, tg_Endpoint = ''otel:4317'', tg_Protocol = ''grpc'', tg_Insecure = True, tg_ServiceName = [],
     tg_SampleRatio = Fin 0\<rparr>"

theorem sample_zero_samples_all_witness:
  "\<exists>tp. tracing_Setup demo_otlp demo_tracing = Inr tp \<and> sampled demo_otlp tp None 7"
proof -
  have s: "tracing_Setup demo_otlp demo_tracing =
      Inr (Some \<lparr>tr_exporter = OtlpGRPC, tr_resource = ''jbalance-dataplane'', tr_ratio = Fin 1\<rparr>)"
    by (simp add: tracing_Setup_def newExporter_def serviceName_def demo_otlp_def demo_tracing_def Let_def)
  have "sampled demo_otlp (Some \<lparr>tr_exporter = OtlpGRPC, tr_resource = ''jbalance-dataplane'', tr_ratio = Fin 1\<rparr>) None 7"
    by (rule sample_zero_samples_all [OF _ _ s]) (simp_all add: demo_tracing_def demo_otlp_def)
  then show ?thesis using s by blast
qed

section \<open>The transport\<close>

text \<open>
  How long the proxy of a running data plane waits for a backend: connecting is bounded by the connect timeout. The
  header of the response is awaited for the response timeout over HTTP/1 (30 seconds for a setting of 0), but without
  any limit over h2c, where the setting has no effect.
\<close>

theorem backend_limits:
  assumes "dp_main wd otlp canListen hostname rng1 rng2 now f = Inr inst" "di_listener inst = HTTPListener px cc"
  shows "dialLimit (px_transport px) = dc_ProxyConnectTimeout f \<and> 0 < dc_ProxyConnectTimeout f \<and>
    responseLimit (px_transport px) =
      (if dc_BackendProtocol f = ''h2c'' then None
       else Some (if dc_ProxyResponseTimeout f = 0 then 30 * second else dc_ProxyResponseTimeout f))"
proof -
  note v = dp_main_validated [OF assms(1)]
  obtain rng b groups m where "di_listener inst = dp_listener rng f b groups m"
    using assms(1) by (auto simp: dp_main_def dp_instance_def Let_def split: option.splits sum.splits if_splits prod.splits)
  then have "serves f (HTTPListener px cc)" using listener_serves [OF v] assms(2) by metis
  then show ?thesis using dp_accepted(9) [OF v] by (simp add: serves_def)
qed

section \<open>The collector\<close>

lemma foldl_collect:
  assumes "\<forall>(g, bl) \<in> set gs. map_of (gm_groups m) g = Some bl"
  shows "foldl (\<lambda>(ch, m) g. let (bl, m') = gm_Ensure rng now g m in (ch @ collectGroup now g bl, m')) (acc, m) (map fst gs) =
    (acc @ concat (map (\<lambda>(g, bl). collectGroup now g bl) gs), m)"
  using assms by (induction gs arbitrary: acc) (auto simp: gm_Ensure_def)

text \<open>
  A scrape reads and never changes anything: it starts no group, reports for each tracked group the healthy, known
  and ejected backends of its list, the first and the last at most the second, and the healthy gauges agree
  with the readiness probe.
\<close>

theorem scrape_exact:
  assumes "gm_inv m"
  shows "Collect rng now m = (concat (map (\<lambda>(g, bl). collectGroup now g bl) (gm_groups m)), m) \<and>
    (\<forall>(g, bl) \<in> set (gm_groups m). 0 \<le> bl_HealthyLen bl \<and> bl_HealthyLen bl \<le> bl_Len bl \<and> 0 \<le> bl_EjectedLen now bl \<and> bl_EjectedLen now bl \<le> bl_Len bl) \<and>
    (0 < gm_HealthyLen m \<longleftrightarrow> (\<exists>x \<in> set (fst (Collect rng now m)). ga_name x = ''jbalance_backends_healthy'' \<and> 0 < ga_value x))"
proof -
  have "\<forall>(g, bl) \<in> set (gm_groups m). map_of (gm_groups m) g = Some bl"
    using assms by (auto simp: gm_inv_def gm_Groups_def map_of_is_SomeI)
  then have c: "Collect rng now m = (concat (map (\<lambda>(g, bl). collectGroup now g bl) (gm_groups m)), m)"
    using foldl_collect [of "gm_groups m" m rng now "[]"] by (simp add: Collect_def gm_Groups_def)
  have "0 < gm_HealthyLen m \<longleftrightarrow> (\<exists>(g, bl) \<in> set (gm_groups m). 0 < bl_HealthyLen bl)"
    by (auto simp: healthy_iff bl_HealthyLen_def count_if_pos_iff)
  moreover have "(\<exists>x \<in> set (fst (Collect rng now m)). ga_name x = ''jbalance_backends_healthy'' \<and> 0 < ga_value x) \<longleftrightarrow>
      (\<exists>(g, bl) \<in> set (gm_groups m). \<exists>x \<in> set (collectGroup now g bl). ga_name x = ''jbalance_backends_healthy'' \<and> 0 < ga_value x)"
    by (simp add: c case_prod_unfold)
  moreover have "(\<exists>x \<in> set (collectGroup now g bl). ga_name x = ''jbalance_backends_healthy'' \<and> 0 < ga_value x) \<longleftrightarrow> 0 < bl_HealthyLen bl"
    for g and bl :: "'a BackendList" by (simp add: collectGroup_def)
  ultimately show ?thesis using c by (auto simp: bl_HealthyLen_def bl_EjectedLen_def bl_Len_def count_if_nonneg count_if_le_length)
qed

section \<open>What a line of the access log says\<close>

text \<open>
  A JSON line determines its entry. A text line does not: the client address comes from a request header and is
  written as it is, so a client can write the fields that follow it; the line is then also that of another entry,
  with a group, a backend and a number of retries of the client's choice.
\<close>

lemma jFloat_inj: "jFloat x = jFloat y \<Longrightarrow> x = y"
  by (auto simp: jFloat_def split: if_splits)

theorem access_lines:
  assumes "inj fmtTime"
  shows "inj (accessJSON fmtTime) \<and>
    accessText (e\<lparr>le_ClientIP := c @ '' group='' @ g @ '' backend='' @ b @ '' retries='' @ FormatInt n @ '' id='' @ i\<rparr>) =
      accessText (e\<lparr>le_ClientIP := c, le_Group := g, le_Backend := b, le_Retries := n,
        le_RequestID := i @ '' group='' @ le_Group e @ '' backend='' @ le_Backend e @ '' retries='' @ FormatInt (le_Retries e) @ '' id='' @ le_RequestID e\<rparr>)"
proof
  show "inj (accessJSON fmtTime)"
  proof (rule injI)
    fix x y :: accessLogEntry
    assume "accessJSON fmtTime x = accessJSON fmtTime y"
    then show "x = y" using assms by (intro accessLogEntry.equality) (auto simp: accessJSON_def inj_eq dest: jFloat_inj)
  qed
qed (simp add: accessText_def)

end
