(* ===== verification/Spec2Isabelle.thy ===== *)
theory Spec2Isabelle
  imports BackendProps Loops Streams AdminPages Wiring
begin

text \<open>
  Jbalance, a load balancer in Go: a control plane that learns backends from a provider, lets an
  administrator change them, and publishes per-group backend sets and a route table over gRPC streams; and
  data planes that receive them and proxy HTTP and TCP traffic. This library models both planes and their
  composition.

  \<^bold>\<open>The parts of the program and their theories\<close> (source paths are below \<open>src/\<close>)

  \<^item> Shared ground. \<open>Prelude\<close>: 64-bit integers with wrap-around, time and durations, strings, list updates,
    the random number stream, the collections \<open>defs\<close> and \<open>bounds\<close>. \<open>Float64\<close>: rounding to 53 bits.
    \<open>NetAddr\<close>: addresses, trimming, decimal numbers. \<open>Text\<close>: lists in text fields. \<open>Http\<close>: headers, requests, the
    response writers.
    \<open>Wire\<close>: the messages of \<open>proto/controlplane.pb.go\<close>. \<open>Versioned\<close>: the locale of a receiver that
    ignores what is not newer, interpreted on backend lists and route tables. \<open>Json\<close>: documents, the
    decoding of structs by field name, and a write to a temporary file that is renamed.
  \<^item> Data plane (\<open>internal/dataplane\<close>). \<open>RateLimit\<close>: \<open>ratelimit.go\<close>. \<open>Backends\<close>: the state of \<open>BackendList\<close>
    in \<open>backends.go\<close> with health, ejection, updates. \<open>HashRing\<close> and \<open>Selection\<close>: the five algorithms of the same
    file. \<open>Router\<close>: \<open>router.go\<close>. \<open>EdgeAuth\<close>: \<open>edgeauth.go\<close>. \<open>HealthCheck\<close>: \<open>healthcheck.go\<close>. \<open>Metrics\<close>:
    \<open>metrics.go\<close>. \<open>GroupMgr\<close>: \<open>groups.go\<close>. \<open>Proxy\<close>: \<open>proxy.go\<close>, \<open>retrywriter.go\<close> and the client address of
    \<open>accesslog.go\<close>. \<open>Middleware\<close>: \<open>recovery.go\<close>, the middleware of \<open>accesslog.go\<close> and the chain of handlers.
    \<open>TcpProxy\<close>: \<open>tcpproxy.go\<close>. \<open>Subscriber\<close>: \<open>subscriber.go\<close>, \<open>routesubscriber.go\<close>, \<open>healthreporter.go\<close>,
    \<open>metricsreporter.go\<close>.
  \<^item> Control plane. \<open>Pool\<close>: the fake and the file provider of \<open>internal/pool\<close>. \<open>CloudPools\<close>: the Kubernetes and
    the Azure provider, with the answers of the APIs as arguments. \<open>Stores\<close> and \<open>RouteStore\<close>: the
    stores of \<open>internal/controlplane\<close> (\<open>overrides.go\<close>, \<open>algorithm.go\<close>, \<open>sticky.go\<close>, \<open>ratelimit.go\<close>,
    \<open>routes.go\<close>, \<open>blobstore.go\<close>). \<open>Server\<close>: \<open>server.go\<close> and \<open>metricshistory.go\<close>. \<open>Streams\<close>: the server with its
    data planes as one system.
  \<^item> \<open>Loops\<close>: the loops that a ticker drives, of the server, the health checker, the reporters and the fake pool.
  \<^item> Admin interface (\<open>internal/admin\<close>). \<open>Admin\<close>: \<open>ratelimit.go\<close>, \<open>session.go\<close>, \<open>store.go\<close>, \<open>audit.go\<close> and the
    sign-in handlers. \<open>RouteForm\<close>: the routes editor of \<open>handlers.go\<close>. \<open>AdminHandlers\<close>: the other forms and
    the dispatch. \<open>AdminPages\<close>: the data each page is rendered from, the fields the templates of \<open>templates.go\<close> use, and the forms
    of the dashboard.
  \<^item> Commands and what they share. \<open>Certs\<close>: \<open>internal/tlsutil\<close>. \<open>GrpcAuth\<close>: \<open>internal/grpcauth\<close> and
    \<open>internal/dataplane/grpcdial.go\<close>. \<open>Config\<close>: \<open>internal/config/validate.go\<close>. \<open>Startup\<close>: \<open>cmd/dataplane/main.go\<close>
    with \<open>internal/envflag\<close>. \<open>ControlMain\<close>: \<open>cmd/controlplane/main.go\<close>. \<open>Flags\<close>: the flag tables of both with their environment
    variables, and the command line. \<open>Tracing\<close>: \<open>internal/tracing\<close>. \<open>Wiring\<close>: the logger of \<open>internal/logging\<close>, the tracer of a
    running instance, the backends collector of \<open>metrics.go\<close>, the lines of the access log.

  \<^bold>\<open>How the model corresponds to the code\<close>

  A struct is a record with a field per Go field and a prefix of its own (\<open>bl_\<close> for \<open>BackendList\<close>, \<open>sv_\<close> for the
  control-plane \<open>Server\<close>); a method is a function of the same name, with the prefix where two types share one,
  from the state to the result and the new state. A method that takes one mutex is one function; where the
  code releases a lock in between, the parts are functions of their own (\<open>prepareSet\<close> and \<open>commitSet\<close> of
  \<open>publishIfChanged\<close>, \<open>buildTable\<close> and \<open>commitRoutes\<close> of \<open>publishRoutes\<close>, \<open>Accept\<close> and \<open>connStarted\<close> of the TCP proxy's
  accept loop), and \<open>Streams\<close> and \<open>TcpProxy\<close> interleave them. There are two exceptions. \<open>bl_NextForKey\<close> is one step
  although the code releases the lock of the list between reading the slots and counting the connection, so a
  selection that overlaps an update, whose count is lost with the entry it was made on, is not covered. And a change
  of a store is one step with its file in \<open>ControlMain\<close>, although the file is written after the lock is released;
  \<open>Stores\<close> has the race (\<open>concurrent_sets_lose\<close>). What a call reads from outside is an argument: the time, the draws of the random generator, the
  outcome of a system call, of a dial, of a backend's answer. An error is a value; a panic is an outcome of
  its own. A Go map whose order is never observed is a map, otherwise an association list. Code that is not
  in the repository is a parameter: the token bucket of \<open>golang.org/x/time/rate\<close>, the JWT, X.509 and PEM parsers,
  hostname verification, bcrypt, HMAC and random secrets, the base64 and time formats, the Kubernetes and
  Azure APIs. What a property needs of them is a named hypothesis of it.

  An interface of the code is a locale, interpreted on every implementation: \<open>response_writer\<close> (the writers of
  \<open>net/http\<close> and of a buffered attempt), \<open>pool_provider\<close> and \<open>provider\<close> (the four pools), \<open>blob_store\<close> (files,
  Postgres, and the interface value), \<open>settings_store\<close> with \<open>map_file_store\<close> (the stores with a JSON file),
  \<open>versioned_receiver\<close> (backend lists and route tables).

  \<^bold>\<open>What the lemmas show\<close>

  \<^item> \<open>BackendProps\<close>: the invariant of the list under every operation; the ejection valve; a selection is sound
    and complete; round robin is exactly proportional, least connections minimal, consistent hashing moves
    only the keys of the backend that left, as long as no two points of the ring have the same hash (\<open>sort.Slice\<close> may leave
    equal ones in any order); the lazy rebuild equals an eager one; stamped updates converge.
  \<^item> \<open>ProxyProps\<close>: authentication comes first; attempts are bounded; no connection count leaks; a request is
    counted once, as it was answered.
  \<^item> \<open>Router\<close>, \<open>EdgeAuth\<close>, \<open>HealthCheck\<close>, \<open>Metrics\<close>, \<open>GroupMgr\<close>: first match decides, splits are proportional, keys
    and tokens are checked under their own algorithm, thresholds detect and do not flap, the three outputs of
    the metrics agree, a group is created once.
  \<^item> \<open>TcpProxy\<close>: over all interleavings the counts are those of the live connections, and \<open>Drain\<close> is exact
    once the accept loop holds no connection that is not counted. Updates of the backend list are left out there.
  \<^item> \<open>Stores\<close>, \<open>RouteStore\<close>: settings and rules survive a restart, a file is never half written. The locales
    \<open>settings_store\<close> and \<open>blob_store\<close> are what the server relies on; each is interpreted on every store.
  \<^item> \<open>ServerProps\<close>: the published rules decide like the rules of the control plane;
    when two sets count as equal; the traffic history accounts for the fleet's counters.
  \<^item> \<open>Streams\<close>: the system of control plane and data planes refines the log of publications: each data plane shows
    one of the published sets and never goes back, and a stream that dropped nothing catches up; a drain lasts, up to sets
    that were built before it.
  \<^item> \<open>Subscriber\<close>: the reconnect loop never gives up, waits 1 to 30 seconds, returns when it is stopped, and loses
    nothing that was delivered.
  \<^item> \<open>Loops\<close>: while the control plane runs, what is published follows the provider through its failures; over every
    interleaving of probes with traffic and updates, a backend that fails its probes gets no request until one succeeds or it
    is taken out of the list.
  \<^item> \<open>AdminProps\<close>, \<open>RouteForm\<close>, \<open>AdminHandlers\<close>: lockout, sessions, password change, the audit log; which rules the
    notation of the editor keeps; nothing is changed but by a signed-in administrator with the CSRF token.
  \<^item> \<open>AdminPages\<close>: a settings form saved as it is shown changes nothing that is published; which pages can be
    rendered; ages are rounded down in their unit.
  \<^item> \<open>Middleware\<close>: a request through the chain is answered with its id and, if its handler returns, logged as it was answered,
    when backends send no interim responses; the connection limit over all interleavings; panics are contained.
  \<^item> \<open>Certs\<close>: every handshake gets a certificate, a rotated one is picked up when modification times tell the files apart. \<open>GrpcAuth\<close>: exactly the calls with the
    token are served. \<open>CloudPools\<close>: exactly the ready endpoints and running instances are reported.
  \<^item> \<open>Startup\<close>, \<open>ControlMain\<close>: a configuration that passes validation starts and is in force; the probes tell the
    truth; the printed password is the one that is accepted; the groups in the settings are the groups
    served; what an administrator stored is what the next start of the control plane serves.
  \<^item> \<open>Flags\<close>: a flag beats its variable and the variable its default; values keep their kind; without settings both
    commands start, if their ports can be bound and the admin store be opened, and fit together; durations are read as they are written.
  \<^item> \<open>Wiring\<close>: logger and tracer are as the settings say; a scrape changes nothing and agrees with the
    readiness probe; a JSON line of the access log determines its entry.
  \<^item> Where the code does not do what it means to, a theorem says so: versions restart after a restart of the
    control plane (\<open>restart_ignored\<close>), a settings change can be lost (\<open>algorithm_change_lost\<close>), races
    (\<open>routes_publish_race\<close>, \<open>drain_overtaken\<close>, \<open>drain_misses_accepted\<close>, \<open>other_stream_shown_disconnected\<close>), interim responses that hide the
    status of the answer (\<open>interim_hides_status\<close>), a failing backend that is healthy when it comes back (\<open>readded_healthy\<close>), a lost write (\<open>concurrent_sets_lose\<close>), an open route
    (\<open>unknown_auth_mode_open\<close>, \<open>rsa_rule_opened\<close>), a failed password change in force (\<open>password_failure_in_force\<close>), upgrades that are
    refused (\<open>upgrade_refused\<close>), a rotation that is lost (\<open>rotation_lost\<close>), addresses nobody can dial
    (\<open>ipv6_unreachable\<close>), intervals that are not validated (\<open>unchecked_interval\<close>), a drain nobody waits for
    (\<open>drain_not_awaited\<close>), integers that mean different numbers as flag and as variable (\<open>octal_flag\<close>), a listener that
    its variable cannot turn off (\<open>ops_variable_cannot_disable\<close>), a page that cannot be rendered (\<open>pages_render\<close>), an age
    counted from the wrong moment (\<open>disconnected_age\<close>), a weight form that ends a drain (\<open>weight_form_undrains\<close>), a
    sampling ratio of 0 that traces everything (\<open>sample_zero_samples_all\<close>), a response timeout without effect
    (\<open>backend_limits\<close>), log lines a client can forge (\<open>access_lines\<close>).

  \<^bold>\<open>Bounds\<close>

  Loops are recursions on the data they traverse and need no fuel. The search for a free port of the fake
  provider ends because a group has fewer backends than there are ports; the retry loop recurses on the
  attempts left. A data plane's channel holds four updates. Durations and 64-bit counters wrap where they can;
  versions, counts of connections and of attempts are unbounded integers. A handler of the admin
  interface reads the clock once.

  \<^bold>\<open>Not modelled\<close>

  The gRPC stubs and descriptors (generated), sockets and the half-close of TCP connections, TLS handshakes,
  the moments at which the parts of a streamed HTTP response reach the client (a response is written as a whole) and its trailers,
  the Prometheus registry, the handlers of \<open>slog\<close> and the text of application log lines, the
  OpenTelemetry SDK, the markup, styles and scripts of the pages, the clients of the Kubernetes and Azure APIs, the parsing
  of floats, signals and the shutdown of the HTTP and gRPC servers. What is left of
  the code is generated, markup, or calls into libraries whose effect is outside the process. Infinities and
  NaNs of \<open>float64\<close> occur only in the settings; white space is that of ASCII.
\<close>

end
